(* ===== verification/GoPrelude.thy ===== *)
theory GoPrelude
  imports
    Main
    "HOL-Library.AList"
    "HOL-Library.Char_ord"
    "HOL-Library.List_Lexorder"
    "HOL-Library.Product_Lexorder"
    "HOL-Library.Multiset"
    "HOL-Library.Word"
begin

text \<open>
  The part of the Go language and runtime every component of the service relies on: error
  values and their wrapping (\<^verbatim>\<open>errors.Is\<close>, \<^verbatim>\<open>errors.As\<close>, \<^verbatim>\<open>fmt.Errorf\<close> with \<^verbatim>\<open>%w\<close>), maps and the
  loops that range over them, and the type abbreviations the components share.

  A Go map is an association list with distinct keys. Its order stands for the iteration
  order, which Go leaves open: every theorem quantifies over the list, so over every order
  the runtime may pick. Instants and durations are integers counting nanoseconds.
\<close>

named_theorems gomap_simps \<open>lookup after an update, a delete or a ranging delete of a map\<close>
named_theorems err_simps \<open>what errors.Is sees through a wrapped error\<close>

subsection \<open>Time\<close>

type_synonym time = int
type_synonym duration = int

definition Millisecond :: duration where
  "Millisecond = 1000000"

definition Second :: duration where
  "Second = 1000 * Millisecond"

definition Minute :: duration where
  "Minute = 60 * Second"

lemmas duration_defs = Millisecond_def Second_def Minute_def

subsection \<open>Error values\<close>

text \<open>
  A value of Go's \<^verbatim>\<open>error\<close> interface, over the sentinels \<open>'s\<close> of a package:
  a sentinel itself, a foreign error known only by its text, an error reported by the PostgreSQL server (its
  SQLSTATE code and text), \<^verbatim>\<open>fmt.Errorf("msg: %w", err)\<close>,
  \<^verbatim>\<open>fmt.Errorf("%w: msg", err)\<close>, \<^verbatim>\<open>fmt.Errorf("%w: %w", a, b)\<close>, and the \<^verbatim>\<open>unavailableError\<close>
  struct of the circuit-breaker decorators, whose \<^verbatim>\<open>Is\<close> method answers for one sentinel and
  which has no \<^verbatim>\<open>Unwrap\<close>.
\<close>

datatype 's gerr =
    Sentinel 's
  | Opaque string
  | PgError string string
  | WrapPre string "'s gerr"
  | WrapPost "'s gerr" string
  | WrapBoth "'s gerr" "'s gerr"
  | UnavailErr 's "'s gerr" duration

primrec errors_Is :: "'s gerr \<Rightarrow> 's \<Rightarrow> bool" where
  "errors_Is (Sentinel s) t = (s = t)"
| "errors_Is (Opaque m) t = False"
| "errors_Is (PgError code m) t = False"
| "errors_Is (WrapPre m e) t = errors_Is e t"
| "errors_Is (WrapPost e m) t = errors_Is e t"
| "errors_Is (WrapBoth a b) t = (errors_Is a t \<or> errors_Is b t)"
| "errors_Is (UnavailErr u c r) t = (u = t)"

declare errors_Is.simps [err_simps]

text \<open>\<^verbatim>\<open>errors.As\<close> with the \<^verbatim>\<open>RetryAfter() time.Duration\<close> interface: the first error of the tree that has it.\<close>

primrec errors_As_RetryAfter :: "'s gerr \<Rightarrow> duration option" where
  "errors_As_RetryAfter (Sentinel s) = None"
| "errors_As_RetryAfter (Opaque m) = None"
| "errors_As_RetryAfter (PgError code m) = None"
| "errors_As_RetryAfter (WrapPre m e) = errors_As_RetryAfter e"
| "errors_As_RetryAfter (WrapPost e m) = errors_As_RetryAfter e"
| "errors_As_RetryAfter (WrapBoth a b) =
     (case errors_As_RetryAfter a of Some r \<Rightarrow> Some r | None \<Rightarrow> errors_As_RetryAfter b)"
| "errors_As_RetryAfter (UnavailErr u c r) = Some r"

text \<open>\<^verbatim>\<open>errors.As\<close> with \<^verbatim>\<open>*pgconn.PgError\<close>: the SQLSTATE code of the first server error of the tree.\<close>

primrec errors_As_PgError :: "'s gerr \<Rightarrow> string option" where
  "errors_As_PgError (Sentinel s) = None"
| "errors_As_PgError (Opaque m) = None"
| "errors_As_PgError (PgError code m) = Some code"
| "errors_As_PgError (WrapPre m e) = errors_As_PgError e"
| "errors_As_PgError (WrapPost e m) = errors_As_PgError e"
| "errors_As_PgError (WrapBoth a b) =
     (case errors_As_PgError a of Some c \<Rightarrow> Some c | None \<Rightarrow> errors_As_PgError b)"
| "errors_As_PgError (UnavailErr u c r) = None"

text \<open>The text \<^verbatim>\<open>err.Error()\<close> returns, given the text of each sentinel.\<close>

primrec error_text :: "('s \<Rightarrow> string) \<Rightarrow> 's gerr \<Rightarrow> string" where
  "error_text txt (Sentinel s) = txt s"
| "error_text txt (Opaque m) = m"
| "error_text txt (PgError code m) = m"
| "error_text txt (WrapPre m e) = m @ '': '' @ error_text txt e"
| "error_text txt (WrapPost e m) = error_text txt e @ '': '' @ m"
| "error_text txt (WrapBoth a b) = error_text txt a @ '': '' @ error_text txt b"
| "error_text txt (UnavailErr u c r) = txt u @ '': '' @ error_text txt c"

text \<open>The result of a Go function returning \<^verbatim>\<open>(T, error)\<close>, and of one that also changes state.\<close>

type_synonym ('s, 'a) res = "'s gerr + 'a"
type_synonym ('s, 'a, 'st) op = "'st \<Rightarrow> ('s, 'a) res \<times> 'st"

subsection \<open>Maps\<close>

type_synonym ('k, 'v) gomap = "('k \<times> 'v) list"

abbreviation gomap_wf :: "('k, 'v) gomap \<Rightarrow> bool" where
  "gomap_wf m \<equiv> distinct (map fst m)"

text \<open>\<^verbatim>\<open>for k, v := range m { if p(k, v) { delete(m, k) } }\<close>\<close>

definition range_delete :: "('k \<Rightarrow> 'v \<Rightarrow> bool) \<Rightarrow> ('k, 'v) gomap \<Rightarrow> ('k, 'v) gomap" where
  "range_delete p m = filter (\<lambda>(k, v). \<not> p k v) m"

lemma map_of_filter_wf:
  assumes "gomap_wf m"
  shows "map_of (filter (\<lambda>(k, v). P k v) m) x =
    (case map_of m x of None \<Rightarrow> None | Some v \<Rightarrow> if P x v then Some v else None)"
  using assms
proof (induction m)
  case Nil
  then show ?case by simp
next
  case (Cons a m)
  obtain k v where a: "a = (k, v)" by (cases a)
  from Cons.prems a have k: "map_of m k = None"
    by (auto simp: map_of_eq_None_iff)
  with Cons a show ?case by auto
qed

lemma gomap_wf_filter [simp, intro]: "gomap_wf m \<Longrightarrow> gomap_wf (filter P m)"
  by (rule distinct_map_filter)

lemma gomap_wf_update [simp, intro]: "gomap_wf m \<Longrightarrow> gomap_wf (AList.update k v m)"
  by (rule distinct_update)

lemma gomap_wf_delete [simp, intro]: "gomap_wf m \<Longrightarrow> gomap_wf (AList.delete k m)"
  by (rule distinct_delete)

lemma gomap_wf_range_delete [simp, intro]: "gomap_wf m \<Longrightarrow> gomap_wf (range_delete p m)"
  by (simp add: range_delete_def)

lemma map_of_update [gomap_simps]:
  "map_of (AList.update k v m) x = (if x = k then Some v else map_of m x)"
  by (simp add: update_conv')

lemma map_of_delete [gomap_simps]:
  "map_of (AList.delete k m) x = (if x = k then None else map_of m x)"
  by (simp add: delete_conv')

lemma map_of_range_delete [gomap_simps]:
  "gomap_wf m \<Longrightarrow> map_of (range_delete p m) x =
    (case map_of m x of None \<Rightarrow> None | Some v \<Rightarrow> if p x v then None else Some v)"
  by (simp add: range_delete_def map_of_filter_wf split: option.split)

text \<open>The values a loop over the map visits.\<close>

abbreviation gomap_values :: "('k, 'v) gomap \<Rightarrow> 'v list" where
  "gomap_values m \<equiv> map snd m"

lemma set_gomap_values: "gomap_wf m \<Longrightarrow> set (gomap_values m) = ran (map_of m)"
  by (simp add: ran_distinct)

text \<open>A map whose entries are stored under a key of the value itself has no value twice.\<close>

lemma distinct_gomap_values:
  assumes "gomap_wf m" and "\<forall>(k, v) \<in> set m. key v = k"
  shows "distinct (gomap_values m)"
proof -
  have "map key (gomap_values m) = map fst m"
    using assms(2) by (induction m) auto
  with assms(1) have "distinct (map key (gomap_values m))" by metis
  then show ?thesis unfolding distinct_map by (rule conjunct1)
qed

subsection \<open>Sorting by a key\<close>

text \<open>
  \<^verbatim>\<open>sort.Slice\<close> is not stable, but when no two elements share a key the sorted order is unique:
  any sorted list with the same elements is the one \<^const>\<open>sort_key\<close> computes.
\<close>

lemma sort_key_unique:
  assumes "sorted (map f ys)" and "mset ys = mset xs" and "inj_on f (set xs)"
  shows "sort_key f xs = ys"
  by (rule sort_key_inj_key_eq) (use assms in simp_all)

lemma sort_key_mset_cong:
  assumes "mset xs = mset ys" and "inj_on f (set xs)"
  shows "sort_key f xs = sort_key f ys"
  by (rule sort_key_unique) (use assms in simp_all)

end
