(* ===== verification/GoStrings.thy ===== *)
theory GoStrings
  imports GoPrelude
begin

text \<open>
  The string functions of Go's standard library that the service calls. A Go string is a
  sequence of bytes, here a list of \<^typ>\<open>char\<close>; code points are natural numbers.
  \<^verbatim>\<open>utf8\<close> decoding follows the library: an invalid byte is one rune U+FFFD of width 1. The Unicode
  case table (\<^verbatim>\<open>unicode.ToLower\<close> above U+007F) is data of the library and an argument here.
\<close>

subsection \<open>Bytes and ASCII classes\<close>

abbreviation byte :: "char \<Rightarrow> nat" where
  "byte c \<equiv> of_char c"

definition is_digit :: "char \<Rightarrow> bool" where
  "is_digit c \<longleftrightarrow> 48 \<le> byte c \<and> byte c \<le> 57"

definition is_hex :: "char \<Rightarrow> bool" where
  "is_hex c \<longleftrightarrow> is_digit c \<or> (97 \<le> byte c \<and> byte c \<le> 102) \<or> (65 \<le> byte c \<and> byte c \<le> 70)"

definition ascii_lower :: "char \<Rightarrow> char" where
  "ascii_lower c = (if 65 \<le> byte c \<and> byte c \<le> 90 then char_of (byte c + 32) else c)"

lemma ascii_lower_idem [simp]: "ascii_lower (ascii_lower c) = ascii_lower c"
  by (simp add: ascii_lower_def)

subsection \<open>Decimal integers: strconv.Itoa, strconv.Atoi\<close>

definition digit_char :: "nat \<Rightarrow> char" where
  "digit_char d = ''0123456789'' ! d"

fun show_nat :: "nat \<Rightarrow> string" where
  "show_nat n = (if n < 10 then [digit_char n] else show_nat (n div 10) @ [digit_char (n mod 10)])"

declare show_nat.simps [simp del]

definition Itoa :: "int \<Rightarrow> string" where
  "Itoa i = (if i < 0 then CHR ''-'' # show_nat (nat (- i)) else show_nat (nat i))"

fun digits_val :: "nat \<Rightarrow> string \<Rightarrow> nat option" where
  "digits_val acc [] = Some acc"
| "digits_val acc (c # cs) =
     (if is_digit c then digits_val (acc * 10 + (byte c - 48)) cs else None)"

text \<open>
  \<^verbatim>\<open>strconv.Atoi\<close>: an optional sign and at least one decimal digit, and the value must fit in a
  64-bit \<^verbatim>\<open>int\<close>; \<open>None\<close> is its error (syntax or range).
\<close>

definition Atoi :: "string \<Rightarrow> int option" where
  "Atoi s =
     (let (neg, ds) = (case s of [] \<Rightarrow> (False, []) | c # cs \<Rightarrow>
            if c = CHR ''-'' then (True, cs) else if c = CHR ''+'' then (False, cs) else (False, s))
      in if ds = [] then None
         else case digits_val 0 ds of
           None \<Rightarrow> None
         | Some n \<Rightarrow> (let v = (if neg then - int n else int n) in
             if - (2 ^ 63) \<le> v \<and> v < 2 ^ 63 then Some v else None))"

lemma below_10: "d < (10 :: nat) \<Longrightarrow> d \<in> {0, 1, 2, 3, 4, 5, 6, 7, 8, 9}"
  by auto

lemma byte_digit_char [simp]: "d < 10 \<Longrightarrow> byte (digit_char d) = 48 + d"
  by (drule below_10) (elim insertE; simp add: digit_char_def)

lemma is_digit_digit_char [simp]: "d < 10 \<Longrightarrow> is_digit (digit_char d)"
  by (simp add: is_digit_def)

lemma digits_val_append:
  "digits_val a (xs @ ys) = Option.bind (digits_val a xs) (\<lambda>b. digits_val b ys)"
  by (induction xs arbitrary: a) auto

lemma show_nat_not_Nil [simp]: "show_nat n \<noteq> []"
  by (subst show_nat.simps) simp

lemma show_nat_digits: "\<forall>c \<in> set (show_nat n). is_digit c"
proof (induction n rule: show_nat.induct)
  case (1 n)
  then show ?case by (auto simp: show_nat.simps [of n])
qed

lemma digits_val_show_nat: "digits_val 0 (show_nat n) = Some n"
proof (induction n rule: show_nat.induct)
  case (1 n)
  then show ?case
    by (cases "n < 10") (auto simp: show_nat.simps [of n] digits_val_append)
qed

lemma show_nat_inject [simp]: "show_nat a = show_nat b \<longleftrightarrow> a = b"
  using digits_val_show_nat by (metis option.inject)

lemma show_nat_no_sign: "c \<in> set (show_nat n) \<Longrightarrow> c \<noteq> CHR ''-'' \<and> c \<noteq> CHR ''+''"
  using show_nat_digits [of n] by (auto simp: is_digit_def)

lemma Itoa_inject [simp]: "Itoa a = Itoa b \<longleftrightarrow> a = b"
proof -
  have "hd (show_nat n) \<noteq> CHR ''-''" for n
    using show_nat_no_sign [of "hd (show_nat n)" n] by simp
  then show ?thesis
    by (auto simp: Itoa_def split: if_splits) (metis list.sel(1))+
qed

lemma Atoi_Itoa:
  assumes "- (2 ^ 63) \<le> i" and "i < 2 ^ 63"
  shows "Atoi (Itoa i) = Some i"
proof (cases "i < 0")
  case True
  then show ?thesis using assms
    by (simp add: Atoi_def Itoa_def digits_val_show_nat)
next
  case False
  obtain c cs where s: "show_nat (nat i) = c # cs"
    using show_nat_not_Nil by (metis list.exhaust)
  moreover from s have "c \<noteq> CHR ''-''" "c \<noteq> CHR ''+''"
    using show_nat_no_sign [of c "nat i"] by simp_all
  moreover from s have "digits_val 0 (c # cs) = Some (nat i)"
    using digits_val_show_nat [of "nat i"] by simp
  ultimately show ?thesis using False assms
    by (simp add: Atoi_def Itoa_def del: digits_val.simps)
qed

lemma Atoi_range: "Atoi s = Some v \<Longrightarrow> - (2 ^ 63) \<le> v \<and> v < 2 ^ 63"
  by (auto simp: Atoi_def Let_def split: list.splits if_splits option.splits)

subsection \<open>Hexadecimal: fmt's %x on byte slices\<close>

definition hex_char :: "nat \<Rightarrow> char" where
  "hex_char d = ''0123456789abcdef'' ! d"

lemma below_16: "d < (16 :: nat) \<Longrightarrow> d \<in> {0, 1, 2, 3, 4, 5, 6, 7, 8, 9, 10, 11, 12, 13, 14, 15}"
  by simp presburger

definition hex_byte :: "8 word \<Rightarrow> string" where
  "hex_byte b = [hex_char (unat b div 16), hex_char (unat b mod 16)]"

definition hex_bytes :: "8 word list \<Rightarrow> string" where
  "hex_bytes bs = concat (map hex_byte bs)"

lemma is_hex_hex_char [simp]: "d < 16 \<Longrightarrow> is_hex (hex_char d)"
  by (drule below_16) (elim insertE; simp add: hex_char_def is_hex_def is_digit_def)

lemma ascii_lower_hex_char [simp]: "d < 16 \<Longrightarrow> ascii_lower (hex_char d) = hex_char d"
  by (drule below_16) (elim insertE; simp add: hex_char_def ascii_lower_def)

lemma unat_byte_nibbles [simp]: "unat (b :: 8 word) div 16 < 16"
  using unsigned_less [of b, where 'a = nat] by (simp add: less_mult_imp_div_less)

lemma hex_bytes_simps [simp]:
  "hex_bytes [] = []" "hex_bytes (b # bs) = hex_byte b @ hex_bytes bs"
  by (simp_all add: hex_bytes_def)

lemma length_hex_bytes [simp]: "length (hex_bytes bs) = 2 * length bs"
  by (induction bs) (simp_all add: hex_byte_def)

lemma hex_bytes_hex: "c \<in> set (hex_bytes bs) \<Longrightarrow> is_hex c \<and> ascii_lower c = c"
  by (induction bs) (auto simp: hex_byte_def)

lemma hex_char_inject: "a < 16 \<Longrightarrow> b < 16 \<Longrightarrow> hex_char a = hex_char b \<Longrightarrow> a = b"
  unfolding hex_char_def by (subst (asm) nth_eq_iff_index_eq) simp_all

lemma hex_byte_inject: "hex_byte a = hex_byte b \<Longrightarrow> a = b"
proof -
  assume "hex_byte a = hex_byte b"
  then have "unat a div 16 = unat b div 16" "unat a mod 16 = unat b mod 16"
    by (auto simp: hex_byte_def intro: hex_char_inject)
  then have "unat a = unat b" by (metis div_mult_mod_eq)
  then show ?thesis by (simp add: word_unat_eq_iff)
qed

lemma hex_byte_append_inject: "hex_byte a @ xs = hex_byte b @ ys \<Longrightarrow> a = b \<and> xs = ys"
  by (metis append_eq_append_conv hex_byte_def hex_byte_inject length_Cons)

lemma hex_bytes_inject: "hex_bytes as = hex_bytes bs \<Longrightarrow> as = bs"
proof (induction as arbitrary: bs)
  case Nil
  then show ?case by (cases bs) (auto simp: hex_byte_def)
next
  case (Cons a as)
  then obtain b bs' where "bs = b # bs'" by (cases bs) (auto simp: hex_byte_def)
  with Cons show ?case by (auto dest: hex_byte_append_inject)
qed

subsection \<open>UTF-8: runes and their count\<close>

definition cont_byte :: "char \<Rightarrow> bool" where
  "cont_byte c \<longleftrightarrow> 128 \<le> byte c \<and> byte c \<le> 191"

text \<open>
  The first rune of a string and the number of bytes it takes, as \<^verbatim>\<open>utf8.DecodeRuneInString\<close>
  computes them: overlong forms, surrogates, values above U+10FFFF and truncated sequences are
  U+FFFD of width 1.
\<close>

fun decode_rune :: "string \<Rightarrow> nat \<times> nat" where
  "decode_rune [] = (65533, 0)"
| "decode_rune (c0 # cs) =
     (let b0 = byte c0 in
      if b0 < 128 then (b0, 1)
      else case cs of [] \<Rightarrow> (65533, 1) | c1 # cs1 \<Rightarrow>
        if 194 \<le> b0 \<and> b0 \<le> 223 \<and> cont_byte c1
        then ((b0 - 192) * 64 + (byte c1 - 128), 2)
        else case cs1 of [] \<Rightarrow> (65533, 1) | c2 # cs2 \<Rightarrow>
          if 224 \<le> b0 \<and> b0 \<le> 239 \<and> cont_byte c1 \<and> cont_byte c2 \<and>
             (b0 = 224 \<longrightarrow> 160 \<le> byte c1) \<and> (b0 = 237 \<longrightarrow> byte c1 \<le> 159)
          then ((b0 - 224) * 4096 + (byte c1 - 128) * 64 + (byte c2 - 128), 3)
          else case cs2 of [] \<Rightarrow> (65533, 1) | c3 # cs3 \<Rightarrow>
            if 240 \<le> b0 \<and> b0 \<le> 244 \<and> cont_byte c1 \<and> cont_byte c2 \<and> cont_byte c3 \<and>
               (b0 = 240 \<longrightarrow> 144 \<le> byte c1) \<and> (b0 = 244 \<longrightarrow> byte c1 \<le> 143)
            then ((b0 - 240) * 262144 + (byte c1 - 128) * 4096 + (byte c2 - 128) * 64
                  + (byte c3 - 128), 4)
            else (65533, 1))"

lemma decode_rune_width: "1 \<le> snd (decode_rune (c # cs)) \<and> snd (decode_rune (c # cs)) \<le> Suc (length cs)"
  by (auto simp: Let_def split: list.splits)

declare decode_rune.simps [simp del]

text \<open>The runes a \<^verbatim>\<open>for range\<close> loop or a \<^verbatim>\<open>[]rune\<close> conversion sees, each with its bytes.\<close>

function chunks :: "string \<Rightarrow> (nat \<times> string) list" where
  "chunks [] = []"
| "chunks (c # cs) =
     (let (r, w) = decode_rune (c # cs)
      in (r, take w (c # cs)) # chunks (drop w (c # cs)))"
  by pat_completeness auto
termination
proof (relation "measure length", goal_cases)
  case (2 c cs x r w)
  then have "w = snd (decode_rune (c # cs))" by (metis snd_conv)
  with decode_rune_width [of c cs] show ?case by simp
qed simp

definition runes :: "string \<Rightarrow> nat list" where
  "runes s = map fst (chunks s)"

definition RuneCountInString :: "string \<Rightarrow> nat" where
  "RuneCountInString s = length (chunks s)"

lemma concat_chunks [simp]: "concat (map snd (chunks s)) = s"
  by (induction s rule: chunks.induct) (auto split: prod.splits)

lemma RuneCountInString_le_length: "RuneCountInString s \<le> length s"
proof (induction s rule: chunks.induct)
  case (2 c cs)
  obtain r w where d: "decode_rune (c # cs) = (r, w)" by (cases "decode_rune (c # cs)")
  with decode_rune_width [of c cs] have w: "1 \<le> w" "w \<le> Suc (length cs)" by simp_all
  from 2 d have "length (chunks (drop w (c # cs))) \<le> Suc (length cs) - w"
    by (simp add: RuneCountInString_def)
  with w d show ?case by (simp add: RuneCountInString_def)
qed (simp add: RuneCountInString_def)

subsection \<open>White space: unicode.IsSpace, strings.TrimSpace\<close>

definition IsSpace :: "nat \<Rightarrow> bool" where
  "IsSpace r \<longleftrightarrow> (9 \<le> r \<and> r \<le> 13) \<or> r = 32 \<or> r = 133 \<or> r = 160 \<or> r = 5760 \<or>
     (8192 \<le> r \<and> r \<le> 8202) \<or> r = 8232 \<or> r = 8233 \<or> r = 8239 \<or> r = 8287 \<or> r = 12288"

definition TrimSpace :: "string \<Rightarrow> string" where
  "TrimSpace s =
     concat (map snd (rev (dropWhile (IsSpace \<circ> fst)
       (rev (dropWhile (IsSpace \<circ> fst) (chunks s))))))"

subsection \<open>strings.ToLower, Split and Join\<close>

text \<open>
  \<^verbatim>\<open>strings.ToLower\<close>: byte-wise on a string of ASCII bytes, otherwise rune by rune with
  the Unicode table \<open>ulower\<close>, which the caller of the model supplies as the bytes of the lower case
  of each non-ASCII rune.
\<close>

definition ToLower :: "(nat \<Rightarrow> string) \<Rightarrow> string \<Rightarrow> string" where
  "ToLower ulower s =
     (if \<forall>c \<in> set s. byte c < 128 then map ascii_lower s
      else concat (map (\<lambda>(r, bs). if r < 128 then map ascii_lower bs else ulower r) (chunks s)))"

fun Split :: "char \<Rightarrow> string \<Rightarrow> string list" where
  "Split sep [] = [[]]"
| "Split sep (c # cs) =
     (if c = sep then [] # Split sep cs
      else case Split sep cs of [] \<Rightarrow> [[c]] | w # ws \<Rightarrow> (c # w) # ws)"

fun Join :: "string \<Rightarrow> string list \<Rightarrow> string" where
  "Join sep [] = []"
| "Join sep [x] = x"
| "Join sep (x # y # ys) = x @ sep @ Join sep (y # ys)"

lemma Split_not_Nil [simp]: "Split sep s \<noteq> []"
  by (induction s) (auto split: list.splits)

lemma Split_no_sep: "sep \<notin> set x \<Longrightarrow> Split sep x = [x]"
  by (induction x) auto

lemma Split_append_sep: "sep \<notin> set x \<Longrightarrow> Split sep (x @ sep # ys) = x # Split sep ys"
  by (induction x) auto

text \<open>Joining with a separator the parts do not contain loses nothing.\<close>

lemma Split_Join:
  assumes "xs \<noteq> []" and "\<forall>x \<in> set xs. sep \<notin> set x"
  shows "Split sep (Join [sep] xs) = xs"
  using assms
proof (induction "[sep]" xs rule: Join.induct)
  case (2 x)
  then show ?case by (simp add: Split_no_sep)
next
  case (3 x y ys)
  then show ?case by (simp add: Split_append_sep)
qed simp

text \<open>Two texts that agree up to their first separator agree on both sides of it.\<close>

lemma split_at_sep:
  assumes "x @ sep # r = y @ sep # r'" and "sep \<notin> set x" and "sep \<notin> set y"
  shows "x = y \<and> r = r'"
  using assms
proof (induction x arbitrary: y)
  case Nil
  then show ?case by (cases y) auto
next
  case (Cons c x)
  then show ?case by (cases y) auto
qed

subsection \<open>strconv.Quote: fmt's %q on strings\<close>

text \<open>
  One rune of \<^verbatim>\<open>strconv.Quote\<close>: an invalid byte as \<^verbatim>\<open>\xNN\<close>, the quote and the backslash escaped,
  printable runes as they are (ASCII 32 to 126, above that the table \<open>isPrint\<close>), the C escapes,
  other control characters as \<^verbatim>\<open>\xNN\<close> and other runes as \<^verbatim>\<open>\uNNNN\<close> or \<^verbatim>\<open>\UNNNNNNNN\<close>.
\<close>

fun hex_digits :: "nat \<Rightarrow> nat \<Rightarrow> string" where
  "hex_digits 0 n = []"
| "hex_digits (Suc k) n = hex_digits k (n div 16) @ [hex_char (n mod 16)]"

definition quote_rune :: "(nat \<Rightarrow> bool) \<Rightarrow> nat \<Rightarrow> string \<Rightarrow> string" where
  "quote_rune isPrint r bs =
     (let backslash = CHR 0x5C in
      if r = 65533 \<and> length bs = 1 then [backslash, CHR ''x''] @ hex_digits 2 (byte (hd bs))
      else if r = 34 \<or> r = 92 then backslash # bs
      else if 32 \<le> r \<and> r < 127 then bs
      else if 127 < r \<and> isPrint r then bs
      else if r = 7 then [backslash, CHR ''a'']
      else if r = 8 then [backslash, CHR ''b'']
      else if r = 12 then [backslash, CHR ''f'']
      else if r = 10 then [backslash, CHR ''n'']
      else if r = 13 then [backslash, CHR ''r'']
      else if r = 9 then [backslash, CHR ''t'']
      else if r = 11 then [backslash, CHR ''v'']
      else if r < 32 \<or> r = 127 then [backslash, CHR ''x''] @ hex_digits 2 r
      else if r < 65536 then [backslash, CHR ''u''] @ hex_digits 4 r
      else [backslash, CHR ''U''] @ hex_digits 8 r)"

definition Quote :: "(nat \<Rightarrow> bool) \<Rightarrow> string \<Rightarrow> string" where
  "Quote isPrint s =
     CHR 0x22 # concat (map (\<lambda>(r, bs). quote_rune isPrint r bs) (chunks s)) @ [CHR 0x22]"

text \<open>What the simplifier needs to compute with these functions on literals.\<close>

lemmas go_eval = decode_rune.simps RuneCountInString_def TrimSpace_def IsSpace_def cont_byte_def
  hex_bytes_def hex_byte_def hex_char_def is_hex_def is_digit_def

end
