(* ===== verification/TaskModel.thy ===== *)
theory TaskModel
  imports GoStrings
begin

text \<open>
  The task domain's data (\<^verbatim>\<open>internal/task/task.go\<close>), its sentinel errors
  (\<^verbatim>\<open>internal/task/errors.go\<close>) and the \<^verbatim>\<open>Repository\<close> interface
  (\<^verbatim>\<open>internal/task/repository.go\<close>): the interface's methods as a record of operations over
  a state, what its documentation promises as a specification over finite maps, and the contract
  that relates the two as a locale. A method is one atomic step: each implementation runs it under
  one lock, or in one statement or transaction.
\<close>

subsection \<open>Task\<close>

type_synonym status = string
type_synonym priority = string

definition StatusPending :: status where "StatusPending = ''pending''"
definition StatusInProgress :: status where "StatusInProgress = ''in_progress''"
definition StatusDone :: status where "StatusDone = ''done''"
definition StatusCancelled :: status where "StatusCancelled = ''cancelled''"

lemmas status_defs = StatusPending_def StatusInProgress_def StatusDone_def StatusCancelled_def

definition PriorityLow :: priority where "PriorityLow = ''low''"
definition PriorityMedium :: priority where "PriorityMedium = ''medium''"
definition PriorityHigh :: priority where "PriorityHigh = ''high''"

lemmas priority_defs = PriorityLow_def PriorityMedium_def PriorityHigh_def

record task =
  t_ID :: string
  t_Title :: string
  t_Description :: string
  t_Status :: status
  t_Priority :: priority
  t_CreatedAt :: time
  t_UpdatedAt :: time
  t_UserID :: string
  t_Version :: int

subsection \<open>Errors\<close>

text \<open>The package's sentinels, then those of the libraries whose errors it inspects or passes on.\<close>

datatype task_err =
    TErrNotFound | TErrAlreadyExists | TErrInvalidInput | TErrConflict | TErrInvalidTransition
  | TErrDependencyUnavailable | TErrUnavailable
  | TContextCanceled | TContextDeadlineExceeded
  | TBreakerErrOpenState | TBreakerErrTooManyRequests | TSqlErrNoRows | TDriverErrBadConn

text \<open>
  The text of each sentinel. The two of the \<^verbatim>\<open>bastion\<close> breaker belong to that library: their texts are
  the argument.
\<close>

fun task_err_text :: "(task_err \<Rightarrow> string) \<Rightarrow> task_err \<Rightarrow> string" where
  "task_err_text lib TErrNotFound = ''task not found''"
| "task_err_text lib TErrAlreadyExists = ''task already exists''"
| "task_err_text lib TErrInvalidInput = ''invalid input''"
| "task_err_text lib TErrConflict = ''task was modified concurrently''"
| "task_err_text lib TErrInvalidTransition = ''invalid status transition''"
| "task_err_text lib TErrDependencyUnavailable = ''dependency unavailable''"
| "task_err_text lib TErrUnavailable = ''database unavailable''"
| "task_err_text lib TContextCanceled = ''context canceled''"
| "task_err_text lib TContextDeadlineExceeded = ''context deadline exceeded''"
| "task_err_text lib TBreakerErrOpenState = lib TBreakerErrOpenState"
| "task_err_text lib TBreakerErrTooManyRequests = lib TBreakerErrTooManyRequests"
| "task_err_text lib TSqlErrNoRows = ''sql: no rows in result set''"
| "task_err_text lib TDriverErrBadConn = ''driver: bad connection''"

type_synonym terr = "task_err gerr"
type_synonym 'a tres = "(task_err, 'a) res"

text \<open>An error that says nothing about the task itself: none of the domain's own answers.\<close>

definition infra_error :: "terr \<Rightarrow> bool" where
  "infra_error e \<longleftrightarrow> \<not> errors_Is e TErrNotFound \<and> \<not> errors_Is e TErrAlreadyExists \<and>
     \<not> errors_Is e TErrInvalidInput \<and> \<not> errors_Is e TErrConflict \<and> \<not> errors_Is e TErrInvalidTransition"

text \<open>The request context at one repository call: alive, or done with the error \<^verbatim>\<open>ctx.Err()\<close> reports.\<close>

datatype ctx_state = Live | Canceled | DeadlineExceeded

fun ctx_Err :: "ctx_state \<Rightarrow> terr option" where
  "ctx_Err Live = None"
| "ctx_Err Canceled = Some (Sentinel TContextCanceled)"
| "ctx_Err DeadlineExceeded = Some (Sentinel TContextDeadlineExceeded)"

lemma ctx_Err_infra: "ctx_Err c = Some e \<Longrightarrow> infra_error e"
  by (cases c) (auto simp: infra_error_def)

lemma ctx_Err_None_iff [simp]: "ctx_Err c = None \<longleftrightarrow> c = Live"
  by (cases c) auto

subsection \<open>The Repository interface\<close>

record 's task_repo =
  r_Create :: "ctx_state \<Rightarrow> task \<Rightarrow> (task_err, unit, 's) op"
  r_FindByID :: "ctx_state \<Rightarrow> string \<Rightarrow> string \<Rightarrow> (task_err, task, 's) op"
  r_FindAll :: "ctx_state \<Rightarrow> string \<Rightarrow> int \<Rightarrow> nat \<Rightarrow> status list \<Rightarrow> priority list
                  \<Rightarrow> (task_err, task list, 's) op"
  r_Update :: "ctx_state \<Rightarrow> task \<Rightarrow> (task_err, unit, 's) op"
  r_Delete :: "ctx_state \<Rightarrow> string \<Rightarrow> string \<Rightarrow> (task_err, unit, 's) op"
  r_CountAll :: "ctx_state \<Rightarrow> string \<Rightarrow> status list \<Rightarrow> priority list \<Rightarrow> (task_err, int, 's) op"
  r_CountByStatusAndPriority ::
    "ctx_state \<Rightarrow> string \<Rightarrow> status list \<Rightarrow> priority list
       \<Rightarrow> (task_err, (status, int) gomap \<times> (priority, int) gomap, 's) op"

text \<open>
  What the interface's documentation promises, over the tasks stored by ID. The filter of a
  field is off when its list is empty; values of one list combine with OR, the two lists with AND.
\<close>

definition task_key :: "task \<Rightarrow> int \<times> string" where
  "task_key t = (t_CreatedAt t, t_ID t)"

definition passes :: "'a \<Rightarrow> 'a list \<Rightarrow> bool" where
  "passes x wanted \<longleftrightarrow> wanted = [] \<or> x \<in> set wanted"

definition selected :: "string \<Rightarrow> status list \<Rightarrow> priority list \<Rightarrow> task \<Rightarrow> bool" where
  "selected userID sts prs t \<longleftrightarrow>
     t_UserID t = userID \<and> passes (t_Status t) sts \<and> passes (t_Priority t) prs"

type_synonym task_store = "string \<Rightarrow> task option"

definition spec_Create :: "task \<Rightarrow> task_store \<Rightarrow> unit tres \<times> task_store" where
  "spec_Create t m =
     (if m (t_ID t) \<noteq> None then (Inl (Sentinel TErrAlreadyExists), m)
      else (Inr (), m(t_ID t \<mapsto> t\<lparr>t_Version := 1\<rparr>)))"

definition spec_FindByID :: "string \<Rightarrow> string \<Rightarrow> task_store \<Rightarrow> task tres" where
  "spec_FindByID i userID m =
     (case m i of
        Some t \<Rightarrow> if t_UserID t = userID then Inr t else Inl (Sentinel TErrNotFound)
      | None \<Rightarrow> Inl (Sentinel TErrNotFound))"

definition spec_Update :: "task \<Rightarrow> task_store \<Rightarrow> unit tres \<times> task_store" where
  "spec_Update t m =
     (case m (t_ID t) of
        None \<Rightarrow> (Inl (Sentinel TErrNotFound), m)
      | Some u \<Rightarrow>
          if t_UserID u \<noteq> t_UserID t then (Inl (Sentinel TErrNotFound), m)
          else if t_Version u \<noteq> t_Version t then (Inl (Sentinel TErrConflict), m)
          else (Inr (), m(t_ID t \<mapsto> t\<lparr>t_CreatedAt := t_CreatedAt u, t_Version := t_Version u + 1\<rparr>)))"

definition spec_Delete :: "string \<Rightarrow> string \<Rightarrow> task_store \<Rightarrow> unit tres \<times> task_store" where
  "spec_Delete i userID m =
     (case m i of
        Some t \<Rightarrow> if t_UserID t = userID then (Inr (), m(i := None))
                  else (Inl (Sentinel TErrNotFound), m)
      | None \<Rightarrow> (Inl (Sentinel TErrNotFound), m))"

text \<open>The listing of a filter: the selected tasks, each once, oldest first, ties broken by ID.\<close>

definition is_listing :: "task_store \<Rightarrow> string \<Rightarrow> status list \<Rightarrow> priority list \<Rightarrow> task list \<Rightarrow> bool" where
  "is_listing m userID sts prs ts \<longleftrightarrow>
     sorted (map task_key ts) \<and> distinct ts \<and> set ts = {t \<in> ran m. selected userID sts prs t}"

definition window :: "int \<Rightarrow> nat \<Rightarrow> 'a list \<Rightarrow> 'a list" where
  "window limit offset xs =
     (if limit < 0 then drop offset xs else take (nat limit) (drop offset xs))"

definition keyed :: "task_store \<Rightarrow> bool" where
  "keyed m \<longleftrightarrow> (\<forall>k t. m k = Some t \<longrightarrow> t_ID t = k)"

lemma keyed_inj: "keyed m \<Longrightarrow> inj_on task_key (ran m)"
  by (auto simp: keyed_def inj_on_def task_key_def ran_def)

lemma is_listing_unique:
  assumes "keyed m" and "is_listing m u sts prs xs" and "is_listing m u sts prs ys"
  shows "xs = ys"
proof -
  have "mset xs = mset ys"
    using assms(2,3) by (metis is_listing_def set_eq_iff_mset_eq_distinct)
  moreover have "inj_on task_key (set xs)"
    using keyed_inj [OF assms(1)] assms(2) by (rule_tac inj_on_subset) (auto simp: is_listing_def)
  ultimately show ?thesis
    using assms(2,3) sort_key_unique [of task_key xs xs] sort_key_unique [of task_key ys xs]
    by (simp add: is_listing_def)
qed

text \<open>The counts of a filter: every known value has an entry, and each entry counts its tasks.\<close>

definition all_statuses :: "status list" where
  "all_statuses = [StatusPending, StatusInProgress, StatusDone, StatusCancelled]"

definition all_priorities :: "priority list" where
  "all_priorities = [PriorityLow, PriorityMedium, PriorityHigh]"

definition counts_of :: "string list \<Rightarrow> (task \<Rightarrow> string) \<Rightarrow> task list \<Rightarrow> (string, int) gomap \<Rightarrow> bool" where
  "counts_of known f ts g \<longleftrightarrow> gomap_wf g \<and>
     (\<forall>x. map_of g x = (if x \<in> set known \<or> x \<in> f ` set ts
                        then Some (int (length (filter (\<lambda>t. f t = x) ts))) else None))"

subsection \<open>The contract of a Repository\<close>

text \<open>
  A write either does exactly what the specification says, or fails for a reason that has nothing to
  do with the task; then it may or may not have been applied (a database can lose its answer after
  applying the statement). The promise is for the identifiers \<open>canon\<close> accepts, and instants are kept
  at the resolution \<open>tick\<close>.
\<close>

definition write_ok :: "'a tres \<Rightarrow> task_store \<Rightarrow> task_store \<Rightarrow> 'a tres \<times> task_store \<Rightarrow> bool" where
  "write_ok r m m' sp \<longleftrightarrow>
     (r, m') = sp \<or> (\<exists>e. r = Inl e \<and> infra_error e \<and> (m' = m \<or> (isl (fst sp) = False \<and> m' = snd sp)))"

definition read_ok :: "('a \<Rightarrow> bool) \<Rightarrow> 'a tres \<Rightarrow> bool" where
  "read_ok good r \<longleftrightarrow> (case r of Inr x \<Rightarrow> good x | Inl e \<Rightarrow> infra_error e)"

lemma write_okI [intro]: "(r, m') = sp \<Longrightarrow> write_ok r m m' sp"
  by (simp add: write_ok_def)

lemma write_ok_infra [intro]: "infra_error e \<Longrightarrow> write_ok (Inl e) m m sp"
  by (auto simp: write_ok_def)

lemma read_ok_simps [simp]: "read_ok good (Inr x) = good x" "read_ok good (Inl e) = infra_error e"
  by (simp_all add: read_ok_def)

text \<open>A store may keep instants at a coarser resolution than Go's nanoseconds.\<close>

definition stamped :: "(time \<Rightarrow> time) \<Rightarrow> task \<Rightarrow> task" where
  "stamped tick t = t\<lparr>t_CreatedAt := tick (t_CreatedAt t), t_UpdatedAt := tick (t_UpdatedAt t)\<rparr>"

lemma stamped_fields [simp]:
  "t_ID (stamped f t) = t_ID t" "t_UserID (stamped f t) = t_UserID t" "t_Version (stamped f t) = t_Version t"
  "t_Title (stamped f t) = t_Title t" "t_Description (stamped f t) = t_Description t"
  "t_Status (stamped f t) = t_Status t" "t_Priority (stamped f t) = t_Priority t"
  "t_CreatedAt (stamped f t) = f (t_CreatedAt t)" "t_UpdatedAt (stamped f t) = f (t_UpdatedAt t)"
  by (simp_all add: stamped_def)

lemma stamped_id [simp]: "stamped (\<lambda>x. x) t = t"
  by (simp add: stamped_def)

locale task_repository =
  fixes repo :: "'s task_repo"
    and abst :: "'s \<Rightarrow> task_store"
    and invar :: "'s \<Rightarrow> bool"
    and canon :: "string \<Rightarrow> bool"
    and tick :: "time \<Rightarrow> time"
  assumes keyed: "invar s \<Longrightarrow> keyed (abst s)"
    and finite_store: "invar s \<Longrightarrow> finite (dom (abst s))"
    and create: "\<lbrakk>invar s; canon (t_ID t); canon (t_UserID t); r_Create repo c t s = (r, s')\<rbrakk>
      \<Longrightarrow> invar s' \<and> write_ok r (abst s) (abst s') (spec_Create (stamped tick t) (abst s))"
    and find: "\<lbrakk>invar s; canon i; canon u; r_FindByID repo c i u s = (rf, s')\<rbrakk>
      \<Longrightarrow> invar s' \<and> abst s' = abst s \<and>
          (rf = spec_FindByID i u (abst s) \<or> (\<exists>e. rf = Inl e \<and> infra_error e))"
    and find_all: "\<lbrakk>invar s; canon u; r_FindAll repo c u limit offset sts prs s = (rl, s')\<rbrakk>
      \<Longrightarrow> invar s' \<and> abst s' = abst s \<and>
          read_ok (\<lambda>ts. \<exists>xs. is_listing (abst s) u sts prs xs \<and> ts = window limit offset xs) rl"
    and update: "\<lbrakk>invar s; canon (t_ID t); canon (t_UserID t); r_Update repo c t s = (r, s')\<rbrakk>
      \<Longrightarrow> invar s' \<and> write_ok r (abst s) (abst s') (spec_Update (stamped tick t) (abst s))"
    and delete: "\<lbrakk>invar s; canon i; canon u; r_Delete repo c i u s = (r, s')\<rbrakk>
      \<Longrightarrow> invar s' \<and> write_ok r (abst s) (abst s') (spec_Delete i u (abst s))"
    and count_all: "\<lbrakk>invar s; canon u; r_CountAll repo c u sts prs s = (rn, s')\<rbrakk>
      \<Longrightarrow> invar s' \<and> abst s' = abst s \<and>
          read_ok (\<lambda>n. \<exists>xs. is_listing (abst s) u sts prs xs \<and> n = int (length xs)) rn"
    and count_by: "\<lbrakk>invar s; canon u; r_CountByStatusAndPriority repo c u sts prs s = (rc, s')\<rbrakk>
      \<Longrightarrow> invar s' \<and> abst s' = abst s \<and>
          read_ok (\<lambda>(bs, bp). \<exists>xs. is_listing (abst s) u sts prs xs \<and>
             counts_of all_statuses t_Status xs bs \<and> counts_of all_priorities t_Priority xs bp) rc"

text \<open>A store whose calls on a live context never fail for infrastructure reasons.\<close>

locale reliable_task_repository = task_repository repo abst invar canon tick
  for repo :: "'s task_repo" and abst and invar and canon and tick +
  assumes create_live: "invar s \<Longrightarrow> canon (t_ID t) \<Longrightarrow> canon (t_UserID t) \<Longrightarrow>
      r_Create repo Live t s = (Inl e, s') \<Longrightarrow> \<not> infra_error e"
    and find_live: "invar s \<Longrightarrow> canon i \<Longrightarrow> canon u \<Longrightarrow>
      r_FindByID repo Live i u s = (Inl e, s') \<Longrightarrow> \<not> infra_error e"
    and find_all_live: "invar s \<Longrightarrow> canon u \<Longrightarrow>
      r_FindAll repo Live u limit offset sts prs s = (rl, s') \<Longrightarrow> \<not> isl rl"
    and update_live: "invar s \<Longrightarrow> canon (t_ID t) \<Longrightarrow> canon (t_UserID t) \<Longrightarrow>
      r_Update repo Live t s = (Inl e, s') \<Longrightarrow> \<not> infra_error e"
    and delete_live: "invar s \<Longrightarrow> canon i \<Longrightarrow> canon u \<Longrightarrow>
      r_Delete repo Live i u s = (Inl e, s') \<Longrightarrow> \<not> infra_error e"
    and count_all_live: "invar s \<Longrightarrow> canon u \<Longrightarrow>
      r_CountAll repo Live u sts prs s = (rn, s') \<Longrightarrow> \<not> isl rn"
    and count_by_live: "invar s \<Longrightarrow> canon u \<Longrightarrow>
      r_CountByStatusAndPriority repo Live u sts prs s = (rc, s') \<Longrightarrow> \<not> isl rc"

end
