(* ===== verification/TaskMemory.thy ===== *)
theory TaskMemory
  imports TaskModel
begin

text \<open>
  \<^verbatim>\<open>memoryRepository\<close> (\<^verbatim>\<open>internal/task/memory_repository.go\<close>): the task store as one Go map by
  ID. Each method holds the repository's mutex for its whole body, so it is one atomic step; the
  \<^verbatim>\<open>ctx.Err()\<close> test at its start is the \<^typ>\<open>ctx_state\<close> argument. The theory ends with the proof
  that the repository meets the contract of the interface, and does so without infrastructure failures.
\<close>

subsection \<open>Operations\<close>

type_synonym memory_store = "(string, task) gomap"

definition NewMemoryRepository :: memory_store where
  "NewMemoryRepository = []"

definition mem_Create :: "ctx_state \<Rightarrow> task \<Rightarrow> (task_err, unit, memory_store) op" where
  "mem_Create ctx task store =
     (case ctx_Err ctx of Some err \<Rightarrow> (Inl err, store) | None \<Rightarrow>
      case map_of store (t_ID task) of
        Some _ \<Rightarrow> (Inl (Sentinel TErrAlreadyExists), store)
      | None \<Rightarrow> (Inr (), AList.update (t_ID task) (task\<lparr>t_Version := 1\<rparr>) store))"

definition mem_FindByID :: "ctx_state \<Rightarrow> string \<Rightarrow> string \<Rightarrow> (task_err, task, memory_store) op" where
  "mem_FindByID ctx i userID store =
     (case ctx_Err ctx of Some err \<Rightarrow> (Inl err, store) | None \<Rightarrow>
      case map_of store i of
        None \<Rightarrow> (Inl (Sentinel TErrNotFound), store)
      | Some task \<Rightarrow>
          if t_UserID task \<noteq> userID then (Inl (Sentinel TErrNotFound), store)
          else (Inr task, store))"

fun any_equal :: "'a \<Rightarrow> 'a list \<Rightarrow> bool" where
  "any_equal value [] = False"
| "any_equal value (w # ws) = (if value = w then True else any_equal value ws)"

definition matchesAny :: "'a \<Rightarrow> 'a list \<Rightarrow> bool" where
  "matchesAny value wanted = (if length wanted = 0 then True else any_equal value wanted)"

definition paginateTasks :: "task list \<Rightarrow> int \<Rightarrow> nat \<Rightarrow> task list" where
  "paginateTasks tasks limit offset =
     (if offset \<ge> length tasks then []
      else let tasks = drop offset tasks in
        if limit \<ge> 0 \<and> limit < int (length tasks) then take (nat limit) tasks else tasks)"

text \<open>The filtering loop \<^verbatim>\<open>FindAll\<close>, \<^verbatim>\<open>CountAll\<close> and \<^verbatim>\<open>CountByStatusAndPriority\<close> share.\<close>

fun mem_matching :: "string \<Rightarrow> status list \<Rightarrow> priority list \<Rightarrow> memory_store \<Rightarrow> task list" where
  "mem_matching userID statuses priorities [] = []"
| "mem_matching userID statuses priorities ((k, task) # rest) =
     (if t_UserID task \<noteq> userID then mem_matching userID statuses priorities rest
      else if \<not> matchesAny (t_Status task) statuses then mem_matching userID statuses priorities rest
      else if \<not> matchesAny (t_Priority task) priorities then mem_matching userID statuses priorities rest
      else task # mem_matching userID statuses priorities rest)"

definition mem_FindAll :: "ctx_state \<Rightarrow> string \<Rightarrow> int \<Rightarrow> nat \<Rightarrow> status list \<Rightarrow> priority list
    \<Rightarrow> (task_err, task list, memory_store) op" where
  "mem_FindAll ctx userID limit offset statuses priorities store =
     (case ctx_Err ctx of Some err \<Rightarrow> (Inl err, store) | None \<Rightarrow>
      (let tasks = mem_matching userID statuses priorities store;
           sorted_tasks = sort_key task_key tasks
       in (Inr (paginateTasks sorted_tasks limit offset), store)))"

definition mem_CountAll :: "ctx_state \<Rightarrow> string \<Rightarrow> status list \<Rightarrow> priority list
    \<Rightarrow> (task_err, int, memory_store) op" where
  "mem_CountAll ctx userID statuses priorities store =
     (case ctx_Err ctx of Some err \<Rightarrow> (Inl err, store) | None \<Rightarrow>
      (Inr (int (length (mem_matching userID statuses priorities store))), store))"

text \<open>\<^verbatim>\<open>m[k]++\<close>: a missing key reads as zero.\<close>

definition incr :: "'k \<Rightarrow> ('k, int) gomap \<Rightarrow> ('k, int) gomap" where
  "incr k m = AList.update k ((case map_of m k of None \<Rightarrow> 0 | Some n \<Rightarrow> n) + 1) m"

definition mem_CountByStatusAndPriority :: "ctx_state \<Rightarrow> string \<Rightarrow> status list \<Rightarrow> priority list
    \<Rightarrow> (task_err, (status, int) gomap \<times> (priority, int) gomap, memory_store) op" where
  "mem_CountByStatusAndPriority ctx userID statuses priorities store =
     (case ctx_Err ctx of Some err \<Rightarrow> (Inl err, store) | None \<Rightarrow>
      (let byStatus = [(StatusPending, 0), (StatusInProgress, 0), (StatusDone, 0), (StatusCancelled, 0)];
           byPriority = [(PriorityLow, 0), (PriorityMedium, 0), (PriorityHigh, 0)];
           tasks = mem_matching userID statuses priorities store
       in (Inr (fold (\<lambda>t. incr (t_Status t)) tasks byStatus,
                fold (\<lambda>t. incr (t_Priority t)) tasks byPriority), store)))"

definition mem_Update :: "ctx_state \<Rightarrow> task \<Rightarrow> (task_err, unit, memory_store) op" where
  "mem_Update ctx task store =
     (case ctx_Err ctx of Some err \<Rightarrow> (Inl err, store) | None \<Rightarrow>
      case map_of store (t_ID task) of
        None \<Rightarrow> (Inl (Sentinel TErrNotFound), store)
      | Some stored \<Rightarrow>
          if t_UserID stored \<noteq> t_UserID task then (Inl (Sentinel TErrNotFound), store)
          else if t_Version task \<noteq> t_Version stored then (Inl (Sentinel TErrConflict), store)
          else (Inr (), AList.update (t_ID task)
                  (task\<lparr>t_CreatedAt := t_CreatedAt stored, t_Version := t_Version stored + 1\<rparr>) store))"

definition mem_Delete :: "ctx_state \<Rightarrow> string \<Rightarrow> string \<Rightarrow> (task_err, unit, memory_store) op" where
  "mem_Delete ctx i userID store =
     (case ctx_Err ctx of Some err \<Rightarrow> (Inl err, store) | None \<Rightarrow>
      case map_of store i of
        None \<Rightarrow> (Inl (Sentinel TErrNotFound), store)
      | Some stored \<Rightarrow>
          if t_UserID stored \<noteq> userID then (Inl (Sentinel TErrNotFound), store)
          else (Inr (), AList.delete i store))"

definition memoryRepository :: "memory_store task_repo" where
  "memoryRepository = \<lparr>
     r_Create = mem_Create, r_FindByID = mem_FindByID, r_FindAll = mem_FindAll,
     r_Update = mem_Update, r_Delete = mem_Delete, r_CountAll = mem_CountAll,
     r_CountByStatusAndPriority = mem_CountByStatusAndPriority \<rparr>"

lemmas mem_defs = mem_Create_def mem_FindByID_def mem_FindAll_def mem_Update_def mem_Delete_def
  mem_CountAll_def mem_CountByStatusAndPriority_def

lemma memoryRepository_sel [simp]:
  "r_Create memoryRepository = mem_Create" "r_FindByID memoryRepository = mem_FindByID"
  "r_FindAll memoryRepository = mem_FindAll" "r_Update memoryRepository = mem_Update"
  "r_Delete memoryRepository = mem_Delete" "r_CountAll memoryRepository = mem_CountAll"
  "r_CountByStatusAndPriority memoryRepository = mem_CountByStatusAndPriority"
  by (simp_all add: memoryRepository_def)

subsection \<open>Invariant\<close>

text \<open>Keys are distinct and each task is stored under its own ID.\<close>

definition mem_inv :: "memory_store \<Rightarrow> bool" where
  "mem_inv store \<longleftrightarrow> gomap_wf store \<and> keyed (map_of store)"

lemma mem_inv_empty [simp]: "mem_inv NewMemoryRepository"
  by (simp add: mem_inv_def NewMemoryRepository_def keyed_def)

lemma mem_inv_update: "mem_inv m \<Longrightarrow> t_ID t = k \<Longrightarrow> mem_inv (AList.update k t m)"
  by (auto simp: mem_inv_def keyed_def gomap_simps)

lemma mem_inv_delete: "mem_inv m \<Longrightarrow> mem_inv (AList.delete k m)"
  by (auto simp: mem_inv_def keyed_def gomap_simps)

subsection \<open>The filter, the order and the window\<close>

lemma any_equal_iff [simp]: "any_equal v ws \<longleftrightarrow> v \<in> set ws"
  by (induction ws) auto

lemma matchesAny_iff [simp]: "matchesAny v ws \<longleftrightarrow> passes v ws"
  by (auto simp: matchesAny_def passes_def)

lemma mem_matching_filter:
  "mem_matching u sts prs m = filter (selected u sts prs) (gomap_values m)"
  by (induction u sts prs m rule: mem_matching.induct) (auto simp: selected_def)

lemma paginateTasks_window: "paginateTasks ts limit offset = window limit offset ts"
  by (auto simp: paginateTasks_def window_def Let_def)

lemma is_listing_memory:
  assumes "mem_inv m"
  shows "is_listing (map_of m) u sts prs (sort_key task_key (mem_matching u sts prs m))"
proof -
  have "distinct (gomap_values m)"
    by (rule distinct_gomap_values [where key = t_ID])
      (use assms in \<open>auto simp: mem_inv_def keyed_def\<close>)
  with assms show ?thesis
    by (simp add: is_listing_def mem_matching_filter ran_distinct mem_inv_def)
qed

subsection \<open>The counts\<close>

lemma gomap_wf_incr [simp]: "gomap_wf m \<Longrightarrow> gomap_wf (incr k m)"
  by (simp add: incr_def)

lemma gomap_wf_fold_incr [simp]: "gomap_wf m \<Longrightarrow> gomap_wf (fold (\<lambda>t. incr (f t)) ts m)"
  by (induction ts arbitrary: m) simp_all

lemma map_of_fold_incr:
  "map_of (fold (\<lambda>t. incr (f t)) ts m) x =
     (if map_of m x = None \<and> x \<notin> f ` set ts then None
      else Some ((case map_of m x of None \<Rightarrow> 0 | Some n \<Rightarrow> n) + int (length (filter (\<lambda>t. f t = x) ts))))"
  by (induction ts arbitrary: m) (auto simp: incr_def gomap_simps split: option.splits)

lemma counts_of_fold_incr:
  assumes "known = map fst init" and "distinct known" and "\<forall>(k, n) \<in> set init. n = 0"
  shows "counts_of known f ts (fold (\<lambda>t. incr (f t)) ts init)"
proof -
  have zero: "map_of init x = (if x \<in> set known then Some 0 else None)" for x
  proof (cases "map_of init x")
    case None
    with assms(1) show ?thesis by (simp add: map_of_eq_None_iff)
  next
    case (Some n)
    then have "(x, n) \<in> set init" by (rule map_of_SomeD)
    with assms show ?thesis using Some by force
  qed
  show ?thesis
    unfolding counts_of_def using assms(1,2)
    by (auto simp: map_of_fold_incr zero)
qed

lemma length_filter_sort_key [simp]: "length (filter P (sort_key f xs)) = length (filter P xs)"
  by (metis mset_filter mset_sort size_mset)

lemma counts_of_sort_key [simp]: "counts_of known g (sort_key f ts) c = counts_of known g ts c"
  by (simp add: counts_of_def)

subsection \<open>The repository meets the contract of the interface\<close>

lemma mem_Create_spec:
  assumes "mem_inv s" and "mem_Create Live t s = (r, s')"
  shows "mem_inv s' \<and> (r, map_of s') = spec_Create t (map_of s)"
  using assms
  by (auto simp: mem_Create_def spec_Create_def update_conv' mem_inv_update split: option.splits)

lemma mem_FindByID_spec: "mem_FindByID Live i u s = (spec_FindByID i u (map_of s), s)"
  by (simp add: mem_FindByID_def spec_FindByID_def split: option.split)

lemma mem_Update_spec:
  assumes "mem_inv s" and "mem_Update Live t s = (r, s')"
  shows "mem_inv s' \<and> (r, map_of s') = spec_Update t (map_of s)"
proof (cases "map_of s (t_ID t)")
  case None
  with assms show ?thesis by (auto simp: mem_Update_def spec_Update_def)
next
  case (Some u)
  show ?thesis
  proof (cases "t_UserID u = t_UserID t \<and> t_Version t = t_Version u")
    case True
    with assms Some show ?thesis
      by (auto simp: mem_Update_def spec_Update_def update_conv' mem_inv_update)
  next
    case False
    with assms Some show ?thesis
      by (auto simp: mem_Update_def spec_Update_def split: if_splits)
  qed
qed

lemma mem_Delete_spec:
  assumes "mem_inv s" and "mem_Delete Live i u s = (r, s')"
  shows "mem_inv s' \<and> (r, map_of s') = spec_Delete i u (map_of s)"
  using assms
  by (auto simp: mem_Delete_def spec_Delete_def delete_conv' mem_inv_delete
      split: option.splits if_splits)

lemma mem_FindAll_spec:
  "mem_FindAll Live u limit offset sts prs s =
     (Inr (window limit offset (sort_key task_key (mem_matching u sts prs s))), s)"
  by (simp add: mem_FindAll_def paginateTasks_window)

lemma mem_count_spec:
  "mem_CountByStatusAndPriority Live u sts prs s = (Inr (bs, bp), s) \<Longrightarrow>
     counts_of all_statuses t_Status (mem_matching u sts prs s) bs \<and>
     counts_of all_priorities t_Priority (mem_matching u sts prs s) bp"
  by (auto simp: mem_CountByStatusAndPriority_def all_statuses_def all_priorities_def
      status_defs priority_defs Let_def intro!: counts_of_fold_incr)

lemma mem_done:
  assumes "ctx_Err c = Some e"
  shows "mem_Create c t s = (Inl e, s)" "mem_FindByID c i u s = (Inl e, s)"
    "mem_FindAll c u l f sts prs s = (Inl e, s)" "mem_Update c t s = (Inl e, s)"
    "mem_Delete c i u s = (Inl e, s)" "mem_CountAll c u sts prs s = (Inl e, s)"
    "mem_CountByStatusAndPriority c u sts prs s = (Inl e, s)"
  using assms by (simp_all add: mem_defs)

lemma ctx_Live_or_done: "c = Live \<or> (\<exists>e. ctx_Err c = Some e \<and> infra_error e)"
  by (cases c) (auto simp: infra_error_def)

lemma spec_not_infra:
  "spec_Create t m = (Inl e, m') \<Longrightarrow> \<not> infra_error e"
  "spec_FindByID i u m = Inl e \<Longrightarrow> \<not> infra_error e"
  "spec_Update t m = (Inl e, m') \<Longrightarrow> \<not> infra_error e"
  "spec_Delete i u m = (Inl e, m') \<Longrightarrow> \<not> infra_error e"
  by (auto simp: spec_Create_def spec_FindByID_def spec_Update_def spec_Delete_def infra_error_def
      split: if_splits option.splits)

lemma mem_listing_ok:
  assumes "mem_inv s"
  shows "\<exists>xs. is_listing (map_of s) u sts prs xs \<and>
      window limit offset (sort_key task_key (mem_matching u sts prs s)) = window limit offset xs"
    "\<exists>xs. is_listing (map_of s) u sts prs xs \<and> length (mem_matching u sts prs s) = length xs"
  using is_listing_memory [OF assms, of u sts prs] by (metis length_sort)+

lemma mem_counts_ok:
  assumes "mem_inv s" and "mem_CountByStatusAndPriority Live u sts prs s = (Inr (bs, bp), s)"
  shows "\<exists>xs. is_listing (map_of s) u sts prs xs \<and>
      counts_of all_statuses t_Status xs bs \<and> counts_of all_priorities t_Priority xs bp"
  using is_listing_memory [OF assms(1), of u sts prs] mem_count_spec [OF assms(2)]
  by (metis counts_of_sort_key)

interpretation mem: task_repository memoryRepository map_of mem_inv "\<lambda>_. True" "\<lambda>x. x"
proof (unfold_locales, goal_cases)
  case (1 s)
  then show ?case by (simp add: mem_inv_def)
next
  case (2 s)
  then show ?case by (simp add: finite_dom_map_of)
next
  case (3 s t c r s')
  then show ?case using ctx_Live_or_done [of c] by (auto simp: mem_done dest: mem_Create_spec)
next
  case (4 s i u c r s')
  then show ?case using ctx_Live_or_done [of c] by (auto simp: mem_done mem_FindByID_spec)
next
  case (5 s u c limit offset sts prs r s')
  then show ?case using ctx_Live_or_done [of c] mem_listing_ok(1) [of s]
    by (auto simp: mem_done mem_FindAll_spec)
next
  case (6 s t c r s')
  then show ?case using ctx_Live_or_done [of c] by (auto simp: mem_done dest: mem_Update_spec)
next
  case (7 s i u c r s')
  then show ?case using ctx_Live_or_done [of c] by (auto simp: mem_done dest: mem_Delete_spec)
next
  case (8 s u c sts prs r s')
  then show ?case using ctx_Live_or_done [of c] mem_listing_ok(2) [of s]
    by (auto simp: mem_done mem_CountAll_def)
next
  case (9 s u c sts prs r s')
  then show ?case using ctx_Live_or_done [of c] mem_counts_ok [of s u sts prs]
    by (auto simp: mem_done mem_CountByStatusAndPriority_def Let_def) blast
qed

interpretation mem: reliable_task_repository memoryRepository map_of mem_inv "\<lambda>_. True" "\<lambda>x. x"
proof (unfold_locales, goal_cases)
  case (1 s t e s')
  then show ?case by (metis mem_Create_spec memoryRepository_sel(1) spec_not_infra(1))
next
  case (2 s i u e s')
  then show ?case by (auto simp: mem_FindByID_spec dest: spec_not_infra(2))
next
  case (4 s t e s')
  then show ?case by (metis mem_Update_spec memoryRepository_sel(4) spec_not_infra(3))
next
  case (5 s i u e s')
  then show ?case by (metis mem_Delete_spec memoryRepository_sel(5) spec_not_infra(4))
qed (auto simp: mem_defs Let_def)

end
