(* ===== verification/TaskService.thy ===== *)
theory TaskService
  imports TaskMemory
begin

text \<open>
  The task business logic (\<^verbatim>\<open>internal/task/service.go\<close>) over any \<^verbatim>\<open>Repository\<close>: validation,
  identifiers, the status workflow and the nine operations. What the code draws from outside is an
  argument: the wall clock (\<open>now\<close>), the 16 bytes of \<^verbatim>\<open>crypto/rand\<close> (or its error), the context as each
  repository call in turn finds it (\<open>ctx 0\<close>, \<open>ctx 1\<close>), and, in
  \<open>lib\<close>, the two functions of the third-party \<^verbatim>\<open>moat/sanitize\<close> package and the Unicode table behind
  \<^verbatim>\<open>strconv.IsPrint\<close> that the \<^verbatim>\<open>%q\<close> of an error text consults.
\<close>

unbundle bit_operations_syntax

subsection \<open>Limits and tables\<close>

definition maxTitleLen :: nat where "maxTitleLen = 200"
definition maxDescriptionLen :: nat where "maxDescriptionLen = 2000"
definition maxFilterValues :: nat where "maxFilterValues = 50"
definition maxExportRows :: int where "maxExportRows = 10000"

definition legalTransitions :: "(status, (status, bool) gomap) gomap" where
  "legalTransitions =
     [(StatusPending, [(StatusInProgress, True), (StatusDone, True), (StatusCancelled, True)]),
      (StatusInProgress, [(StatusPending, True), (StatusDone, True), (StatusCancelled, True)]),
      (StatusDone, [(StatusPending, True), (StatusInProgress, True)]),
      (StatusCancelled, [(StatusPending, True)])]"

text \<open>\<^verbatim>\<open>legalTransitions[from][to]\<close>: a missing key reads as an empty map, and that as false.\<close>

definition legal :: "status \<Rightarrow> status \<Rightarrow> bool" where
  "legal from to =
     (case map_of legalTransitions from of
        None \<Rightarrow> False
      | Some row \<Rightarrow> (case map_of row to of None \<Rightarrow> False | Some b \<Rightarrow> b))"

definition validStatuses :: "(status, bool) gomap" where
  "validStatuses =
     [(StatusPending, True), (StatusInProgress, True), (StatusDone, True), (StatusCancelled, True)]"

definition validPriorities :: "(priority, bool) gomap" where
  "validPriorities = [(PriorityLow, True), (PriorityMedium, True), (PriorityHigh, True)]"

definition is_true :: "('k, bool) gomap \<Rightarrow> 'k \<Rightarrow> bool" where
  "is_true m k = (case map_of m k of None \<Rightarrow> False | Some b \<Rightarrow> b)"

subsection \<open>Identifiers\<close>

definition newID :: "string + 8 word list \<Rightarrow> string tres" where
  "newID rnd =
     (case rnd of
        Inl err \<Rightarrow> Inl (WrapPre ''failed to generate task ID'' (Opaque err))
      | Inr b0 \<Rightarrow>
          (let b1 = b0[6 := ((b0 ! 6) AND 0x0f) OR 0x40];
               b = b1[8 := ((b1 ! 8) AND 0x3f) OR 0x80]
           in Inr (hex_bytes (take 4 b) @ ''-'' @ hex_bytes (take 2 (drop 4 b)) @ ''-'' @
                   hex_bytes (take 2 (drop 6 b)) @ ''-'' @ hex_bytes (take 2 (drop 8 b)) @ ''-'' @
                   hex_bytes (drop 10 b))))"

text \<open>
  The pattern \<^verbatim>\<open>^[0-9a-fA-F]{8}-[0-9a-fA-F]{4}-[0-9a-fA-F]{4}-[0-9a-fA-F]{4}-[0-9a-fA-F]{12}$\<close>: per
  position, whether a hexadecimal digit or a hyphen is required.
\<close>

definition idPattern :: "bool list" where
  "idPattern = replicate 8 True @ [False] @ replicate 4 True @ [False] @ replicate 4 True @ [False] @
     replicate 4 True @ [False] @ replicate 12 True"

definition isValidID :: "string \<Rightarrow> bool" where
  "isValidID i = list_all2 (\<lambda>hex c. if hex then is_hex c else c = CHR ''-'') idPattern i"

subsection \<open>Validation\<close>

record task_lib =
  PlainText :: "string \<Rightarrow> string"
  StripControlChars :: "string \<Rightarrow> string"
  IsPrint :: "nat \<Rightarrow> bool"

abbreviation invalidInput :: "string \<Rightarrow> terr" where
  "invalidInput msg \<equiv> WrapPost (Sentinel TErrInvalidInput) msg"

definition validateTitleAndDescription :: "task_lib \<Rightarrow> string \<Rightarrow> string \<Rightarrow> (string \<times> string) tres" where
  "validateTitleAndDescription lib title0 description0 =
     (let title = PlainText lib title0;
          description = TrimSpace (StripControlChars lib description0)
      in if title = '''' then Inl (invalidInput ''title must not be empty'')
         else if RuneCountInString title > maxTitleLen
         then Inl (invalidInput (''title must be at most '' @ Itoa (int maxTitleLen) @ '' characters''))
         else if RuneCountInString description > maxDescriptionLen
         then Inl (invalidInput (''description must be at most '' @ Itoa (int maxDescriptionLen) @ '' characters''))
         else Inr (title, description))"

definition validatePriority :: "string \<Rightarrow> priority \<Rightarrow> priority tres" where
  "validatePriority p fallback =
     (if p = '''' then Inr fallback
      else if \<not> is_true validPriorities p
      then Inl (invalidInput ''priority must be one of low, medium, high'')
      else Inr p)"

text \<open>
  The loop of \<^verbatim>\<open>validateStatusFilters\<close> and \<^verbatim>\<open>validatePriorityFilters\<close>: drop empty values,
  reject an unknown one with \<open>msg\<close>, keep the first occurrence of each. The two functions differ
  in the table of valid values and the message only.
\<close>

fun filters_loop :: "(string, bool) gomap \<Rightarrow> string \<Rightarrow> string list \<Rightarrow> (string, bool) gomap
    \<Rightarrow> string list \<Rightarrow> string list tres" where
  "filters_loop valid msg [] seen out = Inr out"
| "filters_loop valid msg (raw # raws) seen out =
     (if raw = '''' then filters_loop valid msg raws seen out
      else if \<not> is_true valid raw then Inl (invalidInput msg)
      else if is_true seen raw then filters_loop valid msg raws seen out
      else filters_loop valid msg raws (AList.update raw True seen) (out @ [raw]))"

definition validateStatusFilters :: "string list \<Rightarrow> status list tres" where
  "validateStatusFilters statuses =
     (if length statuses > maxFilterValues then Inl (invalidInput ''too many status values'')
      else filters_loop validStatuses ''status must be one of pending, in_progress, done, cancelled''
             statuses [] [])"

definition validatePriorityFilters :: "string list \<Rightarrow> priority list tres" where
  "validatePriorityFilters priorities =
     (if length priorities > maxFilterValues then Inl (invalidInput ''too many priority values'')
      else filters_loop validPriorities ''priority must be one of low, medium, high''
             priorities [] [])"

subsection \<open>Operations\<close>

type_synonym ctxs = "nat \<Rightarrow> ctx_state"

definition CreateTask :: "task_lib \<Rightarrow> 's task_repo \<Rightarrow> ctxs \<Rightarrow> time \<Rightarrow> string + 8 word list
    \<Rightarrow> string \<Rightarrow> string \<Rightarrow> string \<Rightarrow> string \<Rightarrow> (task_err, task, 's) op" where
  "CreateTask lib repo ctx now rnd userID title0 description0 priority s =
     (case validateTitleAndDescription lib title0 description0 of
        Inl err \<Rightarrow> (Inl err, s)
      | Inr (title, description) \<Rightarrow>
     (case validatePriority priority PriorityMedium of
        Inl err \<Rightarrow> (Inl err, s)
      | Inr p \<Rightarrow>
     (case newID rnd of
        Inl err \<Rightarrow> (Inl (WrapPre ''create task'' err), s)
      | Inr i \<Rightarrow>
          (let task = \<lparr>t_ID = i, t_Title = title, t_Description = description,
                 t_Status = StatusPending, t_Priority = p, t_CreatedAt = now, t_UpdatedAt = now,
                 t_UserID = userID, t_Version = 0\<rparr>
           in case r_Create repo (ctx 0) task s of
                (Inl err, s') \<Rightarrow> (Inl (WrapPre ''create task'' err), s')
              | (Inr _, s') \<Rightarrow> (Inr task, s')))))"

definition GetTask :: "'s task_repo \<Rightarrow> ctxs \<Rightarrow> string \<Rightarrow> string \<Rightarrow> (task_err, task, 's) op" where
  "GetTask repo ctx userID i s =
     (if \<not> isValidID i then (Inl (Sentinel TErrNotFound), s)
      else case r_FindByID repo (ctx 0) i userID s of
        (Inl err, s') \<Rightarrow> (Inl (WrapPre ''get task'' err), s')
      | (Inr task, s') \<Rightarrow> (Inr task, s'))"

definition ListTasks :: "'s task_repo \<Rightarrow> ctxs \<Rightarrow> string \<Rightarrow> int \<Rightarrow> nat \<Rightarrow> string list \<Rightarrow> string list
    \<Rightarrow> (task_err, task list \<times> int, 's) op" where
  "ListTasks repo ctx userID limit offset statuses priorities s =
     (case validateStatusFilters statuses of
        Inl err \<Rightarrow> (Inl err, s)
      | Inr st \<Rightarrow>
     (case validatePriorityFilters priorities of
        Inl err \<Rightarrow> (Inl err, s)
      | Inr p \<Rightarrow>
     (case r_FindAll repo (ctx 0) userID limit offset st p s of
        (Inl err, s1) \<Rightarrow> (Inl (WrapPre ''list tasks'' err), s1)
      | (Inr tasks, s1) \<Rightarrow>
     (case r_CountAll repo (ctx 1) userID st p s1 of
        (Inl err, s2) \<Rightarrow> (Inl (WrapPre ''list tasks: count'' err), s2)
      | (Inr tot, s2) \<Rightarrow> (Inr (tasks, tot), s2)))))"

record task_stats =
  st_Total :: int
  st_ByStatus :: "(status, int) gomap"
  st_ByPriority :: "(priority, int) gomap"

definition TaskStats :: "'s task_repo \<Rightarrow> ctxs \<Rightarrow> string \<Rightarrow> string list \<Rightarrow> string list
    \<Rightarrow> (task_err, task_stats, 's) op" where
  "TaskStats repo ctx userID statuses priorities s =
     (case validateStatusFilters statuses of
        Inl err \<Rightarrow> (Inl err, s)
      | Inr st \<Rightarrow>
     (case validatePriorityFilters priorities of
        Inl err \<Rightarrow> (Inl err, s)
      | Inr p \<Rightarrow>
     (case r_CountByStatusAndPriority repo (ctx 0) userID st p s of
        (Inl err, s') \<Rightarrow> (Inl (WrapPre ''task stats'' err), s')
      | (Inr (byStatus, byPriority), s') \<Rightarrow>
          (Inr \<lparr>st_Total = fold (\<lambda>count tot. tot + count) (gomap_values byStatus) 0,
                st_ByStatus = byStatus, st_ByPriority = byPriority\<rparr>, s'))))"

definition ExportTasks :: "'s task_repo \<Rightarrow> ctxs \<Rightarrow> string \<Rightarrow> string list \<Rightarrow> string list
    \<Rightarrow> (task_err, task list, 's) op" where
  "ExportTasks repo ctx userID statuses priorities s =
     (case validateStatusFilters statuses of
        Inl err \<Rightarrow> (Inl err, s)
      | Inr st \<Rightarrow>
     (case validatePriorityFilters priorities of
        Inl err \<Rightarrow> (Inl err, s)
      | Inr p \<Rightarrow>
     (case r_CountAll repo (ctx 0) userID st p s of
        (Inl err, s1) \<Rightarrow> (Inl (WrapPre ''export tasks: count'' err), s1)
      | (Inr tot, s1) \<Rightarrow>
          if tot > maxExportRows
          then (Inl (invalidInput (Itoa tot @ '' tasks match this filter, more than the '' @
                  Itoa maxExportRows @ ''-row export limit; narrow the filter'')), s1)
          else case r_FindAll repo (ctx 1) userID (-1) 0 st p s1 of
            (Inl err, s2) \<Rightarrow> (Inl (WrapPre ''export tasks'' err), s2)
          | (Inr tasks, s2) \<Rightarrow> (Inr tasks, s2))))"

definition UpdateTask :: "task_lib \<Rightarrow> 's task_repo \<Rightarrow> ctxs \<Rightarrow> time \<Rightarrow> string \<Rightarrow> string
    \<Rightarrow> string \<Rightarrow> string \<Rightarrow> string \<Rightarrow> (task_err, task, 's) op" where
  "UpdateTask lib repo ctx now userID i title0 description0 priority s =
     (if \<not> isValidID i then (Inl (Sentinel TErrNotFound), s)
      else case validateTitleAndDescription lib title0 description0 of
        Inl err \<Rightarrow> (Inl err, s)
      | Inr (title, description) \<Rightarrow>
     (case r_FindByID repo (ctx 0) i userID s of
        (Inl err, s1) \<Rightarrow> (Inl (WrapPre ''update task'' err), s1)
      | (Inr task, s1) \<Rightarrow>
     (case validatePriority priority (t_Priority task) of
        Inl err \<Rightarrow> (Inl err, s1)
      | Inr p \<Rightarrow>
          (let task = task\<lparr>t_Title := title, t_Description := description, t_Priority := p,
                 t_UpdatedAt := now\<rparr>
           in case r_Update repo (ctx 1) task s1 of
                (Inl err, s2) \<Rightarrow> (Inl (WrapPre ''update task'' err), s2)
              | (Inr _, s2) \<Rightarrow> (Inr task, s2)))))"

definition DeleteTask :: "'s task_repo \<Rightarrow> ctxs \<Rightarrow> string \<Rightarrow> string \<Rightarrow> (task_err, unit, 's) op" where
  "DeleteTask repo ctx userID i s =
     (if \<not> isValidID i then (Inl (Sentinel TErrNotFound), s)
      else case r_Delete repo (ctx 0) i userID s of
        (Inl err, s') \<Rightarrow> (Inl (WrapPre ''delete task'' err), s')
      | (Inr _, s') \<Rightarrow> (Inr (), s'))"

definition TransitionStatus :: "task_lib \<Rightarrow> 's task_repo \<Rightarrow> ctxs \<Rightarrow> time \<Rightarrow> string \<Rightarrow> string \<Rightarrow> status
    \<Rightarrow> (task_err, task, 's) op" where
  "TransitionStatus lib repo ctx now userID i target s =
     (if \<not> isValidID i then (Inl (Sentinel TErrNotFound), s)
      else if \<not> is_true validStatuses target
      then (Inl (invalidInput (''unknown status '' @ Quote (IsPrint lib) target)), s)
      else case r_FindByID repo (ctx 0) i userID s of
        (Inl err, s1) \<Rightarrow> (Inl (WrapPre ''transition status'' err), s1)
      | (Inr task, s1) \<Rightarrow>
          if t_Status task = target then (Inr task, s1)
          else if \<not> legal (t_Status task) target
          then (Inl (WrapPost (Sentinel TErrInvalidTransition)
                 (''cannot move from '' @ Quote (IsPrint lib) (t_Status task) @ '' to '' @ Quote (IsPrint lib) target)), s1)
          else let task = task\<lparr>t_Status := target, t_UpdatedAt := now\<rparr>
               in case r_Update repo (ctx 1) task s1 of
                    (Inl err, s2) \<Rightarrow> (Inl (WrapPre ''transition status'' err), s2)
                  | (Inr _, s2) \<Rightarrow> (Inr task, s2))"

definition CompleteTask :: "task_lib \<Rightarrow> 's task_repo \<Rightarrow> ctxs \<Rightarrow> time \<Rightarrow> string \<Rightarrow> string \<Rightarrow> (task_err, task, 's) op" where
  "CompleteTask lib repo ctx now userID i s =
     (case TransitionStatus lib repo ctx now userID i StatusDone s of
        (Inl err, s') \<Rightarrow> (Inl (WrapPre ''complete task'' err), s')
      | (Inr task, s') \<Rightarrow> (Inr task, s'))"

subsection \<open>Tables\<close>

lemma validStatuses_iff [simp]: "is_true validStatuses x \<longleftrightarrow> x \<in> set all_statuses"
  by (auto simp: is_true_def validStatuses_def all_statuses_def status_defs)

lemma validPriorities_iff [simp]: "is_true validPriorities x \<longleftrightarrow> x \<in> set all_priorities"
  by (auto simp: is_true_def validPriorities_def all_priorities_def priority_defs)

lemma empty_not_valid [simp]: "'''' \<notin> set all_statuses" "'''' \<notin> set all_priorities"
  by (simp_all add: all_statuses_def status_defs all_priorities_def priority_defs)

lemma length_all [simp]: "length all_statuses = 4" "length all_priorities = 3"
  by (simp_all add: all_statuses_def all_priorities_def)

lemma legal_valid: "legal a b \<Longrightarrow> a \<in> set all_statuses \<and> b \<in> set all_statuses \<and> a \<noteq> b"
  by (auto simp: legal_def legalTransitions_def all_statuses_def status_defs split: if_splits)

subsection \<open>Identifiers\<close>

lemma list_all2_replicate_True:
  "list_all2 (\<lambda>h c. if h then P c else Q c) (replicate n True) xs \<longleftrightarrow> length xs = n \<and> (\<forall>c \<in> set xs. P c)"
  by (induction n arbitrary: xs) (auto simp: list_all2_Cons1 length_Suc_conv)

lemma isValidID_append:
  assumes "length a = 8" "length b = 4" "length c = 4" "length d = 4" "length e = 12"
    and "\<forall>x \<in> set (a @ b @ c @ d @ e). is_hex x"
  shows "isValidID (a @ ''-'' @ b @ ''-'' @ c @ ''-'' @ d @ ''-'' @ e)"
  unfolding isValidID_def idPattern_def
  using assms by (intro list_all2_appendI) (simp_all add: list_all2_replicate_True)

text \<open>The sixteen random bytes with the version and variant bits set.\<close>

definition stamp :: "8 word list \<Rightarrow> 8 word list" where
  "stamp b = (let b1 = b[6 := ((b ! 6) AND 0x0f) OR 0x40] in b1[8 := ((b1 ! 8) AND 0x3f) OR 0x80])"

lemma length_stamp [simp]: "length (stamp b) = length b"
  by (simp add: stamp_def Let_def)

lemma newID_stamp: "newID (Inr b) = Inr (hex_bytes (take 4 (stamp b)) @ ''-'' @
   hex_bytes (take 2 (drop 4 (stamp b))) @ ''-'' @ hex_bytes (take 2 (drop 6 (stamp b))) @ ''-'' @
   hex_bytes (take 2 (drop 8 (stamp b))) @ ''-'' @ hex_bytes (drop 10 (stamp b)))"
  by (simp add: newID_def stamp_def Let_def)

lemma newID_isValidID:
  assumes "length b = 16"
  shows "\<exists>i. newID (Inr b) = Inr i \<and> isValidID i \<and> map ascii_lower i = i"
proof -
  have low: "map ascii_lower (hex_bytes bs) = hex_bytes bs" for bs
    by (rule map_idI) (use hex_bytes_hex in blast)
  have "ascii_lower CHR ''-'' = CHR ''-''" by (simp add: ascii_lower_def)
  moreover have "isValidID (hex_bytes (take 4 (stamp b)) @ ''-'' @
     hex_bytes (take 2 (drop 4 (stamp b))) @ ''-'' @ hex_bytes (take 2 (drop 6 (stamp b))) @ ''-'' @
     hex_bytes (take 2 (drop 8 (stamp b))) @ ''-'' @ hex_bytes (drop 10 (stamp b)))"
    by (rule isValidID_append) (use assms hex_bytes_hex in auto)
  ultimately show ?thesis by (simp add: newID_stamp low)
qed

lemma split_16: "xs = take 4 xs @ take 2 (drop 4 xs) @ take 2 (drop 6 xs) @ take 2 (drop 8 xs) @ drop 10 xs"
proof -
  have "drop 10 xs = drop 2 (drop 8 xs)" "drop 8 xs = drop 2 (drop 6 xs)" "drop 6 xs = drop 2 (drop 4 xs)"
    by simp_all
  then show ?thesis by (simp only: append_take_drop_id)
qed

lemma newID_inject:
  assumes "length b = 16" and "length c = 16" and "newID (Inr b) = newID (Inr c)"
  shows "stamp b = stamp c"
proof -
  have "take 4 (stamp b) = take 4 (stamp c) \<and> take 2 (drop 4 (stamp b)) = take 2 (drop 4 (stamp c)) \<and>
    take 2 (drop 6 (stamp b)) = take 2 (drop 6 (stamp c)) \<and>
    take 2 (drop 8 (stamp b)) = take 2 (drop 8 (stamp c)) \<and> drop 10 (stamp b) = drop 10 (stamp c)"
    using assms by (auto simp: newID_stamp dest!: hex_bytes_inject)
  then show ?thesis by (metis split_16)
qed

subsection \<open>Validation\<close>

lemma is_true_update [simp]: "is_true (AList.update k True m) x \<longleftrightarrow> x = k \<or> is_true m x"
  by (simp add: is_true_def gomap_simps)

text \<open>The filter loop succeeds exactly on known values and returns each of them once.\<close>

lemma filters_loop_Inr:
  assumes "filters_loop valid msg raws seen out = Inr out'"
    and "\<forall>x. is_true seen x \<longleftrightarrow> x \<in> set out" and "distinct out"
  shows "(\<forall>x \<in> set raws. x = '''' \<or> is_true valid x) \<and> distinct out' \<and>
     set out' = set out \<union> (set raws - {''''})"
  using assms
proof (induction raws arbitrary: seen out)
  case Nil
  then show ?case by simp
next
  case (Cons raw raws)
  show ?case
  proof (cases "raw = '''' \<or> is_true seen raw")
    case True
    with Cons.prems have "filters_loop valid msg raws seen out = Inr out'" and "raw = '''' \<or> is_true valid raw"
      by (auto split: if_splits)
    with True Cons.IH [of seen out] Cons.prems show ?thesis by auto
  next
    case False
    with Cons.prems have "filters_loop valid msg raws (AList.update raw True seen) (out @ [raw]) = Inr out'"
      and "is_true valid raw"
      by (auto split: if_splits)
    with False Cons.IH [of "AList.update raw True seen" "out @ [raw]"] Cons.prems show ?thesis by auto
  qed
qed

lemma filters_loop_Inl:
  assumes "filters_loop valid msg raws seen out = Inl e"
  shows "e = invalidInput msg \<and> (\<exists>x \<in> set raws. x \<noteq> '''' \<and> \<not> is_true valid x)"
  using assms by (induction raws arbitrary: seen out) (auto split: if_splits)

lemma is_true_Nil [simp]: "is_true [] x = False"
  by (simp add: is_true_def)

lemma validateStatusFilters_Inr:
  assumes "validateStatusFilters raws = Inr st"
  shows "distinct st \<and> set st = set raws - {''''} \<and> set st \<subseteq> set all_statuses"
  using assms filters_loop_Inr [of validStatuses _ raws "[]" "[]" st]
  by (auto simp: validateStatusFilters_def split: if_splits)

lemma validatePriorityFilters_Inr:
  assumes "validatePriorityFilters raws = Inr st"
  shows "distinct st \<and> set st = set raws - {''''} \<and> set st \<subseteq> set all_priorities"
  using assms filters_loop_Inr [of validPriorities _ raws "[]" "[]" st]
  by (auto simp: validatePriorityFilters_def split: if_splits)

lemma validateStatusFilters_Inl:
  assumes "validateStatusFilters raws = Inl e"
  shows "errors_Is e TErrInvalidInput \<and>
    (maxFilterValues < length raws \<or> (\<exists>x \<in> set raws. x \<noteq> '''' \<and> x \<notin> set all_statuses))"
  using assms by (auto simp: validateStatusFilters_def split: if_splits dest!: filters_loop_Inl)

lemma validatePriorityFilters_Inl:
  assumes "validatePriorityFilters raws = Inl e"
  shows "errors_Is e TErrInvalidInput \<and>
    (maxFilterValues < length raws \<or> (\<exists>x \<in> set raws. x \<noteq> '''' \<and> x \<notin> set all_priorities))"
  using assms by (auto simp: validatePriorityFilters_def split: if_splits dest!: filters_loop_Inl)

lemma validatePriority_Inr: "validatePriority p d = Inr q \<Longrightarrow> q = d \<or> q \<in> set all_priorities"
  by (auto simp: validatePriority_def split: if_splits)

text \<open>The well-formedness of a stored task, as far as validation decides it.\<close>

definition text_ok :: "task \<Rightarrow> bool" where
  "text_ok t \<longleftrightarrow> t_Title t \<noteq> '''' \<and> RuneCountInString (t_Title t) \<le> maxTitleLen \<and>
     RuneCountInString (t_Description t) \<le> maxDescriptionLen"

definition task_ok :: "task \<Rightarrow> bool" where
  "task_ok t \<longleftrightarrow> isValidID (t_ID t) \<and> text_ok t \<and> t_Status t \<in> set all_statuses \<and>
     t_Priority t \<in> set all_priorities \<and> 1 \<le> t_Version t"

lemma validateTitleAndDescription_Inr:
  assumes "validateTitleAndDescription lib a b = Inr (ti, de)"
  shows "ti \<noteq> '''' \<and> RuneCountInString ti \<le> maxTitleLen \<and> RuneCountInString de \<le> maxDescriptionLen"
  using assms by (auto simp: validateTitleAndDescription_def Let_def split: if_splits)

subsection \<open>The life of the stored tasks: an abstract state machine\<close>

text \<open>
  One service call of user \<open>u\<close> at instant \<open>now\<close>, as it changes the stored tasks: nothing, a new
  pending task, an edit that keeps identity, owner, creation time and status, a move along a legal
  transition, or a removal. Only tasks of \<open>u\<close> change, and a write advances the version by one.
\<close>

inductive task_step :: "string \<Rightarrow> time \<Rightarrow> task_store \<Rightarrow> task_store \<Rightarrow> bool"
  for u :: string and now :: time where
  stay: "task_step u now m m"
| created: "m (t_ID t) = None \<Longrightarrow> t_UserID t = u \<Longrightarrow> task_ok t \<Longrightarrow> t_Status t = StatusPending \<Longrightarrow>
     t_Version t = 1 \<Longrightarrow> t_CreatedAt t = now \<Longrightarrow> t_UpdatedAt t = now \<Longrightarrow>
     task_step u now m (m(t_ID t \<mapsto> t))"
| edited: "m i = Some t \<Longrightarrow> t_UserID t = u \<Longrightarrow>
     t' = t\<lparr>t_Title := ti, t_Description := de, t_Priority := p, t_UpdatedAt := now,
            t_Version := t_Version t + 1\<rparr> \<Longrightarrow>
     text_ok t' \<Longrightarrow> p = t_Priority t \<or> p \<in> set all_priorities \<Longrightarrow>
     task_step u now m (m(i \<mapsto> t'))"
| moved: "m i = Some t \<Longrightarrow> t_UserID t = u \<Longrightarrow> legal (t_Status t) target \<Longrightarrow>
     task_step u now m (m(i \<mapsto> t\<lparr>t_Status := target, t_UpdatedAt := now, t_Version := t_Version t + 1\<rparr>))"
| deleted: "m i = Some t \<Longrightarrow> t_UserID t = u \<Longrightarrow> task_step u now m (m(i := None))"

text \<open>The tasks of every user but one, as the store holds them.\<close>

definition foreign :: "string \<Rightarrow> task_store \<Rightarrow> task_store" where
  "foreign u m = (\<lambda>k. case m k of None \<Rightarrow> None | Some t \<Rightarrow> if t_UserID t = u then None else Some t)"

definition all_tasks :: "(task \<Rightarrow> bool) \<Rightarrow> task_store \<Rightarrow> bool" where
  "all_tasks P m \<longleftrightarrow> (\<forall>k t. m k = Some t \<longrightarrow> P t)"

lemma task_step_foreign: "task_step u now m m' \<Longrightarrow> foreign u m' = foreign u m"
  by (induction rule: task_step.induct) (auto simp: foreign_def)

lemma task_step_other_owner:
  assumes "task_step u now m m'" and "u \<noteq> v" and "t_UserID t = v"
  shows "m' k = Some t \<longleftrightarrow> m k = Some t"
  using assms by (induction rule: task_step.induct) auto

lemma task_step_ok: "task_step u now m m' \<Longrightarrow> all_tasks task_ok m \<Longrightarrow> all_tasks task_ok m'"
proof (induction rule: task_step.induct)
  case (edited m i t t' ti de p)
  then have "task_ok t" by (simp add: all_tasks_def)
  with edited have "task_ok t'" by (auto simp: task_ok_def)
  with edited show ?case by (simp add: all_tasks_def)
next
  case (moved m i t target)
  then have "task_ok t" by (simp add: all_tasks_def)
  with moved have "task_ok (t\<lparr>t_Status := target, t_UpdatedAt := now, t_Version := t_Version t + 1\<rparr>)"
    using legal_valid by (auto simp: task_ok_def text_ok_def)
  with moved show ?case by (simp add: all_tasks_def)
qed (auto simp: all_tasks_def)

text \<open>What a step does to one task that is there before and after it.\<close>

lemma task_step_history:
  assumes "task_step u now m m'" and "m k = Some t" and "m' k = Some t'"
  shows "t' = t \<or> (t_ID t' = t_ID t \<and> t_UserID t' = t_UserID t \<and> t_CreatedAt t' = t_CreatedAt t \<and>
      t_Version t' = t_Version t + 1 \<and> t_UpdatedAt t' = now \<and> t_UserID t = u \<and>
      (t_Status t' = t_Status t \<or> legal (t_Status t) (t_Status t')))"
  using assms by (induction rule: task_step.induct) (auto split: if_splits)

subsection \<open>The service over any Repository that meets the contract\<close>

lemma write_okD: "write_ok r m m' sp \<Longrightarrow> m' = snd sp \<or> m' = m"
  by (auto simp: write_ok_def)

context task_repository
begin

lemma CreateTask_step:
  assumes s: "invar s" and u: "canon u" and i: "\<And>i. newID rnd = Inr i \<Longrightarrow> canon i \<and> isValidID i"
    and run: "CreateTask lib repo ctx now rnd u ti de pr s = (r, s')"
  shows "invar s' \<and> task_step u (tick now) (abst s) (abst s')"
proof (cases "abst s' = abst s \<and> s' = s")
  case True
  with s show ?thesis by (auto intro: task_step.stay)
next
  case False
  with run obtain title desc p t w where v: "validateTitleAndDescription lib ti de = Inr (title, desc)"
    "validatePriority pr PriorityMedium = Inr p" "newID rnd = Inr (t_ID t)"
    and t: "t = \<lparr>t_ID = t_ID t, t_Title = title, t_Description = desc, t_Status = StatusPending,
       t_Priority = p, t_CreatedAt = now, t_UpdatedAt = now, t_UserID = u, t_Version = 0\<rparr>"
    and w: "r_Create repo (ctx 0) t s = (w, s')"
    by (fastforce simp: CreateTask_def Let_def split: sum.splits prod.splits)
  have "t_UserID t = u" by (subst t) simp
  with create [OF s _ _ w] i [OF v(3)] u
  have inv: "invar s'" and ok: "write_ok w (abst s) (abst s') (spec_Create (stamped tick t) (abst s))" by simp_all
  have "p \<in> set all_priorities"
    using validatePriority_Inr [OF v(2)] by (auto simp: all_priorities_def)
  with i [OF v(3)] validateTitleAndDescription_Inr [OF v(1)] have "task_ok ((stamped tick t)\<lparr>t_Version := 1\<rparr>)"
    by (subst t) (auto simp: task_ok_def text_ok_def all_statuses_def stamped_def)
  moreover have "t_Status t = StatusPending" "t_CreatedAt t = now" "t_UpdatedAt t = now"
    by (subst t, simp)+
  ultimately have "task_step u (tick now) (abst s) (snd (spec_Create (stamped tick t) (abst s)))"
    using \<open>t_UserID t = u\<close> task_step.created [of "abst s" "(stamped tick t)\<lparr>t_Version := 1\<rparr>" u "tick now"]
    by (auto simp: spec_Create_def intro: task_step.stay)
  with inv write_okD [OF ok] show ?thesis by (auto intro: task_step.stay)
qed

lemma find_Inr:
  assumes "invar s" and "canon i" and "canon u" and "r_FindByID repo c i u s = (Inr t, s1)"
  shows "invar s1 \<and> abst s1 = abst s \<and> abst s i = Some t \<and> t_UserID t = u \<and> t_ID t = i"
  using find [OF assms] keyed [OF assms(1)]
  by (auto simp: spec_FindByID_def keyed_def split: option.splits if_splits)

lemma find_Inl:
  assumes "invar s" and "canon i" and "canon u" and "r_FindByID repo c i u s = (Inl e, s1)"
  shows "invar s1 \<and> abst s1 = abst s"
  using find [OF assms] by simp

text \<open>Writing back a task just read: the stored version is the one read, so the write is the spec's.\<close>

lemma update_after_find:
  assumes "invar s1" and "canon i" and "canon u" and "abst s1 i = Some t"
    and "t_UserID t = u" and "t_ID t = i"
    and "t_ID t' = i" "t_UserID t' = u" "t_Version t' = t_Version t"
    and "r_Update repo c t' s1 = (w, s2)"
  shows "invar s2 \<and>
    (abst s2 = abst s1 \<or>
     abst s2 = (abst s1)(i \<mapsto> t'\<lparr>t_CreatedAt := t_CreatedAt t, t_UpdatedAt := tick (t_UpdatedAt t'),
        t_Version := t_Version t + 1\<rparr>))"
proof -
  from update [OF assms(1) _ _ assms(10)] assms(2,3,7,8)
  have "invar s2" and "write_ok w (abst s1) (abst s2) (spec_Update (stamped tick t') (abst s1))" by simp_all
  then show ?thesis using assms(4-9) by (auto simp: spec_Update_def stamped_def dest!: write_okD)
qed

lemma UpdateTask_step:
  assumes s: "invar s" and u: "canon u" and i: "canon i"
    and run: "UpdateTask lib repo ctx now u i ti de pr s = (r, s')"
  shows "invar s' \<and> task_step u (tick now) (abst s) (abst s')"
proof (cases "\<exists>title desc t s1 p. isValidID i \<and> validateTitleAndDescription lib ti de = Inr (title, desc) \<and>
    r_FindByID repo (ctx 0) i u s = (Inr t, s1) \<and> validatePriority pr (t_Priority t) = Inr p")
  case True
  then obtain title desc t s1 p where v: "isValidID i" "validateTitleAndDescription lib ti de = Inr (title, desc)"
    "r_FindByID repo (ctx 0) i u s = (Inr t, s1)" "validatePriority pr (t_Priority t) = Inr p"
    by blast
  define t' where "t' = t\<lparr>t_Title := title, t_Description := desc, t_Priority := p, t_UpdatedAt := now\<rparr>"
  obtain w s2 where w: "r_Update repo (ctx 1) t' s1 = (w, s2)" by (cases "r_Update repo (ctx 1) t' s1")
  with run v have "s' = s2" by (auto simp: UpdateTask_def t'_def split: sum.splits)
  note f = find_Inr [OF s i u v(3)]
  then have "invar s2 \<and> (abst s2 = abst s1 \<or>
     abst s2 = (abst s1)(i \<mapsto> t'\<lparr>t_CreatedAt := t_CreatedAt t, t_UpdatedAt := tick (t_UpdatedAt t'),
        t_Version := t_Version t + 1\<rparr>))"
    by (intro update_after_find [OF _ i u _ _ _ _ _ _ w]) (simp_all add: t'_def)
  moreover have "task_step u (tick now) (abst s)
     ((abst s)(i \<mapsto> t'\<lparr>t_CreatedAt := t_CreatedAt t, t_UpdatedAt := tick (t_UpdatedAt t'),
        t_Version := t_Version t + 1\<rparr>))"
    using f validateTitleAndDescription_Inr [OF v(2)] validatePriority_Inr [OF v(4)]
    by (intro task_step.edited [where t = t and ti = title and de = desc and p = p])
      (auto simp: t'_def text_ok_def)
  ultimately show ?thesis using f \<open>s' = s2\<close> by (auto intro: task_step.stay)
next
  case False
  with run have "s' = s \<or> (\<exists>t. r_FindByID repo (ctx 0) i u s = (t, s'))"
    by (fastforce simp: UpdateTask_def Let_def split: if_splits sum.splits prod.splits)
  then show ?thesis using s find_Inl [OF s i u] find_Inr [OF s i u]
    by (metis sum.exhaust task_step.stay)
qed

lemma TransitionStatus_step:
  assumes s: "invar s" and u: "canon u" and i: "canon i"
    and run: "TransitionStatus lib repo ctx now u i target s = (r, s')"
  shows "invar s' \<and> task_step u (tick now) (abst s) (abst s')"
proof (cases "\<exists>t s1. isValidID i \<and> r_FindByID repo (ctx 0) i u s = (Inr t, s1) \<and> legal (t_Status t) target")
  case True
  then obtain t s1 where v: "isValidID i" "r_FindByID repo (ctx 0) i u s = (Inr t, s1)"
    "legal (t_Status t) target" by blast
  define t' where "t' = t\<lparr>t_Status := target, t_UpdatedAt := now\<rparr>"
  obtain w s2 where w: "r_Update repo (ctx 1) t' s1 = (w, s2)" by (cases "r_Update repo (ctx 1) t' s1")
  with run v legal_valid [OF v(3)] have "s' = s2"
    by (auto simp: TransitionStatus_def t'_def split: sum.splits)
  note f = find_Inr [OF s i u v(2)]
  then have "invar s2 \<and> (abst s2 = abst s1 \<or>
     abst s2 = (abst s1)(i \<mapsto> t'\<lparr>t_CreatedAt := t_CreatedAt t, t_UpdatedAt := tick (t_UpdatedAt t'),
        t_Version := t_Version t + 1\<rparr>))"
    by (intro update_after_find [OF _ i u _ _ _ _ _ _ w]) (simp_all add: t'_def)
  moreover have "t'\<lparr>t_CreatedAt := t_CreatedAt t, t_UpdatedAt := tick (t_UpdatedAt t'), t_Version := t_Version t + 1\<rparr> =
      t\<lparr>t_Status := target, t_UpdatedAt := tick now, t_Version := t_Version t + 1\<rparr>"
    by (simp add: t'_def)
  ultimately show ?thesis using f v(3) \<open>s' = s2\<close> by (auto intro: task_step.stay task_step.moved)
next
  case False
  with run have "s' = s \<or> (\<exists>t. r_FindByID repo (ctx 0) i u s = (t, s'))"
    by (fastforce simp: TransitionStatus_def Let_def split: if_splits sum.splits prod.splits)
  then show ?thesis using s find_Inl [OF s i u] find_Inr [OF s i u]
    by (metis sum.exhaust task_step.stay)
qed

lemma CompleteTask_step:
  assumes "invar s" and "canon u" and "canon i" and "CompleteTask lib repo ctx now u i s = (r, s')"
  shows "invar s' \<and> task_step u (tick now) (abst s) (abst s')"
proof -
  from assms(4) obtain q where "TransitionStatus lib repo ctx now u i StatusDone s = (q, s')"
    by (auto simp: CompleteTask_def split: prod.splits sum.splits)
  with assms(1-3) show ?thesis by (rule TransitionStatus_step)
qed

lemma DeleteTask_step:
  assumes s: "invar s" and u: "canon u" and i: "canon i"
    and run: "DeleteTask repo ctx u i s = (r, s')"
  shows "invar s' \<and> task_step u now (abst s) (abst s')"
proof (cases "isValidID i")
  case True
  with run obtain w where w: "r_Delete repo (ctx 0) i u s = (w, s')"
    by (auto simp: DeleteTask_def split: prod.splits sum.splits)
  from delete [OF s i u w] have "invar s'" "write_ok w (abst s) (abst s') (spec_Delete i u (abst s))"
    by simp_all
  then show ?thesis
    by (auto simp: spec_Delete_def intro: task_step.stay task_step.deleted split: option.splits
        dest!: write_okD)
next
  case False
  with run s show ?thesis by (auto simp: DeleteTask_def intro: task_step.stay)
qed

lemma GetTask_keeps:
  assumes "invar s" and "canon u" and "canon i" and "GetTask repo ctx u i s = (r, s')"
  shows "invar s' \<and> abst s' = abst s"
proof -
  from assms(4) have "s' = s \<or> (\<exists>q. r_FindByID repo (ctx 0) i u s = (q, s'))"
    by (auto simp: GetTask_def split: if_splits sum.splits prod.splits)
  with assms(1-3) show ?thesis by (metis find)
qed

lemma ListTasks_keeps:
  assumes "invar s" and "canon u" and "ListTasks repo ctx u limit offset sts prs s = (r, s')"
  shows "invar s' \<and> abst s' = abst s"
proof -
  from assms(3) have "s' = s \<or> (\<exists>st p q s1. r_FindAll repo (ctx 0) u limit offset st p s = (q, s1) \<and>
      (s' = s1 \<or> (\<exists>n. r_CountAll repo (ctx 1) u st p s1 = (n, s'))))"
    by (auto simp: ListTasks_def split: sum.splits prod.splits)
  with assms(1,2) show ?thesis by (metis find_all count_all)
qed

lemma TaskStats_keeps:
  assumes "invar s" and "canon u" and "TaskStats repo ctx u sts prs s = (r, s')"
  shows "invar s' \<and> abst s' = abst s"
proof -
  from assms(3) have "s' = s \<or> (\<exists>st p q. r_CountByStatusAndPriority repo (ctx 0) u st p s = (q, s'))"
    by (auto simp: TaskStats_def split: sum.splits prod.splits)
  with assms(1,2) show ?thesis by (metis count_by)
qed

lemma ExportTasks_keeps:
  assumes "invar s" and "canon u" and "ExportTasks repo ctx u sts prs s = (r, s')"
  shows "invar s' \<and> abst s' = abst s"
proof -
  from assms(3) have "s' = s \<or> (\<exists>st p q s1. r_CountAll repo (ctx 0) u st p s = (q, s1) \<and>
      (s' = s1 \<or> (\<exists>n. r_FindAll repo (ctx 1) u (-1) 0 st p s1 = (n, s'))))"
    by (auto simp: ExportTasks_def split: sum.splits prod.splits if_splits)
  with assms(1,2) show ?thesis by (metis find_all count_all)
qed

end

subsection \<open>What each operation answers when the store is reliable and the context alive\<close>

abbreviation live :: ctxs where
  "live \<equiv> \<lambda>_. Live"

lemma fold_add_sum: "fold (\<lambda>x acc. acc + x) xs (a :: int) = a + sum_list xs"
  by (induction xs arbitrary: a) auto

text \<open>The values of a grouped count add up to the number of tasks counted.\<close>

lemma counts_of_total:
  assumes "counts_of known f ts g"
  shows "sum_list (gomap_values g) = int (length ts)"
proof -
  let ?n = "\<lambda>x. int (length (filter (\<lambda>t. f t = x) ts))"
  have wf: "gomap_wf g" and lk: "\<And>x. map_of g x = (if x \<in> set known \<or> x \<in> f ` set ts then Some (?n x) else None)"
    using assms by (auto simp: counts_of_def)
  have dom: "set (map fst g) = set known \<union> f ` set ts"
  proof -
    have "set (map fst g) = dom (map_of g)" by (simp add: dom_map_of_conv_image_fst)
    also have "\<dots> = set known \<union> f ` set ts" using lk by (auto simp: dom_def split: if_splits)
    finally show ?thesis .
  qed
  have "snd kv = ?n (fst kv)" if "kv \<in> set g" for kv
  proof -
    from that wf have "map_of g (fst kv) = Some (snd kv)"
      by (intro map_of_is_SomeI) simp_all
    with lk [of "fst kv"] show ?thesis by (simp split: if_splits)
  qed
  then have "gomap_values g = map (\<lambda>kv. ?n (fst kv)) g" by (rule map_cong [OF refl])
  then have "sum_list (gomap_values g) = sum_list (map ?n (map fst g))"
    by (simp only: map_map comp_def)
  also have "\<dots> = sum ?n (set (map fst g))"
    using wf by (rule sum_list_distinct_conv_sum_set)
  also have "\<dots> = int (length ts)"
  proof -
    have "(\<Sum>x\<in>A. ?n x) = int (length (filter (\<lambda>t. f t \<in> A) ts))" if "finite A" for A
      using that
    proof (induction ts)
      case (Cons t ts)
      have "(\<Sum>x\<in>A. int (length (filter (\<lambda>t. f t = x) (t # ts)))) =
          (\<Sum>x\<in>A. int (length (filter (\<lambda>t. f t = x) ts)) + (if x = f t then 1 else 0))"
        by (rule sum.cong) auto
      with Cons show ?case by (simp add: sum.distrib)
    qed simp
    from this [of "set (map fst g)"] show ?thesis
      using dom by (simp add: filter_id_conv [THEN iffD2])
  qed
  finally show ?thesis .
qed

context reliable_task_repository
begin

lemma find_live_eq:
  assumes "invar s" and "canon i" and "canon u"
  obtains s1 where "r_FindByID repo Live i u s = (spec_FindByID i u (abst s), s1)"
    and "invar s1" and "abst s1 = abst s"
proof -
  obtain r s1 where r: "r_FindByID repo Live i u s = (r, s1)" by fastforce
  with find [OF assms r] find_live [OF assms] that show ?thesis by metis
qed

lemma update_live_eq:
  assumes "invar s" and "canon (t_ID t)" and "canon (t_UserID t)"
  obtains s1 where "r_Update repo Live t s = (fst (spec_Update (stamped tick t) (abst s)), s1)"
    and "invar s1" and "abst s1 = snd (spec_Update (stamped tick t) (abst s))"
proof -
  obtain r s1 where r: "r_Update repo Live t s = (r, s1)" by fastforce
  with update [OF assms r] update_live [OF assms] that show ?thesis
    by (auto simp: write_ok_def) (metis fst_conv snd_conv)
qed

lemma find_all_live_eq:
  assumes "invar s" and "canon u"
  obtains xs s1 where "r_FindAll repo Live u limit offset sts prs s = (Inr (window limit offset xs), s1)"
    and "is_listing (abst s) u sts prs xs" and "invar s1" and "abst s1 = abst s"
proof -
  obtain r s1 where r: "r_FindAll repo Live u limit offset sts prs s = (r, s1)" by fastforce
  with find_all [OF assms r] find_all_live [OF assms r] that show ?thesis
    by (cases r) auto
qed

lemma count_all_live_eq:
  assumes "invar s" and "canon u" and "is_listing (abst s) u sts prs xs"
  obtains s1 where "r_CountAll repo Live u sts prs s = (Inr (int (length xs)), s1)"
    and "invar s1" and "abst s1 = abst s"
proof -
  obtain r s1 where r: "r_CountAll repo Live u sts prs s = (r, s1)" by fastforce
  with count_all [OF assms(1,2) r] count_all_live [OF assms(1,2) r] that
    is_listing_unique [OF keyed [OF assms(1)] assms(3)] show ?thesis
    by (cases r) auto
qed

lemma GetTask_live:
  assumes "invar s" and "canon i" and "canon u" and "isValidID i"
  shows "fst (GetTask repo live u i s) =
    (case abst s i of
       Some t \<Rightarrow> if t_UserID t = u then Inr t else Inl (WrapPre ''get task'' (Sentinel TErrNotFound))
     | None \<Rightarrow> Inl (WrapPre ''get task'' (Sentinel TErrNotFound)))"
proof -
  obtain s1 where "r_FindByID repo Live i u s = (spec_FindByID i u (abst s), s1)"
    using find_live_eq [OF assms(1-3)] by metis
  with assms(4) show ?thesis
    by (simp add: GetTask_def spec_FindByID_def split: option.split)
qed

text \<open>The whole of \<^verbatim>\<open>TransitionStatus\<close> on a well-formed request, in terms of the stored task.\<close>

lemma TransitionStatus_live:
  assumes "invar s" and "canon i" and "canon u" and "isValidID i" and "target \<in> set all_statuses"
    and run: "TransitionStatus lib repo live now u i target s = (r, s')"
  shows "case spec_FindByID i u (abst s) of
      Inl e \<Rightarrow> r = Inl (WrapPre ''transition status'' e) \<and> abst s' = abst s
    | Inr t \<Rightarrow>
        if t_Status t = target then r = Inr t \<and> abst s' = abst s
        else if \<not> legal (t_Status t) target
        then (\<exists>m. r = Inl (WrapPost (Sentinel TErrInvalidTransition) m)) \<and> abst s' = abst s
        else r = Inr (t\<lparr>t_Status := target, t_UpdatedAt := now\<rparr>) \<and>
          abst s' = (abst s)(i \<mapsto> t\<lparr>t_Status := target, t_UpdatedAt := tick now, t_Version := t_Version t + 1\<rparr>)"
proof -
  obtain s1 where f: "r_FindByID repo Live i u s = (spec_FindByID i u (abst s), s1)"
    "invar s1" "abst s1 = abst s"
    using find_live_eq [OF assms(1-3)] by metis
  show ?thesis
  proof (cases "spec_FindByID i u (abst s)")
    case (Inl e)
    with f run assms(4,5) show ?thesis by (auto simp: TransitionStatus_def)
  next
    case (Inr t)
    with f have t: "abst s i = Some t" "t_UserID t = u" "t_ID t = i"
      using find_Inr [OF assms(1-3)] by auto
    let ?t = "t\<lparr>t_Status := target, t_UpdatedAt := now\<rparr>"
    obtain s2 where "r_Update repo Live ?t s1 = (fst (spec_Update (stamped tick ?t) (abst s1)), s2)"
      "abst s2 = snd (spec_Update (stamped tick ?t) (abst s1))"
      using update_live_eq [OF f(2), of ?t] t assms(2,3) by auto
    with f t Inr run assms(4,5) show ?thesis
      by (auto simp: TransitionStatus_def spec_Update_def stamped_def)
  qed
qed

lemma UpdateTask_live:
  assumes "invar s" and "canon i" and "canon u" and "isValidID i"
    and "validateTitleAndDescription lib ti de = Inr (title, desc)"
    and "spec_FindByID i u (abst s) = Inr t" and "validatePriority pr (t_Priority t) = Inr p"
    and run: "UpdateTask lib repo live now u i ti de pr s = (r, s')"
  shows "r = Inr (t\<lparr>t_Title := title, t_Description := desc, t_Priority := p, t_UpdatedAt := now\<rparr>) \<and>
    abst s' = (abst s)(i \<mapsto> t\<lparr>t_Title := title, t_Description := desc, t_Priority := p,
      t_UpdatedAt := tick now, t_Version := t_Version t + 1\<rparr>)"
proof -
  obtain s1 where f: "r_FindByID repo Live i u s = (Inr t, s1)" "invar s1" "abst s1 = abst s"
    using find_live_eq [OF assms(1-3)] assms(6) by metis
  then have t: "abst s i = Some t" "t_UserID t = u" "t_ID t = i"
    using find_Inr [OF assms(1-3)] by auto
  let ?t = "t\<lparr>t_Title := title, t_Description := desc, t_Priority := p, t_UpdatedAt := now\<rparr>"
  obtain s2 where "r_Update repo Live ?t s1 = (fst (spec_Update (stamped tick ?t) (abst s1)), s2)"
    "abst s2 = snd (spec_Update (stamped tick ?t) (abst s1))"
    using update_live_eq [OF f(2), of ?t] t assms(2,3) by auto
  with f t run assms(4,5,7) show ?thesis
    by (auto simp: UpdateTask_def spec_Update_def stamped_def)
qed

lemma ListTasks_live:
  assumes "invar s" and "canon u" and "validateStatusFilters sts = Inr st"
    and "validatePriorityFilters prs = Inr p"
  shows "\<exists>xs. is_listing (abst s) u st p xs \<and>
    fst (ListTasks repo live u limit offset sts prs s) = Inr (window limit offset xs, int (length xs))"
proof -
  obtain xs s1 where f: "r_FindAll repo Live u limit offset st p s = (Inr (window limit offset xs), s1)"
    "is_listing (abst s) u st p xs" "invar s1" "abst s1 = abst s"
    using find_all_live_eq [OF assms(1,2)] by metis
  then obtain s2 where "r_CountAll repo Live u st p s1 = (Inr (int (length xs)), s2)"
    using count_all_live_eq [OF f(3) assms(2), of st p xs] by auto
  with f assms(3,4) show ?thesis by (auto simp: ListTasks_def)
qed

lemma TaskStats_live:
  assumes "invar s" and "canon u" and "validateStatusFilters sts = Inr st"
    and "validatePriorityFilters prs = Inr p"
  shows "\<exists>xs q. is_listing (abst s) u st p xs \<and>
    fst (TaskStats repo live u sts prs s) = Inr q \<and> st_Total q = int (length xs) \<and>
    counts_of all_statuses t_Status xs (st_ByStatus q) \<and>
    counts_of all_priorities t_Priority xs (st_ByPriority q)"
proof -
  obtain r s1 where r: "r_CountByStatusAndPriority repo Live u st p s = (r, s1)" by fastforce
  with count_by [OF assms(1,2) r] count_by_live [OF assms(1,2) r]
  obtain bs bp xs where "r = Inr (bs, bp)" "is_listing (abst s) u st p xs"
    "counts_of all_statuses t_Status xs bs" "counts_of all_priorities t_Priority xs bp"
    by (cases r) auto
  with r assms(3,4) show ?thesis
    by (auto simp: TaskStats_def fold_add_sum counts_of_total)
qed

lemma ExportTasks_live:
  assumes "invar s" and "canon u" and "validateStatusFilters sts = Inr st"
    and "validatePriorityFilters prs = Inr p"
  shows "\<exists>xs. is_listing (abst s) u st p xs \<and>
    (if int (length xs) \<le> maxExportRows
     then fst (ExportTasks repo live u sts prs s) = Inr xs
     else \<exists>m. fst (ExportTasks repo live u sts prs s) = Inl (invalidInput m))"
proof -
  obtain xs s0 where f0: "is_listing (abst s) u st p xs"
    using find_all_live_eq [OF assms(1,2)] by metis
  obtain s1 where c: "r_CountAll repo Live u st p s = (Inr (int (length xs)), s1)" "invar s1" "abst s1 = abst s"
    using count_all_live_eq [OF assms(1,2) f0] by metis
  obtain ys s2 where f: "r_FindAll repo Live u (-1) 0 st p s1 = (Inr (window (-1) 0 ys), s2)"
    "is_listing (abst s1) u st p ys"
    using find_all_live_eq [OF c(2) assms(2)] by metis
  have "ys = xs" using is_listing_unique [OF keyed [OF assms(1)] f0] f(2) c(3) by simp
  with f0 f c assms(3,4) show ?thesis
    by (intro exI [of _ xs]) (auto simp: ExportTasks_def window_def)
qed

end

end
