(* ===== verification/TaskCalls.thy ===== *)
theory TaskCalls
  imports TaskService
begin

text \<open>
  The task service as a whole: the nine operations as the calls of a client, runs of calls from any
  users in any order, and what holds after every run on the in-memory store. A call carries what the
  environment supplies to it: the clock, the random bytes, the contexts of its repository calls.
\<close>

datatype task_call =
    CallCreate time "8 word list" string string string
  | CallGet string
  | CallList int nat "string list" "string list"
  | CallStats "string list" "string list"
  | CallExport "string list" "string list"
  | CallUpdate time string string string string
  | CallDelete string
  | CallComplete time string
  | CallTransition time string status

fun serve :: "task_lib \<Rightarrow> 's task_repo \<Rightarrow> ctxs \<Rightarrow> string \<Rightarrow> task_call \<Rightarrow> 's \<Rightarrow> 's" where
  "serve lib repo ctx u (CallCreate now rnd ti de pr) s = snd (CreateTask lib repo ctx now (Inr rnd) u ti de pr s)"
| "serve lib repo ctx u (CallGet i) s = snd (GetTask repo ctx u i s)"
| "serve lib repo ctx u (CallList limit offset sts prs) s = snd (ListTasks repo ctx u limit offset sts prs s)"
| "serve lib repo ctx u (CallStats sts prs) s = snd (TaskStats repo ctx u sts prs s)"
| "serve lib repo ctx u (CallExport sts prs) s = snd (ExportTasks repo ctx u sts prs s)"
| "serve lib repo ctx u (CallUpdate now i ti de pr) s = snd (UpdateTask lib repo ctx now u i ti de pr s)"
| "serve lib repo ctx u (CallDelete i) s = snd (DeleteTask repo ctx u i s)"
| "serve lib repo ctx u (CallComplete now i) s = snd (CompleteTask lib repo ctx now u i s)"
| "serve lib repo ctx u (CallTransition now i target) s = snd (TransitionStatus lib repo ctx now u i target s)"

fun run_calls :: "task_lib \<Rightarrow> 's task_repo \<Rightarrow> (ctxs \<times> string \<times> task_call) list \<Rightarrow> 's \<Rightarrow> 's" where
  "run_calls lib repo [] s = s"
| "run_calls lib repo ((ctx, u, call) # calls) s = run_calls lib repo calls (serve lib repo ctx u call s)"

text \<open>\<^verbatim>\<open>crypto/rand\<close> fills the whole array: a creating call comes with sixteen bytes.\<close>

fun call_ok :: "task_call \<Rightarrow> bool" where
  "call_ok (CallCreate now rnd ti de pr) = (length rnd = 16)"
| "call_ok _ = True"

fun call_ids :: "task_call \<Rightarrow> string set" where
  "call_ids (CallGet i) = {i}"
| "call_ids (CallUpdate now i ti de pr) = {i}"
| "call_ids (CallDelete i) = {i}"
| "call_ids (CallComplete now i) = {i}"
| "call_ids (CallTransition now i target) = {i}"
| "call_ids _ = {}"

lemma newID_valid_canon:
  "length rnd = 16 \<Longrightarrow> newID (Inr rnd) = Inr i \<Longrightarrow> isValidID i \<and> map ascii_lower i = i"
  using newID_isValidID [of rnd] by auto

context task_repository
begin

text \<open>Every call is a step of the abstract machine, made by the calling user.\<close>

lemma serve_step:
  assumes "invar s" and "canon u" and "\<forall>i \<in> call_ids call. canon i" and "call_ok call"
    and "\<And>i. isValidID i \<Longrightarrow> map ascii_lower i = i \<Longrightarrow> canon i"
  shows "invar (serve lib repo ctx u call s) \<and>
    (\<exists>now. task_step u now (abst s) (abst (serve lib repo ctx u call s)))"
proof (cases call)
  case (CallCreate now rnd ti de pr)
  with assms show ?thesis
    using CreateTask_step [OF assms(1,2), of "Inr rnd" lib ctx now ti de pr] newID_valid_canon [of rnd]
    by (auto simp: prod_eq_iff)
next
  case (CallGet i)
  with assms show ?thesis using GetTask_keeps [OF assms(1,2), of i ctx]
    by (auto simp: prod_eq_iff intro: task_step.stay)
next
  case (CallList limit offset sts prs)
  then show ?thesis using ListTasks_keeps [OF assms(1,2), of ctx limit offset sts prs]
    by (auto simp: prod_eq_iff intro: task_step.stay)
next
  case (CallStats sts prs)
  then show ?thesis using TaskStats_keeps [OF assms(1,2), of ctx sts prs]
    by (auto simp: prod_eq_iff intro: task_step.stay)
next
  case (CallExport sts prs)
  then show ?thesis using ExportTasks_keeps [OF assms(1,2), of ctx sts prs]
    by (auto simp: prod_eq_iff intro: task_step.stay)
next
  case (CallUpdate now i ti de pr)
  with assms show ?thesis using UpdateTask_step [OF assms(1,2), of i lib ctx now ti de pr]
    by (auto simp: prod_eq_iff)
next
  case (CallDelete i)
  with assms show ?thesis using DeleteTask_step [OF assms(1,2), of i ctx]
    by (auto simp: prod_eq_iff)
next
  case (CallComplete now i)
  with assms show ?thesis using CompleteTask_step [OF assms(1,2), of i lib ctx now]
    by (auto simp: prod_eq_iff)
next
  case (CallTransition now i target)
  with assms show ?thesis using TransitionStatus_step [OF assms(1,2), of i lib ctx now target]
    by (auto simp: prod_eq_iff)
qed

lemma run_inv:
  assumes "invar s"
    and "\<forall>(ctx, u, call) \<in> set calls. call_ok call \<and> canon u \<and> (\<forall>i \<in> call_ids call. canon i) \<and> Q u"
    and canon: "\<And>i. isValidID i \<Longrightarrow> map ascii_lower i = i \<Longrightarrow> canon i"
    and "P (abst s)"
    and step: "\<And>u now m m'. Q u \<Longrightarrow> task_step u now m m' \<Longrightarrow> P m \<Longrightarrow> P m'"
  shows "invar (run_calls lib repo calls s) \<and> P (abst (run_calls lib repo calls s))"
  using assms(1,2,4)
proof (induction calls arbitrary: s)
  case Nil
  then show ?case by simp
next
  case (Cons c calls)
  obtain ctx u call where c: "c = (ctx, u, call)" by (cases c)
  let ?s = "serve lib repo ctx u call s"
  from Cons.prems(2) c have call: "call_ok call" "canon u" "\<forall>i \<in> call_ids call. canon i" "Q u" by simp_all
  with serve_step [OF Cons.prems(1) call(2,3,1) canon] obtain now
    where "invar ?s" "task_step u now (abst s) (abst ?s)" by blast
  with step call(4) Cons.prems(3) have "invar ?s" "P (abst ?s)" by blast+
  with Cons c show ?case by simp
qed

text \<open>Well-formedness and tenant isolation over runs, for any store that meets the contract.\<close>

lemma run_well_formed:
  assumes "invar s" and "all_tasks task_ok (abst s)"
    and "\<forall>(ctx, u, call) \<in> set calls. call_ok call \<and> canon u \<and> (\<forall>i \<in> call_ids call. canon i)"
    and "\<And>i. isValidID i \<Longrightarrow> map ascii_lower i = i \<Longrightarrow> canon i"
    and "abst (run_calls lib repo calls s) k = Some t"
  shows "t_ID t = k \<and> task_ok t"
proof -
  have "invar (run_calls lib repo calls s) \<and> all_tasks task_ok (abst (run_calls lib repo calls s))"
    by (rule run_inv [where Q = "\<lambda>_. True"]) (use assms(1-4) task_step_ok in auto)
  with assms(5) keyed show ?thesis by (auto simp: all_tasks_def keyed_def)
qed

lemma run_isolation:
  assumes "invar s"
    and "\<forall>(ctx, u, call) \<in> set calls. call_ok call \<and> canon u \<and> (\<forall>i \<in> call_ids call. canon i) \<and> u \<noteq> v"
    and "\<And>i. isValidID i \<Longrightarrow> map ascii_lower i = i \<Longrightarrow> canon i"
  shows "abst (run_calls lib repo calls s) k = Some t \<and> t_UserID t = v \<longleftrightarrow> abst s k = Some t \<and> t_UserID t = v"
proof -
  let ?P = "\<lambda>m. \<forall>k t. t_UserID t = v \<longrightarrow> m k = Some t \<longleftrightarrow> abst s k = Some t"
  have "invar (run_calls lib repo calls s) \<and> ?P (abst (run_calls lib repo calls s))"
    by (rule run_inv [where Q = "\<lambda>u. u \<noteq> v"]) (use assms in \<open>simp_all add: task_step_other_owner\<close>)
  then show ?thesis by blast
qed

end

text \<open>What well-formedness says, field by field.\<close>

lemma task_ok_fields:
  "task_ok t \<Longrightarrow> isValidID (t_ID t) \<and> t_Title t \<noteq> '''' \<and> RuneCountInString (t_Title t) \<le> 200 \<and>
    RuneCountInString (t_Description t) \<le> 2000 \<and>
    t_Status t \<in> {''pending'', ''in_progress'', ''done'', ''cancelled''} \<and>
    t_Priority t \<in> {''low'', ''medium'', ''high''} \<and> 1 \<le> t_Version t"
  by (auto simp: task_ok_def text_ok_def maxTitleLen_def maxDescriptionLen_def
      all_statuses_def status_defs all_priorities_def priority_defs)

text \<open>
  C1. Starting from the empty in-memory store, after any sequence of calls by any users, with any
  clocks, random bytes and contexts (cancelled ones included), every stored task is well formed: stored under its own
  valid UUID, with a non-empty title of at most 200 characters, a description of at most 2000, a known
  status and priority and a version of at least 1.
\<close>

theorem store_always_well_formed:
  assumes "\<forall>(ctx, u, call) \<in> set calls. call_ok call"
    and "map_of (run_calls lib memoryRepository calls NewMemoryRepository) k = Some t"
  shows "t_ID t = k \<and> isValidID (t_ID t) \<and> t_Title t \<noteq> '''' \<and> RuneCountInString (t_Title t) \<le> 200 \<and>
    RuneCountInString (t_Description t) \<le> 2000 \<and>
    t_Status t \<in> {''pending'', ''in_progress'', ''done'', ''cancelled''} \<and>
    t_Priority t \<in> {''low'', ''medium'', ''high''} \<and> 1 \<le> t_Version t"
proof -
  have "t_ID t = k \<and> task_ok t"
    by (rule mem.run_well_formed [OF _ _ _ _ assms(2)])
      (use assms(1) in \<open>auto simp: NewMemoryRepository_def all_tasks_def mem_inv_def keyed_def\<close>)
  with task_ok_fields [of t] show ?thesis by blast
qed

text \<open>
  C2. Tenant isolation over runs: whatever calls other users make, in any number and order, every task of
  a user who makes none of them is stored exactly as before, and none is added in their name.
\<close>

theorem other_users_cannot_touch:
  assumes "mem_inv s" and "\<forall>(ctx, u, call) \<in> set calls. call_ok call \<and> u \<noteq> v"
  shows "map_of (run_calls lib memoryRepository calls s) k = Some t \<and> t_UserID t = v \<longleftrightarrow>
    map_of s k = Some t \<and> t_UserID t = v"
  by (rule mem.run_isolation) (use assms in auto)

subsection \<open>A concrete run\<close>

definition demo_lib :: task_lib where
  "demo_lib = \<lparr>PlainText = TrimSpace, StripControlChars = (\<lambda>x. x), IsPrint = (\<lambda>_. True)\<rparr>"

definition demo_id :: string where
  "demo_id = ''00010203-0405-4607-8809-0a0b0c0d0e0f''"

definition demo_task :: task where
  "demo_task = \<lparr>t_ID = demo_id, t_Title = ''Buy milk'', t_Description = ''two litres'', t_Status = ''pending'',
     t_Priority = ''medium'', t_CreatedAt = 5, t_UpdatedAt = 5, t_UserID = ''ann'', t_Version = 1\<rparr>"

definition demo_bytes :: "8 word list" where
  "demo_bytes = [0, 1, 2, 3, 4, 5, 6, 7, 8, 9, 10, 11, 12, 13, 14, 15]"

definition demo_calls :: "(ctxs \<times> string \<times> task_call) list" where
  "demo_calls = [(live, ''ann'', CallCreate 5 demo_bytes '' Buy milk '' ''two litres'' '''')]"

lemma demo_newID: "newID (Inr demo_bytes) = Inr demo_id"
  by (simp add: newID_def demo_bytes_def demo_id_def go_eval)

lemma demo_validate:
  "validateTitleAndDescription demo_lib '' Buy milk '' ''two litres'' = Inr (''Buy milk'', ''two litres'')"
  by (simp add: validateTitleAndDescription_def demo_lib_def maxTitleLen_def maxDescriptionLen_def go_eval)

lemma demo_run: "run_calls demo_lib memoryRepository demo_calls NewMemoryRepository = [(demo_id, demo_task)]"
  by (simp add: demo_calls_def CreateTask_def demo_newID demo_validate validatePriority_def
      mem_Create_def NewMemoryRepository_def demo_task_def status_defs priority_defs)

theorem store_always_well_formed_witness:
  "map_of (run_calls demo_lib memoryRepository demo_calls NewMemoryRepository) demo_id = Some demo_task \<and>
   t_ID demo_task = demo_id \<and> isValidID demo_id \<and> 1 \<le> t_Version demo_task"
proof -
  have ok: "\<forall>(ctx, u, call) \<in> set demo_calls. call_ok call"
    by (simp add: demo_calls_def demo_bytes_def)
  have found: "map_of (run_calls demo_lib memoryRepository demo_calls NewMemoryRepository) demo_id = Some demo_task"
    by (simp add: demo_run)
  from store_always_well_formed [OF ok found] found show ?thesis by metis
qed

theorem other_users_cannot_touch_witness:
  "map_of (run_calls demo_lib memoryRepository [(live, ''bob'', CallDelete demo_id)] [(demo_id, demo_task)]) demo_id
     = Some demo_task"
proof -
  have inv: "mem_inv [(demo_id, demo_task)]"
    by (simp add: mem_inv_def keyed_def demo_task_def)
  have calls: "\<forall>(ctx, u, call) \<in> set [(live, ''bob'', CallDelete demo_id)]. call_ok call \<and> u \<noteq> ''ann''"
    by simp
  from other_users_cannot_touch [OF inv calls, of demo_lib demo_id demo_task] show ?thesis
    by (simp add: demo_task_def)
qed

end
