(* ===== verification/TaskConcurrency.thy ===== *)
theory TaskConcurrency
  imports TaskCalls
begin

text \<open>
  Requests running concurrently on one in-memory repository. \<^verbatim>\<open>UpdateTask\<close> and
  \<^verbatim>\<open>TransitionStatus\<close> read a task and write it back in two separate repository calls; each call is
  atomic (it holds the repository's mutex), but other requests run in between. A step of the system
  is one such repository call of one request. Identifiers are random UUIDs: the model keeps the set of
  those ever used and lets a creation only draw a new one.
\<close>

subsection \<open>The two halves of a read-modify-write\<close>

text \<open>
  Everything \<^verbatim>\<open>UpdateTask\<close> and \<^verbatim>\<open>TransitionStatus\<close> do before \<^verbatim>\<open>repo.Update\<close>: the task read and the
  task to write, or nothing when the request ends before it writes.
\<close>

definition prepare_update :: "task_lib \<Rightarrow> time \<Rightarrow> string \<Rightarrow> string \<Rightarrow> string \<Rightarrow> string \<Rightarrow> string
    \<Rightarrow> memory_store \<Rightarrow> (task \<times> task) option" where
  "prepare_update lib now userID i title0 description0 priority store =
     (if \<not> isValidID i then None
      else case validateTitleAndDescription lib title0 description0 of
        Inl err \<Rightarrow> None
      | Inr (title, description) \<Rightarrow>
     (case fst (mem_FindByID Live i userID store) of
        Inl err \<Rightarrow> None
      | Inr task \<Rightarrow>
     (case validatePriority priority (t_Priority task) of
        Inl err \<Rightarrow> None
      | Inr p \<Rightarrow> Some (task, task\<lparr>t_Title := title, t_Description := description, t_Priority := p,
                  t_UpdatedAt := now\<rparr>))))"

definition prepare_transition :: "time \<Rightarrow> string \<Rightarrow> string \<Rightarrow> status
    \<Rightarrow> memory_store \<Rightarrow> (task \<times> task) option" where
  "prepare_transition now userID i target store =
     (if \<not> isValidID i \<or> \<not> is_true validStatuses target then None
      else case fst (mem_FindByID Live i userID store) of
        Inl err \<Rightarrow> None
      | Inr task \<Rightarrow>
          if t_Status task = target \<or> \<not> legal (t_Status task) target then None
          else Some (task, task\<lparr>t_Status := target, t_UpdatedAt := now\<rparr>))"

lemma mem_FindByID_state [simp]: "snd (mem_FindByID c i u s) = s"
  by (simp add: mem_FindByID_def split: option.split)

text \<open>Run without interference, the two halves are the operation.\<close>

lemma UpdateTask_halves:
  "UpdateTask lib memoryRepository live now u i ti de pr s =
     (case prepare_update lib now u i ti de pr s of
        None \<Rightarrow> (fst (UpdateTask lib memoryRepository live now u i ti de pr s), s)
      | Some (t, t') \<Rightarrow>
          (case mem_Update Live t' s of
             (Inl err, s') \<Rightarrow> (Inl (WrapPre ''update task'' err), s')
           | (Inr _, s') \<Rightarrow> (Inr t', s')))"
  by (auto simp: UpdateTask_def prepare_update_def mem_FindByID_spec split: sum.splits prod.splits if_splits)

lemma TransitionStatus_halves:
  "TransitionStatus lib memoryRepository live now u i target s =
     (case prepare_transition now u i target s of
        None \<Rightarrow> (fst (TransitionStatus lib memoryRepository live now u i target s), s)
      | Some (t, t') \<Rightarrow>
          (case mem_Update Live t' s of
             (Inl err, s') \<Rightarrow> (Inl (WrapPre ''transition status'' err), s')
           | (Inr _, s') \<Rightarrow> (Inr t', s')))"
  by (auto simp: TransitionStatus_def prepare_transition_def mem_FindByID_spec
      split: sum.splits prod.splits if_splits)

subsection \<open>The system\<close>

text \<open>
  A request that reads before it writes, with its arguments: its first half, and the whole operation carried out at
  once on a store.
\<close>

datatype wrequest =
    EditReq task_lib time string string string string string
  | MoveReq task_lib time string string status

fun prepare :: "wrequest \<Rightarrow> memory_store \<Rightarrow> (task \<times> task) option" where
  "prepare (EditReq lib now u i ti de pr) m = prepare_update lib now u i ti de pr m"
| "prepare (MoveReq lib now u i target) m = prepare_transition now u i target m"

fun at_once :: "wrequest \<Rightarrow> memory_store \<Rightarrow> (terr + task) \<times> memory_store" where
  "at_once (EditReq lib now u i ti de pr) m = UpdateTask lib memoryRepository live now u i ti de pr m"
| "at_once (MoveReq lib now u i target) m = TransitionStatus lib memoryRepository live now u i target m"

fun req_time :: "wrequest \<Rightarrow> time" where
  "req_time (EditReq lib now u i ti de pr) = now"
| "req_time (MoveReq lib now u i target) = now"

fun req_id :: "wrequest \<Rightarrow> string" where
  "req_id (EditReq lib now u i ti de pr) = i"
| "req_id (MoveReq lib now u i target) = i"

record csys =
  cs_store :: memory_store
  cs_used :: "string set"
  cs_held :: "nat \<Rightarrow> (wrequest \<times> task \<times> task) option"

definition cs_init :: csys where
  "cs_init = \<lparr>cs_store = NewMemoryRepository, cs_used = {}, cs_held = (\<lambda>_. None)\<rparr>"

inductive cstep :: "csys \<Rightarrow> csys \<Rightarrow> bool" where
  create: "length rnd = 16 \<Longrightarrow> CreateTask lib memoryRepository ctx now (Inr rnd) u ti de pr (cs_store s) = (r, m') \<Longrightarrow>
     newID (Inr rnd) = Inr i \<Longrightarrow> i \<notin> cs_used s \<Longrightarrow>
     cstep s (s\<lparr>cs_store := m', cs_used := insert i (cs_used s)\<rparr>)"
| delete: "DeleteTask memoryRepository ctx u i (cs_store s) = (r, m') \<Longrightarrow> cstep s (s\<lparr>cs_store := m'\<rparr>)"
| read: "cs_held s c = None \<Longrightarrow> prepare q (cs_store s) = Some (t, t') \<Longrightarrow>
     cstep s (s\<lparr>cs_held := (cs_held s)(c := Some (q, t, t'))\<rparr>)"
| write_back: "cs_held s c = Some (q, t, t') \<Longrightarrow> mem_Update ctx t' (cs_store s) = (r, m') \<Longrightarrow>
     cstep s (s\<lparr>cs_store := m', cs_held := (cs_held s)(c := None)\<rparr>)"
| give_up: "cstep s (s\<lparr>cs_held := (cs_held s)(c := None)\<rparr>)"

inductive creachable :: "csys \<Rightarrow> bool" where
  start: "creachable cs_init"
| step: "creachable s \<Longrightarrow> cstep s s' \<Longrightarrow> creachable s'"

subsection \<open>The invariant\<close>

text \<open>
  What a request plans to write is a legal change of what it read.
\<close>

definition planned :: "time \<Rightarrow> task \<Rightarrow> task \<Rightarrow> bool" where
  "planned now t t' \<longleftrightarrow>
     (\<exists>ti de p. t' = t\<lparr>t_Title := ti, t_Description := de, t_Priority := p, t_UpdatedAt := now\<rparr> \<and>
        text_ok t' \<and> (p = t_Priority t \<or> p \<in> set all_priorities)) \<or>
     (\<exists>target. t' = t\<lparr>t_Status := target, t_UpdatedAt := now\<rparr> \<and> legal (t_Status t) target)"

text \<open>
  A task in a request's hands was stored once under a used identifier, and whatever is
  stored there now either is that very task or has a higher version; the owner never changed. On any store that
  still holds the task read, the request would plan the same write.
\<close>

definition held_ok :: "memory_store \<Rightarrow> string set \<Rightarrow> wrequest \<times> task \<times> task \<Rightarrow> bool" where
  "held_ok m used h = (case h of (q, t, t') \<Rightarrow>
     planned (req_time q) t t' \<and> t_ID t \<in> used \<and>
     (\<forall>m'. map_of m' (t_ID t) = Some t \<longrightarrow> prepare q m' = Some (t, t')) \<and>
     (\<forall>w. map_of m (t_ID t) = Some w \<longrightarrow> t_UserID w = t_UserID t \<and> (w = t \<or> t_Version t < t_Version w)))"

definition cinv :: "csys \<Rightarrow> bool" where
  "cinv s \<longleftrightarrow> mem_inv (cs_store s) \<and> dom (map_of (cs_store s)) \<subseteq> cs_used s \<and>
     (\<forall>c h. cs_held s c = Some h \<longrightarrow> held_ok (cs_store s) (cs_used s) h)"

lemma planned_fields: "planned now t t' \<Longrightarrow> t_ID t' = t_ID t \<and> t_UserID t' = t_UserID t \<and>
    t_Version t' = t_Version t \<and> t_CreatedAt t' = t_CreatedAt t"
  by (auto simp: planned_def)

lemma planned_edit:
  "text_ok (t\<lparr>t_Title := ti, t_Description := de, t_Priority := p, t_UpdatedAt := now\<rparr>) \<Longrightarrow>
   p = t_Priority t \<or> p \<in> set all_priorities \<Longrightarrow>
   planned now t (t\<lparr>t_Title := ti, t_Description := de, t_Priority := p, t_UpdatedAt := now\<rparr>)"
  unfolding planned_def by blast

lemma prepare_update_planned:
  assumes "prepare_update lib now u i ti de pr m = Some (t, t')"
  shows "planned now t t' \<and> map_of m i = Some t \<and> t_UserID t = u"
proof -
  from assms obtain title desc p where v: "validateTitleAndDescription lib ti de = Inr (title, desc)"
    "map_of m i = Some t" "t_UserID t = u" "validatePriority pr (t_Priority t) = Inr p"
    "t' = t\<lparr>t_Title := title, t_Description := desc, t_Priority := p, t_UpdatedAt := now\<rparr>"
    by (auto simp: prepare_update_def mem_FindByID_spec spec_FindByID_def
        split: if_splits sum.splits option.splits)
  then show ?thesis
    using validateTitleAndDescription_Inr [OF v(1)] validatePriority_Inr [OF v(4)]
    by (auto simp: text_ok_def intro!: planned_edit)
qed

lemma prepare_transition_planned:
  assumes "prepare_transition now u i target m = Some (t, t')"
  shows "planned now t t' \<and> map_of m i = Some t \<and> t_UserID t = u"
  using assms
  by (auto simp: prepare_transition_def mem_FindByID_spec spec_FindByID_def planned_def
      split: if_splits sum.splits option.splits)

lemma prepare_planned:
  "prepare q m = Some (t, t') \<Longrightarrow> planned (req_time q) t t' \<and> map_of m (req_id q) = Some t"
  by (cases q) (auto dest: prepare_update_planned prepare_transition_planned)

text \<open>The first half looks at nothing of the store but the task it reads.\<close>

lemma prepare_local:
  "prepare q m = Some (t, t') \<Longrightarrow> map_of m' (req_id q) = Some t \<Longrightarrow> prepare q m' = Some (t, t')"
  by (cases q) (auto simp: prepare_update_def prepare_transition_def mem_FindByID_spec spec_FindByID_def
      split: if_splits sum.splits option.splits)

lemma at_once_halves:
  "prepare q m = Some (t, t') \<Longrightarrow> mem_Update Live t' m = (Inr (), m') \<Longrightarrow> at_once q m = (Inr t', m')"
  by (cases q) (simp_all add: UpdateTask_halves TransitionStatus_halves)

text \<open>A planned write that succeeds is one step of the abstract machine, on the task as it was read.\<close>

lemma planned_write_step:
  assumes "mem_inv m" and "planned now t t'" and "map_of m (t_ID t) = Some t"
    and "mem_Update ctx t' m = (r, m')"
  shows "task_step (t_UserID t) now (map_of m) (map_of m')"
proof (cases "map_of m' = map_of m")
  case True
  then show ?thesis by (simp add: task_step.stay)
next
  case False
  then have "ctx = Live" using assms(4) ctx_Live_or_done [of ctx] by (auto simp: mem_done)
  with mem_Update_spec [OF assms(1)] assms(4) have "(r, map_of m') = spec_Update t' (map_of m)" by simp
  with planned_fields [OF assms(2)] assms(3)
  have m': "map_of m' = (map_of m)(t_ID t \<mapsto> t'\<lparr>t_CreatedAt := t_CreatedAt t, t_Version := t_Version t + 1\<rparr>)"
    by (simp add: spec_Update_def)
  from assms(2) consider
    (edit) ti de p where "t' = t\<lparr>t_Title := ti, t_Description := de, t_Priority := p, t_UpdatedAt := now\<rparr>"
      "text_ok t'" "p = t_Priority t \<or> p \<in> set all_priorities"
  | (move) target where "t' = t\<lparr>t_Status := target, t_UpdatedAt := now\<rparr>" "legal (t_Status t) target"
    by (auto simp: planned_def)
  then show ?thesis
  proof cases
    case edit
    then show ?thesis unfolding m'
      by (intro task_step.edited [where t = t and ti = ti and de = de and p = p])
        (use assms(3) in \<open>auto simp: text_ok_def\<close>)
  next
    case move
    then have "t'\<lparr>t_CreatedAt := t_CreatedAt t, t_Version := t_Version t + 1\<rparr> =
        t\<lparr>t_Status := target, t_UpdatedAt := now, t_Version := t_Version t + 1\<rparr>" by simp
    then show ?thesis unfolding m' using assms(3) move(2) by (auto intro: task_step.moved)
  qed
qed

text \<open>A write whose request holds an outdated copy leaves the store alone.\<close>

lemma stale_write_kept:
  assumes "held_ok m used (q, t, t')" and "map_of m (t_ID t) \<noteq> Some t" and "mem_Update ctx t' m = (r, m')"
  shows "m' = m \<and> (ctx = Live \<longrightarrow> r = Inl (Sentinel (if map_of m (t_ID t) = None then TErrNotFound else TErrConflict)))"
proof -
  from assms(1) have pl: "planned (req_time q) t t'" by (simp add: held_ok_def)
  show ?thesis
  proof (cases "ctx = Live")
    case True
    then show ?thesis using assms planned_fields [OF pl]
      by (auto simp: mem_Update_def held_ok_def split: option.splits if_splits)
  next
    case False
    then show ?thesis using assms(3) ctx_Live_or_done [of ctx] by (auto simp: mem_done)
  qed
qed

lemma write_back_step:
  assumes "mem_inv m" and "held_ok m used (q, t, t')" and "mem_Update ctx t' m = (r, m')"
  shows "task_step (t_UserID t) (req_time q) (map_of m) (map_of m')"
proof (cases "map_of m (t_ID t) = Some t")
  case True
  with assms show ?thesis by (auto simp: held_ok_def intro: planned_write_step)
next
  case False
  with stale_write_kept [OF assms(2) _ assms(3)] show ?thesis by (simp add: task_step.stay)
qed

lemma mem_Update_inv: "mem_inv m \<Longrightarrow> mem_Update ctx t m = (r, m') \<Longrightarrow> mem_inv m'"
  using mem.update [where c = ctx and t = t and s = m and r = r and s' = m'] by simp

lemma mem_CreateTask_step:
  assumes "mem_inv m" and "length rnd = 16"
    and "CreateTask lib memoryRepository ctx now (Inr rnd) u ti de pr m = (r, m')"
  shows "mem_inv m' \<and> task_step u now (map_of m) (map_of m')"
  by (rule mem.CreateTask_step [OF assms(1) _ _ assms(3)]) (use newID_valid_canon [OF assms(2)] in auto)

text \<open>Every step of the system is a step of the abstract machine on the store, some user making it.\<close>

lemma cstep_store:
  assumes "cstep s s'" and "cinv s"
  shows "mem_inv (cs_store s') \<and> (\<exists>u now. task_step u now (map_of (cs_store s)) (map_of (cs_store s')))"
  using assms
proof (induction rule: cstep.induct)
  case (create rnd lib ctx now u ti de pr s r m' i)
  then show ?case using mem_CreateTask_step [of "cs_store s" rnd] by (fastforce simp: cinv_def)
next
  case (delete ctx u i s r m')
  then show ?case using mem.DeleteTask_step [where s = "cs_store s" and u = u and i = i and ctx = ctx and r = r and s' = m']
    by (fastforce simp: cinv_def)
next
  case (write_back s c q t t' ctx r m')
  then have "mem_inv (cs_store s)" "held_ok (cs_store s) (cs_used s) (q, t, t')"
    by (auto simp: cinv_def)
  with write_back.hyps show ?case using write_back_step mem_Update_inv by fastforce
qed (auto simp: cinv_def intro: task_step.stay)

lemma held_ok_step:
  assumes "held_ok m used h" and "task_step u now (map_of m) (map_of m')" and "used \<subseteq> used'"
    and "\<And>k. k \<in> used \<Longrightarrow> map_of m k = None \<Longrightarrow> map_of m' k = None"
  shows "held_ok m' used' h"
proof -
  obtain n t t' where h: "h = (n, t, t')" by (cases h)
  have "t_UserID w = t_UserID t \<and> (w = t \<or> t_Version t < t_Version w)"
    if w: "map_of m' (t_ID t) = Some w" for w
  proof (cases "map_of m (t_ID t)")
    case None
    with assms(1,4) h w show ?thesis by (auto simp: held_ok_def)
  next
    case (Some w0)
    with assms(1) h have "t_UserID w0 = t_UserID t" "w0 = t \<or> t_Version t < t_Version w0"
      by (auto simp: held_ok_def)
    with task_step_history [OF assms(2) Some w] show ?thesis by auto
  qed
  with assms(1,3) h show ?thesis by (auto simp: held_ok_def)
qed

text \<open>A step adds at most the identifier a creation drew, and that one was never used.\<close>

lemma CreateTask_dom:
  assumes "CreateTask lib memoryRepository ctx now rnd u ti de pr m = (r, m')" and "newID rnd = Inr i"
  shows "map_of m' k = map_of m k \<or> k = i"
  using assms by (auto simp: CreateTask_def mem_Create_def gomap_simps Let_def
      split: sum.splits prod.splits option.splits if_splits)

lemma DeleteTask_dom:
  assumes "DeleteTask memoryRepository ctx u i m = (r, m')"
  shows "map_of m' k = map_of m k \<or> map_of m' k = None"
  using assms by (auto simp: DeleteTask_def mem_Delete_def gomap_simps
      split: sum.splits prod.splits option.splits if_splits)

lemma mem_Update_dom:
  assumes "mem_Update ctx t m = (r, m')"
  shows "map_of m' k = None \<longleftrightarrow> map_of m k = None"
  using assms by (auto simp: mem_Update_def gomap_simps split: option.splits if_splits)

lemma cstep_used:
  assumes "cstep s s'"
  shows "cs_used s \<subseteq> cs_used s' \<and>
    (\<forall>k. map_of (cs_store s) k = None \<longrightarrow> map_of (cs_store s') k \<noteq> None \<longrightarrow> k \<in> cs_used s' - cs_used s)"
  using assms
proof (induction rule: cstep.induct)
  case (create rnd lib ctx now u ti de pr s r m' i)
  from CreateTask_dom [OF create.hyps(2,3)] create.hyps(4) show ?case by auto (metis option.distinct(1))+
next
  case (delete ctx u i s r m')
  from DeleteTask_dom [OF delete.hyps] show ?case by auto metis
next
  case (write_back s c q t t' ctx r m')
  then show ?case using mem_Update_dom [of ctx t' "cs_store s" r m'] by simp
qed auto

lemma held_ok_fresh:
  assumes "cinv s" and "prepare q (cs_store s) = Some (t, t')"
  shows "held_ok (cs_store s) (cs_used s) (q, t, t')"
proof -
  note p = prepare_planned [OF assms(2)]
  with assms(1) have "t_ID t = req_id q" "req_id q \<in> cs_used s"
    by (auto simp only: cinv_def mem_inv_def keyed_def dom_def)
  with p prepare_local [OF assms(2)] show ?thesis by (simp add: held_ok_def)
qed

lemma cstep_held:
  assumes "cstep s s'" and "cs_held s' c = Some h" and "cinv s"
  shows "cs_held s c = Some h \<or> held_ok (cs_store s) (cs_used s) h"
  using assms
proof (induction rule: cstep.induct)
  case (read s c' q t t')
  with held_ok_fresh [OF read.prems(2) read.hyps(2)] show ?case by (auto split: if_splits)
qed (auto split: if_splits)

lemma cstep_cinv:
  assumes "cstep s s'" and "cinv s"
  shows "cinv s'"
proof -
  from cstep_store [OF assms] obtain u now where st: "mem_inv (cs_store s')"
    "task_step u now (map_of (cs_store s)) (map_of (cs_store s'))" by blast
  note used = cstep_used [OF assms(1)]
  have "k \<in> cs_used s'" if "map_of (cs_store s') k \<noteq> None" for k
    using used assms(2) that by (cases "map_of (cs_store s) k") (auto simp only: cinv_def dom_def)
  then have "dom (map_of (cs_store s')) \<subseteq> cs_used s'" by blast
  moreover have "held_ok (cs_store s') (cs_used s') h" if "cs_held s' c = Some h" for c h
  proof -
    from cstep_held [OF assms(1) that assms(2)] assms(2) have "held_ok (cs_store s) (cs_used s) h"
      unfolding cinv_def by blast
    then show ?thesis by (rule held_ok_step [OF _ st(2)]) (use used in blast)+
  qed
  ultimately show ?thesis using st(1) unfolding cinv_def by blast
qed

lemma creachable_cinv: "creachable s \<Longrightarrow> cinv s"
proof (induction rule: creachable.induct)
  case start
  show ?case by (simp add: cinv_def cs_init_def NewMemoryRepository_def mem_inv_def keyed_def)
next
  case (step s s')
  then show ?case using cstep_cinv by blast
qed

text \<open>
  C3. Requests that read and write back are atomic, under any interleaving. In every reachable state of the concurrent
  system each repository call changes the stored tasks like one operation of the specification. The write of a request succeeds
  exactly when the stored task is still the very task the request has read, and then answer and store are those
  of the whole \<^verbatim>\<open>UpdateTask\<close> or \<^verbatim>\<open>TransitionStatus\<close> carried out at once on the store as it is at that moment; so no
  update is lost. Otherwise the write changes nothing and reports \<^verbatim>\<open>ErrNotFound\<close> if the task is gone, \<^verbatim>\<open>ErrConflict\<close> if it
  was changed.
\<close>

theorem interleaved_writes_are_atomic:
  assumes "creachable s"
  shows "(\<forall>s'. cstep s s' \<longrightarrow> (\<exists>u now. task_step u now (map_of (cs_store s)) (map_of (cs_store s')))) \<and>
    (\<forall>c q t t' r m'. cs_held s c = Some (q, t, t') \<and> mem_Update Live t' (cs_store s) = (r, m') \<longrightarrow>
      (if map_of (cs_store s) (t_ID t) = Some t then r = Inr () \<and> at_once q (cs_store s) = (Inr t', m')
       else r = Inl (Sentinel (if map_of (cs_store s) (t_ID t) = None then TErrNotFound else TErrConflict)) \<and>
         m' = cs_store s))"
proof (intro conjI allI impI)
  note inv = creachable_cinv [OF assms]
  show "\<exists>u now. task_step u now (map_of (cs_store s)) (map_of (cs_store s'))" if "cstep s s'" for s'
    using cstep_store [OF that inv] by blast
  fix c q t t' r m'
  assume h: "cs_held s c = Some (q, t, t') \<and> mem_Update Live t' (cs_store s) = (r, m')"
  then have held: "held_ok (cs_store s) (cs_used s) (q, t, t')" using inv unfolding cinv_def by blast
  then have p: "planned (req_time q) t t'" and q: "map_of (cs_store s) (t_ID t) = Some t \<Longrightarrow> prepare q (cs_store s) = Some (t, t')"
    by (simp_all add: held_ok_def)
  have "r = Inr ()" if "map_of (cs_store s) (t_ID t) = Some t"
    using h that planned_fields [OF p] by (auto simp: mem_Update_def)
  with at_once_halves [OF q] stale_write_kept [OF held] h
  show "if map_of (cs_store s) (t_ID t) = Some t then r = Inr () \<and> at_once q (cs_store s) = (Inr t', m')
       else r = Inl (Sentinel (if map_of (cs_store s) (t_ID t) = None then TErrNotFound else TErrConflict)) \<and> m' = cs_store s"
    by auto
qed

text \<open>
  C4. Optimistic concurrency: when two requests have read the same task and one of them writes it back
  successfully, the write of the other is refused with \<^verbatim>\<open>ErrConflict\<close> and changes nothing.
\<close>

theorem second_writer_conflicts:
  assumes "creachable s" and "cs_held s c = Some (q1, t, t1)" and "cs_held s d = Some (q2, t, t2)"
    and "c \<noteq> d" and "mem_Update Live t1 (cs_store s) = (Inr (), m')"
  shows "mem_Update Live t2 m' = (Inl (Sentinel TErrConflict), m')"
proof -
  have inv: "cinv s" using assms(1) by (rule creachable_cinv)
  then have h: "held_ok (cs_store s) (cs_used s) (q1, t, t1)" "held_ok (cs_store s) (cs_used s) (q2, t, t2)"
    and m: "mem_inv (cs_store s)"
    using assms(2,3) unfolding cinv_def by blast+
  then have p1: "planned (req_time q1) t t1" and p2: "planned (req_time q2) t t2" by (simp_all add: held_ok_def)
  have st: "map_of (cs_store s) (t_ID t) = Some t"
    using stale_write_kept [OF h(1) _ assms(5)] by (cases "map_of (cs_store s) (t_ID t) = Some t") auto
  from mem_Update_spec [OF m assms(5)] st planned_fields [OF p1]
  have "map_of m' (t_ID t) = Some (t1\<lparr>t_CreatedAt := t_CreatedAt t, t_Version := t_Version t + 1\<rparr>)"
    by (simp add: spec_Update_def)
  with planned_fields [OF p1] planned_fields [OF p2] show ?thesis by (simp add: mem_Update_def)
qed

subsection \<open>A concrete interleaving\<close>

lemma demo_id_valid: "isValidID demo_id"
  using newID_isValidID [of demo_bytes] by (simp add: demo_newID) (simp add: demo_bytes_def)

definition demo_s1 :: csys where
  "demo_s1 = \<lparr>cs_store = [(demo_id, demo_task)], cs_used = {demo_id}, cs_held = (\<lambda>_. None)\<rparr>"

definition demo_done :: task where
  "demo_done = demo_task\<lparr>t_Status := StatusDone, t_UpdatedAt := 7\<rparr>"

definition demo_started :: task where
  "demo_started = demo_task\<lparr>t_Status := StatusInProgress, t_UpdatedAt := 8\<rparr>"

definition demo_q1 :: wrequest where
  "demo_q1 = MoveReq demo_lib 7 ''ann'' demo_id StatusDone"

definition demo_q2 :: wrequest where
  "demo_q2 = MoveReq demo_lib 8 ''ann'' demo_id StatusInProgress"

definition demo_s3 :: csys where
  "demo_s3 = demo_s1\<lparr>cs_held := (\<lambda>_. None)(0 := Some (demo_q1, demo_task, demo_done), 1 := Some (demo_q2, demo_task, demo_started))\<rparr>"

lemma demo_create: "snd (CreateTask demo_lib memoryRepository live 5 (Inr demo_bytes) ''ann'' '' Buy milk '' ''two litres''
    '''' NewMemoryRepository) = [(demo_id, demo_task)]"
  using demo_run by (simp add: demo_calls_def)

lemma demo_s1_reachable: "creachable demo_s1"
proof -
  have "cstep cs_init (cs_init\<lparr>cs_store := [(demo_id, demo_task)], cs_used := insert demo_id (cs_used cs_init)\<rparr>)"
  proof (rule cstep.create)
    show "length demo_bytes = 16" by (simp add: demo_bytes_def)
    show "newID (Inr demo_bytes) = Inr demo_id" by (rule demo_newID)
    show "demo_id \<notin> cs_used cs_init" by (simp add: cs_init_def)
    show "CreateTask demo_lib memoryRepository live 5 (Inr demo_bytes) ''ann'' '' Buy milk '' ''two litres'' ''''
        (cs_store cs_init) = (fst (CreateTask demo_lib memoryRepository live 5 (Inr demo_bytes) ''ann''
          '' Buy milk '' ''two litres'' '''' NewMemoryRepository), [(demo_id, demo_task)])"
      by (simp add: prod_eq_iff demo_create cs_init_def)
  qed
  with creachable.start have "creachable (cs_init\<lparr>cs_store := [(demo_id, demo_task)], cs_used := insert demo_id (cs_used cs_init)\<rparr>)"
    by (rule creachable.step)
  then show ?thesis by (simp add: demo_s1_def cs_init_def)
qed

lemma demo_s3_reachable: "creachable demo_s3"
proof -
  have 1: "prepare demo_q1 [(demo_id, demo_task)] = Some (demo_task, demo_done)"
    and 2: "prepare demo_q2 [(demo_id, demo_task)] = Some (demo_task, demo_started)"
    by (simp_all add: demo_q1_def demo_q2_def prepare_transition_def demo_id_valid mem_FindByID_def demo_task_def demo_done_def
        demo_started_def legal_def legalTransitions_def all_statuses_def status_defs)
  let ?s2 = "demo_s1\<lparr>cs_held := (cs_held demo_s1)(0 := Some (demo_q1, demo_task, demo_done))\<rparr>"
  have "creachable ?s2"
    by (rule creachable.step [OF demo_s1_reachable], rule cstep.read)
      (use 1 in \<open>simp_all add: demo_s1_def\<close>)
  then have "creachable (?s2\<lparr>cs_held := (cs_held ?s2)(1 := Some (demo_q2, demo_task, demo_started))\<rparr>)"
    by (rule creachable.step, intro cstep.read) (use 2 in \<open>simp_all add: demo_s1_def\<close>)
  then show ?thesis by (simp add: demo_s3_def demo_s1_def)
qed

lemma demo_write: "mem_Update Live demo_done (cs_store demo_s3) = (Inr (), [(demo_id, demo_done\<lparr>t_Version := 2\<rparr>)])"
  by (simp add: mem_Update_def demo_s3_def demo_s1_def demo_done_def demo_task_def)

theorem second_writer_conflicts_witness:
  "creachable demo_s3 \<and>
   mem_Update Live demo_started [(demo_id, demo_done\<lparr>t_Version := 2\<rparr>)] =
     (Inl (Sentinel TErrConflict), [(demo_id, demo_done\<lparr>t_Version := 2\<rparr>)])"
proof -
  have "cs_held demo_s3 0 = Some (demo_q1, demo_task, demo_done)" "cs_held demo_s3 1 = Some (demo_q2, demo_task, demo_started)"
    by (simp_all add: demo_s3_def)
  from second_writer_conflicts [OF demo_s3_reachable this _ demo_write] demo_s3_reachable show ?thesis by simp
qed

theorem interleaved_writes_are_atomic_witness:
  "fst (mem_Update Live demo_done (cs_store demo_s3)) = Inr () \<and>
   at_once demo_q1 [(demo_id, demo_task)] = (Inr demo_done, [(demo_id, demo_done\<lparr>t_Version := 2\<rparr>)])"
proof -
  have held: "cs_held demo_s3 0 = Some (demo_q1, demo_task, demo_done)" by (simp add: demo_s3_def)
  have st: "cs_store demo_s3 = [(demo_id, demo_task)]" by (simp add: demo_s3_def demo_s1_def)
  then have "map_of (cs_store demo_s3) (t_ID demo_task) = Some demo_task" by (simp add: demo_task_def)
  with interleaved_writes_are_atomic [OF demo_s3_reachable] held demo_write st show ?thesis by (metis fst_conv)
qed

end
