(* ===== verification/Pgerr.thy ===== *)
theory Pgerr
  imports GoPrelude
begin

text \<open>
  \<^verbatim>\<open>internal/platform/pgerr\<close>: which errors of a database call mean that PostgreSQL itself is the
  problem. The two sentinels the function tests with \<^verbatim>\<open>errors.Is\<close> belong to each package's own error
  type here, so they are arguments.
\<close>

definition IsInfrastructureFailure :: "'s \<Rightarrow> 's \<Rightarrow> 's gerr \<Rightarrow> bool" where
  "IsInfrastructureFailure errBadConn deadlineExceeded err =
     (case errors_As_PgError err of
        Some code \<Rightarrow> take 2 code = ''08'' \<or> take 2 code = ''53'' \<or> take 2 code = ''57''
      | None \<Rightarrow> errors_Is err errBadConn \<or> errors_Is err deadlineExceeded)"

text \<open>A server error outside the three classes is never an outage, whatever it wraps.\<close>

lemma server_answer_not_infrastructure:
  "errors_As_PgError err = Some code \<Longrightarrow> take 2 code \<notin> {''08'', ''53'', ''57''} \<Longrightarrow>
   \<not> IsInfrastructureFailure b d err"
  by (simp add: IsInfrastructureFailure_def)

end
