(* ===== verification/TaskPostgres.thy ===== *)
theory TaskPostgres
  imports TaskConcurrency Pgerr
begin

text \<open>
  \<^verbatim>\<open>postgresRepository\<close> (\<^verbatim>\<open>internal/task/postgres_repository.go\<close>). The database is the list of rows of
  the table \<^verbatim>\<open>tasks\<close> and each SQL statement of the source is a function on that list, with the constraints the
  migrations declare. What PostgreSQL does outside the statements' meaning is data of the state and of
  \<open>pg\<close>: which statement fails, with which error, before or after taking effect (the field
  \<open>pg_oracle\<close>, one entry per statement, deadlines included); the \<^verbatim>\<open>uuid\<close> input conversion and the texts
  the server's encoding accepts. \<^verbatim>\<open>TIMESTAMPTZ\<close> keeps microseconds.
\<close>

datatype fault = NoFault | FailBefore terr | FailAfter terr

record pg_lib =
  uuid_in :: "string \<Rightarrow> string option"
  text_in :: "string \<Rightarrow> bool"

record pg_state =
  pg_rows :: "task list"
  pg_users :: "string list"
  pg_oracle :: "nat \<Rightarrow> fault"
  pg_count :: nat

definition pg_time :: "time \<Rightarrow> time" where
  "pg_time t = (t div 1000) * 1000"

definition postgreSQLUniqueViolation :: string where
  "postgreSQLUniqueViolation = ''23505''"

definition wrapDBError :: "terr \<Rightarrow> terr" where
  "wrapDBError err =
     (if IsInfrastructureFailure TDriverErrBadConn TContextDeadlineExceeded err
      then WrapBoth (Sentinel TErrDependencyUnavailable) err else err)"

definition isUniqueViolation :: "terr \<Rightarrow> bool" where
  "isUniqueViolation err = (errors_As_PgError err = Some postgreSQLUniqueViolation)"

subsection \<open>One statement\<close>

text \<open>
  \<^verbatim>\<open>ExecContext\<close>/\<^verbatim>\<open>QueryContext\<close>: a done context is reported without running the statement; otherwise the
  statement runs on the rows, unless the database fails before it or loses the answer after it. A failure
  while the rows of an answer are read is a lost answer; that a stored row does not scan into the Go types
  is excluded by the schema.
\<close>

definition pg_exec :: "ctx_state \<Rightarrow> (pg_state \<Rightarrow> terr + ('a \<times> task list)) \<Rightarrow> (task_err, 'a, pg_state) op" where
  "pg_exec ctx stmt s =
     (case ctx_Err ctx of Some err \<Rightarrow> (Inl err, s) | None \<Rightarrow>
      (let f = pg_oracle s (pg_count s); s1 = s\<lparr>pg_count := Suc (pg_count s)\<rparr> in
       case f of
         FailBefore err \<Rightarrow> (Inl err, s1)
       | NoFault \<Rightarrow> (case stmt s of Inl err \<Rightarrow> (Inl err, s1) | Inr (x, rows) \<Rightarrow> (Inr x, s1\<lparr>pg_rows := rows\<rparr>))
       | FailAfter err \<Rightarrow> (case stmt s of Inl e \<Rightarrow> (Inl e, s1) | Inr (x, rows) \<Rightarrow> (Inl err, s1\<lparr>pg_rows := rows\<rparr>))))"

definition bad_uuid :: terr where
  "bad_uuid = PgError ''22P02'' ''invalid input syntax for type uuid''"

text \<open>The cast \<^verbatim>\<open>$n::uuid\<close> of two parameters.\<close>

definition with_uuids :: "pg_lib \<Rightarrow> string \<Rightarrow> string \<Rightarrow> (string \<Rightarrow> string \<Rightarrow> terr + 'a) \<Rightarrow> terr + 'a" where
  "with_uuids pg i u f =
     (case uuid_in pg i of None \<Rightarrow> Inl bad_uuid | Some i' \<Rightarrow>
      case uuid_in pg u of None \<Rightarrow> Inl bad_uuid | Some u' \<Rightarrow> f i' u')"

text \<open>
  The column constraints of migrations 0001 and 0005: text the encoding accepts, the lengths of the
  \<^verbatim>\<open>VARCHAR\<close> columns in characters, and the two \<^verbatim>\<open>CHECK\<close> constraints.
\<close>

definition row_error :: "pg_lib \<Rightarrow> task \<Rightarrow> terr option" where
  "row_error pg t =
     (if \<not> text_in pg (t_Title t) \<or> \<not> text_in pg (t_Description t)
      then Some (PgError ''22021'' ''invalid byte sequence for encoding'')
      else if RuneCountInString (t_Title t) > 200 \<or> RuneCountInString (t_Description t) > 2000
      then Some (PgError ''22001'' ''value too long for type character varying'')
      else if t_Status t \<notin> set all_statuses \<or> t_Priority t \<notin> set all_priorities
      then Some (PgError ''23514'' ''new row violates check constraint'')
      else None)"

definition fk_violation :: terr where
  "fk_violation = PgError ''23503'' ''violates foreign key constraint''"

definition sql_insert :: "pg_lib \<Rightarrow> task \<Rightarrow> pg_state \<Rightarrow> terr + (unit \<times> task list)" where
  "sql_insert pg t s = with_uuids pg (t_ID t) (t_UserID t) (\<lambda>i u.
     case row_error pg t of Some err \<Rightarrow> Inl err | None \<Rightarrow>
     if i \<in> t_ID ` set (pg_rows s)
     then Inl (PgError postgreSQLUniqueViolation ''duplicate key value violates unique constraint'')
     else if u \<notin> set (pg_users s) then Inl fk_violation
     else Inr ((), pg_rows s @ [t\<lparr>t_ID := i, t_UserID := u, t_CreatedAt := pg_time (t_CreatedAt t),
            t_UpdatedAt := pg_time (t_UpdatedAt t), t_Version := 1\<rparr>]))"

definition sql_select_one :: "pg_lib \<Rightarrow> string \<Rightarrow> string \<Rightarrow> pg_state \<Rightarrow> terr + (task \<times> task list)" where
  "sql_select_one pg i u s = with_uuids pg i u (\<lambda>i' u'.
     case filter (\<lambda>t. t_ID t = i' \<and> t_UserID t = u') (pg_rows s) of
       [] \<Rightarrow> Inl (Sentinel TSqlErrNoRows)
     | t # _ \<Rightarrow> Inr (t, pg_rows s))"

definition sql_update :: "pg_lib \<Rightarrow> task \<Rightarrow> pg_state \<Rightarrow> terr + (task list \<times> task list)" where
  "sql_update pg t s = with_uuids pg (t_ID t) (t_UserID t) (\<lambda>i u.
     case row_error pg t of Some err \<Rightarrow> Inl err | None \<Rightarrow>
     Inr (map (\<lambda>r. if t_ID r = i \<and> t_UserID r = u
       then r\<lparr>t_Title := t_Title t, t_Description := t_Description t, t_Status := t_Status t,
              t_Priority := t_Priority t, t_UpdatedAt := pg_time (t_UpdatedAt t), t_Version := t_Version r + 1\<rparr>
       else r) (pg_rows s), pg_rows s))"

definition sql_delete :: "pg_lib \<Rightarrow> string \<Rightarrow> string \<Rightarrow> pg_state \<Rightarrow> terr + (nat \<times> task list)" where
  "sql_delete pg i u s = with_uuids pg i u (\<lambda>i' u'.
     Inr (length (filter (\<lambda>t. t_ID t = i' \<and> t_UserID t = u') (pg_rows s)),
          filter (\<lambda>t. \<not> (t_ID t = i' \<and> t_UserID t = u')) (pg_rows s)))"

subsection \<open>The WHERE clause\<close>

text \<open>
  \<^verbatim>\<open>appendInClause\<close>: one placeholder per value, numbered by the length of the argument list as it grows.
\<close>

definition appendInClause :: "string \<Rightarrow> string list \<Rightarrow> string \<times> string list \<Rightarrow> string \<times> string list" where
  "appendInClause column values acc =
     (case acc of (whereClause, args) \<Rightarrow>
      if values = [] then (whereClause, args)
      else let placeholders = map (\<lambda>n. CHR ''$'' # Itoa (int (length args + n + 1))) [0..<length values]
           in (whereClause @ '' AND '' @ column @ '' IN ('' @ Join '', '' placeholders @ '')'', args @ values))"

definition buildTaskFilterWhere :: "string \<Rightarrow> status list \<Rightarrow> priority list \<Rightarrow> string \<times> string list" where
  "buildTaskFilterWhere userID statuses priorities =
     appendInClause ''priority'' priorities
       (appendInClause ''status'' statuses (''WHERE user_id = $1::uuid'', [userID]))"

text \<open>The rows a clause built that way selects, the \<^verbatim>\<open>user_id\<close> parameter cast to \<^verbatim>\<open>uuid\<close>.\<close>

definition sql_matching :: "pg_lib \<Rightarrow> string \<Rightarrow> status list \<Rightarrow> priority list \<Rightarrow> pg_state \<Rightarrow> terr + task list" where
  "sql_matching pg u statuses priorities s =
     (case uuid_in pg u of None \<Rightarrow> Inl bad_uuid
      | Some u' \<Rightarrow> Inr (filter (\<lambda>t. t_UserID t = u' \<and> (statuses = [] \<or> t_Status t \<in> set statuses) \<and>
           (priorities = [] \<or> t_Priority t \<in> set priorities)) (pg_rows s)))"

definition sql_select :: "pg_lib \<Rightarrow> string \<Rightarrow> int option \<Rightarrow> nat \<Rightarrow> status list \<Rightarrow> priority list
    \<Rightarrow> pg_state \<Rightarrow> terr + (task list \<times> task list)" where
  "sql_select pg u limitArg offset statuses priorities s =
     (case sql_matching pg u statuses priorities s of
        Inl err \<Rightarrow> Inl err
      | Inr ts \<Rightarrow>
          (let ordered = drop offset (sort_key task_key ts)
           in Inr (case limitArg of None \<Rightarrow> ordered | Some l \<Rightarrow> take (nat l) ordered, pg_rows s)))"

definition sql_count :: "pg_lib \<Rightarrow> string \<Rightarrow> status list \<Rightarrow> priority list \<Rightarrow> pg_state \<Rightarrow> terr + (int \<times> task list)" where
  "sql_count pg u statuses priorities s =
     (case sql_matching pg u statuses priorities s of
        Inl err \<Rightarrow> Inl err
      | Inr ts \<Rightarrow> Inr (int (length ts), pg_rows s))"

text \<open>\<^verbatim>\<open>SELECT f, COUNT(*) ... GROUP BY f\<close>: one row per value that occurs.\<close>

definition sql_group :: "(task \<Rightarrow> string) \<Rightarrow> pg_lib \<Rightarrow> string \<Rightarrow> status list \<Rightarrow> priority list
    \<Rightarrow> pg_state \<Rightarrow> terr + ((string \<times> int) list \<times> task list)" where
  "sql_group f pg u statuses priorities s =
     (case sql_matching pg u statuses priorities s of
        Inl err \<Rightarrow> Inl err
      | Inr ts \<Rightarrow> Inr (map (\<lambda>x. (x, int (length (filter (\<lambda>t. f t = x) ts)))) (remdups (map f ts)), pg_rows s))"

subsection \<open>Methods\<close>

definition pg_Create :: "pg_lib \<Rightarrow> ctx_state \<Rightarrow> task \<Rightarrow> (task_err, unit, pg_state) op" where
  "pg_Create pg ctx task s =
     (case pg_exec ctx (sql_insert pg task) s of
        (Inl err, s') \<Rightarrow>
          (if isUniqueViolation err then (Inl (Sentinel TErrAlreadyExists), s')
           else (Inl (WrapPre ''postgres: create task'' (wrapDBError err)), s'))
      | (Inr _, s') \<Rightarrow> (Inr (), s'))"

definition pg_FindByID :: "pg_lib \<Rightarrow> ctx_state \<Rightarrow> string \<Rightarrow> string \<Rightarrow> (task_err, task, pg_state) op" where
  "pg_FindByID pg ctx i userID s =
     (case pg_exec ctx (sql_select_one pg i userID) s of
        (Inl err, s') \<Rightarrow>
          (if errors_Is err TSqlErrNoRows then (Inl (Sentinel TErrNotFound), s')
           else (Inl (WrapPre ''postgres: find task by id'' (wrapDBError err)), s'))
      | (Inr task, s') \<Rightarrow> (Inr task, s'))"

definition pg_FindAll :: "pg_lib \<Rightarrow> ctx_state \<Rightarrow> string \<Rightarrow> int \<Rightarrow> nat \<Rightarrow> status list \<Rightarrow> priority list
    \<Rightarrow> (task_err, task list, pg_state) op" where
  "pg_FindAll pg ctx userID limit offset statuses priorities s =
     (let limitArg = (if limit \<ge> 0 then Some limit else None) in
      case pg_exec ctx (sql_select pg userID limitArg offset statuses priorities) s of
        (Inl err, s') \<Rightarrow> (Inl (WrapPre ''postgres: find all tasks'' (wrapDBError err)), s')
      | (Inr tasks, s') \<Rightarrow> (Inr tasks, s'))"

definition pg_CountAll :: "pg_lib \<Rightarrow> ctx_state \<Rightarrow> string \<Rightarrow> status list \<Rightarrow> priority list
    \<Rightarrow> (task_err, int, pg_state) op" where
  "pg_CountAll pg ctx userID statuses priorities s =
     (case pg_exec ctx (sql_count pg userID statuses priorities) s of
        (Inl err, s') \<Rightarrow> (Inl (WrapPre ''postgres: count tasks'' (wrapDBError err)), s')
      | (Inr n, s') \<Rightarrow> (Inr n, s'))"

definition pg_CountByStatusAndPriority :: "pg_lib \<Rightarrow> ctx_state \<Rightarrow> string \<Rightarrow> status list \<Rightarrow> priority list
    \<Rightarrow> (task_err, (status, int) gomap \<times> (priority, int) gomap, pg_state) op" where
  "pg_CountByStatusAndPriority pg ctx userID statuses priorities s =
     (let byStatus = [(StatusPending, 0), (StatusInProgress, 0), (StatusDone, 0), (StatusCancelled, 0)] in
      case pg_exec ctx (sql_group t_Status pg userID statuses priorities) s of
        (Inl err, s1) \<Rightarrow> (Inl (WrapPre ''postgres: count tasks by status'' (wrapDBError err)), s1)
      | (Inr statusRows, s1) \<Rightarrow>
     (let byStatus = fold (\<lambda>(x, n). AList.update x n) statusRows byStatus;
          byPriority = [(PriorityLow, 0), (PriorityMedium, 0), (PriorityHigh, 0)] in
      case pg_exec ctx (sql_group t_Priority pg userID statuses priorities) s1 of
        (Inl err, s2) \<Rightarrow> (Inl (WrapPre ''postgres: count tasks by priority'' (wrapDBError err)), s2)
      | (Inr priorityRows, s2) \<Rightarrow>
          (Inr (byStatus, fold (\<lambda>(x, n). AList.update x n) priorityRows byPriority), s2)))"

text \<open>
  \<^verbatim>\<open>Update\<close> is one transaction: \<^verbatim>\<open>BEGIN\<close>, the locking \<^verbatim>\<open>SELECT\<close>, the \<^verbatim>\<open>UPDATE\<close> (whose rows become visible
  only with the commit) and \<^verbatim>\<open>COMMIT\<close>; every early return rolls back.
\<close>

definition pg_Update :: "pg_lib \<Rightarrow> ctx_state \<Rightarrow> task \<Rightarrow> (task_err, unit, pg_state) op" where
  "pg_Update pg ctx task s =
     (case pg_exec ctx (\<lambda>s. Inr ((), pg_rows s)) s of
        (Inl err, s1) \<Rightarrow> (Inl (WrapPre ''postgres: update task: begin transaction'' (wrapDBError err)), s1)
      | (Inr _, s1) \<Rightarrow>
     (case pg_exec ctx (sql_select_one pg (t_ID task) (t_UserID task)) s1 of
        (Inl err, s2) \<Rightarrow>
          (if errors_Is err TSqlErrNoRows then (Inl (Sentinel TErrNotFound), s2)
           else (Inl (WrapPre ''postgres: update task: read current version'' (wrapDBError err)), s2))
      | (Inr row, s2) \<Rightarrow>
          if t_Version row \<noteq> t_Version task then (Inl (Sentinel TErrConflict), s2)
          else
     (case pg_exec ctx (sql_update pg task) s2 of
        (Inl err, s3) \<Rightarrow> (Inl (WrapPre ''postgres: update task'' (wrapDBError err)), s3)
      | (Inr rows, s3) \<Rightarrow>
     (case pg_exec ctx (\<lambda>_. Inr ((), rows)) s3 of
        (Inl err, s4) \<Rightarrow> (Inl (WrapPre ''postgres: update task: commit transaction'' (wrapDBError err)), s4)
      | (Inr _, s4) \<Rightarrow> (Inr (), s4)))))"

definition pg_Delete :: "pg_lib \<Rightarrow> ctx_state \<Rightarrow> string \<Rightarrow> string \<Rightarrow> (task_err, unit, pg_state) op" where
  "pg_Delete pg ctx i userID s =
     (case pg_exec ctx (sql_delete pg i userID) s of
        (Inl err, s') \<Rightarrow> (Inl (WrapPre ''postgres: delete task'' (wrapDBError err)), s')
      | (Inr affected, s') \<Rightarrow>
          if affected = 0 then (Inl (Sentinel TErrNotFound), s') else (Inr (), s'))"

definition postgresRepository :: "pg_lib \<Rightarrow> pg_state task_repo" where
  "postgresRepository pg = \<lparr>
     r_Create = pg_Create pg, r_FindByID = pg_FindByID pg, r_FindAll = pg_FindAll pg,
     r_Update = pg_Update pg, r_Delete = pg_Delete pg, r_CountAll = pg_CountAll pg,
     r_CountByStatusAndPriority = pg_CountByStatusAndPriority pg \<rparr>"

lemmas pg_method_defs = pg_Create_def pg_FindByID_def pg_FindAll_def pg_CountAll_def
  pg_CountByStatusAndPriority_def pg_Update_def pg_Delete_def

lemma postgresRepository_sel [simp]:
  "r_Create (postgresRepository pg) = pg_Create pg" "r_FindByID (postgresRepository pg) = pg_FindByID pg"
  "r_FindAll (postgresRepository pg) = pg_FindAll pg" "r_Update (postgresRepository pg) = pg_Update pg"
  "r_Delete (postgresRepository pg) = pg_Delete pg" "r_CountAll (postgresRepository pg) = pg_CountAll pg"
  "r_CountByStatusAndPriority (postgresRepository pg) = pg_CountByStatusAndPriority pg"
  by (simp_all add: postgresRepository_def)

subsection \<open>Abstraction and invariant\<close>

definition pg_abs :: "pg_state \<Rightarrow> task_store" where
  "pg_abs s = map_of (map (\<lambda>t. (t_ID t, t)) (pg_rows s))"

text \<open>An error the database or the driver reports for a reason of its own.\<close>

definition fault_err :: "terr \<Rightarrow> bool" where
  "fault_err e \<longleftrightarrow> infra_error e \<and> \<not> isUniqueViolation e \<and> \<not> errors_Is e TSqlErrNoRows"

definition oracle_ok :: "(nat \<Rightarrow> fault) \<Rightarrow> bool" where
  "oracle_ok f \<longleftrightarrow> (\<forall>n e. f n = FailBefore e \<or> f n = FailAfter e \<longrightarrow> fault_err e)"

definition pg_inv :: "pg_state \<Rightarrow> bool" where
  "pg_inv s \<longleftrightarrow> distinct (map t_ID (pg_rows s)) \<and> oracle_ok (pg_oracle s)"

abbreviation pg_canon :: "'a pg_lib_scheme \<Rightarrow> string \<Rightarrow> bool" where
  "pg_canon pg i \<equiv> uuid_in pg i = Some i"

lemma pg_abs_rows: "distinct (map t_ID (pg_rows s)) \<Longrightarrow> pg_abs s i = Some t \<longleftrightarrow> t \<in> set (pg_rows s) \<and> t_ID t = i"
proof -
  assume "distinct (map t_ID (pg_rows s))"
  then have "gomap_wf (map (\<lambda>t. (t_ID t, t)) (pg_rows s))" by (simp add: comp_def)
  then have "pg_abs s i = Some t \<longleftrightarrow> (i, t) \<in> set (map (\<lambda>t. (t_ID t, t)) (pg_rows s))"
    unfolding pg_abs_def by (rule map_of_eq_Some_iff)
  then show ?thesis by auto
qed

lemma pg_abs_None: "pg_abs s i = None \<longleftrightarrow> i \<notin> t_ID ` set (pg_rows s)"
  by (simp add: pg_abs_def map_of_eq_None_iff image_image)

lemma ran_pg_abs: "distinct (map t_ID (pg_rows s)) \<Longrightarrow> ran (pg_abs s) = set (pg_rows s)"
  by (auto simp: ran_def pg_abs_rows)

lemma keyed_pg_abs: "distinct (map t_ID (pg_rows s)) \<Longrightarrow> keyed (pg_abs s)"
  by (simp add: keyed_def pg_abs_rows)

text \<open>At most one row has a given primary key.\<close>

lemma filter_by_key:
  assumes "distinct (map t_ID rows)"
  shows "filter (\<lambda>t. t_ID t = i \<and> t_UserID t = u) rows =
    (case map_of (map (\<lambda>t. (t_ID t, t)) rows) i of
       None \<Rightarrow> [] | Some t \<Rightarrow> if t_UserID t = u then [t] else [])"
  using assms
proof (induction rows)
  case (Cons r rows)
  show ?case
  proof (cases "t_ID r = i")
    case True
    with Cons.prems have "filter (\<lambda>t. t_ID t = i \<and> t_UserID t = u) rows = []"
      by (auto simp: filter_empty_conv image_iff)
    with True show ?thesis by simp
  next
    case False
    with Cons show ?thesis by simp
  qed
qed simp

lemma infra_wrapDBError [simp]: "infra_error (WrapPre m (wrapDBError e)) \<longleftrightarrow> infra_error e"
  by (auto simp: infra_error_def wrapDBError_def)

lemma pg_exec_cases:
  assumes "pg_exec ctx stmt s = (r, s')" and "pg_inv s"
  obtains (failed) e where "r = Inl e" "fault_err e" "pg_rows s' = pg_rows s" "pg_oracle s' = pg_oracle s"
    | (refused) e where "stmt s = Inl e" "r = Inl e" "pg_rows s' = pg_rows s" "pg_oracle s' = pg_oracle s"
    | (executed) x rows where "stmt s = Inr (x, rows)" "r = Inr x" "pg_rows s' = rows" "pg_oracle s' = pg_oracle s"
    | (lost) x rows e where "stmt s = Inr (x, rows)" "r = Inl e" "fault_err e" "pg_rows s' = rows"
        "pg_oracle s' = pg_oracle s"
proof (cases "ctx_Err ctx")
  case (Some e)
  then have "fault_err e" by (cases ctx) (auto simp: fault_err_def infra_error_def isUniqueViolation_def)
  moreover have "r = Inl e" "s' = s" using Some assms(1) by (simp_all add: pg_exec_def)
  ultimately show ?thesis by (intro that(1)) simp_all
next
  case None
  have ok: "pg_oracle s (pg_count s) = FailBefore e \<or> pg_oracle s (pg_count s) = FailAfter e \<Longrightarrow> fault_err e" for e
    using assms(2) unfolding pg_inv_def oracle_ok_def by blast
  show ?thesis
  proof (cases "pg_oracle s (pg_count s)")
    case NoFault
    with None assms(1) that(2,3) show ?thesis
      by (auto simp: pg_exec_def Let_def split: sum.splits)
  next
    case (FailBefore e)
    with None assms(1) ok that(1) show ?thesis by (auto simp: pg_exec_def Let_def)
  next
    case (FailAfter e)
    with None assms(1) ok that(2,4) show ?thesis
      by (auto simp: pg_exec_def Let_def split: sum.splits)
  qed
qed


subsection \<open>The statements against the specification\<close>

lemma PgError_fault [simp]: "fault_err (PgError code m) \<longleftrightarrow> code \<noteq> postgreSQLUniqueViolation"
  by (auto simp: fault_err_def infra_error_def isUniqueViolation_def)

lemma row_error_fault: "row_error pg t = Some e \<Longrightarrow> fault_err e"
  by (auto simp: row_error_def postgreSQLUniqueViolation_def split: if_splits)

lemma fk_violation_fault [simp]: "fault_err fk_violation"
  by (simp add: fk_violation_def postgreSQLUniqueViolation_def)

lemma with_uuids_canon: "pg_canon pg i \<Longrightarrow> pg_canon pg u \<Longrightarrow> with_uuids pg i u f = f i u"
  by (simp add: with_uuids_def)

lemma pg_rows_cong: "pg_rows s' = pg_rows s \<Longrightarrow> pg_abs s' = pg_abs s"
  by (simp add: pg_abs_def)

lemma pg_inv_cong: "pg_rows s' = pg_rows s \<Longrightarrow> pg_oracle s' = pg_oracle s \<Longrightarrow> pg_inv s' = pg_inv s"
  by (simp add: pg_inv_def)

lemma pg_abs_append:
  assumes "pg_abs s (t_ID t) = None" and "pg_rows s' = pg_rows s @ [t]"
  shows "pg_abs s' = (pg_abs s)(t_ID t \<mapsto> t)"
proof -
  have "map_of (map (\<lambda>t. (t_ID t, t)) xs @ [(k, v)]) = (map_of (map (\<lambda>t. (t_ID t, t)) xs))(k \<mapsto> v)"
    if "map_of (map (\<lambda>t. (t_ID t, t)) xs) k = None" for xs k v
    using that by (simp add: map_add_def fun_eq_iff split: option.split)
  with assms show ?thesis by (simp add: pg_abs_def)
qed

lemma sql_insert_cases:
  assumes "pg_canon pg (t_ID t)" and "pg_canon pg (t_UserID t)"
  obtains (refused) e where "sql_insert pg t s = Inl e" "fault_err e"
    | (taken) e where "sql_insert pg t s = Inl e" "isUniqueViolation e" "pg_abs s (t_ID t) \<noteq> None"
    | (inserted) "sql_insert pg t s = Inr ((), pg_rows s @ [(stamped pg_time t)\<lparr>t_Version := 1\<rparr>])"
        "pg_abs s (t_ID t) = None"
proof (cases "row_error pg t")
  case (Some e)
  then show ?thesis using assms row_error_fault that(1) by (simp add: sql_insert_def with_uuids_canon)
next
  case None
  consider "t_ID t \<in> t_ID ` set (pg_rows s)"
    | "t_ID t \<notin> t_ID ` set (pg_rows s)" "t_UserID t \<notin> set (pg_users s)"
    | "t_ID t \<notin> t_ID ` set (pg_rows s)" "t_UserID t \<in> set (pg_users s)" by blast
  then show ?thesis
  proof cases
    case 1
    have "isUniqueViolation (PgError postgreSQLUniqueViolation m)" for m by (simp add: isUniqueViolation_def)
    moreover have "pg_abs s (t_ID t) \<noteq> None" using 1 by (simp add: pg_abs_None)
    ultimately show ?thesis using that(2) None 1 assms by (simp add: sql_insert_def with_uuids_canon)
  next
    case 2
    then show ?thesis using that(1) None assms by (simp add: sql_insert_def with_uuids_canon)
  next
    case 3
    then have "pg_abs s (t_ID t) = None" by (simp add: pg_abs_None)
    with 3 that(3) None assms show ?thesis by (simp add: sql_insert_def with_uuids_canon stamped_def)
  qed
qed

lemma sql_select_one_canon:
  assumes "pg_canon pg i" and "pg_canon pg u" and "distinct (map t_ID (pg_rows s))"
  shows "sql_select_one pg i u s =
    (case pg_abs s i of
       Some t \<Rightarrow> if t_UserID t = u then Inr (t, pg_rows s) else Inl (Sentinel TSqlErrNoRows)
     | None \<Rightarrow> Inl (Sentinel TSqlErrNoRows))"
  using assms by (simp add: sql_select_one_def with_uuids_canon filter_by_key pg_abs_def split: option.split)

lemma pg_abs_filter:
  assumes "distinct (map t_ID (pg_rows s))" and "pg_rows s' = filter P (pg_rows s)"
  shows "pg_abs s' k = (case pg_abs s k of None \<Rightarrow> None | Some t \<Rightarrow> if P t then Some t else None)"
proof -
  have "map (\<lambda>t. (t_ID t, t)) (pg_rows s') = filter (\<lambda>(k, t). P t) (map (\<lambda>t. (t_ID t, t)) (pg_rows s))"
    by (simp add: assms(2) filter_map comp_def)
  moreover have "gomap_wf (map (\<lambda>t. (t_ID t, t)) (pg_rows s))" using assms(1) by (simp add: comp_def)
  ultimately show ?thesis by (simp add: pg_abs_def map_of_filter_wf)
qed

lemma pg_abs_map:
  assumes "\<And>t. t_ID (f t) = t_ID t" and "pg_rows s' = map f (pg_rows s)"
  shows "pg_abs s' k = map_option f (pg_abs s k)"
proof -
  have "map_of (map (\<lambda>t. (t_ID t, t)) (map f rows)) k = map_option f (map_of (map (\<lambda>t. (t_ID t, t)) rows) k)" for rows
    by (induction rows) (auto simp: assms(1))
  then show ?thesis by (simp add: pg_abs_def assms(2))
qed

lemma sql_delete_canon:
  assumes "pg_canon pg i" and "pg_canon pg u" and "distinct (map t_ID (pg_rows s))"
    and "sql_delete pg i u s = Inr (n, rows)" and "pg_rows s' = rows"
  shows "n = (case pg_abs s i of Some t \<Rightarrow> if t_UserID t = u then 1 else 0 | None \<Rightarrow> 0)"
    and "distinct (map t_ID rows)"
    and "pg_abs s' = snd (spec_Delete i u (pg_abs s))"
proof -
  from assms have rows: "rows = filter (\<lambda>t. \<not> (t_ID t = i \<and> t_UserID t = u)) (pg_rows s)"
    and n: "n = length (filter (\<lambda>t. t_ID t = i \<and> t_UserID t = u) (pg_rows s))"
    by (simp_all add: sql_delete_def with_uuids_canon)
  show "n = (case pg_abs s i of Some t \<Rightarrow> if t_UserID t = u then 1 else 0 | None \<Rightarrow> 0)"
    using assms(3) n by (simp add: filter_by_key pg_abs_def split: option.split)
  show "distinct (map t_ID rows)" unfolding rows using assms(3) by (rule distinct_map_filter)
  have "pg_abs s' k = snd (spec_Delete i u (pg_abs s)) k" for k
    using pg_abs_filter [OF assms(3), of s'] keyed_pg_abs [OF assms(3)] rows assms(5)
    by (auto simp: spec_Delete_def keyed_def split: option.split)
  then show "pg_abs s' = snd (spec_Delete i u (pg_abs s))" by blast
qed

text \<open>The transaction's \<^verbatim>\<open>UPDATE\<close> on the row its \<^verbatim>\<open>SELECT\<close> has found.\<close>

lemma sql_update_canon:
  assumes "pg_canon pg (t_ID t)" and "pg_canon pg (t_UserID t)" and d: "distinct (map t_ID (pg_rows s))"
    and row: "pg_abs s (t_ID t) = Some row" "t_UserID row = t_UserID t" "t_Version row = t_Version t"
    and upd: "sql_update pg t s = Inr (rows, rows0)"
  shows "rows0 = pg_rows s" and "distinct (map t_ID rows)"
    and "pg_rows s' = rows \<Longrightarrow> (Inr (), pg_abs s') = spec_Update (stamped pg_time t) (pg_abs s)"
proof -
  let ?f = "\<lambda>r. if t_ID r = t_ID t \<and> t_UserID r = t_UserID t
       then r\<lparr>t_Title := t_Title t, t_Description := t_Description t, t_Status := t_Status t,
              t_Priority := t_Priority t, t_UpdatedAt := pg_time (t_UpdatedAt t), t_Version := t_Version r + 1\<rparr>
       else r"
  from upd assms(1,2) have rows: "rows = map ?f (pg_rows s)" and "rows0 = pg_rows s"
    by (auto simp: sql_update_def with_uuids_canon split: option.splits)
  then show "rows0 = pg_rows s" by simp
  have "map t_ID rows = map t_ID (pg_rows s)" using rows by simp
  with d show "distinct (map t_ID rows)" by metis
  assume "pg_rows s' = rows"
  then have m: "pg_abs s' k = map_option ?f (pg_abs s k)" for k by (intro pg_abs_map) (simp_all add: rows)
  have id: "t_ID row = t_ID t" using row(1) d by (simp add: pg_abs_rows)
  have "pg_abs s' = (pg_abs s)(t_ID t \<mapsto> ?f row)"
  proof
    fix k
    show "pg_abs s' k = ((pg_abs s)(t_ID t \<mapsto> ?f row)) k"
      using m [of k] row(1) keyed_pg_abs [OF d] by (cases "pg_abs s k") (auto simp: keyed_def)
  qed
  moreover have "?f row = (stamped pg_time t)\<lparr>t_CreatedAt := t_CreatedAt row, t_Version := t_Version row + 1\<rparr>"
    using row id by (simp add: stamped_def)
  ultimately show "(Inr (), pg_abs s') = spec_Update (stamped pg_time t) (pg_abs s)"
    using row by (simp add: spec_Update_def)
qed

lemma sql_matching_listing:
  assumes "pg_canon pg u" and "distinct (map t_ID (pg_rows s))"
  shows "\<exists>ts. sql_matching pg u sts prs s = Inr ts \<and> distinct ts \<and>
     set ts = {t \<in> ran (pg_abs s). selected u sts prs t} \<and> is_listing (pg_abs s) u sts prs (sort_key task_key ts)"
proof -
  let ?ts = "filter (\<lambda>t. t_UserID t = u \<and> (sts = [] \<or> t_Status t \<in> set sts) \<and>
           (prs = [] \<or> t_Priority t \<in> set prs)) (pg_rows s)"
  have "distinct ?ts" using assms(2) by (simp add: distinct_map)
  moreover have "set ?ts = {t \<in> ran (pg_abs s). selected u sts prs t}"
    using assms(2) by (auto simp: ran_pg_abs selected_def passes_def)
  moreover have "sql_matching pg u sts prs s = Inr ?ts" using assms(1) by (simp add: sql_matching_def)
  ultimately show ?thesis by (auto simp: is_listing_def)
qed

subsection \<open>The methods against the contract\<close>

lemma fault_err_infra: "fault_err e \<Longrightarrow> infra_error e"
  by (simp add: fault_err_def)

lemma fault_err_codes: "fault_err e \<Longrightarrow> \<not> isUniqueViolation e \<and> \<not> errors_Is e TSqlErrNoRows"
  by (simp add: fault_err_def)

definition pg_same :: "pg_state \<Rightarrow> pg_state \<Rightarrow> bool" where
  "pg_same s s' \<longleftrightarrow> pg_rows s' = pg_rows s \<and> pg_oracle s' = pg_oracle s"

lemma pg_same_abs: "pg_same s s' \<Longrightarrow> pg_abs s' = pg_abs s"
  by (simp add: pg_same_def pg_abs_def)

lemma pg_same_inv: "pg_same s s' \<Longrightarrow> pg_inv s \<Longrightarrow> pg_inv s'"
  by (simp add: pg_same_def pg_inv_def)

lemma pg_exec_refused:
  assumes "pg_exec ctx stmt s = (r, s')" and "pg_inv s" and "stmt s = Inl e"
  shows "pg_same s s' \<and> (r = Inl e \<or> (\<exists>e'. r = Inl e' \<and> fault_err e'))"
  using assms(1,2) by (rule pg_exec_cases) (use assms(3) in \<open>auto simp: pg_same_def\<close>)

lemma pg_exec_runs:
  assumes "pg_exec ctx stmt s = (r, s')" and "pg_inv s" and "stmt s = Inr (x, rows)"
  shows "pg_oracle s' = pg_oracle s \<and>
    (r = Inr x \<and> pg_rows s' = rows \<or>
     (\<exists>e. r = Inl e \<and> fault_err e \<and> (pg_rows s' = pg_rows s \<or> pg_rows s' = rows)))"
  using assms(1,2) by (rule pg_exec_cases) (use assms(3) in auto)

lemma pg_exec_reads:
  assumes "pg_exec ctx stmt s = (r, s')" and "pg_inv s" and "stmt s = Inr (x, pg_rows s)"
  shows "pg_same s s' \<and> (r = Inr x \<or> (\<exists>e. r = Inl e \<and> fault_err e))"
  using pg_exec_runs [OF assms] by (auto simp: pg_same_def)

lemma pg_create:
  assumes inv: "pg_inv s" and canon: "pg_canon pg (t_ID t)" "pg_canon pg (t_UserID t)"
    and run: "pg_Create pg c t s = (r, s')"
  shows "pg_inv s' \<and> write_ok r (pg_abs s) (pg_abs s') (spec_Create (stamped pg_time t) (pg_abs s))"
proof -
  obtain r0 s0 where ex: "pg_exec c (sql_insert pg t) s = (r0, s0)" by fastforce
  with run have s0: "s0 = s'" by (simp add: pg_Create_def split: sum.splits if_splits)
  have keep: "pg_inv s' \<and> write_ok r (pg_abs s) (pg_abs s') (spec_Create (stamped pg_time t) (pg_abs s))"
    if "pg_same s s'" "r0 = Inl e" "fault_err e" for e
    using that run ex inv pg_same_abs pg_same_inv fault_err_codes [OF that(3)]
    by (auto simp: pg_Create_def fault_err_infra)
  from canon show ?thesis
  proof (cases rule: sql_insert_cases [where s = s])
    case (refused e)
    with pg_exec_refused [OF ex inv] keep s0 show ?thesis by blast
  next
    case (taken e)
    then have "pg_same s s' \<and> (r = Inl (Sentinel TErrAlreadyExists) \<or> (\<exists>e'. r0 = Inl e' \<and> fault_err e'))"
      using pg_exec_refused [OF ex inv] s0 run ex by (auto simp: pg_Create_def)
    with keep show ?thesis
      using taken(3) pg_same_abs pg_same_inv [OF _ inv] by (auto simp: spec_Create_def)
  next
    case inserted
    let ?t = "(stamped pg_time t)\<lparr>t_Version := 1\<rparr>"
    from pg_exec_runs [OF ex inv inserted(1)] s0
    have o: "pg_oracle s' = pg_oracle s" and c: "r0 = Inr () \<and> pg_rows s' = pg_rows s @ [?t] \<or>
      (\<exists>e. r0 = Inl e \<and> fault_err e \<and> (pg_same s s' \<or> pg_rows s' = pg_rows s @ [?t]))"
      by (auto simp: pg_same_def)
    have new: "pg_inv s' \<and> (Inr (), pg_abs s') = spec_Create (stamped pg_time t) (pg_abs s)"
      if "pg_rows s' = pg_rows s @ [?t]"
      using that o inv inserted(2) pg_abs_append [of s ?t s'] by (simp add: pg_inv_def pg_abs_None spec_Create_def)
    from c consider "r0 = Inr ()" "pg_rows s' = pg_rows s @ [?t]"
      | e where "r0 = Inl e" "fault_err e" "pg_same s s'"
      | e where "r0 = Inl e" "fault_err e" "pg_rows s' = pg_rows s @ [?t]" by blast
    then show ?thesis
    proof cases
      case 1
      with new run ex show ?thesis by (auto simp: pg_Create_def)
    next
      case 2
      with keep show ?thesis by blast
    next
      case 3
      with run ex have "r = Inl (WrapPre ''postgres: create task'' (wrapDBError e))"
        using fault_err_codes by (auto simp: pg_Create_def)
      with new 3 show ?thesis
        by (auto simp: write_ok_def fault_err_infra) (metis fst_conv snd_conv sum.disc(2))+
    qed
  qed
qed

lemma infra_Sentinel [simp]:
  "\<not> infra_error (Sentinel TErrNotFound)" "\<not> infra_error (Sentinel TErrConflict)"
  "\<not> infra_error (Sentinel TErrAlreadyExists)"
  by (simp_all add: infra_error_def)

lemma pg_inv_distinct: "pg_inv s \<Longrightarrow> distinct (map t_ID (pg_rows s))"
  by (simp add: pg_inv_def)

lemma pg_find:
  assumes inv: "pg_inv s" and canon: "pg_canon pg i" "pg_canon pg u"
    and run: "pg_FindByID pg c i u s = (r, s')"
  shows "pg_inv s' \<and> pg_abs s' = pg_abs s \<and>
    (r = spec_FindByID i u (pg_abs s) \<or> (\<exists>e. r = Inl e \<and> infra_error e))"
proof -
  obtain r0 s0 where ex: "pg_exec c (sql_select_one pg i u) s = (r0, s0)" by fastforce
  note sel = sql_select_one_canon [OF canon pg_inv_distinct [OF inv]]
  have "pg_same s s0 \<and> ((case r0 of Inl e \<Rightarrow> e = Sentinel TSqlErrNoRows \<and> spec_FindByID i u (pg_abs s) = Inl (Sentinel TErrNotFound)
        | Inr t \<Rightarrow> spec_FindByID i u (pg_abs s) = Inr t) \<or> (\<exists>e. r0 = Inl e \<and> fault_err e))"
  proof (cases "sql_select_one pg i u s")
    case (Inl e)
    then have "e = Sentinel TSqlErrNoRows \<and> spec_FindByID i u (pg_abs s) = Inl (Sentinel TErrNotFound)"
      using sel by (auto simp: spec_FindByID_def split: option.splits if_splits)
    with pg_exec_refused [OF ex inv Inl] show ?thesis by auto
  next
    case (Inr p)
    then have "snd p = pg_rows s \<and> spec_FindByID i u (pg_abs s) = Inr (fst p)"
      using sel by (auto simp: spec_FindByID_def split: option.splits if_splits)
    then show ?thesis using pg_exec_reads [OF ex inv, of "fst p"] Inr by (cases p) auto
  qed
  then show ?thesis
    using run ex pg_same_abs pg_same_inv [OF _ inv]
    by (auto simp: pg_FindByID_def fault_err_infra fault_err_codes split: sum.splits if_splits)
qed

lemma pg_delete:
  assumes inv: "pg_inv s" and canon: "pg_canon pg i" "pg_canon pg u"
    and run: "pg_Delete pg c i u s = (r, s')"
  shows "pg_inv s' \<and> write_ok r (pg_abs s) (pg_abs s') (spec_Delete i u (pg_abs s))"
proof -
  obtain r0 s0 where ex: "pg_exec c (sql_delete pg i u) s = (r0, s0)" by fastforce
  with run have s0: "s0 = s'" by (simp add: pg_Delete_def split: sum.splits if_splits)
  obtain n rows where del: "sql_delete pg i u s = Inr (n, rows)"
    using canon by (simp add: sql_delete_def with_uuids_canon)
  note spec = sql_delete_canon [OF canon pg_inv_distinct [OF inv] del]
  from pg_exec_runs [OF ex inv del] s0
  have o: "pg_oracle s' = pg_oracle s" and c: "r0 = Inr n \<and> pg_rows s' = rows \<or>
      (\<exists>e. r0 = Inl e \<and> fault_err e \<and> (pg_same s s' \<or> pg_rows s' = rows))"
    by (auto simp: pg_same_def)
  have new: "pg_inv s' \<and> pg_abs s' = snd (spec_Delete i u (pg_abs s))" if "pg_rows s' = rows"
    using spec(2,3) [OF that] that o inv by (simp add: pg_inv_def)
  have cnt: "fst (spec_Delete i u (pg_abs s)) = (if n = 0 then Inl (Sentinel TErrNotFound) else Inr ())"
    and miss: "n = 0 \<Longrightarrow> snd (spec_Delete i u (pg_abs s)) = pg_abs s"
    using spec(1) [of "s\<lparr>pg_rows := rows\<rparr>"] by (auto simp: spec_Delete_def split: option.splits)
  from c consider "r0 = Inr n" "pg_rows s' = rows"
    | e where "r0 = Inl e" "fault_err e" "pg_same s s'"
    | e where "r0 = Inl e" "fault_err e" "pg_rows s' = rows" by blast
  then show ?thesis
  proof cases
    case 1
    then have "r = fst (spec_Delete i u (pg_abs s))" using run ex cnt by (auto simp: pg_Delete_def)
    with new [OF 1(2)] show ?thesis by auto
  next
    case 2
    with run ex inv pg_same_abs pg_same_inv [OF _ inv] show ?thesis
      by (auto simp: pg_Delete_def fault_err_infra)
  next
    case 3
    then have "r = Inl (WrapPre ''postgres: delete task'' (wrapDBError e))" using run ex by (simp add: pg_Delete_def)
    with new [OF 3(3)] 3(2) cnt miss show ?thesis
      by (cases "n = 0") (auto simp: write_ok_def fault_err_infra)
  qed
qed

lemma pg_update_write:
  assumes inv: "pg_inv s" and canon: "pg_canon pg (t_ID t)" "pg_canon pg (t_UserID t)"
    and row: "pg_abs s (t_ID t) = Some row" "t_UserID row = t_UserID t" "t_Version row = t_Version t"
    and run: "(case pg_exec c (sql_update pg t) s of
        (Inl err, s3) \<Rightarrow> (Inl (WrapPre ''postgres: update task'' (wrapDBError err)), s3)
      | (Inr rows, s3) \<Rightarrow>
     (case pg_exec c (\<lambda>_. Inr ((), rows)) s3 of
        (Inl err, s4) \<Rightarrow> (Inl (WrapPre ''postgres: update task: commit transaction'' (wrapDBError err)), s4)
      | (Inr _, s4) \<Rightarrow> (Inr (), s4))) = (r, s')"
  shows "pg_inv s' \<and> write_ok r (pg_abs s) (pg_abs s') (spec_Update (stamped pg_time t) (pg_abs s))"
proof -
  have keep: ?thesis if "pg_same s s'" "r = Inl e" "infra_error e" for e
    using that pg_same_abs [OF that(1)] pg_same_inv [OF that(1) inv] by auto
  obtain r3 s3 where e3: "pg_exec c (sql_update pg t) s = (r3, s3)" by fastforce
  show ?thesis
  proof (cases "sql_update pg t s")
    case (Inl e)
    then have "fault_err e"
      using canon row_error_fault by (auto simp: sql_update_def with_uuids_canon split: option.splits)
    with pg_exec_refused [OF e3 inv Inl] keep run e3 show ?thesis by (auto simp: fault_err_infra)
  next
    case (Inr p)
    then obtain rows rows0 where upd: "sql_update pg t s = Inr (rows, rows0)" by (cases p) auto
    note spec = sql_update_canon [OF canon pg_inv_distinct [OF inv] row upd]
    from pg_exec_reads [OF e3 inv, of rows] upd spec(1)
    have s3: "pg_same s s3" "r3 = Inr rows \<or> (\<exists>e. r3 = Inl e \<and> fault_err e)" by auto
    show ?thesis
    proof (cases r3)
      case (Inl e)
      with s3 run e3 keep show ?thesis by (auto simp: fault_err_infra)
    next
      case (Inr x)
      with s3 have x: "x = rows" by auto
      obtain r4 s4 where e4: "pg_exec c (\<lambda>_. Inr ((), rows)) s3 = (r4, s4)" by fastforce
      with run e3 Inr x have s': "s4 = s'" by (simp split: sum.splits)
      from pg_exec_runs [OF e4 pg_same_inv [OF s3(1) inv]] s3(1) s'
      have o: "pg_oracle s' = pg_oracle s" and c: "r4 = Inr () \<and> pg_rows s' = rows \<or>
        (\<exists>e. r4 = Inl e \<and> fault_err e \<and> (pg_same s s' \<or> pg_rows s' = rows))"
        by (auto simp: pg_same_def)
      have new: "pg_inv s' \<and> (Inr (), pg_abs s') = spec_Update (stamped pg_time t) (pg_abs s)" if "pg_rows s' = rows"
        using spec(2) spec(3) [OF that] that o inv by (simp add: pg_inv_def)
      from c consider "r4 = Inr ()" "pg_rows s' = rows"
        | e where "r4 = Inl e" "fault_err e" "pg_same s s'"
        | e where "r4 = Inl e" "fault_err e" "pg_rows s' = rows" by blast
      then show ?thesis
      proof cases
        case 1
        with new run e3 e4 Inr x show ?thesis by auto
      next
        case 2
        with keep run e3 e4 Inr x show ?thesis by (auto simp: fault_err_infra)
      next
        case 3
        with new [OF 3(3)] run e3 e4 Inr x show ?thesis
          by (auto simp: write_ok_def fault_err_infra) (metis fst_conv snd_conv sum.disc(2))+
      qed
    qed
  qed
qed

lemma pg_update:
  assumes inv: "pg_inv s" and canon: "pg_canon pg (t_ID t)" "pg_canon pg (t_UserID t)"
    and run: "pg_Update pg c t s = (r, s')"
  shows "pg_inv s' \<and> write_ok r (pg_abs s) (pg_abs s') (spec_Update (stamped pg_time t) (pg_abs s))"
proof -
  let ?spec = "spec_Update (stamped pg_time t) (pg_abs s)"
  have keep: ?thesis if "pg_same s s'" "r = Inl e" "infra_error e \<or> ?spec = (Inl e, pg_abs s)" for e
    using that pg_same_abs [OF that(1)] pg_same_inv [OF that(1) inv] by (auto simp: write_ok_def)
  obtain r1 s1 where e1: "pg_exec c (\<lambda>s. Inr ((), pg_rows s)) s = (r1, s1)" by fastforce
  obtain r2 s2 where e2: "pg_exec c (sql_select_one pg (t_ID t) (t_UserID t)) s1 = (r2, s2)" by fastforce
  from pg_exec_reads [OF e1 inv] have s1: "pg_same s s1" "r1 = Inr () \<or> (\<exists>e. r1 = Inl e \<and> fault_err e)" by auto
  note inv1 = pg_same_inv [OF s1(1) inv]
  note sel = sql_select_one_canon [OF canon pg_inv_distinct [OF inv1]]
  have s2: "pg_same s s2"
    using pg_exec_reads [OF e2 inv1] pg_exec_refused [OF e2 inv1] sel s1(1)
    by (auto simp: pg_same_def split: option.splits if_splits)
  note inv2 = pg_same_inv [OF s2 inv]
  show ?thesis
  proof (cases r1)
    case (Inl e)
    with s1 run e1 keep show ?thesis by (auto simp: pg_Update_def fault_err_infra)
  next
    case (Inr u1)
    show ?thesis
    proof (cases r2)
      case (Inl e)
      then have "fault_err e \<or> e = Sentinel TSqlErrNoRows \<and> ?spec = (Inl (Sentinel TErrNotFound), pg_abs s)"
        using pg_exec_reads [OF e2 inv1] pg_exec_refused [OF e2 inv1] sel pg_same_abs [OF s1(1)]
        by (auto simp: spec_Update_def split: option.splits if_splits)
      with Inl \<open>r1 = Inr u1\<close> run e1 e2 s2 keep show ?thesis
        by (auto simp: pg_Update_def fault_err_infra fault_err_codes split: if_splits)
    next
      case row: (Inr row)
      then have found: "pg_abs s (t_ID t) = Some row" "t_UserID row = t_UserID t"
        using pg_exec_reads [OF e2 inv1] pg_exec_refused [OF e2 inv1] sel pg_same_abs [OF s1(1)]
        by (auto split: option.splits if_splits)
      show ?thesis
      proof (cases "t_Version row = t_Version t")
        case False
        then have "?spec = (Inl (Sentinel TErrConflict), pg_abs s)" using found by (simp add: spec_Update_def)
        with False Inr row run e1 e2 s2 keep show ?thesis by (auto simp: pg_Update_def)
      next
        case True
        with Inr row run e1 e2 have "(case pg_exec c (sql_update pg t) s2 of
          (Inl err, s3) \<Rightarrow> (Inl (WrapPre ''postgres: update task'' (wrapDBError err)), s3)
        | (Inr rows, s3) \<Rightarrow>
       (case pg_exec c (\<lambda>_. Inr ((), rows)) s3 of
          (Inl err, s4) \<Rightarrow> (Inl (WrapPre ''postgres: update task: commit transaction'' (wrapDBError err)), s4)
        | (Inr _, s4) \<Rightarrow> (Inr (), s4))) = (r, s')" by (simp add: pg_Update_def)
        from pg_update_write [OF inv2 canon _ found(2) True this] found(1) pg_same_abs [OF s2] show ?thesis by simp
      qed
    qed
  qed
qed

lemma pg_find_all:
  assumes inv: "pg_inv s" and canon: "pg_canon pg u"
    and run: "pg_FindAll pg c u limit offset sts prs s = (r, s')"
  shows "pg_inv s' \<and> pg_abs s' = pg_abs s \<and>
    read_ok (\<lambda>ts. \<exists>xs. is_listing (pg_abs s) u sts prs xs \<and> ts = window limit offset xs) r"
proof -
  let ?l = "if limit \<ge> 0 then Some limit else None"
  obtain r0 s0 where ex: "pg_exec c (sql_select pg u ?l offset sts prs) s = (r0, s0)" by fastforce
  from sql_matching_listing [OF canon pg_inv_distinct [OF inv]] obtain ts where
    ts: "sql_matching pg u sts prs s = Inr ts" "is_listing (pg_abs s) u sts prs (sort_key task_key ts)" by blast
  then have "sql_select pg u ?l offset sts prs s = Inr (window limit offset (sort_key task_key ts), pg_rows s)"
    by (simp add: sql_select_def window_def Let_def)
  from pg_exec_reads [OF ex inv this] ts(2) run ex show ?thesis
    using pg_same_abs pg_same_inv [OF _ inv]
    by (auto simp: pg_FindAll_def fault_err_infra split: sum.splits)
qed

lemma pg_count_all:
  assumes inv: "pg_inv s" and canon: "pg_canon pg u"
    and run: "pg_CountAll pg c u sts prs s = (r, s')"
  shows "pg_inv s' \<and> pg_abs s' = pg_abs s \<and>
    read_ok (\<lambda>n. \<exists>xs. is_listing (pg_abs s) u sts prs xs \<and> n = int (length xs)) r"
proof -
  obtain r0 s0 where ex: "pg_exec c (sql_count pg u sts prs) s = (r0, s0)" by fastforce
  from sql_matching_listing [OF canon pg_inv_distinct [OF inv]] obtain ts where
    ts: "sql_matching pg u sts prs s = Inr ts" "is_listing (pg_abs s) u sts prs (sort_key task_key ts)" by blast
  then have "sql_count pg u sts prs s = Inr (int (length (sort_key task_key ts)), pg_rows s)"
    by (simp add: sql_count_def)
  note reads = pg_exec_reads [OF ex inv this]
  have "r = Inr (int (length (sort_key task_key ts))) \<or> (\<exists>e. r = Inl e \<and> infra_error e)"
    using reads run ex by (auto simp: pg_CountAll_def fault_err_infra simp del: length_sort split: sum.splits)
  moreover have "s' = s0" using run ex by (auto simp: pg_CountAll_def split: sum.splits)
  ultimately show ?thesis
    using reads ts(2) pg_same_abs pg_same_inv [OF _ inv] by (auto simp del: length_sort)
qed

text \<open>Writing the grouped counts over the zero entries gives every known value its count.\<close>

lemma fold_update_lookup:
  "map_of (fold (\<lambda>(x, n). AList.update x n) (map (\<lambda>x. (x, h x)) xs) g) y =
     (if y \<in> set xs then Some (h y) else map_of g y)"
  by (induction xs arbitrary: g) (auto simp: gomap_simps)

lemma fold_update_wf: "gomap_wf g \<Longrightarrow> gomap_wf (fold (\<lambda>(x, n). AList.update x n) rows g)"
  by (induction rows arbitrary: g) (auto simp: split_beta)

lemma counts_of_grouped:
  assumes "gomap_wf g" and "\<And>x. map_of g x = (if x \<in> set known then Some 0 else None)"
  shows "counts_of known f (sort_key key ts)
    (fold (\<lambda>(x, n). AList.update x n)
      (map (\<lambda>x. (x, int (length (filter (\<lambda>t. f t = x) ts)))) (remdups (map f ts))) g)"
proof -
  have "length (filter P (sort_key key ts)) = length (filter P ts)" for P
    by (metis mset_filter mset_sort size_mset)
  moreover have "filter (\<lambda>t. f t = x) ts = []" if "x \<notin> f ` set ts" for x
    using that by (auto simp: filter_empty_conv)
  ultimately show ?thesis
    using assms by (auto simp: counts_of_def fold_update_lookup fold_update_wf image_iff)
qed

lemma zero_entries:
  "map_of [(StatusPending, 0 :: int), (StatusInProgress, 0), (StatusDone, 0), (StatusCancelled, 0)] x =
     (if x \<in> set all_statuses then Some 0 else None)"
  "map_of [(PriorityLow, 0 :: int), (PriorityMedium, 0), (PriorityHigh, 0)] x =
     (if x \<in> set all_priorities then Some 0 else None)"
  "gomap_wf [(StatusPending, 0 :: int), (StatusInProgress, 0), (StatusDone, 0), (StatusCancelled, 0)]"
  "gomap_wf [(PriorityLow, 0 :: int), (PriorityMedium, 0), (PriorityHigh, 0)]"
  by (auto simp: all_statuses_def all_priorities_def status_defs priority_defs)

lemma pg_count_by:
  assumes inv: "pg_inv s" and canon: "pg_canon pg u"
    and run: "pg_CountByStatusAndPriority pg c u sts prs s = (r, s')"
  shows "pg_inv s' \<and> pg_abs s' = pg_abs s \<and>
    read_ok (\<lambda>(bs, bp). \<exists>xs. is_listing (pg_abs s) u sts prs xs \<and>
       counts_of all_statuses t_Status xs bs \<and> counts_of all_priorities t_Priority xs bp) r"
proof -
  from sql_matching_listing [OF canon pg_inv_distinct [OF inv]] obtain ts where
    ts: "sql_matching pg u sts prs s = Inr ts" "is_listing (pg_abs s) u sts prs (sort_key task_key ts)" by blast
  let ?g = "\<lambda>f. map (\<lambda>x. (x, int (length (filter (\<lambda>t. f t = x) ts)))) (remdups (map f ts))"
  have grp: "sql_group f pg u sts prs s1 = Inr (?g f, pg_rows s1)" if "pg_same s s1" for f s1
  proof -
    have "pg_rows s1 = pg_rows s" using that by (simp add: pg_same_def)
    then have "sql_matching pg u sts prs s1 = Inr ts" using ts(1) by (simp add: sql_matching_def split: option.splits)
    then show ?thesis by (simp add: sql_group_def)
  qed
  obtain r1 s1 where e1: "pg_exec c (sql_group t_Status pg u sts prs) s = (r1, s1)" by fastforce
  obtain r2 s2 where e2: "pg_exec c (sql_group t_Priority pg u sts prs) s1 = (r2, s2)" by fastforce
  have s1: "pg_same s s1" "r1 = Inr (?g t_Status) \<or> (\<exists>e. r1 = Inl e \<and> fault_err e)"
    using pg_exec_reads [OF e1 inv] grp by (auto simp: pg_same_def)
  have s2: "pg_same s s2" "r2 = Inr (?g t_Priority) \<or> (\<exists>e. r2 = Inl e \<and> fault_err e)"
    using pg_exec_reads [OF e2 pg_same_inv [OF s1(1) inv]] grp [OF s1(1)] s1(1) by (auto simp: pg_same_def)
  have bs: "counts_of all_statuses t_Status (sort_key task_key ts)
      (fold (\<lambda>(x, n). AList.update x n) (?g t_Status)
        [(StatusPending, 0), (StatusInProgress, 0), (StatusDone, 0), (StatusCancelled, 0)])"
    by (rule counts_of_grouped) (simp_all only: zero_entries)
  have bp: "counts_of all_priorities t_Priority (sort_key task_key ts)
      (fold (\<lambda>(x, n). AList.update x n) (?g t_Priority)
        [(PriorityLow, 0), (PriorityMedium, 0), (PriorityHigh, 0)])"
    by (rule counts_of_grouped) (simp_all only: zero_entries)
  have same: "pg_same s s'" using run e1 e2 s1(1) s2(1)
    by (auto simp: pg_CountByStatusAndPriority_def Let_def split: sum.splits)
  have "read_ok (\<lambda>(bs, bp). is_listing (pg_abs s) u sts prs (sort_key task_key ts) \<and>
       counts_of all_statuses t_Status (sort_key task_key ts) bs \<and>
       counts_of all_priorities t_Priority (sort_key task_key ts) bp) r"
    using run e1 e2 s1(2) s2(2) bs bp ts(2)
    by (auto simp: pg_CountByStatusAndPriority_def Let_def fault_err_infra split: sum.splits)
  then have "read_ok (\<lambda>(bs, bp). \<exists>xs. is_listing (pg_abs s) u sts prs xs \<and>
       counts_of all_statuses t_Status xs bs \<and> counts_of all_priorities t_Priority xs bp) r"
    by (fastforce simp: read_ok_def split: sum.splits)
  with same pg_same_abs [OF same] pg_same_inv [OF same inv] show ?thesis by blast
qed

interpretation pg: task_repository "postgresRepository pg" pg_abs pg_inv "pg_canon pg" pg_time for pg
proof unfold_locales
  fix s :: pg_state
  assume inv: "pg_inv s"
  then show "keyed (pg_abs s)" by (simp add: keyed_pg_abs pg_inv_def)
  show "finite (dom (pg_abs s))" by (simp add: pg_abs_def finite_dom_map_of)
qed (unfold postgresRepository_sel, (rule pg_create pg_find pg_find_all pg_update pg_delete pg_count_all pg_count_by; assumption)+)

subsection \<open>Properties\<close>

text \<open>The cast accepts every identifier of the usual form; the form PostgreSQL itself prints is in lower case.\<close>

definition uuid_ok :: "'a pg_lib_scheme \<Rightarrow> bool" where
  "uuid_ok pg \<longleftrightarrow> (\<forall>i. isValidID i \<longrightarrow> uuid_in pg i = Some (map ascii_lower i))"

lemma uuid_ok_canon: "uuid_ok pg \<Longrightarrow> isValidID i \<Longrightarrow> map ascii_lower i = i \<Longrightarrow> pg_canon pg i"
  by (simp add: uuid_ok_def)

lemma isValidID_lower: "isValidID i \<Longrightarrow> isValidID (map ascii_lower i)"
  unfolding isValidID_def list_all2_map2
  by (erule list_all2_mono) (auto simp: is_hex_def is_digit_def ascii_lower_def split: if_splits)

lemma uuid_lower: "uuid_ok pg \<Longrightarrow> isValidID i \<Longrightarrow> pg_canon pg (map ascii_lower i)"
  using isValidID_lower [of i] by (simp add: uuid_ok_def comp_def)

lemma pg_exec_live: "pg_oracle s = (\<lambda>_. NoFault) \<Longrightarrow>
  pg_exec Live stmt s = (case stmt s of Inl err \<Rightarrow> (Inl err, s\<lparr>pg_count := Suc (pg_count s)\<rparr>)
    | Inr (x, rows) \<Rightarrow> (Inr x, s\<lparr>pg_count := Suc (pg_count s), pg_rows := rows\<rparr>))"
  by (simp add: pg_exec_def split: sum.split)

lemma pg_live_reads:
  assumes "pg_inv s" and "pg_oracle s = (\<lambda>_. NoFault)" and "pg_canon pg u"
  shows "\<not> isl (fst (pg_FindAll pg Live u limit offset sts prs s))"
    and "\<not> isl (fst (pg_CountAll pg Live u sts prs s))"
    and "pg_canon pg i \<Longrightarrow> fst (pg_FindByID pg Live i u s) = spec_FindByID i u (pg_abs s)"
  using assms sql_select_one_canon [of pg i u s]
  by (auto simp: pg_FindAll_def pg_CountAll_def pg_FindByID_def pg_exec_live Let_def spec_FindByID_def
      sql_select_def sql_count_def sql_matching_def pg_inv_def split: option.split)

text \<open>The statement sees an identifier in the form the cast gives it.\<close>

lemma pg_FindByID_lower:
  assumes "uuid_ok pg" and "isValidID i" and "pg_canon pg (map ascii_lower i)"
  shows "pg_FindByID pg ctx i u s = pg_FindByID pg ctx (map ascii_lower i) u s"
proof -
  have "sql_select_one pg i u = sql_select_one pg (map ascii_lower i) u"
    using assms by (simp add: fun_eq_iff sql_select_one_def with_uuids_def uuid_ok_def)
  then show ?thesis by (simp add: pg_FindByID_def)
qed

text \<open>
  C6. The two stores behind the interface agree on reads, up to the spelling of an identifier. Holding the same tasks, with the database
  answering, for a user identifier in PostgreSQL's own form: every \<^verbatim>\<open>FindAll\<close> returns the same page in the same order and every
  \<^verbatim>\<open>CountAll\<close> the same number; and \<^verbatim>\<open>FindByID\<close> over PostgreSQL, for any identifier \<^verbatim>\<open>isValidID\<close> accepts, returns
  the task or error the in-memory repository returns for that identifier in lower case. So they answer alike for an
  identifier in lower case, as \<^verbatim>\<open>newID\<close> makes them; one spelled in upper case is found by PostgreSQL only.
\<close>

theorem backends_agree_on_reads:
  assumes m: "mem_inv ms" and p: "pg_inv ps" and same: "pg_abs ps = map_of ms"
    and answering: "pg_oracle ps = (\<lambda>_. NoFault)" and u: "pg_canon pg u" and uuid: "uuid_ok pg" and i: "isValidID i"
  shows "fst (pg_FindByID pg Live i u ps) = fst (mem_FindByID Live (map ascii_lower i) u ms) \<and>
    fst (pg_FindAll pg Live u limit offset sts prs ps) = fst (mem_FindAll Live u limit offset sts prs ms) \<and>
    fst (pg_CountAll pg Live u sts prs ps) = fst (mem_CountAll Live u sts prs ms)"
proof -
  note live = pg_live_reads [OF p answering u]
  have low: "pg_canon pg (map ascii_lower i)" using uuid_lower [OF uuid i] .
  have one: "fst (pg_FindByID pg Live i u ps) = fst (mem_FindByID Live (map ascii_lower i) u ms)"
    using live(3) [OF low] same pg_FindByID_lower [OF uuid i low] by (simp add: mem_FindByID_def spec_FindByID_def split: option.split)
  have uniq: "xs = ys" if "is_listing (pg_abs ps) u sts prs xs" "is_listing (map_of ms) u sts prs ys" for xs ys
    using that same is_listing_unique [OF mem.keyed [OF m]] by simp
  obtain r s' where pr: "pg_FindAll pg Live u limit offset sts prs ps = (r, s')" by fastforce
  obtain q m' where mr: "mem_FindAll Live u limit offset sts prs ms = (q, m')" by fastforce
  have "\<not> isl q" using mem.find_all_live [OF m, of u limit offset sts prs] mr by simp
  then have two: "fst (pg_FindAll pg Live u limit offset sts prs ps) = fst (mem_FindAll Live u limit offset sts prs ms)"
    using pg.find_all [OF p u, of Live limit offset sts prs] mem.find_all [OF m, of Live u limit offset sts prs]
      pr mr live(1) [of limit offset sts prs] uniq by (auto simp: read_ok_def split: sum.splits)
  obtain r2 s2 where pc: "pg_CountAll pg Live u sts prs ps = (r2, s2)" by fastforce
  obtain q2 m2 where mc: "mem_CountAll Live u sts prs ms = (q2, m2)" by fastforce
  have "\<not> isl q2" using mem.count_all_live [OF m, of u sts prs] mc by simp
  then have "fst (pg_CountAll pg Live u sts prs ps) = fst (mem_CountAll Live u sts prs ms)"
    using pg.count_all [OF p u, of Live sts prs] mem.count_all [OF m, of Live u sts prs]
      pc mc live(2) [of sts prs] uniq by (auto simp: read_ok_def split: sum.splits)
  with one two show ?thesis by blast
qed

text \<open>The clause, written out: the columns' names and placeholder numbers, and nothing else.\<close>

definition in_list :: "string \<Rightarrow> nat \<Rightarrow> nat \<Rightarrow> string" where
  "in_list column first n = (if n = 0 then [] else
     '' AND '' @ column @ '' IN ('' @ Join '', '' (map (\<lambda>k. CHR ''$'' # Itoa (int (first + k))) [0..<n]) @ '')'')"

lemma appendInClause_in_list:
  "appendInClause column vs (w, args) = (w @ in_list column (length args + 1) (length vs), args @ vs)"
  by (simp add: appendInClause_def in_list_def Let_def)

text \<open>
  No value reaches the SQL text: the clause \<^verbatim>\<open>FindAll\<close>, \<^verbatim>\<open>CountAll\<close> and the two grouped counts share is
  fixed text with placeholders numbered from \<^verbatim>\<open>$1\<close> to the number of bound arguments, and it depends on how
  many values each filter has but on none of the values; the user's identifier and the values are the bound arguments, in the
  placeholders' order.
\<close>

theorem where_clause_has_no_values:
  "buildTaskFilterWhere userID statuses priorities =
     (''WHERE user_id = $1::uuid'' @ in_list ''status'' 2 (length statuses) @
        in_list ''priority'' (2 + length statuses) (length priorities),
      userID # statuses @ priorities)"
  by (simp add: buildTaskFilterWhere_def appendInClause_in_list numeral_2_eq_2)

text \<open>
  The comment on \<^verbatim>\<open>isValidID\<close> says that checking the shape of an identifier in the service makes the two stores
  agree. The pattern admits upper-case digits, and there they do not: a request that spells the identifier of
  the caller's own task in upper case finds the task in PostgreSQL, whose \<^verbatim>\<open>uuid\<close> type ignores case, and
  is answered 'not found' by the in-memory store, which compares strings.
\<close>

theorem uppercase_id_backends_disagree:
  assumes "uuid_ok pg" and "mem_inv ms" and "pg_inv ps" and "pg_abs ps = map_of ms" and "pg_oracle ps = (\<lambda>_. NoFault)"
    and "pg_canon pg u" and "isValidID i" and "map_of ms i = None" and "map_of ms (map ascii_lower i) = Some t"
    and "t_UserID t = u"
  shows "fst (GetTask memoryRepository live u i ms) = Inl (WrapPre ''get task'' (Sentinel TErrNotFound)) \<and>
    fst (GetTask (postgresRepository pg) live u i ps) = Inr t"
proof -
  have t: "filter (\<lambda>t. t_ID t = map ascii_lower i \<and> t_UserID t = u) (pg_rows ps) = [t]"
    using assms(3,4,9,10) filter_by_key [of "pg_rows ps"] by (simp add: pg_inv_def pg_abs_def)
  have "uuid_in pg i = Some (map ascii_lower i)" using assms(1,7) by (simp add: uuid_ok_def)
  then have "sql_select_one pg i u ps = Inr (t, pg_rows ps)"
    using t assms(6) by (simp add: sql_select_one_def with_uuids_def)
  then show ?thesis
    using assms(5,7,8) by (simp add: GetTask_def mem_FindByID_def pg_FindByID_def pg_exec_live)
qed

subsection \<open>A concrete database\<close>

definition demo_pg :: pg_lib where
  "demo_pg = \<lparr>uuid_in = (\<lambda>x. if isValidID x then Some (map ascii_lower x) else None), text_in = (\<lambda>_. True)\<rparr>"

definition demo_ann :: string where
  "demo_ann = ''11111111-1111-4111-8111-111111111111''"

definition demo_bob :: string where
  "demo_bob = ''22222222-2222-4222-8222-222222222222''"

definition demo_upper :: string where
  "demo_upper = ''00010203-0405-4607-8809-0A0B0C0D0E0F''"

definition demo_row :: task where
  "demo_row = demo_task\<lparr>t_UserID := demo_ann\<rparr>"

definition demo_db :: "(nat \<Rightarrow> fault) \<Rightarrow> pg_state" where
  "demo_db f = \<lparr>pg_rows = [demo_row], pg_users = [demo_ann, demo_bob], pg_oracle = f, pg_count = 0\<rparr>"

lemma demo_ids_valid: "isValidID demo_ann" "isValidID demo_bob" "isValidID demo_upper"
  by (simp_all add: isValidID_def idPattern_def demo_ann_def demo_bob_def demo_upper_def is_hex_def is_digit_def
      eval_nat_numeral)

lemma demo_lower: "map ascii_lower demo_ann = demo_ann" "map ascii_lower demo_bob = demo_bob"
  "map ascii_lower demo_id = demo_id" "map ascii_lower demo_upper = demo_id"
  by (simp_all add: demo_ann_def demo_bob_def demo_id_def demo_upper_def ascii_lower_def char_of_def bit_0)

lemma demo_uuid_ok: "uuid_ok demo_pg"
  by (simp add: uuid_ok_def demo_pg_def)

lemma demo_canon: "pg_canon demo_pg demo_ann" "pg_canon demo_pg demo_bob" "pg_canon demo_pg demo_id"
  using uuid_ok_canon [OF demo_uuid_ok] demo_ids_valid demo_id_valid demo_lower by auto

lemma demo_db_simps [simp]: "pg_abs (demo_db f) = [demo_id \<mapsto> demo_row]" "pg_oracle (demo_db f) = f"
  "pg_inv (demo_db f) \<longleftrightarrow> oracle_ok f"
  by (simp_all add: demo_db_def pg_abs_def pg_inv_def demo_row_def demo_task_def)

lemma demo_row_ok: "task_ok demo_row"
  using demo_id_valid by (simp add: task_ok_def text_ok_def demo_row_def demo_task_def maxTitleLen_def maxDescriptionLen_def
      go_eval all_statuses_def status_defs all_priorities_def priority_defs)

theorem backends_agree_on_reads_witness:
  "fst (pg_FindAll demo_pg Live demo_ann 20 0 [] [] (demo_db (\<lambda>_. NoFault))) =
     fst (mem_FindAll Live demo_ann 20 0 [] [] [(demo_id, demo_row)]) \<and>
   fst (pg_FindByID demo_pg Live demo_upper demo_ann (demo_db (\<lambda>_. NoFault))) = Inr demo_row"
proof -
  have m: "mem_inv [(demo_id, demo_row)]" by (simp add: mem_inv_def keyed_def demo_row_def demo_task_def)
  have p: "pg_inv (demo_db (\<lambda>_. NoFault))" by (simp add: oracle_ok_def)
  have same: "pg_abs (demo_db (\<lambda>_. NoFault)) = map_of [(demo_id, demo_row)]"
    and o: "pg_oracle (demo_db (\<lambda>_. NoFault)) = (\<lambda>_. NoFault)" by simp_all
  have "fst (mem_FindByID Live (map ascii_lower demo_upper) demo_ann [(demo_id, demo_row)]) = Inr demo_row"
    by (simp add: mem_FindByID_def demo_lower demo_row_def)
  with backends_agree_on_reads [OF m p same o demo_canon(1) demo_uuid_ok demo_ids_valid(3), of 20 0 "[]" "[]"] show ?thesis by simp
qed

theorem uppercase_id_backends_disagree_witness:
  "fst (GetTask memoryRepository live demo_ann demo_upper [(demo_id, demo_row)]) =
     Inl (WrapPre ''get task'' (Sentinel TErrNotFound)) \<and>
   fst (GetTask (postgresRepository demo_pg) live demo_ann demo_upper (demo_db (\<lambda>_. NoFault))) = Inr demo_row"
proof (rule uppercase_id_backends_disagree [OF demo_uuid_ok _ _ _ _ demo_canon(1) demo_ids_valid(3)])
  show "mem_inv [(demo_id, demo_row)]" by (simp add: mem_inv_def keyed_def demo_row_def demo_task_def)
  show "map_of [(demo_id, demo_row)] demo_upper = None" by (simp add: demo_id_def demo_upper_def)
qed (simp_all add: oracle_ok_def demo_lower demo_row_def)

end
