(* ===== verification/TaskBreaker.thy ===== *)
theory TaskBreaker
  imports TaskPostgres
begin

text \<open>
  \<^verbatim>\<open>internal/task/postgres_breaker.go\<close>: the circuit breaker decorator around a Repository. The breaker of the
  \<^verbatim>\<open>bastion\<close> library is an argument: for each call it decides, from its own state and the context, to admit
  it or to reject it with one of its sentinels (or the context's error), and it is told how an admitted call ended. Its
  state is carried beside the repository's.
\<close>

datatype rejection = OpenState | TooManyRequests | ContextDone

record 'b bastion =
  bst_admit :: "ctx_state \<Rightarrow> 'b \<Rightarrow> rejection option \<times> 'b"
  bst_settle :: "terr option \<Rightarrow> 'b \<Rightarrow> 'b"

fun rejection_error :: "ctx_state \<Rightarrow> rejection \<Rightarrow> terr" where
  "rejection_error ctx OpenState = Sentinel TBreakerErrOpenState"
| "rejection_error ctx TooManyRequests = Sentinel TBreakerErrTooManyRequests"
| "rejection_error ctx ContextDone =
     (case ctx_Err ctx of Some err \<Rightarrow> err | None \<Rightarrow> Sentinel TContextCanceled)"

text \<open>\<^verbatim>\<open>bastion.Execute\<close> and \<^verbatim>\<open>bastion.Do\<close>: a rejected call never runs the function, an admitted one runs it once.\<close>

definition bastion_Execute :: "'b bastion \<Rightarrow> ctx_state \<Rightarrow> (task_err, 'a, 's) op \<Rightarrow> (task_err, 'a, 's \<times> 'b) op" where
  "bastion_Execute B ctx fn sb =
     (case sb of (s, b) \<Rightarrow>
      case bst_admit B ctx b of
        (Some rej, b') \<Rightarrow> (Inl (rejection_error ctx rej), (s, b'))
      | (None, b') \<Rightarrow>
          (case fn s of
             (Inl err, s') \<Rightarrow> (Inl err, (s', bst_settle B (Some err) b'))
           | (Inr x, s') \<Rightarrow> (Inr x, (s', bst_settle B None b'))))"

definition translateBreakerError :: "duration \<Rightarrow> terr \<Rightarrow> terr" where
  "translateBreakerError retryAfter err =
     (if errors_Is err TBreakerErrOpenState \<or> errors_Is err TBreakerErrTooManyRequests
      then UnavailErr TErrUnavailable err retryAfter else err)"

definition with_translation :: "duration \<Rightarrow> 'a tres \<times> 's \<Rightarrow> 'a tres \<times> 's" where
  "with_translation retryAfter out =
     (case out of (Inl err, s) \<Rightarrow> (Inl (translateBreakerError retryAfter err), s) | (Inr x, s) \<Rightarrow> (Inr x, s))"

definition brk_Create :: "'b bastion \<Rightarrow> duration \<Rightarrow> 's task_repo \<Rightarrow> ctx_state \<Rightarrow> task \<Rightarrow> (task_err, unit, 's \<times> 'b) op" where
  "brk_Create B ra next ctx task s = with_translation ra (bastion_Execute B ctx (r_Create next ctx task) s)"

definition brk_FindByID :: "'b bastion \<Rightarrow> duration \<Rightarrow> 's task_repo \<Rightarrow> ctx_state \<Rightarrow> string \<Rightarrow> string
    \<Rightarrow> (task_err, task, 's \<times> 'b) op" where
  "brk_FindByID B ra next ctx i userID s =
     with_translation ra (bastion_Execute B ctx (r_FindByID next ctx i userID) s)"

definition brk_FindAll :: "'b bastion \<Rightarrow> duration \<Rightarrow> 's task_repo \<Rightarrow> ctx_state \<Rightarrow> string \<Rightarrow> int \<Rightarrow> nat
    \<Rightarrow> status list \<Rightarrow> priority list \<Rightarrow> (task_err, task list, 's \<times> 'b) op" where
  "brk_FindAll B ra next ctx userID limit offset statuses priorities s =
     with_translation ra (bastion_Execute B ctx (r_FindAll next ctx userID limit offset statuses priorities) s)"

definition brk_Update :: "'b bastion \<Rightarrow> duration \<Rightarrow> 's task_repo \<Rightarrow> ctx_state \<Rightarrow> task \<Rightarrow> (task_err, unit, 's \<times> 'b) op" where
  "brk_Update B ra next ctx task s = with_translation ra (bastion_Execute B ctx (r_Update next ctx task) s)"

definition brk_Delete :: "'b bastion \<Rightarrow> duration \<Rightarrow> 's task_repo \<Rightarrow> ctx_state \<Rightarrow> string \<Rightarrow> string
    \<Rightarrow> (task_err, unit, 's \<times> 'b) op" where
  "brk_Delete B ra next ctx i userID s = with_translation ra (bastion_Execute B ctx (r_Delete next ctx i userID) s)"

definition brk_CountAll :: "'b bastion \<Rightarrow> duration \<Rightarrow> 's task_repo \<Rightarrow> ctx_state \<Rightarrow> string
    \<Rightarrow> status list \<Rightarrow> priority list \<Rightarrow> (task_err, int, 's \<times> 'b) op" where
  "brk_CountAll B ra next ctx userID statuses priorities s =
     with_translation ra (bastion_Execute B ctx (r_CountAll next ctx userID statuses priorities) s)"

definition brk_CountByStatusAndPriority :: "'b bastion \<Rightarrow> duration \<Rightarrow> 's task_repo \<Rightarrow> ctx_state \<Rightarrow> string
    \<Rightarrow> status list \<Rightarrow> priority list
    \<Rightarrow> (task_err, (status, int) gomap \<times> (priority, int) gomap, 's \<times> 'b) op" where
  "brk_CountByStatusAndPriority B ra next ctx userID statuses priorities s =
     with_translation ra (bastion_Execute B ctx (r_CountByStatusAndPriority next ctx userID statuses priorities) s)"

definition breakerRepository :: "'b bastion \<Rightarrow> duration \<Rightarrow> 's task_repo \<Rightarrow> ('s \<times> 'b) task_repo" where
  "breakerRepository B ra next = \<lparr>
     r_Create = brk_Create B ra next, r_FindByID = brk_FindByID B ra next, r_FindAll = brk_FindAll B ra next,
     r_Update = brk_Update B ra next, r_Delete = brk_Delete B ra next, r_CountAll = brk_CountAll B ra next,
     r_CountByStatusAndPriority = brk_CountByStatusAndPriority B ra next \<rparr>"

lemmas brk_defs = brk_Create_def brk_FindByID_def brk_FindAll_def brk_Update_def brk_Delete_def
  brk_CountAll_def brk_CountByStatusAndPriority_def

lemma breakerRepository_sel [simp]:
  "r_Create (breakerRepository B ra next) = brk_Create B ra next"
  "r_FindByID (breakerRepository B ra next) = brk_FindByID B ra next"
  "r_FindAll (breakerRepository B ra next) = brk_FindAll B ra next"
  "r_Update (breakerRepository B ra next) = brk_Update B ra next"
  "r_Delete (breakerRepository B ra next) = brk_Delete B ra next"
  "r_CountAll (breakerRepository B ra next) = brk_CountAll B ra next"
  "r_CountByStatusAndPriority (breakerRepository B ra next) = brk_CountByStatusAndPriority B ra next"
  by (simp_all add: breakerRepository_def)

subsection \<open>The decorated repository meets the contract\<close>

lemma infra_translate [simp]: "infra_error e \<Longrightarrow> infra_error (translateBreakerError ra e)"
  by (simp add: translateBreakerError_def infra_error_def)

lemma infra_rejection [simp]: "infra_error (rejection_error ctx rej)"
  by (cases rej; cases ctx) (simp_all add: infra_error_def)

text \<open>
  An outcome of the decorator is either an infrastructure error with the repository untouched, or the outcome of
  the decorated method, its error translated.
\<close>

lemma decorated_cases:
  assumes "with_translation ra (bastion_Execute B ctx fn s) = (r, s')"
  obtains (rejected) e where "r = Inl e" "infra_error e" "fst s' = fst s"
    | (error) e where "fn (fst s) = (Inl e, fst s')" "r = Inl (translateBreakerError ra e)"
    | (finished) x where "fn (fst s) = (Inr x, fst s')" "r = Inr x"
  using assms
  by (cases s; cases "bst_admit B ctx (snd s)"; cases "fst (bst_admit B ctx (snd s))"; cases "fn (fst s)"; cases "fst (fn (fst s))")
    (auto simp: with_translation_def bastion_Execute_def)

text \<open>The domain's own answers are not the breaker's to translate.\<close>

lemma translate_domain: "\<not> infra_error e \<Longrightarrow> e = Sentinel x \<Longrightarrow> translateBreakerError ra e = e"
  by (auto simp: translateBreakerError_def infra_error_def)

lemma spec_errors_domain:
  "fst (spec_Create t m) = Inl e \<Longrightarrow> translateBreakerError ra e = e"
  "spec_FindByID i u m = Inl e \<Longrightarrow> translateBreakerError ra e = e"
  "fst (spec_Update t m) = Inl e \<Longrightarrow> translateBreakerError ra e = e"
  "fst (spec_Delete i u m) = Inl e \<Longrightarrow> translateBreakerError ra e = e"
  by (auto simp: spec_Create_def spec_FindByID_def spec_Update_def spec_Delete_def translateBreakerError_def
      split: if_splits option.splits)

lemma write_ok_translate:
  assumes "write_ok (Inl e) m m' sp" and "\<And>e. fst sp = Inl e \<Longrightarrow> translateBreakerError ra e = e"
  shows "write_ok (Inl (translateBreakerError ra e)) m m' sp"
proof -
  from assms(1) consider "(Inl e, m') = sp"
    | "infra_error e" "m' = m \<or> isl (fst sp) = False \<and> m' = snd sp" by (auto simp: write_ok_def)
  then show ?thesis
  proof cases
    case 1
    then have "fst sp = Inl e" by (metis fst_conv)
    with assms(2) have "translateBreakerError ra e = e" by blast
    with 1 show ?thesis by auto
  next
    case 2
    then show ?thesis by (auto simp: write_ok_def)
  qed
qed

locale breaker_over = task_repository repo abst invar canon tick
  for repo :: "'s task_repo" and abst and invar and canon and tick +
  fixes B :: "'b bastion" and retryAfter :: duration
begin

lemma decorated_write:
  assumes "with_translation retryAfter (bastion_Execute B c fn s) = (r, s')" and "invar (fst s)"
    and "\<And>r0 s0. fn (fst s) = (r0, s0) \<Longrightarrow> invar s0 \<and> write_ok r0 (abst (fst s)) (abst s0) sp"
    and "\<And>e. fst sp = Inl e \<Longrightarrow> translateBreakerError retryAfter e = e"
  shows "invar (fst s') \<and> write_ok r (abst (fst s)) (abst (fst s')) sp"
  using assms(1)
proof (cases rule: decorated_cases)
  case (rejected e)
  with assms(2) show ?thesis by auto
next
  case (error e)
  with assms(3) write_ok_translate [OF _ assms(4)] show ?thesis by blast
next
  case (finished x)
  with assms(3) show ?thesis by blast
qed

lemma decorated_read:
  assumes "with_translation retryAfter (bastion_Execute B c fn s) = (r, s')" and "invar (fst s)"
    and "\<And>r0 s0. fn (fst s) = (r0, s0) \<Longrightarrow> invar s0 \<and> abst s0 = abst (fst s) \<and> read_ok good r0"
  shows "invar (fst s') \<and> abst (fst s') = abst (fst s) \<and> read_ok good r"
  using assms(1)
proof (cases rule: decorated_cases)
  case (rejected e)
  with assms(2) show ?thesis by auto
next
  case (error e)
  with assms(3) [OF error(1)] show ?thesis by auto
next
  case (finished x)
  with assms(3) [OF finished(1)] show ?thesis by auto
qed

lemma decorated_find:
  assumes "with_translation retryAfter (bastion_Execute B c fn s) = (r, s')" and "invar (fst s)"
    and "\<And>r0 s0. fn (fst s) = (r0, s0) \<Longrightarrow> invar s0 \<and> abst s0 = abst (fst s) \<and>
       (r0 = spec_FindByID i u (abst (fst s)) \<or> (\<exists>e. r0 = Inl e \<and> infra_error e))"
  shows "invar (fst s') \<and> abst (fst s') = abst (fst s) \<and>
     (r = spec_FindByID i u (abst (fst s)) \<or> (\<exists>e. r = Inl e \<and> infra_error e))"
  using assms(1)
proof (cases rule: decorated_cases)
  case (rejected e)
  with assms(2) show ?thesis by auto
next
  case (error e)
  with assms(3) [OF error(1)] spec_errors_domain(2) [of i u "abst (fst s)" e retryAfter] show ?thesis by auto
next
  case (finished x)
  with assms(3) [OF finished(1)] show ?thesis by auto
qed

end

sublocale breaker_over \<subseteq> brk: task_repository "breakerRepository B retryAfter repo" "\<lambda>s. abst (fst s)"
  "\<lambda>s. invar (fst s)" canon tick
proof unfold_locales
  fix s s' :: "'s \<times> 'b" and r c and t :: task and u i :: string
  show "invar (fst s) \<Longrightarrow> keyed (abst (fst s))" by (rule keyed)
  show "invar (fst s) \<Longrightarrow> finite (dom (abst (fst s)))" by (rule finite_store)
  show "invar (fst s') \<and> write_ok r (abst (fst s)) (abst (fst s')) (spec_Create (stamped tick t) (abst (fst s)))"
    if "invar (fst s)" "canon (t_ID t)" "canon (t_UserID t)"
      "r_Create (breakerRepository B retryAfter repo) c t s = (r, s')"
    by (rule decorated_write) (use that create spec_errors_domain(1) in \<open>auto simp: brk_defs\<close>)
  show "invar (fst s') \<and> write_ok r (abst (fst s)) (abst (fst s')) (spec_Update (stamped tick t) (abst (fst s)))"
    if "invar (fst s)" "canon (t_ID t)" "canon (t_UserID t)"
      "r_Update (breakerRepository B retryAfter repo) c t s = (r, s')"
    by (rule decorated_write) (use that update spec_errors_domain(3) in \<open>auto simp: brk_defs\<close>)
  show "invar (fst s') \<and> write_ok r (abst (fst s)) (abst (fst s')) (spec_Delete i u (abst (fst s)))"
    if "invar (fst s)" "canon i" "canon u" "r_Delete (breakerRepository B retryAfter repo) c i u s = (r, s')"
    by (rule decorated_write) (use that delete spec_errors_domain(4) in \<open>auto simp: brk_defs\<close>)
next
  fix s s' :: "'s \<times> 'b" and rf c and u i :: string
  assume "invar (fst s)" "canon i" "canon u" "r_FindByID (breakerRepository B retryAfter repo) c i u s = (rf, s')"
  then show "invar (fst s') \<and> abst (fst s') = abst (fst s) \<and>
     (rf = spec_FindByID i u (abst (fst s)) \<or> (\<exists>e. rf = Inl e \<and> infra_error e))"
    unfolding breakerRepository_sel brk_FindByID_def
    using decorated_find [of c "r_FindByID repo c i u" s rf s' i u] find [of "fst s" i u c] by blast
next
  fix s s' :: "'s \<times> 'b" and rl c limit offset sts prs and u :: string
  assume "invar (fst s)" "canon u"
    "r_FindAll (breakerRepository B retryAfter repo) c u limit offset sts prs s = (rl, s')"
  then show "invar (fst s') \<and> abst (fst s') = abst (fst s) \<and>
     read_ok (\<lambda>ts. \<exists>xs. is_listing (abst (fst s)) u sts prs xs \<and> ts = window limit offset xs) rl"
    by (intro decorated_read) (use find_all in \<open>auto simp: brk_defs\<close>)
next
  fix s s' :: "'s \<times> 'b" and rn c sts prs and u :: string
  assume "invar (fst s)" "canon u"
    "r_CountAll (breakerRepository B retryAfter repo) c u sts prs s = (rn, s')"
  then show "invar (fst s') \<and> abst (fst s') = abst (fst s) \<and>
     read_ok (\<lambda>n. \<exists>xs. is_listing (abst (fst s)) u sts prs xs \<and> n = int (length xs)) rn"
    by (intro decorated_read) (use count_all in \<open>auto simp: brk_defs\<close>)
next
  fix s s' :: "'s \<times> 'b" and rc c sts prs and u :: string
  assume "invar (fst s)" "canon u"
    "r_CountByStatusAndPriority (breakerRepository B retryAfter repo) c u sts prs s = (rc, s')"
  then show "invar (fst s') \<and> abst (fst s') = abst (fst s) \<and>
     read_ok (\<lambda>(bs, bp). \<exists>xs. is_listing (abst (fst s)) u sts prs xs \<and>
        counts_of all_statuses t_Status xs bs \<and> counts_of all_priorities t_Priority xs bp) rc"
    by (intro decorated_read) (use count_by in \<open>auto simp: brk_defs\<close>)
qed

interpretation pgb: breaker_over "postgresRepository pg" pg_abs pg_inv "pg_canon pg" pg_time B retryAfter
  for pg and B :: "'b bastion" and retryAfter
  by unfold_locales

subsection \<open>Properties\<close>

text \<open>
  C5. The service over the production stack, the breaker around the PostgreSQL repository, whatever the
  database and the breaker do: statements may fail before or after taking
  effect, at any point and with any error that is not a domain answer, the breaker may reject any call, contexts may be
  cancelled or time out. After any run of calls every row is a well-formed task under its own identifier, and
  the rows of a user who made none of the calls are exactly what they were.
\<close>

theorem production_stack_run_safe:
  assumes "uuid_ok pg" and "pg_inv (fst s)" and "all_tasks task_ok (pg_abs (fst s))"
    and "\<forall>(ctx, u, call) \<in> set calls. call_ok call \<and> pg_canon pg u \<and> (\<forall>i \<in> call_ids call. pg_canon pg i) \<and> u \<noteq> v"
  shows "(pg_abs (fst (run_calls lib (breakerRepository B ra (postgresRepository pg)) calls s)) k = Some t \<longrightarrow>
      t_ID t = k \<and> task_ok t) \<and>
    (pg_abs (fst (run_calls lib (breakerRepository B ra (postgresRepository pg)) calls s)) k = Some t \<and> t_UserID t = v \<longleftrightarrow>
     pg_abs (fst s) k = Some t \<and> t_UserID t = v)"
proof
  have "\<forall>(ctx, u, call) \<in> set calls. call_ok call \<and> pg_canon pg u \<and> (\<forall>i \<in> call_ids call. pg_canon pg i)"
    using assms(4) by auto
  then show "pg_abs (fst (run_calls lib (breakerRepository B ra (postgresRepository pg)) calls s)) k = Some t \<longrightarrow>
      t_ID t = k \<and> task_ok t"
    using pgb.brk.run_well_formed [OF assms(2,3)] uuid_ok_canon [OF assms(1)] by blast
  show "pg_abs (fst (run_calls lib (breakerRepository B ra (postgresRepository pg)) calls s)) k = Some t \<and> t_UserID t = v \<longleftrightarrow>
     pg_abs (fst s) k = Some t \<and> t_UserID t = v"
    by (rule pgb.brk.run_isolation [OF assms(2,4) uuid_ok_canon [OF assms(1)]])
qed

lemma translate_hides_bastion:
  "\<not> errors_Is (translateBreakerError ra e) TBreakerErrOpenState \<and>
   \<not> errors_Is (translateBreakerError ra e) TBreakerErrTooManyRequests"
  by (simp add: translateBreakerError_def)

text \<open>
  What a caller sees of the breaker. An error of an update through the decorator never matches a sentinel
  of the breaker library; and when the breaker rejects the call because it is open or has too many probes, the
  repository is not called at all, and the error is \<^verbatim>\<open>ErrUnavailable\<close> with the configured
  \<^verbatim>\<open>RetryAfter\<close>.
\<close>

theorem breaker_rejection_contract:
  "(\<forall>e s'. r_Update (breakerRepository B ra next) ctx task (s, b) = (Inl e, s') \<longrightarrow>
      \<not> errors_Is e TBreakerErrOpenState \<and> \<not> errors_Is e TBreakerErrTooManyRequests) \<and>
   (\<forall>rej b'. bst_admit B ctx b = (Some rej, b') \<and> rej \<noteq> ContextDone \<longrightarrow>
      (\<exists>e. r_Update (breakerRepository B ra next) ctx task (s, b) = (Inl e, (s, b')) \<and>
        errors_Is e TErrUnavailable \<and> errors_As_RetryAfter e = Some ra))"
proof (intro conjI allI impI)
  fix e s'
  assume "r_Update (breakerRepository B ra next) ctx task (s, b) = (Inl e, s')"
  then have "\<exists>e0. e = translateBreakerError ra e0"
    by (auto simp: brk_Update_def with_translation_def split: prod.splits sum.splits)
  then show "\<not> errors_Is e TBreakerErrOpenState" "\<not> errors_Is e TBreakerErrTooManyRequests"
    using translate_hides_bastion by auto
next
  fix rej b'
  assume "bst_admit B ctx b = (Some rej, b') \<and> rej \<noteq> ContextDone"
  then show "\<exists>e. r_Update (breakerRepository B ra next) ctx task (s, b) = (Inl e, (s, b')) \<and>
        errors_Is e TErrUnavailable \<and> errors_As_RetryAfter e = Some ra"
    by (cases rej) (auto simp: brk_Update_def with_translation_def bastion_Execute_def translateBreakerError_def)
qed

subsection \<open>A concrete breaker\<close>

text \<open>Counts down to a rejection.\<close>

definition demo_breaker :: "nat bastion" where
  "demo_breaker = \<lparr>bst_admit = (\<lambda>_ n. if n = 0 then (Some OpenState, 0) else (None, n - 1)), bst_settle = (\<lambda>_ n. n)\<rparr>"

text \<open>Every statement loses its answer; Bob's delete leaves Ann's row alone.\<close>

theorem production_stack_run_safe_witness:
  "pg_abs (fst (run_calls demo_lib (breakerRepository demo_breaker 30 (postgresRepository demo_pg))
     [(live, demo_bob, CallDelete demo_id)] (demo_db (\<lambda>_. FailAfter (Sentinel TDriverErrBadConn)), 1))) demo_id = Some demo_row"
proof -
  let ?s = "(demo_db (\<lambda>_. FailAfter (Sentinel TDriverErrBadConn)), 1 :: nat)"
  have inv: "pg_inv (fst ?s)" by (simp add: oracle_ok_def fault_err_def infra_error_def isUniqueViolation_def)
  have ok: "all_tasks task_ok (pg_abs (fst ?s))" using demo_row_ok by (simp add: all_tasks_def)
  have calls: "\<forall>(ctx, u, call) \<in> set [(live, demo_bob, CallDelete demo_id)].
      call_ok call \<and> pg_canon demo_pg u \<and> (\<forall>i \<in> call_ids call. pg_canon demo_pg i) \<and> u \<noteq> demo_ann"
    using demo_canon by (simp add: demo_ann_def demo_bob_def)
  from production_stack_run_safe [OF demo_uuid_ok inv ok calls, of demo_lib demo_breaker 30 demo_id demo_row]
  show ?thesis by (simp add: demo_row_def)
qed

theorem breaker_rejection_contract_witness:
  "\<exists>e. r_Update (breakerRepository demo_breaker 30 memoryRepository) Live demo_task ([(demo_id, demo_task)], 0)
      = (Inl e, ([(demo_id, demo_task)], 0)) \<and> errors_Is e TErrUnavailable \<and> errors_As_RetryAfter e = Some 30"
proof -
  have rej: "bst_admit demo_breaker Live 0 = (Some OpenState, 0) \<and> OpenState \<noteq> ContextDone"
    by (simp add: demo_breaker_def)
  from breaker_rejection_contract [of demo_breaker 30 memoryRepository Live demo_task "[(demo_id, demo_task)]" 0] rej
  show ?thesis by blast
qed

end
