(* ===== verification/TaskCache.thy ===== *)
theory TaskCache
  imports TaskBreaker
begin

text \<open>
  \<^verbatim>\<open>internal/task/cached_repository.go\<close>: the cache-aside decorator over \<^verbatim>\<open>FindAll\<close>. The cache of the
  \<^verbatim>\<open>cistern\<close> library is an argument: reading, filling and invalidating it are functions on its own state
  \<open>'c\<close>, and what its documentation promises of them is the predicate \<open>cistern_ok\<close>. The cache's
  codec (\<^verbatim>\<open>gobCodec\<close>) keeps every exported field of a task, so a cached page is the list of tasks itself.
\<close>

record cacheKey =
  ck_userID :: string
  ck_statuses :: string
  ck_priorities :: string
  ck_limit :: int
  ck_offset :: nat

definition sortedJoin :: "string list \<Rightarrow> string" where
  "sortedJoin values = (if values = [] then '''' else Join '','' (sort values))"

definition newCacheKey :: "string \<Rightarrow> int \<Rightarrow> nat \<Rightarrow> status list \<Rightarrow> priority list \<Rightarrow> cacheKey" where
  "newCacheKey userID limit offset statuses priorities =
     \<lparr>ck_userID = userID, ck_statuses = sortedJoin statuses, ck_priorities = sortedJoin priorities,
      ck_limit = limit, ck_offset = offset\<rparr>"

definition cacheKeyString :: "cacheKey \<Rightarrow> string" where
  "cacheKeyString k = ''user:'' @ ck_userID k @ '':lists:status='' @ ck_statuses k @ '':priority='' @ ck_priorities k @
     '':limit='' @ Itoa (ck_limit k) @ '':offset='' @ Itoa (int (ck_offset k))"

definition userTag :: "string \<Rightarrow> string" where
  "userTag userID = ''user:'' @ userID @ '':lists''"

definition cacheKeyTag :: "cacheKey \<Rightarrow> string list" where
  "cacheKeyTag k = [userTag (ck_userID k)]"

record 'c cistern =
  cis_get :: "ctx_state \<Rightarrow> string \<Rightarrow> 'c \<Rightarrow> (terr + task list option) \<times> 'c"
  cis_put :: "string \<Rightarrow> string list \<Rightarrow> task list \<Rightarrow> 'c \<Rightarrow> 'c"
  cis_invalidate :: "ctx_state \<Rightarrow> string \<Rightarrow> 'c \<Rightarrow> terr option \<times> 'c"

text \<open>
  \<^verbatim>\<open>GetOrLoad\<close>: the cached value if the cache has one, otherwise the loader's, which is then
  kept under the key's string and tags; a loader error is returned and nothing is kept.
\<close>

definition GetOrLoad :: "'c cistern \<Rightarrow> ctx_state \<Rightarrow> cacheKey \<Rightarrow> (task_err, task list, 's) op
    \<Rightarrow> (task_err, task list, 's \<times> 'c) op" where
  "GetOrLoad C ctx k load sc =
     (case sc of (s, c) \<Rightarrow>
      case cis_get C ctx (cacheKeyString k) c of
        (Inl err, c1) \<Rightarrow> (Inl err, (s, c1))
      | (Inr (Some v), c1) \<Rightarrow> (Inr v, (s, c1))
      | (Inr None, c1) \<Rightarrow>
          (case load s of
             (Inl err, s') \<Rightarrow> (Inl err, (s', c1))
           | (Inr v, s') \<Rightarrow> (Inr v, (s', cis_put C (cacheKeyString k) (cacheKeyTag k) v c1))))"

text \<open>\<^verbatim>\<open>invalidateOwner\<close>: a failed invalidation only reaches \<^verbatim>\<open>OnInvalidationError\<close>, which logs it.\<close>

definition invalidateOwner :: "'c cistern \<Rightarrow> ctx_state \<Rightarrow> string \<Rightarrow> 'c \<Rightarrow> 'c" where
  "invalidateOwner C ctx userID c = snd (cis_invalidate C ctx (userTag userID) c)"

definition lift_read :: "(task_err, 'a, 's) op \<Rightarrow> (task_err, 'a, 's \<times> 'c) op" where
  "lift_read f sc = (case f (fst sc) of (r, s') \<Rightarrow> (r, (s', snd sc)))"

text \<open>A write goes through first; the owner's pages are retired only when it succeeded.\<close>

definition lift_write :: "'c cistern \<Rightarrow> ctx_state \<Rightarrow> string \<Rightarrow> (task_err, unit, 's) op \<Rightarrow> (task_err, unit, 's \<times> 'c) op" where
  "lift_write C ctx owner f sc =
     (case f (fst sc) of
        (Inl err, s') \<Rightarrow> (Inl err, (s', snd sc))
      | (Inr _, s') \<Rightarrow> (Inr (), (s', invalidateOwner C ctx owner (snd sc))))"

definition cached_Create :: "'c cistern \<Rightarrow> 's task_repo \<Rightarrow> ctx_state \<Rightarrow> task \<Rightarrow> (task_err, unit, 's \<times> 'c) op" where
  "cached_Create C next ctx task = lift_write C ctx (t_UserID task) (r_Create next ctx task)"

definition cached_FindByID :: "'s task_repo \<Rightarrow> ctx_state \<Rightarrow> string \<Rightarrow> string \<Rightarrow> (task_err, task, 's \<times> 'c) op" where
  "cached_FindByID next ctx i userID = lift_read (r_FindByID next ctx i userID)"

definition cached_FindAll :: "'c cistern \<Rightarrow> 's task_repo \<Rightarrow> ctx_state \<Rightarrow> string \<Rightarrow> int \<Rightarrow> nat
    \<Rightarrow> status list \<Rightarrow> priority list \<Rightarrow> (task_err, task list, 's \<times> 'c) op" where
  "cached_FindAll C next ctx userID limit offset statuses priorities =
     GetOrLoad C ctx (newCacheKey userID limit offset statuses priorities)
       (r_FindAll next ctx userID limit offset statuses priorities)"

definition cached_Update :: "'c cistern \<Rightarrow> 's task_repo \<Rightarrow> ctx_state \<Rightarrow> task \<Rightarrow> (task_err, unit, 's \<times> 'c) op" where
  "cached_Update C next ctx task = lift_write C ctx (t_UserID task) (r_Update next ctx task)"

definition cached_Delete :: "'c cistern \<Rightarrow> 's task_repo \<Rightarrow> ctx_state \<Rightarrow> string \<Rightarrow> string \<Rightarrow> (task_err, unit, 's \<times> 'c) op" where
  "cached_Delete C next ctx i userID = lift_write C ctx userID (r_Delete next ctx i userID)"

definition cached_CountAll :: "'s task_repo \<Rightarrow> ctx_state \<Rightarrow> string \<Rightarrow> status list \<Rightarrow> priority list
    \<Rightarrow> (task_err, int, 's \<times> 'c) op" where
  "cached_CountAll next ctx userID statuses priorities = lift_read (r_CountAll next ctx userID statuses priorities)"

definition cached_CountByStatusAndPriority :: "'s task_repo \<Rightarrow> ctx_state \<Rightarrow> string \<Rightarrow> status list \<Rightarrow> priority list
    \<Rightarrow> (task_err, (status, int) gomap \<times> (priority, int) gomap, 's \<times> 'c) op" where
  "cached_CountByStatusAndPriority next ctx userID statuses priorities =
     lift_read (r_CountByStatusAndPriority next ctx userID statuses priorities)"

definition CachedRepository :: "'c cistern \<Rightarrow> 's task_repo \<Rightarrow> ('s \<times> 'c) task_repo" where
  "CachedRepository C next = \<lparr>
     r_Create = cached_Create C next, r_FindByID = cached_FindByID next, r_FindAll = cached_FindAll C next,
     r_Update = cached_Update C next, r_Delete = cached_Delete C next, r_CountAll = cached_CountAll next,
     r_CountByStatusAndPriority = cached_CountByStatusAndPriority next \<rparr>"

lemma CachedRepository_sel [simp]:
  "r_Create (CachedRepository C next) = cached_Create C next"
  "r_FindByID (CachedRepository C next) = cached_FindByID next"
  "r_FindAll (CachedRepository C next) = cached_FindAll C next"
  "r_Update (CachedRepository C next) = cached_Update C next"
  "r_Delete (CachedRepository C next) = cached_Delete C next"
  "r_CountAll (CachedRepository C next) = cached_CountAll next"
  "r_CountByStatusAndPriority (CachedRepository C next) = cached_CountByStatusAndPriority next"
  by (simp_all add: CachedRepository_def)

subsection \<open>The keys\<close>

definition known_values :: "string set" where
  "known_values = set all_statuses \<union> set all_priorities"

definition key_safe :: "string \<Rightarrow> status list \<Rightarrow> priority list \<Rightarrow> bool" where
  "key_safe u sts prs \<longleftrightarrow> CHR '':'' \<notin> set u \<and> set sts \<subseteq> known_values \<and> set prs \<subseteq> known_values"

lemma known_values_chars:
  "x \<in> known_values \<Longrightarrow> x \<noteq> [] \<and> CHR '','' \<notin> set x \<and> CHR '':'' \<notin> set x"
  by (auto simp: known_values_def all_statuses_def all_priorities_def status_defs priority_defs)

lemma Join_chars: "c \<in> set (Join sep xs) \<Longrightarrow> c \<in> set sep \<or> (\<exists>x \<in> set xs. c \<in> set x)"
  by (induction sep xs rule: Join.induct) auto

lemma sortedJoin_no_colon:
  assumes "set xs \<subseteq> known_values"
  shows "CHR '':'' \<notin> set (sortedJoin xs)"
proof
  assume "CHR '':'' \<in> set (sortedJoin xs)"
  then obtain x where "x \<in> set xs" "CHR '':'' \<in> set x"
    using Join_chars [of "CHR '':''" "'',''" "sort xs"] by (auto simp: sortedJoin_def split: if_splits)
  with assms known_values_chars show False by blast
qed

lemma sortedJoin_inject:
  assumes "set xs \<subseteq> known_values" and "set ys \<subseteq> known_values"
    and "sortedJoin xs = sortedJoin ys"
  shows "set xs = set ys"
proof -
  have split: "Split (CHR '','') (sortedJoin zs) = sort zs"
    if "zs \<noteq> []" "set zs \<subseteq> known_values" for zs
  proof -
    have "\<forall>x \<in> set (sort zs). CHR '','' \<notin> set x" using that(2) known_values_chars by auto
    moreover have "sort zs \<noteq> []" using that(1) by (metis length_0_conv length_sort)
    ultimately show ?thesis using Split_Join [of "sort zs" "CHR '',''"] that(1) by (simp add: sortedJoin_def)
  qed
  have "zs = []" if "sortedJoin zs = []" "set zs \<subseteq> known_values" for zs
  proof (rule ccontr)
    assume "zs \<noteq> []"
    with split [OF this that(2)] that(1) have "sort zs = [[]]" by simp
    then have "[] \<in> set zs" by (metis list.set_intros(1) set_sort)
    with that(2) known_values_chars show False by blast
  qed
  with assms split show ?thesis by (metis set_sort sortedJoin_def)
qed

text \<open>
  Two requests share a cache entry only when they ask for the same page of the same filters of the same user.
\<close>

lemma Itoa_no_colon: "CHR '':'' \<notin> set (Itoa n)"
proof -
  have "\<not> is_digit (CHR '':'')" by (simp add: is_digit_def)
  then have "CHR '':'' \<notin> set (show_nat k)" for k using show_nat_digits by blast
  then show ?thesis by (simp add: Itoa_def)
qed

lemma cacheKeyString_inject:
  assumes "key_safe u sts prs" and "key_safe u' sts' prs'"
    and "cacheKeyString (newCacheKey u l f sts prs) = cacheKeyString (newCacheKey u' l' f' sts' prs')"
  shows "u = u' \<and> l = l' \<and> f = f' \<and> set sts = set sts' \<and> set prs = set prs'"
proof -
  have c: "CHR '':'' \<notin> set (sortedJoin sts)" "CHR '':'' \<notin> set (sortedJoin prs)"
    "CHR '':'' \<notin> set (sortedJoin sts')" "CHR '':'' \<notin> set (sortedJoin prs')"
    using assms(1,2) by (auto simp: key_safe_def intro!: sortedJoin_no_colon)
  let ?r5 = "\<lambda>f. ''offset='' @ Itoa (int f)"
  let ?r4 = "\<lambda>l f. ''limit='' @ Itoa l @ CHR '':'' # ?r5 f"
  let ?r3 = "\<lambda>prs l f. ''priority='' @ sortedJoin prs @ CHR '':'' # ?r4 l f"
  let ?r2 = "\<lambda>sts prs l f. ''lists:status='' @ sortedJoin sts @ CHR '':'' # ?r3 prs l f"
  from assms(3) have "u @ CHR '':'' # ?r2 sts prs l f = u' @ CHR '':'' # ?r2 sts' prs' l' f'"
    by (simp add: cacheKeyString_def newCacheKey_def)
  from split_at_sep [OF this] assms(1,2) have u: "u = u'" "?r2 sts prs l f = ?r2 sts' prs' l' f'"
    unfolding key_safe_def by blast+
  from u(2) have "sortedJoin sts @ CHR '':'' # ?r3 prs l f = sortedJoin sts' @ CHR '':'' # ?r3 prs' l' f'" by simp
  from split_at_sep [OF this c(1,3)] have s: "sortedJoin sts = sortedJoin sts'" "?r3 prs l f = ?r3 prs' l' f'" by blast+
  from s(2) have "sortedJoin prs @ CHR '':'' # ?r4 l f = sortedJoin prs' @ CHR '':'' # ?r4 l' f'" by simp
  from split_at_sep [OF this c(2,4)] have p: "sortedJoin prs = sortedJoin prs'" "?r4 l f = ?r4 l' f'" by blast+
  from p(2) have "Itoa l @ CHR '':'' # ?r5 f = Itoa l' @ CHR '':'' # ?r5 f'" by simp
  from split_at_sep [OF this Itoa_no_colon Itoa_no_colon] have "l = l'" "f = f'" by simp_all
  moreover have "set sts = set sts'" "set prs = set prs'"
    using assms(1,2) s(1) p(1) sortedJoin_inject [of sts sts'] sortedJoin_inject [of prs prs']
    by (simp_all add: key_safe_def)
  ultimately show ?thesis using u(1) by blast
qed

subsection \<open>What the cache library promises\<close>

text \<open>
  \<open>held c k\<close> is what the cache holds under the string \<open>k\<close>, with its tags. Entries may vanish at any
  moment (expiry, eviction); a read returns what is held; filling adds the one entry; a
  successful invalidation leaves nothing held under the tag.
\<close>

definition cistern_ok :: "'c cistern \<Rightarrow> ('c \<Rightarrow> string \<Rightarrow> (task list \<times> string list) option) \<Rightarrow> bool" where
  "cistern_ok C held \<longleftrightarrow>
     (\<forall>ctx k c r c'. cis_get C ctx k c = (r, c') \<longrightarrow>
        held c' \<subseteq>\<^sub>m held c \<and> (\<forall>v. r = Inr (Some v) \<longrightarrow> (\<exists>tags. held c k = Some (v, tags))) \<and>
        (\<forall>e. r = Inl e \<longrightarrow> infra_error e)) \<and>
     (\<forall>k tags v c. held (cis_put C k tags v c) \<subseteq>\<^sub>m (held c)(k \<mapsto> (v, tags))) \<and>
     (\<forall>ctx tag c e c'. cis_invalidate C ctx tag c = (e, c') \<longrightarrow>
        held c' \<subseteq>\<^sub>m held c \<and> (e = None \<longrightarrow> (\<forall>k v tags. held c' k = Some (v, tags) \<longrightarrow> tag \<notin> set tags)))"

lemma cistern_ok_get:
  assumes "cistern_ok C held" and "cis_get C ctx k c = (r, c')"
  shows "held c' \<subseteq>\<^sub>m held c \<and> (\<forall>v. r = Inr (Some v) \<longrightarrow> (\<exists>tags. held c k = Some (v, tags))) \<and>
    (\<forall>e. r = Inl e \<longrightarrow> infra_error e)"
  using assms(1) [unfolded cistern_ok_def, THEN conjunct1, rule_format, OF assms(2)] by simp

lemma cistern_ok_put: "cistern_ok C held \<Longrightarrow> held (cis_put C k tags v c) \<subseteq>\<^sub>m (held c)(k \<mapsto> (v, tags))"
  unfolding cistern_ok_def by simp

lemma cistern_ok_invalidate:
  assumes "cistern_ok C held" and "cis_invalidate C ctx tag c = (e, c')"
  shows "held c' \<subseteq>\<^sub>m held c \<and> (e = None \<longrightarrow> (\<forall>k v tags. held c' k = Some (v, tags) \<longrightarrow> tag \<notin> set tags))"
  using assms(1) [unfolded cistern_ok_def, THEN conjunct2, THEN conjunct2, rule_format, OF assms(2)] by simp

definition coherent :: "('c \<Rightarrow> string \<Rightarrow> (task list \<times> string list) option) \<Rightarrow> memory_store \<Rightarrow> 'c \<Rightarrow> bool" where
  "coherent held s c \<longleftrightarrow>
     (\<forall>u l f sts prs v tags. key_safe u sts prs \<and>
        held c (cacheKeyString (newCacheKey u l f sts prs)) = Some (v, tags) \<longrightarrow>
        userTag u \<in> set tags \<and> v = window l f (sort_key task_key (mem_matching u sts prs s)))"

lemma coherent_mono: "coherent held s c \<Longrightarrow> held c' \<subseteq>\<^sub>m held c \<Longrightarrow> coherent held s c'"
  unfolding coherent_def map_le_def by (metis domI)

text \<open>A listing depends on the sets of the filter values only.\<close>

lemma mem_matching_set_cong:
  "set sts = set sts' \<Longrightarrow> set prs = set prs' \<Longrightarrow> mem_matching u sts prs s = mem_matching u sts' prs' s"
proof -
  assume "set sts = set sts'" "set prs = set prs'"
  then have "selected u sts prs = selected u sts' prs'"
    by (auto simp: selected_def passes_def fun_eq_iff)
  then show ?thesis by (simp add: mem_matching_filter)
qed

lemma coherent_fill:
  assumes "coherent held s c" and "key_safe u sts prs"
    and "held c' \<subseteq>\<^sub>m (held c)(cacheKeyString (newCacheKey u l f sts prs) \<mapsto>
          (window l f (sort_key task_key (mem_matching u sts prs s)), cacheKeyTag (newCacheKey u l f sts prs)))"
  shows "coherent held s c'"
  unfolding coherent_def
proof (intro allI impI, elim conjE)
  fix u' l' f' sts' prs' v tags
  assume safe: "key_safe u' sts' prs'" and h: "held c' (cacheKeyString (newCacheKey u' l' f' sts' prs')) = Some (v, tags)"
  show "userTag u' \<in> set tags \<and> v = window l' f' (sort_key task_key (mem_matching u' sts' prs' s))"
  proof (cases "cacheKeyString (newCacheKey u' l' f' sts' prs') = cacheKeyString (newCacheKey u l f sts prs)")
    case True
    from cacheKeyString_inject [OF safe assms(2) True]
    have same: "u' = u" "l' = l" "f' = f" "set sts' = set sts" "set prs' = set prs" by auto
    from h True assms(3) have "v = window l f (sort_key task_key (mem_matching u sts prs s))"
      "tags = cacheKeyTag (newCacheKey u l f sts prs)" unfolding map_le_def by (fastforce dest: bspec)+
    with same mem_matching_set_cong [OF same(4,5)] show ?thesis
      by (simp add: cacheKeyTag_def newCacheKey_def)
  next
    case False
    with h assms(3) have "held c (cacheKeyString (newCacheKey u' l' f' sts' prs')) = Some (v, tags)"
      unfolding map_le_def by (fastforce dest: bspec)
    with assms(1) safe show ?thesis unfolding coherent_def by blast
  qed
qed

text \<open>A write of one user leaves every listing of another user as it was.\<close>

lemma mem_listing_cong:
  assumes "mem_inv s" and "mem_inv s'" and "\<And>k t. t_UserID t = v \<Longrightarrow> map_of s' k = Some t \<longleftrightarrow> map_of s k = Some t"
  shows "sort_key task_key (mem_matching v sts prs s') = sort_key task_key (mem_matching v sts prs s)"
proof -
  have "is_listing (map_of s') v sts prs xs = is_listing (map_of s) v sts prs xs" for xs
  proof -
    have "{t \<in> ran (map_of s'). selected v sts prs t} = {t \<in> ran (map_of s). selected v sts prs t}"
      using assms(3) by (auto simp: selected_def ran_def)
    then show ?thesis by (simp add: is_listing_def)
  qed
  then show ?thesis
    using is_listing_memory [OF assms(1)] is_listing_memory [OF assms(2)]
      is_listing_unique [OF mem.keyed [OF assms(1)]] by metis
qed

lemma mem_writes_foreign:
  "mem_Create c t s = (r, s') \<Longrightarrow> t_UserID x \<noteq> t_UserID t \<Longrightarrow> map_of s' k = Some x \<longleftrightarrow> map_of s k = Some x"
  "mem_Update c t s = (r, s') \<Longrightarrow> t_UserID x \<noteq> t_UserID t \<Longrightarrow> map_of s' k = Some x \<longleftrightarrow> map_of s k = Some x"
  "mem_Delete c i u s = (r, s') \<Longrightarrow> t_UserID x \<noteq> u \<Longrightarrow> map_of s' k = Some x \<longleftrightarrow> map_of s k = Some x"
  by (auto simp: mem_defs gomap_simps split: option.splits if_splits)

lemma mem_writes_inv:
  "mem_inv s \<Longrightarrow> mem_Create c t s = (r, s') \<Longrightarrow> mem_inv s'"
  "mem_inv s \<Longrightarrow> mem_Update c t s = (r, s') \<Longrightarrow> mem_inv s'"
  "mem_inv s \<Longrightarrow> mem_Delete c i u s = (r, s') \<Longrightarrow> mem_inv s'"
  using mem.create [of s c t r s'] mem.update [of s c t r s'] mem.delete [of s c i u r s'] by simp_all

lemma mem_failed_write:
  "mem_Create c t s = (Inl e, s') \<Longrightarrow> s' = s"
  "mem_Update c t s = (Inl e, s') \<Longrightarrow> s' = s"
  "mem_Delete c i u s = (Inl e, s') \<Longrightarrow> s' = s"
  by (auto simp: mem_defs split: option.splits if_splits)

subsection \<open>Cached listings are fresh\<close>

datatype repo_call =
    RCreate ctx_state task
  | RUpdate ctx_state task
  | RDelete ctx_state string string
  | RList ctx_state string int nat "status list" "priority list"
  | RFind ctx_state string string

fun repo_step :: "'s task_repo \<Rightarrow> repo_call \<Rightarrow> 's \<Rightarrow> 's" where
  "repo_step repo (RCreate ctx t) s = snd (r_Create repo ctx t s)"
| "repo_step repo (RUpdate ctx t) s = snd (r_Update repo ctx t s)"
| "repo_step repo (RDelete ctx i u) s = snd (r_Delete repo ctx i u s)"
| "repo_step repo (RList ctx u l f sts prs) s = snd (r_FindAll repo ctx u l f sts prs s)"
| "repo_step repo (RFind ctx i u) s = snd (r_FindByID repo ctx i u s)"

fun rcall_ok :: "repo_call \<Rightarrow> bool" where
  "rcall_ok (RList ctx u l f sts prs) = key_safe u sts prs"
| "rcall_ok _ = True"

lemma lift_write_coherent:
  assumes "cistern_ok C held" and "\<forall>ctx tag c. fst (cis_invalidate C ctx tag c) = None"
    and "mem_inv s" and "coherent held s c" and "f s = (r, s')" and "mem_inv s'"
    and "\<And>e. r = Inl e \<Longrightarrow> s' = s"
    and "\<And>k t. t_UserID t \<noteq> owner \<Longrightarrow> map_of s' k = Some t \<longleftrightarrow> map_of s k = Some t"
  shows "coherent held (fst (snd (lift_write C ctx owner f (s, c)))) (snd (snd (lift_write C ctx owner f (s, c))))"
proof (cases r)
  case (Inl e)
  with assms(4,5,7) show ?thesis by (simp add: lift_write_def)
next
  case (Inr x)
  obtain e c' where inval: "cis_invalidate C ctx (userTag owner) c = (e, c')" by fastforce
  with assms(2) have "e = None" by (metis fst_conv)
  then have c': "held c' \<subseteq>\<^sub>m held c" "\<And>k v tags. held c' k = Some (v, tags) \<Longrightarrow> userTag owner \<notin> set tags"
    using cistern_ok_invalidate [OF assms(1) inval] by simp_all
  note old = coherent_mono [OF assms(4) c'(1)]
  have "coherent held s' c'"
    unfolding coherent_def
  proof (intro allI impI, elim conjE)
    fix u l f sts prs v tags
    assume a: "key_safe u sts prs" "held c' (cacheKeyString (newCacheKey u l f sts prs)) = Some (v, tags)"
    with old have v: "userTag u \<in> set tags" "v = window l f (sort_key task_key (mem_matching u sts prs s))"
      unfolding coherent_def by blast+
    with c'(2) [OF a(2)] have "u \<noteq> owner" by blast
    then have "sort_key task_key (mem_matching u sts prs s') = sort_key task_key (mem_matching u sts prs s)"
      using mem_listing_cong [OF assms(3,6), of u] assms(8) by blast
    with v show "userTag u \<in> set tags \<and> v = window l f (sort_key task_key (mem_matching u sts prs s'))" by simp
  qed
  with Inr assms(5) inval show ?thesis by (simp add: lift_write_def invalidateOwner_def)
qed

text \<open>A page read through a coherent cache is the page the store would give.\<close>

lemma cached_FindAll_coherent:
  assumes "cistern_ok C held" and "coherent held s c" and "key_safe u sts prs"
    and run: "cached_FindAll C memoryRepository ctx u l f sts prs (s, c) = (r, sc')"
  shows "fst sc' = s \<and> coherent held s (snd sc') \<and>
    (r = Inr (window l f (sort_key task_key (mem_matching u sts prs s))) \<or> (\<exists>e. r = Inl e \<and> infra_error e))"
proof -
  let ?k = "newCacheKey u l f sts prs"
  obtain g c1 where g: "cis_get C ctx (cacheKeyString ?k) c = (g, c1)" by fastforce
  have c1: "held c1 \<subseteq>\<^sub>m held c" "\<And>v. g = Inr (Some v) \<Longrightarrow> \<exists>tags. held c (cacheKeyString ?k) = Some (v, tags)"
    "\<And>e. g = Inl e \<Longrightarrow> infra_error e"
    using cistern_ok_get [OF assms(1) g] by simp_all
  note coh = coherent_mono [OF assms(2) c1(1)]
  consider (err) e where "g = Inl e" | (hit) v where "g = Inr (Some v)" | (miss) "g = Inr None"
    by (metis option.exhaust sumE)
  then show ?thesis
  proof cases
    case err
    with run g coh c1(3) show ?thesis by (auto simp: cached_FindAll_def GetOrLoad_def)
  next
    case hit
    with c1(2) assms(2,3) have "v = window l f (sort_key task_key (mem_matching u sts prs s))"
      unfolding coherent_def by blast
    with hit run g coh show ?thesis by (auto simp: cached_FindAll_def GetOrLoad_def)
  next
    case miss
    show ?thesis
    proof (cases "ctx = Live")
      case True
      let ?v = "window l f (sort_key task_key (mem_matching u sts prs s))"
      have "held (cis_put C (cacheKeyString ?k) (cacheKeyTag ?k) ?v c1) \<subseteq>\<^sub>m
        (held c1)(cacheKeyString ?k \<mapsto> (?v, cacheKeyTag ?k))"
        using assms(1) by (rule cistern_ok_put)
      from coherent_fill [OF coh assms(3) this] show ?thesis
        using run g miss True by (auto simp: cached_FindAll_def GetOrLoad_def mem_FindAll_spec)
    next
      case False
      with ctx_Live_or_done obtain e where "ctx_Err ctx = Some e" "infra_error e" by blast
      with run g miss coh show ?thesis by (auto simp: cached_FindAll_def GetOrLoad_def mem_done)
    qed
  qed
qed

lemma cached_step_coherent:
  assumes "cistern_ok C held" and "\<forall>ctx tag c. fst (cis_invalidate C ctx tag c) = None"
    and "mem_inv s" and "coherent held s c" and "rcall_ok call"
    and step: "repo_step (CachedRepository C memoryRepository) call (s, c) = (s', c')"
  shows "mem_inv s' \<and> coherent held s' c'"
proof (cases call)
  case (RCreate ctx t)
  obtain r s1 where w: "mem_Create ctx t s = (r, s1)" by fastforce
  have "coherent held (fst (snd (cached_Create C memoryRepository ctx t (s, c)))) (snd (snd (cached_Create C memoryRepository ctx t (s, c))))"
    unfolding cached_Create_def memoryRepository_sel
    by (rule lift_write_coherent [where f = "mem_Create ctx t", OF assms(1-4) w mem_writes_inv(1) [OF assms(3) w] _
          mem_writes_foreign(1) [OF w]]) (use w mem_failed_write(1) in auto)
  with step RCreate w show ?thesis
    using mem_writes_inv(1) [OF assms(3) w] by (auto simp: cached_Create_def lift_write_def split: sum.splits)
next
  case (RUpdate ctx t)
  obtain r s1 where w: "mem_Update ctx t s = (r, s1)" by fastforce
  have "coherent held (fst (snd (cached_Update C memoryRepository ctx t (s, c)))) (snd (snd (cached_Update C memoryRepository ctx t (s, c))))"
    unfolding cached_Update_def memoryRepository_sel
    by (rule lift_write_coherent [where f = "mem_Update ctx t", OF assms(1-4) w mem_writes_inv(2) [OF assms(3) w] _
          mem_writes_foreign(2) [OF w]]) (use w mem_failed_write(2) in auto)
  with step RUpdate w show ?thesis
    using mem_writes_inv(2) [OF assms(3) w] by (auto simp: cached_Update_def lift_write_def split: sum.splits)
next
  case (RDelete ctx i u)
  obtain r s1 where w: "mem_Delete ctx i u s = (r, s1)" by fastforce
  have "coherent held (fst (snd (cached_Delete C memoryRepository ctx i u (s, c)))) (snd (snd (cached_Delete C memoryRepository ctx i u (s, c))))"
    unfolding cached_Delete_def memoryRepository_sel
    by (rule lift_write_coherent [where f = "mem_Delete ctx i u", OF assms(1-4) w mem_writes_inv(3) [OF assms(3) w] _
          mem_writes_foreign(3) [OF w]]) (use w mem_failed_write(3) in auto)
  with step RDelete w show ?thesis
    using mem_writes_inv(3) [OF assms(3) w] by (auto simp: cached_Delete_def lift_write_def split: sum.splits)
next
  case (RList ctx u l f sts prs)
  obtain r sc where w: "cached_FindAll C memoryRepository ctx u l f sts prs (s, c) = (r, sc)" by (metis surj_pair)
  from cached_FindAll_coherent [OF assms(1,4) _ w] RList assms(3,5) step w show ?thesis by auto
next
  case (RFind ctx i u)
  have "snd (mem_FindByID ctx i u s) = s"
    by (simp add: mem_FindByID_def split: option.split)
  with RFind step assms(3,4) show ?thesis by (simp add: cached_FindByID_def lift_read_def split_beta)
qed

text \<open>
  C7. The cache is transparent: from an empty cache, after any sequence of repository calls whose
  invalidations the cache carried out, a listing read through the cache, hit or miss, is exactly the
  listing the store itself would give at that moment, for every user, filter and page, even though writes retire
  only their owner's entries and filters in a different order share one entry.
\<close>

theorem cached_lists_are_fresh:
  assumes "cistern_ok C held" and "\<forall>ctx tag c. fst (cis_invalidate C ctx tag c) = None"
    and "mem_inv s" and "held c = Map.empty" and "\<forall>call \<in> set calls. rcall_ok call" and "key_safe u sts prs"
    and "fold (repo_step (CachedRepository C memoryRepository)) calls (s, c) = (s', c')"
    and "r_FindAll (CachedRepository C memoryRepository) ctx u l f sts prs (s', c') = (Inr ts, sc)"
  shows "r_FindAll memoryRepository Live u l f sts prs s' = (Inr ts, s') \<and> fst sc = s'"
proof -
  have "coherent held s c" using assms(4) by (simp add: coherent_def)
  with assms(3,5,7) have "mem_inv s' \<and> coherent held s' c'"
  proof (induction calls arbitrary: s c)
    case (Cons call calls)
    obtain s1 c1 where 1: "repo_step (CachedRepository C memoryRepository) call (s, c) = (s1, c1)" by fastforce
    from cached_step_coherent [OF assms(1,2) Cons.prems(1,4) _ 1] Cons.prems(2)
    have "mem_inv s1" "coherent held s1 c1" by simp_all
    with Cons.IH [of s1 c1] Cons.prems(2,3) 1 show ?case by simp
  qed simp
  then have coh: "coherent held s' c'" by blast
  from assms(8) have "cached_FindAll C memoryRepository ctx u l f sts prs (s', c') = (Inr ts, sc)" by simp
  from cached_FindAll_coherent [OF assms(1) coh assms(6) this] show ?thesis by (simp add: mem_FindAll_spec)
qed

text \<open>
  A write that fails does not retire anything: if the database applied it and lost the answer, the cached pages
  stay until they expire.
\<close>

lemma failed_write_keeps_cache:
  "cached_Update C next ctx t (s, c) = (Inl e, (s', c')) \<Longrightarrow> c' = c"
  by (auto simp: cached_Update_def lift_write_def split: sum.splits prod.splits)

subsection \<open>A concrete cache\<close>

type_synonym demo_cache = "string \<Rightarrow> (task list \<times> string list) option"

definition demo_cistern :: "demo_cache cistern" where
  "demo_cistern = \<lparr>
     cis_get = (\<lambda>ctx k c. (Inr (map_option fst (c k)), c)),
     cis_put = (\<lambda>k tags v c. c(k \<mapsto> (v, tags))),
     cis_invalidate = (\<lambda>ctx tag c. (None, \<lambda>k. case c k of Some (v, tags) \<Rightarrow> if tag \<in> set tags then None else Some (v, tags)
       | None \<Rightarrow> None)) \<rparr>"

lemma demo_cistern_ok: "cistern_ok demo_cistern (\<lambda>c. c)"
  by (auto simp: cistern_ok_def demo_cistern_def map_le_def split: option.splits if_splits)

theorem cached_lists_are_fresh_witness:
  "fst (r_FindAll (CachedRepository demo_cistern memoryRepository) Live demo_ann 20 0 [] []
     (fold (repo_step (CachedRepository demo_cistern memoryRepository))
        [RList Live demo_ann 20 0 [] [], RCreate Live demo_row] ([], Map.empty))) = Inr [demo_row]"
proof -
  let ?calls = "[RList Live demo_ann 20 0 [] [], RCreate Live demo_row]"
  let ?R = "CachedRepository demo_cistern memoryRepository"
  obtain s' c' where run: "fold (repo_step ?R) ?calls ([], Map.empty) = (s', c')" by fastforce
  then have s': "s' = [(demo_id, demo_row)]"
    by (auto simp: cached_FindAll_def GetOrLoad_def cached_Create_def lift_write_def demo_cistern_def mem_FindAll_spec
        mem_Create_def demo_row_def demo_task_def)
  have safe: "key_safe demo_ann [] []" by (simp add: key_safe_def demo_ann_def)
  have inv: "mem_inv []" by (simp add: mem_inv_def keyed_def)
  have ok: "\<forall>ctx tag c. fst (cis_invalidate demo_cistern ctx tag c) = None" by (simp add: demo_cistern_def)
  have calls: "\<forall>call \<in> set ?calls. rcall_ok call" using safe by simp
  obtain r sc where read: "r_FindAll ?R Live demo_ann 20 0 [] [] (s', c') = (r, sc)" by (metis surj_pair)
  obtain ts where ts: "r = Inr ts"
    using read by (auto simp: cached_FindAll_def GetOrLoad_def demo_cistern_def mem_FindAll_spec split: option.splits)
  from cached_lists_are_fresh [OF demo_cistern_ok ok inv refl calls safe run read [unfolded ts]]
  have "r_FindAll memoryRepository Live demo_ann 20 0 [] [] s' = (Inr ts, s')" by blast
  moreover have "r_FindAll memoryRepository Live demo_ann 20 0 [] [] s' = (Inr [demo_row], s')"
    by (simp add: s' mem_FindAll_spec window_def demo_row_def passes_def)
  ultimately have "ts = [demo_row]" by simp
  with run read ts show ?thesis by (simp only: fst_conv)
qed

end
