(* ===== verification/TaskGuarantees.thy ===== *)
theory TaskGuarantees
  imports TaskConcurrency
begin

text \<open>
  What each operation of the task service does, on every branch, over the in-memory store: the lifecycle
  of a task, paging, counting and exporting, identifiers, filters, and the round trip of a creation. The facts are the ones
  proved for any store that meets the contract of the interface, at the in-memory one.
\<close>

subsection \<open>The lifecycle\<close>

definition lifecycle :: "(string \<times> string) set" where
  "lifecycle = {(''pending'', ''in_progress''), (''pending'', ''done''), (''pending'', ''cancelled''),
     (''in_progress'', ''pending''), (''in_progress'', ''done''), (''in_progress'', ''cancelled''),
     (''done'', ''pending''), (''done'', ''in_progress''), (''cancelled'', ''pending'')}"

lemma legal_lifecycle: "legal a b \<longleftrightarrow> (a, b) \<in> lifecycle"
  by (auto simp: legal_def legalTransitions_def lifecycle_def status_defs split: if_splits)

text \<open>
  C8. \<^verbatim>\<open>TransitionStatus\<close>, completely, for a valid identifier and a known target: 'not found' for a task
  that does not exist or belongs to someone else; the task as it is when it already has the status; the invalid transition
  error with nothing changed when the lifecycle forbids the move; otherwise the task with the new status and
  update time is returned, and stored with its version raised by one and nothing else changed.
\<close>

theorem transition_behaviour:
  assumes "mem_inv s" and "isValidID i" and "target \<in> {''pending'', ''in_progress'', ''done'', ''cancelled''}"
    and "TransitionStatus lib memoryRepository live now u i target s = (r, s')"
  shows "case map_of s i of
      None \<Rightarrow> r = Inl (WrapPre ''transition status'' (Sentinel TErrNotFound)) \<and> map_of s' = map_of s
    | Some t \<Rightarrow>
        if t_UserID t \<noteq> u then r = Inl (WrapPre ''transition status'' (Sentinel TErrNotFound)) \<and> map_of s' = map_of s
        else if t_Status t = target then r = Inr t \<and> map_of s' = map_of s
        else if (t_Status t, target) \<notin> lifecycle
        then (\<exists>m. r = Inl (WrapPost (Sentinel TErrInvalidTransition) m)) \<and> map_of s' = map_of s
        else r = Inr (t\<lparr>t_Status := target, t_UpdatedAt := now\<rparr>) \<and>
          map_of s' = (map_of s)(i \<mapsto> t\<lparr>t_Status := target, t_UpdatedAt := now, t_Version := t_Version t + 1\<rparr>)"
proof -
  have "target \<in> set all_statuses" using assms(3) by (simp add: all_statuses_def status_defs)
  from mem.TransitionStatus_live [OF assms(1) _ _ assms(2) this assms(4)] show ?thesis
    by (simp add: spec_FindByID_def legal_lifecycle split: option.splits if_splits)
qed

text \<open>
  \<^verbatim>\<open>CompleteTask\<close> is idempotent: completing a task that an earlier call completed returns the task
  as it is stored and changes nothing, whatever the clock says.
\<close>

theorem complete_twice:
  assumes "mem_inv s" and "CompleteTask lib memoryRepository live now u i s = (Inr t, s1)"
    and "CompleteTask lib memoryRepository live now' u i s1 = (r, s2)"
  shows "map_of s2 = map_of s1 \<and> (\<exists>t1. r = Inr t1 \<and> map_of s1 i = Some t1 \<and> t_Status t1 = ''done'')"
proof -
  have sd: "StatusDone \<in> set all_statuses" "StatusDone = ''done''" by (simp_all add: all_statuses_def status_defs)
  from assms(2) have 1: "TransitionStatus lib memoryRepository live now u i StatusDone s = (Inr t, s1)"
    by (auto simp: CompleteTask_def split: sum.splits prod.splits)
  then have valid: "isValidID i" by (auto simp: TransitionStatus_def split: if_splits)
  have inv1: "mem_inv s1"
    using mem.TransitionStatus_step [OF assms(1) _ _ 1] by simp
  from mem.TransitionStatus_live [OF assms(1) _ _ valid sd(1) 1]
  obtain t1 where t1: "map_of s1 i = Some t1" "t_UserID t1 = u" "t_Status t1 = StatusDone"
    by (auto simp: spec_FindByID_def split: option.splits if_splits sum.splits)
  obtain r0 s0 where 2: "TransitionStatus lib memoryRepository live now' u i StatusDone s1 = (r0, s0)" by fastforce
  from mem.TransitionStatus_live [OF inv1 _ _ valid sd(1) 2] t1
  have "r0 = Inr t1 \<and> map_of s0 = map_of s1" by (simp add: spec_FindByID_def)
  with 2 assms(3) t1 sd(2) show ?thesis by (auto simp: CompleteTask_def)
qed

subsection \<open>Listing, counting, exporting\<close>

text \<open>Consecutive windows of one size put together are the list.\<close>

lemma windows_tile: "concat (map (\<lambda>k. window (int n) (k * n) xs) [0..<m]) = take (m * n) xs"
proof (induction m)
  case (Suc m)
  have "take (Suc m * n) xs = take (m * n) xs @ take n (drop (m * n) xs)"
    by (metis take_add mult_Suc add.commute)
  with Suc show ?case by (simp add: window_def)
qed simp

text \<open>
  C9. Paging loses nothing and repeats nothing: reading the pages of any positive size one after the other until
  the reported total is reached gives exactly the user's tasks that pass the filters, each once, ordered by creation time
  and then by identifier; every page reports the same total, which is their number.
\<close>

theorem pages_tile_the_listing:
  assumes "mem_inv s" and "validateStatusFilters sts = Inr st" and "validatePriorityFilters prs = Inr p"
  shows "\<exists>xs. sorted (map (\<lambda>t. (t_CreatedAt t, t_ID t)) xs) \<and> distinct xs \<and>
     set xs = {t \<in> ran (map_of s). t_UserID t = u \<and> (st = [] \<or> t_Status t \<in> set st) \<and> (p = [] \<or> t_Priority t \<in> set p)} \<and>
     (\<forall>n m. length xs \<le> m * n \<longrightarrow>
        (\<exists>pages. (\<forall>k < m. fst (ListTasks memoryRepository live u (int n) (k * n) sts prs s) = Inr (pages k, int (length xs))) \<and>
          concat (map pages [0..<m]) = xs))"
proof -
  obtain xs where xs: "is_listing (map_of s) u st p xs"
    using mem.ListTasks_live [OF assms(1) _ assms(2,3)] by blast
  have page: "fst (ListTasks memoryRepository live u l f sts prs s) = Inr (window l f xs, int (length xs))" for l f
    using mem.ListTasks_live [OF assms(1) _ assms(2,3), of u l f] is_listing_unique [OF mem.keyed [OF assms(1)] xs]
    by auto
  have "\<exists>pages. (\<forall>k < m. fst (ListTasks memoryRepository live u (int n) (k * n) sts prs s) = Inr (pages k, int (length xs))) \<and>
      concat (map pages [0..<m]) = xs" if "length xs \<le> m * n" for n m
    by (rule exI [of _ "\<lambda>k. window (int n) (k * n) xs"]) (use page windows_tile [of n xs m] that in auto)
  moreover have "sorted (map (\<lambda>t. (t_CreatedAt t, t_ID t)) xs)" "distinct xs"
    "set xs = {t \<in> ran (map_of s). t_UserID t = u \<and> (st = [] \<or> t_Status t \<in> set st) \<and> (p = [] \<or> t_Priority t \<in> set p)}"
    using xs by (auto simp: is_listing_def selected_def passes_def task_key_def [abs_def])
  ultimately show ?thesis by blast
qed

text \<open>
  The three summaries of a filter agree: the total and the per-status and per-priority counts of
  \<^verbatim>\<open>TaskStats\<close> are the numbers of the tasks \<^verbatim>\<open>ListTasks\<close> reports and pages, every status and priority has its
  entry even at zero; and \<^verbatim>\<open>ExportTasks\<close> gives all of those tasks in the same order, or, when there are more than ten
  thousand, none of them and an input error.
\<close>

theorem summaries_agree:
  assumes "mem_inv s" and "validateStatusFilters sts = Inr st" and "validatePriorityFilters prs = Inr p"
  shows "\<exists>xs q. fst (ListTasks memoryRepository live u (-1) 0 sts prs s) = Inr (xs, int (length xs)) \<and>
     fst (TaskStats memoryRepository live u sts prs s) = Inr q \<and> st_Total q = int (length xs) \<and>
     (\<forall>x \<in> {''pending'', ''in_progress'', ''done'', ''cancelled''}.
        map_of (st_ByStatus q) x = Some (int (length (filter (\<lambda>t. t_Status t = x) xs)))) \<and>
     (\<forall>x \<in> {''low'', ''medium'', ''high''}.
        map_of (st_ByPriority q) x = Some (int (length (filter (\<lambda>t. t_Priority t = x) xs)))) \<and>
     (if length xs \<le> 10000 then fst (ExportTasks memoryRepository live u sts prs s) = Inr xs
      else \<exists>m. fst (ExportTasks memoryRepository live u sts prs s) = Inl (WrapPost (Sentinel TErrInvalidInput) m))"
proof -
  obtain xs where xs: "is_listing (map_of s) u st p xs"
    and list: "fst (ListTasks memoryRepository live u (-1) 0 sts prs s) = Inr (window (-1) 0 xs, int (length xs))"
    using mem.ListTasks_live [OF assms(1) _ assms(2,3)] by blast
  note uniq = is_listing_unique [OF mem.keyed [OF assms(1)] xs]
  obtain q where q: "fst (TaskStats memoryRepository live u sts prs s) = Inr q" "st_Total q = int (length xs)"
    "counts_of all_statuses t_Status xs (st_ByStatus q)" "counts_of all_priorities t_Priority xs (st_ByPriority q)"
    using mem.TaskStats_live [OF assms(1) _ assms(2,3), of u] uniq by blast
  have "if int (length xs) \<le> maxExportRows then fst (ExportTasks memoryRepository live u sts prs s) = Inr xs
      else \<exists>m. fst (ExportTasks memoryRepository live u sts prs s) = Inl (invalidInput m)"
    using mem.ExportTasks_live [OF assms(1) _ assms(2,3), of u] uniq by blast
  then have ex: "if length xs \<le> 10000 then fst (ExportTasks memoryRepository live u sts prs s) = Inr xs
      else \<exists>m. fst (ExportTasks memoryRepository live u sts prs s) = Inl (WrapPost (Sentinel TErrInvalidInput) m)"
    by (simp add: maxExportRows_def split: if_splits)
  have "map_of (st_ByStatus q) x = Some (int (length (filter (\<lambda>t. t_Status t = x) xs)))"
    if "x \<in> {''pending'', ''in_progress'', ''done'', ''cancelled''}" for x
    using q(3) that by (auto simp: counts_of_def all_statuses_def status_defs)
  moreover have "map_of (st_ByPriority q) x = Some (int (length (filter (\<lambda>t. t_Priority t = x) xs)))"
    if "x \<in> {''low'', ''medium'', ''high''}" for x
    using q(4) that by (auto simp: counts_of_def all_priorities_def priority_defs)
  ultimately show ?thesis using list q(1,2) ex by (intro exI [of _ xs] exI [of _ q]) (simp add: window_def)
qed

subsection \<open>Identifiers and filters\<close>

lemma byte_fixed_bits:
  fixes x y :: "8 word"
  shows "(x AND 0x0f) OR 0x40 = (y AND 0x0f) OR 0x40 \<Longrightarrow> x AND 0x0f = y AND 0x0f"
    and "(x AND 0x3f) OR 0x80 = (y AND 0x3f) OR 0x80 \<Longrightarrow> x AND 0x3f = y AND 0x3f"
proof -
  have "((z AND 0x0f) OR 0x40) AND 0x0f = z AND 0x0f" for z :: "8 word"
    by (simp add: bit.conj_disj_distrib2 and.assoc)
  then show "(x AND 0x0f) OR 0x40 = (y AND 0x0f) OR 0x40 \<Longrightarrow> x AND 0x0f = y AND 0x0f" by metis
  have "((z AND 0x3f) OR 0x80) AND 0x3f = z AND 0x3f" for z :: "8 word"
    by (simp add: bit.conj_disj_distrib2 and.assoc)
  then show "(x AND 0x3f) OR 0x80 = (y AND 0x3f) OR 0x80 \<Longrightarrow> x AND 0x3f = y AND 0x3f" by metis
qed

text \<open>
  Identifiers are well formed and as random as their source: sixteen random bytes always give an
  identifier in the canonical lower-case form that the service's own check accepts; and two draws give the same
  identifier only if they agree on all 122 bits that the version and variant do not fix.
\<close>

theorem new_ids_valid_and_distinct:
  assumes "length b = 16" and "length c = 16"
  shows "(\<exists>i. newID (Inr b) = Inr i \<and> isValidID i \<and> map ascii_lower i = i) \<and>
    (newID (Inr b) = newID (Inr c) \<longrightarrow>
       (\<forall>k < 16. k \<noteq> 6 \<and> k \<noteq> 8 \<longrightarrow> b ! k = c ! k) \<and>
       b ! 6 AND 0x0f = c ! 6 AND 0x0f \<and> b ! 8 AND 0x3f = c ! 8 AND 0x3f)"
proof (intro conjI impI newID_isValidID assms(1))
  assume "newID (Inr b) = newID (Inr c)"
  then have eq: "stamp b = stamp c" using newID_inject assms by blast
  have at: "stamp x ! k = (if k = 6 then (x ! 6 AND 0x0f) OR 0x40 else if k = 8 then (x ! 8 AND 0x3f) OR 0x80 else x ! k)"
    if "length x = 16" "k < 16" for x k
    using that by (simp add: stamp_def Let_def nth_list_update)
  show "\<forall>k < 16. k \<noteq> 6 \<and> k \<noteq> 8 \<longrightarrow> b ! k = c ! k"
    using at [OF assms(1)] at [OF assms(2)] eq by (metis (full_types))
  show "b ! 6 AND 0x0f = c ! 6 AND 0x0f" "b ! 8 AND 0x3f = c ! 8 AND 0x3f"
    using at [OF assms(1), of 6] at [OF assms(2), of 6] at [OF assms(1), of 8] at [OF assms(2), of 8] eq
    by (auto intro: byte_fixed_bits)
qed

text \<open>
  The filters that reach the store, and with them the placeholders of the SQL text, are bounded by
  the vocabulary: an accepted status filter is the set of the non-empty values given, each once and at
  most four; it is refused, with an input error, exactly when there are more than fifty values or one of them is
  unknown.
\<close>

theorem status_filter_bounded:
  "case validateStatusFilters raws of
     Inr st \<Rightarrow> distinct st \<and> length st \<le> 4 \<and> set st = set raws - {''''} \<and>
       set st \<subseteq> {''pending'', ''in_progress'', ''done'', ''cancelled''} \<and> length raws \<le> 50
   | Inl e \<Rightarrow> errors_Is e TErrInvalidInput \<and>
       (50 < length raws \<or> (\<exists>x \<in> set raws. x \<notin> {'''', ''pending'', ''in_progress'', ''done'', ''cancelled''}))"
proof (cases "validateStatusFilters raws")
  case (Inl e)
  with validateStatusFilters_Inl [OF Inl] show ?thesis
    by (auto simp: maxFilterValues_def all_statuses_def status_defs)
next
  case (Inr st)
  from validateStatusFilters_Inr [OF Inr]
  have st: "distinct st" "set st = set raws - {''''}" "set st \<subseteq> set all_statuses" by auto
  then have "card (set st) \<le> card (set all_statuses)" by (intro card_mono) simp_all
  moreover have "card (set all_statuses) \<le> 4" using card_length [of all_statuses] by simp
  ultimately have "length st \<le> 4" using distinct_card [OF st(1)] by simp
  moreover have "length raws \<le> 50" using Inr by (simp add: validateStatusFilters_def maxFilterValues_def split: if_splits)
  ultimately show ?thesis using st Inr by (simp add: all_statuses_def status_defs)
qed

subsection \<open>Creation\<close>

text \<open>
  Create then read: when \<^verbatim>\<open>CreateTask\<close> succeeds, the task it returns is pending, belongs to the caller, carries
  the validated title and description and, if none was asked for, medium priority; its owner reads back that
  task with version 1, and any other user is told there is no such task.
\<close>

theorem create_then_get:
  assumes "mem_inv s" and "length rnd = 16"
    and "CreateTask lib memoryRepository live now (Inr rnd) u ti de pr s = (Inr t, s')"
  shows "t_Status t = ''pending'' \<and> t_UserID t = u \<and> t_CreatedAt t = now \<and> t_UpdatedAt t = now \<and>
    validateTitleAndDescription lib ti de = Inr (t_Title t, t_Description t) \<and>
    (if pr = '''' then t_Priority t = ''medium'' else t_Priority t = pr) \<and>
    map_of s (t_ID t) = None \<and>
    fst (GetTask memoryRepository live u (t_ID t) s') = Inr (t\<lparr>t_Version := 1\<rparr>) \<and>
    (v \<noteq> u \<longrightarrow> fst (GetTask memoryRepository live v (t_ID t) s') = Inl (WrapPre ''get task'' (Sentinel TErrNotFound)))"
proof -
  from assms(3) obtain title desc p i where v: "validateTitleAndDescription lib ti de = Inr (title, desc)"
      "validatePriority pr PriorityMedium = Inr p" "newID (Inr rnd) = Inr i"
    and t: "t = \<lparr>t_ID = i, t_Title = title, t_Description = desc, t_Status = StatusPending, t_Priority = p,
        t_CreatedAt = now, t_UpdatedAt = now, t_UserID = u, t_Version = 0\<rparr>"
    and c: "mem_Create Live t s = (Inr (), s')"
    by (auto simp: CreateTask_def Let_def split: sum.splits prod.splits)
  have "isValidID i" using newID_isValidID [OF assms(2)] v(3) by simp
  moreover have "map_of s i = None" "map_of s' i = Some (t\<lparr>t_Version := 1\<rparr>)"
    using c t by (auto simp: mem_Create_def gomap_simps split: option.splits)
  moreover have "if pr = '''' then p = ''medium'' else p = pr"
    using v(2) by (auto simp: validatePriority_def priority_defs split: if_splits)
  ultimately show ?thesis
    using v t by (simp add: GetTask_def mem_FindByID_def StatusPending_def)
qed

subsection \<open>Concrete inputs\<close>

lemma demo_store_inv: "mem_inv [(demo_id, demo_task)]"
  by (simp add: mem_inv_def keyed_def demo_task_def)

theorem transition_behaviour_witness:
  "map_of (snd (TransitionStatus demo_lib memoryRepository live 7 ''ann'' demo_id ''done'' [(demo_id, demo_task)])) demo_id =
     Some (demo_task\<lparr>t_Status := ''done'', t_UpdatedAt := 7, t_Version := 2\<rparr>)"
proof -
  obtain r s' where run: "TransitionStatus demo_lib memoryRepository live 7 ''ann'' demo_id ''done'' [(demo_id, demo_task)] = (r, s')"
    by fastforce
  have "''done'' \<in> {''pending'', ''in_progress'', ''done'', ''cancelled''}" by simp
  from transition_behaviour [OF demo_store_inv demo_id_valid this run] run show ?thesis
    by (simp add: demo_task_def lifecycle_def)
qed

theorem complete_twice_witness:
  "map_of (snd (CompleteTask demo_lib memoryRepository live 9 ''ann'' demo_id
     (snd (CompleteTask demo_lib memoryRepository live 7 ''ann'' demo_id [(demo_id, demo_task)])))) =
   map_of (snd (CompleteTask demo_lib memoryRepository live 7 ''ann'' demo_id [(demo_id, demo_task)]))"
proof -
  have legal: "legal ''pending'' ''done''" by (simp add: legal_lifecycle lifecycle_def)
  have 1: "CompleteTask demo_lib memoryRepository live 7 ''ann'' demo_id [(demo_id, demo_task)] =
      (Inr (demo_task\<lparr>t_Status := ''done'', t_UpdatedAt := 7\<rparr>),
       [(demo_id, demo_task\<lparr>t_Status := ''done'', t_UpdatedAt := 7, t_Version := 2\<rparr>)])"
    using demo_id_valid legal
    by (simp add: CompleteTask_def TransitionStatus_def mem_FindByID_def mem_Update_def demo_task_def
        all_statuses_def status_defs)
  obtain r s2 where 2: "CompleteTask demo_lib memoryRepository live 9 ''ann'' demo_id
      [(demo_id, demo_task\<lparr>t_Status := ''done'', t_UpdatedAt := 7, t_Version := 2\<rparr>)] = (r, s2)" by fastforce
  from complete_twice [OF demo_store_inv 1 2] 1 2 show ?thesis by simp
qed

lemma demo_filters: "validateStatusFilters [''pending''] = Inr [''pending'']" "validatePriorityFilters [] = Inr []"
  by (simp_all add: validateStatusFilters_def validatePriorityFilters_def maxFilterValues_def all_statuses_def status_defs)

theorem pages_tile_the_listing_witness:
  "fst (ListTasks memoryRepository live ''ann'' 1 0 [''pending''] [] [(demo_id, demo_task)]) = Inr ([demo_task], 1)"
proof -
  from pages_tile_the_listing [OF demo_store_inv demo_filters, of "''ann''"] obtain xs where
    xs: "distinct xs" "set xs = {t \<in> ran (map_of [(demo_id, demo_task)]). t_UserID t = ''ann'' \<and>
        ([''pending''] = [] \<or> t_Status t \<in> set [''pending'']) \<and> ([] = [] \<or> t_Priority t \<in> set [])}"
    and tile: "\<forall>n m. length xs \<le> m * n \<longrightarrow> (\<exists>pages. (\<forall>k < m. fst (ListTasks memoryRepository live ''ann'' (int n) (k * n)
        [''pending''] [] [(demo_id, demo_task)]) = Inr (pages k, int (length xs))) \<and> concat (map pages [0..<m]) = xs)"
    by blast
  have "t_UserID demo_task = ''ann''" "t_Status demo_task = ''pending''" by (simp_all add: demo_task_def)
  then have "set xs = {demo_task}" unfolding xs(2) by auto
  with xs(1) have one: "xs = [demo_task]"
    by (cases xs; cases "tl xs") auto
  then have "length xs \<le> 1 * 1" by simp
  with tile obtain pages where "\<forall>k < 1. fst (ListTasks memoryRepository live ''ann'' (int 1) (k * 1)
        [''pending''] [] [(demo_id, demo_task)]) = Inr (pages k, int (length xs))" "concat (map pages [0..<1]) = xs"
    by blast
  with one show ?thesis by simp
qed

theorem summaries_agree_witness:
  "\<exists>xs q. fst (ListTasks memoryRepository live ''ann'' (-1) 0 [''pending''] [] [(demo_id, demo_task)]) = Inr (xs, int (length xs)) \<and>
     fst (TaskStats memoryRepository live ''ann'' [''pending''] [] [(demo_id, demo_task)]) = Inr q \<and>
     st_Total q = int (length xs) \<and> map_of (st_ByStatus q) ''done'' = Some (int (length (filter (\<lambda>t. t_Status t = ''done'') xs)))"
  using summaries_agree [OF demo_store_inv demo_filters, of "''ann''"] by fastforce

theorem new_ids_valid_and_distinct_witness:
  "isValidID demo_id \<and> newID (Inr demo_bytes) \<noteq> newID (Inr (replicate 16 0))"
proof -
  have "length demo_bytes = 16" "length (replicate 16 (0 :: 8 word)) = 16" by (simp_all add: demo_bytes_def)
  note ids = new_ids_valid_and_distinct [OF this]
  have "demo_bytes ! 1 \<noteq> replicate 16 (0 :: 8 word) ! 1" by (simp add: demo_bytes_def)
  with ids show ?thesis by (auto simp: demo_newID dest: spec [of _ 1])
qed

theorem create_then_get_witness:
  "fst (GetTask memoryRepository live ''ann'' demo_id [(demo_id, demo_task)]) = Inr demo_task"
proof -
  have run: "CreateTask demo_lib memoryRepository live 5 (Inr demo_bytes) ''ann'' '' Buy milk '' ''two litres'' '''' [] =
      (Inr (demo_task\<lparr>t_Version := 0\<rparr>), [(demo_id, demo_task)])"
    by (simp add: CreateTask_def demo_newID demo_validate validatePriority_def
      mem_Create_def demo_task_def status_defs priority_defs)
  have "mem_inv []" "length demo_bytes = 16" by (simp_all add: mem_inv_def keyed_def demo_bytes_def)
  from create_then_get [OF this run] show ?thesis by (simp add: demo_task_def)
qed

end
