(* ===== verification/LoginBackoff.thy ===== *)
theory LoginBackoff
  imports GoPrelude
begin

text \<open>
  \<^verbatim>\<open>internal/user/login_backoff.go\<close>: consecutive failures per account and the delay they cost. The clock is
  an argument of each operation; the delay is computed on 64-bit integers, as \<^verbatim>\<open>time.Duration\<close> is, with
  Go's shift (zero from 64 places on).
\<close>

unbundle bit_operations_syntax

definition loginBackoffThreshold :: nat where
  "loginBackoffThreshold = 3"

definition loginBackoffBase :: duration where
  "loginBackoffBase = 250 * Millisecond"

definition loginBackoffCap :: duration where
  "loginBackoffCap = 4 * Second"

definition loginBackoffIdleReset :: duration where
  "loginBackoffIdleReset = 15 * Minute"

record loginBackoffEntry =
  lb_failures :: nat
  lb_lastAttempt :: time

type_synonym loginBackoff = "(string, loginBackoffEntry) gomap"

text \<open>\<^verbatim>\<open>loginBackoffBase << shift\<close> on an int64.\<close>

definition shl64 :: "int \<Rightarrow> nat \<Rightarrow> int" where
  "shl64 x n = sint (push_bit n (word_of_int x :: 64 word))"

definition lb_delay :: "time \<Rightarrow> string \<Rightarrow> loginBackoff \<Rightarrow> duration \<times> loginBackoff" where
  "lb_delay now email b =
     (case map_of b email of
        None \<Rightarrow> (0, b)
      | Some entry \<Rightarrow>
          if now - lb_lastAttempt entry > loginBackoffIdleReset then (0, AList.delete email b)
          else if lb_failures entry < loginBackoffThreshold then (0, b)
          else let shift = lb_failures entry - loginBackoffThreshold;
                   d = shl64 loginBackoffBase shift
               in if d > loginBackoffCap \<or> d \<le> 0 then (loginBackoffCap, b) else (d, b))"

definition lb_recordFailure :: "time \<Rightarrow> string \<Rightarrow> loginBackoff \<Rightarrow> loginBackoff" where
  "lb_recordFailure now email b =
     (let entry = (case map_of b email of
            None \<Rightarrow> \<lparr>lb_failures = 0, lb_lastAttempt = 0\<rparr>
          | Some entry \<Rightarrow>
              if now - lb_lastAttempt entry > loginBackoffIdleReset
              then \<lparr>lb_failures = 0, lb_lastAttempt = 0\<rparr> else entry)
      in AList.update email (entry\<lparr>lb_failures := lb_failures entry + 1, lb_lastAttempt := now\<rparr>) b)"

definition lb_recordSuccess :: "string \<Rightarrow> loginBackoff \<Rightarrow> loginBackoff" where
  "lb_recordSuccess email b = AList.delete email b"

definition lb_sweep :: "time \<Rightarrow> loginBackoff \<Rightarrow> loginBackoff" where
  "lb_sweep now b = range_delete (\<lambda>email entry. now - lb_lastAttempt entry > loginBackoffIdleReset) b"

lemmas lb_consts = loginBackoffThreshold_def loginBackoffBase_def loginBackoffCap_def loginBackoffIdleReset_def
  duration_defs

subsection \<open>The curve\<close>

text \<open>What the comment promises: nothing for the first failures, then doubling from the base up to the cap.\<close>

definition curve :: "nat \<Rightarrow> duration" where
  "curve failures = (if failures < 3 then 0 else min 4000000000 (250000000 * 2 ^ (failures - 3)))"

lemma shl64_signed: "shl64 x n = signed_take_bit 63 (x * 2 ^ n)"
proof -
  have "push_bit n (word_of_int x :: 64 word) = word_of_int (x * 2 ^ n)"
    by (simp add: push_bit_eq_mult)
  then show ?thesis unfolding shl64_def by (simp only: sint_sbintrunc') simp
qed

lemma shl64_exact: "0 \<le> x \<Longrightarrow> x * 2 ^ n < 2 ^ 63 \<Longrightarrow> shl64 x n = x * 2 ^ n"
  unfolding shl64_signed by (rule signed_take_bit_int_eq_self) (auto intro: order_trans [of _ 0])

text \<open>The bits shifted in are zero, whatever is lost at the top.\<close>

lemma shl64_dvd:
  assumes "2 ^ k dvd x" and "k + n \<le> 64"
  shows "2 ^ (k + n) dvd shl64 x n"
proof -
  have "(2 ^ (k + n) :: int) dvd x * 2 ^ n"
    using assms(1) by (simp add: power_add mult_dvd_mono)
  moreover have "(2 ^ (k + n) :: int) dvd 2 ^ 64" using assms(2) by (rule le_imp_power_dvd)
  ultimately show ?thesis
    unfolding shl64_signed signed_take_bit_eq_take_bit_minus take_bit_eq_mod
    by (simp add: dvd_mod dvd_diff)
qed

lemma shift_capped:
  "(let d = shl64 loginBackoffBase n in if d > loginBackoffCap \<or> d \<le> 0 then loginBackoffCap else d) =
     min 4000000000 (250000000 * 2 ^ n)"
proof (cases "n \<le> 30")
  case True
  then have "(2 ^ n :: int) \<le> 2 ^ 30" by (rule power_increasing) simp
  then have "shl64 loginBackoffBase n = 250000000 * 2 ^ n"
    by (subst shl64_exact) (simp_all add: lb_consts)
  then show ?thesis by (simp add: lb_consts min_def)
next
  case False
  then have big: "(2 ^ 30 :: int) \<le> 2 ^ n" by (intro power_increasing) auto
  have "shl64 loginBackoffBase n \<le> 0 \<or> shl64 loginBackoffBase n > loginBackoffCap"
  proof (cases "n \<le> 57")
    case True
    have "(2 ^ 7 :: int) dvd loginBackoffBase" by (simp add: lb_consts)
    from shl64_dvd [OF this, of n] True have "(2 ^ (7 + n) :: int) dvd shl64 loginBackoffBase n" by simp
    then have "shl64 loginBackoffBase n \<le> 0 \<or> 2 ^ (7 + n) \<le> shl64 loginBackoffBase n"
      using zdvd_imp_le by fastforce
    moreover have "(2 ^ 37 :: int) \<le> 2 ^ (7 + n)" using False by (intro power_increasing) auto
    ultimately show ?thesis by (auto simp: lb_consts)
  next
    case False
    have "(2 ^ 64 :: int) dvd loginBackoffBase * 2 ^ n"
    proof -
      have "(2 ^ 7 * 2 ^ n :: int) dvd loginBackoffBase * 2 ^ n" by (intro mult_dvd_mono) (simp_all add: lb_consts)
      moreover have "(2 ^ 64 :: int) dvd 2 ^ 7 * 2 ^ n"
        using False by (subst power_add [symmetric]) (rule le_imp_power_dvd, simp)
      ultimately show ?thesis by (rule dvd_trans [rotated])
    qed
    then have "signed_take_bit 63 (loginBackoffBase * 2 ^ n) = 0"
      by (auto simp: signed_take_bit_eq_take_bit_shift elim!: dvdE) (simp add: take_bit_eq_mod)
    then show ?thesis by (simp add: shl64_signed)
  qed
  with big show ?thesis by (auto simp: Let_def lb_consts min_def)
qed

text \<open>The whole of \<^verbatim>\<open>delay\<close>: the curve at the number of failures the account is still held to.\<close>

definition held_failures :: "time \<Rightarrow> string \<Rightarrow> loginBackoff \<Rightarrow> nat" where
  "held_failures now email b =
     (case map_of b email of
        None \<Rightarrow> 0
      | Some entry \<Rightarrow> if now - lb_lastAttempt entry > loginBackoffIdleReset then 0 else lb_failures entry)"

lemma lb_delay_curve: "fst (lb_delay now email b) = curve (held_failures now email b)"
proof (cases "map_of b email")
  case None
  then show ?thesis by (simp add: lb_delay_def held_failures_def curve_def)
next
  case (Some entry)
  with shift_capped [of "lb_failures entry - 3"] show ?thesis
    by (auto simp: lb_delay_def held_failures_def curve_def loginBackoffThreshold_def Let_def split: if_splits)
qed

text \<open>
  C13. The delay of a login attempt is the documented curve for every number of failures: nothing below three,
  then 250ms doubling with each failure, never more than four seconds; computed on wrapping 64-bit
  integers, with no count for which an overflow would shorten it.
\<close>

theorem backoff_delay_is_capped_curve:
  "fst (lb_delay now email b) =
     (case map_of b email of
        None \<Rightarrow> 0
      | Some entry \<Rightarrow>
          if now - lb_lastAttempt entry > 900000000000 \<or> lb_failures entry < 3 then 0
          else min 4000000000 (250000000 * 2 ^ (lb_failures entry - 3)))"
  unfolding lb_delay_curve
  by (auto simp: held_failures_def curve_def lb_consts split: option.split)

subsection \<open>Histories\<close>

lemma held_failures_failure:
  "held_failures now' e (lb_recordFailure now email b) =
     (if e = email then if now' - now > loginBackoffIdleReset then 0 else held_failures now email b + 1
      else held_failures now' e b)"
  by (simp add: held_failures_def lb_recordFailure_def Let_def gomap_simps split: option.split)

lemma held_failures_success:
  "held_failures now e (lb_recordSuccess email b) = (if e = email then 0 else held_failures now e b)"
  by (simp add: held_failures_def lb_recordSuccess_def gomap_simps)

text \<open>A run of failures, each at most fifteen minutes after the one before.\<close>

fun fail_at :: "string \<Rightarrow> time list \<Rightarrow> loginBackoff \<Rightarrow> loginBackoff" where
  "fail_at email [] b = b"
| "fail_at email (t # ts) b = fail_at email ts (lb_recordFailure t email b)"

fun close_times :: "time \<Rightarrow> time list \<Rightarrow> time \<Rightarrow> bool" where
  "close_times t0 [] now = (now - t0 \<le> loginBackoffIdleReset)"
| "close_times t0 (t # ts) now = (t - t0 \<le> loginBackoffIdleReset \<and> close_times t ts now)"

lemma fail_at_other: "e \<noteq> email \<Longrightarrow> held_failures now e (fail_at email ts b) = held_failures now e b"
  by (induction email ts b rule: fail_at.induct) (auto simp: held_failures_failure)

lemma fail_at_held:
  "close_times t ts now \<Longrightarrow>
   held_failures now email (fail_at email (t # ts) b) = held_failures t email b + length (t # ts)"
proof (induction ts arbitrary: t b)
  case Nil
  then show ?case by (simp add: held_failures_failure)
next
  case (Cons t' ts)
  from Cons.IH [of t' "lb_recordFailure t email b"] Cons.prems show ?case
    by (simp add: held_failures_failure)
qed

text \<open>
  What an account pays, from its history: after a successful login, a run of failures each within
  fifteen minutes of the last makes the next attempt wait the curve at exactly the length of the run, while no other
  account's delay changes; and the periodic sweep changes nobody's delay at any later moment.
\<close>

theorem backoff_follows_history:
  assumes "close_times t ts now" and "gomap_wf b"
  shows "fst (lb_delay now email (fail_at email (t # ts) (lb_recordSuccess email b))) = curve (length (t # ts)) \<and>
    (\<forall>other. other \<noteq> email \<longrightarrow>
       fst (lb_delay now other (fail_at email (t # ts) (lb_recordSuccess email b))) = fst (lb_delay now other b)) \<and>
    (\<forall>later e. now \<le> later \<longrightarrow> fst (lb_delay later e (lb_sweep now b)) = fst (lb_delay later e b))"
proof (intro conjI allI impI)
  show "fst (lb_delay now email (fail_at email (t # ts) (lb_recordSuccess email b))) = curve (length (t # ts))"
    unfolding lb_delay_curve fail_at_held [OF assms(1)] by (simp add: held_failures_success)
  show "fst (lb_delay now other (fail_at email (t # ts) (lb_recordSuccess email b))) = fst (lb_delay now other b)"
    if "other \<noteq> email" for other
    unfolding lb_delay_curve fail_at_other [OF that] using that by (simp add: held_failures_success)
  show "fst (lb_delay later e (lb_sweep now b)) = fst (lb_delay later e b)" if "now \<le> later" for later e
    unfolding lb_delay_curve using that assms(2)
    by (simp add: held_failures_def lb_sweep_def gomap_simps split: option.split)
qed

theorem backoff_follows_history_witness:
  "fst (lb_delay 40 ''ann'' (fail_at ''ann'' [10, 20, 30] [])) = 250000000"
proof -
  have "close_times 10 [20, 30] 40" by (simp add: lb_consts)
  from backoff_follows_history [OF this, of "[]" "''ann''"] show ?thesis
    by (simp add: lb_recordSuccess_def curve_def)
qed

end
