(* ===== verification/UserModel.thy ===== *)
theory UserModel
  imports GoStrings LoginBackoff
begin

text \<open>
  The data of \<^verbatim>\<open>internal/user\<close> (\<^verbatim>\<open>user.go\<close>, \<^verbatim>\<open>errors.go\<close>, \<^verbatim>\<open>repository.go\<close>) and the rules for
  passwords (\<^verbatim>\<open>password_strength.go\<close>, \<^verbatim>\<open>validatePassword\<close>) and addresses. The validator of addresses of the
  \<^verbatim>\<open>moat\<close> library and the Unicode case table are arguments.
\<close>

record user =
  u_ID :: string
  u_Email :: string
  u_CreatedAt :: time
  u_UpdatedAt :: time
  u_PasswordHash :: string

record session =
  sn_TokenHash :: string
  sn_UserID :: string
  sn_ExpiresAt :: time
  sn_CreatedAt :: time

datatype user_err =
    UErrNotFound | UErrAlreadyExists | UErrInvalidInput | UErrInvalidCredentials
  | UErrDependencyUnavailable | UErrUnavailable | UContextCanceled | UContextDeadlineExceeded
  | UBreakerErrOpenState | UBreakerErrTooManyRequests | USqlErrNoRows | UDriverErrBadConn

text \<open>The texts of the sentinels; those of the breaker library are an argument.\<close>

fun user_err_text :: "(user_err \<Rightarrow> string) \<Rightarrow> user_err \<Rightarrow> string" where
  "user_err_text lib UErrNotFound = ''user not found''"
| "user_err_text lib UErrAlreadyExists = ''user already exists''"
| "user_err_text lib UErrInvalidInput = ''invalid input''"
| "user_err_text lib UErrInvalidCredentials = ''invalid email or password''"
| "user_err_text lib UErrDependencyUnavailable = ''dependency unavailable''"
| "user_err_text lib UErrUnavailable = ''database unavailable''"
| "user_err_text lib UContextCanceled = ''context canceled''"
| "user_err_text lib UContextDeadlineExceeded = ''context deadline exceeded''"
| "user_err_text lib UBreakerErrOpenState = lib UBreakerErrOpenState"
| "user_err_text lib UBreakerErrTooManyRequests = lib UBreakerErrTooManyRequests"
| "user_err_text lib USqlErrNoRows = ''sql: no rows in result set''"
| "user_err_text lib UDriverErrBadConn = ''driver: bad connection''"

type_synonym uerr = "user_err gerr"
type_synonym 'a ures = "(user_err, 'a) res"

datatype uctx = ULive | UCanceled | UDeadline

fun uctx_Err :: "uctx \<Rightarrow> uerr option" where
  "uctx_Err ULive = None"
| "uctx_Err UCanceled = Some (Sentinel UContextCanceled)"
| "uctx_Err UDeadline = Some (Sentinel UContextDeadlineExceeded)"

text \<open>The Repository interface of the package.\<close>

record 's user_repo =
  ur_CreateUser :: "uctx \<Rightarrow> user \<Rightarrow> (user_err, unit, 's) op"
  ur_FindUserByEmail :: "uctx \<Rightarrow> string \<Rightarrow> (user_err, user, 's) op"
  ur_FindUserByID :: "uctx \<Rightarrow> string \<Rightarrow> (user_err, user, 's) op"
  ur_UpdateUserPassword :: "uctx \<Rightarrow> time \<Rightarrow> string \<Rightarrow> string \<Rightarrow> (user_err, unit, 's) op"
  ur_DeleteUser :: "uctx \<Rightarrow> string \<Rightarrow> (user_err, unit, 's) op"
  ur_CreateSession :: "uctx \<Rightarrow> session \<Rightarrow> nat \<Rightarrow> (user_err, unit, 's) op"
  ur_FindSessionByTokenHash :: "uctx \<Rightarrow> string \<Rightarrow> (user_err, session, 's) op"
  ur_DeleteSession :: "uctx \<Rightarrow> string \<Rightarrow> (user_err, unit, 's) op"
  ur_FindSessionsForUser :: "uctx \<Rightarrow> string \<Rightarrow> (user_err, session list, 's) op"
  ur_DeleteSessionsForUser :: "uctx \<Rightarrow> string \<Rightarrow> (user_err, unit, 's) op"
  ur_DeleteSessionsForUserExcept :: "uctx \<Rightarrow> string \<Rightarrow> string \<Rightarrow> (user_err, unit, 's) op"
  ur_DeleteExpiredSessions :: "uctx \<Rightarrow> time \<Rightarrow> (user_err, unit, 's) op"

subsection \<open>Passwords\<close>

definition minPasswordLen :: nat where "minPasswordLen = 8"
definition maxPasswordLen :: nat where "maxPasswordLen = 72"
definition maxEmailLen :: nat where "maxEmailLen = 320"

definition commonWeakPasswords :: "string list" where
  "commonWeakPasswords = [
    ''123456'', ''password'', ''12345678'', ''qwerty'', ''123456789'', ''12345'', ''1234'', ''111111'',
     ''1234567'', ''dragon'', ''123123'', ''baseball'', ''iloveyou'', ''trustno1'', ''1234567890'',
     ''sunshine'', ''master'', ''123321'', ''letmein'', ''696969'', ''shadow'', ''michael'', ''superman'',
     ''1qaz2wsx'', ''7777777'', ''121212'', ''000000'', ''qazwsx'', ''123qwe'', ''killer'', ''jordan'',
     ''jennifer'', ''hunter'', ''buster'', ''soccer'', ''harley'', ''batman'', ''andrew'', ''tigger'',
     ''charlie'', ''robert'', ''thomas'', ''hockey'', ''ranger'', ''daniel'', ''starwars'', ''112233'',
     ''george'', ''computer'', ''michelle'', ''jessica'', ''pepper'', ''1111'', ''zxcvbn'', ''555555'',
     ''11111111'', ''131313'', ''freedom'', ''777777'', ''pass'', ''maggie'', ''159753'', ''aaaaaa'',
     ''ginger'', ''princess'', ''joshua'', ''cheese'', ''amanda'', ''summer'', ''ashley'', ''6969'', ''nicole'',
     ''chelsea'', ''biteme'', ''matthew'', ''access'', ''yankees'', ''987654321'', ''dallas'', ''austin'',
     ''thunder'', ''taylor'', ''matrix'', ''mustang'', ''ninja'', ''welcome'', ''welcome1'', ''admin'',
     ''administrator'', ''admin123'', ''root'', ''toor'', ''changeme'', ''letmein1'', ''password1'',
     ''passw0rd'', ''p@ssw0rd'', ''passw0rd!'', ''password1!'', ''qwerty123'', ''qwertyuiop'', ''1q2w3e4r'',
     ''1q2w3e4r5t'', ''zaq1zaq1'', ''aa123456'', ''asdfghjkl'', ''abc12345'', ''abcd1234'', ''1qaz2wsx3edc'',
     ''iloveyou1'', ''whatever'', ''trustme'', ''letmein123'', ''changeme123'', ''temppass'', ''temp123'',
     ''guest'', ''guest123'', ''test123'', ''testing'', ''default'', ''default123'', ''incorrect'',
     ''wordpass'', ''mypassword'', ''mypassword1'', ''hello123'', ''hello1'', ''welcome123'', ''abc123'',
     ''monkey'', ''football'', ''jesus'', ''flower'', ''hottie'', ''loveme'', ''biteme1'', ''sunshine1'']"

definition isCommonWeakPassword :: "(nat \<Rightarrow> string) \<Rightarrow> string \<Rightarrow> bool" where
  "isCommonWeakPassword ulower password = (ToLower ulower password \<in> set commonWeakPasswords)"

text \<open>The loop over \<^verbatim>\<open>runes[1:]\<close> against \<^verbatim>\<open>runes[0]\<close>.\<close>

fun repeated_loop :: "nat \<Rightarrow> nat list \<Rightarrow> bool" where
  "repeated_loop r0 [] = True"
| "repeated_loop r0 (r # rs) = (if r \<noteq> r0 then False else repeated_loop r0 rs)"

definition isSingleRepeatedRune :: "string \<Rightarrow> bool" where
  "isSingleRepeatedRune password = (case runes password of [] \<Rightarrow> True | r0 # rs \<Rightarrow> repeated_loop r0 rs)"

fun sequential_loop :: "nat \<Rightarrow> nat list \<Rightarrow> bool \<Rightarrow> bool \<Rightarrow> bool \<times> bool" where
  "sequential_loop prev [] ascending descending = (ascending, descending)"
| "sequential_loop prev (r # rs) ascending descending =
     (let delta = int r - int prev
      in sequential_loop r rs (if delta \<noteq> 1 then False else ascending) (if delta \<noteq> -1 then False else descending))"

definition isSequentialRun :: "string \<Rightarrow> bool" where
  "isSequentialRun password =
     (case runes password of
        [] \<Rightarrow> False
      | [r] \<Rightarrow> False
      | r0 # rs \<Rightarrow> (case sequential_loop r0 rs True True of (ascending, descending) \<Rightarrow> ascending \<or> descending))"

abbreviation uinvalidInput :: "string \<Rightarrow> uerr" where
  "uinvalidInput msg \<equiv> WrapPost (Sentinel UErrInvalidInput) msg"

definition em_dash :: string where
  "em_dash = [CHR 0xE2, CHR 0x80, CHR 0x94]"

definition validatePassword :: "(nat \<Rightarrow> string) \<Rightarrow> string \<Rightarrow> uerr option" where
  "validatePassword ulower password =
     (if length password < minPasswordLen
      then Some (uinvalidInput (''password must be at least '' @ Itoa (int minPasswordLen) @ '' characters''))
      else if length password > maxPasswordLen
      then Some (uinvalidInput (''password must be at most '' @ Itoa (int maxPasswordLen) @ '' characters''))
      else if isCommonWeakPassword ulower password
      then Some (uinvalidInput (''password is too common '' @ em_dash @
             '' choose one that isn'' @ [CHR 0x27] @ ''t on a list of frequently used passwords''))
      else if isSingleRepeatedRune password \<or> isSequentialRun password
      then Some (uinvalidInput ''password is too predictable (repeated or sequential characters)'')
      else None)"

subsection \<open>Addresses\<close>

definition normalizeEmail :: "(nat \<Rightarrow> string) \<Rightarrow> string \<Rightarrow> string" where
  "normalizeEmail ulower email = ToLower ulower (TrimSpace email)"

text \<open>
  \<open>check\<close> is \<^verbatim>\<open>validate.Validate("email", email, Required(), Email(), MaxLen(320))\<close>: the text of the
  constraint that failed, if one did.
\<close>

definition validateEmail :: "(nat \<Rightarrow> string) \<Rightarrow> (string \<Rightarrow> string option) \<Rightarrow> string \<Rightarrow> string ures" where
  "validateEmail ulower check email0 =
     (let email = normalizeEmail ulower email0
      in case check email of
           Some msg \<Rightarrow> Inl (uinvalidInput msg)
         | None \<Rightarrow> Inr email)"

subsection \<open>What a password that passes is\<close>

lemma repeated_loop_iff: "repeated_loop r rs \<longleftrightarrow> rs = replicate (length rs) r"
  by (induction rs) auto

lemma isSingleRepeatedRune_iff: "isSingleRepeatedRune p \<longleftrightarrow> (\<exists>r n. runes p = replicate n r)"
proof (cases "runes p")
  case Nil
  then show ?thesis by (auto simp: isSingleRepeatedRune_def intro: exI [of _ 0])
next
  case (Cons r0 rs)
  have "(\<exists>r n. r0 # rs = replicate n r) \<longleftrightarrow> rs = replicate (length rs) r0"
  proof
    assume "\<exists>r n. r0 # rs = replicate n r"
    then obtain r n where "r0 # rs = replicate n r" by blast
    then show "rs = replicate (length rs) r0" by (cases n) auto
  next
    assume "rs = replicate (length rs) r0"
    then have "r0 # rs = replicate (Suc (length rs)) r0" by simp
    then show "\<exists>r n. r0 # rs = replicate n r" by blast
  qed
  with Cons show ?thesis by (simp add: isSingleRepeatedRune_def repeated_loop_iff)
qed

text \<open>The flags of the loop: every step up by one, every step down by one.\<close>

lemma sequential_loop_iff:
  "sequential_loop p rs a d =
     (a \<and> (\<forall>i < length rs. int ((p # rs) ! Suc i) = int ((p # rs) ! i) + 1),
      d \<and> (\<forall>i < length rs. int ((p # rs) ! Suc i) = int ((p # rs) ! i) - 1))"
proof (induction rs arbitrary: p a d)
  case (Cons r rs)
  have all: "(\<forall>i < length (r # rs). P i) \<longleftrightarrow> P 0 \<and> (\<forall>i < length rs. P (Suc i))" for P
    by (auto simp: less_Suc_eq_0_disj)
  show ?case unfolding all by (auto simp: Cons Let_def)
qed simp

lemma isSequentialRun_iff:
  "isSequentialRun p \<longleftrightarrow> length (runes p) \<ge> 2 \<and>
     ((\<forall>i. Suc i < length (runes p) \<longrightarrow> runes p ! Suc i = runes p ! i + 1) \<or>
      (\<forall>i. Suc i < length (runes p) \<longrightarrow> runes p ! i = runes p ! Suc i + 1))"
proof -
  consider "runes p = []" | r where "runes p = [r]" | r r' rs where "runes p = r # r' # rs"
    by (metis neq_Nil_conv)
  then show ?thesis
  proof cases
    case (3 r r' rs)
    let ?l = "r # r' # rs"
    have up: "(int (?l ! Suc i) = int (?l ! i) + 1) = (?l ! Suc i = ?l ! i + 1)"
      and down: "(int (?l ! Suc i) = int (?l ! i) - 1) = (?l ! i = ?l ! Suc i + 1)" for i
      by linarith+
    have "isSequentialRun p \<longleftrightarrow> (\<forall>i < length (r' # rs). ?l ! Suc i = ?l ! i + 1) \<or> (\<forall>i < length (r' # rs). ?l ! i = ?l ! Suc i + 1)"
      unfolding isSequentialRun_def 3 list.case sequential_loop_iff prod.case up down by simp
    then show ?thesis unfolding 3 by simp
  qed (simp_all add: isSequentialRun_def)
qed

text \<open>
  Which passwords are accepted, against a definition by what the text is: between 8 and 72 bytes, not on the
  list of common passwords in any letter case, not one character repeated, and not a run of consecutive code points up or
  down. Everything else is refused with an input error.
\<close>

theorem accepted_passwords:
  "(validatePassword ulower p = None \<longleftrightarrow>
      8 \<le> length p \<and> length p \<le> 72 \<and> ToLower ulower p \<notin> set commonWeakPasswords \<and>
      (\<nexists>r n. runes p = replicate n r) \<and>
      \<not> (2 \<le> length (runes p) \<and>
          ((\<forall>i. Suc i < length (runes p) \<longrightarrow> runes p ! Suc i = runes p ! i + 1) \<or>
           (\<forall>i. Suc i < length (runes p) \<longrightarrow> runes p ! i = runes p ! Suc i + 1)))) \<and>
   (\<forall>e. validatePassword ulower p = Some e \<longrightarrow> errors_Is e UErrInvalidInput)"
  unfolding isSingleRepeatedRune_iff [symmetric] isSequentialRun_iff [symmetric]
  by (auto simp: validatePassword_def minPasswordLen_def maxPasswordLen_def isCommonWeakPassword_def)

lemma demo_password_runes:
  "runes ''correct horse'' = [99, 111, 114, 114, 101, 99, 116, 32, 104, 111, 114, 115, 101]"
  by (simp add: runes_def go_eval)

theorem accepted_passwords_witness: "validatePassword (\<lambda>_. []) ''correct horse'' = None"
proof -
  have low: "ToLower (\<lambda>_. []) ''correct horse'' = ''correct horse''"
    by (simp add: ToLower_def ascii_lower_def)
  have "''correct horse'' \<notin> set commonWeakPasswords" by (simp add: commonWeakPasswords_def)
  moreover have "runes ''correct horse'' \<noteq> replicate n r" for r n
  proof
    assume eq: "runes ''correct horse'' = replicate n r"
    then have "99 = r" "111 = r"
      unfolding demo_password_runes by (metis in_set_replicate list.set_intros)+
    then show False by simp
  qed
  moreover have "\<not> (\<forall>i. Suc i < length (runes ''correct horse'') \<longrightarrow>
      runes ''correct horse'' ! Suc i = runes ''correct horse'' ! i + 1)"
    "\<not> (\<forall>i. Suc i < length (runes ''correct horse'') \<longrightarrow>
      runes ''correct horse'' ! i = runes ''correct horse'' ! Suc i + 1)"
    unfolding demo_password_runes by (auto intro!: exI [of _ 0])
  ultimately show ?thesis
    using accepted_passwords [of "\<lambda>_. []" "''correct horse''"] low by auto
qed

end
