(* ===== verification/UserMemory.thy ===== *)
theory UserMemory
  imports UserModel
begin

text \<open>
  \<^verbatim>\<open>internal/user/memory_repository.go\<close>: three maps, users by identifier, identifiers by address, sessions by
  token hash. The mutex makes each method one atomic step. \<^verbatim>\<open>sort.Slice\<close> is a stable sort of the order in
  which the loop over the map found the sessions; that order is the list's, which the theorems leave open. The
  cap on sessions comes from the configuration, which refuses values below one.
\<close>

record user_mem =
  um_usersByID :: "(string, user) gomap"
  um_usersByEmail :: "(string, string) gomap"
  um_sessions :: "(string, session) gomap"

definition um_New :: user_mem where
  "um_New = \<lparr>um_usersByID = [], um_usersByEmail = [], um_sessions = []\<rparr>"

text \<open>\<^verbatim>\<open>if err := ctx.Err(); err != nil { return err }\<close>\<close>

definition unless_done :: "uctx \<Rightarrow> (user_err, 'a, user_mem) op \<Rightarrow> (user_err, 'a, user_mem) op" where
  "unless_done ctx f s = (case uctx_Err ctx of Some err \<Rightarrow> (Inl err, s) | None \<Rightarrow> f s)"

definition um_CreateUser :: "uctx \<Rightarrow> user \<Rightarrow> (user_err, unit, user_mem) op" where
  "um_CreateUser ctx u = unless_done ctx (\<lambda>s.
     if map_of (um_usersByEmail s) (u_Email u) \<noteq> None then (Inl (Sentinel UErrAlreadyExists), s)
     else (Inr (), s\<lparr>um_usersByID := AList.update (u_ID u) u (um_usersByID s),
                     um_usersByEmail := AList.update (u_Email u) (u_ID u) (um_usersByEmail s)\<rparr>))"

text \<open>A missing key of \<^verbatim>\<open>usersByID\<close> reads as the zero \<^verbatim>\<open>User\<close>.\<close>

definition zero_user :: user where
  "zero_user = \<lparr>u_ID = '''', u_Email = '''', u_CreatedAt = 0, u_UpdatedAt = 0, u_PasswordHash = ''''\<rparr>"

definition um_FindUserByEmail :: "uctx \<Rightarrow> string \<Rightarrow> (user_err, user, user_mem) op" where
  "um_FindUserByEmail ctx email = unless_done ctx (\<lambda>s.
     case map_of (um_usersByEmail s) email of
       None \<Rightarrow> (Inl (Sentinel UErrNotFound), s)
     | Some i \<Rightarrow> (Inr (case map_of (um_usersByID s) i of Some u \<Rightarrow> u | None \<Rightarrow> zero_user), s))"

definition um_FindUserByID :: "uctx \<Rightarrow> string \<Rightarrow> (user_err, user, user_mem) op" where
  "um_FindUserByID ctx i = unless_done ctx (\<lambda>s.
     case map_of (um_usersByID s) i of
       None \<Rightarrow> (Inl (Sentinel UErrNotFound), s)
     | Some u \<Rightarrow> (Inr u, s))"

definition um_UpdateUserPassword :: "uctx \<Rightarrow> time \<Rightarrow> string \<Rightarrow> string \<Rightarrow> (user_err, unit, user_mem) op" where
  "um_UpdateUserPassword ctx now i passwordHash = unless_done ctx (\<lambda>s.
     case map_of (um_usersByID s) i of
       None \<Rightarrow> (Inl (Sentinel UErrNotFound), s)
     | Some u \<Rightarrow> (Inr (), s\<lparr>um_usersByID :=
         AList.update i (u\<lparr>u_PasswordHash := passwordHash, u_UpdatedAt := now\<rparr>) (um_usersByID s)\<rparr>))"

definition um_DeleteUser :: "uctx \<Rightarrow> string \<Rightarrow> (user_err, unit, user_mem) op" where
  "um_DeleteUser ctx i = unless_done ctx (\<lambda>s.
     case map_of (um_usersByID s) i of
       None \<Rightarrow> (Inl (Sentinel UErrNotFound), s)
     | Some u \<Rightarrow> (Inr (), s\<lparr>um_usersByID := AList.delete i (um_usersByID s),
                               um_usersByEmail := AList.delete (u_Email u) (um_usersByEmail s)\<rparr>))"

text \<open>The sessions of one user, as a loop over the map finds them.\<close>

definition sessions_of :: "string \<Rightarrow> (string, session) gomap \<Rightarrow> session list" where
  "sessions_of userID m = filter (\<lambda>sess. sn_UserID sess = userID) (gomap_values m)"

definition um_CreateSession :: "uctx \<Rightarrow> session \<Rightarrow> nat \<Rightarrow> (user_err, unit, user_mem) op" where
  "um_CreateSession ctx sess maxSessions = unless_done ctx (\<lambda>s.
     let sessions = AList.update (sn_TokenHash sess) sess (um_sessions s);
         mine = sessions_of (sn_UserID sess) sessions
     in if length mine \<le> maxSessions then (Inr (), s\<lparr>um_sessions := sessions\<rparr>)
        else let victims = take (length mine - maxSessions) (sort_key sn_CreatedAt mine)
             in (Inr (), s\<lparr>um_sessions := fold (\<lambda>victim. AList.delete (sn_TokenHash victim)) victims sessions\<rparr>))"

definition um_DeleteSessionsForUser :: "uctx \<Rightarrow> string \<Rightarrow> (user_err, unit, user_mem) op" where
  "um_DeleteSessionsForUser ctx userID = unless_done ctx (\<lambda>s.
     (Inr (), s\<lparr>um_sessions := range_delete (\<lambda>hash sess. sn_UserID sess = userID) (um_sessions s)\<rparr>))"

definition um_DeleteSessionsForUserExcept :: "uctx \<Rightarrow> string \<Rightarrow> string \<Rightarrow> (user_err, unit, user_mem) op" where
  "um_DeleteSessionsForUserExcept ctx userID keepTokenHash = unless_done ctx (\<lambda>s.
     (Inr (), s\<lparr>um_sessions := range_delete (\<lambda>hash sess. sn_UserID sess = userID \<and> hash \<noteq> keepTokenHash)
        (um_sessions s)\<rparr>))"

definition um_FindSessionByTokenHash :: "uctx \<Rightarrow> string \<Rightarrow> (user_err, session, user_mem) op" where
  "um_FindSessionByTokenHash ctx tokenHash = unless_done ctx (\<lambda>s.
     case map_of (um_sessions s) tokenHash of
       None \<Rightarrow> (Inl (Sentinel UErrNotFound), s)
     | Some sess \<Rightarrow> (Inr sess, s))"

definition um_FindSessionsForUser :: "uctx \<Rightarrow> string \<Rightarrow> (user_err, session list, user_mem) op" where
  "um_FindSessionsForUser ctx userID = unless_done ctx (\<lambda>s.
     (Inr (sort_key (\<lambda>sess. - sn_CreatedAt sess) (sessions_of userID (um_sessions s))), s))"

definition um_DeleteSession :: "uctx \<Rightarrow> string \<Rightarrow> (user_err, unit, user_mem) op" where
  "um_DeleteSession ctx tokenHash = unless_done ctx (\<lambda>s.
     (Inr (), s\<lparr>um_sessions := AList.delete tokenHash (um_sessions s)\<rparr>))"

definition um_DeleteExpiredSessions :: "uctx \<Rightarrow> time \<Rightarrow> (user_err, unit, user_mem) op" where
  "um_DeleteExpiredSessions ctx now = unless_done ctx (\<lambda>s.
     (Inr (), s\<lparr>um_sessions := range_delete (\<lambda>hash sess. sn_ExpiresAt sess < now) (um_sessions s)\<rparr>))"

definition userMemory :: "user_mem user_repo" where
  "userMemory = \<lparr>
     ur_CreateUser = um_CreateUser, ur_FindUserByEmail = um_FindUserByEmail, ur_FindUserByID = um_FindUserByID,
     ur_UpdateUserPassword = um_UpdateUserPassword, ur_DeleteUser = um_DeleteUser,
     ur_CreateSession = um_CreateSession, ur_FindSessionByTokenHash = um_FindSessionByTokenHash,
     ur_DeleteSession = um_DeleteSession, ur_FindSessionsForUser = um_FindSessionsForUser,
     ur_DeleteSessionsForUser = um_DeleteSessionsForUser,
     ur_DeleteSessionsForUserExcept = um_DeleteSessionsForUserExcept,
     ur_DeleteExpiredSessions = um_DeleteExpiredSessions \<rparr>"

lemma userMemory_sel [simp]:
  "ur_CreateUser userMemory = um_CreateUser" "ur_FindUserByEmail userMemory = um_FindUserByEmail"
  "ur_FindUserByID userMemory = um_FindUserByID" "ur_UpdateUserPassword userMemory = um_UpdateUserPassword"
  "ur_DeleteUser userMemory = um_DeleteUser" "ur_CreateSession userMemory = um_CreateSession"
  "ur_FindSessionByTokenHash userMemory = um_FindSessionByTokenHash" "ur_DeleteSession userMemory = um_DeleteSession"
  "ur_FindSessionsForUser userMemory = um_FindSessionsForUser"
  "ur_DeleteSessionsForUser userMemory = um_DeleteSessionsForUser"
  "ur_DeleteSessionsForUserExcept userMemory = um_DeleteSessionsForUserExcept"
  "ur_DeleteExpiredSessions userMemory = um_DeleteExpiredSessions"
  by (simp_all add: userMemory_def)

lemmas um_defs = um_CreateUser_def um_FindUserByEmail_def um_FindUserByID_def um_UpdateUserPassword_def
  um_DeleteUser_def um_CreateSession_def um_DeleteSessionsForUser_def um_DeleteSessionsForUserExcept_def
  um_FindSessionByTokenHash_def um_FindSessionsForUser_def um_DeleteSession_def um_DeleteExpiredSessions_def

subsection \<open>Invariant\<close>

declare map_of_eq_Some_iff [simp del] Some_eq_map_of_iff [simp del]

text \<open>
  The two user maps are inverse to each other: every user is stored under its identifier and its address
  leads back to it; sessions are stored under their token hash.
\<close>

definition um_inv :: "user_mem \<Rightarrow> bool" where
  "um_inv s \<longleftrightarrow> gomap_wf (um_usersByID s) \<and> gomap_wf (um_usersByEmail s) \<and> gomap_wf (um_sessions s) \<and>
     (\<forall>i u. map_of (um_usersByID s) i = Some u \<longrightarrow> u_ID u = i \<and> map_of (um_usersByEmail s) (u_Email u) = Some i) \<and>
     (\<forall>e i. map_of (um_usersByEmail s) e = Some i \<longrightarrow> (\<exists>u. map_of (um_usersByID s) i = Some u \<and> u_Email u = e)) \<and>
     (\<forall>h sess. map_of (um_sessions s) h = Some sess \<longrightarrow> sn_TokenHash sess = h)"

lemma um_inv_New [simp]: "um_inv um_New"
  by (simp add: um_inv_def um_New_def)

lemma um_inv_sessions:
  assumes "um_inv s" and "gomap_wf m" and "\<And>h sess. map_of m h = Some sess \<Longrightarrow> sn_TokenHash sess = h"
  shows "um_inv (s\<lparr>um_sessions := m\<rparr>)"
  using assms by (simp add: um_inv_def)

lemma um_inv_sessionsD:
  "um_inv s \<Longrightarrow> gomap_wf (um_sessions s)"
  "um_inv s \<Longrightarrow> map_of (um_sessions s) h = Some sess \<Longrightarrow> sn_TokenHash sess = h"
  by (simp_all add: um_inv_def)

lemma fold_delete_lookup:
  "map_of (fold (\<lambda>v. AList.delete (key v)) vs m) x = (if x \<in> key ` set vs then None else map_of m x)"
  by (induction vs arbitrary: m) (auto simp: gomap_simps)

lemma fold_delete_wf: "gomap_wf m \<Longrightarrow> gomap_wf (fold (\<lambda>v. AList.delete (key v)) vs m)"
  by (induction vs arbitrary: m) auto

lemma unless_done_cases:
  assumes "unless_done ctx f s = (r, s')"
  obtains (dead) e where "uctx_Err ctx = Some e" "r = Inl e" "s' = s"
    | (alive) "ctx = ULive" "f s = (r, s')"
  using assms by (cases ctx) (auto simp: unless_done_def)

text \<open>The part of the invariant that is about users.\<close>

definition users_ok :: "(string, user) gomap \<Rightarrow> (string, string) gomap \<Rightarrow> bool" where
  "users_ok byID byEmail \<longleftrightarrow>
     (\<forall>i u. map_of byID i = Some u \<longrightarrow> u_ID u = i \<and> map_of byEmail (u_Email u) = Some i) \<and>
     (\<forall>e i. map_of byEmail e = Some i \<longrightarrow> (\<exists>u. map_of byID i = Some u \<and> u_Email u = e))"

lemma um_inv_users:
  "um_inv s \<longleftrightarrow> gomap_wf (um_usersByID s) \<and> gomap_wf (um_usersByEmail s) \<and> gomap_wf (um_sessions s) \<and>
     users_ok (um_usersByID s) (um_usersByEmail s) \<and>
     (\<forall>h sess. map_of (um_sessions s) h = Some sess \<longrightarrow> sn_TokenHash sess = h)"
  unfolding um_inv_def users_ok_def by blast

lemma users_okD:
  assumes "users_ok byID byEmail"
  shows "map_of byID i = Some u \<Longrightarrow> u_ID u = i" and "map_of byID i = Some u \<Longrightarrow> map_of byEmail (u_Email u) = Some i"
    and "map_of byEmail e = Some i \<Longrightarrow> \<exists>u. map_of byID i = Some u \<and> u_Email u = e"
  using assms unfolding users_ok_def by blast+

lemma users_ok_create:
  assumes ok: "users_ok byID byEmail" and new: "map_of byID (u_ID u) = None" "map_of byEmail (u_Email u) = None"
  shows "users_ok (AList.update (u_ID u) u byID) (AList.update (u_Email u) (u_ID u) byEmail)"
  unfolding users_ok_def
proof (intro conjI allI impI)
  fix i v assume v: "map_of (AList.update (u_ID u) u byID) i = Some v"
  then show "u_ID v = i" using users_okD(1) [OF ok] by (auto simp: gomap_simps split: if_splits)
  show "map_of (AList.update (u_Email u) (u_ID u) byEmail) (u_Email v) = Some i"
    using v new users_okD(2) [OF ok] by (fastforce simp: gomap_simps split: if_splits)
next
  fix e i assume "map_of (AList.update (u_Email u) (u_ID u) byEmail) e = Some i"
  then show "\<exists>v. map_of (AList.update (u_ID u) u byID) i = Some v \<and> u_Email v = e"
    using new users_okD(3) [OF ok, of e i] by (auto simp: gomap_simps split: if_splits)
qed

lemma users_ok_modify:
  assumes ok: "users_ok byID byEmail" and u: "map_of byID i = Some u" "u_ID v = u_ID u" "u_Email v = u_Email u"
  shows "users_ok (AList.update i v byID) byEmail"
  unfolding users_ok_def
proof (intro conjI allI impI)
  fix j w assume w: "map_of (AList.update i v byID) j = Some w"
  then show "u_ID w = j" using users_okD(1) [OF ok] u by (auto simp: gomap_simps split: if_splits)
  show "map_of byEmail (u_Email w) = Some j"
    using w u users_okD(2) [OF ok] by (auto simp: gomap_simps split: if_splits)
next
  fix e j assume "map_of byEmail e = Some j"
  then show "\<exists>w. map_of (AList.update i v byID) j = Some w \<and> u_Email w = e"
    using u users_okD(3) [OF ok, of e j] by (auto simp: gomap_simps)
qed

lemma users_ok_delete:
  assumes ok: "users_ok byID byEmail" and u: "map_of byID i = Some u"
  shows "users_ok (AList.delete i byID) (AList.delete (u_Email u) byEmail)"
  unfolding users_ok_def
proof (intro conjI allI impI)
  fix j w assume w: "map_of (AList.delete i byID) j = Some w"
  then have j: "j \<noteq> i" "map_of byID j = Some w" by (auto simp: gomap_simps split: if_splits)
  then show "u_ID w = j" using users_okD(1) [OF ok] by blast
  have "u_Email w \<noteq> u_Email u" using users_okD(2) [OF ok u] users_okD(2) [OF ok j(2)] j(1) by auto
  then show "map_of (AList.delete (u_Email u) byEmail) (u_Email w) = Some j"
    using users_okD(2) [OF ok j(2)] by (simp add: gomap_simps)
next
  fix e j assume "map_of (AList.delete (u_Email u) byEmail) e = Some j"
  then have "e \<noteq> u_Email u" "map_of byEmail e = Some j" by (auto simp: gomap_simps split: if_splits)
  then show "\<exists>w. map_of (AList.delete i byID) j = Some w \<and> u_Email w = e"
    using users_okD(3) [OF ok, of e j] u by (auto simp: gomap_simps)
qed

lemma um_CreateUser_inv:
  assumes "um_inv s" and "map_of (um_usersByID s) (u_ID u) = None" and "um_CreateUser ctx u s = (r, s')"
  shows "um_inv s'"
  using assms(3) unfolding um_CreateUser_def
proof (cases rule: unless_done_cases)
  case alive
  then show ?thesis using assms(1,2)
    by (auto simp: um_inv_users users_ok_create split: if_splits)
qed (simp add: assms(1))

lemma um_UpdateUserPassword_inv:
  assumes "um_inv s" and "um_UpdateUserPassword ctx now i h s = (r, s')"
  shows "um_inv s'"
  using assms(2) unfolding um_UpdateUserPassword_def
proof (cases rule: unless_done_cases)
  case alive
  then show ?thesis using assms(1)
    by (auto simp: um_inv_users split: option.splits intro!: users_ok_modify)
qed (simp add: assms(1))

lemma um_DeleteUser_inv:
  assumes "um_inv s" and "um_DeleteUser ctx i s = (r, s')"
  shows "um_inv s'"
  using assms(2) unfolding um_DeleteUser_def
proof (cases rule: unless_done_cases)
  case alive
  then show ?thesis using assms(1)
    by (auto simp: um_inv_users split: option.splits intro: users_ok_delete)
qed (simp add: assms(1))

lemma um_session_ops_inv:
  assumes "um_inv s"
  shows "um_CreateSession ctx sess n s = (r, s') \<Longrightarrow> um_inv s'"
    and "um_DeleteSessionsForUser ctx u s = (r, s') \<Longrightarrow> um_inv s'"
    and "um_DeleteSessionsForUserExcept ctx u k s = (r, s') \<Longrightarrow> um_inv s'"
    and "um_DeleteSession ctx k s = (r, s') \<Longrightarrow> um_inv s'"
    and "um_DeleteExpiredSessions ctx now s = (r, s') \<Longrightarrow> um_inv s'"
  unfolding um_defs
  by (erule unless_done_cases; use assms um_inv_sessionsD [OF assms] in
      \<open>auto simp: Let_def gomap_simps fold_delete_lookup intro!: um_inv_sessions fold_delete_wf split: if_splits option.splits\<close>)+

subsection \<open>The cap on sessions\<close>

lemma sorted_split_le:
  assumes "x \<in> set (take k (sort_key f xs))" and "y \<in> set (drop k (sort_key f xs))"
  shows "f x \<le> f y"
proof -
  have "sorted (map f (take k (sort_key f xs)) @ map f (drop k (sort_key f xs)))"
    by (simp flip: map_append)
  with assms show ?thesis unfolding sorted_append by auto
qed

lemma sessions_of_set:
  "gomap_wf m \<Longrightarrow> x \<in> set (sessions_of u m) \<longleftrightarrow> sn_UserID x = u \<and> (\<exists>h. map_of m h = Some x)"
  unfolding sessions_of_def set_filter mem_Collect_eq by (subst set_gomap_values) (auto simp: ran_def)

lemma sessions_of_distinct:
  assumes "gomap_wf m" and "\<And>h x. map_of m h = Some x \<Longrightarrow> sn_TokenHash x = h"
  shows "distinct (sessions_of u m)" and "inj_on sn_TokenHash (set (sessions_of u m))"
proof -
  have "\<forall>(h, x) \<in> set m. sn_TokenHash x = h" using assms map_of_is_SomeI by fastforce
  then show "distinct (sessions_of u m)"
    unfolding sessions_of_def using assms(1) distinct_gomap_values [of m sn_TokenHash] by simp
  show "inj_on sn_TokenHash (set (sessions_of u m))"
    using assms by (auto simp: inj_on_def sessions_of_set)
qed

text \<open>Evicting some of a user's own sessions from a map keyed by token hash.\<close>

lemma evict_sessions:
  assumes "gomap_wf m" and key: "\<And>h x. map_of m h = Some x \<Longrightarrow> sn_TokenHash x = h"
    and "set victims \<subseteq> set (sessions_of u m)"
  defines "m' \<equiv> fold (\<lambda>v. AList.delete (sn_TokenHash v)) victims m"
  shows "map_of m' h = Some x \<longleftrightarrow> map_of m h = Some x \<and> x \<notin> set victims"
    and "set (sessions_of u m') = set (sessions_of u m) - set victims"
    and "distinct (sessions_of u m')"
proof -
  show look: "map_of m' h = Some x \<longleftrightarrow> map_of m h = Some x \<and> x \<notin> set victims" for h x
  proof -
    have "h \<in> sn_TokenHash ` set victims \<longleftrightarrow> x \<in> set victims" if hx: "map_of m h = Some x" for h x
    proof
      assume "h \<in> sn_TokenHash ` set victims"
      then obtain v where v: "v \<in> set victims" "sn_TokenHash v = h" by blast
      with assms(3) have "v \<in> set (sessions_of u m)" by blast
      then obtain h' where "map_of m h' = Some v" using sessions_of_set [OF assms(1)] by blast
      with key v(2) hx have "v = x" by fastforce
      with v(1) show "x \<in> set victims" by simp
    next
      assume "x \<in> set victims"
      with key [OF hx] show "h \<in> sn_TokenHash ` set victims" by blast
    qed
    then show ?thesis unfolding m'_def fold_delete_lookup by auto
  qed
  have wf: "gomap_wf m'" unfolding m'_def by (rule fold_delete_wf [OF assms(1)])
  show "set (sessions_of u m') = set (sessions_of u m) - set victims"
    using look by (auto simp: sessions_of_set [OF wf] sessions_of_set [OF assms(1)])
  show "distinct (sessions_of u m')"
    by (rule sessions_of_distinct(1) [OF wf]) (use look key in blast)
qed

lemma um_CreateSession_spec:
  assumes "um_inv s" and "0 < maxSessions" and "um_CreateSession ULive sess maxSessions s = (r, s')"
    and newest: "\<forall>h x. map_of (um_sessions s) h = Some x \<and> sn_UserID x = sn_UserID sess \<longrightarrow> sn_CreatedAt x < sn_CreatedAt sess"
    and fresh: "map_of (um_sessions s) (sn_TokenHash sess) = None"
  shows "r = Inr () \<and> length (sessions_of (sn_UserID sess) (um_sessions s')) \<le> maxSessions \<and>
    map_of (um_sessions s') (sn_TokenHash sess) = Some sess \<and>
    (\<forall>h x. sn_UserID x \<noteq> sn_UserID sess \<longrightarrow> map_of (um_sessions s') h = Some x \<longleftrightarrow> map_of (um_sessions s) h = Some x) \<and>
    (\<forall>h x h' y. map_of (um_sessions s) h = Some x \<and> sn_UserID x = sn_UserID sess \<and> map_of (um_sessions s') h = None \<and>
       map_of (um_sessions s') h' = Some y \<and> sn_UserID y = sn_UserID sess \<longrightarrow> sn_CreatedAt x \<le> sn_CreatedAt y)"
proof -
  let ?u = "sn_UserID sess"
  let ?m = "AList.update (sn_TokenHash sess) sess (um_sessions s)"
  let ?mine = "sessions_of ?u ?m"
  have wf: "gomap_wf ?m" by (rule gomap_wf_update [OF um_inv_sessionsD(1) [OF assms(1)]])
  have look: "map_of ?m h = (if h = sn_TokenHash sess then Some sess else map_of (um_sessions s) h)" for h
    by (simp add: gomap_simps)
  have key: "sn_TokenHash x = h" if "map_of ?m h = Some x" for h x
    using that um_inv_sessionsD(2) [OF assms(1)] by (auto simp: look split: if_splits)
  have others: "sn_UserID x \<noteq> ?u \<Longrightarrow> map_of ?m h = Some x \<longleftrightarrow> map_of (um_sessions s) h = Some x" for h x
    using fresh by (auto simp: look)
  have old: "x \<in> set ?mine \<Longrightarrow> x \<noteq> sess \<Longrightarrow> sn_CreatedAt x < sn_CreatedAt sess" for x
    using newest by (auto simp: sessions_of_set [OF wf] look split: if_splits)
  show ?thesis
  proof (cases "length ?mine \<le> maxSessions")
    case True
    then have "r = Inr ()" "um_sessions s' = ?m"
      using assms(3) by (auto simp: um_CreateSession_def unless_done_def Let_def)
    with True others fresh show ?thesis by (auto simp: look)
  next
    case False
    define k where "k = length ?mine - maxSessions"
    define victims where "victims = take k (sort_key sn_CreatedAt ?mine)"
    define m' where "m' = fold (\<lambda>v. AList.delete (sn_TokenHash v)) victims ?m"
    have r: "r = Inr ()" "um_sessions s' = m'"
      using False assms(3) by (auto simp: um_CreateSession_def unless_done_def Let_def m'_def victims_def k_def)
    have sub: "set victims \<subseteq> set ?mine" unfolding victims_def by (metis set_sort set_take_subset)
    note ev = evict_sessions [OF wf key sub, folded m'_def]
    note dist = sessions_of_distinct [OF wf key, of ?u]
    have dsort: "distinct (sort_key sn_CreatedAt ?mine)" using dist(1) by simp
    have kept: "set (drop k (sort_key sn_CreatedAt ?mine)) = set ?mine - set victims"
      using dsort set_take_disj_set_drop_if_distinct [OF dsort, of k k]
      by (auto simp: victims_def) (metis Un_iff append_take_drop_id set_append set_sort in_set_dropD)+
    have "length (sessions_of ?u m') = card (set ?mine - set victims)"
      using ev(2,3) distinct_card by metis
    also have "\<dots> = maxSessions"
      unfolding kept [symmetric] using dsort False by (simp add: distinct_card k_def)
    finally have cap: "length (sessions_of ?u m') = maxSessions" .
    have oldest: "sn_CreatedAt x \<le> sn_CreatedAt y" if "x \<in> set victims" "y \<in> set ?mine - set victims" for x y
      using sorted_split_le [of x k sn_CreatedAt ?mine y] that kept by (simp add: victims_def)
    have mine: "sess \<in> set ?mine" by (auto simp: sessions_of_set [OF wf] look intro: exI [of _ "sn_TokenHash sess"])
    have "sess \<notin> set victims"
    proof
      assume v: "sess \<in> set victims"
      have "set ?mine - set victims \<noteq> {}"
        using cap ev(2) assms(2) by (metis length_greater_0_conv set_empty)
      then obtain y where y: "y \<in> set ?mine - set victims" by blast
      with oldest [OF v y] old [of y] v show False by auto
    qed
    then have new: "map_of m' (sn_TokenHash sess) = Some sess" using ev(1) [of "sn_TokenHash sess" sess] look by simp
    have foreign: "map_of m' h = Some x \<longleftrightarrow> map_of (um_sessions s) h = Some x" if "sn_UserID x \<noteq> ?u" for h x
    proof -
      have "x \<notin> set victims" using that sub sessions_of_set [OF wf] by blast
      with others [OF that] ev(1) [of h x] show ?thesis by blast
    qed
    have order: "sn_CreatedAt x \<le> sn_CreatedAt y"
      if x: "map_of (um_sessions s) h = Some x" "sn_UserID x = ?u" "map_of m' h = None"
        and y: "map_of m' h' = Some y" "sn_UserID y = ?u" for h x h' y
    proof (rule oldest)
      have "map_of ?m h = Some x" using x(1) fresh by (auto simp: look)
      with x(3) ev(1) [of h x] show "x \<in> set victims" by auto
      from y ev(1) [of h' y] show "y \<in> set ?mine - set victims" by (auto simp: sessions_of_set [OF wf])
    qed
    show ?thesis unfolding r using cap new foreign order by blast
  qed
qed

text \<open>
  The cap on sessions: after a login the user has at most the configured number of sessions; the new
  session, issued later than the user's others, is among them; each session evicted is no newer than every
  one kept; and no session of another user is touched.
\<close>

theorem session_cap:
  assumes "um_inv s" and "0 < maxSessions" and "um_CreateSession ULive sess maxSessions s = (r, s')"
    and "\<forall>h x. map_of (um_sessions s) h = Some x \<and> sn_UserID x = sn_UserID sess \<longrightarrow> sn_CreatedAt x < sn_CreatedAt sess"
    and "map_of (um_sessions s) (sn_TokenHash sess) = None"
  shows "r = Inr () \<and> length (sessions_of (sn_UserID sess) (um_sessions s')) \<le> maxSessions \<and>
    map_of (um_sessions s') (sn_TokenHash sess) = Some sess \<and>
    (\<forall>h x. sn_UserID x \<noteq> sn_UserID sess \<longrightarrow> map_of (um_sessions s') h = Some x \<longleftrightarrow> map_of (um_sessions s) h = Some x) \<and>
    (\<forall>h x h' y. map_of (um_sessions s) h = Some x \<and> sn_UserID x = sn_UserID sess \<and> map_of (um_sessions s') h = None \<and>
       map_of (um_sessions s') h' = Some y \<and> sn_UserID y = sn_UserID sess \<longrightarrow> sn_CreatedAt x \<le> sn_CreatedAt y)"
  by (rule um_CreateSession_spec [OF assms])

definition demo_session :: "string \<Rightarrow> time \<Rightarrow> session" where
  "demo_session h t = \<lparr>sn_TokenHash = h, sn_UserID = ''ann'', sn_ExpiresAt = t + 100, sn_CreatedAt = t\<rparr>"

theorem session_cap_witness:
  "map_of (um_sessions (snd (um_CreateSession ULive (demo_session ''b'' 7) 1
     (um_New\<lparr>um_sessions := [(''a'', demo_session ''a'' 5)]\<rparr>)))) ''b'' = Some (demo_session ''b'' 7)"
proof -
  let ?s = "um_New\<lparr>um_sessions := [(''a'', demo_session ''a'' 5)]\<rparr>"
  obtain r s' where run: "um_CreateSession ULive (demo_session ''b'' 7) 1 ?s = (r, s')" by fastforce
  have inv: "um_inv ?s" by (rule um_inv_sessions) (auto simp: demo_session_def split: if_splits)
  have newest: "\<forall>h x. map_of (um_sessions ?s) h = Some x \<and> sn_UserID x = sn_UserID (demo_session ''b'' 7) \<longrightarrow>
      sn_CreatedAt x < sn_CreatedAt (demo_session ''b'' 7)"
    by (auto simp: demo_session_def split: if_splits)
  have fresh: "map_of (um_sessions ?s) (sn_TokenHash (demo_session ''b'' 7)) = None" by (simp add: demo_session_def)
  have "(0 :: nat) < 1" by simp
  from session_cap [OF inv this run newest fresh] run show ?thesis by (simp add: demo_session_def)
qed

end
