(* ===== verification/UserService.thy ===== *)
theory UserService
  imports UserMemory
begin

text \<open>
  \<^verbatim>\<open>internal/user/service.go\<close>, \<^verbatim>\<open>token_cache.go\<close> and the authentication middleware (\<^verbatim>\<open>middleware.go\<close>).
  The service's state is the repository's, the token cache and the login backoff; the delays it asked to sleep are
  recorded in order. bcrypt, SHA-256, the address validator and the Unicode table are arguments
  (\<open>lib\<close>), as are the clock readings (\<open>clk\<close>, one per reading), the contexts of the repository calls, the random
  bytes and the salts.
\<close>

subsection \<open>The token cache\<close>

definition tokenCacheTTL :: duration where
  "tokenCacheTTL = 2 * Second"

record tokenCacheEntry =
  tc_userID :: string
  tc_expiresAt :: time

type_synonym tokenCache = "(string, tokenCacheEntry) gomap"

definition tc_get :: "time \<Rightarrow> string \<Rightarrow> tokenCache \<Rightarrow> string option" where
  "tc_get now tokenHash c =
     (case map_of c tokenHash of
        None \<Rightarrow> None
      | Some entry \<Rightarrow> if now > tc_expiresAt entry then None else Some (tc_userID entry))"

definition tc_set :: "time \<Rightarrow> string \<Rightarrow> string \<Rightarrow> tokenCache \<Rightarrow> tokenCache" where
  "tc_set now tokenHash userID c =
     AList.update tokenHash \<lparr>tc_userID = userID, tc_expiresAt = now + tokenCacheTTL\<rparr> c"

definition tc_delete :: "string \<Rightarrow> tokenCache \<Rightarrow> tokenCache" where
  "tc_delete tokenHash c = AList.delete tokenHash c"

definition tc_deleteAllForUser :: "string \<Rightarrow> tokenCache \<Rightarrow> tokenCache" where
  "tc_deleteAllForUser userID c = range_delete (\<lambda>hash entry. tc_userID entry = userID) c"

definition tc_deleteAllForUserExcept :: "string \<Rightarrow> string \<Rightarrow> tokenCache \<Rightarrow> tokenCache" where
  "tc_deleteAllForUserExcept userID keepTokenHash c =
     range_delete (\<lambda>hash entry. tc_userID entry = userID \<and> hash \<noteq> keepTokenHash) c"

definition tc_sweep :: "time \<Rightarrow> tokenCache \<Rightarrow> tokenCache" where
  "tc_sweep now c = range_delete (\<lambda>hash entry. now > tc_expiresAt entry) c"

subsection \<open>The service\<close>

record user_lib =
  ul_lower :: "nat \<Rightarrow> string"
  ul_checkEmail :: "string \<Rightarrow> string option"
  ul_bcrypt :: "string \<Rightarrow> string \<Rightarrow> string + string"
  ul_compare :: "string \<Rightarrow> string \<Rightarrow> bool"
  ul_sha256 :: "string \<Rightarrow> 8 word list"

record user_cfg =
  uc_sessionTTL :: duration
  uc_maxSessionsPerUser :: nat

record 's user_svc =
  us_repo :: 's
  us_cache :: tokenCache
  us_backoff :: loginBackoff
  us_slept :: "duration list"

definition NewUserService :: "'s \<Rightarrow> 's user_svc" where
  "NewUserService repo = \<lparr>us_repo = repo, us_cache = [], us_backoff = [], us_slept = []\<rparr>"

text \<open>A repository call of the service: the rest of its state is kept.\<close>

definition on_repo :: "(user_err, 'a, 's) op \<Rightarrow> (user_err, 'a, 's user_svc) op" where
  "on_repo f s = (case f (us_repo s) of (r, q) \<Rightarrow> (r, s\<lparr>us_repo := q\<rparr>))"

type_synonym uctxs = "nat \<Rightarrow> uctx"
type_synonym clock = "nat \<Rightarrow> time"

definition unewID :: "string + 8 word list \<Rightarrow> string ures" where
  "unewID rnd =
     (case rnd of
        Inl err \<Rightarrow> Inl (WrapPre ''failed to generate id'' (Opaque err))
      | Inr b0 \<Rightarrow>
          (let b1 = b0[6 := ((b0 ! 6) AND 0x0f) OR 0x40];
               b = b1[8 := ((b1 ! 8) AND 0x3f) OR 0x80]
           in Inr (hex_bytes (take 4 b) @ ''-'' @ hex_bytes (take 2 (drop 4 b)) @ ''-'' @
                   hex_bytes (take 2 (drop 6 b)) @ ''-'' @ hex_bytes (take 2 (drop 8 b)) @ ''-'' @
                   hex_bytes (drop 10 b))))"

definition hashToken :: "user_lib \<Rightarrow> string \<Rightarrow> string" where
  "hashToken lib token = hex_bytes (ul_sha256 lib token)"

definition sessionIDPrefix :: string where
  "sessionIDPrefix = ''session-id-v1:''"

definition deriveSessionID :: "user_lib \<Rightarrow> string \<Rightarrow> string" where
  "deriveSessionID lib tokenHash = hex_bytes (ul_sha256 lib (sessionIDPrefix @ tokenHash))"

definition Register :: "user_lib \<Rightarrow> 's user_repo \<Rightarrow> uctxs \<Rightarrow> clock \<Rightarrow> string \<Rightarrow> string + 8 word list
    \<Rightarrow> string \<Rightarrow> string \<Rightarrow> (user_err, user, 's user_svc) op" where
  "Register lib repo ctx clk salt rnd email0 password s =
     (case validateEmail (ul_lower lib) (ul_checkEmail lib) email0 of
        Inl err \<Rightarrow> (Inl err, s)
      | Inr email \<Rightarrow>
     (case validatePassword (ul_lower lib) password of
        Some err \<Rightarrow> (Inl err, s)
      | None \<Rightarrow>
     (case ul_bcrypt lib salt password of
        Inl err \<Rightarrow> (Inl (WrapPre ''register: hash password'' (Opaque err)), s)
      | Inr hash \<Rightarrow>
     (case unewID rnd of
        Inl err \<Rightarrow> (Inl (WrapPre ''register'' err), s)
      | Inr i \<Rightarrow>
     (let u = \<lparr>u_ID = i, u_Email = email, u_CreatedAt = clk 0, u_UpdatedAt = clk 0, u_PasswordHash = hash\<rparr> in
      case on_repo (ur_CreateUser repo (ctx 0) u) s of
        (Inl err, s') \<Rightarrow> (Inl (WrapPre ''register'' err), s')
      | (Inr _, s') \<Rightarrow> (Inr u, s'))))))"

text \<open>\<^verbatim>\<open>recordFailure\<close> and \<^verbatim>\<open>sleep\<close>, then the one error for both causes.\<close>

definition login_failed :: "time \<Rightarrow> string \<Rightarrow> duration \<Rightarrow> 's user_svc \<Rightarrow> user ures \<times> 's user_svc" where
  "login_failed now normalized delay s =
     (Inl (Sentinel UErrInvalidCredentials),
      s\<lparr>us_backoff := lb_recordFailure now normalized (us_backoff s), us_slept := us_slept s @ [delay]\<rparr>)"

text \<open>
  The result of the comparison with the dummy hash, made for an unknown address to take the time of a real one, is discarded in the code; it has no
  part in this function, which says nothing of running times.
\<close>

definition Authenticate :: "user_lib \<Rightarrow> 's user_repo \<Rightarrow> uctxs \<Rightarrow> clock \<Rightarrow> string \<Rightarrow> string
    \<Rightarrow> (user_err, user, 's user_svc) op" where
  "Authenticate lib repo ctx clk email password s =
     (let normalized = normalizeEmail (ul_lower lib) email in
      case lb_delay (clk 0) normalized (us_backoff s) of (delay, b) \<Rightarrow>
      case on_repo (ur_FindUserByEmail repo (ctx 0) normalized) (s\<lparr>us_backoff := b\<rparr>) of
        (Inl err, s') \<Rightarrow>
          (if errors_Is err UErrNotFound then login_failed (clk 1) normalized delay s'
           else (Inl (WrapPre ''authenticate'' err), s'))
      | (Inr u, s') \<Rightarrow>
          if \<not> ul_compare lib (u_PasswordHash u) password then login_failed (clk 1) normalized delay s'
          else (Inr u, s'\<lparr>us_backoff := lb_recordSuccess normalized (us_backoff s'), us_slept := us_slept s' @ [delay]\<rparr>))"

definition verifyPassword :: "user_lib \<Rightarrow> 's user_repo \<Rightarrow> uctx \<Rightarrow> string \<Rightarrow> string \<Rightarrow> (user_err, unit, 's user_svc) op" where
  "verifyPassword lib repo ctx userID password s =
     (case on_repo (ur_FindUserByID repo ctx userID) s of
        (Inl err, s') \<Rightarrow>
          (if errors_Is err UErrNotFound then (Inl (Sentinel UErrInvalidCredentials), s')
           else (Inl (WrapPre ''verify password'' err), s'))
      | (Inr u, s') \<Rightarrow>
          if \<not> ul_compare lib (u_PasswordHash u) password then (Inl (Sentinel UErrInvalidCredentials), s')
          else (Inr (), s'))"

definition ChangePassword :: "user_lib \<Rightarrow> 's user_repo \<Rightarrow> uctxs \<Rightarrow> clock \<Rightarrow> string \<Rightarrow> string \<Rightarrow> string \<Rightarrow> string \<Rightarrow> string
    \<Rightarrow> (user_err, unit, 's user_svc) op" where
  "ChangePassword lib repo ctx clk salt userID currentPassword newPassword currentSessionToken s =
     (case validatePassword (ul_lower lib) newPassword of
        Some err \<Rightarrow> (Inl err, s)
      | None \<Rightarrow>
     (case verifyPassword lib repo (ctx 0) userID currentPassword s of
        (Inl err, s1) \<Rightarrow> (Inl err, s1)
      | (Inr _, s1) \<Rightarrow>
     (case ul_bcrypt lib salt newPassword of
        Inl err \<Rightarrow> (Inl (WrapPre ''change password: hash password'' (Opaque err)), s1)
      | Inr hash \<Rightarrow>
     (case on_repo (ur_UpdateUserPassword repo (ctx 1) (clk 0) userID hash) s1 of
        (Inl err, s2) \<Rightarrow> (Inl (WrapPre ''change password'' err), s2)
      | (Inr _, s2) \<Rightarrow>
     (case on_repo (ur_DeleteSessionsForUserExcept repo (ctx 2) userID (hashToken lib currentSessionToken)) s2 of
        (Inl err, s3) \<Rightarrow> (Inl (WrapPre ''change password: revoke other sessions'' err), s3)
      | (Inr _, s3) \<Rightarrow>
          (Inr (), s3\<lparr>us_cache := tc_deleteAllForUserExcept userID (hashToken lib currentSessionToken) (us_cache s3)\<rparr>))))))"

definition DeleteAccount :: "'s user_repo \<Rightarrow> uctxs \<Rightarrow> string \<Rightarrow> (user_err, unit, 's user_svc) op" where
  "DeleteAccount repo ctx userID s =
     (case on_repo (ur_DeleteSessionsForUser repo (ctx 0) userID) s of
        (Inl err, s1) \<Rightarrow> (Inl (WrapPre ''delete account: revoke sessions'' err), s1)
      | (Inr _, s1) \<Rightarrow>
     (case on_repo (ur_DeleteUser repo (ctx 1) userID) (s1\<lparr>us_cache := tc_deleteAllForUser userID (us_cache s1)\<rparr>) of
        (Inl err, s2) \<Rightarrow> (Inl (WrapPre ''delete account'' err), s2)
      | (Inr _, s2) \<Rightarrow> (Inr (), s2)))"

definition CreateSession :: "user_lib \<Rightarrow> user_cfg \<Rightarrow> 's user_repo \<Rightarrow> uctxs \<Rightarrow> clock \<Rightarrow> string + 8 word list \<Rightarrow> string
    \<Rightarrow> (user_err, string \<times> time, 's user_svc) op" where
  "CreateSession lib cfg repo ctx clk rnd userID s =
     (case rnd of
        Inl err \<Rightarrow> (Inl (WrapPre ''create session'' (Opaque err)), s)
      | Inr b \<Rightarrow>
          (let token = hex_bytes b; now = clk 0; expiresAt = now + uc_sessionTTL cfg;
               session = \<lparr>sn_TokenHash = hashToken lib token, sn_UserID = userID, sn_ExpiresAt = expiresAt, sn_CreatedAt = now\<rparr>
           in case on_repo (ur_CreateSession repo (ctx 0) session (uc_maxSessionsPerUser cfg)) s of
                (Inl err, s') \<Rightarrow> (Inl (WrapPre ''create session'' err), s')
              | (Inr _, s') \<Rightarrow> (Inr (token, expiresAt), s')))"

definition LogoutAll :: "'s user_repo \<Rightarrow> uctxs \<Rightarrow> string \<Rightarrow> (user_err, unit, 's user_svc) op" where
  "LogoutAll repo ctx userID s =
     (case on_repo (ur_DeleteSessionsForUser repo (ctx 0) userID) s of
        (Inl err, s') \<Rightarrow> (Inl (WrapPre ''logout all'' err), s')
      | (Inr _, s') \<Rightarrow> (Inr (), s'\<lparr>us_cache := tc_deleteAllForUser userID (us_cache s')\<rparr>))"

record session_info =
  si_ID :: string
  si_CreatedAt :: time
  si_ExpiresAt :: time
  si_IsCurrent :: bool

definition ListSessions :: "user_lib \<Rightarrow> 's user_repo \<Rightarrow> uctxs \<Rightarrow> string \<Rightarrow> string
    \<Rightarrow> (user_err, session_info list, 's user_svc) op" where
  "ListSessions lib repo ctx userID currentToken s =
     (case on_repo (ur_FindSessionsForUser repo (ctx 0) userID) s of
        (Inl err, s') \<Rightarrow> (Inl (WrapPre ''list sessions'' err), s')
      | (Inr sessions, s') \<Rightarrow>
          (Inr (map (\<lambda>sess. \<lparr>si_ID = deriveSessionID lib (sn_TokenHash sess), si_CreatedAt = sn_CreatedAt sess,
                 si_ExpiresAt = sn_ExpiresAt sess, si_IsCurrent = (sn_TokenHash sess = hashToken lib currentToken)\<rparr>) sessions), s'))"

text \<open>The loop of \<^verbatim>\<open>RevokeSession\<close>: the first session whose derived identifier is the one asked for.\<close>

fun revoke_loop :: "user_lib \<Rightarrow> 's user_repo \<Rightarrow> uctx \<Rightarrow> string \<Rightarrow> session list \<Rightarrow> (user_err, unit, 's user_svc) op" where
  "revoke_loop lib repo ctx sessionID [] s = (Inl (Sentinel UErrNotFound), s)"
| "revoke_loop lib repo ctx sessionID (sess # sessions) s =
     (if deriveSessionID lib (sn_TokenHash sess) \<noteq> sessionID then revoke_loop lib repo ctx sessionID sessions s
      else case on_repo (ur_DeleteSession repo ctx (sn_TokenHash sess)) s of
        (Inl err, s') \<Rightarrow> (Inl (WrapPre ''revoke session'' err), s')
      | (Inr _, s') \<Rightarrow> (Inr (), s'\<lparr>us_cache := tc_delete (sn_TokenHash sess) (us_cache s')\<rparr>))"

definition RevokeSession :: "user_lib \<Rightarrow> 's user_repo \<Rightarrow> uctxs \<Rightarrow> string \<Rightarrow> string \<Rightarrow> (user_err, unit, 's user_svc) op" where
  "RevokeSession lib repo ctx userID sessionID s =
     (case on_repo (ur_FindSessionsForUser repo (ctx 0) userID) s of
        (Inl err, s') \<Rightarrow> (Inl (WrapPre ''revoke session'' err), s')
      | (Inr sessions, s') \<Rightarrow> revoke_loop lib repo (ctx 1) sessionID sessions s')"

definition ValidateToken :: "user_lib \<Rightarrow> 's user_repo \<Rightarrow> uctxs \<Rightarrow> clock \<Rightarrow> string \<Rightarrow> (user_err, string, 's user_svc) op" where
  "ValidateToken lib repo ctx clk token s =
     (let hash = hashToken lib token in
      case tc_get (clk 0) hash (us_cache s) of
        Some cachedUserID \<Rightarrow> (Inr cachedUserID, s)
      | None \<Rightarrow>
     (case on_repo (ur_FindSessionByTokenHash repo (ctx 0) hash) s of
        (Inl err, s1) \<Rightarrow> (Inl (WrapPre ''validate token'' err), s1)
      | (Inr session, s1) \<Rightarrow>
          if clk 1 > sn_ExpiresAt session
          then (Inl (Sentinel UErrNotFound), snd (on_repo (ur_DeleteSession repo (ctx 1) (sn_TokenHash session)) s1))
          else (Inr (sn_UserID session), s1\<lparr>us_cache := tc_set (clk 2) hash (sn_UserID session) (us_cache s1)\<rparr>)))"

definition Logout :: "user_lib \<Rightarrow> 's user_repo \<Rightarrow> uctxs \<Rightarrow> string \<Rightarrow> (user_err, unit, 's user_svc) op" where
  "Logout lib repo ctx token s =
     (let hash = hashToken lib token in
      case on_repo (ur_DeleteSession repo (ctx 0) hash) s of
        (Inl err, s') \<Rightarrow> (Inl (WrapPre ''logout'' err), s')
      | (Inr _, s') \<Rightarrow> (Inr (), s'\<lparr>us_cache := tc_delete hash (us_cache s')\<rparr>))"

definition PruneExpiredSessions :: "'s user_repo \<Rightarrow> uctxs \<Rightarrow> clock \<Rightarrow> (user_err, unit, 's user_svc) op" where
  "PruneExpiredSessions repo ctx clk s =
     (let s0 = s\<lparr>us_cache := tc_sweep (clk 0) (us_cache s), us_backoff := lb_sweep (clk 1) (us_backoff s)\<rparr> in
      case on_repo (ur_DeleteExpiredSessions repo (ctx 0) (clk 2)) s0 of
        (Inl err, s') \<Rightarrow> (Inl (WrapPre ''prune expired sessions'' err), s')
      | (Inr _, s') \<Rightarrow> (Inr (), s'))"

definition GetUser :: "'s user_repo \<Rightarrow> uctxs \<Rightarrow> string \<Rightarrow> (user_err, user, 's user_svc) op" where
  "GetUser repo ctx i s =
     (case on_repo (ur_FindUserByID repo (ctx 0) i) s of
        (Inl err, s') \<Rightarrow> (Inl (WrapPre ''get user'' err), s')
      | (Inr u, s') \<Rightarrow> (Inr u, s'))"

subsection \<open>Authentication of a request\<close>

text \<open>The \<^verbatim>\<open>Authorization\<close> header (empty when absent) and the session cookie, if the request carries one.\<close>

record auth_request =
  ar_Authorization :: string
  ar_Cookie :: "string option"

definition bearerToken :: "auth_request \<Rightarrow> string option" where
  "bearerToken r =
     (let prefix = ''Bearer ''; auth = ar_Authorization r in
      if take (length prefix) auth \<noteq> prefix then None
      else let token = drop (length prefix) auth in if token = '''' then None else Some token)"

definition credentialSource :: "auth_request \<Rightarrow> string \<times> string" where
  "credentialSource r =
     (case bearerToken r of
        Some t \<Rightarrow> (''bearer'', t)
      | None \<Rightarrow>
          (case ar_Cookie r of
             Some c \<Rightarrow> if c \<noteq> '''' then (''cookie'', c) else ('''', '''')
           | None \<Rightarrow> ('''', '''')))"

text \<open>The request is answered here with a status and message, or passed on with the user and the token in its context.\<close>

datatype auth_outcome = AuthRejected nat string | AuthPassed string string

definition RequireAuth :: "user_lib \<Rightarrow> 's user_repo \<Rightarrow> uctxs \<Rightarrow> clock \<Rightarrow> auth_request \<Rightarrow> 's user_svc
    \<Rightarrow> auth_outcome \<times> 's user_svc" where
  "RequireAuth lib repo ctx clk r s =
     (case credentialSource r of (_, token) \<Rightarrow>
      if token = '''' then (AuthRejected 401 ''missing or invalid session credential'', s)
      else case ValidateToken lib repo ctx clk token s of
        (Inl err, s') \<Rightarrow>
          (if errors_Is err UErrNotFound then (AuthRejected 401 ''invalid or expired session token'', s')
           else (AuthRejected 503 ''service temporarily unavailable, please retry'', s'))
      | (Inr userID, s') \<Rightarrow> (AuthPassed userID token, s'))"

end
