(* ===== verification/TaskHandler.thy ===== *)
theory TaskHandler
  imports TaskGuarantees UserService
begin

text \<open>
  The HTTP face of the task service (\<^verbatim>\<open>internal/task/handler.go\<close>): the query parameters, the
  entity tags and \<^verbatim>\<open>If-None-Match\<close>, the mapping of errors to responses, the nine handlers and
  the routes, each behind \<^verbatim>\<open>requireAuth\<close>. A request is what the handlers read of it: its method, the
  segments of its path, its query, its \<^verbatim>\<open>If-None-Match\<close> header, and the result of decoding its
  body as JSON (an error, which a body over the size limit also is, or the fields of the request
  struct). A response is the status, the headers and the body the handler writes, with the lines its
  logger got; writing it to the connection is taken to succeed.
\<close>

subsection \<open>Requests and responses\<close>

type_synonym url_values = "(string, string list) gomap"

text \<open>\<^verbatim>\<open>query[key]\<close> and \<^verbatim>\<open>query.Get(key)\<close>.\<close>

definition url_index :: "url_values \<Rightarrow> string \<Rightarrow> string list" where
  "url_index q k = (case map_of q k of None \<Rightarrow> [] | Some vs \<Rightarrow> vs)"

definition url_Get :: "url_values \<Rightarrow> string \<Rightarrow> string" where
  "url_Get q k = (case url_index q k of [] \<Rightarrow> '''' | v # vs \<Rightarrow> v)"

record createTaskRequest =
  req_Title :: string
  req_Description :: string
  req_Priority :: string

record updateTaskRequest =
  upd_Title :: string
  upd_Description :: string
  upd_Priority :: string

record statusRequest =
  req_Status :: string

text \<open>What \<^verbatim>\<open>json.NewDecoder(r.Body).Decode\<close> makes of the body, for each of the three request structs.\<close>

record http_request =
  rq_Method :: string
  rq_Segments :: "string list"
  rq_Query :: url_values
  rq_IfNoneMatch :: string
  rq_Create :: "createTaskRequest option"
  rq_Update :: "updateTaskRequest option"
  rq_Status :: "statusRequest option"

text \<open>
  A JSON value; \<open>JTime\<close> is an instant, which \<^verbatim>\<open>time.Time\<close> writes as a string. \<^verbatim>\<open>encoding/json\<close> writes the
  fields of a struct in order and the entries of a map by key.
\<close>

datatype json =
    JString string
  | JInt int
  | JBool bool
  | JTime time
  | JArray "json list"
  | JObject "(string \<times> json) list"

datatype body = NoBody | JsonBody json | CsvBody string | TextBody string
  | BlobBody string | RangesBody "(string \<times> string) list"

datatype log_level = LogError | LogWarn | LogInfo | LogDebug

record http_response =
  rs_Status :: nat
  rs_Header :: "(string, string) gomap"
  rs_Body :: body
  rs_Log :: "(log_level \<times> string) list"

definition task_json :: "task \<Rightarrow> json" where
  "task_json t = JObject
     [(''id'', JString (t_ID t)), (''title'', JString (t_Title t)),
      (''description'', JString (t_Description t)), (''status'', JString (t_Status t)),
      (''priority'', JString (t_Priority t)), (''created_at'', JTime (t_CreatedAt t)),
      (''updated_at'', JTime (t_UpdatedAt t))]"

definition counts_json :: "(string, int) gomap \<Rightarrow> json" where
  "counts_json g = JObject (map (\<lambda>(k, n). (k, JInt n)) (sort_key fst g))"

definition taskStatsResponse :: "task_stats \<Rightarrow> json" where
  "taskStatsResponse st = JObject
     [(''total'', JInt (st_Total st)), (''by_status'', counts_json (st_ByStatus st)),
      (''by_priority'', counts_json (st_ByPriority st))]"

text \<open>\<^verbatim>\<open>errorResponse\<close>: the reason is left out when empty.\<close>

definition errorResponse :: "string \<Rightarrow> string \<Rightarrow> json" where
  "errorResponse msg reason =
     JObject ((''error'', JString msg) # (if reason = '''' then [] else [(''reason'', JString reason)]))"

definition writeJSON :: "(string, string) gomap \<Rightarrow> nat \<Rightarrow> json \<Rightarrow> http_response" where
  "writeJSON hdr status data =
     \<lparr>rs_Status = status, rs_Header = AList.update ''Content-Type'' ''application/json'' hdr,
      rs_Body = JsonBody data, rs_Log = []\<rparr>"

definition writeError :: "(string, string) gomap \<Rightarrow> nat \<Rightarrow> string \<Rightarrow> http_response" where
  "writeError hdr status msg = writeJSON hdr status (errorResponse msg '''')"

definition writeErrorWithReason :: "(string, string) gomap \<Rightarrow> nat \<Rightarrow> string \<Rightarrow> string \<Rightarrow> http_response" where
  "writeErrorWithReason hdr status msg reason = writeJSON hdr status (errorResponse msg reason)"

subsection \<open>Query parameters\<close>

definition maxTaskListLimit :: int where
  "maxTaskListLimit = 100"

definition parsePagination :: "url_values \<Rightarrow> (int \<times> int) tres" where
  "parsePagination query =
     (let parse_offset = (\<lambda>limit.
            let raw = url_Get query ''offset'' in
            if raw \<noteq> '''' then
              (case Atoi raw of
                 None \<Rightarrow> Inl (invalidInput ''offset must be a non-negative integer'')
               | Some offset \<Rightarrow>
                   if offset < 0 then Inl (invalidInput ''offset must be a non-negative integer'')
                   else Inr (limit, offset))
            else Inr (limit, 0));
          raw = url_Get query ''limit''
      in if raw \<noteq> '''' then
           (case Atoi raw of
              None \<Rightarrow> Inl (invalidInput ''limit must be a non-negative integer'')
            | Some limit \<Rightarrow>
                if limit < 0 then Inl (invalidInput ''limit must be a non-negative integer'')
                else if limit > maxTaskListLimit
                then Inl (invalidInput (''limit must be at most '' @ Itoa maxTaskListLimit))
                else parse_offset limit)
         else parse_offset (- 1))"

subsection \<open>Entity tags\<close>

text \<open>\<open>sha256\<close> is \<^verbatim>\<open>crypto/sha256\<close>; a tag is wrapped in double quotes.\<close>

definition quoted :: "string \<Rightarrow> string" where
  "quoted s = CHR 0x22 # s @ [CHR 0x22]"

definition taskETag :: "task \<Rightarrow> string" where
  "taskETag t = quoted (t_ID t @ '':'' @ Itoa (t_Version t))"

definition pageDigestInput :: "task list \<Rightarrow> string" where
  "pageDigestInput tasks = concat (map (\<lambda>t. t_ID t @ '':'' @ Itoa (t_Version t) @ '';'') tasks)"

definition pageETag :: "(string \<Rightarrow> 8 word list) \<Rightarrow> task list \<Rightarrow> string" where
  "pageETag sha256 tasks = quoted (hex_bytes (sha256 (pageDigestInput tasks)))"

definition ifNoneMatchHits :: "http_request \<Rightarrow> string \<Rightarrow> bool" where
  "ifNoneMatchHits r etag =
     (let header = rq_IfNoneMatch r in
      if header = '''' then False
      else if header = ''*'' then True
      else list_ex (\<lambda>candidate. TrimSpace candidate = etag) (Split (CHR '','') header))"

subsection \<open>Errors\<close>

text \<open>
  \<^verbatim>\<open>int(d.Seconds())\<close>: whole seconds towards zero (the detour over \<^verbatim>\<open>float64\<close> is exact
  below \<open>2 ^ 22\<close> seconds; the configured timeouts are seconds).
\<close>

definition whole_seconds :: "duration \<Rightarrow> int" where
  "whole_seconds d = (if d < 0 then - ((- d) div Second) else d div Second)"

abbreviation logged :: "log_level \<Rightarrow> string \<Rightarrow> http_response \<Rightarrow> http_response" where
  "logged lvl msg rs \<equiv> rs\<lparr>rs_Log := (lvl, msg) # rs_Log rs\<rparr>"

text \<open>\<open>txt\<close> gives the text of each sentinel.\<close>

definition handleServiceError :: "(task_err \<Rightarrow> string) \<Rightarrow> terr \<Rightarrow> http_response" where
  "handleServiceError txt err =
     (if errors_Is err TErrNotFound then writeError [] 404 ''task not found''
      else if errors_Is err TErrInvalidInput then writeError [] 400 (error_text txt err)
      else if errors_Is err TErrAlreadyExists then writeError [] 409 ''task already exists''
      else if errors_Is err TErrConflict
      then writeError [] 409 ''task was modified concurrently, please retry''
      else if errors_Is err TErrInvalidTransition then writeError [] 409 (error_text txt err)
      else if errors_Is err TErrDependencyUnavailable
      then logged LogError ''dependency unavailable''
             (writeError [] 503 ''service temporarily unavailable, please retry'')
      else if errors_Is err TErrUnavailable
      then logged LogWarn ''database circuit open, call rejected''
             (writeError
                (case errors_As_RetryAfter err of
                   Some d \<Rightarrow> [(''Retry-After'', Itoa (whole_seconds d))]
                 | None \<Rightarrow> [])
                503 ''service temporarily unavailable, please retry'')
      else logged LogError ''unexpected service error''
             (writeError [] 500 ''internal server error''))"

definition handleTransitionStatusError :: "(task_err \<Rightarrow> string) \<Rightarrow> terr \<Rightarrow> http_response" where
  "handleTransitionStatusError txt err =
     (if errors_Is err TErrConflict
      then writeErrorWithReason [] 409 ''task was modified concurrently, please retry'' ''concurrency''
      else if errors_Is err TErrInvalidTransition
      then writeErrorWithReason [] 409 (error_text txt err) ''invalid_transition''
      else handleServiceError txt err)"

subsection \<open>Handlers\<close>

text \<open>
  What a \<^verbatim>\<open>Handler\<close> holds: the service (its repository, and the functions it draws from outside), the
  error texts and the hash. The authenticated user is the one \<^verbatim>\<open>requireAuth\<close> left in the request context.
\<close>

record 's handler =
  h_repo :: "'s task_repo"
  h_lib :: task_lib
  h_txt :: "task_err \<Rightarrow> string"
  h_sha256 :: "string \<Rightarrow> 8 word list"

abbreviation badBody :: http_response where
  "badBody \<equiv> writeError [] 400 ''invalid request body''"

definition createTask :: "'s handler \<Rightarrow> ctxs \<Rightarrow> time \<Rightarrow> string + 8 word list \<Rightarrow> string \<Rightarrow> http_request
    \<Rightarrow> 's \<Rightarrow> http_response \<times> 's" where
  "createTask h ctx now rnd userID r s =
     (case rq_Create r of
        None \<Rightarrow> (badBody, s)
      | Some req \<Rightarrow>
          (case CreateTask (h_lib h) (h_repo h) ctx now rnd userID (req_Title req) (req_Description req)
                  (req_Priority req) s of
             (Inl err, s') \<Rightarrow> (handleServiceError (h_txt h) err, s')
           | (Inr task, s') \<Rightarrow> (writeJSON [] 201 (task_json task), s')))"

definition listTasks :: "'s handler \<Rightarrow> ctxs \<Rightarrow> string \<Rightarrow> http_request \<Rightarrow> 's \<Rightarrow> http_response \<times> 's" where
  "listTasks h ctx userID r s =
     (case parsePagination (rq_Query r) of
        Inl err \<Rightarrow> (writeError [] 400 (error_text (h_txt h) err), s)
      | Inr (limit, offset) \<Rightarrow>
          (case ListTasks (h_repo h) ctx userID limit (nat offset) (url_index (rq_Query r) ''status'')
                  (url_index (rq_Query r) ''priority'') s of
             (Inl err, s') \<Rightarrow> (handleServiceError (h_txt h) err, s')
           | (Inr (tasks, tot), s') \<Rightarrow>
               (let etag = pageETag (h_sha256 h) tasks;
                    hdr = [(''X-Total-Count'', Itoa tot), (''ETag'', etag)]
                in if ifNoneMatchHits r etag
                   then (\<lparr>rs_Status = 304, rs_Header = hdr, rs_Body = NoBody, rs_Log = []\<rparr>, s')
                   else (writeJSON hdr 200 (JArray (map task_json tasks)), s'))))"

definition taskStats :: "'s handler \<Rightarrow> ctxs \<Rightarrow> string \<Rightarrow> http_request \<Rightarrow> 's \<Rightarrow> http_response \<times> 's" where
  "taskStats h ctx userID r s =
     (case TaskStats (h_repo h) ctx userID (url_index (rq_Query r) ''status'')
             (url_index (rq_Query r) ''priority'') s of
        (Inl err, s') \<Rightarrow> (handleServiceError (h_txt h) err, s')
      | (Inr stats, s') \<Rightarrow> (writeJSON [] 200 (taskStatsResponse stats), s'))"

definition getTask :: "'s handler \<Rightarrow> ctxs \<Rightarrow> string \<Rightarrow> http_request \<Rightarrow> string \<Rightarrow> 's
    \<Rightarrow> http_response \<times> 's" where
  "getTask h ctx userID r i s =
     (case GetTask (h_repo h) ctx userID i s of
        (Inl err, s') \<Rightarrow> (handleServiceError (h_txt h) err, s')
      | (Inr task, s') \<Rightarrow>
          (let etag = taskETag task; hdr = [(''ETag'', etag)] in
           if ifNoneMatchHits r etag
           then (\<lparr>rs_Status = 304, rs_Header = hdr, rs_Body = NoBody, rs_Log = []\<rparr>, s')
           else (writeJSON hdr 200 (task_json task), s')))"

definition updateTask :: "'s handler \<Rightarrow> ctxs \<Rightarrow> time \<Rightarrow> string \<Rightarrow> http_request \<Rightarrow> string \<Rightarrow> 's
    \<Rightarrow> http_response \<times> 's" where
  "updateTask h ctx now userID r i s =
     (case rq_Update r of
        None \<Rightarrow> (badBody, s)
      | Some req \<Rightarrow>
          (case UpdateTask (h_lib h) (h_repo h) ctx now userID i (upd_Title req) (upd_Description req)
                  (upd_Priority req) s of
             (Inl err, s') \<Rightarrow> (handleServiceError (h_txt h) err, s')
           | (Inr task, s') \<Rightarrow> (writeJSON [] 200 (task_json task), s')))"

definition completeTask :: "'s handler \<Rightarrow> ctxs \<Rightarrow> time \<Rightarrow> string \<Rightarrow> string \<Rightarrow> 's
    \<Rightarrow> http_response \<times> 's" where
  "completeTask h ctx now userID i s =
     (case CompleteTask (h_lib h) (h_repo h) ctx now userID i s of
        (Inl err, s') \<Rightarrow> (handleServiceError (h_txt h) err, s')
      | (Inr task, s') \<Rightarrow> (writeJSON [] 200 (task_json task), s'))"

definition transitionStatus :: "'s handler \<Rightarrow> ctxs \<Rightarrow> time \<Rightarrow> string \<Rightarrow> http_request \<Rightarrow> string \<Rightarrow> 's
    \<Rightarrow> http_response \<times> 's" where
  "transitionStatus h ctx now userID r i s =
     (case rq_Status r of
        None \<Rightarrow> (badBody, s)
      | Some req \<Rightarrow>
          (case TransitionStatus (h_lib h) (h_repo h) ctx now userID i (req_Status req) s of
             (Inl err, s') \<Rightarrow> (handleTransitionStatusError (h_txt h) err, s')
           | (Inr task, s') \<Rightarrow> (writeJSON [] 200 (task_json task), s')))"

definition deleteTask :: "'s handler \<Rightarrow> ctxs \<Rightarrow> string \<Rightarrow> string \<Rightarrow> 's \<Rightarrow> http_response \<times> 's" where
  "deleteTask h ctx userID i s =
     (case DeleteTask (h_repo h) ctx userID i s of
        (Inl err, s') \<Rightarrow> (handleServiceError (h_txt h) err, s')
      | (Inr _, s') \<Rightarrow> (\<lparr>rs_Status = 204, rs_Header = [], rs_Body = NoBody, rs_Log = []\<rparr>, s'))"

lemmas handler_defs = createTask_def listTasks_def taskStats_def getTask_def updateTask_def
  completeTask_def transitionStatus_def deleteTask_def

lemmas response_defs = writeJSON_def writeError_def writeErrorWithReason_def

subsection \<open>A concrete handler and request\<close>

definition demo_handler :: "memory_store handler" where
  "demo_handler = \<lparr>h_repo = memoryRepository, h_lib = demo_lib, h_txt = task_err_text (\<lambda>_. ''''),
     h_sha256 = (\<lambda>s. map (\<lambda>c. word_of_nat (byte c)) s)\<rparr>"

definition demo_request :: http_request where
  "demo_request = \<lparr>rq_Method = ''GET'', rq_Segments = [''tasks''], rq_Query = [], rq_IfNoneMatch = '''',
     rq_Create = None, rq_Update = None, rq_Status = None\<rparr>"

lemma demo_listing:
  assumes "is_listing (map_of [(demo_id, demo_task)]) ''ann'' [] [] xs"
  shows "xs = [demo_task]"
proof -
  have "mem_matching ''ann'' [] [] [(demo_id, demo_task)] = [demo_task]"
    by (simp add: passes_def demo_task_def)
  then show ?thesis
    using is_listing_unique [OF mem.keyed [OF demo_store_inv] assms is_listing_memory [OF demo_store_inv]] by simp
qed

end
