(* ===== verification/TaskCSV.thy ===== *)
theory TaskCSV
  imports TaskHandler
begin

text \<open>
  The CSV export of \<^verbatim>\<open>internal/task/csv_export.go\<close>: the file name and the
  \<^verbatim>\<open>Content-Disposition\<close> header, the neutralising of cells a spreadsheet would evaluate, the writer of
  \<^verbatim>\<open>encoding/csv\<close> with \<^verbatim>\<open>UseCRLF\<close>, and the handler. The rows are written one by one; the
  body below is their concatenation when every write succeeds.
\<close>

subsection \<open>Calendar: time.Time's UTC().Format\<close>

text \<open>
  The proleptic Gregorian date of a day counted from 1970-01-01 (years that start in March), and the
  layouts \<^verbatim>\<open>2006-01-02\<close> and \<^verbatim>\<open>time.RFC3339\<close> in UTC for the years 0 to 9999.
\<close>

definition civil :: "int \<Rightarrow> int \<times> int \<times> int" where
  "civil days =
     (let z = days + 719468; era = z div 146097; doe = z mod 146097;
          yoe = (doe - doe div 1460 + doe div 36524 - doe div 146096) div 365;
          doy = doe - (365 * yoe + yoe div 4 - yoe div 100);
          mp = (5 * doy + 2) div 153;
          d = doy - (153 * mp + 2) div 5 + 1;
          m = (if mp < 10 then mp + 3 else mp - 9);
          y = yoe + era * 400 + (if m \<le> 2 then 1 else 0)
      in (y, m, d))"

definition padded :: "nat \<Rightarrow> int \<Rightarrow> string" where
  "padded w n = (let ds = show_nat (nat n) in replicate (w - length ds) (CHR ''0'') @ ds)"

definition seconds_of :: "time \<Rightarrow> int" where
  "seconds_of t = t div Second"

definition format_date :: "time \<Rightarrow> string" where
  "format_date t =
     (case civil (seconds_of t div 86400) of (y, m, d) \<Rightarrow> padded 4 y @ ''-'' @ padded 2 m @ ''-'' @ padded 2 d)"

definition format_RFC3339 :: "time \<Rightarrow> string" where
  "format_RFC3339 t =
     (let sec = seconds_of t mod 86400 in
      format_date t @ ''T'' @ padded 2 (sec div 3600) @ '':'' @ padded 2 (sec div 60 mod 60) @ '':'' @
      padded 2 (sec mod 60) @ ''Z'')"

subsection \<open>The file name\<close>

definition exportFilename :: "time \<Rightarrow> string list \<Rightarrow> string list \<Rightarrow> string" where
  "exportFilename now statuses priorities =
     ''tasks-'' @ format_date now @
     (if statuses \<noteq> [] then ''-status-'' @ Join ''-'' statuses else '''') @
     (if priorities \<noteq> [] then ''-priority-'' @ Join ''-'' priorities else '''') @ ''.csv''"

text \<open>
  \<^verbatim>\<open>mime.FormatMediaType("attachment", {"filename": v})\<close>: bare when \<open>v\<close> is a token, percent-encoded
  when it has a byte outside the printable ASCII range and the tab, quoted otherwise.
\<close>

definition isTokenChar :: "char \<Rightarrow> bool" where
  "isTokenChar c \<longleftrightarrow> 32 < byte c \<and> byte c < 127 \<and> c \<notin> set (CHR 0x22 # ''()<>@,;:/[]?='' @ [CHR 0x5C])"

definition isToken :: "string \<Rightarrow> bool" where
  "isToken s \<longleftrightarrow> s \<noteq> '''' \<and> list_all isTokenChar s"

definition needsEncoding :: "string \<Rightarrow> bool" where
  "needsEncoding s \<longleftrightarrow> list_ex (\<lambda>c. (byte c < 32 \<or> byte c > 126) \<and> c \<noteq> CHR 0x09) s"

definition upper_hex :: "nat \<Rightarrow> char" where
  "upper_hex d = ''0123456789ABCDEF'' ! d"

definition FormatMediaType_attachment :: "string \<Rightarrow> string" where
  "FormatMediaType_attachment v =
     ''attachment; filename'' @
     (if needsEncoding v then
        ''*=utf-8'' @ [CHR 0x27, CHR 0x27] @
        concat (map (\<lambda>c. if byte c \<le> 32 \<or> byte c \<ge> 127 \<or> c \<in> {CHR ''*'', CHR 0x27, CHR ''%''} \<or> \<not> isTokenChar c
                         then [CHR ''%'', upper_hex (byte c div 16), upper_hex (byte c mod 16)] else [c]) v)
      else if isToken v then ''='' @ v
      else ''='' @ [CHR 0x22] @
        concat (map (\<lambda>c. if c = CHR 0x22 \<or> c = CHR 0x5C then [CHR 0x5C, c] else [c]) v) @ [CHR 0x22])"

subsection \<open>Cells\<close>

definition csvFormulaTriggers :: string where
  "csvFormulaTriggers = ''=+-@'' @ [CHR 0x09, CHR 0x0D]"

text \<open>\<^verbatim>\<open>strings.ContainsRune(csvFormulaTriggers, rune(field[0]))\<close> looks for the first byte as a code point.\<close>

definition sanitizeCSVCell :: "string \<Rightarrow> string" where
  "sanitizeCSVCell field =
     (case field of
        [] \<Rightarrow> field
      | c # _ \<Rightarrow> if c \<in> set csvFormulaTriggers then CHR 0x27 # field else field)"

subsection \<open>encoding/csv's Writer with UseCRLF\<close>

definition fieldNeedsQuotes :: "string \<Rightarrow> bool" where
  "fieldNeedsQuotes field =
     (if field = '''' then False
      else if field = [CHR 0x5C, CHR ''.''] then True
      else list_ex (\<lambda>c. c = CHR 0x0A \<or> c = CHR 0x0D \<or> c = CHR 0x22 \<or> c = CHR '','') field \<or>
           IsSpace (fst (decode_rune field)))"

definition quote_char :: "char \<Rightarrow> string" where
  "quote_char c =
     (if c = CHR 0x22 then [CHR 0x22, CHR 0x22]
      else if c = CHR 0x0D then []
      else if c = CHR 0x0A then [CHR 0x0D, CHR 0x0A]
      else [c])"

definition csv_field :: "string \<Rightarrow> string" where
  "csv_field field =
     (if \<not> fieldNeedsQuotes field then field
      else CHR 0x22 # concat (map quote_char field) @ [CHR 0x22])"

definition csv_Write :: "string list \<Rightarrow> string" where
  "csv_Write record = Join '','' (map csv_field record) @ [CHR 0x0D, CHR 0x0A]"

subsection \<open>The export handler\<close>

definition utf8BOM :: string where
  "utf8BOM = [CHR 0xEF, CHR 0xBB, CHR 0xBF]"

definition csvExportHeader :: "string list" where
  "csvExportHeader = [''id'', ''title'', ''description'', ''status'', ''priority'', ''created_at'', ''updated_at'']"

definition csv_row :: "task \<Rightarrow> string list" where
  "csv_row t =
     [t_ID t, sanitizeCSVCell (t_Title t), sanitizeCSVCell (t_Description t), t_Status t, t_Priority t,
      format_RFC3339 (t_CreatedAt t), format_RFC3339 (t_UpdatedAt t)]"

definition export_body :: "task list \<Rightarrow> string" where
  "export_body tasks = utf8BOM @ csv_Write csvExportHeader @ concat (map (\<lambda>t. csv_Write (csv_row t)) tasks)"

definition exportTasks :: "'s handler \<Rightarrow> ctxs \<Rightarrow> time \<Rightarrow> string \<Rightarrow> http_request \<Rightarrow> 's
    \<Rightarrow> http_response \<times> 's" where
  "exportTasks h ctx now userID r s =
     (let statuses = url_index (rq_Query r) ''status''; priorities = url_index (rq_Query r) ''priority'' in
      case ExportTasks (h_repo h) ctx userID statuses priorities s of
        (Inl err, s') \<Rightarrow> (handleServiceError (h_txt h) err, s')
      | (Inr tasks, s') \<Rightarrow>
          (let filename = exportFilename now statuses priorities;
               d = FormatMediaType_attachment filename;
               disposition = (if d = '''' then ''attachment'' else d)
           in (\<lparr>rs_Status = 200,
                rs_Header = [(''Content-Type'', ''text/csv; charset=utf-8''), (''Content-Disposition'', disposition)],
                rs_Body = CsvBody (export_body tasks), rs_Log = []\<rparr>, s')))"

subsection \<open>Reading the export back\<close>

text \<open>
  A reader of RFC 4180: records end with CR LF, fields are separated by commas, a field in double
  quotes may hold any bytes with the quote doubled, a field without quotes holds no quote, CR or LF.
\<close>

datatype csv_mode = FieldStart | Plain | Quoted | QuoteSeen

fun csv_scan :: "csv_mode \<Rightarrow> string \<Rightarrow> string list \<Rightarrow> string list list \<Rightarrow> string \<Rightarrow> string list list option" where
  "csv_scan m cell row rows [] = (if m = FieldStart \<and> row = [] then Some rows else None)"
| "csv_scan Quoted cell row rows (c # cs) =
     (if c = CHR 0x22 then csv_scan QuoteSeen cell row rows cs
      else csv_scan Quoted (cell @ [c]) row rows cs)"
| "csv_scan m cell row rows (c # cs) =
     (if c = CHR '','' then csv_scan FieldStart [] (row @ [cell]) rows cs
      else if c = CHR 0x0D then
        (case cs of
           d # ds \<Rightarrow> if d = CHR 0x0A then csv_scan FieldStart [] [] (rows @ [row @ [cell]]) ds else None
         | [] \<Rightarrow> None)
      else if c = CHR 0x0A then None
      else if c = CHR 0x22 then
        (if m = FieldStart then csv_scan Quoted cell row rows cs
         else if m = QuoteSeen then csv_scan Quoted (cell @ [c]) row rows cs
         else None)
      else if m = QuoteSeen then None
      else csv_scan Plain (cell @ [c]) row rows cs)"

definition csv_read :: "string \<Rightarrow> string list list option" where
  "csv_read s = csv_scan FieldStart [] [] [] (if take 3 s = utf8BOM then drop 3 s else s)"

text \<open>What a field is read back as: with \<^verbatim>\<open>UseCRLF\<close> the writer drops CR and writes LF as CR LF.\<close>

definition crlf_text :: "string \<Rightarrow> string" where
  "crlf_text s = concat (map (\<lambda>c. if c = CHR 0x0D then [] else if c = CHR 0x0A then [CHR 0x0D, CHR 0x0A] else [c]) s)"

lemma crlf_text_simps [simp]:
  "crlf_text [] = []"
  "crlf_text (c # s) = (if c = CHR 0x0D then [] else if c = CHR 0x0A then [CHR 0x0D, CHR 0x0A] else [c]) @ crlf_text s"
  by (simp_all add: crlf_text_def)

lemma csv_scan_end:
  "rest = CHR '','' # xs \<or> rest = CHR 0x0D # CHR 0x0A # xs \<Longrightarrow>
     csv_scan m cell row rows rest = (if m = Quoted then csv_scan Quoted cell row rows rest else csv_scan Plain cell row rows rest)"
  by (cases m) auto

lemma csv_scan_plain:
  assumes "\<forall>c \<in> set f. c \<notin> {CHR 0x0A, CHR 0x0D, CHR 0x22, CHR '',''}"
  shows "csv_scan Plain cell row rows (f @ rest) = csv_scan Plain (cell @ f) row rows rest"
  using assms by (induction f arbitrary: cell) auto

lemma csv_scan_quoted:
  "csv_scan Quoted cell row rows (concat (map quote_char f) @ rest) =
     csv_scan Quoted (cell @ crlf_text f) row rows rest"
  by (induction f arbitrary: cell) (auto simp: quote_char_def)

lemma crlf_text_plain:
  "\<forall>c \<in> set f. c \<notin> {CHR 0x0A, CHR 0x0D, CHR 0x22, CHR '',''} \<Longrightarrow> crlf_text f = f"
  by (induction f) auto

lemma csv_scan_field:
  assumes "rest = CHR '','' # xs \<or> rest = CHR 0x0D # CHR 0x0A # xs"
  shows "csv_scan FieldStart [] row rows (csv_field f @ rest) = csv_scan Plain (crlf_text f) row rows rest"
proof (cases "fieldNeedsQuotes f")
  case True
  then show ?thesis using csv_scan_end [OF assms, of QuoteSeen]
    by (simp add: csv_field_def csv_scan_quoted)
next
  case False
  show ?thesis
  proof (cases f)
    case Nil
    then show ?thesis using csv_scan_end [OF assms, of FieldStart]
      by (simp add: csv_field_def fieldNeedsQuotes_def)
  next
    case (Cons c f')
    with False have plain: "\<forall>c \<in> set f. c \<notin> {CHR 0x0A, CHR 0x0D, CHR 0x22, CHR '',''}"
      by (auto simp: fieldNeedsQuotes_def list_ex_iff split: if_splits)
    with Cons have "csv_scan FieldStart [] row rows (f @ rest) = csv_scan Plain [c] row rows (f' @ rest)"
      by auto
    also have "\<dots> = csv_scan Plain f row rows rest"
      using csv_scan_plain [of f' "[c]"] plain Cons by simp
    finally show ?thesis using False plain by (simp add: csv_field_def crlf_text_plain)
  qed
qed

lemma csv_scan_record:
  assumes "rec \<noteq> []"
  shows "csv_scan FieldStart [] row rows (csv_Write rec @ rest) =
    csv_scan FieldStart [] [] (rows @ [row @ map crlf_text rec]) rest"
  using assms unfolding csv_Write_def
proof (induction "'',''" "map csv_field rec" arbitrary: rec row rule: Join.induct)
  case (2 x)
  then obtain f where "rec = [f]" "x = csv_field f" by auto
  then show ?case using csv_scan_field [of "CHR 0x0D # CHR 0x0A # rest" rest] by simp
next
  case (3 x y ys)
  then obtain f g fs where rec: "rec = f # g # fs" "x = csv_field f" "y = csv_field g" "ys = map csv_field fs"
    by (cases rec; cases "tl rec") auto
  with 3(1) [of "g # fs" "row @ [crlf_text f]"] show ?case
    using csv_scan_field [of "CHR '','' # Join '','' (csv_field g # map csv_field fs) @ CHR 0x0D # CHR 0x0A # rest"
        "Join '','' (csv_field g # map csv_field fs) @ CHR 0x0D # CHR 0x0A # rest" row rows f]
    by simp
qed auto

lemma csv_scan_records:
  assumes "\<forall>rec \<in> set recs. rec \<noteq> []"
  shows "csv_scan FieldStart [] [] rows (concat (map csv_Write recs)) = Some (rows @ map (map crlf_text) recs)"
  using assms by (induction recs arbitrary: rows) (auto simp: csv_scan_record)

lemma csv_read_export:
  "csv_read (export_body tasks) = Some (csvExportHeader # map (\<lambda>t. map crlf_text (csv_row t)) tasks)"
proof -
  have "csv_read (export_body tasks) =
      csv_scan FieldStart [] [] [] (concat (map csv_Write (csvExportHeader # map csv_row tasks)))"
    by (simp add: csv_read_def export_body_def utf8BOM_def comp_def)
  also have "\<dots> = Some (map (map crlf_text) (csvExportHeader # map csv_row tasks))"
    by (subst csv_scan_records) (auto simp: csvExportHeader_def csv_row_def)
  also have "map crlf_text csvExportHeader = csvExportHeader"
    by (simp add: csvExportHeader_def crlf_text_plain)
  ultimately show ?thesis by (simp add: comp_def)
qed

subsection \<open>What the cells hold\<close>

text \<open>
  The cell of a text, said without the code: an apostrophe first if the text starts with one of the six characters, then the
  text with its line ends as CR LF.
\<close>

definition text_cell :: "string \<Rightarrow> string" where
  "text_cell x = (if x \<noteq> [] \<and> hd x \<in> {CHR ''='', CHR ''+'', CHR ''-'', CHR ''@'', CHR 0x09, CHR 0x0D} then [CHR 0x27] else []) @ crlf_text x"

definition task_cells :: "task \<Rightarrow> string list" where
  "task_cells t = [t_ID t, text_cell (t_Title t), text_cell (t_Description t), t_Status t, t_Priority t,
     format_RFC3339 (t_CreatedAt t), format_RFC3339 (t_UpdatedAt t)]"

definition starts_formula :: "string \<Rightarrow> bool" where
  "starts_formula cell \<longleftrightarrow> cell \<noteq> [] \<and> hd cell \<in> {CHR ''='', CHR ''+'', CHR ''-'', CHR ''@'', CHR 0x09, CHR 0x0D}"

lemma crlf_sanitized: "crlf_text (sanitizeCSVCell x) = text_cell x"
  by (auto simp: sanitizeCSVCell_def text_cell_def csvFormulaTriggers_def split: list.split)

lemma text_cell_safe: "x = [] \<or> hd x \<noteq> CHR 0x0A \<Longrightarrow> \<not> starts_formula (text_cell x)"
  by (cases x) (auto simp: text_cell_def starts_formula_def)

text \<open>The other cells hold letters, digits, hyphens, underscores and colons, and start with a letter or digit.\<close>

definition plain_char :: "char \<Rightarrow> bool" where
  "plain_char c \<longleftrightarrow> is_digit c \<or> 97 \<le> byte c \<and> byte c \<le> 122 \<or> 65 \<le> byte c \<and> byte c \<le> 90 \<or> c \<in> {CHR ''-'', CHR ''_'', CHR '':''}"

definition plain_cell :: "string \<Rightarrow> bool" where
  "plain_cell x \<longleftrightarrow> list_all plain_char x \<and> x \<noteq> [] \<and> hd x \<noteq> CHR ''-''"

lemma plain_char_not:
  "plain_char c \<Longrightarrow> c \<noteq> CHR 0x0A \<and> c \<noteq> CHR 0x0D \<and> c \<noteq> CHR 0x09 \<and> c \<noteq> CHR ''='' \<and> c \<noteq> CHR ''+'' \<and> c \<noteq> CHR ''@''"
  by (auto simp: plain_char_def is_digit_def)

lemma plain_cell_safe: "plain_cell x \<Longrightarrow> \<not> starts_formula x"
  by (cases x) (auto simp: plain_cell_def starts_formula_def dest: plain_char_not)

lemma plain_cell_crlf: "plain_cell x \<Longrightarrow> crlf_text x = x"
proof -
  have "list_all plain_char x \<Longrightarrow> crlf_text x = x" by (induction x) (auto dest: plain_char_not)
  then show "plain_cell x \<Longrightarrow> crlf_text x = x" by (simp add: plain_cell_def)
qed

lemma plain_padded: "list_all plain_char (padded w n) \<and> padded w n \<noteq> [] \<and> hd (padded w n) \<noteq> CHR ''-''"
proof -
  have d: "is_digit c" if "c \<in> set (padded w n)" for c
    using that show_nat_digits [of "nat n"] by (auto simp: padded_def Let_def list_all_iff is_digit_def)
  have ne: "padded w n \<noteq> []" by (simp add: padded_def Let_def)
  then have "hd (padded w n) \<in> set (padded w n)" by simp
  then have "hd (padded w n) \<noteq> CHR ''-''" using d by (fastforce simp: is_digit_def)
  with d ne show ?thesis by (auto simp: list_all_iff plain_char_def)
qed

lemma plain_time: "plain_cell (format_RFC3339 t)"
proof -
  obtain y m d where c: "civil (seconds_of t div 86400) = (y, m, d)" by (metis prod_cases3)
  have lits: "plain_char (CHR ''-'')" "plain_char (CHR ''T'')" "plain_char (CHR '':'')" "plain_char (CHR ''Z'')"
    by (simp_all add: plain_char_def)
  show ?thesis
    using plain_padded by (simp add: plain_cell_def format_RFC3339_def format_date_def c Let_def lits)
qed

lemma plain_hex: "is_hex c \<Longrightarrow> plain_char c \<and> c \<noteq> CHR ''-''"
  by (auto simp: is_hex_def plain_char_def is_digit_def)

lemma plain_id: "isValidID i \<Longrightarrow> plain_cell i"
proof -
  assume v: "isValidID i"
  have "list_all plain_char i"
    using v unfolding isValidID_def list_all_length list_all2_conv_all_nth
    by (metis plain_hex plain_char_def insertI1)
  moreover have "i \<noteq> [] \<and> hd i \<noteq> CHR ''-''"
    using v plain_hex by (cases i) (auto simp: isValidID_def idPattern_def eval_nat_numeral)
  ultimately show ?thesis by (simp add: plain_cell_def)
qed

lemma plain_known:
  "x \<in> set all_statuses \<Longrightarrow> plain_cell x" "x \<in> set all_priorities \<Longrightarrow> plain_cell x"
  by (auto simp: all_statuses_def all_priorities_def status_defs priority_defs plain_cell_def plain_char_def)

lemma csv_row_read: "task_ok t \<Longrightarrow> map crlf_text (csv_row t) = task_cells t"
  by (simp add: csv_row_def task_cells_def crlf_sanitized task_ok_def plain_cell_crlf plain_id plain_known plain_time)

lemma task_cells_safe:
  assumes "task_ok t" and "hd (t_Title t) \<noteq> CHR 0x0A" and "t_Description t = [] \<or> hd (t_Description t) \<noteq> CHR 0x0A"
  shows "\<forall>cell \<in> set (task_cells t). \<not> starts_formula cell"
  using assms by (simp add: task_cells_def task_ok_def text_cell_safe plain_cell_safe plain_id plain_known plain_time)

subsection \<open>The file name is a token\<close>

lemma token_digits: "list_all isTokenChar (show_nat n)"
  using show_nat_digits [of n]
  by (fastforce simp: list_all_iff isTokenChar_def is_digit_def)

lemma isTokenChar_0 [simp]: "isTokenChar (CHR ''0'')"
  by (simp add: isTokenChar_def)

lemma token_padded: "list_all isTokenChar (padded w n)"
  using token_digits by (auto simp: padded_def Let_def list_all_iff)

lemma token_Join: "\<forall>x \<in> set xs. list_all isTokenChar x \<Longrightarrow> list_all isTokenChar (Join ''-'' xs)"
  by (induction "''-''" xs rule: Join.induct) (auto simp: isTokenChar_def)

lemma token_literals:
  "list_all isTokenChar ''tasks-''" "list_all isTokenChar ''-status-''" "list_all isTokenChar ''-priority-''"
  "list_all isTokenChar ''.csv''" "list_all isTokenChar ''-''" "list_all isTokenChar ''''"
  by (simp_all add: isTokenChar_def)

lemma token_known:
  "x \<in> set all_statuses \<Longrightarrow> list_all isTokenChar x" "x \<in> set all_priorities \<Longrightarrow> list_all isTokenChar x"
  by (auto simp: all_statuses_def all_priorities_def status_defs priority_defs isTokenChar_def)

lemma exportFilename_token:
  assumes "validateStatusFilters sts = Inr st" and "validatePriorityFilters prs = Inr p"
  shows "isToken (exportFilename now sts prs)"
proof -
  have "x = '''' \<or> x \<in> set all_statuses" if "x \<in> set sts" for x
    using validateStatusFilters_Inr [OF assms(1)] that by blast
  then have 1: "list_all isTokenChar (Join ''-'' sts)"
    by (metis token_Join token_known(1) token_literals(6))
  have "x = '''' \<or> x \<in> set all_priorities" if "x \<in> set prs" for x
    using validatePriorityFilters_Inr [OF assms(2)] that by blast
  then have 2: "list_all isTokenChar (Join ''-'' prs)"
    by (metis token_Join token_known(2) token_literals(6))
  have 3: "list_all isTokenChar (format_date now)"
    by (simp only: format_date_def list_all_append token_padded token_literals split: prod.split) simp
  show ?thesis
    unfolding isToken_def exportFilename_def list_all_append if_distrib [of "list_all isTokenChar"]
    by (simp only: 1 2 3 token_literals if_True simp_thms if_cancel) simp
qed

lemma FormatMediaType_token:
  assumes "isToken v"
  shows "FormatMediaType_attachment v = ''attachment; filename='' @ v"
proof -
  have "32 < byte c \<and> byte c < 127" if "c \<in> set v" for c
    using assms that by (auto simp: isToken_def list_all_iff isTokenChar_def)
  then have "\<not> needsEncoding v"
    by (fastforce simp: needsEncoding_def list_ex_iff)
  with assms show ?thesis by (simp add: FormatMediaType_attachment_def)
qed

subsection \<open>The download\<close>

text \<open>
  C12. \<^verbatim>\<open>GET /tasks/export\<close> end to end, over the in-memory store of well-formed tasks with an accepted filter: the
  answer is 400 when more than 10000 tasks match, and otherwise a download whose bytes, read as
  RFC 4180 CSV, are the row of the seven column names and one row for every matching task, in the listing's order: its identifier, its
  title and description as \<open>text_cell\<close> says, its status, priority and the two times. No cell of the file starts with a
  character a spreadsheet takes for a formula, as long as no title or description starts with a newline (the service
  trims both), and the suggested file name is a plain token, so that nothing in the query can break out of the header.
\<close>

theorem export_download:
  assumes "mem_inv s" and "\<forall>t \<in> ran (map_of s). task_ok t" and "h_repo h = memoryRepository"
    and "validateStatusFilters (url_index (rq_Query r) ''status'') = Inr st"
    and "validatePriorityFilters (url_index (rq_Query r) ''priority'') = Inr p"
    and "exportTasks h live now u r s = (rs, s')"
  shows "\<exists>xs. is_listing (map_of s) u st p xs \<and>
    (if 10000 < length xs then rs_Status rs = 400
     else rs_Status rs = 200 \<and>
       (\<exists>bytes name rows. rs_Body rs = CsvBody bytes \<and> csv_read bytes = Some rows \<and>
          rows = [''id'', ''title'', ''description'', ''status'', ''priority'', ''created_at'', ''updated_at''] # map task_cells xs \<and>
          ((\<forall>t \<in> set xs. hd (t_Title t) \<noteq> CHR 0x0A \<and> (t_Description t = [] \<or> hd (t_Description t) \<noteq> CHR 0x0A)) \<longrightarrow>
             (\<forall>row \<in> set rows. \<forall>cell \<in> set row. \<not> starts_formula cell)) \<and>
          map_of (rs_Header rs) ''Content-Disposition'' = Some (''attachment; filename='' @ name) \<and> isToken name))"
proof -
  let ?sts = "url_index (rq_Query r) ''status''" and ?prs = "url_index (rq_Query r) ''priority''"
  let ?name = "exportFilename now ?sts ?prs"
  obtain xs where xs: "is_listing (map_of s) u st p xs"
    and ex: "if int (length xs) \<le> maxExportRows then fst (ExportTasks memoryRepository live u ?sts ?prs s) = Inr xs
      else \<exists>m. fst (ExportTasks memoryRepository live u ?sts ?prs s) = Inl (invalidInput m)"
    using mem.ExportTasks_live [OF assms(1) _ assms(4,5)] by blast
  have ok: "task_ok t" if "t \<in> set xs" for t using that xs assms(2) by (simp add: is_listing_def)
  have tok: "isToken ?name" by (rule exportFilename_token [OF assms(4,5)])
  have disp: "FormatMediaType_attachment ?name = ''attachment; filename='' @ ?name"
    by (rule FormatMediaType_token [OF tok])
  show ?thesis
  proof (cases "10000 < length xs")
    case True
    with ex obtain m where "fst (ExportTasks memoryRepository live u ?sts ?prs s) = Inl (invalidInput m)"
      by (auto simp: maxExportRows_def)
    with assms(3,6) have "rs_Status rs = 400"
      by (auto simp: exportTasks_def Let_def handleServiceError_def response_defs split: prod.splits sum.splits)
    with xs True show ?thesis by auto
  next
    case False
    with ex have "fst (ExportTasks memoryRepository live u ?sts ?prs s) = Inr xs"
      by (auto simp: maxExportRows_def split: if_splits)
    with assms(3,6) have rs: "rs = \<lparr>rs_Status = 200, rs_Header = [(''Content-Type'', ''text/csv; charset=utf-8''),
        (''Content-Disposition'', ''attachment; filename='' @ ?name)],
        rs_Body = CsvBody (export_body xs), rs_Log = []\<rparr>"
      by (auto simp: exportTasks_def Let_def disp split: prod.splits sum.splits)
    let ?rows = "[''id'', ''title'', ''description'', ''status'', ''priority'', ''created_at'', ''updated_at''] # map task_cells xs"
    have rows: "csv_read (export_body xs) = Some ?rows"
      using csv_read_export [of xs] csv_row_read ok by (simp add: csvExportHeader_def cong: map_cong)
    have "\<forall>row \<in> set ?rows. \<forall>cell \<in> set row. \<not> starts_formula cell"
      if "\<forall>t \<in> set xs. hd (t_Title t) \<noteq> CHR 0x0A \<and> (t_Description t = [] \<or> hd (t_Description t) \<noteq> CHR 0x0A)"
      using that task_cells_safe ok by (auto simp: starts_formula_def)
    with rows rs xs False tok show ?thesis by auto
  qed
qed

theorem export_download_witness:
  "\<exists>bytes. rs_Body (fst (exportTasks demo_handler live 7 ''ann'' demo_request [(demo_id, demo_task)])) = CsvBody bytes \<and>
     csv_read bytes = Some [[''id'', ''title'', ''description'', ''status'', ''priority'', ''created_at'', ''updated_at''], task_cells demo_task]"
proof -
  obtain rs s' where run: "exportTasks demo_handler live 7 ''ann'' demo_request [(demo_id, demo_task)] = (rs, s')"
    by fastforce
  have repo: "h_repo demo_handler = memoryRepository" by (simp add: demo_handler_def)
  have ok: "\<forall>t \<in> ran (map_of [(demo_id, demo_task)]). task_ok t"
    using demo_id_valid by (simp add: task_ok_def text_ok_def demo_task_def maxTitleLen_def maxDescriptionLen_def
      go_eval all_statuses_def status_defs all_priorities_def priority_defs)
  have "url_index (rq_Query demo_request) k = []" for k by (simp add: demo_request_def url_index_def)
  then have sts: "validateStatusFilters (url_index (rq_Query demo_request) ''status'') = Inr []"
    and prs: "validatePriorityFilters (url_index (rq_Query demo_request) ''priority'') = Inr []"
    by (simp_all add: validateStatusFilters_def validatePriorityFilters_def maxFilterValues_def)
  from export_download [OF demo_store_inv ok repo sts prs run] demo_listing run show ?thesis by fastforce
qed

end
