(* ===== verification/UserGuarantees.thy ===== *)
theory UserGuarantees
  imports UserService
begin

text \<open>
  What the account service guarantees over the in-memory store: registration and login, the life of a session token
  in one process, revocation across processes, and the authentication of requests.
\<close>

abbreviation ulive :: uctxs where
  "ulive \<equiv> (\<lambda>_. ULive)"

lemma unless_done_live [simp]: "unless_done ULive f s = f s"
  by (simp add: unless_done_def)

lemma on_repo_apply: "on_repo f s = (fst (f (us_repo s)), s\<lparr>us_repo := snd (f (us_repo s))\<rparr>)"
  by (simp add: on_repo_def split_beta)

subsection \<open>Registration and login\<close>

text \<open>
  What the service relies on of bcrypt: a hash matches the password it was made from. Which other passwords match it is
  bcrypt's affair (its key is the password with a NUL byte, repeated and cut at 72 bytes), and nothing is assumed about it.
\<close>

definition bcrypt_ok :: "user_lib \<Rightarrow> bool" where
  "bcrypt_ok lib \<longleftrightarrow> (\<forall>salt p h. ul_bcrypt lib salt p = Inr h \<longrightarrow> ul_compare lib h p)"

lemma Authenticate_live:
  "Authenticate lib userMemory ulive clk email password s =
    (let n = normalizeEmail (ul_lower lib) email; d = fst (lb_delay (clk 0) n (us_backoff s));
         b = snd (lb_delay (clk 0) n (us_backoff s));
         failed = (Inl (Sentinel UErrInvalidCredentials),
           s\<lparr>us_backoff := lb_recordFailure (clk 1) n b, us_slept := us_slept s @ [d]\<rparr>)
     in case map_of (um_usersByEmail (us_repo s)) n of
          None \<Rightarrow> failed
        | Some i \<Rightarrow>
            (let u = (case map_of (um_usersByID (us_repo s)) i of Some u \<Rightarrow> u | None \<Rightarrow> zero_user) in
             if ul_compare lib (u_PasswordHash u) password
             then (Inr u, s\<lparr>us_backoff := lb_recordSuccess n b, us_slept := us_slept s @ [d]\<rparr>) else failed))"
  by (simp add: Authenticate_def Let_def split_beta on_repo_apply um_FindUserByEmail_def login_failed_def split: option.split)

text \<open>Registering adds one account under its address, and a taken address cannot be registered.\<close>

lemma Register_cases:
  assumes "Register lib userMemory ulive clk salt rnd email password s = (Inr u, s')"
  obtains hash where "ul_bcrypt lib salt password = Inr hash" "u_PasswordHash u = hash" "u_Email u = normalizeEmail (ul_lower lib) email"
    "map_of (um_usersByEmail (us_repo s)) (u_Email u) = None"
    "um_CreateUser ULive u (us_repo s) = (Inr (), us_repo s')"
    "us_repo s' = us_repo s\<lparr>um_usersByID := AList.update (u_ID u) u (um_usersByID (us_repo s)),
      um_usersByEmail := AList.update (u_Email u) (u_ID u) (um_usersByEmail (us_repo s))\<rparr>"
proof -
  from assms obtain hash where h: "ul_bcrypt lib salt password = Inr hash" "u_PasswordHash u = hash"
      "u_Email u = normalizeEmail (ul_lower lib) email" and c: "um_CreateUser ULive u (us_repo s) = (Inr (), us_repo s')"
    by (auto simp: Register_def validateEmail_def Let_def on_repo_apply prod_eq_iff split: sum.splits option.splits)
  from c have "map_of (um_usersByEmail (us_repo s)) (u_Email u) = None"
    "us_repo s' = us_repo s\<lparr>um_usersByID := AList.update (u_ID u) u (um_usersByID (us_repo s)),
      um_usersByEmail := AList.update (u_Email u) (u_ID u) (um_usersByEmail (us_repo s))\<rparr>"
    by (simp_all add: um_CreateUser_def split: if_splits)
  with h c that show thesis by blast
qed

text \<open>
  C14. Registering makes the account usable: after a successful registration, logging in with the same password and
  the address in any spelling that normalizes alike returns that user. Any password is accepted exactly when bcrypt's
  comparison accepts it against the hash made from the registered one, and refused as invalid credentials otherwise. Logins with
  any other address answer as they did before, and nobody can register the address again.
\<close>

theorem register_then_login:
  assumes "bcrypt_ok lib" and "um_inv (us_repo s)"
    and "Register lib userMemory ulive clk salt (Inr rnd) email password s = (Inr u, s1)"
    and "map_of (um_usersByID (us_repo s)) (u_ID u) = None"
    and "normalizeEmail (ul_lower lib) email' = normalizeEmail (ul_lower lib) email"
  shows "fst (Authenticate lib userMemory ulive clk' email' password s1) = Inr u \<and>
    (\<exists>hash. ul_bcrypt lib salt password = Inr hash \<and>
      (\<forall>q. fst (Authenticate lib userMemory ulive clk' email' q s1) =
         (if ul_compare lib hash q then Inr u else Inl (Sentinel UErrInvalidCredentials)))) \<and>
    (\<forall>other q. normalizeEmail (ul_lower lib) other \<noteq> normalizeEmail (ul_lower lib) email \<longrightarrow>
       fst (Authenticate lib userMemory ulive clk' other q s1) = fst (Authenticate lib userMemory ulive clk' other q s)) \<and>
    (\<forall>clk2 salt2 rnd2 password2 v. fst (Register lib userMemory ulive clk2 salt2 rnd2 email' password2 s1) \<noteq> Inr v) \<and>
    um_inv (us_repo s1)"
proof -
  from assms(3) obtain hash where h: "ul_bcrypt lib salt password = Inr hash" "u_PasswordHash u = hash"
      "u_Email u = normalizeEmail (ul_lower lib) email" "map_of (um_usersByEmail (us_repo s)) (u_Email u) = None"
    and c: "um_CreateUser ULive u (us_repo s) = (Inr (), us_repo s1)"
    and r1: "us_repo s1 = us_repo s\<lparr>um_usersByID := AList.update (u_ID u) u (um_usersByID (us_repo s)),
      um_usersByEmail := AList.update (u_Email u) (u_ID u) (um_usersByEmail (us_repo s))\<rparr>"
    by (rule Register_cases)
  have hit: "map_of (um_usersByEmail (us_repo s1)) (u_Email u) = Some (u_ID u)"
    "map_of (um_usersByID (us_repo s1)) (u_ID u) = Some u" using r1 by (simp_all add: gomap_simps)
  have any: "fst (Authenticate lib userMemory ulive clk' email' q s1) =
      (if ul_compare lib hash q then Inr u else Inl (Sentinel UErrInvalidCredentials))" for q
    using hit h(2,3) assms(5) by (simp add: Authenticate_live Let_def)
  have "ul_compare lib hash password" using assms(1) h(1) unfolding bcrypt_ok_def by blast
  moreover have "fst (Authenticate lib userMemory ulive clk' other q s1) = fst (Authenticate lib userMemory ulive clk' other q s)"
    if "normalizeEmail (ul_lower lib) other \<noteq> normalizeEmail (ul_lower lib) email" for other q
  proof -
    have "i \<noteq> u_ID u" if "map_of (um_usersByEmail (us_repo s)) e = Some i" for e i
      using that assms(2,4) unfolding um_inv_def by (metis option.distinct(1))
    then show ?thesis using that h(3) r1 by (auto simp: Authenticate_live Let_def gomap_simps split: option.split)
  qed
  moreover have "fst (Register lib userMemory ulive clk2 salt2 rnd2 email' password2 s1) \<noteq> Inr v" for clk2 salt2 rnd2 password2 v
  proof
    assume "fst (Register lib userMemory ulive clk2 salt2 rnd2 email' password2 s1) = Inr v"
    then have "Register lib userMemory ulive clk2 salt2 rnd2 email' password2 s1 =
        (Inr v, snd (Register lib userMemory ulive clk2 salt2 rnd2 email' password2 s1))" by (simp add: prod_eq_iff)
    then show False using hit(1) h(3) assms(5) by (cases rule: Register_cases) simp
  qed
  ultimately show ?thesis using any h(1) um_CreateUser_inv [OF assms(2,4) c] by auto
qed

text \<open>
  C15. No enumeration of accounts: at the same backoff state, a login with an unknown address and one with a known
  address and a wrong password give the same error, record the same failure and ask for the same delay; and
  a successful one asks for that delay too.
\<close>

theorem unknown_and_wrong_indistinguishable:
  assumes "us_backoff s = us_backoff s'" and "us_slept s = us_slept s'"
    and "map_of (um_usersByEmail (us_repo s)) (normalizeEmail (ul_lower lib) email) = None"
    and "map_of (um_usersByEmail (us_repo s')) (normalizeEmail (ul_lower lib) email) = Some i"
    and "map_of (um_usersByID (us_repo s')) i = Some u"
    and "\<not> ul_compare lib (u_PasswordHash u) wrong" and "ul_compare lib (u_PasswordHash u) right"
  shows "fst (Authenticate lib userMemory ulive clk email wrong s) = Inl (Sentinel UErrInvalidCredentials) \<and>
    fst (Authenticate lib userMemory ulive clk email wrong s') = Inl (Sentinel UErrInvalidCredentials) \<and>
    us_backoff (snd (Authenticate lib userMemory ulive clk email wrong s)) =
      us_backoff (snd (Authenticate lib userMemory ulive clk email wrong s')) \<and>
    us_slept (snd (Authenticate lib userMemory ulive clk email wrong s)) =
      us_slept (snd (Authenticate lib userMemory ulive clk email wrong s')) \<and>
    fst (Authenticate lib userMemory ulive clk email right s') = Inr u \<and>
    us_slept (snd (Authenticate lib userMemory ulive clk email right s')) =
      us_slept (snd (Authenticate lib userMemory ulive clk email wrong s))"
  using assms by (simp add: Authenticate_live Let_def)

subsection \<open>Session tokens in one process\<close>

text \<open>The whole of \<^verbatim>\<open>ValidateToken\<close> on a live context.\<close>

lemma ValidateToken_live:
  "ValidateToken lib userMemory ulive clk token s =
    (let h = hashToken lib token in
     case tc_get (clk 0) h (us_cache s) of
       Some u \<Rightarrow> (Inr u, s)
     | None \<Rightarrow>
         (case map_of (um_sessions (us_repo s)) h of
            None \<Rightarrow> (Inl (WrapPre ''validate token'' (Sentinel UErrNotFound)), s)
          | Some sess \<Rightarrow>
              if clk 1 > sn_ExpiresAt sess
              then (Inl (Sentinel UErrNotFound), s\<lparr>us_repo := (us_repo s)\<lparr>um_sessions :=
                     AList.delete (sn_TokenHash sess) (um_sessions (us_repo s))\<rparr>\<rparr>)
              else (Inr (sn_UserID sess), s\<lparr>us_cache := tc_set (clk 2) h (sn_UserID sess) (us_cache s)\<rparr>)))"
  by (simp add: ValidateToken_def Let_def on_repo_apply um_FindSessionByTokenHash_def um_DeleteSession_def split: option.split)

lemma tc_lookup [gomap_simps]:
  "tc_get now h (tc_delete k c) = (if h = k then None else tc_get now h c)"
  "tc_get now h (tc_set now' k u c) = (if h = k then if now > now' + tokenCacheTTL then None else Some u else tc_get now h c)"
  by (simp_all add: tc_get_def tc_delete_def tc_set_def gomap_simps)

text \<open>
  The life of a session in one process: the token a login issues validates as its user until it
  expires, from the first validation on and from the cache afterwards; once the user logs out with it, it is refused at
  once, whatever was cached; and if it is first used after its expiry it is refused and its session removed.
\<close>

theorem token_lifecycle:
  assumes "um_inv (us_repo s)" and "0 < uc_maxSessionsPerUser cfg"
    and login: "CreateSession lib cfg userMemory ulive clk (Inr rnd) userID s = (Inr (token, expiresAt), s1)"
    and "\<forall>h x. map_of (um_sessions (us_repo s)) h = Some x \<and> sn_UserID x = userID \<longrightarrow> sn_CreatedAt x < clk 0"
    and "map_of (um_sessions (us_repo s)) (hashToken lib token) = None"
    and "map_of (us_cache s) (hashToken lib token) = None"
  shows "expiresAt = clk 0 + uc_sessionTTL cfg \<and>
    (\<forall>clk1. if clk1 1 \<le> expiresAt then fst (ValidateToken lib userMemory ulive clk1 token s1) = Inr userID
       else fst (ValidateToken lib userMemory ulive clk1 token s1) = Inl (Sentinel UErrNotFound) \<and>
         map_of (um_sessions (us_repo (snd (ValidateToken lib userMemory ulive clk1 token s1)))) (hashToken lib token) = None) \<and>
    (\<forall>clk1 clk2. fst (ValidateToken lib userMemory ulive clk2 token
        (snd (Logout lib userMemory ulive token (snd (ValidateToken lib userMemory ulive clk1 token s1))))) =
      Inl (WrapPre ''validate token'' (Sentinel UErrNotFound)))"
proof -
  let ?h = "hashToken lib token"
  let ?sess = "\<lparr>sn_TokenHash = ?h, sn_UserID = userID, sn_ExpiresAt = expiresAt, sn_CreatedAt = clk 0\<rparr>"
  from login have exp: "expiresAt = clk 0 + uc_sessionTTL cfg"
    and c: "um_CreateSession ULive ?sess (uc_maxSessionsPerUser cfg) (us_repo s) = (Inr (), us_repo s1)"
    and cache: "us_cache s1 = us_cache s"
    by (auto simp: CreateSession_def Let_def on_repo_apply prod_eq_iff split: sum.splits)
  have stored: "map_of (um_sessions (us_repo s1)) ?h = Some ?sess"
    using um_CreateSession_spec [OF assms(1,2) c] assms(4,5) by simp
  have miss: "tc_get t ?h (us_cache s1) = None" for t using assms(6) cache by (simp add: tc_get_def)
  have first: "if clk1 1 \<le> expiresAt then fst (ValidateToken lib userMemory ulive clk1 token s1) = Inr userID
       else fst (ValidateToken lib userMemory ulive clk1 token s1) = Inl (Sentinel UErrNotFound) \<and>
         map_of (um_sessions (us_repo (snd (ValidateToken lib userMemory ulive clk1 token s1)))) ?h = None" for clk1
    using stored miss by (simp add: ValidateToken_live gomap_simps)
  have "fst (ValidateToken lib userMemory ulive clk2 token (snd (Logout lib userMemory ulive token q))) =
      Inl (WrapPre ''validate token'' (Sentinel UErrNotFound))" for clk2 q
    by (simp add: ValidateToken_live Logout_def Let_def on_repo_apply um_DeleteSession_def gomap_simps)
  with exp first show ?thesis by blast
qed

subsection \<open>Revocation in one process\<close>

text \<open>No token validates as the user: neither the cache nor the store has anything of theirs.\<close>

definition signed_out :: "string \<Rightarrow> user_mem user_svc \<Rightarrow> bool" where
  "signed_out u s \<longleftrightarrow>
     (\<forall>h e. map_of (us_cache s) h = Some e \<longrightarrow> tc_userID e \<noteq> u) \<and>
     (\<forall>h sess. map_of (um_sessions (us_repo s)) h = Some sess \<longrightarrow> sn_UserID sess \<noteq> u)"

lemma signed_out_refused: "signed_out u s \<Longrightarrow> fst (ValidateToken lib userMemory ulive clk token s) \<noteq> Inr u"
  by (auto simp: signed_out_def ValidateToken_live Let_def tc_get_def split: option.splits if_splits)

lemma range_delete_lookup:
  "gomap_wf m \<Longrightarrow> map_of (range_delete p m) x = Some v \<longleftrightarrow> map_of m x = Some v \<and> \<not> p x v"
  by (auto simp: gomap_simps split: option.splits)

lemma LogoutAll_signed_out:
  assumes "um_inv (us_repo s)" and "gomap_wf (us_cache s)"
  shows "LogoutAll userMemory ulive u s = (Inr (), snd (LogoutAll userMemory ulive u s)) \<and>
    signed_out u (snd (LogoutAll userMemory ulive u s))"
  using assms um_inv_sessionsD(1) [OF assms(1)]
  by (simp add: LogoutAll_def on_repo_apply um_DeleteSessionsForUser_def signed_out_def tc_deleteAllForUser_def range_delete_lookup)

lemma DeleteAccount_signed_out:
  assumes "um_inv (us_repo s)" and "gomap_wf (us_cache s)"
  shows "signed_out u (snd (DeleteAccount userMemory ulive u s))"
  using assms um_inv_sessionsD(1) [OF assms(1)]
  by (simp add: DeleteAccount_def on_repo_apply um_DeleteSessionsForUser_def um_DeleteUser_def signed_out_def tc_deleteAllForUser_def
      range_delete_lookup split: option.split)

text \<open>
  C16. Signing out everywhere works at once in the process that does it: after \<^verbatim>\<open>LogoutAll\<close>, and after
  \<^verbatim>\<open>DeleteAccount\<close>, no token whatsoever validates as that user, cached or not, at any later time.
\<close>

theorem sign_out_everywhere:
  assumes "um_inv (us_repo s)" and "gomap_wf (us_cache s)"
  shows "fst (LogoutAll userMemory ulive u s) = Inr () \<and>
    fst (ValidateToken lib userMemory ulive clk token (snd (LogoutAll userMemory ulive u s))) \<noteq> Inr u \<and>
    fst (ValidateToken lib userMemory ulive clk token (snd (DeleteAccount userMemory ulive u s))) \<noteq> Inr u"
  using LogoutAll_signed_out [OF assms, of u] DeleteAccount_signed_out [OF assms, of u] signed_out_refused
  by (metis fst_conv)

lemma ChangePassword_cases:
  assumes "ChangePassword lib userMemory ulive clk salt u old new token s = (Inr (), s')"
  obtains hash v where "ul_bcrypt lib salt new = Inr hash" "validatePassword (ul_lower lib) new = None"
    "map_of (um_usersByID (us_repo s)) u = Some v" "ul_compare lib (u_PasswordHash v) old"
    "s' = s\<lparr>us_repo := (us_repo s)\<lparr>
         um_usersByID := AList.update u (v\<lparr>u_PasswordHash := hash, u_UpdatedAt := clk 0\<rparr>) (um_usersByID (us_repo s)),
         um_sessions := range_delete (\<lambda>h sess. sn_UserID sess = u \<and> h \<noteq> hashToken lib token) (um_sessions (us_repo s))\<rparr>,
       us_cache := tc_deleteAllForUserExcept u (hashToken lib token) (us_cache s)\<rparr>"
  using assms
  by (auto simp: ChangePassword_def verifyPassword_def on_repo_apply um_FindUserByID_def um_UpdateUserPassword_def
      um_DeleteSessionsForUserExcept_def split: option.splits sum.splits if_splits)

text \<open>
  C17. A changed password locks out everyone else: it needs the current password, and afterwards the account
  accepts the new password, and any password exactly when bcrypt's comparison accepts it against the hash of the new one: the old
  hash plays no part any more. No token but the one that made the change validates as the user, and
  that one still does if its session is stored and unexpired.
\<close>

theorem change_password_revokes_others:
  assumes "bcrypt_ok lib" and "um_inv (us_repo s)" and "gomap_wf (us_cache s)"
    and "ChangePassword lib userMemory ulive clk salt u old new token s = (Inr (), s')"
  shows "(\<exists>v. map_of (um_usersByID (us_repo s)) u = Some v \<and> ul_compare lib (u_PasswordHash v) old) \<and>
    (\<exists>hash. ul_bcrypt lib salt new = Inr hash \<and> ul_compare lib hash new \<and>
      (\<forall>q. fst (verifyPassword lib userMemory ULive u q s') =
         (if ul_compare lib hash q then Inr () else Inl (Sentinel UErrInvalidCredentials)))) \<and>
    (\<forall>other clk'. hashToken lib other \<noteq> hashToken lib token \<longrightarrow>
       fst (ValidateToken lib userMemory ulive clk' other s') \<noteq> Inr u) \<and>
    (\<forall>sess clk'. map_of (um_sessions (us_repo s)) (hashToken lib token) = Some sess \<and> sn_UserID sess = u \<and>
       clk' 1 \<le> sn_ExpiresAt sess \<and> tc_get (clk' 0) (hashToken lib token) (us_cache s) \<in> {None, Some u} \<longrightarrow>
       fst (ValidateToken lib userMemory ulive clk' token s') = Inr u)"
proof -
  from assms(4) obtain hash v where v: "ul_bcrypt lib salt new = Inr hash" "validatePassword (ul_lower lib) new = None"
    "map_of (um_usersByID (us_repo s)) u = Some v" "ul_compare lib (u_PasswordHash v) old"
    and s': "s' = s\<lparr>us_repo := (us_repo s)\<lparr>
         um_usersByID := AList.update u (v\<lparr>u_PasswordHash := hash, u_UpdatedAt := clk 0\<rparr>) (um_usersByID (us_repo s)),
         um_sessions := range_delete (\<lambda>h sess. sn_UserID sess = u \<and> h \<noteq> hashToken lib token) (um_sessions (us_repo s))\<rparr>,
       us_cache := tc_deleteAllForUserExcept u (hashToken lib token) (us_cache s)\<rparr>"
    by (rule ChangePassword_cases)
  have cmp: "ul_compare lib hash new" using assms(1) v(1) unfolding bcrypt_ok_def by blast
  note wf = um_inv_sessionsD(1) [OF assms(2)]
  have pw: "fst (verifyPassword lib userMemory ULive u q s') = (if ul_compare lib hash q then Inr () else Inl (Sentinel UErrInvalidCredentials))"
    for q
    by (simp add: verifyPassword_def on_repo_apply um_FindUserByID_def s' gomap_simps)
  have out: "fst (ValidateToken lib userMemory ulive clk' other s') \<noteq> Inr u"
    if "hashToken lib other \<noteq> hashToken lib token" for other clk'
    using that wf assms(3)
    by (auto simp: ValidateToken_live Let_def s' tc_get_def tc_deleteAllForUserExcept_def gomap_simps split: option.splits if_splits)
  have keep: "fst (ValidateToken lib userMemory ulive clk' token s') = Inr u"
    if "map_of (um_sessions (us_repo s)) (hashToken lib token) = Some sess" "sn_UserID sess = u"
      "clk' 1 \<le> sn_ExpiresAt sess" "tc_get (clk' 0) (hashToken lib token) (us_cache s) \<in> {None, Some u}" for sess clk'
    using that wf assms(3)
    by (auto simp: ValidateToken_live Let_def s' tc_get_def tc_deleteAllForUserExcept_def gomap_simps split: option.splits if_splits)
  show ?thesis using v(1,3,4) cmp pw out keep by blast
qed

subsection \<open>Revocation across processes\<close>

text \<open>
  Several processes share one store; each has its own token cache. A step is one call on the store, one on a cache, or time
  passing, so that the calls of different service operations interleave. A validation that missed the cache reads the session
  in one step, holds it (\<open>ps_held\<close>, per request: the process, the token's hash and the session), and fills the cache of its process
  in a later one; time may pass in between, and the expiry is checked at some moment before the fill.
\<close>

record psys =
  ps_repo :: user_mem
  ps_cache :: "nat \<Rightarrow> tokenCache"
  ps_held :: "nat \<Rightarrow> (nat \<times> string \<times> session) option"
  ps_now :: time

datatype store_call = SCreateUser user | SUpdatePassword time string string | SDeleteUser string | SCreateSession session nat
  | SDeleteSession string | SDeleteForUser string | SDeleteForUserExcept string string | SDeleteExpired time

fun store_after :: "store_call \<Rightarrow> uctx \<Rightarrow> user_mem \<Rightarrow> user_mem" where
  "store_after (SCreateUser u) ctx m = snd (um_CreateUser ctx u m)"
| "store_after (SUpdatePassword now i hash) ctx m = snd (um_UpdateUserPassword ctx now i hash m)"
| "store_after (SDeleteUser i) ctx m = snd (um_DeleteUser ctx i m)"
| "store_after (SCreateSession sess n) ctx m = snd (um_CreateSession ctx sess n m)"
| "store_after (SDeleteSession h) ctx m = snd (um_DeleteSession ctx h m)"
| "store_after (SDeleteForUser u) ctx m = snd (um_DeleteSessionsForUser ctx u m)"
| "store_after (SDeleteForUserExcept u h) ctx m = snd (um_DeleteSessionsForUserExcept ctx u h m)"
| "store_after (SDeleteExpired now) ctx m = snd (um_DeleteExpiredSessions ctx now m)"

datatype cache_drop = DropToken string | DropUser string | DropUserExcept string string | DropStale time

fun drop_after :: "cache_drop \<Rightarrow> tokenCache \<Rightarrow> tokenCache" where
  "drop_after (DropToken h) c = tc_delete h c"
| "drop_after (DropUser u) c = tc_deleteAllForUser u c"
| "drop_after (DropUserExcept u h) c = tc_deleteAllForUserExcept u h c"
| "drop_after (DropStale now) c = tc_sweep now c"

inductive pstep :: "psys \<Rightarrow> psys \<Rightarrow> bool" where
  tick: "ps_now \<sigma> \<le> t \<Longrightarrow> pstep \<sigma> (\<sigma>\<lparr>ps_now := t\<rparr>)"
| store: "pstep \<sigma> (\<sigma>\<lparr>ps_repo := store_after q ctx (ps_repo \<sigma>)\<rparr>)"
| drop: "pstep \<sigma> (\<sigma>\<lparr>ps_cache := (ps_cache \<sigma>)(p := drop_after d (ps_cache \<sigma> p))\<rparr>)"
| read: "ps_held \<sigma> c = None \<Longrightarrow> um_FindSessionByTokenHash ctx h (ps_repo \<sigma>) = (Inr sess, m) \<Longrightarrow>
     pstep \<sigma> (\<sigma>\<lparr>ps_held := (ps_held \<sigma>)(c := Some (p, h, sess))\<rparr>)"
| fill: "ps_held \<sigma> c = Some (p, h, sess) \<Longrightarrow> checked \<le> ps_now \<sigma> \<Longrightarrow> \<not> checked > sn_ExpiresAt sess \<Longrightarrow>
     pstep \<sigma> (\<sigma>\<lparr>ps_cache := (ps_cache \<sigma>)(p := tc_set (ps_now \<sigma>) h (sn_UserID sess) (ps_cache \<sigma> p)),
       ps_held := (ps_held \<sigma>)(c := None)\<rparr>)"
| leave: "pstep \<sigma> (\<sigma>\<lparr>ps_held := (ps_held \<sigma>)(c := None)\<rparr>)"

text \<open>What a process sees, and the system after it has changed that.\<close>

definition view :: "psys \<Rightarrow> nat \<Rightarrow> user_mem user_svc" where
  "view \<sigma> p = \<lparr>us_repo = ps_repo \<sigma>, us_cache = ps_cache \<sigma> p, us_backoff = [], us_slept = []\<rparr>"

definition put :: "psys \<Rightarrow> nat \<Rightarrow> user_mem user_svc \<Rightarrow> psys" where
  "put \<sigma> p s = \<sigma>\<lparr>ps_repo := us_repo s, ps_cache := (ps_cache \<sigma>)(p := us_cache s)\<rparr>"

lemma put_view [simp]: "put \<sigma> p (view \<sigma> p) = \<sigma>"
  by (simp add: put_def view_def)

text \<open>The revoking operations of the service, run by themselves, are such steps.\<close>

lemma steps_store: "pstep\<^sup>*\<^sup>* \<sigma> (put \<sigma> p s) \<Longrightarrow> pstep\<^sup>*\<^sup>* \<sigma> (put \<sigma> p (s\<lparr>us_repo := store_after q ctx (us_repo s)\<rparr>))"
proof (erule rtranclp.rtrancl_into_rtrancl)
  show "pstep (put \<sigma> p s) (put \<sigma> p (s\<lparr>us_repo := store_after q ctx (us_repo s)\<rparr>))"
    using pstep.store [of "put \<sigma> p s" q ctx] by (cases \<sigma>) (simp add: put_def)
qed

lemma steps_drop: "pstep\<^sup>*\<^sup>* \<sigma> (put \<sigma> p s) \<Longrightarrow> pstep\<^sup>*\<^sup>* \<sigma> (put \<sigma> p (s\<lparr>us_cache := drop_after d (us_cache s)\<rparr>))"
proof (erule rtranclp.rtrancl_into_rtrancl)
  show "pstep (put \<sigma> p s) (put \<sigma> p (s\<lparr>us_cache := drop_after d (us_cache s)\<rparr>))"
    using pstep.drop [of "put \<sigma> p s" p d] by (cases \<sigma>) (simp add: put_def)
qed

lemma revocations_are_steps:
  "pstep\<^sup>*\<^sup>* \<sigma> (put \<sigma> p (snd (Logout lib userMemory ctx token (view \<sigma> p))))"
  "pstep\<^sup>*\<^sup>* \<sigma> (put \<sigma> p (snd (LogoutAll userMemory ctx u (view \<sigma> p))))"
  "pstep\<^sup>*\<^sup>* \<sigma> (put \<sigma> p (snd (DeleteAccount userMemory ctx u (view \<sigma> p))))"
proof -
  have v: "pstep\<^sup>*\<^sup>* \<sigma> (put \<sigma> p (view \<sigma> p))" by simp
  note one = steps_store [OF v] and two = steps_drop [OF steps_store [OF v]]
  note three = steps_store [OF two]
  show "pstep\<^sup>*\<^sup>* \<sigma> (put \<sigma> p (snd (Logout lib userMemory ctx token (view \<sigma> p))))"
    using one [of "SDeleteSession (hashToken lib token)" "ctx 0"]
      two [of "DropToken (hashToken lib token)" "SDeleteSession (hashToken lib token)" "ctx 0"]
    by (simp add: Logout_def on_repo_apply Let_def split: sum.split)
  show "pstep\<^sup>*\<^sup>* \<sigma> (put \<sigma> p (snd (LogoutAll userMemory ctx u (view \<sigma> p))))"
    using one [of "SDeleteForUser u" "ctx 0"] two [of "DropUser u" "SDeleteForUser u" "ctx 0"]
    by (simp add: LogoutAll_def on_repo_apply split: sum.split)
  show "pstep\<^sup>*\<^sup>* \<sigma> (put \<sigma> p (snd (DeleteAccount userMemory ctx u (view \<sigma> p))))"
    using one [of "SDeleteForUser u" "ctx 0"] three [of "SDeleteUser u" "ctx 1" "DropUser u" "SDeleteForUser u" "ctx 0"]
    by (simp add: DeleteAccount_def on_repo_apply put_def split: sum.split)
qed

text \<open>So is a validation: the read and the fill, or the removal of an expired session.\<close>

lemma validation_is_steps:
  assumes "ps_held \<sigma> c = None"
  shows "pstep\<^sup>*\<^sup>* \<sigma> (put \<sigma> p (snd (ValidateToken lib userMemory ulive (\<lambda>_. ps_now \<sigma>) token (view \<sigma> p))))"
proof -
  let ?h = "hashToken lib token"
  have v: "pstep\<^sup>*\<^sup>* \<sigma> (put \<sigma> p (view \<sigma> p))" by simp
  have repo: "us_repo (view \<sigma> p) = ps_repo \<sigma>" by (simp add: view_def)
  show ?thesis
  proof (cases "tc_get (ps_now \<sigma>) ?h (us_cache (view \<sigma> p)) = None \<and> map_of (um_sessions (ps_repo \<sigma>)) ?h \<noteq> None")
    case False
    then have "snd (ValidateToken lib userMemory ulive (\<lambda>_. ps_now \<sigma>) token (view \<sigma> p)) = view \<sigma> p"
      by (auto simp: ValidateToken_live repo Let_def split: option.split)
    then show ?thesis by simp
  next
    case True
    then obtain sess where sess: "tc_get (ps_now \<sigma>) ?h (us_cache (view \<sigma> p)) = None" "map_of (um_sessions (ps_repo \<sigma>)) ?h = Some sess"
      by auto
    show ?thesis
    proof (cases "ps_now \<sigma> > sn_ExpiresAt sess")
      case True
      with sess steps_store [OF v, of "SDeleteSession (sn_TokenHash sess)" ULive] show ?thesis
        by (simp add: ValidateToken_live repo Let_def um_DeleteSession_def)
    next
      case False
      let ?\<sigma>1 = "\<sigma>\<lparr>ps_held := (ps_held \<sigma>)(c := Some (p, ?h, sess))\<rparr>"
      have 1: "pstep \<sigma> ?\<sigma>1"
        by (rule pstep.read [OF assms, of ULive _ _ "ps_repo \<sigma>"]) (simp add: um_FindSessionByTokenHash_def sess)
      have "pstep ?\<sigma>1 (put \<sigma> p (snd (ValidateToken lib userMemory ulive (\<lambda>_. ps_now \<sigma>) token (view \<sigma> p))))"
        using pstep.fill [of ?\<sigma>1 c p ?h sess "ps_now \<sigma>"] False sess assms
        by (cases \<sigma>) (simp add: ValidateToken_live repo Let_def put_def view_def fun_upd_idem)
      with 1 show ?thesis by (meson converse_rtranclp_into_rtranclp rtranclp.rtrancl_refl)
    qed
  qed
qed

inductive preach :: "psys \<Rightarrow> bool" where
  init: "preach \<lparr>ps_repo = um_New, ps_cache = (\<lambda>_. []), ps_held = (\<lambda>_. None), ps_now = t\<rparr>"
| step: "preach \<sigma> \<Longrightarrow> pstep \<sigma> \<sigma>' \<Longrightarrow> preach \<sigma>'"

text \<open>A cache with some entries removed.\<close>

definition subcache :: "tokenCache \<Rightarrow> tokenCache \<Rightarrow> bool" where
  "subcache c c' \<longleftrightarrow> (gomap_wf c \<longrightarrow> gomap_wf c' \<and> (\<forall>h e. map_of c' h = Some e \<longrightarrow> map_of c h = Some e))"

lemma subcache_drop: "subcache c (drop_after d c)"
  by (cases d) (auto simp: subcache_def tc_delete_def tc_deleteAllForUser_def tc_deleteAllForUserExcept_def tc_sweep_def
      gomap_simps split: option.splits if_splits)

definition fresh_caches :: "psys \<Rightarrow> bool" where
  "fresh_caches \<sigma> \<longleftrightarrow> (\<forall>p. gomap_wf (ps_cache \<sigma> p)) \<and>
     (\<forall>p h e. map_of (ps_cache \<sigma> p) h = Some e \<longrightarrow> tc_expiresAt e \<le> ps_now \<sigma> + tokenCacheTTL)"

text \<open>How one step changes the caches: entries vanish, or one is set now for a session in a request's hands.\<close>

lemma pstep_caches:
  assumes "pstep \<sigma> \<sigma>'" and "\<forall>p. gomap_wf (ps_cache \<sigma> p)"
  shows "ps_now \<sigma> \<le> ps_now \<sigma>' \<and> (\<forall>p. gomap_wf (ps_cache \<sigma>' p)) \<and>
    (\<forall>p h e. map_of (ps_cache \<sigma>' p) h = Some e \<longrightarrow> map_of (ps_cache \<sigma> p) h = Some e \<or>
       tc_expiresAt e = ps_now \<sigma> + tokenCacheTTL \<and> (\<exists>c sess. ps_held \<sigma> c = Some (p, h, sess)))"
  using assms
proof cases
  case (drop p d)
  with subcache_drop [of "ps_cache \<sigma> p" d] assms(2) show ?thesis by (auto simp: subcache_def split: if_splits)
next
  case (fill c p h sess checked)
  with assms(2) show ?thesis by (auto simp: tc_set_def gomap_simps split: if_splits)
qed auto

lemma preach_fresh: "preach \<sigma> \<Longrightarrow> fresh_caches \<sigma>"
proof (induction rule: preach.induct)
  case init
  then show ?case by (simp add: fresh_caches_def)
next
  case (step \<sigma> \<sigma>')
  from pstep_caches [OF step.hyps(2)] step.IH show ?case unfolding fresh_caches_def by fastforce
qed

text \<open>A session comes into a request's hands only from the store.\<close>

lemma pstep_held:
  assumes "pstep \<sigma> \<sigma>'" and "ps_held \<sigma>' c = Some (p, h, sess)"
  shows "ps_held \<sigma> c = Some (p, h, sess) \<or> map_of (um_sessions (ps_repo \<sigma>)) h = Some sess"
  using assms
proof cases
  case (read c' ctx h' sess' m p')
  then have "map_of (um_sessions (ps_repo \<sigma>)) h' = Some sess'"
    by (cases ctx) (auto simp: um_FindSessionByTokenHash_def unless_done_def split: option.splits)
  with read assms(2) show ?thesis by (auto split: if_splits)
qed (auto split: if_splits)

text \<open>Steps during which the session is never in the store.\<close>

inductive runs_without :: "string \<Rightarrow> psys \<Rightarrow> psys \<Rightarrow> bool" for h where
  here: "runs_without h \<sigma> \<sigma>"
| more: "runs_without h \<sigma> \<sigma>' \<Longrightarrow> pstep \<sigma>' \<sigma>'' \<Longrightarrow> map_of (um_sessions (ps_repo \<sigma>'')) h = None \<Longrightarrow> runs_without h \<sigma> \<sigma>''"

lemma runs_without_bound:
  assumes "runs_without h \<sigma> \<sigma>'" and "fresh_caches \<sigma>" and "map_of (um_sessions (ps_repo \<sigma>)) h = None"
    and "\<forall>c p sess. ps_held \<sigma> c \<noteq> Some (p, h, sess)"
  shows "map_of (um_sessions (ps_repo \<sigma>')) h = None \<and> (\<forall>p. gomap_wf (ps_cache \<sigma>' p)) \<and>
    (\<forall>c p sess. ps_held \<sigma>' c \<noteq> Some (p, h, sess)) \<and>
    (\<forall>p e. map_of (ps_cache \<sigma>' p) h = Some e \<longrightarrow> tc_expiresAt e \<le> ps_now \<sigma> + tokenCacheTTL)"
  using assms
proof (induction rule: runs_without.induct)
  case here
  then show ?case by (simp add: fresh_caches_def)
next
  case (more \<sigma> \<sigma>' \<sigma>'')
  then have IH: "map_of (um_sessions (ps_repo \<sigma>')) h = None" "\<forall>p. gomap_wf (ps_cache \<sigma>' p)"
    "\<forall>c p sess. ps_held \<sigma>' c \<noteq> Some (p, h, sess)"
    "\<forall>p e. map_of (ps_cache \<sigma>' p) h = Some e \<longrightarrow> tc_expiresAt e \<le> ps_now \<sigma> + tokenCacheTTL" by blast+
  have "ps_held \<sigma>'' c \<noteq> Some (p, h, sess)" for c p sess
    using pstep_held [OF more.hyps(2)] IH(1,3) by (metis option.distinct(1))
  with pstep_caches [OF more.hyps(2) IH(2)] IH(3,4) more.hyps(3) show ?case by blast
qed

text \<open>
  C18. The window of a revocation across processes. Once a session is gone from the store and no validation that had read it
  before is still on its way to the cache, then, as long as the session is not stored again, no process accepts its token after two
  more seconds, whatever calls on the store and the caches the processes made before and make since, in any
  interleaving. (A validation that read the session before the revocation and is late in filling the cache extends the window to two
  seconds after that fill, which is the race of the next property.)
\<close>

theorem revocation_within_two_seconds:
  assumes "preach \<sigma>" and "map_of (um_sessions (ps_repo \<sigma>)) (hashToken lib token) = None"
    and "\<forall>c q sess. ps_held \<sigma> c \<noteq> Some (q, hashToken lib token, sess)"
    and "runs_without (hashToken lib token) \<sigma> \<sigma>'" and "ps_now \<sigma>' > ps_now \<sigma> + 2000000000" and "ps_now \<sigma>' \<le> clk 0"
  shows "fst (ValidateToken lib userMemory ulive clk token (view \<sigma>' p)) =
    Inl (WrapPre ''validate token'' (Sentinel UErrNotFound))"
proof -
  note b = runs_without_bound [OF assms(4) preach_fresh [OF assms(1)] assms(2,3)]
  have "tc_get (clk 0) (hashToken lib token) (ps_cache \<sigma>' p) = None"
  proof (cases "map_of (ps_cache \<sigma>' p) (hashToken lib token)")
    case (Some e)
    with b have "tc_expiresAt e \<le> ps_now \<sigma> + tokenCacheTTL" by blast
    with Some assms(5,6) show ?thesis by (simp add: tc_get_def tokenCacheTTL_def duration_defs)
  qed (simp add: tc_get_def)
  with b show ?thesis by (simp add: ValidateToken_live view_def)
qed

subsection \<open>Validation is not atomic\<close>

text \<open>
  \<^verbatim>\<open>ValidateToken\<close> reads the session and fills the cache in two steps, with no lock around both. The first half stops before
  the cache is filled; the second fills it.
\<close>

definition vt_read :: "user_lib \<Rightarrow> 's user_repo \<Rightarrow> uctxs \<Rightarrow> clock \<Rightarrow> string \<Rightarrow> 's user_svc \<Rightarrow> string option \<times> 's user_svc" where
  "vt_read lib repo ctx clk token s =
     (let hash = hashToken lib token in
      case tc_get (clk 0) hash (us_cache s) of
        Some cachedUserID \<Rightarrow> (None, s)
      | None \<Rightarrow>
     (case on_repo (ur_FindSessionByTokenHash repo (ctx 0) hash) s of
        (Inl err, s1) \<Rightarrow> (None, s1)
      | (Inr session, s1) \<Rightarrow>
          if clk 1 > sn_ExpiresAt session then (None, s1) else (Some (sn_UserID session), s1)))"

definition vt_fill :: "user_lib \<Rightarrow> clock \<Rightarrow> string \<Rightarrow> string \<Rightarrow> 's user_svc \<Rightarrow> 's user_svc" where
  "vt_fill lib clk token userID s = s\<lparr>us_cache := tc_set (clk 2) (hashToken lib token) userID (us_cache s)\<rparr>"

lemma ValidateToken_halves:
  "vt_read lib repo ctx clk token s = (Some u, s1) \<Longrightarrow>
   ValidateToken lib repo ctx clk token s = (Inr u, vt_fill lib clk token u s1)"
  by (auto simp: vt_read_def vt_fill_def ValidateToken_def Let_def split: option.splits sum.splits prod.splits if_splits)

text \<open>
  C19. The comments on the cache say that the process that revoked a token never accepts it again. It can:
  when a logout runs between the two halves of a validation of the same token, it succeeds, and yet
  that process accepts the token for two more seconds, although its session is gone.
\<close>

theorem logout_race_accepts_revoked_token:
  assumes "vt_read lib userMemory ulive clk token s = (Some u, s1)"
    and "Logout lib userMemory ulive token s1 = (r, s2)"
    and "clk' 0 \<le> clk 2 + 2000000000"
  shows "r = Inr () \<and> map_of (um_sessions (us_repo s2)) (hashToken lib token) = None \<and>
    fst (ValidateToken lib userMemory ulive clk' token (vt_fill lib clk token u s2)) = Inr u"
  using assms(2,3)
  by (auto simp: Logout_def Let_def on_repo_apply um_DeleteSession_def ValidateToken_live vt_fill_def gomap_simps
      tokenCacheTTL_def duration_defs)

subsection \<open>Authentication of requests\<close>

lemma bearerToken_iff: "bearerToken r = Some t \<longleftrightarrow> ar_Authorization r = ''Bearer '' @ t \<and> t \<noteq> ''''"
proof -
  have p: "take (length p) x = p \<longleftrightarrow> (\<exists>t. x = p @ t)" for p x :: string
    by (metis append_eq_conv_conj)
  show ?thesis unfolding bearerToken_def Let_def p by auto
qed

text \<open>
  The middleware: a request is passed on only with the identity its token validates as, and
  the token is the one in the \<^verbatim>\<open>Authorization\<close> header if there is a bearer token there, the cookie's otherwise. A rejection
  is 401 when there is no credential or the token is unknown or expired, and 503 exactly when the session could not be
  looked up, so an outage is never reported as a bad credential.
\<close>

theorem require_auth_sound:
  assumes "RequireAuth lib repo ctx clk r s = (out, s')"
  shows "(\<forall>u token. out = AuthPassed u token \<longrightarrow> token \<noteq> '''' \<and> ValidateToken lib repo ctx clk token s = (Inr u, s') \<and>
      (ar_Authorization r = ''Bearer '' @ token \<or>
       ar_Cookie r = Some token \<and> (\<forall>t. ar_Authorization r = ''Bearer '' @ t \<longrightarrow> t = ''''))) \<and>
    (\<forall>code m. out = AuthRejected code m \<longrightarrow>
      (code = 401 \<or> code = 503) \<and>
      (code = 503 \<longleftrightarrow> (\<exists>token e. credentialSource r = (fst (credentialSource r), token) \<and> token \<noteq> '''' \<and>
         ValidateToken lib repo ctx clk token s = (Inl e, s') \<and> \<not> errors_Is e UErrNotFound)))"
proof -
  obtain src token where cs: "credentialSource r = (src, token)" by fastforce
  have src: "ar_Authorization r = ''Bearer '' @ token \<or>
      ar_Cookie r = Some token \<and> (\<forall>t. ar_Authorization r = ''Bearer '' @ t \<longrightarrow> t = '''')" if "token \<noteq> ''''"
    using cs that bearerToken_iff [of r] by (fastforce simp: credentialSource_def split: option.splits if_splits)
  show ?thesis
  proof (cases "token = ''''")
    case True
    with assms cs show ?thesis by (auto simp: RequireAuth_def)
  next
    case False
    with assms cs src show ?thesis
      by (auto simp: RequireAuth_def split: prod.splits sum.splits if_splits)
  qed
qed

subsection \<open>Concrete inputs\<close>

definition demo_ulib :: user_lib where
  "demo_ulib = \<lparr>ul_lower = (\<lambda>_. []), ul_checkEmail = (\<lambda>_. None), ul_bcrypt = (\<lambda>salt p. Inr p),
     ul_compare = (\<lambda>h q. h = q), ul_sha256 = (\<lambda>x. map (\<lambda>c. word_of_nat (of_char c)) x)\<rparr>"

lemma demo_ulib_ok: "bcrypt_ok demo_ulib"
  by (simp add: bcrypt_ok_def demo_ulib_def)

lemma demo_ulib_sel [simp]: "ul_lower demo_ulib = (\<lambda>_. [])" "ul_checkEmail demo_ulib = (\<lambda>_. None)"
  "ul_bcrypt demo_ulib salt p = Inr p" "ul_compare demo_ulib h q = (h = q)"
  by (simp_all add: demo_ulib_def)

lemma demo_emails: "normalizeEmail (\<lambda>_. []) '' Ann@x.y'' = ''ann@x.y''" "normalizeEmail (\<lambda>_. []) ''ann@x.y'' = ''ann@x.y''"
  by (simp_all add: normalizeEmail_def go_eval ToLower_def ascii_lower_def char_of_def bit_0)

lemma demo_password_ok: "validatePassword (\<lambda>_. []) ''correct horse'' = None"
proof -
  have "ToLower (\<lambda>_. []) ''correct horse'' = ''correct horse''" by (simp add: ToLower_def ascii_lower_def)
  then show ?thesis
    by (simp add: validatePassword_def minPasswordLen_def maxPasswordLen_def isCommonWeakPassword_def
        isSingleRepeatedRune_def isSequentialRun_def demo_password_runes commonWeakPasswords_def Let_def)
qed

definition demo_user :: user where
  "demo_user = \<lparr>u_ID = ''00000000-0000-4000-8000-000000000000'', u_Email = ''ann@x.y'', u_CreatedAt = 0, u_UpdatedAt = 0,
     u_PasswordHash = ''correct horse''\<rparr>"

definition demo_rnd :: "8 word list" where
  "demo_rnd = [0, 0, 0, 0, 0, 0, 0, 0, 0, 0, 0, 0, 0, 0, 0, 0]"

lemma demo_unewID: "unewID (Inr demo_rnd) = Inr (u_ID demo_user)"
  by (simp add: unewID_def demo_rnd_def demo_user_def go_eval)

lemma demo_register:
  "Register demo_ulib userMemory ulive (\<lambda>_. 0) '''' (Inr demo_rnd) '' Ann@x.y'' ''correct horse'' (NewUserService um_New) =
   (Inr demo_user, (NewUserService um_New)\<lparr>us_repo := um_New\<lparr>um_usersByID := [(u_ID demo_user, demo_user)],
      um_usersByEmail := [(''ann@x.y'', u_ID demo_user)]\<rparr>\<rparr>)"
  by (simp add: Register_def validateEmail_def demo_emails demo_password_ok demo_unewID
      NewUserService_def on_repo_apply um_CreateUser_def um_New_def) (simp add: demo_user_def Let_def)

theorem register_then_login_witness:
  "fst (Authenticate demo_ulib userMemory ulive (\<lambda>_. 0) ''ann@x.y'' ''correct horse''
     (snd (Register demo_ulib userMemory ulive (\<lambda>_. 0) '''' (Inr demo_rnd) '' Ann@x.y'' ''correct horse'' (NewUserService um_New)))) =
   Inr demo_user"
proof -
  have "um_inv (us_repo (NewUserService um_New))" by (simp add: NewUserService_def)
  from register_then_login [OF demo_ulib_ok this demo_register, of "''ann@x.y''" "\<lambda>_. 0"] demo_emails show ?thesis
    by (simp add: demo_register) (simp add: NewUserService_def um_New_def)
qed

definition demo_accounts :: "user_mem user_svc" where
  "demo_accounts = (NewUserService um_New)\<lparr>us_repo := um_New\<lparr>um_usersByID := [(u_ID demo_user, demo_user)],
      um_usersByEmail := [(''ann@x.y'', u_ID demo_user)]\<rparr>\<rparr>"

theorem unknown_and_wrong_indistinguishable_witness:
  "us_slept (snd (Authenticate demo_ulib userMemory ulive (\<lambda>_. 0) ''ann@x.y'' ''wrong'' (NewUserService um_New))) =
   us_slept (snd (Authenticate demo_ulib userMemory ulive (\<lambda>_. 0) ''ann@x.y'' ''wrong'' demo_accounts))"
proof -
  have "us_backoff (NewUserService um_New) = us_backoff demo_accounts" "us_slept (NewUserService um_New) = us_slept demo_accounts"
    "map_of (um_usersByEmail (us_repo (NewUserService um_New))) (normalizeEmail (ul_lower demo_ulib) ''ann@x.y'') = None"
    "map_of (um_usersByEmail (us_repo demo_accounts)) (normalizeEmail (ul_lower demo_ulib) ''ann@x.y'') = Some (u_ID demo_user)"
    "map_of (um_usersByID (us_repo demo_accounts)) (u_ID demo_user) = Some demo_user"
    "\<not> ul_compare demo_ulib (u_PasswordHash demo_user) ''wrong''" "ul_compare demo_ulib (u_PasswordHash demo_user) ''correct horse''"
    by (simp_all add: demo_accounts_def NewUserService_def um_New_def demo_user_def demo_emails)
  from unknown_and_wrong_indistinguishable [OF this, of "\<lambda>_. 0"] show ?thesis by blast
qed

definition demo_cfg :: user_cfg where
  "demo_cfg = \<lparr>uc_sessionTTL = 100, uc_maxSessionsPerUser = 2\<rparr>"

theorem token_lifecycle_witness:
  "fst (ValidateToken demo_ulib userMemory ulive (\<lambda>_. 50) ''2a''
     (snd (CreateSession demo_ulib demo_cfg userMemory ulive (\<lambda>_. 0) (Inr [42]) ''ann'' (NewUserService um_New)))) = Inr ''ann''"
proof -
  let ?s = "NewUserService um_New"
  obtain r s1 where run: "CreateSession demo_ulib demo_cfg userMemory ulive (\<lambda>_. 0) (Inr [42]) ''ann'' ?s = (r, s1)" by fastforce
  have r: "r = Inr (''2a'', 100)"
    using run by (auto simp: CreateSession_def Let_def on_repo_apply um_CreateSession_def demo_cfg_def go_eval split: if_splits)
  have pre: "um_inv (us_repo ?s)" "0 < uc_maxSessionsPerUser demo_cfg"
    "\<forall>h x. map_of (um_sessions (us_repo ?s)) h = Some x \<and> sn_UserID x = ''ann'' \<longrightarrow> sn_CreatedAt x < (\<lambda>_. 0) (0 :: nat)"
    "map_of (um_sessions (us_repo ?s)) (hashToken demo_ulib ''2a'') = None"
    "map_of (us_cache ?s) (hashToken demo_ulib ''2a'') = None"
    by (simp_all add: NewUserService_def um_New_def demo_cfg_def um_inv_def)
  from token_lifecycle [OF pre(1,2) run [unfolded r] pre(3-5)] run show ?thesis by simp
qed

definition demo_signed_in :: "user_mem user_svc" where
  "demo_signed_in = demo_accounts\<lparr>us_repo := (us_repo demo_accounts)\<lparr>um_sessions :=
      [(hashToken demo_ulib ''a'', \<lparr>sn_TokenHash = hashToken demo_ulib ''a'', sn_UserID = u_ID demo_user, sn_ExpiresAt = 100, sn_CreatedAt = 0\<rparr>),
       (hashToken demo_ulib ''b'', \<lparr>sn_TokenHash = hashToken demo_ulib ''b'', sn_UserID = u_ID demo_user, sn_ExpiresAt = 100, sn_CreatedAt = 1\<rparr>)]\<rparr>\<rparr>"

lemma demo_tokens: "hashToken demo_ulib ''a'' = ''61''" "hashToken demo_ulib ''b'' = ''62''"
  by (simp_all add: hashToken_def demo_ulib_def go_eval)

lemma demo_signed_in_inv: "um_inv (us_repo demo_signed_in)" "gomap_wf (us_cache demo_signed_in)"
  by (auto simp: um_inv_def demo_signed_in_def demo_accounts_def NewUserService_def um_New_def demo_user_def demo_tokens split: if_splits)

theorem sign_out_everywhere_witness:
  "fst (ValidateToken demo_ulib userMemory ulive (\<lambda>_. 5) ''a'' (snd (LogoutAll userMemory ulive (u_ID demo_user) demo_signed_in))) \<noteq>
   Inr (u_ID demo_user)"
  using sign_out_everywhere [OF demo_signed_in_inv, of "u_ID demo_user" demo_ulib "\<lambda>_. 5" "''a''"] by blast

theorem change_password_revokes_others_witness:
  "fst (ValidateToken demo_ulib userMemory ulive (\<lambda>_. 5) ''b''
     (snd (ChangePassword demo_ulib userMemory ulive (\<lambda>_. 4) '''' (u_ID demo_user) ''correct horse'' ''correct horse'' ''a'' demo_signed_in))) \<noteq>
   Inr (u_ID demo_user)"
proof -
  let ?op = "ChangePassword demo_ulib userMemory ulive (\<lambda>_. 4) '''' (u_ID demo_user) ''correct horse'' ''correct horse'' ''a'' demo_signed_in"
  have "fst ?op = Inr ()"
    by (simp add: ChangePassword_def demo_password_ok verifyPassword_def on_repo_apply um_FindUserByID_def um_UpdateUserPassword_def
        um_DeleteSessionsForUserExcept_def demo_signed_in_def demo_accounts_def demo_user_def)
  then have run: "?op = (Inr (), snd ?op)" by (simp add: prod_eq_iff)
  have "hashToken demo_ulib ''b'' \<noteq> hashToken demo_ulib ''a''" by (simp add: demo_tokens)
  with change_password_revokes_others [OF demo_ulib_ok demo_signed_in_inv run] show ?thesis by blast
qed

text \<open>A session cached by process 7, then revoked by a logout in process 1: accepted by process 7 for a while, then refused.\<close>

definition demo_session :: session where
  "demo_session = \<lparr>sn_TokenHash = ''61'', sn_UserID = ''ann'', sn_ExpiresAt = 100000000000, sn_CreatedAt = 0\<rparr>"

definition demo_revoked :: psys where
  "demo_revoked = \<lparr>ps_repo = um_New, ps_cache = (\<lambda>_. [])(7 := [(''61'', \<lparr>tc_userID = ''ann'', tc_expiresAt = 2000000000\<rparr>)]),
     ps_held = (\<lambda>_. None), ps_now = 0\<rparr>"

lemma demo_revoked_reachable: "preach demo_revoked"
proof -
  let ?s0 = "\<lparr>ps_repo = um_New, ps_cache = (\<lambda>_. []), ps_held = (\<lambda>_. None), ps_now = 0\<rparr> :: psys"
  let ?s1 = "?s0\<lparr>ps_repo := um_New\<lparr>um_sessions := [(''61'', demo_session)]\<rparr>\<rparr>"
  let ?s2 = "?s1\<lparr>ps_held := (\<lambda>_. None)(0 := Some (7, ''61'', demo_session))\<rparr>"
  let ?s3 = "?s1\<lparr>ps_cache := ps_cache demo_revoked\<rparr>"
  have "pstep ?s0 ?s1"
    using pstep.store [of ?s0 "SCreateSession demo_session 2" ULive]
    by (simp add: um_CreateSession_def um_New_def demo_session_def sessions_of_def)
  with preach.init have 1: "preach ?s1" by (rule preach.step)
  have "pstep ?s1 ?s2"
    using pstep.read [of ?s1 0 ULive "''61''" demo_session "ps_repo ?s1" 7] by (simp add: um_FindSessionByTokenHash_def)
  with 1 have 2: "preach ?s2" by (rule preach.step)
  have "pstep ?s2 ?s3"
    using pstep.fill [of ?s2 0 7 "''61''" demo_session 0]
    by (simp add: tc_set_def demo_session_def demo_revoked_def tokenCacheTTL_def duration_defs)
  with 2 have 3: "preach ?s3" by (rule preach.step)
  have "pstep ?s3 demo_revoked"
    using pstep.store [of ?s3 "SDeleteSession ''61''" ULive]
    by (simp add: um_DeleteSession_def um_New_def demo_revoked_def)
  with 3 show ?thesis by (rule preach.step)
qed

theorem revocation_within_two_seconds_witness:
  "fst (ValidateToken demo_ulib userMemory ulive (\<lambda>_. 1000000000) ''a'' (view demo_revoked 7)) = Inr ''ann'' \<and>
   fst (ValidateToken demo_ulib userMemory ulive (\<lambda>_. 3000000000) ''a'' (view (demo_revoked\<lparr>ps_now := 3000000000\<rparr>) 7)) =
     Inl (WrapPre ''validate token'' (Sentinel UErrNotFound))"
proof -
  let ?\<sigma>' = "demo_revoked\<lparr>ps_now := 3000000000\<rparr>"
  have n: "map_of (um_sessions (ps_repo demo_revoked)) (hashToken demo_ulib ''a'') = None"
    and h: "\<forall>c q sess. ps_held demo_revoked c \<noteq> Some (q, hashToken demo_ulib ''a'', sess)"
    by (simp_all add: demo_revoked_def um_New_def)
  have "pstep demo_revoked ?\<sigma>'" by (rule pstep.tick) (simp add: demo_revoked_def)
  then have run: "runs_without (hashToken demo_ulib ''a'') demo_revoked ?\<sigma>'"
    by (rule runs_without.more [OF runs_without.here]) (simp add: demo_revoked_def um_New_def)
  have t: "ps_now ?\<sigma>' > ps_now demo_revoked + 2000000000" "ps_now ?\<sigma>' \<le> (\<lambda>_. 3000000000) (0 :: nat)" by (simp_all add: demo_revoked_def)
  have "fst (ValidateToken demo_ulib userMemory ulive (\<lambda>_. 1000000000) ''a'' (view demo_revoked 7)) = Inr ''ann''"
    by (simp add: ValidateToken_live demo_tokens view_def demo_revoked_def tc_get_def)
  with revocation_within_two_seconds [OF demo_revoked_reachable n h run t, of 7] show ?thesis by blast
qed

theorem logout_race_accepts_revoked_token_witness:
  "fst (ValidateToken demo_ulib userMemory ulive (\<lambda>_. 9) ''a''
     (vt_fill demo_ulib (\<lambda>_. 5) ''a'' (u_ID demo_user) (snd (Logout demo_ulib userMemory ulive ''a'' demo_signed_in)))) = Inr (u_ID demo_user)"
proof -
  have 1: "vt_read demo_ulib userMemory ulive (\<lambda>_. 5) ''a'' demo_signed_in = (Some (u_ID demo_user), demo_signed_in)"
    by (simp add: vt_read_def Let_def on_repo_apply um_FindSessionByTokenHash_def tc_get_def demo_signed_in_def demo_accounts_def
        NewUserService_def)
  obtain r s2 where 2: "Logout demo_ulib userMemory ulive ''a'' demo_signed_in = (r, s2)" by fastforce
  have "(\<lambda>_. 9 :: int) (0 :: nat) \<le> (\<lambda>_. 5) (2 :: nat) + 2000000000" by simp
  from logout_race_accepts_revoked_token [OF 1 2 this] 2 show ?thesis by simp
qed

theorem require_auth_sound_witness:
  "fst (RequireAuth demo_ulib userMemory ulive (\<lambda>_. 5) \<lparr>ar_Authorization = ''Bearer a'', ar_Cookie = Some ''b''\<rparr> demo_signed_in) =
     AuthPassed (u_ID demo_user) ''a''"
proof -
  let ?r = "\<lparr>ar_Authorization = ''Bearer a'', ar_Cookie = Some ''b''\<rparr>"
  obtain out s' where run: "RequireAuth demo_ulib userMemory ulive (\<lambda>_. 5) ?r demo_signed_in = (out, s')" by fastforce
  then have "\<exists>u t. out = AuthPassed u t"
    by (auto simp: RequireAuth_def credentialSource_def bearerToken_def ValidateToken_live tc_get_def demo_signed_in_def
        demo_accounts_def NewUserService_def Let_def split: if_splits)
  then obtain u t where out: "out = AuthPassed u t" by blast
  from require_auth_sound [OF run] out have t: "t = ''a''" "ValidateToken demo_ulib userMemory ulive (\<lambda>_. 5) t demo_signed_in = (Inr u, s')"
    by auto
  then have "u = u_ID demo_user"
    by (auto simp: ValidateToken_live tc_get_def demo_signed_in_def demo_accounts_def NewUserService_def Let_def)
  with run out t show ?thesis by simp
qed

end
