(* ===== verification/TaskRoutes.thy ===== *)
theory TaskRoutes
  imports TaskCSV UserGuarantees
begin

text \<open>
  The routes of \<^verbatim>\<open>task.Handler.RegisterRoutes\<close> on a \<^verbatim>\<open>http.ServeMux\<close>, each behind
  \<^verbatim>\<open>requireAuth\<close>, and what a user can learn through them: a request is a step of the task
  store, the responses a user gets depend on that user's tasks only, and a 304 means that the
  client's copy is current.
\<close>

subsection \<open>The mux\<close>

datatype segment = Lit string | Wild

datatype task_route = RCreate | RList | RStats | RExport | RGet | RUpdate | RDone | RStatus | RDelete

definition RegisterRoutes :: "(string \<times> segment list \<times> task_route) list" where
  "RegisterRoutes =
     [(''POST'', [Lit ''tasks''], RCreate),
      (''GET'', [Lit ''tasks''], RList),
      (''GET'', [Lit ''tasks'', Lit ''stats''], RStats),
      (''GET'', [Lit ''tasks'', Lit ''export''], RExport),
      (''GET'', [Lit ''tasks'', Wild], RGet),
      (''PUT'', [Lit ''tasks'', Wild], RUpdate),
      (''PATCH'', [Lit ''tasks'', Wild, Lit ''done''], RDone),
      (''PATCH'', [Lit ''tasks'', Wild, Lit ''status''], RStatus),
      (''DELETE'', [Lit ''tasks'', Wild], RDelete)]"

text \<open>
  \<^verbatim>\<open>ServeMux\<close>: a wildcard takes one non-empty segment, a pattern for GET also serves HEAD, and of
  several matching patterns the more specific one, a literal against a wildcard, wins. No
  pattern for the path is 404, patterns for other methods only are 405.
\<close>

fun segment_match :: "segment \<Rightarrow> string \<Rightarrow> bool" where
  "segment_match (Lit l) x = (l = x)"
| "segment_match Wild x = (x \<noteq> '''')"

fun wildcards :: "segment list \<Rightarrow> nat" where
  "wildcards [] = 0"
| "wildcards (Wild # p) = Suc (wildcards p)"
| "wildcards (Lit l # p) = wildcards p"

fun path_value :: "segment list \<Rightarrow> string list \<Rightarrow> string" where
  "path_value (Wild # p) (x # xs) = x"
| "path_value (Lit l # p) (x # xs) = path_value p xs"
| "path_value _ _ = ''''"

datatype 'r mux_result = MuxNotFound | MuxMethodNotAllowed | MuxFound 'r string

definition mux_match :: "(string \<times> segment list \<times> 'r) list \<Rightarrow> string \<Rightarrow> string list \<Rightarrow> 'r mux_result" where
  "mux_match routes m path =
     (let hits = filter (\<lambda>(m', p, r). list_all2 segment_match p path) routes;
          mine = filter (\<lambda>(m', p, r). m' = m \<or> (m' = ''GET'' \<and> m = ''HEAD'')) hits
      in case sort_key (\<lambda>(m', p, r). wildcards p) mine of
           (m', p, r) # _ \<Rightarrow> MuxFound r (path_value p path)
         | [] \<Rightarrow> if hits = [] then MuxNotFound else MuxMethodNotAllowed)"

definition mux_lookup :: "string \<Rightarrow> string list \<Rightarrow> task_route mux_result" where
  "mux_lookup = mux_match RegisterRoutes"

subsection \<open>Dispatch\<close>

fun dispatch :: "'s handler \<Rightarrow> ctxs \<Rightarrow> time \<Rightarrow> string + 8 word list \<Rightarrow> string \<Rightarrow> http_request
    \<Rightarrow> task_route \<Rightarrow> string \<Rightarrow> 's \<Rightarrow> http_response \<times> 's" where
  "dispatch h ctx now rnd u r RCreate i s = createTask h ctx now rnd u r s"
| "dispatch h ctx now rnd u r RList i s = listTasks h ctx u r s"
| "dispatch h ctx now rnd u r RStats i s = taskStats h ctx u r s"
| "dispatch h ctx now rnd u r RExport i s = exportTasks h ctx now u r s"
| "dispatch h ctx now rnd u r RGet i s = getTask h ctx u r i s"
| "dispatch h ctx now rnd u r RUpdate i s = updateTask h ctx now u r i s"
| "dispatch h ctx now rnd u r RDone i s = completeTask h ctx now u i s"
| "dispatch h ctx now rnd u r RStatus i s = transitionStatus h ctx now u r i s"
| "dispatch h ctx now rnd u r RDelete i s = deleteTask h ctx u i s"

definition muxError :: "nat \<Rightarrow> string \<Rightarrow> http_response" where
  "muxError status msg = \<lparr>rs_Status = status, rs_Header = [], rs_Body = TextBody msg, rs_Log = []\<rparr>"

definition writeAuthError :: "nat \<Rightarrow> string \<Rightarrow> http_response" where
  "writeAuthError status msg =
     \<lparr>rs_Status = status, rs_Header = [(''Content-Type'', ''application/json'')],
      rs_Body = JsonBody (JObject [(''error'', JString msg)]), rs_Log = []\<rparr>"

text \<open>One request: the mux picks the route, \<^verbatim>\<open>requireAuth\<close> the user, then the handler runs.\<close>

definition serve_tasks :: "user_lib \<Rightarrow> 'u user_repo \<Rightarrow> uctxs \<Rightarrow> clock \<Rightarrow> auth_request
    \<Rightarrow> 's handler \<Rightarrow> ctxs \<Rightarrow> time \<Rightarrow> string + 8 word list \<Rightarrow> http_request
    \<Rightarrow> 'u user_svc \<times> 's \<Rightarrow> http_response \<times> ('u user_svc \<times> 's)" where
  "serve_tasks ul ur uctx clk cred h ctx now rnd r st =
     (case mux_lookup (rq_Method r) (rq_Segments r) of
        MuxNotFound \<Rightarrow> (muxError 404 ''404 page not found'', st)
      | MuxMethodNotAllowed \<Rightarrow> (muxError 405 ''Method Not Allowed'', st)
      | MuxFound route i \<Rightarrow>
          (case st of (us, ts) \<Rightarrow>
           case RequireAuth ul ur uctx clk cred us of
             (AuthRejected status msg, us') \<Rightarrow> (writeAuthError status msg, (us', ts))
           | (AuthPassed u token, us') \<Rightarrow>
               (case dispatch h ctx now rnd u r route i ts of (rs, ts') \<Rightarrow> (rs, (us', ts')))))"

subsection \<open>A request as a call of the service\<close>

fun call_of :: "time \<Rightarrow> 8 word list \<Rightarrow> http_request \<Rightarrow> task_route \<Rightarrow> string \<Rightarrow> task_call option" where
  "call_of now rnd r RCreate i =
     map_option (\<lambda>q. CallCreate now rnd (req_Title q) (req_Description q) (req_Priority q)) (rq_Create r)"
| "call_of now rnd r RList i =
     (case parsePagination (rq_Query r) of
        Inl _ \<Rightarrow> None
      | Inr (limit, offset) \<Rightarrow> Some (CallList limit (nat offset) (url_index (rq_Query r) ''status'')
                                     (url_index (rq_Query r) ''priority'')))"
| "call_of now rnd r RStats i =
     Some (CallStats (url_index (rq_Query r) ''status'') (url_index (rq_Query r) ''priority''))"
| "call_of now rnd r RExport i =
     Some (CallExport (url_index (rq_Query r) ''status'') (url_index (rq_Query r) ''priority''))"
| "call_of now rnd r RGet i = Some (CallGet i)"
| "call_of now rnd r RUpdate i =
     map_option (\<lambda>q. CallUpdate now i (upd_Title q) (upd_Description q) (upd_Priority q)) (rq_Update r)"
| "call_of now rnd r RDone i = Some (CallComplete now i)"
| "call_of now rnd r RStatus i = map_option (\<lambda>q. CallTransition now i (req_Status q)) (rq_Status r)"
| "call_of now rnd r RDelete i = Some (CallDelete i)"

lemma dispatch_state:
  "snd (dispatch h ctx now (Inr rnd) u r route i s) =
     (case call_of now rnd r route i of None \<Rightarrow> s | Some call \<Rightarrow> serve (h_lib h) (h_repo h) ctx u call s)"
  by (cases route) (auto simp: handler_defs exportTasks_def Let_def split: option.splits sum.splits prod.splits)

lemma call_of_ok: "length rnd = 16 \<Longrightarrow> call_of now rnd r route i = Some call \<Longrightarrow> call_ok call"
  by (cases route) (auto split: option.splits sum.splits prod.splits)

lemma dispatch_step:
  assumes "mem_inv s" and "h_repo h = memoryRepository" and "length rnd = 16"
    and "dispatch h ctx now (Inr rnd) u r route i s = (rs, s')"
  shows "mem_inv s' \<and> (\<exists>t. task_step u t (map_of s) (map_of s'))"
proof -
  have s': "s' = (case call_of now rnd r route i of None \<Rightarrow> s
      | Some call \<Rightarrow> serve (h_lib h) memoryRepository ctx u call s)"
    using assms(4) dispatch_state [of h ctx now rnd u r route i s, unfolded assms(2)] by simp
  show ?thesis
  proof (cases "call_of now rnd r route i")
    case None
    with s' assms(1) show ?thesis by (auto intro: task_step.stay)
  next
    case (Some call)
    with mem.serve_step [OF assms(1) _ _ call_of_ok [OF assms(3) Some]] s' show ?thesis by auto
  qed
qed

subsection \<open>Two stores a user cannot tell apart\<close>

definition own :: "string \<Rightarrow> memory_store \<Rightarrow> task_store" where
  "own u m k = (case map_of m k of None \<Rightarrow> None | Some t \<Rightarrow> if t_UserID t = u then Some t else None)"

abbreviation same_for :: "string \<Rightarrow> memory_store \<Rightarrow> memory_store \<Rightarrow> bool" where
  "same_for u m1 m2 \<equiv> own u m1 = own u m2"

lemma own_Some: "own u m k = Some t \<longleftrightarrow> map_of m k = Some t \<and> t_UserID t = u"
  by (auto simp: own_def split: option.split)

lemma own_other_step:
  assumes "task_step v t (map_of m) (map_of m')" and "v \<noteq> u"
  shows "own u m' = own u m"
proof
  fix k
  have "own u m' k = Some x \<longleftrightarrow> own u m k = Some x" for x
    using task_step_other_owner [OF assms, of x k] by (auto simp: own_Some)
  then show "own u m' k = own u m k" by (metis not_Some_eq)
qed

text \<open>Every method of the store, called for \<open>u\<close>, depends on the tasks of \<open>u\<close> and changes only them.\<close>

lemma own_FindByID:
  "fst (mem_FindByID c i u m) =
     (case ctx_Err c of Some e \<Rightarrow> Inl e | None \<Rightarrow>
      case own u m i of None \<Rightarrow> Inl (Sentinel TErrNotFound) | Some t \<Rightarrow> Inr t)"
  by (simp add: mem_FindByID_def own_def split: option.split)

lemma own_Update:
  assumes "t_UserID t = u"
  shows "fst (mem_Update c t m) =
      (case ctx_Err c of Some e \<Rightarrow> Inl e | None \<Rightarrow>
       case own u m (t_ID t) of
         None \<Rightarrow> Inl (Sentinel TErrNotFound)
       | Some v \<Rightarrow> if t_Version t \<noteq> t_Version v then Inl (Sentinel TErrConflict) else Inr ())"
    and "own u (snd (mem_Update c t m)) =
      (case ctx_Err c of Some e \<Rightarrow> own u m | None \<Rightarrow>
       case own u m (t_ID t) of
         None \<Rightarrow> own u m
       | Some v \<Rightarrow> if t_Version t \<noteq> t_Version v then own u m
           else (own u m)(t_ID t \<mapsto> t\<lparr>t_CreatedAt := t_CreatedAt v, t_Version := t_Version v + 1\<rparr>))"
proof -
  show "fst (mem_Update c t m) =
      (case ctx_Err c of Some e \<Rightarrow> Inl e | None \<Rightarrow>
       case own u m (t_ID t) of
         None \<Rightarrow> Inl (Sentinel TErrNotFound)
       | Some v \<Rightarrow> if t_Version t \<noteq> t_Version v then Inl (Sentinel TErrConflict) else Inr ())"
    using assms by (auto simp: mem_Update_def own_def split: option.split)
  show "own u (snd (mem_Update c t m)) =
      (case ctx_Err c of Some e \<Rightarrow> own u m | None \<Rightarrow>
       case own u m (t_ID t) of
         None \<Rightarrow> own u m
       | Some v \<Rightarrow> if t_Version t \<noteq> t_Version v then own u m
           else (own u m)(t_ID t \<mapsto> t\<lparr>t_CreatedAt := t_CreatedAt v, t_Version := t_Version v + 1\<rparr>))"
    using assms by (cases "map_of m (t_ID t)") (auto simp: mem_Update_def own_def gomap_simps fun_eq_iff split: option.split)
qed

lemma own_Delete:
  "fst (mem_Delete c i u m) =
     (case ctx_Err c of Some e \<Rightarrow> Inl e | None \<Rightarrow>
      if own u m i = None then Inl (Sentinel TErrNotFound) else Inr ())"
  "own u (snd (mem_Delete c i u m)) = (case ctx_Err c of Some e \<Rightarrow> own u m | None \<Rightarrow> (own u m)(i := None))"
  by (simp_all add: mem_Delete_def own_def gomap_simps fun_eq_iff split: option.split)

lemma own_Create:
  assumes "map_of m (t_ID t) = None"
  shows "fst (mem_Create c t m) = (case ctx_Err c of Some e \<Rightarrow> Inl e | None \<Rightarrow> Inr ())"
    and "t_UserID t = u \<Longrightarrow> own u (snd (mem_Create c t m)) =
      (case ctx_Err c of Some e \<Rightarrow> own u m | None \<Rightarrow> (own u m)(t_ID t \<mapsto> t\<lparr>t_Version := 1\<rparr>))"
  using assms by (simp_all add: mem_Create_def own_def gomap_simps fun_eq_iff split: option.split)

lemma same_listing:
  assumes "same_for u m1 m2" and "mem_inv m1" and "mem_inv m2"
  shows "sort_key task_key (mem_matching u sts prs m1) = sort_key task_key (mem_matching u sts prs m2)"
proof -
  have "{t \<in> ran (map_of m1). selected u sts prs t} = {t \<in> ran (map_of m2). selected u sts prs t}"
    using own_Some [of u m1] own_Some [of u m2] assms(1) by (auto simp: selected_def ran_def)
  with is_listing_memory [OF assms(2), of u sts prs]
  have "is_listing (map_of m2) u sts prs (sort_key task_key (mem_matching u sts prs m1))"
    by (simp add: is_listing_def)
  from is_listing_unique [OF mem.keyed [OF assms(3)] this is_listing_memory [OF assms(3)]] show ?thesis .
qed

lemma same_matching:
  assumes "same_for u m1 m2" and "mem_inv m1" and "mem_inv m2"
  shows "mset (mem_matching u sts prs m1) = mset (mem_matching u sts prs m2)"
  using same_listing [OF assms] by (metis mset_sort)

lemma same_reads:
  assumes "same_for u m1 m2" and "mem_inv m1" and "mem_inv m2"
  shows "fst (mem_FindAll c u limit offset sts prs m1) = fst (mem_FindAll c u limit offset sts prs m2)"
    and "fst (mem_CountAll c u sts prs m1) = fst (mem_CountAll c u sts prs m2)"
  using same_listing [OF assms] mset_eq_length [OF same_matching [OF assms]]
  by (cases c; simp add: mem_FindAll_def mem_CountAll_def)+

lemma mem_read_state [simp]:
  "snd (mem_FindAll c u limit offset sts prs m) = m" "snd (mem_CountAll c u sts prs m) = m"
  "snd (mem_CountByStatusAndPriority c u sts prs m) = m"
  by (cases c; simp add: mem_defs Let_def)+

subsection \<open>The operations for a user\<close>

text \<open>Two runs of an operation for \<open>u\<close> that answer alike and leave stores \<open>u\<close> cannot tell apart.\<close>

definition alike :: "string \<Rightarrow> 'a \<times> memory_store \<Rightarrow> 'a \<times> memory_store \<Rightarrow> bool" where
  "alike u x y \<longleftrightarrow> fst x = fst y \<and> same_for u (snd x) (snd y)"

lemma alike_pair [simp]: "alike u (a, m1) (b, m2) \<longleftrightarrow> a = b \<and> same_for u m1 m2"
  by (simp add: alike_def)

lemma alike_FindByID:
  assumes "same_for u m1 m2"
  obtains (failed) e where "mem_FindByID c i u m1 = (Inl e, m1)" "mem_FindByID c i u m2 = (Inl e, m2)"
  | (found) t where "mem_FindByID c i u m1 = (Inr t, m1)" "mem_FindByID c i u m2 = (Inr t, m2)" "t_UserID t = u"
proof -
  have f: "mem_FindByID c i u m = (fst (mem_FindByID c i u m), m)" for m
    by (metis mem_FindByID_state prod.collapse)
  show thesis
  proof (cases "fst (mem_FindByID c i u m1)")
    case (Inl e)
    with assms f show ?thesis by (metis failed own_FindByID)
  next
    case (Inr t)
    then have "own u m1 i = Some t" by (simp add: own_FindByID split: option.splits)
    then have "t_UserID t = u" by (simp add: own_Some)
    with Inr assms f show ?thesis by (metis found own_FindByID)
  qed
qed

lemma alike_Update:
  assumes "same_for u m1 m2" and "t_UserID t = u"
  shows "alike u (mem_Update c t m1) (mem_Update c t m2)"
  unfolding alike_def own_Update [OF assms(2)] assms(1) by simp

lemma alike_GetTask: "same_for u m1 m2 \<Longrightarrow> alike u (GetTask memoryRepository ctx u i m1) (GetTask memoryRepository ctx u i m2)"
  by (rule alike_FindByID [of u m1 m2 "ctx 0" i]) (simp_all add: GetTask_def)

lemma alike_case:
  assumes "alike u x y" and "\<And>a n1 n2. same_for u n1 n2 \<Longrightarrow> alike u (f a n1) (f a n2)"
  shows "alike u (case x of (a, n) \<Rightarrow> f a n) (case y of (a, n) \<Rightarrow> f a n)"
  using assms by (cases x; cases y) auto

lemma alike_sum_case:
  "same_for u n1 n2 \<Longrightarrow> alike u (case a of Inl e \<Rightarrow> (f e, n1) | Inr x \<Rightarrow> (g x, n1))
     (case a of Inl e \<Rightarrow> (f e, n2) | Inr x \<Rightarrow> (g x, n2))"
  by (simp split: sum.split)

lemma alike_wrap:
  "alike u x y \<Longrightarrow> alike u (case x of (Inl e, n) \<Rightarrow> (f e, n) | (Inr v, n) \<Rightarrow> (g v, n))
     (case y of (Inl e, n) \<Rightarrow> (f e, n) | (Inr v, n) \<Rightarrow> (g v, n))"
  by (intro alike_case alike_sum_case)

lemma alike_TransitionStatus:
  assumes "same_for u m1 m2"
  shows "alike u (TransitionStatus lib memoryRepository ctx now u i target m1)
    (TransitionStatus lib memoryRepository ctx now u i target m2)"
  using assms
proof (cases rule: alike_FindByID [of u m1 m2 "ctx 0" i])
  case (found t)
  have "alike u (mem_Update (ctx 1) (t\<lparr>t_Status := target, t_UpdatedAt := now\<rparr>) m1)
      (mem_Update (ctx 1) (t\<lparr>t_Status := target, t_UpdatedAt := now\<rparr>) m2)"
    using assms found(3) by (simp add: alike_Update)
  with assms found(1,2) show ?thesis by (simp add: TransitionStatus_def Let_def alike_wrap)
qed (use assms in \<open>simp_all add: TransitionStatus_def\<close>)

lemma alike_CompleteTask:
  "same_for u m1 m2 \<Longrightarrow> alike u (CompleteTask lib memoryRepository ctx now u i m1) (CompleteTask lib memoryRepository ctx now u i m2)"
  unfolding CompleteTask_def by (intro alike_case alike_TransitionStatus alike_sum_case)

lemma alike_UpdateTask:
  assumes "same_for u m1 m2"
  shows "alike u (UpdateTask lib memoryRepository ctx now u i ti de pr m1)
    (UpdateTask lib memoryRepository ctx now u i ti de pr m2)"
  using assms
proof (cases rule: alike_FindByID [of u m1 m2 "ctx 0" i])
  case (found t)
  have "alike u (mem_Update (ctx 1) (t\<lparr>t_Title := a, t_Description := b, t_Priority := p, t_UpdatedAt := now\<rparr>) m1)
      (mem_Update (ctx 1) (t\<lparr>t_Title := a, t_Description := b, t_Priority := p, t_UpdatedAt := now\<rparr>) m2)" for a b p
    using assms found(3) by (simp add: alike_Update)
  with assms found(1,2) show ?thesis
    by (cases "validateTitleAndDescription lib ti de"; cases "projr (validateTitleAndDescription lib ti de)")
      (simp_all add: UpdateTask_def Let_def alike_wrap split: sum.split)
qed (use assms in \<open>simp_all add: UpdateTask_def split: sum.split prod.split\<close>)

lemma alike_DeleteTask:
  assumes "same_for u m1 m2"
  shows "alike u (DeleteTask memoryRepository ctx u i m1) (DeleteTask memoryRepository ctx u i m2)"
proof -
  have "alike u (mem_Delete (ctx 0) i u m1) (mem_Delete (ctx 0) i u m2)"
    using assms by (simp add: alike_def own_Delete cong: option.case_cong if_cong)
  with assms show ?thesis by (simp add: DeleteTask_def alike_wrap)
qed

lemma alike_CreateTask:
  assumes "same_for u m1 m2" and "\<And>i. newID rnd = Inr i \<Longrightarrow> map_of m1 i = None \<and> map_of m2 i = None"
  shows "alike u (CreateTask lib memoryRepository ctx now rnd u ti de pr m1)
    (CreateTask lib memoryRepository ctx now rnd u ti de pr m2)"
proof -
  have "alike u (mem_Create (ctx 0) t m1) (mem_Create (ctx 0) t m2)" if "newID rnd = Inr (t_ID t)" "t_UserID t = u" for t
    using assms that by (simp add: alike_def own_Create cong: option.case_cong)
  then show ?thesis using assms(1)
    by (cases "validateTitleAndDescription lib ti de"; cases "projr (validateTitleAndDescription lib ti de)")
      (simp_all add: CreateTask_def Let_def alike_wrap split: sum.split)
qed

lemma same_read_answers:
  assumes "same_for u m1 m2" and "mem_inv m1" and "mem_inv m2"
  obtains F N where "\<And>c l f sts prs. mem_FindAll c u l f sts prs m1 = (F c l f sts prs, m1)"
    "\<And>c l f sts prs. mem_FindAll c u l f sts prs m2 = (F c l f sts prs, m2)"
    "\<And>c sts prs. mem_CountAll c u sts prs m1 = (N c sts prs, m1)"
    "\<And>c sts prs. mem_CountAll c u sts prs m2 = (N c sts prs, m2)"
  by (rule that [of "\<lambda>c l f sts prs. fst (mem_FindAll c u l f sts prs m2)" "\<lambda>c sts prs. fst (mem_CountAll c u sts prs m2)"])
    (simp_all add: prod_eq_iff same_reads [OF assms])

lemma alike_ListTasks:
  assumes "same_for u m1 m2" and "mem_inv m1" and "mem_inv m2"
  shows "alike u (ListTasks memoryRepository ctx u limit offset sts prs m1) (ListTasks memoryRepository ctx u limit offset sts prs m2)"
  by (rule same_read_answers [OF assms]) (simp add: ListTasks_def assms(1) split: sum.split)

lemma alike_ExportTasks:
  assumes "same_for u m1 m2" and "mem_inv m1" and "mem_inv m2"
  shows "alike u (ExportTasks memoryRepository ctx u sts prs m1) (ExportTasks memoryRepository ctx u sts prs m2)"
  by (rule same_read_answers [OF assms]) (simp add: ExportTasks_def assms(1) split: sum.split)

lemma counts_of_mset:
  assumes "counts_of known f xs g1" and "counts_of known f ys g2" and "mset xs = mset ys"
  shows "mset g1 = mset g2"
proof -
  have "length (filter (\<lambda>t. f t = x) xs) = length (filter (\<lambda>t. f t = x) ys)" for x
    using assms(3) by (metis mset_filter size_mset)
  moreover have "set xs = set ys" using assms(3) by (rule mset_eq_setD)
  ultimately have "map_of g1 = map_of g2"
    using assms(1,2) by (simp add: counts_of_def fun_eq_iff)
  moreover have wf: "gomap_wf g1" "gomap_wf g2" using assms(1,2) by (simp_all add: counts_of_def)
  ultimately have "set g1 = set g2" by (metis map_of_inject_set)
  with wf show ?thesis by (metis distinct_map set_eq_iff_mset_eq_distinct)
qed

lemma fold_add: "fold (\<lambda>x a. a + x) xs (a :: int) = a + sum_list xs"
  by (induction xs arbitrary: a) simp_all

lemma same_TaskStats:
  assumes "same_for u m1 m2" and "mem_inv m1" and "mem_inv m2"
  obtains (failed) e where "TaskStats memoryRepository ctx u sts prs m1 = (Inl e, m1)"
    "TaskStats memoryRepository ctx u sts prs m2 = (Inl e, m2)"
  | (ok) q1 q2 where "TaskStats memoryRepository ctx u sts prs m1 = (Inr q1, m1)"
    "TaskStats memoryRepository ctx u sts prs m2 = (Inr q2, m2)" "taskStatsResponse q1 = taskStatsResponse q2"
proof (cases "validateStatusFilters sts")
  case (Inl e)
  with failed show thesis by (simp add: TaskStats_def)
next
  case st: (Inr st)
  show thesis
  proof (cases "validatePriorityFilters prs")
    case (Inl e)
    with st failed show thesis by (simp add: TaskStats_def)
  next
    case p: (Inr p)
    show thesis
    proof (cases "ctx_Err (ctx 0)")
      case (Some e)
      with st p failed show thesis by (simp add: TaskStats_def mem_CountByStatusAndPriority_def)
    next
      case None
      then have live: "ctx 0 = Live" by simp
      obtain b1 c1 b2 c2 where r: "mem_CountByStatusAndPriority Live u st p m1 = (Inr (b1, c1), m1)"
        "mem_CountByStatusAndPriority Live u st p m2 = (Inr (b2, c2), m2)"
        by (simp add: mem_CountByStatusAndPriority_def Let_def)
      have ms: "mset b1 = mset b2" "mset c1 = mset c2"
        using mem_count_spec [OF r(1)] mem_count_spec [OF r(2)] same_matching [OF assms]
        by (blast intro: counts_of_mset)+
      moreover have "gomap_wf b1" "gomap_wf c1"
        using mem_count_spec [OF r(1)] by (simp_all add: counts_of_def)
      ultimately have "sort_key fst b1 = sort_key fst b2" "sort_key fst c1 = sort_key fst c2"
        by (simp_all add: sort_key_mset_cong distinct_map)
      moreover have "sum_list (map snd b1) = sum_list (map snd b2)"
        using ms(1) by (metis mset_map sum_mset_sum_list)
      ultimately show thesis using st p live r ok
        by (simp add: TaskStats_def fold_add taskStatsResponse_def counts_json_def)
    qed
  qed
qed

lemma alikeE:
  assumes "alike u x y"
  obtains a n1 n2 where "x = (a, n1)" "y = (a, n2)" "same_for u n1 n2"
  using assms by (cases x; cases y) auto

text \<open>Every route, called for \<open>u\<close>, on two stores \<open>u\<close> cannot tell apart.\<close>

lemma alike_dispatch:
  assumes "same_for u m1 m2" and "mem_inv m1" and "mem_inv m2" and "h_repo h = memoryRepository"
    and "\<And>i. newID rnd = Inr i \<Longrightarrow> map_of m1 i = None \<and> map_of m2 i = None"
  shows "alike u (dispatch h ctx now rnd u r route i m1) (dispatch h ctx now rnd u r route i m2)"
proof (cases route)
  case RCreate
  with assms show ?thesis
    by (simp add: createTask_def alike_wrap alike_CreateTask split: option.split)
next
  case RList
  show ?thesis
  proof (cases "parsePagination (rq_Query r)")
    case (Inr lo)
    obtain l f where "lo = (l, f)" by (cases lo)
    with Inr RList assms(4) show ?thesis
      using alike_ListTasks [OF assms(1-3), of ctx l "nat f" "url_index (rq_Query r) ''status''" "url_index (rq_Query r) ''priority''"]
      by (elim alikeE) (simp add: listTasks_def Let_def split: sum.split prod.split)
  qed (use RList assms(1) in \<open>simp add: listTasks_def\<close>)
next
  case RStats
  show ?thesis
    by (rule same_TaskStats [OF assms(1-3), of ctx "url_index (rq_Query r) ''status''" "url_index (rq_Query r) ''priority''"])
      (use RStats assms(1,4) in \<open>simp_all add: taskStats_def\<close>)
next
  case RExport
  with assms(4) show ?thesis
    using alike_ExportTasks [OF assms(1-3), of ctx "url_index (rq_Query r) ''status''" "url_index (rq_Query r) ''priority''"]
    by (elim alikeE) (simp add: exportTasks_def Let_def split: sum.split)
next
  case RGet
  with assms(4) show ?thesis
    using alike_GetTask [OF assms(1), of ctx i] by (elim alikeE) (simp add: getTask_def Let_def split: sum.split)
next
  case RUpdate
  with assms show ?thesis by (simp add: updateTask_def alike_wrap alike_UpdateTask split: option.split)
next
  case RDone
  with assms show ?thesis by (simp add: completeTask_def alike_wrap alike_CompleteTask)
next
  case RStatus
  with assms show ?thesis by (simp add: transitionStatus_def alike_wrap alike_TransitionStatus split: option.split)
next
  case RDelete
  with assms show ?thesis by (simp add: deleteTask_def alike_wrap alike_DeleteTask)
qed

subsection \<open>Noninterference\<close>

text \<open>
  A request of an authenticated user: who, with which contexts, clock and random bytes, and what is
  asked. A history is a list of them; its transcript pairs every response with its user.
\<close>

type_synonym http_event = "string \<times> ctxs \<times> time \<times> 8 word list \<times> http_request"

fun answer :: "'s handler \<Rightarrow> http_event \<Rightarrow> 's \<Rightarrow> http_response \<times> 's" where
  "answer h (u, ctx, now, rnd, r) m =
     (case mux_lookup (rq_Method r) (rq_Segments r) of
        MuxNotFound \<Rightarrow> (muxError 404 ''404 page not found'', m)
      | MuxMethodNotAllowed \<Rightarrow> (muxError 405 ''Method Not Allowed'', m)
      | MuxFound route i \<Rightarrow> dispatch h ctx now (Inr rnd) u r route i m)"

fun transcript :: "'s handler \<Rightarrow> http_event list \<Rightarrow> 's \<Rightarrow> (string \<times> http_response) list \<times> 's" where
  "transcript h [] m = ([], m)"
| "transcript h (e # es) m =
     (case answer h e m of (rs, m') \<Rightarrow>
      case transcript h es m' of (out, m'') \<Rightarrow> ((fst e, rs) # out, m''))"

text \<open>The identifiers the history draws are sixteen random bytes each, never repeated and not in use.\<close>

fun drawn :: "http_event \<Rightarrow> string tres" where
  "drawn (u, ctx, now, rnd, r) = newID (Inr rnd)"

fun event_ok :: "http_event \<Rightarrow> bool" where
  "event_ok (u, ctx, now, rnd, r) = (length rnd = 16)"

definition fresh_history :: "http_event list \<Rightarrow> memory_store \<Rightarrow> bool" where
  "fresh_history es m \<longleftrightarrow> list_all event_ok es \<and> distinct (map drawn es) \<and>
     (\<forall>e \<in> set es. \<forall>i. drawn e = Inr i \<longrightarrow> map_of m i = None)"

lemma mem_read_stateD [dest!]:
  "mem_FindByID c i u m = (r1, m') \<Longrightarrow> m' = m" "mem_FindAll c u l f sts prs m = (r2, m') \<Longrightarrow> m' = m"
  "mem_CountAll c u sts prs m = (r3, m') \<Longrightarrow> m' = m"
  "mem_CountByStatusAndPriority c u sts prs m = (r4, m') \<Longrightarrow> m' = m"
  by (metis mem_FindByID_state mem_read_state snd_conv)+

lemma UpdateTask_dom:
  "map_of (snd (UpdateTask lib memoryRepository ctx now u i ti de pr m)) k = None \<longleftrightarrow> map_of m k = None"
proof -
  have "snd (UpdateTask lib memoryRepository ctx now u i ti de pr m) = m \<or>
      (\<exists>t. snd (UpdateTask lib memoryRepository ctx now u i ti de pr m) = snd (mem_Update (ctx 1) t m))"
    by (auto simp: UpdateTask_def Let_def split: sum.split prod.split) (metis mem_read_stateD(1) snd_conv)+
  then show ?thesis using mem_Update_dom by (metis prod.collapse)
qed

lemma TransitionStatus_dom:
  "map_of (snd (TransitionStatus lib memoryRepository ctx now u i target m)) k = None \<longleftrightarrow> map_of m k = None"
proof -
  have "snd (TransitionStatus lib memoryRepository ctx now u i target m) = m \<or>
      (\<exists>t. snd (TransitionStatus lib memoryRepository ctx now u i target m) = snd (mem_Update (ctx 1) t m))"
    by (auto simp: TransitionStatus_def Let_def split: sum.split prod.split) (metis mem_read_stateD(1) snd_conv)+
  then show ?thesis using mem_Update_dom by (metis prod.collapse)
qed

lemma serve_dom:
  assumes "map_of (serve lib memoryRepository ctx u call m) k \<noteq> None"
  shows "map_of m k \<noteq> None \<or> (\<exists>now rnd ti de pr. call = CallCreate now rnd ti de pr \<and> newID (Inr rnd) = Inr k)"
proof (cases call)
  case (CallCreate now rnd ti de pr)
  obtain i where "newID (Inr rnd) = Inr i" by (simp add: newID_def Let_def)
  with CallCreate assms CreateTask_dom [of lib ctx now "Inr rnd" u ti de pr m _ _ i k] show ?thesis
    by (metis serve.simps(1) prod.collapse)
next
  case (CallDelete i)
  with assms DeleteTask_dom [of ctx u i m _ _ k] show ?thesis by (metis serve.simps(7) prod.collapse)
next
  case (CallUpdate now i ti de pr)
  with assms show ?thesis by (simp add: UpdateTask_dom)
next
  case (CallComplete now i)
  with assms TransitionStatus_dom [of lib ctx now u i StatusDone m k] show ?thesis
    by (auto simp: CompleteTask_def split: sum.splits prod.splits)
next
  case (CallTransition now i target)
  with assms show ?thesis by (simp add: TransitionStatus_dom)
next
  case (CallGet i)
  with assms show ?thesis by (auto simp: GetTask_def split: sum.splits prod.splits if_splits)
next
  case (CallList l f sts prs)
  with assms show ?thesis by (auto simp: ListTasks_def split: sum.splits prod.splits if_splits)
next
  case (CallStats sts prs)
  with assms show ?thesis by (auto simp: TaskStats_def split: sum.splits prod.splits if_splits)
next
  case (CallExport sts prs)
  with assms show ?thesis by (auto simp: ExportTasks_def split: sum.splits prod.splits if_splits)
qed

lemma answer_step:
  assumes "mem_inv m" and "h_repo h = memoryRepository" and "event_ok e" and "answer h e m = (rs, m')"
  shows "mem_inv m' \<and> (\<exists>t. task_step (fst e) t (map_of m) (map_of m'))"
proof -
  obtain u ctx now rnd r where e: "e = (u, ctx, now, rnd, r)" by (cases e)
  with assms dispatch_step [OF assms(1,2), of rnd ctx now u r] show ?thesis
    by (auto intro: task_step.stay split: mux_result.splits)
qed

lemma answer_dom:
  assumes "h_repo h = memoryRepository" and "answer h e m = (rs, m')" and "map_of m' k \<noteq> None"
  shows "map_of m k \<noteq> None \<or> drawn e = Inr k"
proof -
  obtain u ctx now rnd r where e: "e = (u, ctx, now, rnd, r)" by (cases e)
  show ?thesis
  proof (cases "m' = m")
    case False
    with assms(2) e obtain route i where "dispatch h ctx now (Inr rnd) u r route i m = (rs, m')"
      by (auto split: mux_result.splits)
    with False dispatch_state [of h ctx now rnd u r route i m, unfolded assms(1)] obtain call
      where call: "call_of now rnd r route i = Some call" "m' = serve (h_lib h) memoryRepository ctx u call m"
      by (auto split: option.splits)
    from serve_dom [of "h_lib h" ctx u call m k] assms(3) call(2) show ?thesis
      using call(1) e by (cases route) (auto split: option.splits sum.splits prod.splits)
  qed (use assms(3) in simp)
qed

lemma fresh_history_step:
  assumes "fresh_history (e # es) m" and "h_repo h = memoryRepository" and "answer h e m = (rs, m')"
  shows "fresh_history es m'"
  unfolding fresh_history_def
proof (intro conjI ballI allI impI)
  fix e' i assume e': "e' \<in> set es" "drawn e' = Inr i"
  with assms(1) have "map_of m i = None" "drawn e \<noteq> Inr i" by (force simp: fresh_history_def)+
  then show "map_of m' i = None" using answer_dom [OF assms(2,3)] by blast
qed (use assms(1) in \<open>simp_all add: fresh_history_def\<close>)

lemma fresh_history_skip: "fresh_history (e # es) m \<Longrightarrow> fresh_history es m"
  by (simp add: fresh_history_def)

lemma alike_answer:
  assumes "same_for (fst e) m1 m2" and "mem_inv m1" and "mem_inv m2" and "h_repo h = memoryRepository"
    and "\<And>i. drawn e = Inr i \<Longrightarrow> map_of m1 i = None \<and> map_of m2 i = None"
  shows "alike (fst e) (answer h e m1) (answer h e m2)"
proof -
  obtain u ctx now rnd r where e: "e = (u, ctx, now, rnd, r)" by (cases e)
  with assms show ?thesis
    using alike_dispatch [of u m1 m2 h "Inr rnd" ctx now r] by (simp split: mux_result.split)
qed

abbreviation seen_by :: "string \<Rightarrow> (string \<times> 'a) list \<Rightarrow> (string \<times> 'a) list" where
  "seen_by u xs \<equiv> filter (\<lambda>x. fst x = u) xs"

lemma noninterference_aux:
  assumes "same_for u m1 m2" and "mem_inv m1" and "mem_inv m2" and "h_repo h = memoryRepository"
    and "fresh_history es m1" and "fresh_history (filter (\<lambda>e. fst e = u) es) m2"
  shows "seen_by u (fst (transcript h es m1)) = fst (transcript h (filter (\<lambda>e. fst e = u) es) m2)"
  using assms(1-3,5,6)
proof (induction es arbitrary: m1 m2)
  case (Cons e es)
  obtain rs m1' where a1: "answer h e m1 = (rs, m1')" by fastforce
  have ok: "event_ok e" using Cons.prems(4) by (simp add: fresh_history_def)
  have s1: "mem_inv m1'" "\<exists>t. task_step (fst e) t (map_of m1) (map_of m1')"
    using answer_step [OF Cons.prems(2) assms(4) ok a1] by auto
  have f1: "fresh_history es m1'" by (rule fresh_history_step [OF Cons.prems(4) assms(4) a1])
  show ?case
  proof (cases "fst e = u")
    case True
    have "\<And>i. drawn e = Inr i \<Longrightarrow> map_of m1 i = None \<and> map_of m2 i = None"
      using Cons.prems(4,5) True by (simp add: fresh_history_def)
    with alike_answer [of e m1 m2 h] Cons.prems(1-3) assms(4) True a1 obtain m2'
      where a2: "answer h e m2 = (rs, m2')" "same_for u m1' m2'"
      by (cases "answer h e m2") auto
    have "mem_inv m2'" using answer_step [OF Cons.prems(3) assms(4) ok a2(1)] by simp
    moreover have "fresh_history (filter (\<lambda>e. fst e = u) es) m2'"
      using fresh_history_step [OF _ assms(4) a2(1)] Cons.prems(5) True by simp
    ultimately show ?thesis
      using Cons.IH [OF a2(2) s1(1) _ f1] True a1 a2(1) by (simp split: prod.split) (metis fst_conv)
  next
    case False
    with s1(2) own_other_step Cons.prems(1) have "same_for u m1' m2" by metis
    with Cons.IH [OF this s1(1) Cons.prems(3) f1] Cons.prems(5) False a1 show ?thesis
      by (simp split: prod.split) (metis fst_conv)
  qed
qed simp

text \<open>
  C10. Noninterference over HTTP: take any history of requests, by any users, on any of the nine
  routes (and unknown ones), with any contexts; every response a user gets in it (status, headers,
  body and log lines) is the response that user gets when all requests of the others are left out. So no response,
  not even an error, a total count or an entity tag, tells a user anything about another user's tasks.
  (The random identifiers drawn for new tasks must not repeat, which sixteen random bytes ensure.)
\<close>

theorem http_noninterference:
  assumes "mem_inv m" and "h_repo h = memoryRepository" and "fresh_history es m"
  shows "filter (\<lambda>x. fst x = u) (fst (transcript h es m)) = fst (transcript h (filter (\<lambda>e. fst e = u) es) m)"
proof -
  have "fresh_history (filter (\<lambda>e. fst e = u) es) m"
    using assms(3) by (auto simp: fresh_history_def list_all_iff distinct_map_filter)
  from noninterference_aux [OF refl assms(1,1,2,3) this] show ?thesis .
qed

definition demo_delete :: http_request where
  "demo_delete = demo_request\<lparr>rq_Method := ''DELETE'', rq_Segments := [''tasks'', demo_id]\<rparr>"

definition demo_get :: http_request where
  "demo_get = demo_request\<lparr>rq_Segments := [''tasks'', demo_id]\<rparr>"

definition demo_history :: "http_event list" where
  "demo_history = [(''bob'', live, 6, demo_bytes[0 := 77], demo_delete), (''ann'', live, 7, demo_bytes[0 := 78], demo_get)]"

theorem http_noninterference_witness:
  "filter (\<lambda>x. fst x = ''ann'') (fst (transcript demo_handler demo_history [(demo_id, demo_task)])) =
     fst (transcript demo_handler [(''ann'', live, 7, demo_bytes[0 := 78], demo_get)] [(demo_id, demo_task)])"
proof -
  have repo: "h_repo demo_handler = memoryRepository" by (simp add: demo_handler_def)
  have "fresh_history demo_history [(demo_id, demo_task)]"
    by (simp add: fresh_history_def demo_history_def demo_bytes_def newID_def demo_id_def go_eval)
  from http_noninterference [OF demo_store_inv repo this, of "''ann''"] show ?thesis
    by (simp add: demo_history_def)
qed

text \<open>
  Authentication and tenant isolation, end to end: whatever a request contains, if
  \<^verbatim>\<open>RequireAuth\<close> does not accept its credential then no task changes and the answer is 401, 503, 404 or 405;
  if it accepts it for a user, every task of everybody else is exactly what it was.
\<close>

theorem request_confined_to_its_user:
  assumes "mem_inv ts" and "h_repo h = memoryRepository" and "length rnd = 16"
    and "serve_tasks ul ur uctx clk cred h ctx now (Inr rnd) r (us, ts) = (rs, (us', ts'))"
  shows "case fst (RequireAuth ul ur uctx clk cred us) of
      AuthRejected status msg \<Rightarrow> ts' = ts \<and> rs_Status rs \<in> {401, 503, 404, 405}
    | AuthPassed u token \<Rightarrow> \<forall>k t. t_UserID t \<noteq> u \<longrightarrow> map_of ts' k = Some t \<longleftrightarrow> map_of ts k = Some t"
proof (cases "mux_lookup (rq_Method r) (rq_Segments r)")
  case (MuxFound route i)
  show ?thesis
  proof (cases "RequireAuth ul ur uctx clk cred us")
    case auth: (Pair out us1)
    show ?thesis
    proof (cases out)
      case (AuthRejected status msg)
      moreover from this auth have "status \<in> {401, 503}"
        by (auto simp: RequireAuth_def split: prod.splits sum.splits if_splits)
      ultimately show ?thesis using MuxFound assms(4) auth by (auto simp: serve_tasks_def writeAuthError_def)
    next
      case (AuthPassed u token)
      with MuxFound assms(4) auth have "dispatch h ctx now (Inr rnd) u r route i ts = (rs, ts')"
        by (auto simp: serve_tasks_def split: prod.splits)
      from dispatch_step [OF assms(1-3) this] obtain t where step: "task_step u t (map_of ts) (map_of ts')" by blast
      have "map_of ts' k = Some x \<longleftrightarrow> map_of ts k = Some x" if "t_UserID x \<noteq> u" for k x
        by (rule task_step_other_owner [OF step _ refl]) (use that in simp)
      with auth AuthPassed show ?thesis by simp
    qed
  qed
qed (use assms(4) in \<open>auto simp: serve_tasks_def muxError_def split: auth_outcome.split\<close>)

theorem request_confined_to_its_user_witness:
  "map_of (snd (snd (serve_tasks demo_ulib userMemory ulive (\<lambda>_. 5) \<lparr>ar_Authorization = ''Bearer a'', ar_Cookie = None\<rparr>
     demo_handler live 7 (Inr demo_bytes) demo_delete (demo_signed_in, [(demo_id, demo_task)])))) demo_id = Some demo_task"
proof -
  let ?cred = "\<lparr>ar_Authorization = ''Bearer a'', ar_Cookie = None\<rparr>"
  obtain rs us' ts' where run: "serve_tasks demo_ulib userMemory ulive (\<lambda>_. 5) ?cred demo_handler live 7 (Inr demo_bytes) demo_delete
      (demo_signed_in, [(demo_id, demo_task)]) = (rs, (us', ts'))"
    by (metis surj_pair)
  have auth: "fst (RequireAuth demo_ulib userMemory ulive (\<lambda>_. 5) ?cred demo_signed_in) = AuthPassed (u_ID demo_user) ''a''"
    by (auto simp: RequireAuth_def credentialSource_def bearerToken_def ValidateToken_live tc_get_def demo_signed_in_def
        demo_accounts_def NewUserService_def Let_def split: if_splits)
  have repo: "h_repo demo_handler = memoryRepository" by (simp add: demo_handler_def)
  have len: "length demo_bytes = 16" by (simp add: demo_bytes_def)
  from request_confined_to_its_user [OF demo_store_inv repo len run] auth
  have "t_UserID demo_task \<noteq> u_ID demo_user \<longrightarrow> map_of ts' demo_id = Some demo_task" by simp
  with run show ?thesis by (simp add: demo_task_def demo_user_def)
qed

end
