(* ===== verification/TaskConditional.thy ===== *)
theory TaskConditional
  imports TaskRoutes
begin

text \<open>
  Conditional requests: what a 304 tells a client. A task's tag is its identifier and version, a page's
  tag a hash of those of its rows; the version grows with every change, so equal tags mean equal tasks,
  whatever happened in between.
\<close>

subsection \<open>Versions only grow\<close>

lemma version_step:
  assumes "task_step u t m m'" and "m i = Some x"
  shows "m' i = None \<or> m' i = Some x \<or> (\<exists>y. m' i = Some y \<and> t_Version x < t_Version y)"
  using assms by (cases rule: task_step.cases) auto

definition since :: "string \<Rightarrow> task \<Rightarrow> memory_store \<Rightarrow> bool" where
  "since i x m \<longleftrightarrow> (case map_of m i of None \<Rightarrow> True | Some y \<Rightarrow> y = x \<or> t_Version x < t_Version y)"

lemma snd_transcript [simp]: "snd (transcript h (e # es) m) = snd (transcript h es (snd (answer h e m)))"
  by (simp split: prod.split)

lemma since_transcript:
  assumes "mem_inv m" and "h_repo h = memoryRepository" and "fresh_history es m" and "since i x m"
    and "\<forall>e \<in> set es. drawn e \<noteq> Inr i"
  shows "since i x (snd (transcript h es m)) \<and> mem_inv (snd (transcript h es m))"
  using assms(1,3-5)
proof (induction es arbitrary: m)
  case (Cons e es)
  obtain rs m' where a: "answer h e m = (rs, m')" by fastforce
  have ok: "event_ok e" using Cons.prems(2) by (simp add: fresh_history_def)
  from answer_step [OF Cons.prems(1) assms(2) ok a] obtain t
    where s: "mem_inv m'" "task_step (fst e) t (map_of m) (map_of m')" by blast
  have "since i x m'"
  proof (cases "map_of m i")
    case None
    with answer_dom [OF assms(2) a, of i] Cons.prems(4) show ?thesis
      by (cases "map_of m' i") (auto simp: since_def)
  next
    case (Some y)
    with version_step [OF s(2) Some] Cons.prems(3) show ?thesis by (auto simp: since_def)
  qed
  with Cons.IH [OF s(1) fresh_history_step [OF Cons.prems(2) assms(2) a]] Cons.prems(4) a show ?case
    by (simp del: transcript.simps)
qed simp

text \<open>A task of the first store is later absent, the very same, or of a higher version.\<close>

lemma stored_since:
  assumes "mem_inv m" and "h_repo h = memoryRepository" and "fresh_history es m" and "map_of m i = Some x"
  shows "since i x (snd (transcript h es m))"
proof -
  have "\<forall>e \<in> set es. drawn e \<noteq> Inr i"
    using assms(3,4) by (fastforce simp: fresh_history_def)
  with since_transcript [OF assms(1-3)] assms(4) show ?thesis by (simp add: since_def)
qed

subsection \<open>Tags and their comparison\<close>

lemma chunks_ascii: "\<forall>c \<in> set s. byte c < 128 \<Longrightarrow> chunks s = map (\<lambda>c. (byte c, [c])) s"
  by (induction s) (auto simp: decode_rune.simps)

lemma TrimSpace_quoted:
  assumes "\<forall>c \<in> set s. byte c < 128"
  shows "TrimSpace (quoted s) = quoted s"
proof -
  let ?f = "\<lambda>c. (byte c :: nat, [c])"
  have "chunks (quoted s) = ?f (CHR 0x22) # map ?f s @ [?f (CHR 0x22)]"
    using assms by (subst chunks_ascii) (auto simp: quoted_def)
  then show ?thesis by (simp add: TrimSpace_def IsSpace_def quoted_def comp_def)
qed

lemma ifNoneMatchHits_quoted:
  assumes "\<forall>c \<in> set s. byte c < 128 \<and> c \<noteq> CHR '',''" and "rq_IfNoneMatch r = quoted s"
  shows "ifNoneMatchHits r etag \<longleftrightarrow> etag = quoted s"
proof -
  have "Split (CHR '','') (quoted s) = [quoted s]"
    using assms(1) by (intro Split_no_sep) (auto simp: quoted_def)
  then show ?thesis
    using assms TrimSpace_quoted [of s] by (auto simp: ifNoneMatchHits_def quoted_def Let_def)
qed

lemma digits_ascii: "is_digit c \<Longrightarrow> byte c < 128 \<and> c \<notin> {CHR '','', CHR '';'', CHR '':''}"
  by (auto simp: is_digit_def)

lemma is_hex_ascii: "is_hex c \<Longrightarrow> byte c < 128 \<and> c \<notin> {CHR '','', CHR '';'', CHR '':''}"
  by (auto simp: is_hex_def is_digit_def)

lemma Itoa_chars: "c \<in> set (Itoa i) \<Longrightarrow> byte c < 128 \<and> c \<notin> {CHR '','', CHR '';'', CHR '':''}"
  using show_nat_digits digits_ascii by (fastforce simp: Itoa_def split: if_splits)

lemma isValidID_chars:
  assumes "isValidID i" and "c \<in> set i"
  shows "byte c < 128 \<and> c \<notin> {CHR '','', CHR '';'', CHR '':''}"
proof -
  obtain k where k: "k < length i" "i ! k = c" using assms(2) by (auto simp: in_set_conv_nth)
  with assms(1) have "is_hex c \<or> c = CHR ''-''"
    by (auto simp: isValidID_def list_all2_conv_all_nth split: if_splits)
  then show ?thesis using is_hex_ascii by auto
qed

lemma taskETag_inject:
  assumes "isValidID (t_ID x)" and "isValidID (t_ID y)"
  shows "taskETag x = taskETag y \<longleftrightarrow> t_ID x = t_ID y \<and> t_Version x = t_Version y"
proof
  assume "taskETag x = taskETag y"
  then have "t_ID x @ CHR '':'' # Itoa (t_Version x) = t_ID y @ CHR '':'' # Itoa (t_Version y)"
    by (simp add: taskETag_def quoted_def)
  moreover have "CHR '':'' \<notin> set (t_ID x)" "CHR '':'' \<notin> set (t_ID y)"
    using isValidID_chars assms by blast+
  ultimately show "t_ID x = t_ID y \<and> t_Version x = t_Version y"
    using split_at_sep by (metis Itoa_inject)
qed (simp add: taskETag_def)

lemma pageDigestInput_inject:
  assumes "\<forall>t \<in> set xs \<union> set ys. isValidID (t_ID t)" and "pageDigestInput xs = pageDigestInput ys"
  shows "map (\<lambda>t. (t_ID t, t_Version t)) xs = map (\<lambda>t. (t_ID t, t_Version t)) ys"
  using assms
proof (induction xs arbitrary: ys)
  case Nil
  then show ?case by (cases ys) (auto simp: pageDigestInput_def)
next
  case (Cons x xs)
  then obtain y ys' where ys: "ys = y # ys'" by (cases ys) (auto simp: pageDigestInput_def)
  with Cons.prems(2) have eq: "t_ID x @ CHR '':'' # Itoa (t_Version x) @ CHR '';'' # pageDigestInput xs =
      t_ID y @ CHR '':'' # Itoa (t_Version y) @ CHR '';'' # pageDigestInput ys'"
    by (simp add: pageDigestInput_def)
  have "CHR '':'' \<notin> set (t_ID x)" "CHR '':'' \<notin> set (t_ID y)"
    using Cons.prems(1) isValidID_chars ys by (metis UnCI insertCI list.set_intros(1))+
  from split_at_sep [OF eq this] have 1: "t_ID x = t_ID y"
    and 2: "Itoa (t_Version x) @ CHR '';'' # pageDigestInput xs = Itoa (t_Version y) @ CHR '';'' # pageDigestInput ys'"
    by simp_all
  have "CHR '';'' \<notin> set (Itoa n)" for n using Itoa_chars by blast
  from split_at_sep [OF 2 this this] have "t_Version x = t_Version y" "pageDigestInput xs = pageDigestInput ys'"
    by simp_all
  with 1 Cons.IH [of ys'] Cons.prems(1) ys show ?case by simp
qed

subsection \<open>What a 304 means\<close>

lemma refused [simp]:
  "rs_Status (handleServiceError tx err) \<noteq> 200" "rs_Status (handleServiceError tx err) \<noteq> 304"
  by (simp_all add: handleServiceError_def response_defs)

lemma getTask_status:
  "rs_Status (fst (getTask h ctx u r i m)) =
     (case fst (GetTask (h_repo h) ctx u i m) of
        Inl err \<Rightarrow> rs_Status (handleServiceError (h_txt h) err)
      | Inr t \<Rightarrow> if ifNoneMatchHits r (taskETag t) then 304 else 200)"
  by (simp add: getTask_def Let_def response_defs split: prod.split sum.split)

text \<open>
  C11. A conditional \<^verbatim>\<open>GET /tasks/{id}\<close>: the client got a task with its \<^verbatim>\<open>ETag\<close>; after any
  history of requests by any users it asks again with \<^verbatim>\<open>If-None-Match\<close> set to that tag. The answer is
  304 exactly when the stored task is still the very same, so a client that keeps its copy on a 304 is never stale,
  and one whose copy is current never downloads it again.
\<close>

theorem get_not_modified_iff_unchanged:
  assumes "mem_inv m" and "h_repo h = memoryRepository" and "fresh_history es m"
    and "getTask h live u r i m = (rs, m1)" and "rs_Status rs = 200"
    and "map_of (rs_Header rs) ''ETag'' = Some e" and "rq_IfNoneMatch r' = e"
    and "getTask h live u r' i (snd (transcript h es m)) = (rs', m2)"
  shows "rs_Status rs' = 304 \<longleftrightarrow> map_of (snd (transcript h es m)) i = map_of m i"
proof -
  let ?m = "snd (transcript h es m)"
  have first: "rs_Status (fst (getTask h live u r i m)) = 200" using assms(4,5) by simp
  then have succ: "\<not> isl (fst (GetTask memoryRepository live u i m))"
    by (auto simp: getTask_status assms(2) split: sum.splits)
  then have valid: "isValidID i"
    by (auto simp: GetTask_def split: if_splits)
  from succ mem.GetTask_live [OF assms(1) _ _ valid, of u] obtain x where x: "map_of m i = Some x" "t_UserID x = u"
    "fst (GetTask memoryRepository live u i m) = Inr x"
    by (auto split: option.splits if_splits)
  have ix: "t_ID x = i" using x(1) mem.keyed [OF assms(1)] by (auto simp: keyed_def)
  from assms(2,4-6) x(3) have e: "e = taskETag x"
    by (auto simp: getTask_def Let_def response_defs split: prod.splits sum.splits if_splits)
  have chars: "\<forall>c \<in> set (i @ '':'' @ Itoa (t_Version x)). byte c < 128 \<and> c \<noteq> CHR '',''"
    using isValidID_chars [OF valid] Itoa_chars [of _ "t_Version x"] by auto
  then have hits: "ifNoneMatchHits r' t \<longleftrightarrow> t = taskETag x" for t
    using ifNoneMatchHits_quoted [of "i @ '':'' @ Itoa (t_Version x)"] assms(7) e by (simp add: taskETag_def ix)
  have since: "since i x ?m" by (rule stored_since [OF assms(1-3) x(1)])
  have inv: "mem_inv ?m"
    using since_transcript [OF assms(1-3), of i x] assms(3) x(1) by (fastforce simp: since_def fresh_history_def)
  note get = mem.GetTask_live [OF inv _ _ valid, of u]
  have later: "rs_Status rs' = (case fst (GetTask memoryRepository live u i ?m) of
        Inl err \<Rightarrow> rs_Status (handleServiceError (h_txt h) err)
      | Inr t \<Rightarrow> if taskETag t = taskETag x then 304 else 200)"
    using getTask_status [of h live u r' i ?m, unfolded hits assms(2)] assms(8) by simp
  show ?thesis
  proof (cases "map_of ?m i")
    case None
    with later get x(1) show ?thesis by simp
  next
    case (Some y)
    have "t_ID y = i" using Some mem.keyed [OF inv] by (auto simp: keyed_def)
    then have same: "taskETag y = taskETag x \<longleftrightarrow> y = x"
      using taskETag_inject [of y x] valid ix since Some by (auto simp: since_def)
    show ?thesis
      using later get x(1,2) same Some by (cases "t_UserID y = u") auto
  qed
qed

text \<open>The page a list request shows, and the response in terms of it.\<close>

definition listed :: "'s handler \<Rightarrow> string \<Rightarrow> http_request \<Rightarrow> 's \<Rightarrow> (task list \<times> int) option" where
  "listed h u r m =
     (case parsePagination (rq_Query r) of
        Inl _ \<Rightarrow> None
      | Inr (limit, offset) \<Rightarrow>
          (case fst (ListTasks (h_repo h) live u limit (nat offset) (url_index (rq_Query r) ''status'')
                  (url_index (rq_Query r) ''priority'') m) of
             Inl _ \<Rightarrow> None
           | Inr page \<Rightarrow> Some page))"

lemma listTasks_listed:
  assumes "listed h u r m = Some (ts, n)"
  shows "fst (listTasks h live u r m) =
    (if ifNoneMatchHits r (pageETag (h_sha256 h) ts)
     then \<lparr>rs_Status = 304, rs_Header = [(''X-Total-Count'', Itoa n), (''ETag'', pageETag (h_sha256 h) ts)],
            rs_Body = NoBody, rs_Log = []\<rparr>
     else writeJSON [(''X-Total-Count'', Itoa n), (''ETag'', pageETag (h_sha256 h) ts)] 200 (JArray (map task_json ts)))"
  using assms by (auto simp: listed_def listTasks_def Let_def split: sum.splits prod.splits)

lemma listTasks_not_listed:
  "listed h u r m = None \<Longrightarrow> rs_Status (fst (listTasks h live u r m)) \<notin> {200, 304}"
  by (auto simp: listed_def listTasks_def Let_def response_defs split: sum.splits prod.splits)

lemma listed_cong: "rq_Query r = rq_Query r' \<Longrightarrow> listed h u r m = listed h u r' m"
  by (simp only: listed_def)

lemma listed_stored:
  assumes "mem_inv m" and "h_repo h = memoryRepository" and "listed h u r m = Some (ts, n)" and "t \<in> set ts"
  shows "map_of m (t_ID t) = Some t"
proof -
  obtain limit offset st p where q: "parsePagination (rq_Query r) = Inr (limit, offset)"
    "validateStatusFilters (url_index (rq_Query r) ''status'') = Inr st"
    "validatePriorityFilters (url_index (rq_Query r) ''priority'') = Inr p"
    using assms(2,3) by (auto simp: listed_def ListTasks_def split: sum.splits prod.splits)
  from mem.ListTasks_live [OF assms(1) _ q(2,3), of u limit "nat offset"] assms(2,3) q(1)
  obtain xs where "is_listing (map_of m) u st p xs" "ts = window limit (nat offset) xs"
    by (auto simp: listed_def)
  with assms(4) have "t \<in> ran (map_of m)"
    by (auto simp: is_listing_def window_def dest!: in_set_takeD in_set_dropD split: if_splits)
  then show ?thesis using mem.keyed [OF assms(1)] by (auto simp: ran_def keyed_def)
qed

lemma pageETag_inject:
  assumes "pageETag sha xs = pageETag sha ys"
    and "sha (pageDigestInput xs) = sha (pageDigestInput ys) \<longrightarrow> pageDigestInput xs = pageDigestInput ys"
  shows "pageDigestInput xs = pageDigestInput ys"
  using assms by (auto simp: pageETag_def quoted_def dest: hex_bytes_inject)

lemma transcript_ok:
  assumes "mem_inv m" and "h_repo h = memoryRepository" and "list_all event_ok es" and "all_tasks task_ok (map_of m)"
  shows "mem_inv (snd (transcript h es m)) \<and> all_tasks task_ok (map_of (snd (transcript h es m)))"
  using assms(1,3,4)
proof (induction es arbitrary: m)
  case (Cons e es)
  obtain rs m' where a: "answer h e m = (rs, m')" by fastforce
  from Cons.prems(2) have "event_ok e" by simp
  from answer_step [OF Cons.prems(1) assms(2) this a] Cons.prems(3)
  have "mem_inv m'" "all_tasks task_ok (map_of m')" by (auto dest: task_step_ok)
  with Cons.IH [of m'] Cons.prems(2) a show ?case by (simp del: transcript.simps)
qed simp

text \<open>
  A conditional \<^verbatim>\<open>GET /tasks\<close>: the client got a page with its \<^verbatim>\<open>ETag\<close>; after any history of
  requests by any users it repeats the request with \<^verbatim>\<open>If-None-Match\<close> set to that tag. If the answer is 304, then the
  unconditional request would return the very body the client already has, and the 304 carries the
  current \<^verbatim>\<open>X-Total-Count\<close>. (Provided SHA-256 does not map these two pages to one digest.)
\<close>

theorem list_not_modified_is_current:
  assumes "mem_inv m" and "all_tasks task_ok (map_of m)" and "h_repo h = memoryRepository" and "fresh_history es m"
    and "listTasks h live u r m = (rs, m1)" and "rs_Status rs = 200"
    and "map_of (rs_Header rs) ''ETag'' = Some e" and "m' = snd (transcript h es m)"
    and "listTasks h live u (r\<lparr>rq_IfNoneMatch := e\<rparr>) m' = (rs', m2)" and "rs_Status rs' = 304"
    and "listTasks h live u (r\<lparr>rq_IfNoneMatch := ''''\<rparr>) m' = (full, m3)"
    and "\<And>xs n ys k. listed h u r m = Some (xs, n) \<Longrightarrow> listed h u r m' = Some (ys, k) \<Longrightarrow>
      h_sha256 h (pageDigestInput xs) = h_sha256 h (pageDigestInput ys) \<longrightarrow> pageDigestInput xs = pageDigestInput ys"
  shows "rs_Status full = 200 \<and> rs_Body full = rs_Body rs \<and>
    map_of (rs_Header rs') ''X-Total-Count'' = map_of (rs_Header full) ''X-Total-Count''"
proof -
  let ?tag = "pageETag (h_sha256 h)" and ?r1 = "r\<lparr>rq_IfNoneMatch := e\<rparr>" and ?r0 = "r\<lparr>rq_IfNoneMatch := ''''\<rparr>"
  obtain xs n where xs: "listed h u r m = Some (xs, n)"
    using listTasks_not_listed [of h u r m] assms(5,6) by (cases "listed h u r m") auto
  have later: "listed h u ?r1 m' = listed h u r m'" "listed h u ?r0 m' = listed h u r m'"
    by (rule listed_cong, simp)+
  obtain ys k where ys: "listed h u r m' = Some (ys, k)"
    using listTasks_not_listed [of h u ?r1 m'] assms(9,10) later by (cases "listed h u r m'") auto
  have rs: "rs_Body rs = JsonBody (JArray (map task_json xs))" "e = ?tag xs"
    using listTasks_listed [OF xs] assms(5-7) by (auto simp: response_defs split: if_splits)
  have rs': "ifNoneMatchHits ?r1 (?tag ys)" "map_of (rs_Header rs') ''X-Total-Count'' = Some (Itoa k)"
    using listTasks_listed [of h u ?r1 m' ys k] ys later assms(9,10) by (auto simp: response_defs split: if_splits)
  have full: "rs_Status full = 200" "rs_Body full = JsonBody (JArray (map task_json ys))"
    "map_of (rs_Header full) ''X-Total-Count'' = Some (Itoa k)"
    using listTasks_listed [of h u ?r0 m' ys k] ys later assms(11)
    by (auto simp: response_defs ifNoneMatchHits_def)
  have "\<forall>c \<in> set (hex_bytes b). byte c < 128 \<and> c \<noteq> CHR '',''" for b
    using hex_bytes_hex is_hex_ascii by blast
  then have "?tag ys = ?tag xs"
    using ifNoneMatchHits_quoted [of _ ?r1] rs'(1) rs(2) by (simp add: pageETag_def)
  from pageETag_inject [OF this] assms(12) [OF xs ys] have digest: "pageDigestInput ys = pageDigestInput xs" by metis
  have inv: "mem_inv m'" "all_tasks task_ok (map_of m')"
    using transcript_ok [OF assms(1,3) _ assms(2), of es] assms(4,8) by (simp_all add: fresh_history_def)
  have st: "map_of m (t_ID t) = Some t" if "t \<in> set xs" for t by (rule listed_stored [OF assms(1,3) xs that])
  have st': "map_of m' (t_ID t) = Some t" if "t \<in> set ys" for t by (rule listed_stored [OF inv(1) assms(3) ys that])
  have "\<forall>t \<in> set ys \<union> set xs. isValidID (t_ID t)"
    using st st' assms(2) inv(2) by (metis Un_iff all_tasks_def task_ok_fields)
  from pageDigestInput_inject [OF this digest]
  have "list_all2 (=) (map (\<lambda>t. (t_ID t, t_Version t)) ys) (map (\<lambda>t. (t_ID t, t_Version t)) xs)"
    by (simp only: list.rel_eq)
  then have pairs: "list_all2 (\<lambda>y x. t_ID y = t_ID x \<and> t_Version y = t_Version x) ys xs"
    by (simp add: list_all2_map1 list_all2_map2)
  have "y = x" if "y \<in> set ys" "x \<in> set xs" "t_ID y = t_ID x \<and> t_Version y = t_Version x" for y x
    using stored_since [OF assms(1,3,4) st [OF that(2)]] st' [OF that(1)] that(3) assms(8) by (simp add: since_def)
  then have "list_all2 (=) ys xs" by (rule list.rel_mono_strong [OF pairs])
  then have "ys = xs" by (simp only: list.rel_eq)
  with full rs rs' show ?thesis by simp
qed

subsection \<open>A concrete conversation\<close>

lemma demo_repo: "h_repo demo_handler = memoryRepository"
  by (simp add: demo_handler_def)

lemma demo_fresh: "fresh_history demo_history [(demo_id, demo_task)]"
  by (simp add: fresh_history_def demo_history_def demo_bytes_def newID_def demo_id_def go_eval)

lemma demo_get_first:
  "getTask demo_handler live ''ann'' demo_get demo_id [(demo_id, demo_task)] =
     (writeJSON [(''ETag'', taskETag demo_task)] 200 (task_json demo_task), [(demo_id, demo_task)])"
proof -
  have "GetTask memoryRepository live ''ann'' demo_id [(demo_id, demo_task)] = (Inr demo_task, [(demo_id, demo_task)])"
    by (simp add: GetTask_def demo_id_valid mem_FindByID_def demo_task_def)
  then show ?thesis
    by (simp add: getTask_def demo_repo demo_get_def demo_request_def ifNoneMatchHits_def Let_def)
qed

theorem get_not_modified_iff_unchanged_witness:
  "rs_Status (fst (getTask demo_handler live ''ann'' (demo_get\<lparr>rq_IfNoneMatch := taskETag demo_task\<rparr>) demo_id
       (snd (transcript demo_handler demo_history [(demo_id, demo_task)])))) = 304 \<longleftrightarrow>
   map_of (snd (transcript demo_handler demo_history [(demo_id, demo_task)])) demo_id = Some demo_task"
proof -
  let ?m' = "snd (transcript demo_handler demo_history [(demo_id, demo_task)])"
  let ?r = "demo_get\<lparr>rq_IfNoneMatch := taskETag demo_task\<rparr>"
  obtain rs' m2 where run: "getTask demo_handler live ''ann'' ?r demo_id ?m' = (rs', m2)" by fastforce
  have "rs_Status rs' = 304 \<longleftrightarrow> map_of ?m' demo_id = map_of [(demo_id, demo_task)] demo_id"
    by (rule get_not_modified_iff_unchanged [OF demo_store_inv demo_repo demo_fresh demo_get_first _ _ _ run])
      (simp_all add: writeJSON_def)
  then show ?thesis by (simp only: run fst_conv) simp
qed

lemma demo_listed: "listed demo_handler ''ann'' demo_request [(demo_id, demo_task)] = Some ([demo_task], 1)"
proof -
  have "url_index [] k = []" for k by (simp add: url_index_def)
  then show ?thesis
    by (simp add: listed_def demo_repo demo_request_def parsePagination_def url_Get_def ListTasks_def
        validateStatusFilters_def validatePriorityFilters_def maxFilterValues_def mem_FindAll_def mem_CountAll_def
        passes_def demo_task_def paginateTasks_def)
qed

theorem list_not_modified_is_current_witness:
  "rs_Body (fst (listTasks demo_handler live ''ann'' (demo_request\<lparr>rq_IfNoneMatch := ''''\<rparr>) [(demo_id, demo_task)])) =
     rs_Body (fst (listTasks demo_handler live ''ann'' demo_request [(demo_id, demo_task)]))"
proof -
  let ?m = "[(demo_id, demo_task)]" and ?e = "pageETag (h_sha256 demo_handler) [demo_task]"
  let ?r1 = "demo_request\<lparr>rq_IfNoneMatch := ?e\<rparr>" and ?r0 = "demo_request\<lparr>rq_IfNoneMatch := ''''\<rparr>"
  have wf: "all_tasks task_ok (map_of ?m)"
    using demo_id_valid by (simp add: all_tasks_def task_ok_def text_ok_def demo_task_def maxTitleLen_def maxDescriptionLen_def
        all_statuses_def all_priorities_def status_defs priority_defs go_eval)
  have fresh: "fresh_history [] ?m" by (simp add: fresh_history_def)
  have m: "?m = snd (transcript demo_handler [] ?m)" by simp
  obtain rs m1 where a: "listTasks demo_handler live ''ann'' demo_request ?m = (rs, m1)" by fastforce
  obtain rs' m2 where b: "listTasks demo_handler live ''ann'' ?r1 ?m = (rs', m2)" by fastforce
  obtain full m3 where c: "listTasks demo_handler live ''ann'' ?r0 ?m = (full, m3)" by fastforce
  have 1: "rs_Status rs = 200" "map_of (rs_Header rs) ''ETag'' = Some ?e"
    using a listTasks_listed [OF demo_listed] by (auto simp: ifNoneMatchHits_def demo_request_def response_defs)
  have "listed demo_handler ''ann'' ?r1 ?m = Some ([demo_task], 1)"
    using demo_listed by (subst listed_cong [of _ demo_request]) simp_all
  moreover have "ifNoneMatchHits ?r1 ?e"
    using hex_bytes_hex is_hex_ascii by (subst ifNoneMatchHits_quoted) (auto simp: pageETag_def)
  ultimately have 2: "rs_Status rs' = 304"
    using b listTasks_listed [of demo_handler "''ann''" ?r1 ?m] by auto
  have "rs_Status full = 200 \<and> rs_Body full = rs_Body rs \<and>
      map_of (rs_Header rs') ''X-Total-Count'' = map_of (rs_Header full) ''X-Total-Count''"
    by (rule list_not_modified_is_current [OF demo_store_inv wf demo_repo fresh a 1 m b 2 c]) auto
  with a c show ?thesis by (simp only: fst_conv)
qed

end
