(* ===== verification/UserPostgres.thy ===== *)
theory UserPostgres
  imports TaskPostgres UserMemory
begin

text \<open>
  The user repository over PostgreSQL (\<^verbatim>\<open>internal/user/postgres_repository.go\<close>): the rows of \<^verbatim>\<open>users\<close> and
  \<^verbatim>\<open>sessions\<close>, the users some task belongs to (the foreign key that keeps them), and one function per SQL
  statement with the constraints of migrations 0002 to 0004. The order of a list of rows stands for the order in which the server
  finds them, which decides between equal sort keys. Faults are data of the state, as in the task repository.
\<close>

datatype ufault = UNoFault | UFailBefore uerr | UFailAfter uerr

type_synonym user_tables = "user list \<times> session list"

record user_pg =
  up_users :: "user list"
  up_sessions :: "session list"
  up_taskOwners :: "string list"
  up_oracle :: "nat \<Rightarrow> ufault"
  up_count :: nat

definition uwrapDBError :: "uerr \<Rightarrow> uerr" where
  "uwrapDBError err =
     (if IsInfrastructureFailure UDriverErrBadConn UContextDeadlineExceeded err
      then WrapBoth (Sentinel UErrDependencyUnavailable) err else err)"

definition uisUniqueViolation :: "uerr \<Rightarrow> bool" where
  "uisUniqueViolation err = (errors_As_PgError err = Some postgreSQLUniqueViolation)"

definition upg_exec :: "uctx \<Rightarrow> (user_pg \<Rightarrow> uerr + ('a \<times> user_tables)) \<Rightarrow> (user_err, 'a, user_pg) op" where
  "upg_exec ctx stmt s =
     (case uctx_Err ctx of Some err \<Rightarrow> (Inl err, s) | None \<Rightarrow>
      (let f = up_oracle s (up_count s); s1 = s\<lparr>up_count := Suc (up_count s)\<rparr> in
       case f of
         UFailBefore err \<Rightarrow> (Inl err, s1)
       | UNoFault \<Rightarrow>
           (case stmt s of Inl err \<Rightarrow> (Inl err, s1)
            | Inr (x, us, ss) \<Rightarrow> (Inr x, s1\<lparr>up_users := us, up_sessions := ss\<rparr>))
       | UFailAfter err \<Rightarrow>
           (case stmt s of Inl e \<Rightarrow> (Inl e, s1)
            | Inr (x, us, ss) \<Rightarrow> (Inl err, s1\<lparr>up_users := us, up_sessions := ss\<rparr>))))"

abbreviation up_tables :: "user_pg \<Rightarrow> user_tables" where
  "up_tables s \<equiv> (up_users s, up_sessions s)"

definition ubad_uuid :: uerr where
  "ubad_uuid = PgError ''22P02'' ''invalid input syntax for type uuid''"

definition ubad_text :: uerr where
  "ubad_text = PgError ''22021'' ''invalid byte sequence for encoding''"

definition with_uuid :: "pg_lib \<Rightarrow> string \<Rightarrow> (string \<Rightarrow> uerr + 'a) \<Rightarrow> uerr + 'a" where
  "with_uuid pg i f = (case uuid_in pg i of None \<Rightarrow> Inl ubad_uuid | Some i' \<Rightarrow> f i')"

definition with_text :: "pg_lib \<Rightarrow> string list \<Rightarrow> (uerr + 'a) \<Rightarrow> uerr + 'a" where
  "with_text pg xs r = (if list_all (text_in pg) xs then r else Inl ubad_text)"

subsection \<open>The statements\<close>

definition usql_insert_user :: "pg_lib \<Rightarrow> user \<Rightarrow> user_pg \<Rightarrow> uerr + (unit \<times> user_tables)" where
  "usql_insert_user pg u s = with_uuid pg (u_ID u) (\<lambda>i. with_text pg [u_Email u, u_PasswordHash u] (
     if RuneCountInString (u_Email u) > 320 then Inl (PgError ''22001'' ''value too long for type character varying'')
     else if i \<in> u_ID ` set (up_users s) \<or> u_Email u \<in> u_Email ` set (up_users s)
     then Inl (PgError postgreSQLUniqueViolation ''duplicate key value violates unique constraint'')
     else Inr ((), up_users s @ [u\<lparr>u_ID := i, u_CreatedAt := pg_time (u_CreatedAt u), u_UpdatedAt := pg_time (u_UpdatedAt u)\<rparr>],
               up_sessions s)))"

definition first_row :: "'a list \<Rightarrow> 't \<Rightarrow> uerr + ('a \<times> 't)" where
  "first_row rs tables = (case rs of [] \<Rightarrow> Inl (Sentinel USqlErrNoRows) | x # _ \<Rightarrow> Inr (x, tables))"

definition usql_user_by_email :: "pg_lib \<Rightarrow> string \<Rightarrow> user_pg \<Rightarrow> uerr + (user \<times> user_tables)" where
  "usql_user_by_email pg email s =
     with_text pg [email] (first_row (filter (\<lambda>u. u_Email u = email) (up_users s)) (up_tables s))"

definition usql_user_by_id :: "pg_lib \<Rightarrow> string \<Rightarrow> user_pg \<Rightarrow> uerr + (user \<times> user_tables)" where
  "usql_user_by_id pg i s = with_uuid pg i (\<lambda>i'. first_row (filter (\<lambda>u. u_ID u = i') (up_users s)) (up_tables s))"

definition usql_update_password :: "pg_lib \<Rightarrow> time \<Rightarrow> string \<Rightarrow> string \<Rightarrow> user_pg \<Rightarrow> uerr + (nat \<times> user_tables)" where
  "usql_update_password pg now i h s = with_uuid pg i (\<lambda>i'. with_text pg [h] (
     Inr (length (filter (\<lambda>u. u_ID u = i') (up_users s)),
          map (\<lambda>u. if u_ID u = i' then u\<lparr>u_PasswordHash := h, u_UpdatedAt := pg_time now\<rparr> else u) (up_users s), up_sessions s)))"

text \<open>Deleting a user cascades to the sessions and is refused while a task refers to it.\<close>

definition usql_delete_user :: "pg_lib \<Rightarrow> string \<Rightarrow> user_pg \<Rightarrow> uerr + (nat \<times> user_tables)" where
  "usql_delete_user pg i s = with_uuid pg i (\<lambda>i'.
     if i' \<in> u_ID ` set (up_users s) \<and> i' \<in> set (up_taskOwners s)
     then Inl (PgError ''23503'' ''violates foreign key constraint'')
     else Inr (length (filter (\<lambda>u. u_ID u = i') (up_users s)),
          filter (\<lambda>u. u_ID u \<noteq> i') (up_users s),
          if i' \<in> u_ID ` set (up_users s) then filter (\<lambda>x. sn_UserID x \<noteq> i') (up_sessions s) else up_sessions s))"

definition usql_insert_session :: "pg_lib \<Rightarrow> session \<Rightarrow> user_tables \<Rightarrow> uerr + user_tables" where
  "usql_insert_session pg x tables = (case tables of (us, ss) \<Rightarrow>
     with_uuid pg (sn_UserID x) (\<lambda>u. with_text pg [sn_TokenHash x] (
     if sn_TokenHash x \<in> sn_TokenHash ` set ss
     then Inl (PgError postgreSQLUniqueViolation ''duplicate key value violates unique constraint'')
     else if u \<notin> u_ID ` set us then Inl (PgError ''23503'' ''violates foreign key constraint'')
     else Inr (us, ss @ [x\<lparr>sn_UserID := u, sn_ExpiresAt := pg_time (sn_ExpiresAt x), sn_CreatedAt := pg_time (sn_CreatedAt x)\<rparr>]))))"

text \<open>The user's sessions, newest first; those past the limit are deleted.\<close>

definition newest_first :: "string \<Rightarrow> session list \<Rightarrow> session list" where
  "newest_first u ss = sort_key (\<lambda>x. - sn_CreatedAt x) (filter (\<lambda>x. sn_UserID x = u) ss)"

definition usql_evict :: "pg_lib \<Rightarrow> string \<Rightarrow> nat \<Rightarrow> user_tables \<Rightarrow> uerr + user_tables" where
  "usql_evict pg userID maxSessions tables = (case tables of (us, ss) \<Rightarrow>
     with_uuid pg userID (\<lambda>u.
       let keep = map sn_TokenHash (take maxSessions (newest_first u ss))
       in Inr (us, filter (\<lambda>x. \<not> (sn_UserID x = u \<and> sn_TokenHash x \<notin> set keep)) ss)))"

definition usql_delete_sessions :: "(session \<Rightarrow> bool) \<Rightarrow> user_pg \<Rightarrow> user_tables" where
  "usql_delete_sessions hit s = (up_users s, filter (\<lambda>x. \<not> hit x) (up_sessions s))"

subsection \<open>Methods\<close>

definition up_CreateUser :: "pg_lib \<Rightarrow> uctx \<Rightarrow> user \<Rightarrow> (user_err, unit, user_pg) op" where
  "up_CreateUser pg ctx u s =
     (case upg_exec ctx (usql_insert_user pg u) s of
        (Inl err, s') \<Rightarrow>
          (if uisUniqueViolation err then (Inl (Sentinel UErrAlreadyExists), s')
           else (Inl (WrapPre ''postgres: create user'' (uwrapDBError err)), s'))
      | (Inr _, s') \<Rightarrow> (Inr (), s'))"

definition not_found_or :: "string \<Rightarrow> uerr \<Rightarrow> uerr" where
  "not_found_or what err =
     (if errors_Is err USqlErrNoRows then Sentinel UErrNotFound else WrapPre what (uwrapDBError err))"

definition up_FindUserByEmail :: "pg_lib \<Rightarrow> uctx \<Rightarrow> string \<Rightarrow> (user_err, user, user_pg) op" where
  "up_FindUserByEmail pg ctx email s =
     (case upg_exec ctx (usql_user_by_email pg email) s of
        (Inl err, s') \<Rightarrow> (Inl (not_found_or ''postgres: find user by email'' err), s')
      | (Inr u, s') \<Rightarrow> (Inr u, s'))"

definition up_FindUserByID :: "pg_lib \<Rightarrow> uctx \<Rightarrow> string \<Rightarrow> (user_err, user, user_pg) op" where
  "up_FindUserByID pg ctx i s =
     (case upg_exec ctx (usql_user_by_id pg i) s of
        (Inl err, s') \<Rightarrow> (Inl (not_found_or ''postgres: find user by id'' err), s')
      | (Inr u, s') \<Rightarrow> (Inr u, s'))"

text \<open>A write reports the error of the statement, or \<^verbatim>\<open>ErrNotFound\<close> when it affected no row.\<close>

definition affected_or_not_found :: "string \<Rightarrow> nat ures \<times> user_pg \<Rightarrow> unit ures \<times> user_pg" where
  "affected_or_not_found what out =
     (case out of
        (Inl err, s') \<Rightarrow> (Inl (WrapPre what (uwrapDBError err)), s')
      | (Inr n, s') \<Rightarrow> if n = 0 then (Inl (Sentinel UErrNotFound), s') else (Inr (), s'))"

definition up_UpdateUserPassword :: "pg_lib \<Rightarrow> uctx \<Rightarrow> time \<Rightarrow> string \<Rightarrow> string \<Rightarrow> (user_err, unit, user_pg) op" where
  "up_UpdateUserPassword pg ctx now i h s =
     affected_or_not_found ''postgres: update user password'' (upg_exec ctx (usql_update_password pg now i h) s)"

definition up_DeleteUser :: "pg_lib \<Rightarrow> uctx \<Rightarrow> string \<Rightarrow> (user_err, unit, user_pg) op" where
  "up_DeleteUser pg ctx i s =
     affected_or_not_found ''postgres: delete user'' (upg_exec ctx (usql_delete_user pg i) s)"

text \<open>
  \<^verbatim>\<open>CreateSession\<close> is one transaction: the rows its statements write are handed on and become the tables
  only with the commit; every early return rolls back. The lock orders transactions of one user; here it is a
  statement that can fail, and its effect on transactions running side by side is the subject of a section below.
\<close>

definition up_CreateSession :: "pg_lib \<Rightarrow> uctx \<Rightarrow> session \<Rightarrow> nat \<Rightarrow> (user_err, unit, user_pg) op" where
  "up_CreateSession pg ctx x maxSessions s =
     (case upg_exec ctx (\<lambda>s. Inr ((), up_tables s)) s of
        (Inl err, s1) \<Rightarrow> (Inl (WrapPre ''postgres: create session: begin transaction'' (uwrapDBError err)), s1)
      | (Inr _, s1) \<Rightarrow>
     (case upg_exec ctx (\<lambda>s. with_text pg [sn_UserID x] (Inr ((), up_tables s))) s1 of
        (Inl err, s2) \<Rightarrow> (Inl (WrapPre ''postgres: create session: acquire lock'' (uwrapDBError err)), s2)
      | (Inr _, s2) \<Rightarrow>
     (case upg_exec ctx (\<lambda>s. case usql_insert_session pg x (up_tables s) of Inl err \<Rightarrow> Inl err | Inr t \<Rightarrow> Inr (t, up_tables s)) s2 of
        (Inl err, s3) \<Rightarrow> (Inl (WrapPre ''postgres: create session'' (uwrapDBError err)), s3)
      | (Inr inserted, s3) \<Rightarrow>
     (case upg_exec ctx (\<lambda>s. case usql_evict pg (sn_UserID x) maxSessions inserted of Inl err \<Rightarrow> Inl err | Inr t \<Rightarrow> Inr (t, up_tables s)) s3 of
        (Inl err, s4) \<Rightarrow> (Inl (WrapPre ''postgres: create session: evict oldest'' (uwrapDBError err)), s4)
      | (Inr evicted, s4) \<Rightarrow>
     (case upg_exec ctx (\<lambda>_. Inr ((), evicted)) s4 of
        (Inl err, s5) \<Rightarrow> (Inl (WrapPre ''postgres: create session: commit transaction'' (uwrapDBError err)), s5)
      | (Inr _, s5) \<Rightarrow> (Inr (), s5))))))"

definition up_exec_sessions :: "string \<Rightarrow> uctx \<Rightarrow> (user_pg \<Rightarrow> uerr + (unit \<times> user_tables)) \<Rightarrow> (user_err, unit, user_pg) op" where
  "up_exec_sessions what ctx stmt s =
     (case upg_exec ctx stmt s of
        (Inl err, s') \<Rightarrow> (Inl (WrapPre what (uwrapDBError err)), s')
      | (Inr _, s') \<Rightarrow> (Inr (), s'))"

definition up_DeleteSessionsForUser :: "pg_lib \<Rightarrow> uctx \<Rightarrow> string \<Rightarrow> (user_err, unit, user_pg) op" where
  "up_DeleteSessionsForUser pg ctx userID = up_exec_sessions ''postgres: delete sessions for user'' ctx
     (\<lambda>s. with_uuid pg userID (\<lambda>u. Inr ((), usql_delete_sessions (\<lambda>x. sn_UserID x = u) s)))"

definition up_DeleteSessionsForUserExcept :: "pg_lib \<Rightarrow> uctx \<Rightarrow> string \<Rightarrow> string \<Rightarrow> (user_err, unit, user_pg) op" where
  "up_DeleteSessionsForUserExcept pg ctx userID keepTokenHash = up_exec_sessions ''postgres: delete sessions for user except'' ctx
     (\<lambda>s. with_uuid pg userID (\<lambda>u. with_text pg [keepTokenHash]
        (Inr ((), usql_delete_sessions (\<lambda>x. sn_UserID x = u \<and> sn_TokenHash x \<noteq> keepTokenHash) s))))"

definition up_FindSessionByTokenHash :: "pg_lib \<Rightarrow> uctx \<Rightarrow> string \<Rightarrow> (user_err, session, user_pg) op" where
  "up_FindSessionByTokenHash pg ctx tokenHash s =
     (case upg_exec ctx (\<lambda>s. with_text pg [tokenHash] (first_row (filter (\<lambda>x. sn_TokenHash x = tokenHash) (up_sessions s)) (up_tables s))) s of
        (Inl err, s') \<Rightarrow> (Inl (not_found_or ''postgres: find session'' err), s')
      | (Inr x, s') \<Rightarrow> (Inr x, s'))"

definition up_DeleteSession :: "pg_lib \<Rightarrow> uctx \<Rightarrow> string \<Rightarrow> (user_err, unit, user_pg) op" where
  "up_DeleteSession pg ctx tokenHash = up_exec_sessions ''postgres: delete session'' ctx
     (\<lambda>s. with_text pg [tokenHash] (Inr ((), usql_delete_sessions (\<lambda>x. sn_TokenHash x = tokenHash) s)))"

definition up_FindSessionsForUser :: "pg_lib \<Rightarrow> uctx \<Rightarrow> string \<Rightarrow> (user_err, session list, user_pg) op" where
  "up_FindSessionsForUser pg ctx userID s =
     (case upg_exec ctx (\<lambda>s. with_uuid pg userID (\<lambda>u. Inr (newest_first u (up_sessions s), up_tables s))) s of
        (Inl err, s') \<Rightarrow> (Inl (WrapPre ''postgres: find sessions for user'' (uwrapDBError err)), s')
      | (Inr xs, s') \<Rightarrow> (Inr xs, s'))"

text \<open>The bound of the comparison arrives as a timestamp of the column's precision.\<close>

definition up_DeleteExpiredSessions :: "pg_lib \<Rightarrow> uctx \<Rightarrow> time \<Rightarrow> (user_err, unit, user_pg) op" where
  "up_DeleteExpiredSessions pg ctx now = up_exec_sessions ''postgres: delete expired sessions'' ctx
     (\<lambda>s. Inr ((), usql_delete_sessions (\<lambda>x. sn_ExpiresAt x < pg_time now) s))"

definition userPostgres :: "pg_lib \<Rightarrow> user_pg user_repo" where
  "userPostgres pg = \<lparr>
     ur_CreateUser = up_CreateUser pg, ur_FindUserByEmail = up_FindUserByEmail pg, ur_FindUserByID = up_FindUserByID pg,
     ur_UpdateUserPassword = up_UpdateUserPassword pg, ur_DeleteUser = up_DeleteUser pg,
     ur_CreateSession = up_CreateSession pg, ur_FindSessionByTokenHash = up_FindSessionByTokenHash pg,
     ur_DeleteSession = up_DeleteSession pg, ur_FindSessionsForUser = up_FindSessionsForUser pg,
     ur_DeleteSessionsForUser = up_DeleteSessionsForUser pg,
     ur_DeleteSessionsForUserExcept = up_DeleteSessionsForUserExcept pg,
     ur_DeleteExpiredSessions = up_DeleteExpiredSessions pg \<rparr>"

end
