(* ===== verification/UserHandler.thy ===== *)
theory UserHandler
  imports TaskRoutes UserPostgres
begin

text \<open>
  The HTTP face of accounts and sessions (\<^verbatim>\<open>internal/user/handler.go\<close>): the ten handlers, the
  session cookie, the audit trail, the mapping of errors to responses and the routes. The user and the
  token of an authenticated request are what \<^verbatim>\<open>RequireAuth\<close> left in its context. The third-party
  CSRF protector appears as what it does for this request: the cookie its \<^verbatim>\<open>Rotate\<close> sets or the
  error it returns, and the token \<^verbatim>\<open>csrf.Token\<close> finds, if any. The clock readings of a handler and the
  contexts of its repository calls are numbered in the order of the code.
\<close>

subsection \<open>Requests and responses\<close>

record registerRequest =
  rg_Email :: string
  rg_Password :: string

record loginRequest =
  lg_Email :: string
  lg_Password :: string

record changePasswordRequest =
  cp_CurrentPassword :: string
  cp_NewPassword :: string

record deleteAccountRequest =
  da_CurrentPassword :: string

record cookie =
  ck_Name :: string
  ck_Value :: string
  ck_Path :: string
  ck_MaxAge :: int
  ck_HttpOnly :: bool
  ck_Secure :: bool
  ck_SameSite :: string

text \<open>A response of this package: also the cookies set and the audit events (type and account) logged.\<close>

record user_response = http_response +
  rs_Cookies :: "cookie list"
  rs_Audit :: "(string \<times> string) list"

definition uwriteJSON :: "(string, string) gomap \<Rightarrow> nat \<Rightarrow> json \<Rightarrow> user_response" where
  "uwriteJSON hdr status data =
     \<lparr>rs_Status = status, rs_Header = AList.update ''Content-Type'' ''application/json'' hdr,
      rs_Body = JsonBody data, rs_Log = [], rs_Cookies = [], rs_Audit = []\<rparr>"

definition uwriteError :: "(string, string) gomap \<Rightarrow> nat \<Rightarrow> string \<Rightarrow> user_response" where
  "uwriteError hdr status message = uwriteJSON hdr status (JObject [(''error'', JString message)])"

text \<open>\<^verbatim>\<open>w.WriteHeader(http.StatusNoContent)\<close>\<close>

definition noContent :: user_response where
  "noContent = \<lparr>rs_Status = 204, rs_Header = [], rs_Body = NoBody, rs_Log = [], rs_Cookies = [], rs_Audit = []\<rparr>"

abbreviation with_cookie :: "cookie \<Rightarrow> user_response \<Rightarrow> user_response" where
  "with_cookie c rs \<equiv> rs\<lparr>rs_Cookies := c # rs_Cookies rs\<rparr>"

abbreviation ulogged :: "log_level \<Rightarrow> string \<Rightarrow> user_response \<Rightarrow> user_response" where
  "ulogged lvl msg rs \<equiv> rs\<lparr>rs_Log := (lvl, msg) # rs_Log rs\<rparr>"

definition auditEventLoginSuccess :: string where "auditEventLoginSuccess = ''login_success''"
definition auditEventLoginFailure :: string where "auditEventLoginFailure = ''login_failure''"
definition auditEventLogoutAll :: string where "auditEventLogoutAll = ''logout_all''"
definition auditEventPasswordChanged :: string where "auditEventPasswordChanged = ''password_changed''"
definition auditEventAccountDeleted :: string where "auditEventAccountDeleted = ''account_deleted''"

lemmas audit_defs = auditEventLoginSuccess_def auditEventLoginFailure_def auditEventLogoutAll_def
  auditEventPasswordChanged_def auditEventAccountDeleted_def

definition logAuditEvent :: "string \<Rightarrow> string \<Rightarrow> user_response \<Rightarrow> user_response" where
  "logAuditEvent eventType account rs =
     rs\<lparr>rs_Log := (LogInfo, ''audit event'') # rs_Log rs, rs_Audit := (eventType, account) # rs_Audit rs\<rparr>"

text \<open>\<^verbatim>\<open>User\<close> as JSON: the password hash has the tag \<^verbatim>\<open>json:"-"\<close>.\<close>

definition user_fields :: "user \<Rightarrow> (string \<times> json) list" where
  "user_fields u = [(''id'', JString (u_ID u)), (''email'', JString (u_Email u)),
     (''created_at'', JTime (u_CreatedAt u)), (''updated_at'', JTime (u_UpdatedAt u))]"

definition loginResponse :: "string \<Rightarrow> time \<Rightarrow> user \<Rightarrow> json" where
  "loginResponse token expiresAt u =
     JObject [(''token'', JString token), (''expires_at'', JTime expiresAt), (''user'', JObject (user_fields u))]"

definition csrfTokenResponse :: "string \<Rightarrow> json" where
  "csrfTokenResponse token = JObject [(''csrf_token'', JString token)]"

definition meResponse :: "user \<Rightarrow> bool \<Rightarrow> json" where
  "meResponse u attachmentsEnabled = JObject (user_fields u @ [(''attachments_enabled'', JBool attachmentsEnabled)])"

definition sessionResponse :: "session_info \<Rightarrow> json" where
  "sessionResponse s = JObject [(''id'', JString (si_ID s)), (''created_at'', JTime (si_CreatedAt s)),
     (''expires_at'', JTime (si_ExpiresAt s)), (''is_current'', JBool (si_IsCurrent s))]"

subsection \<open>The session cookie\<close>

definition sessionCookieName :: string where
  "sessionCookieName = ''session_token''"

definition sessionCookieMaxAgeSeconds :: "time \<Rightarrow> time \<Rightarrow> int" where
  "sessionCookieMaxAgeSeconds now expiresAt = whole_seconds (expiresAt - now)"

definition setSessionCookie :: "time \<Rightarrow> string \<Rightarrow> time \<Rightarrow> bool \<Rightarrow> cookie" where
  "setSessionCookie now token expiresAt insecure =
     \<lparr>ck_Name = sessionCookieName, ck_Value = token, ck_Path = ''/'',
      ck_MaxAge = sessionCookieMaxAgeSeconds now expiresAt, ck_HttpOnly = True, ck_Secure = (\<not> insecure),
      ck_SameSite = ''Lax''\<rparr>"

definition clearSessionCookie :: "bool \<Rightarrow> cookie" where
  "clearSessionCookie insecure =
     \<lparr>ck_Name = sessionCookieName, ck_Value = '''', ck_Path = ''/'', ck_MaxAge = -1, ck_HttpOnly = True,
      ck_Secure = (\<not> insecure), ck_SameSite = ''Lax''\<rparr>"

subsection \<open>Errors\<close>

definition uhandleServiceError :: "(user_err \<Rightarrow> string) \<Rightarrow> uerr \<Rightarrow> user_response" where
  "uhandleServiceError txt err =
     (if errors_Is err UErrNotFound then uwriteError [] 404 ''user not found''
      else if errors_Is err UErrInvalidInput then uwriteError [] 400 (error_text txt err)
      else if errors_Is err UErrAlreadyExists then uwriteError [] 409 ''email already registered''
      else if errors_Is err UErrInvalidCredentials then uwriteError [] 401 ''invalid email or password''
      else if errors_Is err UErrDependencyUnavailable
      then ulogged LogError ''dependency unavailable''
             (uwriteError [] 503 ''service temporarily unavailable, please retry'')
      else if errors_Is err UErrUnavailable
      then ulogged LogWarn ''database circuit open, call rejected''
             (uwriteError
                (case errors_As_RetryAfter err of
                   Some d \<Rightarrow> [(''Retry-After'', Itoa (whole_seconds d))]
                 | None \<Rightarrow> [])
                503 ''service temporarily unavailable, please retry'')
      else ulogged LogError ''unexpected service error''
             (uwriteError [] 500 ''internal server error''))"

subsection \<open>Handlers\<close>

record 's user_handler =
  uh_lib :: user_lib
  uh_cfg :: user_cfg
  uh_repo :: "'s user_repo"
  uh_txt :: "user_err \<Rightarrow> string"
  uh_cookieInsecure :: bool
  uh_attachmentsEnabled :: bool

abbreviation ubadBody :: user_response where
  "ubadBody \<equiv> uwriteError [] 400 ''invalid request body''"

definition register :: "'s user_handler \<Rightarrow> uctxs \<Rightarrow> clock \<Rightarrow> string \<Rightarrow> string + 8 word list \<Rightarrow> registerRequest option
    \<Rightarrow> 's user_svc \<Rightarrow> user_response \<times> 's user_svc" where
  "register h ctx clk salt rnd body s =
     (case body of
        None \<Rightarrow> (ubadBody, s)
      | Some req \<Rightarrow>
          (case Register (uh_lib h) (uh_repo h) ctx clk salt rnd (rg_Email req) (rg_Password req) s of
             (Inl err, s') \<Rightarrow> (uhandleServiceError (uh_txt h) err, s')
           | (Inr u, s') \<Rightarrow> (uwriteJSON [] 201 (JObject (user_fields u)), s')))"

text \<open>
  \<open>rotation\<close>: what \<^verbatim>\<open>csrfProtector.Rotate(w, r)\<close> does, an error or the CSRF cookie it sets. Its failure is
  logged and the login goes on. Readings 0 and 1 of the clock are \<^verbatim>\<open>Authenticate\<close>'s, 2 is \<^verbatim>\<open>CreateSession\<close>'s, 3
  \<^verbatim>\<open>time.Until\<close>'s; context 0 is \<^verbatim>\<open>Authenticate\<close>'s, 1 \<^verbatim>\<open>CreateSession\<close>'s.
\<close>

definition login :: "'s user_handler \<Rightarrow> uctxs \<Rightarrow> clock \<Rightarrow> string + cookie \<Rightarrow> string + 8 word list \<Rightarrow> loginRequest option
    \<Rightarrow> 's user_svc \<Rightarrow> user_response \<times> 's user_svc" where
  "login h ctx clk rotation rnd body s =
     (case body of
        None \<Rightarrow> (ubadBody, s)
      | Some req \<Rightarrow>
     let normalizedEmail = normalizeEmail (ul_lower (uh_lib h)) (lg_Email req) in
     (case Authenticate (uh_lib h) (uh_repo h) ctx clk (lg_Email req) (lg_Password req) s of
        (Inl err, s1) \<Rightarrow>
          (if errors_Is err UErrInvalidCredentials
           then (logAuditEvent auditEventLoginFailure normalizedEmail (uhandleServiceError (uh_txt h) err), s1)
           else (uhandleServiceError (uh_txt h) err, s1))
      | (Inr u, s1) \<Rightarrow>
     let rotated = (\<lambda>rs. case rotation of
           Inl err \<Rightarrow> ulogged LogError ''csrf cookie rotation failed on login'' rs
         | Inr c \<Rightarrow> with_cookie c rs);
         audited = logAuditEvent auditEventLoginSuccess normalizedEmail in
     (case CreateSession (uh_lib h) (uh_cfg h) (uh_repo h) (\<lambda>i. ctx (1 + i)) (\<lambda>i. clk (2 + i)) rnd (u_ID u) s1 of
        (Inl err, s2) \<Rightarrow> (audited (rotated (uhandleServiceError (uh_txt h) err)), s2)
      | (Inr (token, expiresAt), s2) \<Rightarrow>
          (audited (rotated (with_cookie (setSessionCookie (clk 3) token expiresAt (uh_cookieInsecure h))
             (uwriteJSON [] 200 (loginResponse token expiresAt u)))), s2))))"

definition changePassword :: "'s user_handler \<Rightarrow> uctxs \<Rightarrow> clock \<Rightarrow> string \<Rightarrow> string \<Rightarrow> string
    \<Rightarrow> changePasswordRequest option \<Rightarrow> 's user_svc \<Rightarrow> user_response \<times> 's user_svc" where
  "changePassword h ctx clk salt userID token body s =
     (case body of
        None \<Rightarrow> (ubadBody, s)
      | Some req \<Rightarrow>
          (case ChangePassword (uh_lib h) (uh_repo h) ctx clk salt userID (cp_CurrentPassword req)
                  (cp_NewPassword req) token s of
             (Inl err, s') \<Rightarrow> (uhandleServiceError (uh_txt h) err, s')
           | (Inr _, s') \<Rightarrow>
               (logAuditEvent auditEventPasswordChanged userID (uwriteJSON [] 200 (JObject [])), s')))"

definition logout :: "'s user_handler \<Rightarrow> uctxs \<Rightarrow> string \<Rightarrow> 's user_svc \<Rightarrow> user_response \<times> 's user_svc" where
  "logout h ctx token s =
     (case Logout (uh_lib h) (uh_repo h) ctx token s of
        (Inl err, s') \<Rightarrow> (uhandleServiceError (uh_txt h) err, s')
      | (Inr _, s') \<Rightarrow> (with_cookie (clearSessionCookie (uh_cookieInsecure h)) noContent, s'))"

definition logoutAll :: "'s user_handler \<Rightarrow> uctxs \<Rightarrow> string \<Rightarrow> 's user_svc \<Rightarrow> user_response \<times> 's user_svc" where
  "logoutAll h ctx userID s =
     (case LogoutAll (uh_repo h) ctx userID s of
        (Inl err, s') \<Rightarrow> (uhandleServiceError (uh_txt h) err, s')
      | (Inr _, s') \<Rightarrow>
          (logAuditEvent auditEventLogoutAll userID
             (with_cookie (clearSessionCookie (uh_cookieInsecure h)) noContent), s'))"

text \<open>\<open>token\<close> is what \<^verbatim>\<open>csrf.Token(r)\<close> finds in the context.\<close>

definition csrfToken :: "string option \<Rightarrow> user_response" where
  "csrfToken token =
     (case token of
        None \<Rightarrow> ulogged LogError ''csrf token requested but csrf.Protector.Middleware never ran for this request''
                  (uwriteError [] 500 ''internal server error'')
      | Some t \<Rightarrow> uwriteJSON [] 200 (csrfTokenResponse t))"

definition me :: "'s user_handler \<Rightarrow> uctxs \<Rightarrow> string \<Rightarrow> 's user_svc \<Rightarrow> user_response \<times> 's user_svc" where
  "me h ctx userID s =
     (case GetUser (uh_repo h) ctx userID s of
        (Inl err, s') \<Rightarrow> (uhandleServiceError (uh_txt h) err, s')
      | (Inr u, s') \<Rightarrow> (uwriteJSON [] 200 (meResponse u (uh_attachmentsEnabled h)), s'))"

text \<open>
  \<open>cascade\<close> is the \<^verbatim>\<open>AccountCascadeFunc\<close>, on the state \<open>'w\<close> of the other components. Context 0 is
  \<^verbatim>\<open>VerifyPassword\<close>'s, the rest \<^verbatim>\<open>DeleteAccount\<close>'s.
\<close>

definition deleteAccount :: "'s user_handler \<Rightarrow> uctxs \<Rightarrow> (string \<Rightarrow> 'w \<Rightarrow> 'e option \<times> 'w) \<Rightarrow> string
    \<Rightarrow> deleteAccountRequest option \<Rightarrow> 's user_svc \<times> 'w \<Rightarrow> user_response \<times> ('s user_svc \<times> 'w)" where
  "deleteAccount h ctx cascade userID body sw =
     (case sw of (s, w) \<Rightarrow>
      case body of
        None \<Rightarrow> (ubadBody, (s, w))
      | Some req \<Rightarrow>
     (case verifyPassword (uh_lib h) (uh_repo h) (ctx 0) userID (da_CurrentPassword req) s of
        (Inl err, s1) \<Rightarrow> (uhandleServiceError (uh_txt h) err, (s1, w))
      | (Inr _, s1) \<Rightarrow>
     (case cascade userID w of
        (Some err, w1) \<Rightarrow>
          (ulogged LogError ''account deletion cascade failed'' (uwriteError [] 500 ''internal server error''), (s1, w1))
      | (None, w1) \<Rightarrow>
     (case DeleteAccount (uh_repo h) (\<lambda>i. ctx (1 + i)) userID s1 of
        (Inl err, s2) \<Rightarrow> (uhandleServiceError (uh_txt h) err, (s2, w1))
      | (Inr _, s2) \<Rightarrow>
          (logAuditEvent auditEventAccountDeleted userID
             (with_cookie (clearSessionCookie (uh_cookieInsecure h)) noContent), (s2, w1))))))"

definition listSessions :: "'s user_handler \<Rightarrow> uctxs \<Rightarrow> string \<Rightarrow> string \<Rightarrow> 's user_svc
    \<Rightarrow> user_response \<times> 's user_svc" where
  "listSessions h ctx userID token s =
     (case ListSessions (uh_lib h) (uh_repo h) ctx userID token s of
        (Inl err, s') \<Rightarrow> (uhandleServiceError (uh_txt h) err, s')
      | (Inr sessions, s') \<Rightarrow> (uwriteJSON [] 200 (JArray (map sessionResponse sessions)), s'))"

definition revokeSession :: "'s user_handler \<Rightarrow> uctxs \<Rightarrow> string \<Rightarrow> string \<Rightarrow> 's user_svc
    \<Rightarrow> user_response \<times> 's user_svc" where
  "revokeSession h ctx userID sessionID s =
     (case RevokeSession (uh_lib h) (uh_repo h) ctx userID sessionID s of
        (Inl err, s') \<Rightarrow> (uhandleServiceError (uh_txt h) err, s')
      | (Inr _, s') \<Rightarrow> (noContent, s'))"

lemmas uhandler_defs = register_def login_def changePassword_def logout_def logoutAll_def csrfToken_def me_def
  deleteAccount_def listSessions_def revokeSession_def

lemmas uresponse_defs = uwriteJSON_def uwriteError_def noContent_def logAuditEvent_def

subsection \<open>Routes\<close>

datatype auth_route = ARegister | ALogin | ACsrfToken | APassword | ALogout | ALogoutAll | AMe | ADeleteMe | ASessions | ARevoke

datatype auth_wrap = RateLimited | Bare | Authenticated

definition auth_routes :: "(string \<times> segment list \<times> auth_wrap \<times> auth_route) list" where
  "auth_routes =
     [(''POST'', [Lit ''auth'', Lit ''register''], RateLimited, ARegister),
      (''POST'', [Lit ''auth'', Lit ''login''], RateLimited, ALogin),
      (''GET'', [Lit ''auth'', Lit ''csrf-token''], Bare, ACsrfToken),
      (''POST'', [Lit ''auth'', Lit ''password''], Authenticated, APassword),
      (''POST'', [Lit ''auth'', Lit ''logout''], Authenticated, ALogout),
      (''POST'', [Lit ''auth'', Lit ''logout-all''], Authenticated, ALogoutAll),
      (''GET'', [Lit ''auth'', Lit ''me''], Authenticated, AMe),
      (''DELETE'', [Lit ''auth'', Lit ''me''], Authenticated, ADeleteMe),
      (''GET'', [Lit ''auth'', Lit ''sessions''], Authenticated, ASessions),
      (''DELETE'', [Lit ''auth'', Lit ''sessions'', Wild], Authenticated, ARevoke)]"

text \<open>The rest of a request: the decoded bodies, what the CSRF protector and the random sources supply.\<close>

record auth_input =
  ai_Register :: "registerRequest option"
  ai_Login :: "loginRequest option"
  ai_Change :: "changePasswordRequest option"
  ai_Delete :: "deleteAccountRequest option"
  ai_Rotation :: "string + cookie"
  ai_CsrfToken :: "string option"
  ai_Salt :: string
  ai_Rnd :: "string + 8 word list"

definition on_fst :: "('a \<Rightarrow> 'r \<times> 'a) \<Rightarrow> 'a \<times> 'w \<Rightarrow> 'r \<times> ('a \<times> 'w)" where
  "on_fst f sw = (case f (fst sw) of (r, a) \<Rightarrow> (r, (a, snd sw)))"

fun auth_dispatch :: "'s user_handler \<Rightarrow> uctxs \<Rightarrow> clock \<Rightarrow> (string \<Rightarrow> 'w \<Rightarrow> 'e option \<times> 'w) \<Rightarrow> auth_input \<Rightarrow> string \<Rightarrow> string
    \<Rightarrow> auth_route \<Rightarrow> string \<Rightarrow> 's user_svc \<times> 'w \<Rightarrow> user_response \<times> ('s user_svc \<times> 'w)" where
  "auth_dispatch h ctx clk cascade a u token ARegister i = on_fst (register h ctx clk (ai_Salt a) (ai_Rnd a) (ai_Register a))"
| "auth_dispatch h ctx clk cascade a u token ALogin i = on_fst (login h ctx clk (ai_Rotation a) (ai_Rnd a) (ai_Login a))"
| "auth_dispatch h ctx clk cascade a u token ACsrfToken i = on_fst (\<lambda>s. (csrfToken (ai_CsrfToken a), s))"
| "auth_dispatch h ctx clk cascade a u token APassword i = on_fst (changePassword h ctx clk (ai_Salt a) u token (ai_Change a))"
| "auth_dispatch h ctx clk cascade a u token ALogout i = on_fst (logout h ctx token)"
| "auth_dispatch h ctx clk cascade a u token ALogoutAll i = on_fst (logoutAll h ctx u)"
| "auth_dispatch h ctx clk cascade a u token AMe i = on_fst (me h ctx u)"
| "auth_dispatch h ctx clk cascade a u token ADeleteMe i = deleteAccount h ctx cascade u (ai_Delete a)"
| "auth_dispatch h ctx clk cascade a u token ASessions i = on_fst (listSessions h ctx u token)"
| "auth_dispatch h ctx clk cascade a u token ARevoke i = on_fst (revokeSession h ctx u i)"

definition plain :: "http_response \<Rightarrow> user_response" where
  "plain rs = http_response.extend rs (user_response.fields [] [])"

text \<open>
  One request. \<open>throttled\<close> is the answer of the rate limiter that wraps the route, when it refuses
  the request: the address-keyed one in front of registration and login, the per-user one behind \<^verbatim>\<open>requireAuth\<close>.
\<close>

definition serve_auth :: "'s user_handler \<Rightarrow> uctxs \<Rightarrow> clock \<Rightarrow> uctxs \<Rightarrow> clock \<Rightarrow> (string \<Rightarrow> 'w \<Rightarrow> 'e option \<times> 'w)
    \<Rightarrow> http_response option \<Rightarrow> auth_request \<Rightarrow> string \<Rightarrow> string list \<Rightarrow> auth_input
    \<Rightarrow> 's user_svc \<times> 'w \<Rightarrow> user_response \<times> ('s user_svc \<times> 'w)" where
  "serve_auth h actx aclk ctx clk cascade throttled cred method path a sw =
     (case mux_match auth_routes method path of
        MuxNotFound \<Rightarrow> (plain (muxError 404 ''404 page not found''), sw)
      | MuxMethodNotAllowed \<Rightarrow> (plain (muxError 405 ''Method Not Allowed''), sw)
      | MuxFound (Bare, route) i \<Rightarrow> auth_dispatch h ctx clk cascade a '''' '''' route i sw
      | MuxFound (RateLimited, route) i \<Rightarrow>
          (case throttled of
             Some rs \<Rightarrow> (plain rs, sw)
           | None \<Rightarrow> auth_dispatch h ctx clk cascade a '''' '''' route i sw)
      | MuxFound (Authenticated, route) i \<Rightarrow>
          (case RequireAuth (uh_lib h) (uh_repo h) actx aclk cred (fst sw) of
             (AuthRejected status msg, s) \<Rightarrow> (plain (writeAuthError status msg), (s, snd sw))
           | (AuthPassed u token, s) \<Rightarrow>
               (case throttled of
                  Some rs \<Rightarrow> (plain rs, (s, snd sw))
                | None \<Rightarrow> auth_dispatch h ctx clk cascade a u token route i (s, snd sw))))"

subsection \<open>What a login hands out\<close>

lemma CreateSession_live:
  assumes "um_inv (us_repo s)" and "0 < uc_maxSessionsPerUser cfg"
    and "\<forall>k x. map_of (um_sessions (us_repo s)) k = Some x \<longrightarrow> sn_CreatedAt x < clk 0"
    and "map_of (um_sessions (us_repo s)) (hashToken lib (hex_bytes rnd)) = None"
  obtains s' where "CreateSession lib cfg userMemory ulive clk (Inr rnd) u s = (Inr (hex_bytes rnd, clk 0 + uc_sessionTTL cfg), s')"
    and "us_cache s' = us_cache s"
    and "map_of (um_sessions (us_repo s')) (hashToken lib (hex_bytes rnd)) =
      Some \<lparr>sn_TokenHash = hashToken lib (hex_bytes rnd), sn_UserID = u, sn_ExpiresAt = clk 0 + uc_sessionTTL cfg, sn_CreatedAt = clk 0\<rparr>"
proof -
  let ?sess = "\<lparr>sn_TokenHash = hashToken lib (hex_bytes rnd), sn_UserID = u, sn_ExpiresAt = clk 0 + uc_sessionTTL cfg, sn_CreatedAt = clk 0\<rparr>"
  obtain r q where c: "um_CreateSession ULive ?sess (uc_maxSessionsPerUser cfg) (us_repo s) = (r, q)" by fastforce
  from um_CreateSession_spec [OF assms(1,2) c] assms(3,4)
  have "r = Inr ()" "map_of (um_sessions q) (hashToken lib (hex_bytes rnd)) = Some ?sess" by auto
  with c show ?thesis
    by (intro that [of "s\<lparr>us_repo := q\<rparr>"]) (simp_all add: CreateSession_def Let_def on_repo_apply)
qed

text \<open>A request that carries a stored, uncached and unexpired token in its cookie passes as the session's user.\<close>

lemma cookie_passes:
  assumes "token \<noteq> ''''" and "map_of (um_sessions (us_repo s)) (hashToken lib token) = Some sess"
    and "map_of (us_cache s) (hashToken lib token) = None" and "clk 1 \<le> sn_ExpiresAt sess"
  shows "fst (RequireAuth lib userMemory ulive clk \<lparr>ar_Authorization = '''', ar_Cookie = Some token\<rparr> s) =
    AuthPassed (sn_UserID sess) token"
  using assms by (simp add: RequireAuth_def credentialSource_def bearerToken_def ValidateToken_live Let_def tc_get_def)

lemma whole_seconds_floor: "0 \<le> d \<Longrightarrow> whole_seconds d * Second \<le> d \<and> d < (whole_seconds d + 1) * Second"
proof -
  assume "0 \<le> d"
  moreover have "d div Second * Second \<le> d" "d < (d div Second + 1) * Second"
    by (simp_all add: duration_defs)
  ultimately show ?thesis by (simp add: whole_seconds_def)
qed

lemma Authenticate_outcomes:
  assumes "um_inv (us_repo s)"
  obtains (ok) u s1 where "map_of (um_usersByEmail (us_repo s)) (normalizeEmail (ul_lower lib) email) = Some (u_ID u)"
      "map_of (um_usersByID (us_repo s)) (u_ID u) = Some u"
      "ul_compare lib (u_PasswordHash u) password" "Authenticate lib userMemory ulive clk email password s = (Inr u, s1)"
      "us_repo s1 = us_repo s" "us_cache s1 = us_cache s"
    | (failed) s1 where "Authenticate lib userMemory ulive clk email password s = (Inl (Sentinel UErrInvalidCredentials), s1)"
      "us_repo s1 = us_repo s" "us_cache s1 = us_cache s"
      "\<forall>u. map_of (um_usersByEmail (us_repo s)) (normalizeEmail (ul_lower lib) email) = Some (u_ID u) \<and>
        map_of (um_usersByID (us_repo s)) (u_ID u) = Some u \<longrightarrow> \<not> ul_compare lib (u_PasswordHash u) password"
proof (cases "map_of (um_usersByEmail (us_repo s)) (normalizeEmail (ul_lower lib) email)")
  case None
  then show ?thesis by (intro failed [of "snd (Authenticate lib userMemory ulive clk email password s)"]) (simp_all add: Authenticate_live Let_def)
next
  case (Some i)
  with assms obtain u where u: "map_of (um_usersByID (us_repo s)) i = Some u" "u_ID u = i"
    unfolding um_inv_def by blast
  show ?thesis
  proof (cases "ul_compare lib (u_PasswordHash u) password")
    case True
    with Some u show ?thesis by (intro ok [of u "snd (Authenticate lib userMemory ulive clk email password s)"]) (simp_all add: Authenticate_live Let_def)
  next
    case False
    have "\<forall>v. map_of (um_usersByEmail (us_repo s)) (normalizeEmail (ul_lower lib) email) = Some (u_ID v) \<and>
        map_of (um_usersByID (us_repo s)) (u_ID v) = Some v \<longrightarrow> \<not> ul_compare lib (u_PasswordHash v) password"
      using Some u(1) False by (metis option.sel)
    with Some u False show ?thesis
      by (intro failed [of "snd (Authenticate lib userMemory ulive clk email password s)"]) (simp_all add: Authenticate_live Let_def)
  qed
qed

text \<open>
  What a login answers. With the right password: 200, exactly one audit line, and the token twice, in the body and
  in a cookie no script can read that is sent over TLS (unless configured for plain local development), not with
  cross-site posts, and no longer than the session lives, to the second; a request carrying just that cookie passes
  the authentication as that account until the session expires. Otherwise: 401, only then is there no account
  with that address and password, one audit line names the address, there is no cookie, and neither accounts nor sessions change.
\<close>

theorem login_sets_working_cookie:
  assumes "um_inv (us_repo s)" and "0 < uc_maxSessionsPerUser (uh_cfg h)" and "uh_repo h = userMemory" and "rnd \<noteq> []"
    and "\<forall>k x. map_of (um_sessions (us_repo s)) k = Some x \<longrightarrow> sn_CreatedAt x < clk 2" and "clk 3 \<le> clk 2 + uc_sessionTTL (uh_cfg h)"
    and "map_of (um_sessions (us_repo s)) (hashToken (uh_lib h) (hex_bytes rnd)) = None"
    and "map_of (us_cache s) (hashToken (uh_lib h) (hex_bytes rnd)) = None"
    and run: "login h ulive clk rotation (Inr rnd) (Some req) s = (rs, s')"
  shows "(rs_Status rs = 200 \<and> rs_Audit rs = [(''login_success'', normalizeEmail (ul_lower (uh_lib h)) (lg_Email req))] \<and>
      (\<exists>u token expiresAt. map_of (um_usersByEmail (us_repo s)) (normalizeEmail (ul_lower (uh_lib h)) (lg_Email req)) = Some (u_ID u) \<and>
         map_of (um_usersByID (us_repo s)) (u_ID u) = Some u \<and> ul_compare (uh_lib h) (u_PasswordHash u) (lg_Password req) \<and>
         rs_Body rs = JsonBody (loginResponse token expiresAt u) \<and>
         (\<exists>c \<in> set (rs_Cookies rs). ck_Name c = ''session_token'' \<and> ck_Value c = token \<and> ck_Path c = ''/'' \<and>
            ck_HttpOnly c \<and> ck_Secure c = (\<not> uh_cookieInsecure h) \<and> ck_SameSite c = ''Lax'' \<and>
            ck_MaxAge c * Second \<le> expiresAt - clk 3 \<and> expiresAt - clk 3 < (ck_MaxAge c + 1) * Second) \<and>
         (\<forall>clk'. clk' 1 \<le> expiresAt \<longrightarrow>
            fst (RequireAuth (uh_lib h) userMemory ulive clk' \<lparr>ar_Authorization = '''', ar_Cookie = Some token\<rparr> s') =
              AuthPassed (u_ID u) token))) \<or>
    (rs_Status rs = 401 \<and> rs_Audit rs = [(''login_failure'', normalizeEmail (ul_lower (uh_lib h)) (lg_Email req))] \<and>
      rs_Cookies rs = [] \<and> us_repo s' = us_repo s \<and>
      (\<forall>u. map_of (um_usersByEmail (us_repo s)) (normalizeEmail (ul_lower (uh_lib h)) (lg_Email req)) = Some (u_ID u) \<and>
         map_of (um_usersByID (us_repo s)) (u_ID u) = Some u \<longrightarrow> \<not> ul_compare (uh_lib h) (u_PasswordHash u) (lg_Password req)))"
proof -
  consider (ok) u s1 where "map_of (um_usersByEmail (us_repo s)) (normalizeEmail (ul_lower (uh_lib h)) (lg_Email req)) = Some (u_ID u)"
      "map_of (um_usersByID (us_repo s)) (u_ID u) = Some u" "ul_compare (uh_lib h) (u_PasswordHash u) (lg_Password req)"
      "Authenticate (uh_lib h) userMemory ulive clk (lg_Email req) (lg_Password req) s = (Inr u, s1)"
      "us_repo s1 = us_repo s" "us_cache s1 = us_cache s"
    | (failed) s1 where
      "Authenticate (uh_lib h) userMemory ulive clk (lg_Email req) (lg_Password req) s = (Inl (Sentinel UErrInvalidCredentials), s1)"
      "us_repo s1 = us_repo s" "us_cache s1 = us_cache s"
      "\<forall>u. map_of (um_usersByEmail (us_repo s)) (normalizeEmail (ul_lower (uh_lib h)) (lg_Email req)) = Some (u_ID u) \<and>
        map_of (um_usersByID (us_repo s)) (u_ID u) = Some u \<longrightarrow> \<not> ul_compare (uh_lib h) (u_PasswordHash u) (lg_Password req)"
    by (rule Authenticate_outcomes [OF assms(1)])
  then show ?thesis
  proof cases
    case (ok u s1)
    let ?token = "hex_bytes rnd" and ?exp = "clk 2 + uc_sessionTTL (uh_cfg h)"
    have "um_inv (us_repo s1)" "\<forall>k x. map_of (um_sessions (us_repo s1)) k = Some x \<longrightarrow> sn_CreatedAt x < clk (2 + 0)"
      "map_of (um_sessions (us_repo s1)) (hashToken (uh_lib h) ?token) = None"
      using ok(5) assms(1,5,7) by simp_all
    then obtain s2 where s2: "CreateSession (uh_lib h) (uh_cfg h) userMemory ulive (\<lambda>i. clk (2 + i)) (Inr rnd) (u_ID u) s1 =
        (Inr (?token, ?exp), s2)" "us_cache s2 = us_cache s1"
      "map_of (um_sessions (us_repo s2)) (hashToken (uh_lib h) ?token) =
        Some \<lparr>sn_TokenHash = hashToken (uh_lib h) ?token, sn_UserID = u_ID u, sn_ExpiresAt = ?exp, sn_CreatedAt = clk 2\<rparr>"
      using CreateSession_live [of s1 "uh_cfg h" "\<lambda>i. clk (2 + i)" "uh_lib h" rnd "u_ID u"] assms(2) by auto
    have tok: "?token \<noteq> ''''" using assms(4) by (cases rnd) (simp_all add: hex_bytes_def hex_byte_def)
    have s': "s' = s2" and rs: "rs_Status rs = 200" "rs_Audit rs = [(''login_success'', normalizeEmail (ul_lower (uh_lib h)) (lg_Email req))]"
      "rs_Body rs = JsonBody (loginResponse ?token ?exp u)"
      "setSessionCookie (clk 3) ?token ?exp (uh_cookieInsecure h) \<in> set (rs_Cookies rs)"
      using run s2(1) ok(4) assms(3)
      by (auto simp: login_def Let_def uresponse_defs audit_defs split: sum.splits)
    have "ck_MaxAge (setSessionCookie (clk 3) ?token ?exp (uh_cookieInsecure h)) = whole_seconds (?exp - clk 3)"
      by (simp add: setSessionCookie_def sessionCookieMaxAgeSeconds_def)
    with whole_seconds_floor [of "?exp - clk 3"] assms(6)
    have "\<exists>c \<in> set (rs_Cookies rs). ck_Name c = ''session_token'' \<and> ck_Value c = ?token \<and> ck_Path c = ''/'' \<and>
              ck_HttpOnly c \<and> ck_Secure c = (\<not> uh_cookieInsecure h) \<and> ck_SameSite c = ''Lax'' \<and>
              ck_MaxAge c * Second \<le> ?exp - clk 3 \<and> ?exp - clk 3 < (ck_MaxAge c + 1) * Second"
      by (intro bexI [OF _ rs(4)]) (simp_all add: setSessionCookie_def sessionCookieName_def)
    moreover have "fst (RequireAuth (uh_lib h) userMemory ulive clk' \<lparr>ar_Authorization = '''', ar_Cookie = Some ?token\<rparr> s') =
        AuthPassed (u_ID u) ?token" if "clk' 1 \<le> ?exp" for clk'
      using cookie_passes [OF tok s2(3)] that s2(2) ok(6) assms(8) s' by simp
    ultimately show ?thesis using rs(1-3) ok(1-3) by blast
  next
    case (failed s1)
    then show ?thesis using run assms(3)
      by (auto simp: login_def Let_def uresponse_defs audit_defs uhandleServiceError_def)
  qed
qed

definition demo_user_handler :: "user_mem user_handler" where
  "demo_user_handler = \<lparr>uh_lib = demo_ulib, uh_cfg = demo_cfg, uh_repo = userMemory, uh_txt = user_err_text (\<lambda>_. ''''),
     uh_cookieInsecure = False, uh_attachmentsEnabled = True\<rparr>"

lemma demo_user_handler_sel [simp]:
  "uh_lib demo_user_handler = demo_ulib" "uh_cfg demo_user_handler = demo_cfg" "uh_repo demo_user_handler = userMemory"
  "uh_cookieInsecure demo_user_handler = False"
  by (simp_all add: demo_user_handler_def)

lemma demo_accounts_inv: "um_inv (us_repo demo_accounts)" "us_cache demo_accounts = []" "um_sessions (us_repo demo_accounts) = []"
  by (auto simp: um_inv_def demo_accounts_def NewUserService_def um_New_def demo_user_def split: if_splits)

theorem login_sets_working_cookie_witness:
  "fst (RequireAuth demo_ulib userMemory ulive (\<lambda>_. 50) \<lparr>ar_Authorization = '''', ar_Cookie = Some ''2a''\<rparr>
     (snd (login demo_user_handler ulive int (Inl '''') (Inr [42]) (Some \<lparr>lg_Email = ''ann@x.y'', lg_Password = ''correct horse''\<rparr>) demo_accounts))) =
   AuthPassed (u_ID demo_user) ''2a''"
proof -
  let ?req = "\<lparr>lg_Email = ''ann@x.y'', lg_Password = ''correct horse''\<rparr>"
  obtain rs s' where run: "login demo_user_handler ulive int (Inl '''') (Inr [42]) (Some ?req) demo_accounts = (rs, s')" by fastforce
  have "0 < uc_maxSessionsPerUser (uh_cfg demo_user_handler)" "int 3 \<le> int 2 + uc_sessionTTL (uh_cfg demo_user_handler)"
    by (simp_all add: demo_cfg_def)
  note login_sets_working_cookie [OF demo_accounts_inv(1) this(1) _ _ _ this(2) _ _ run]
  moreover have "map_of (um_usersByEmail (us_repo demo_accounts)) ''ann@x.y'' = Some (u_ID demo_user)"
    "map_of (um_usersByID (us_repo demo_accounts)) (u_ID demo_user) = Some demo_user" "u_PasswordHash demo_user = ''correct horse''"
    by (simp_all add: demo_accounts_def NewUserService_def um_New_def) (simp add: demo_user_def)
  ultimately obtain token exp where t: "rs_Body rs = JsonBody (loginResponse token exp demo_user)"
    "\<forall>clk'. clk' 1 \<le> exp \<longrightarrow> fst (RequireAuth demo_ulib userMemory ulive clk' \<lparr>ar_Authorization = '''', ar_Cookie = Some token\<rparr> s') =
       AuthPassed (u_ID demo_user) token"
    by (auto simp: demo_accounts_inv demo_emails)
  have "token = ''2a'' \<and> exp = 102"
    using run t(1) by (auto simp: login_def Let_def Authenticate_live demo_emails demo_accounts_def NewUserService_def um_New_def
        CreateSession_def on_repo_apply um_CreateSession_def demo_cfg_def go_eval uresponse_defs loginResponse_def demo_user_def split: if_splits)
  with run t(2) [rule_format, of "\<lambda>_. 50"] show ?thesis by simp
qed

end
