(* ===== verification/AttachModel.thy ===== *)
theory AttachModel
  imports TaskService Pgerr
begin

text \<open>
  The attachment domain (\<^verbatim>\<open>internal/attachment\<close>): the \<^verbatim>\<open>Attachment\<close> struct, the sentinels, the two
  boundaries \<^verbatim>\<open>Repository\<close> (metadata) and \<^verbatim>\<open>BlobStore\<close> (bytes), and the in-memory repository, which
  asks the task store who owns a task.
\<close>

record attachment =
  a_ID :: string
  a_TaskID :: string
  a_OriginalFilename :: string
  a_StorageKey :: string
  a_ContentType :: string
  a_SizeBytes :: int
  a_CreatedAt :: time

datatype att_err =
    AErrNotFound | AErrTaskNotFound | AErrAlreadyExists | AErrInvalidInput
  | AErrDependencyUnavailable | AErrUnavailable | AErrTooLarge
  | AContextCanceled | AContextDeadlineExceeded
  | ABreakerErrOpenState | ABreakerErrTooManyRequests | ASqlErrNoRows | ADriverErrBadConn

fun att_err_text :: "(att_err \<Rightarrow> string) \<Rightarrow> att_err \<Rightarrow> string" where
  "att_err_text lib AErrNotFound = ''attachment not found''"
| "att_err_text lib AErrTaskNotFound = ''task not found''"
| "att_err_text lib AErrAlreadyExists = ''attachment already exists''"
| "att_err_text lib AErrInvalidInput = ''invalid input''"
| "att_err_text lib AErrDependencyUnavailable = ''dependency unavailable''"
| "att_err_text lib AErrUnavailable = ''attachment store unavailable''"
| "att_err_text lib AErrTooLarge = ''attachment exceeds the maximum size''"
| "att_err_text lib AContextCanceled = ''context canceled''"
| "att_err_text lib AContextDeadlineExceeded = ''context deadline exceeded''"
| "att_err_text lib ABreakerErrOpenState = lib ABreakerErrOpenState"
| "att_err_text lib ABreakerErrTooManyRequests = lib ABreakerErrTooManyRequests"
| "att_err_text lib ASqlErrNoRows = ''sql: no rows in result set''"
| "att_err_text lib ADriverErrBadConn = ''driver: bad connection''"

type_synonym aerr = "att_err gerr"
type_synonym 'a ares = "(att_err, 'a) res"

fun actx_Err :: "ctx_state \<Rightarrow> aerr option" where
  "actx_Err Live = None"
| "actx_Err Canceled = Some (Sentinel AContextCanceled)"
| "actx_Err DeadlineExceeded = Some (Sentinel AContextDeadlineExceeded)"

lemma actx_Err_None_iff [simp]: "actx_Err c = None \<longleftrightarrow> c = Live"
  by (cases c) auto

subsection \<open>The two boundaries\<close>

record 's att_repo =
  ar_Create :: "ctx_state \<Rightarrow> attachment \<Rightarrow> string \<Rightarrow> (att_err, unit, 's) op"
  ar_FindByStorageKey :: "ctx_state \<Rightarrow> string \<Rightarrow> string \<Rightarrow> (att_err, attachment, 's) op"
  ar_FindByTask :: "ctx_state \<Rightarrow> string \<Rightarrow> string \<Rightarrow> (att_err, attachment list, 's) op"
  ar_Delete :: "ctx_state \<Rightarrow> string \<Rightarrow> string \<Rightarrow> (att_err, unit, 's) op"
  ar_TotalBytesForUser :: "ctx_state \<Rightarrow> string \<Rightarrow> (att_err, int, 's) op"
  ar_CountByTask :: "ctx_state \<Rightarrow> string \<Rightarrow> string \<Rightarrow> (att_err, int, 's) op"
  ar_UnreferencedKeys :: "ctx_state \<Rightarrow> string list \<Rightarrow> (att_err, string list, 's) op"

text \<open>An \<^verbatim>\<open>io.Reader\<close>: the bytes it yields, then the error it fails with, or the end of the stream.\<close>

record reader =
  rd_bytes :: string
  rd_err :: "aerr option"

record blob_ref =
  br_Key :: string
  br_ModTime :: time

record 'b blob_store =
  bs_Put :: "ctx_state \<Rightarrow> string \<Rightarrow> reader \<Rightarrow> int \<Rightarrow> (att_err, int, 'b) op"
  bs_Open :: "ctx_state \<Rightarrow> string \<Rightarrow> (att_err, string, 'b) op"
  bs_Delete :: "ctx_state \<Rightarrow> string \<Rightarrow> (att_err, unit, 'b) op"
  bs_List :: "ctx_state \<Rightarrow> (att_err, blob_ref list, 'b) op"

subsection \<open>The in-memory repository\<close>

text \<open>
  The map by attachment ID, and the \<^verbatim>\<open>TaskOwnershipFunc\<close> the constructor is given: what the task store
  answers at the moment.
\<close>

record att_mem =
  am_store :: "(string, attachment) gomap"
  am_owns :: "ctx_state \<Rightarrow> string \<Rightarrow> string \<Rightarrow> bool ares"

definition NewAttachMemory :: "(ctx_state \<Rightarrow> string \<Rightarrow> string \<Rightarrow> bool ares) \<Rightarrow> att_mem" where
  "NewAttachMemory ownsTask = \<lparr>am_store = [], am_owns = ownsTask\<rparr>"

text \<open>The loop that stops at the first entry with the storage key.\<close>

fun scan_key :: "string \<Rightarrow> (string, attachment) gomap \<Rightarrow> (string \<times> attachment) option" where
  "scan_key storageKey [] = None"
| "scan_key storageKey ((i, existing) # rest) =
     (if a_StorageKey existing = storageKey then Some (i, existing) else scan_key storageKey rest)"

definition am_Create :: "ctx_state \<Rightarrow> attachment \<Rightarrow> string \<Rightarrow> (att_err, unit, att_mem) op" where
  "am_Create ctx a userID s =
     (case am_owns s ctx (a_TaskID a) userID of
        Inl err \<Rightarrow> (Inl err, s)
      | Inr owns \<Rightarrow>
          if \<not> owns then (Inl (Sentinel AErrTaskNotFound), s)
          else if map_of (am_store s) (a_ID a) \<noteq> None then (Inl (Sentinel AErrAlreadyExists), s)
          else if scan_key (a_StorageKey a) (am_store s) \<noteq> None then (Inl (Sentinel AErrAlreadyExists), s)
          else (Inr (), s\<lparr>am_store := AList.update (a_ID a) a (am_store s)\<rparr>))"

definition am_FindByStorageKey :: "ctx_state \<Rightarrow> string \<Rightarrow> string \<Rightarrow> (att_err, attachment, att_mem) op" where
  "am_FindByStorageKey ctx storageKey userID s =
     (case actx_Err ctx of Some err \<Rightarrow> (Inl err, s) | None \<Rightarrow>
      case scan_key storageKey (am_store s) of
        None \<Rightarrow> (Inl (Sentinel AErrNotFound), s)
      | Some (_, found) \<Rightarrow>
          (case am_owns s ctx (a_TaskID found) userID of
             Inl err \<Rightarrow> (Inl err, s)
           | Inr owns \<Rightarrow> if \<not> owns then (Inl (Sentinel AErrNotFound), s) else (Inr found, s)))"

definition am_Delete :: "ctx_state \<Rightarrow> string \<Rightarrow> string \<Rightarrow> (att_err, unit, att_mem) op" where
  "am_Delete ctx storageKey userID s =
     (case actx_Err ctx of Some err \<Rightarrow> (Inl err, s) | None \<Rightarrow>
      case scan_key storageKey (am_store s) of
        None \<Rightarrow> (Inl (Sentinel AErrNotFound), s)
      | Some (i, found) \<Rightarrow>
          (case am_owns s ctx (a_TaskID found) userID of
             Inl err \<Rightarrow> (Inl err, s)
           | Inr owns \<Rightarrow>
               if \<not> owns then (Inl (Sentinel AErrNotFound), s)
               else (Inr (), s\<lparr>am_store := AList.delete i (am_store s)\<rparr>)))"

definition att_key :: "attachment \<Rightarrow> int \<times> string" where
  "att_key a = (a_CreatedAt a, a_ID a)"

definition am_FindByTask :: "ctx_state \<Rightarrow> string \<Rightarrow> string \<Rightarrow> (att_err, attachment list, att_mem) op" where
  "am_FindByTask ctx taskID userID s =
     (case am_owns s ctx taskID userID of
        Inl err \<Rightarrow> (Inl err, s)
      | Inr owns \<Rightarrow>
          if \<not> owns then (Inl (Sentinel AErrTaskNotFound), s)
          else (Inr (sort_key att_key (filter (\<lambda>a. a_TaskID a = taskID) (gomap_values (am_store s)))), s))"

fun total_loop :: "(string \<Rightarrow> bool ares) \<Rightarrow> attachment list \<Rightarrow> int \<Rightarrow> int ares" where
  "total_loop owns [] tot = Inr tot"
| "total_loop owns (a # rest) tot =
     (case owns (a_TaskID a) of
        Inl err \<Rightarrow> Inl err
      | Inr b \<Rightarrow> total_loop owns rest (if b then tot + a_SizeBytes a else tot))"

definition am_TotalBytesForUser :: "ctx_state \<Rightarrow> string \<Rightarrow> (att_err, int, att_mem) op" where
  "am_TotalBytesForUser ctx userID s =
     (case actx_Err ctx of Some err \<Rightarrow> (Inl err, s) | None \<Rightarrow>
      (total_loop (\<lambda>t. am_owns s ctx t userID) (gomap_values (am_store s)) 0, s))"

definition am_CountByTask :: "ctx_state \<Rightarrow> string \<Rightarrow> string \<Rightarrow> (att_err, int, att_mem) op" where
  "am_CountByTask ctx taskID userID s =
     (case actx_Err ctx of Some err \<Rightarrow> (Inl err, s) | None \<Rightarrow>
      case am_owns s ctx taskID userID of
        Inl err \<Rightarrow> (Inl err, s)
      | Inr owns \<Rightarrow>
          if \<not> owns then (Inr 0, s)
          else (Inr (int (length (filter (\<lambda>a. a_TaskID a = taskID) (gomap_values (am_store s))))), s))"

definition am_UnreferencedKeys :: "ctx_state \<Rightarrow> string list \<Rightarrow> (att_err, string list, att_mem) op" where
  "am_UnreferencedKeys ctx keys s =
     (case actx_Err ctx of Some err \<Rightarrow> (Inl err, s) | None \<Rightarrow>
      (let referenced = map a_StorageKey (gomap_values (am_store s)) in
       (Inr (filter (\<lambda>k. k \<notin> set referenced) keys), s)))"

definition attachMemory :: "att_mem att_repo" where
  "attachMemory = \<lparr>ar_Create = am_Create, ar_FindByStorageKey = am_FindByStorageKey, ar_FindByTask = am_FindByTask,
     ar_Delete = am_Delete, ar_TotalBytesForUser = am_TotalBytesForUser, ar_CountByTask = am_CountByTask,
     ar_UnreferencedKeys = am_UnreferencedKeys\<rparr>"

lemma attachMemory_sel [simp]:
  "ar_Create attachMemory = am_Create" "ar_FindByStorageKey attachMemory = am_FindByStorageKey"
  "ar_FindByTask attachMemory = am_FindByTask" "ar_Delete attachMemory = am_Delete"
  "ar_TotalBytesForUser attachMemory = am_TotalBytesForUser" "ar_CountByTask attachMemory = am_CountByTask"
  "ar_UnreferencedKeys attachMemory = am_UnreferencedKeys"
  by (simp_all add: attachMemory_def)

subsection \<open>Invariant: distinct IDs, distinct storage keys, each row under its own ID\<close>

definition am_inv :: "att_mem \<Rightarrow> bool" where
  "am_inv s \<longleftrightarrow> gomap_wf (am_store s) \<and> (\<forall>(k, a) \<in> set (am_store s). a_ID a = k) \<and>
     distinct (map a_StorageKey (gomap_values (am_store s)))"

lemma scan_key_None: "scan_key k st = None \<longleftrightarrow> k \<notin> a_StorageKey ` set (gomap_values st)"
  by (induction st rule: scan_key.induct) auto

lemma scan_key_Some: "scan_key k st = Some (i, a) \<Longrightarrow> (i, a) \<in> set st \<and> a_StorageKey a = k"
  by (induction k st rule: scan_key.induct) (auto split: if_splits)

lemma scan_key_unique:
  assumes "distinct (map a_StorageKey (gomap_values st))" and "(i, a) \<in> set st"
  shows "scan_key (a_StorageKey a) st = Some (i, a)"
  using assms by (induction "a_StorageKey a" st rule: scan_key.induct) (auto simp: image_iff)

lemma am_inv_New [simp]: "am_inv (NewAttachMemory f)"
  by (simp add: am_inv_def NewAttachMemory_def)

lemma set_update_new: "map_of m k = None \<Longrightarrow> AList.update k v m = m @ [(k, v)]"
  by (induction m) (auto split: if_splits)

lemma am_Create_inv:
  assumes "am_inv s" and "am_Create c a u s = (r, s')"
  shows "am_inv s'"
  using assms
  by (auto simp: am_Create_def am_inv_def set_update_new scan_key_None map_of_eq_None_iff image_iff split: sum.splits if_splits)

lemma set_AList_delete: "set (AList.delete k m) = {x \<in> set m. fst x \<noteq> k}"
  by (auto simp: AList.delete_eq)

lemma am_Delete_inv:
  assumes "am_inv s" and "am_Delete c k u s = (r, s')"
  shows "am_inv s'"
proof -
  have "distinct (map a_StorageKey (map snd (AList.delete i m)))" if "distinct (map a_StorageKey (map snd m))" for i m
    using that unfolding AList.delete_eq map_map by (rule distinct_map_filter)
  with assms show ?thesis
    by (auto simp: am_Delete_def am_inv_def set_AList_delete split: option.splits prod.splits sum.splits if_splits)
qed

end
