(* ===== verification/AttachStore.thy ===== *)
theory AttachStore
  imports AttachModel
begin

text \<open>
  \<^verbatim>\<open>fsBlobStore\<close> (\<^verbatim>\<open>internal/attachment/storage.go\<close>): blobs as files of one directory. The
  directory is a map from names to files or subdirectories. Two things are data of the model: which names the
  third-party \<^verbatim>\<open>pathguard.Guard\<close> admits and whether its \<^verbatim>\<open>Create\<close> refuses an existing file
  (\<open>guard\<close>), and which system calls fail, with which error and after how many bytes
  (\<open>fs_faults\<close>, one entry per call). \<open>fs_now\<close> is the clock of the file system.
\<close>

datatype fs_entry = File string time | Subdir

record guard =
  gd_admits :: "string \<Rightarrow> bool"
  gd_excl :: bool

record fs =
  fs_dir :: "(string, fs_entry) gomap"
  fs_faults :: "nat \<Rightarrow> (string \<times> nat) option"
  fs_calls :: nat
  fs_now :: time

definition syscall :: "fs \<Rightarrow> (string \<times> nat) option \<times> fs" where
  "syscall b = (fs_faults b (fs_calls b), b\<lparr>fs_calls := Suc (fs_calls b)\<rparr>)"

definition write_file :: "string \<Rightarrow> string \<Rightarrow> fs \<Rightarrow> fs" where
  "write_file key data b = b\<lparr>fs_dir := AList.update key (File data (fs_now b)) (fs_dir b)\<rparr>"

text \<open>
  \<^verbatim>\<open>remove\<close>: a name the guard does not resolve (refused, or nothing there) is nothing to delete;
  the removal itself can fail.
\<close>

definition fs_remove :: "guard \<Rightarrow> string \<Rightarrow> fs \<Rightarrow> string option \<times> fs" where
  "fs_remove g key b =
     (case syscall b of (resolve, b1) \<Rightarrow>
      if resolve \<noteq> None \<or> \<not> gd_admits g key \<or> map_of (fs_dir b1) key = None then (None, b1)
      else case syscall b1 of
        (Some (err, _), b2) \<Rightarrow> (Some err, b2)
      | (None, b2) \<Rightarrow> (None, b2\<lparr>fs_dir := AList.delete key (fs_dir b2)\<rparr>))"

text \<open>
  \<^verbatim>\<open>io.Copy(f, io.LimitReader(r, maxBytes+1))\<close>: what is copied, and the error of the reader if it
  comes within the limit.
\<close>

definition copied :: "reader \<Rightarrow> int \<Rightarrow> string" where
  "copied r maxBytes = take (nat (maxBytes + 1)) (rd_bytes r)"

definition copy_error :: "reader \<Rightarrow> int \<Rightarrow> aerr option" where
  "copy_error r maxBytes = (if length (rd_bytes r) < nat (maxBytes + 1) then rd_err r else None)"

definition fs_Put :: "guard \<Rightarrow> ctx_state \<Rightarrow> string \<Rightarrow> reader \<Rightarrow> int \<Rightarrow> (att_err, int, fs) op" where
  "fs_Put g ctx key r maxBytes b =
     (case actx_Err ctx of Some err \<Rightarrow> (Inl err, b) | None \<Rightarrow>
      case syscall b of
        (Some (err, _), b1) \<Rightarrow> (Inl (WrapPre ''attachment: create blob'' (Opaque err)), b1)
      | (None, b1) \<Rightarrow>
      if \<not> gd_admits g key \<or> (gd_excl g \<and> map_of (fs_dir b1) key \<noteq> None)
      then (Inl (WrapPre ''attachment: create blob'' (Opaque ''refused'')), b1)
      else let b2 = write_file key [] b1 in
      case syscall b2 of
        (Some (err, n), b3) \<Rightarrow>
          (Inl (WrapPre ''attachment: write blob'' (Opaque err)),
           snd (fs_remove g key (write_file key (take n (copied r maxBytes)) b3)))
      | (None, b3) \<Rightarrow>
      let data = copied r maxBytes; b4 = write_file key data b3 in
      case copy_error r maxBytes of
        Some err \<Rightarrow> (Inl (WrapPre ''attachment: write blob'' err), snd (fs_remove g key b4))
      | None \<Rightarrow>
      if int (length data) > maxBytes then (Inl (Sentinel AErrTooLarge), snd (fs_remove g key b4))
      else case syscall b4 of
        (Some (err, _), b5) \<Rightarrow>
          (Inl (WrapPre ''attachment: close blob'' (Opaque err)), snd (fs_remove g key b5))
      | (None, b5) \<Rightarrow> (Inr (int (length data)), b5))"

definition fs_Open :: "guard \<Rightarrow> ctx_state \<Rightarrow> string \<Rightarrow> (att_err, string, fs) op" where
  "fs_Open g ctx key b =
     (case actx_Err ctx of Some err \<Rightarrow> (Inl err, b) | None \<Rightarrow>
      case syscall b of
        (Some _, b1) \<Rightarrow> (Inl (Sentinel AErrNotFound), b1)
      | (None, b1) \<Rightarrow>
          if \<not> gd_admits g key then (Inl (Sentinel AErrNotFound), b1)
          else case map_of (fs_dir b1) key of
            Some (File data t) \<Rightarrow> (Inr data, b1)
          | _ \<Rightarrow> (Inl (Sentinel AErrNotFound), b1))"

definition fs_Delete :: "guard \<Rightarrow> ctx_state \<Rightarrow> string \<Rightarrow> (att_err, unit, fs) op" where
  "fs_Delete g ctx key b =
     (case actx_Err ctx of Some err \<Rightarrow> (Inl err, b) | None \<Rightarrow>
      case fs_remove g key b of
        (Some err, b1) \<Rightarrow> (Inl (WrapPre ''attachment: delete blob'' (Opaque err)), b1)
      | (None, b1) \<Rightarrow> (Inr (), b1))"

text \<open>
  The loop of \<^verbatim>\<open>List\<close> over the entries of the directory: subdirectories are skipped, and an entry whose
  \<^verbatim>\<open>Info\<close> fails ends the listing (a file that vanished in between is not in the directory of this atomic step).
\<close>

fun list_loop :: "(nat \<Rightarrow> bool) \<Rightarrow> (string \<times> fs_entry) list \<Rightarrow> blob_ref list \<Rightarrow> fs \<Rightarrow> blob_ref list ares \<times> fs" where
  "list_loop isPrint [] refs b = (Inr refs, b)"
| "list_loop isPrint ((name, Subdir) # rest) refs b = list_loop isPrint rest refs b"
| "list_loop isPrint ((name, File data t) # rest) refs b =
     (case syscall b of
        (Some (err, _), b1) \<Rightarrow> (Inl (WrapPre (''attachment: stat blob '' @ Quote isPrint name) (Opaque err)), b1)
      | (None, b1) \<Rightarrow> list_loop isPrint rest (refs @ [\<lparr>br_Key = name, br_ModTime = t\<rparr>]) b1)"

definition fs_List :: "(nat \<Rightarrow> bool) \<Rightarrow> ctx_state \<Rightarrow> (att_err, blob_ref list, fs) op" where
  "fs_List isPrint ctx b =
     (case actx_Err ctx of Some err \<Rightarrow> (Inl err, b) | None \<Rightarrow>
      case syscall b of
        (Some (err, _), b1) \<Rightarrow> (Inl (WrapPre ''attachment: list blobs'' (Opaque err)), b1)
      | (None, b1) \<Rightarrow> list_loop isPrint (fs_dir b1) [] b1)"

definition fsBlobStore :: "guard \<Rightarrow> (nat \<Rightarrow> bool) \<Rightarrow> fs blob_store" where
  "fsBlobStore g isPrint = \<lparr>bs_Put = fs_Put g, bs_Open = fs_Open g, bs_Delete = fs_Delete g, bs_List = fs_List isPrint\<rparr>"

lemma fsBlobStore_sel [simp]:
  "bs_Put (fsBlobStore g p) = fs_Put g" "bs_Open (fsBlobStore g p) = fs_Open g"
  "bs_Delete (fsBlobStore g p) = fs_Delete g" "bs_List (fsBlobStore g p) = fs_List p"
  by (simp_all add: fsBlobStore_def)

subsection \<open>The contract of a BlobStore\<close>

text \<open>
  What the service relies on, over the blobs stored by key with their modification times: a successful
  \<^verbatim>\<open>Put\<close> has stored the whole stream, within the limit, and reports its length; a failed one touched no
  other key; \<^verbatim>\<open>Open\<close> returns what is stored; \<^verbatim>\<open>Delete\<close> removes at most its key, and a listing
  shows exactly what is there.
\<close>

type_synonym blobs = "string \<Rightarrow> (string \<times> time) option"

locale blob_contract =
  fixes store :: "'b blob_store"
    and content :: "'b \<Rightarrow> blobs"
    and clock :: "'b \<Rightarrow> time"
    and binv :: "'b \<Rightarrow> bool"
  assumes put_ok: "\<lbrakk>binv b; 0 \<le> m; bs_Put store c k r m b = (Inr n, b')\<rbrakk> \<Longrightarrow>
      binv b' \<and> rd_err r = None \<and> n = int (length (rd_bytes r)) \<and> n \<le> m \<and>
      content b' = (content b)(k \<mapsto> (rd_bytes r, clock b)) \<and> clock b' = clock b"
    and put_failed: "\<lbrakk>binv b; bs_Put store c k r m b = (Inl e, b')\<rbrakk> \<Longrightarrow>
      binv b' \<and> (\<forall>k'. k' \<noteq> k \<longrightarrow> content b' k' = content b k') \<and> clock b' = clock b"
    and open_blob: "\<lbrakk>binv b; bs_Open store c k b = (ro, b')\<rbrakk> \<Longrightarrow>
      binv b' \<and> content b' = content b \<and> clock b' = clock b \<and>
      (\<forall>data. ro = Inr data \<longrightarrow> (\<exists>t. content b k = Some (data, t)))"
    and delete_blob: "\<lbrakk>binv b; bs_Delete store c k b = (rd, b')\<rbrakk> \<Longrightarrow>
      binv b' \<and> (content b' = content b \<or> content b' = (content b)(k := None)) \<and> clock b' = clock b"
    and list_blobs: "\<lbrakk>binv b; bs_List store c b = (rl, b')\<rbrakk> \<Longrightarrow>
      binv b' \<and> content b' = content b \<and> clock b' = clock b \<and>
      (\<forall>refs. rl = Inr refs \<longrightarrow> distinct (map br_Key refs) \<and>
        (\<forall>k t. \<lparr>br_Key = k, br_ModTime = t\<rparr> \<in> set refs \<longleftrightarrow> (\<exists>data. content b k = Some (data, t))))"

text \<open>The file system: the files of the directory; subdirectories are none of the store's business.\<close>

definition fs_content :: "fs \<Rightarrow> blobs" where
  "fs_content b k = (case map_of (fs_dir b) k of Some (File data t) \<Rightarrow> Some (data, t) | _ \<Rightarrow> None)"

abbreviation fs_inv :: "fs \<Rightarrow> bool" where
  "fs_inv b \<equiv> gomap_wf (fs_dir b)"

lemma fs_content_Some: "fs_content b k = Some (d, t) \<longleftrightarrow> map_of (fs_dir b) k = Some (File d t)"
  by (auto simp: fs_content_def split: option.splits fs_entry.splits simp del: map_of_eq_Some_iff)

lemma fs_content_dir: "fs_dir b' = fs_dir b \<Longrightarrow> fs_content b' = fs_content b"
  by (simp add: fs_content_def fun_eq_iff)

lemma fs_content_delete: "fs_dir b' = AList.delete k (fs_dir b) \<Longrightarrow> fs_content b' = (fs_content b)(k := None)"
  by (simp add: fs_content_def fun_eq_iff gomap_simps)

lemma syscall_fs:
  "syscall b = (f, b') \<Longrightarrow> fs_dir b' = fs_dir b \<and> fs_now b' = fs_now b \<and> fs_content b' = fs_content b"
  by (auto simp: syscall_def intro: fs_content_dir)

lemma fs_remove_fs:
  assumes "fs_inv b" and "fs_remove g k b = (e, b')"
  shows "fs_inv b' \<and> fs_now b' = fs_now b \<and> (fs_content b' = fs_content b \<or> fs_content b' = (fs_content b)(k := None))"
proof -
  obtain f b1 where 1: "syscall b = (f, b1)" by (cases "syscall b")
  obtain f2 b2 where 2: "syscall b1 = (f2, b2)" by (cases "syscall b1")
  note same = syscall_fs [OF 1] syscall_fs [OF 2]
  have del: "fs_content (b2\<lparr>fs_dir := AList.delete k (fs_dir b2)\<rparr>) = (fs_content b2)(k := None)"
    by (rule fs_content_delete) simp
  show ?thesis using assms same del 1 2 by (auto simp: fs_remove_def split: if_splits option.splits)
qed

lemma write_file_fs [simp]:
  "fs_now (write_file k d b) = fs_now b" "fs_content (write_file k d b) = (fs_content b)(k \<mapsto> (d, fs_now b))"
  "fs_inv b \<Longrightarrow> fs_inv (write_file k d b)"
  by (auto simp: write_file_def fs_content_def gomap_simps)

text \<open>The steps of a \<^verbatim>\<open>Put\<close> touch one key only.\<close>

definition only_key :: "string \<Rightarrow> fs \<Rightarrow> fs \<Rightarrow> bool" where
  "only_key k b b' \<longleftrightarrow> fs_inv b' \<and> (\<forall>k'. k' \<noteq> k \<longrightarrow> fs_content b' k' = fs_content b k') \<and> fs_now b' = fs_now b"

lemma only_key_steps:
  "only_key k b x \<Longrightarrow> syscall x = (f, y) \<Longrightarrow> only_key k b y"
  "only_key k b x \<Longrightarrow> only_key k b (write_file k d x)"
  using syscall_fs [of x f y] by (auto simp: only_key_def)

lemma only_key_remove: "only_key k b x \<Longrightarrow> only_key k b (snd (fs_remove g k x))"
  using fs_remove_fs [of x g k] by (cases "fs_remove g k x") (fastforce simp: only_key_def)

text \<open>After a failed \<^verbatim>\<open>Put\<close> the key may be gone, as before or left with a partial file; nothing else moved.\<close>

lemma fs_Put_failed:
  assumes "fs_inv b" and "fs_Put g c k r m b = (Inl e, b')"
  shows "only_key k b b'"
proof -
  have b: "only_key k b b" using assms(1) by (simp add: only_key_def)
  obtain f1 b1 where 1: "syscall b = (f1, b1)" by fastforce
  obtain f3 b3 where 3: "syscall (write_file k [] b1) = (f3, b3)" by fastforce
  let ?b4 = "write_file k (copied r m) b3"
  obtain f5 b5 where 5: "syscall ?b4 = (f5, b5)" by fastforce
  note k1 = only_key_steps(1) [OF b 1]
  note k3 = only_key_steps(1) [OF only_key_steps(2) [OF k1] 3]
  note k4 = only_key_steps(2) [OF k3]
  note k5 = only_key_steps(1) [OF k4 5]
  show ?thesis
    using assms(2) b k1 only_key_remove [OF only_key_steps(2) [OF k3]] only_key_remove [OF k4] only_key_remove [OF k5]
    by (auto simp: fs_Put_def Let_def 1 3 5 split: option.splits prod.splits if_splits)
qed

lemma fs_Put_ok:
  assumes "fs_inv b" and "0 \<le> m" and "fs_Put g c k r m b = (Inr n, b')"
  shows "fs_inv b' \<and> rd_err r = None \<and> n = int (length (rd_bytes r)) \<and> n \<le> m \<and>
      fs_content b' = (fs_content b)(k \<mapsto> (rd_bytes r, fs_now b)) \<and> fs_now b' = fs_now b"
proof -
  obtain f1 b1 where 1: "syscall b = (f1, b1)" by fastforce
  obtain f3 b3 where 3: "syscall (write_file k [] b1) = (f3, b3)" by fastforce
  let ?b4 = "write_file k (copied r m) b3"
  obtain f5 b5 where 5: "syscall ?b4 = (f5, b5)" by fastforce
  from assms(3) have ok: "copy_error r m = None" "int (length (copied r m)) \<le> m" "n = int (length (copied r m))" "b' = b5"
    by (auto simp: fs_Put_def Let_def 1 3 5 split: option.splits prod.splits if_splits)
  from ok(2) assms(2) have len: "length (rd_bytes r) \<le> nat m" by (auto simp: copied_def min_def split: if_splits)
  with assms(2) have data: "copied r m = rd_bytes r" "length (rd_bytes r) < nat (m + 1)" by (auto simp: copied_def)
  with ok(1) have "rd_err r = None" by (simp add: copy_error_def)
  moreover have "fs_inv b5 \<and> fs_now b5 = fs_now b \<and> fs_content b5 = (fs_content b)(k \<mapsto> (copied r m, fs_now b))"
    using syscall_fs [OF 1] syscall_fs [OF 3] syscall_fs [OF 5] assms(1) by simp
  ultimately show ?thesis using ok data by simp
qed

text \<open>What a listing without faults contains.\<close>

fun file_refs :: "(string \<times> fs_entry) list \<Rightarrow> blob_ref list" where
  "file_refs [] = []"
| "file_refs ((k, File d t) # es) = \<lparr>br_Key = k, br_ModTime = t\<rparr> # file_refs es"
| "file_refs ((k, Subdir) # es) = file_refs es"

lemma list_loop_fs:
  "list_loop p es refs b = (r, b') \<Longrightarrow> fs_dir b' = fs_dir b \<and> fs_now b' = fs_now b \<and>
    (\<forall>out. r = Inr out \<longrightarrow> out = refs @ file_refs es)"
  by (induction p es refs b rule: list_loop.induct) (auto simp: syscall_def split: option.splits prod.splits)

lemma file_refs_set: "\<lparr>br_Key = k, br_ModTime = t\<rparr> \<in> set (file_refs es) \<longleftrightarrow> (\<exists>d. (k, File d t) \<in> set es)"
  by (induction es rule: file_refs.induct) auto

lemma file_refs_distinct:
  "br_Key ` set (file_refs es) \<subseteq> fst ` set es \<and> (gomap_wf es \<longrightarrow> distinct (map br_Key (file_refs es)))"
  by (induction es rule: file_refs.induct) auto

lemma file_refs_content:
  assumes "fs_inv b"
  shows "\<lparr>br_Key = k, br_ModTime = t\<rparr> \<in> set (file_refs (fs_dir b)) \<longleftrightarrow> (\<exists>data. fs_content b k = Some (data, t))"
proof -
  have "(k, File d t) \<in> set (fs_dir b) \<longleftrightarrow> fs_content b k = Some (d, t)" for d
    using assms by (simp add: fs_content_Some)
  then show ?thesis by (simp add: file_refs_set)
qed

interpretation fs: blob_contract "fsBlobStore g p" fs_content fs_now fs_inv for g p
proof (unfold_locales, goal_cases)
  case (1 b m c k r n b')
  then show ?case using fs_Put_ok [OF 1(1,2)] by (simp only: fsBlobStore_sel)
next
  case (2 b c k r m e b')
  then show ?case using fs_Put_failed [of b g c k r m e b'] by (simp add: only_key_def)
next
  case (3 b c k ro b')
  then show ?case using syscall_fs [of b]
    by (auto simp: fs_Open_def fs_content_Some simp del: map_of_eq_Some_iff
        split: option.splits prod.splits if_splits fs_entry.splits)
next
  case (4 b c k rd b')
  then show ?case using fs_remove_fs [of b g k]
    by (auto simp: fs_Delete_def split: option.splits prod.splits)
next
  case (5 b c rl b')
  show ?case
  proof (cases "actx_Err c = None \<and> fst (syscall b) = None")
    case True
    then obtain b1 where b1: "syscall b = (None, b1)" by (cases "syscall b") auto
    with 5(2) True have run: "list_loop p (fs_dir b1) [] b1 = (rl, b')" by (simp add: fs_List_def)
    have d: "fs_dir b' = fs_dir b" using syscall_fs [OF b1] list_loop_fs [OF run] by simp
    show ?thesis
      using syscall_fs [OF b1] list_loop_fs [OF run] file_refs_distinct [of "fs_dir b"] file_refs_content [OF 5(1)]
        fs_content_dir [OF d] 5(1) d by (cases rl) simp_all
  next
    case False
    with 5 syscall_fs [of b] show ?thesis by (auto simp: fs_List_def split: option.splits prod.splits)
  qed
qed

end
