(* ===== verification/AttachService.thy ===== *)
theory AttachService
  imports AttachStore
begin

text \<open>
  The attachment business logic (\<^verbatim>\<open>internal/attachment/service.go\<close>) over any \<^verbatim>\<open>Repository\<close> and any
  \<^verbatim>\<open>BlobStore\<close>; the state is the pair of theirs. Arguments stand for the clock, the
  random bytes of each identifier, the context as each call finds it, the sanitizer of the \<^verbatim>\<open>moat\<close> package,
  and \<^verbatim>\<open>http.DetectContentType\<close>'s signature table.
\<close>

definition maxOriginalFilenameLen :: nat where "maxOriginalFilenameLen = 255"
definition maxAttachmentsPerTask :: int where "maxAttachmentsPerTask = 50"
definition sniffLen :: nat where "sniffLen = 512"

definition allowedContentTypes :: "string list" where
  "allowedContentTypes =
     [''image/jpeg'', ''image/png'', ''image/gif'', ''image/webp'', ''application/pdf'', ''text/plain'']"

record att_cfg =
  ac_maxBytes :: int
  ac_maxBytesPerUser :: int

record att_lib =
  al_DetectContentType :: "string \<Rightarrow> string"
  al_PlainText :: "string \<Rightarrow> string"
  al_lower :: "nat \<Rightarrow> string"
  al_IsPrint :: "nat \<Rightarrow> bool"

abbreviation ainvalidInput :: "string \<Rightarrow> aerr" where
  "ainvalidInput msg \<equiv> WrapPost (Sentinel AErrInvalidInput) msg"

definition anewID :: "string + 8 word list \<Rightarrow> string ares" where
  "anewID rnd =
     (case rnd of
        Inl err \<Rightarrow> Inl (WrapPre ''failed to generate id'' (Opaque err))
      | Inr b0 \<Rightarrow>
          (let b1 = b0[6 := ((b0 ! 6) AND 0x0f) OR 0x40];
               b = b1[8 := ((b1 ! 8) AND 0x3f) OR 0x80]
           in Inr (hex_bytes (take 4 b) @ ''-'' @ hex_bytes (take 2 (drop 4 b)) @ ''-'' @
                   hex_bytes (take 2 (drop 6 b)) @ ''-'' @ hex_bytes (take 2 (drop 8 b)) @ ''-'' @
                   hex_bytes (drop 10 b))))"

definition aisValidID :: "string \<Rightarrow> bool" where
  "aisValidID i = list_all2 (\<lambda>hex c. if hex then is_hex c else c = CHR ''-'') idPattern i"

definition detectContentType :: "att_lib \<Rightarrow> string \<Rightarrow> string" where
  "detectContentType lib head =
     TrimSpace (ToLower (al_lower lib) (takeWhile (\<lambda>c. c \<noteq> CHR '';'') (al_DetectContentType lib head)))"

text \<open>\<^verbatim>\<open>filepath.Base\<close> on Unix: trailing separators go, then everything up to the last one.\<close>

definition filepath_Base :: "string \<Rightarrow> string" where
  "filepath_Base path =
     (if path = '''' then ''.''
      else let p = rev (dropWhile (\<lambda>c. c = CHR ''/'') (rev path)) in
        if p = '''' then ''/'' else rev (takeWhile (\<lambda>c. c \<noteq> CHR ''/'') (rev p)))"

definition after_last_separator :: "string \<Rightarrow> string" where
  "after_last_separator name = rev (takeWhile (\<lambda>c. c \<noteq> CHR ''/'' \<and> c \<noteq> CHR 0x5C) (rev name))"

definition normalizeFilename :: "att_lib \<Rightarrow> string \<Rightarrow> string ares" where
  "normalizeFilename lib declared =
     (let name = al_PlainText lib (filepath_Base (after_last_separator declared)) in
      if name \<in> {'''', ''.'', ''..'', ''/''} then Inl (ainvalidInput ''filename must not be empty'')
      else if RuneCountInString name > maxOriginalFilenameLen
      then Inl (ainvalidInput (''filename must be at most '' @ Itoa (int maxOriginalFilenameLen) @ '' characters''))
      else Inr name)"

text \<open>
  \<^verbatim>\<open>io.ReadFull(r, head)\<close> of \<^verbatim>\<open>sniffLen\<close> bytes: an error other than the end of the stream
  that comes before they are all read.
\<close>

definition read_head :: "reader \<Rightarrow> string ares" where
  "read_head r =
     (if length (rd_bytes r) < sniffLen
      then case rd_err r of Some err \<Rightarrow> Inl err | None \<Rightarrow> Inr (rd_bytes r)
      else Inr (take sniffLen (rd_bytes r)))"

subsection \<open>Operations\<close>

definition Upload :: "att_lib \<Rightarrow> att_cfg \<Rightarrow> 's att_repo \<Rightarrow> 'b blob_store \<Rightarrow> ctxs \<Rightarrow> time
    \<Rightarrow> string + 8 word list \<Rightarrow> string + 8 word list \<Rightarrow> string \<Rightarrow> string \<Rightarrow> string \<Rightarrow> reader
    \<Rightarrow> (att_err, attachment, 's \<times> 'b) op" where
  "Upload lib cfg repo blobs ctx now rnd1 rnd2 userID taskID declaredFilename r sb =
     (case sb of (s0, b0) \<Rightarrow>
      if \<not> aisValidID taskID then (Inl (Sentinel AErrTaskNotFound), sb)
      else case ar_TotalBytesForUser repo (ctx 0) userID s0 of
        (Inl err, s1) \<Rightarrow> (Inl (WrapPre ''upload attachment'' err), (s1, b0))
      | (Inr tot, s1) \<Rightarrow>
      if tot \<ge> ac_maxBytesPerUser cfg
      then (Inl (ainvalidInput (''attachment quota exceeded ('' @ Itoa tot @ ''/'' @
              Itoa (ac_maxBytesPerUser cfg) @ '' bytes used)'')), (s1, b0))
      else case ar_CountByTask repo (ctx 1) taskID userID s1 of
        (Inl err, s2) \<Rightarrow> (Inl (WrapPre ''upload attachment'' err), (s2, b0))
      | (Inr cnt, s2) \<Rightarrow>
      if cnt \<ge> maxAttachmentsPerTask
      then (Inl (ainvalidInput (''task already has '' @ Itoa cnt @ '' attachments (max '' @
              Itoa maxAttachmentsPerTask @ '')'')), (s2, b0))
      else case normalizeFilename lib declaredFilename of
        Inl err \<Rightarrow> (Inl err, (s2, b0))
      | Inr filename \<Rightarrow>
      (case read_head r of
        Inl err \<Rightarrow> (Inl (WrapPre ''upload attachment: read'' err), (s2, b0))
      | Inr head \<Rightarrow>
      let contentType = detectContentType lib head in
      if contentType \<notin> set allowedContentTypes
      then (Inl (ainvalidInput (''content type '' @ Quote (al_IsPrint lib) contentType @ '' is not accepted'')), (s2, b0))
      else case anewID rnd1 of
        Inl err \<Rightarrow> (Inl (WrapPre ''upload attachment'' err), (s2, b0))
      | Inr i \<Rightarrow>
      (case anewID rnd2 of
        Inl err \<Rightarrow> (Inl (WrapPre ''upload attachment'' err), (s2, b0))
      | Inr storageKey \<Rightarrow>
      (case bs_Put blobs (ctx 2) storageKey r (ac_maxBytes cfg) b0 of
        (Inl err, b1) \<Rightarrow>
          (Inl (if errors_Is err AErrTooLarge
                then ainvalidInput (''attachment must be at most '' @ Itoa (ac_maxBytes cfg) @ '' bytes'')
                else WrapPre ''upload attachment'' err), (s2, b1))
      | (Inr written, b1) \<Rightarrow>
      let att = \<lparr>a_ID = i, a_TaskID = taskID, a_OriginalFilename = filename, a_StorageKey = storageKey,
                 a_ContentType = contentType, a_SizeBytes = written, a_CreatedAt = now\<rparr> in
      case ar_Create repo (ctx 3) att userID s2 of
        (Inl err, s3) \<Rightarrow> (Inl (WrapPre ''upload attachment'' err), (s3, snd (bs_Delete blobs (ctx 4) storageKey b1)))
      | (Inr _, s3) \<Rightarrow> (Inr att, (s3, b1))))))"

definition Download :: "'s att_repo \<Rightarrow> 'b blob_store \<Rightarrow> ctxs \<Rightarrow> string \<Rightarrow> string
    \<Rightarrow> (att_err, attachment \<times> string, 's \<times> 'b) op" where
  "Download repo blobs ctx userID storageKey sb =
     (case sb of (s0, b0) \<Rightarrow>
      if \<not> aisValidID storageKey then (Inl (Sentinel AErrNotFound), sb)
      else case ar_FindByStorageKey repo (ctx 0) storageKey userID s0 of
        (Inl err, s1) \<Rightarrow> (Inl (WrapPre ''download attachment'' err), (s1, b0))
      | (Inr att, s1) \<Rightarrow>
      case bs_Open blobs (ctx 1) (a_StorageKey att) b0 of
        (Inl err, b1) \<Rightarrow> (Inl (WrapPre ''download attachment'' err), (s1, b1))
      | (Inr blob, b1) \<Rightarrow> (Inr (att, blob), (s1, b1)))"

definition DeleteAttachment :: "'s att_repo \<Rightarrow> 'b blob_store \<Rightarrow> ctxs \<Rightarrow> string \<Rightarrow> string
    \<Rightarrow> (att_err, unit, 's \<times> 'b) op" where
  "DeleteAttachment repo blobs ctx userID storageKey sb =
     (case sb of (s0, b0) \<Rightarrow>
      if \<not> aisValidID storageKey then (Inl (Sentinel AErrNotFound), sb)
      else case ar_Delete repo (ctx 0) storageKey userID s0 of
        (Inl err, s1) \<Rightarrow> (Inl (WrapPre ''delete attachment'' err), (s1, b0))
      | (Inr _, s1) \<Rightarrow> (Inr (), (s1, snd (bs_Delete blobs (ctx 1) storageKey b0))))"

definition ListByTask :: "'s att_repo \<Rightarrow> ctxs \<Rightarrow> string \<Rightarrow> string \<Rightarrow> (att_err, attachment list, 's \<times> 'b) op" where
  "ListByTask repo ctx userID taskID sb =
     (case sb of (s0, b0) \<Rightarrow>
      if \<not> aisValidID taskID then (Inl (Sentinel AErrTaskNotFound), sb)
      else case ar_FindByTask repo (ctx 0) taskID userID s0 of
        (Inl err, s1) \<Rightarrow> (Inl (WrapPre ''list attachments'' err), (s1, b0))
      | (Inr atts, s1) \<Rightarrow> (Inr atts, (s1, b0)))"

text \<open>
  The orphan collector returns how many blobs it removed, also when it stops at an error. The loop deletes
  the unreferenced keys one by one; the \<open>n\<close>th removal sees the context \<open>ctx (2 + n)\<close>.
\<close>

fun collect_loop :: "'b blob_store \<Rightarrow> ctxs \<Rightarrow> string list \<Rightarrow> nat \<Rightarrow> 'b \<Rightarrow> (aerr option \<times> nat) \<times> 'b" where
  "collect_loop blobs ctx [] deleted b = ((None, deleted), b)"
| "collect_loop blobs ctx (key # keys) deleted b =
     (case bs_Delete blobs (ctx (2 + deleted)) key b of
        (Inl err, b') \<Rightarrow> ((Some (WrapPre ''collect orphans'' err), deleted), b')
      | (Inr _, b') \<Rightarrow> collect_loop blobs ctx keys (Suc deleted) b')"

definition CollectOrphans :: "'s att_repo \<Rightarrow> 'b blob_store \<Rightarrow> ctxs \<Rightarrow> time \<Rightarrow> duration
    \<Rightarrow> 's \<times> 'b \<Rightarrow> (aerr option \<times> nat) \<times> ('s \<times> 'b)" where
  "CollectOrphans repo blobs ctx now minAge sb =
     (case sb of (s0, b0) \<Rightarrow>
      if minAge \<le> 0
      then ((Some (ainvalidInput ''orphan collection requires a positive minimum age''), 0), sb)
      else case bs_List blobs (ctx 0) b0 of
        (Inl err, b1) \<Rightarrow> ((Some (WrapPre ''collect orphans'' err), 0), (s0, b1))
      | (Inr refs, b1) \<Rightarrow>
      let candidates = map br_Key (filter (\<lambda>r. br_ModTime r < now - minAge) refs) in
      if candidates = [] then ((None, 0), (s0, b1))
      else case ar_UnreferencedKeys repo (ctx 1) candidates s0 of
        (Inl err, s1) \<Rightarrow> ((Some (WrapPre ''collect orphans'' err), 0), (s1, b1))
      | (Inr orphans, s1) \<Rightarrow>
          (case collect_loop blobs ctx orphans 0 b1 of (out, b2) \<Rightarrow> (out, (s1, b2))))"

end
