(* ===== verification/AttachSystem.thy ===== *)
theory AttachSystem
  imports AttachService
begin

text \<open>
  Attachments as requests and the orphan collector run side by side. The service holds no lock over its
  two stores: an upload writes the bytes and only then the row, a delete removes the row and only then the
  bytes, the collector lists, asks which keys no row references and deletes those, and in between anything else can
  happen. The theory cuts the operations at those points, composes the pieces in every order, and shows
  that no row is ever without its bytes.
\<close>

subsection \<open>The operations cut at their store accesses\<close>

text \<open>
  \<^verbatim>\<open>Put\<close> is one step here, at one moment. The code streams the bytes into the file of the new key, which no request can name before
  the row exists, so only the collector could see it half written; that the stream does not pause for longer than the minimum
  age is part of what \<^verbatim>\<open>CollectOrphans\<close> asks of its caller, and an assumption of this model.
\<close>

definition upload_put :: "att_lib \<Rightarrow> att_cfg \<Rightarrow> 's att_repo \<Rightarrow> 'b blob_store \<Rightarrow> ctxs \<Rightarrow> time
    \<Rightarrow> string + 8 word list \<Rightarrow> string + 8 word list \<Rightarrow> string \<Rightarrow> string \<Rightarrow> string \<Rightarrow> reader
    \<Rightarrow> (att_err, attachment, 's \<times> 'b) op" where
  "upload_put lib cfg repo blobs ctx now rnd1 rnd2 userID taskID declaredFilename r sb =
     (case sb of (s0, b0) \<Rightarrow>
      if \<not> aisValidID taskID then (Inl (Sentinel AErrTaskNotFound), sb)
      else case ar_TotalBytesForUser repo (ctx 0) userID s0 of
        (Inl err, s1) \<Rightarrow> (Inl (WrapPre ''upload attachment'' err), (s1, b0))
      | (Inr tot, s1) \<Rightarrow>
      if tot \<ge> ac_maxBytesPerUser cfg
      then (Inl (ainvalidInput (''attachment quota exceeded ('' @ Itoa tot @ ''/'' @
              Itoa (ac_maxBytesPerUser cfg) @ '' bytes used)'')), (s1, b0))
      else case ar_CountByTask repo (ctx 1) taskID userID s1 of
        (Inl err, s2) \<Rightarrow> (Inl (WrapPre ''upload attachment'' err), (s2, b0))
      | (Inr cnt, s2) \<Rightarrow>
      if cnt \<ge> maxAttachmentsPerTask
      then (Inl (ainvalidInput (''task already has '' @ Itoa cnt @ '' attachments (max '' @
              Itoa maxAttachmentsPerTask @ '')'')), (s2, b0))
      else case normalizeFilename lib declaredFilename of
        Inl err \<Rightarrow> (Inl err, (s2, b0))
      | Inr filename \<Rightarrow>
      (case read_head r of
        Inl err \<Rightarrow> (Inl (WrapPre ''upload attachment: read'' err), (s2, b0))
      | Inr head \<Rightarrow>
      let contentType = detectContentType lib head in
      if contentType \<notin> set allowedContentTypes
      then (Inl (ainvalidInput (''content type '' @ Quote (al_IsPrint lib) contentType @ '' is not accepted'')), (s2, b0))
      else case anewID rnd1 of
        Inl err \<Rightarrow> (Inl (WrapPre ''upload attachment'' err), (s2, b0))
      | Inr i \<Rightarrow>
      (case anewID rnd2 of
        Inl err \<Rightarrow> (Inl (WrapPre ''upload attachment'' err), (s2, b0))
      | Inr storageKey \<Rightarrow>
      (case bs_Put blobs (ctx 2) storageKey r (ac_maxBytes cfg) b0 of
        (Inl err, b1) \<Rightarrow>
          (Inl (if errors_Is err AErrTooLarge
                then ainvalidInput (''attachment must be at most '' @ Itoa (ac_maxBytes cfg) @ '' bytes'')
                else WrapPre ''upload attachment'' err), (s2, b1))
      | (Inr written, b1) \<Rightarrow>
          (Inr \<lparr>a_ID = i, a_TaskID = taskID, a_OriginalFilename = filename, a_StorageKey = storageKey,
                a_ContentType = contentType, a_SizeBytes = written, a_CreatedAt = now\<rparr>, (s2, b1))))))"

definition upload_record :: "'s att_repo \<Rightarrow> 'b blob_store \<Rightarrow> ctxs \<Rightarrow> string \<Rightarrow> attachment
    \<Rightarrow> (att_err, attachment, 's \<times> 'b) op" where
  "upload_record repo blobs ctx userID att sb =
     (case sb of (s2, b1) \<Rightarrow>
      case ar_Create repo (ctx 3) att userID s2 of
        (Inl err, s3) \<Rightarrow>
          (Inl (WrapPre ''upload attachment'' err), (s3, snd (bs_Delete blobs (ctx 4) (a_StorageKey att) b1)))
      | (Inr _, s3) \<Rightarrow> (Inr att, (s3, b1)))"

lemma Upload_halves:
  "Upload lib cfg repo blobs ctx now rnd1 rnd2 u t f r sb =
     (case upload_put lib cfg repo blobs ctx now rnd1 rnd2 u t f r sb of
        (Inl err, sb1) \<Rightarrow> (Inl err, sb1)
      | (Inr att, sb1) \<Rightarrow> upload_record repo blobs ctx u att sb1)"
  by (auto simp: Upload_def upload_put_def upload_record_def Let_def split: prod.split sum.split)

definition delete_row :: "'s att_repo \<Rightarrow> ctxs \<Rightarrow> string \<Rightarrow> string \<Rightarrow> (att_err, unit, 's) op" where
  "delete_row repo ctx userID storageKey s =
     (if \<not> aisValidID storageKey then (Inl (Sentinel AErrNotFound), s)
      else case ar_Delete repo (ctx 0) storageKey userID s of
        (Inl err, s1) \<Rightarrow> (Inl (WrapPre ''delete attachment'' err), s1)
      | (Inr _, s1) \<Rightarrow> (Inr (), s1))"

lemma DeleteAttachment_halves:
  "DeleteAttachment repo blobs ctx u k (s, b) =
     (case delete_row repo ctx u k s of
        (Inl err, s1) \<Rightarrow> (Inl err, (s1, b))
      | (Inr _, s1) \<Rightarrow> (Inr (), (s1, snd (bs_Delete blobs (ctx 1) k b))))"
  by (auto simp: DeleteAttachment_def delete_row_def split: prod.split sum.split)

definition sweep_list :: "'b blob_store \<Rightarrow> ctx_state \<Rightarrow> time \<Rightarrow> duration \<Rightarrow> (att_err, string list, 'b) op" where
  "sweep_list blobs c now minAge b =
     (case bs_List blobs c b of
        (Inl err, b1) \<Rightarrow> (Inl (WrapPre ''collect orphans'' err), b1)
      | (Inr refs, b1) \<Rightarrow> (Inr (map br_Key (filter (\<lambda>r. br_ModTime r < now - minAge) refs)), b1))"

definition sweep_ask :: "'s att_repo \<Rightarrow> ctx_state \<Rightarrow> string list \<Rightarrow> (att_err, string list, 's) op" where
  "sweep_ask repo c candidates s =
     (case ar_UnreferencedKeys repo c candidates s of
        (Inl err, s1) \<Rightarrow> (Inl (WrapPre ''collect orphans'' err), s1)
      | (Inr orphans, s1) \<Rightarrow> (Inr orphans, s1))"

lemma CollectOrphans_thirds:
  assumes "0 < minAge"
  shows "CollectOrphans repo blobs ctx now minAge (s, b) =
     (case sweep_list blobs (ctx 0) now minAge b of
        (Inl err, b1) \<Rightarrow> ((Some err, 0), (s, b1))
      | (Inr candidates, b1) \<Rightarrow>
          if candidates = [] then ((None, 0), (s, b1))
          else case sweep_ask repo (ctx 1) candidates s of
            (Inl err, s1) \<Rightarrow> ((Some err, 0), (s1, b1))
          | (Inr orphans, s1) \<Rightarrow> (case collect_loop blobs ctx orphans 0 b1 of (out, b2) \<Rightarrow> (out, (s1, b2))))"
  using assms by (auto simp: CollectOrphans_def sweep_list_def sweep_ask_def Let_def split: prod.split sum.split)

subsection \<open>The system\<close>

datatype sweep = Idle | Listed "string list" | Deleting "string list"

record att_sys =
  ay_repo :: att_mem
  ay_fs :: fs
  ay_pending :: "(string \<times> attachment \<times> time) list"
  ay_dying :: "string list"
  ay_sweep :: sweep

definition row_keys :: "att_sys \<Rightarrow> string set" where
  "row_keys s = a_StorageKey ` set (gomap_values (am_store (ay_repo s)))"

definition pending_keys :: "att_sys \<Rightarrow> string set" where
  "pending_keys s = (\<lambda>x. a_StorageKey (fst (snd x))) ` set (ay_pending s)"

fun sweep_keys :: "sweep \<Rightarrow> string set" where
  "sweep_keys Idle = {}"
| "sweep_keys (Listed ks) = set ks"
| "sweep_keys (Deleting ks) = set ks"

text \<open>A storage key that sixteen random bytes give: nobody has it.\<close>

definition fresh_key :: "att_sys \<Rightarrow> string \<Rightarrow> bool" where
  "fresh_key s k \<longleftrightarrow> fs_content (ay_fs s) k = None \<and>
     k \<notin> row_keys s \<union> pending_keys s \<union> set (ay_dying s) \<union> sweep_keys (ay_sweep s)"

text \<open>
  The steps. An upload in flight carries the time its bytes were written; its row is inserted while they
  are at most \<open>minAge\<close> old, the premise the collector's grace period is chosen for. \<open>put\<close> and \<open>recorded\<close> are the halves of an upload, \<open>unlink\<close> and \<open>reap\<close> those of a delete,
  \<open>list\<close>, \<open>ask\<close>, \<open>remove\<close> the collector's; \<open>cascade\<close> is what deleting tasks does to the rows
  (and to the answers about ownership), \<open>access\<close> a download, \<open>tick\<close> the passing of time. The system clock
  is the clock of the file system.
\<close>

inductive astep :: "att_lib \<Rightarrow> att_cfg \<Rightarrow> guard \<Rightarrow> (nat \<Rightarrow> bool) \<Rightarrow> duration \<Rightarrow> att_sys \<Rightarrow> att_sys \<Rightarrow> bool"
  for lib cfg g p minAge where
  put: "upload_put lib cfg attachMemory (fsBlobStore g p) ctx now r1 r2 u t f rd (ay_repo s, ay_fs s) = (Inr att, (m, b)) \<Longrightarrow>
     fresh_key s (a_StorageKey att) \<Longrightarrow>
     astep lib cfg g p minAge s (s\<lparr>ay_repo := m, ay_fs := b, ay_pending := (u, att, fs_now (ay_fs s)) # ay_pending s\<rparr>)"
| put_failed: "upload_put lib cfg attachMemory (fsBlobStore g p) ctx now r1 r2 u t f rd (ay_repo s, ay_fs s) = (Inl e, (m, b)) \<Longrightarrow>
     (\<And>k. anewID r2 = Inr k \<Longrightarrow> fresh_key s k) \<Longrightarrow>
     astep lib cfg g p minAge s (s\<lparr>ay_repo := m, ay_fs := b\<rparr>)"
| recorded: "(u, att, t0) \<in> set (ay_pending s) \<Longrightarrow> fs_now (ay_fs s) - t0 \<le> minAge \<Longrightarrow>
     upload_record attachMemory (fsBlobStore g p) ctx u att (ay_repo s, ay_fs s) = (r, (m, b)) \<Longrightarrow>
     astep lib cfg g p minAge s (s\<lparr>ay_repo := m, ay_fs := b, ay_pending := removeAll (u, att, t0) (ay_pending s)\<rparr>)"
| unlink: "delete_row attachMemory ctx u k (ay_repo s) = (Inr (), m) \<Longrightarrow>
     astep lib cfg g p minAge s (s\<lparr>ay_repo := m, ay_dying := k # ay_dying s\<rparr>)"
| reap: "k \<in> set (ay_dying s) \<Longrightarrow> bs_Delete (fsBlobStore g p) c k (ay_fs s) = (x, b) \<Longrightarrow>
     astep lib cfg g p minAge s (s\<lparr>ay_fs := b, ay_dying := removeAll k (ay_dying s)\<rparr>)"
| cascade: "astep lib cfg g p minAge s
     (s\<lparr>ay_repo := \<lparr>am_store = filter P (am_store (ay_repo s)), am_owns = owns\<rparr>\<rparr>)"
| list: "ay_sweep s = Idle \<Longrightarrow>
     sweep_list (fsBlobStore g p) c (fs_now (ay_fs s)) minAge (ay_fs s) = (Inr ks, b) \<Longrightarrow>
     astep lib cfg g p minAge s (s\<lparr>ay_fs := b, ay_sweep := Listed ks\<rparr>)"
| ask: "ay_sweep s = Listed ks \<Longrightarrow> sweep_ask attachMemory c ks (ay_repo s) = (Inr orphans, m) \<Longrightarrow>
     astep lib cfg g p minAge s (s\<lparr>ay_repo := m, ay_sweep := Deleting orphans\<rparr>)"
| remove: "ay_sweep s = Deleting (k # ks) \<Longrightarrow> bs_Delete (fsBlobStore g p) c k (ay_fs s) = (x, b) \<Longrightarrow>
     astep lib cfg g p minAge s (s\<lparr>ay_fs := b, ay_sweep := (if isl x then Idle else Deleting ks)\<rparr>)"
| finish: "astep lib cfg g p minAge s (s\<lparr>ay_sweep := Idle\<rparr>)"
| access: "bs_Open (fsBlobStore g p) c k (ay_fs s) = (o', b) \<Longrightarrow> astep lib cfg g p minAge s (s\<lparr>ay_fs := b\<rparr>)"
| tick: "fs_now (ay_fs s) \<le> t \<Longrightarrow> astep lib cfg g p minAge s (s\<lparr>ay_fs := (ay_fs s)\<lparr>fs_now := t\<rparr>\<rparr>)"

inductive areach :: "att_lib \<Rightarrow> att_cfg \<Rightarrow> guard \<Rightarrow> (nat \<Rightarrow> bool) \<Rightarrow> duration \<Rightarrow> att_sys \<Rightarrow> bool"
  for lib cfg g p minAge where
  init: "fs_dir b = [] \<Longrightarrow> areach lib cfg g p minAge
     \<lparr>ay_repo = NewAttachMemory owns, ay_fs = b, ay_pending = [], ay_dying = [], ay_sweep = Idle\<rparr>"
| step: "areach lib cfg g p minAge s \<Longrightarrow> astep lib cfg g p minAge s s' \<Longrightarrow> areach lib cfg g p minAge s'"

subsection \<open>No row without its bytes\<close>

definition stored :: "fs \<Rightarrow> attachment \<Rightarrow> bool" where
  "stored b a \<longleftrightarrow> (\<exists>d t. fs_content b (a_StorageKey a) = Some (d, t) \<and> a_SizeBytes a = int (length d))"

definition expired :: "duration \<Rightarrow> fs \<Rightarrow> string \<Rightarrow> bool" where
  "expired minAge b k \<longleftrightarrow> (\<forall>d t. fs_content b k = Some (d, t) \<longrightarrow> t < fs_now b - minAge)"

definition rows :: "att_sys \<Rightarrow> attachment set" where
  "rows s = set (gomap_values (am_store (ay_repo s)))"

definition pending_ok :: "duration \<Rightarrow> fs \<Rightarrow> string \<times> attachment \<times> time \<Rightarrow> bool" where
  "pending_ok minAge b x = (case x of (u, a, t0) \<Rightarrow> fs_now b - t0 \<le> minAge \<longrightarrow>
     (\<exists>d. fs_content b (a_StorageKey a) = Some (d, t0) \<and> a_SizeBytes a = int (length d)))"

abbreviation pkey :: "string \<times> attachment \<times> time \<Rightarrow> string" where
  "pkey x \<equiv> a_StorageKey (fst (snd x))"

text \<open>
  The invariant over the rows \<open>R\<close>, the uploads in flight \<open>P\<close>, the keys \<open>D\<close> of deletes in flight and
  the state \<open>W\<close> of the collector.
\<close>

definition sys_ok :: "duration \<Rightarrow> fs \<Rightarrow> attachment set \<Rightarrow> (string \<times> attachment \<times> time) set \<Rightarrow> string set \<Rightarrow> sweep \<Rightarrow> bool" where
  "sys_ok minAge b R P D W \<longleftrightarrow>
     (\<forall>a \<in> R. stored b a \<and> a_StorageKey a \<notin> D) \<and> (\<forall>x \<in> P. pending_ok minAge b x \<and> pkey x \<notin> D) \<and>
     (\<forall>a \<in> R. \<forall>x \<in> P. a_StorageKey a \<noteq> pkey x) \<and> inj_on pkey P \<and>
     (\<forall>k \<in> sweep_keys W. expired minAge b k) \<and>
     (\<forall>ks. W = Deleting ks \<longrightarrow> (\<forall>a \<in> R. a_StorageKey a \<notin> set ks))"

lemma stored_kept: "stored b a \<Longrightarrow> fs_content b' (a_StorageKey a) = fs_content b (a_StorageKey a) \<Longrightarrow> stored b' a"
  by (simp add: stored_def)

lemma expired_kept: "expired m b k \<Longrightarrow> fs_content b' k = fs_content b k \<Longrightarrow> fs_now b \<le> fs_now b' \<Longrightarrow> expired m b' k"
  by (fastforce simp: expired_def)

lemma expired_removed: "fs_content b' k = None \<Longrightarrow> expired m b' k"
  by (simp add: expired_def)

lemma pending_ok_kept:
  "pending_ok m b x \<Longrightarrow> fs_content b' (pkey x) = fs_content b (pkey x) \<Longrightarrow> fs_now b \<le> fs_now b' \<Longrightarrow> pending_ok m b' x"
  by (cases x) (auto simp: pending_ok_def)

text \<open>A timely upload in flight has its bytes, so its key is not among the expired ones.\<close>

lemma timely_stored:
  assumes "pending_ok m b (u, a, t0)" and "fs_now b - t0 \<le> m"
  shows "stored b a \<and> \<not> expired m b (a_StorageKey a)"
  using assms by (force simp: pending_ok_def stored_def expired_def)

lemma expired_pending:
  "pending_ok m b x \<Longrightarrow> expired m b (pkey x) \<Longrightarrow> fs_now b' = fs_now b \<Longrightarrow> pending_ok m b' x"
  by (cases x) (auto simp: pending_ok_def expired_def)

text \<open>The changes of the state, one by one.\<close>

lemma sys_ok_blobs:
  assumes "sys_ok m b R P D W" and "fs_now b \<le> fs_now b'"
    and "\<And>a. a \<in> R \<Longrightarrow> fs_content b' (a_StorageKey a) = fs_content b (a_StorageKey a)"
    and "\<And>x. x \<in> P \<Longrightarrow> pending_ok m b x \<Longrightarrow> pending_ok m b' x"
    and "\<And>k. k \<in> sweep_keys W \<Longrightarrow> fs_content b' k = fs_content b k \<or> fs_content b' k = None"
  shows "sys_ok m b' R P D W"
  using assms unfolding sys_ok_def by (meson stored_kept expired_kept expired_removed)

lemma sys_ok_one_key:
  assumes "sys_ok m b R P D W" and "fs_now b' = fs_now b"
    and "\<And>k'. k' \<noteq> k \<Longrightarrow> fs_content b' k' = fs_content b k'"
    and "\<And>a. a \<in> R \<Longrightarrow> a_StorageKey a \<noteq> k"
    and "\<And>x. x \<in> P \<Longrightarrow> pkey x \<noteq> k \<or> expired m b k"
    and "k \<notin> sweep_keys W \<or> fs_content b' k = None \<or> fs_content b' k = fs_content b k"
  shows "sys_ok m b' R P D W"
proof (rule sys_ok_blobs [OF assms(1)])
  fix x assume "x \<in> P" "pending_ok m b x"
  then show "pending_ok m b' x"
    using assms(2,3,5) expired_pending [of m b x b'] pending_ok_kept [of m b x b'] by (metis order_refl)
next
  show "fs_now b \<le> fs_now b'" using assms(2) by simp
next
  show "fs_content b' (a_StorageKey a) = fs_content b (a_StorageKey a)" if "a \<in> R" for a
    using assms(3,4) that by blast
next
  show "fs_content b' j = fs_content b j \<or> fs_content b' j = None" if "j \<in> sweep_keys W" for j
    using assms(3,6) that by metis
qed

lemma sys_ok_fewer:
  assumes "sys_ok m b R P D W" and "R' \<subseteq> R" and "P' \<subseteq> P" and "D' \<subseteq> D"
  shows "sys_ok m b R' P' D' W"
proof -
  have "inj_on pkey P'" using assms(1,3) by (auto simp: sys_ok_def intro: inj_on_subset)
  with assms show ?thesis unfolding sys_ok_def by blast
qed

lemma sys_ok_new_pending:
  assumes "sys_ok m b R P D W" and "pending_ok m b x" and "pkey x \<notin> D"
    and "\<And>a. a \<in> R \<Longrightarrow> a_StorageKey a \<noteq> pkey x" and "\<And>y. y \<in> P \<Longrightarrow> pkey y \<noteq> pkey x"
  shows "sys_ok m b R (insert x P) D W"
proof -
  have "pkey x \<notin> pkey ` P" using assms(5) unfolding image_iff by metis
  then have "inj_on pkey (insert x P)" using assms(1) unfolding sys_ok_def inj_on_insert by blast
  moreover have "\<forall>y \<in> insert x P. pending_ok m b y \<and> pkey y \<notin> D" "\<forall>a \<in> R. \<forall>y \<in> insert x P. a_StorageKey a \<noteq> pkey y"
    using assms unfolding sys_ok_def ball_simps by blast+
  ultimately show ?thesis using assms(1) unfolding sys_ok_def by blast
qed

lemma sys_ok_new_row:
  assumes "sys_ok m b R P D W" and "stored b a" and "\<not> expired m b (a_StorageKey a)" and "a_StorageKey a \<notin> D"
    and "\<And>x. x \<in> P \<Longrightarrow> pkey x \<noteq> a_StorageKey a"
  shows "sys_ok m b (insert a R) P D W"
proof -
  have "a_StorageKey a \<notin> set ks" if "W = Deleting ks" for ks
    using assms(1,3) that by (auto simp: sys_ok_def)
  with assms show ?thesis unfolding sys_ok_def by (intro conjI) (blast | metis insert_iff)+
qed

lemma sys_ok_new_dying:
  assumes "sys_ok m b R P D W" and "\<And>a. a \<in> R \<Longrightarrow> a_StorageKey a \<noteq> k" and "\<And>x. x \<in> P \<Longrightarrow> pkey x \<noteq> k"
  shows "sys_ok m b R P (insert k D) W"
  using assms unfolding sys_ok_def by auto

lemma sys_ok_sweep:
  assumes "sys_ok m b R P D W" and "\<And>k. k \<in> sweep_keys W' \<Longrightarrow> expired m b k"
    and "\<And>ks a. W' = Deleting ks \<Longrightarrow> a \<in> R \<Longrightarrow> a_StorageKey a \<notin> set ks"
  shows "sys_ok m b R P D W'"
  using assms unfolding sys_ok_def by auto

definition ainv :: "duration \<Rightarrow> att_sys \<Rightarrow> bool" where
  "ainv minAge s \<longleftrightarrow> fs_inv (ay_fs s) \<and> am_inv (ay_repo s) \<and>
     sys_ok minAge (ay_fs s) (rows s) (set (ay_pending s)) (set (ay_dying s)) (ay_sweep s)"

lemma row_keys_rows: "row_keys s = a_StorageKey ` rows s"
  by (simp add: row_keys_def rows_def)

lemma am_inv_filter: "am_inv m \<Longrightarrow> am_inv \<lparr>am_store = filter P (am_store m), am_owns = f\<rparr>"
  by (auto simp: am_inv_def distinct_map_filter)

lemma mem_reads_keep [simp]:
  "snd (am_TotalBytesForUser c u m) = m" "snd (am_CountByTask c t u m) = m"
  "snd (am_UnreferencedKeys c ks m) = m" "snd (am_FindByStorageKey c k u m) = m" "snd (am_FindByTask c t u m) = m"
  by (auto simp: am_TotalBytesForUser_def am_CountByTask_def am_UnreferencedKeys_def am_FindByStorageKey_def
      am_FindByTask_def Let_def split: option.split sum.split prod.split)

lemma upload_put_cases:
  assumes "upload_put lib cfg attachMemory blobs ctx now r1 r2 u t f rd (m0, b0) = (r, (m, b))"
  shows "m = m0 \<and> ((\<exists>e. r = Inl e \<and> b = b0) \<or>
     (\<exists>e k e'. r = Inl e \<and> anewID r2 = Inr k \<and> bs_Put blobs (ctx 2) k rd (ac_maxBytes cfg) b0 = (Inl e', b)) \<or>
     (\<exists>att. r = Inr att \<and> anewID r1 = Inr (a_ID att) \<and> anewID r2 = Inr (a_StorageKey att) \<and> aisValidID t \<and>
        bs_Put blobs (ctx 2) (a_StorageKey att) rd (ac_maxBytes cfg) b0 = (Inr (a_SizeBytes att), b) \<and>
        a_TaskID att = t \<and> a_ContentType att \<in> set allowedContentTypes \<and> a_CreatedAt att = now \<and>
        normalizeFilename lib f = Inr (a_OriginalFilename att)))"
proof -
  obtain x m1 where t: "am_TotalBytesForUser (ctx 0) u m0 = (x, m1)" by fastforce
  obtain y m2 where c: "am_CountByTask (ctx 1) t u m1 = (y, m2)" by fastforce
  have keep: "m1 = m0" "m2 = m1" by (metis mem_reads_keep(1) t snd_conv, metis mem_reads_keep(2) c snd_conv)
  show ?thesis using assms c unfolding upload_put_def
    by (auto simp: t keep Let_def split: sum.splits if_splits prod.splits)
qed

text \<open>The rows after a successful or failed insertion, and after a removal.\<close>

lemma am_Create_rows:
  assumes "am_Create c a u m = (r, m')"
  shows "(case r of Inl e \<Rightarrow> m' = m | Inr _ \<Rightarrow> am_store m' = am_store m @ [(a_ID a, a)])"
  using assms by (auto simp: am_Create_def set_update_new split: sum.splits if_splits)

lemma am_Delete_rows:
  assumes "am_inv m" and "am_Delete c k u m = (Inr (), m')"
  shows "k \<in> a_StorageKey ` set (gomap_values (am_store m)) \<and>
    set (gomap_values (am_store m')) = {a \<in> set (gomap_values (am_store m)). a_StorageKey a \<noteq> k}"
proof -
  from assms(2) obtain i a where f: "scan_key k (am_store m) = Some (i, a)"
    and m': "am_store m' = AList.delete i (am_store m)"
    by (auto simp: am_Delete_def split: option.splits prod.splits sum.splits if_splits)
  from scan_key_Some [OF f] have ia: "(i, a) \<in> set (am_store m)" "a_StorageKey a = k" by simp_all
  have uniq: "j = i \<and> x = a" if "(j, x) \<in> set (am_store m)" "a_StorageKey x = k" for j x
    using scan_key_unique [of "am_store m" j x] that f assms(1) by (simp add: am_inv_def)
  have same: "x = a" if "(i, x) \<in> set (am_store m)" for x
    using that ia(1) assms(1) by (auto simp: am_inv_def dest: eq_key_imp_eq_value)
  have "x \<in> snd ` set (AList.delete i (am_store m)) \<longleftrightarrow> x \<in> snd ` set (am_store m) \<and> a_StorageKey x \<noteq> k" for x
  proof
    assume "x \<in> snd ` set (AList.delete i (am_store m))"
    then obtain j where "(j, x) \<in> set (am_store m)" "j \<noteq> i" by (auto simp: set_AList_delete)
    with uniq show "x \<in> snd ` set (am_store m) \<and> a_StorageKey x \<noteq> k" by force
  next
    assume "x \<in> snd ` set (am_store m) \<and> a_StorageKey x \<noteq> k"
    then obtain j where j: "(j, x) \<in> set (am_store m)" "a_StorageKey x \<noteq> k" by auto
    with same ia(2) have "j \<noteq> i" by auto
    with j show "x \<in> snd ` set (AList.delete i (am_store m))" by (force simp: set_AList_delete)
  qed
  with ia show ?thesis by (auto simp: m' intro: rev_image_eqI)
qed


subsection \<open>Every step keeps the invariant\<close>

lemma ainv_parts:
  assumes "ainv m s"
  shows "fs_inv (ay_fs s)" "am_inv (ay_repo s)" "sys_ok m (ay_fs s) (rows s) (set (ay_pending s)) (set (ay_dying s)) (ay_sweep s)"
  using assms by (simp_all add: ainv_def)

lemma fresh_key_apart:
  assumes "fresh_key s k"
  shows "a \<in> rows s \<Longrightarrow> a_StorageKey a \<noteq> k" "x \<in> set (ay_pending s) \<Longrightarrow> pkey x \<noteq> k"
    "k \<notin> set (ay_dying s)" "k \<notin> sweep_keys (ay_sweep s)"
  using assms by (auto simp: fresh_key_def row_keys_rows pending_keys_def)

lemma ainv_put:
  assumes "ainv minAge s" and "0 \<le> ac_maxBytes cfg"
    and up: "upload_put lib cfg attachMemory (fsBlobStore g p) ctx now r1 r2 u t f rd (ay_repo s, ay_fs s) = (Inr att, (m, b))"
    and fresh: "fresh_key s (a_StorageKey att)"
  shows "ainv minAge (s\<lparr>ay_repo := m, ay_fs := b, ay_pending := (u, att, fs_now (ay_fs s)) # ay_pending s\<rparr>)"
proof -
  note inv = ainv_parts [OF assms(1)] and apart = fresh_key_apart [OF fresh]
  let ?k = "a_StorageKey att"
  from upload_put_cases [OF up] have m: "m = ay_repo s"
    and put: "fs_Put g (ctx 2) ?k rd (ac_maxBytes cfg) (ay_fs s) = (Inr (a_SizeBytes att), b)"
    by auto
  note b = fs_Put_ok [OF inv(1) assms(2) put]
  have "sys_ok minAge b (rows s) (set (ay_pending s)) (set (ay_dying s)) (ay_sweep s)"
    by (rule sys_ok_one_key [OF inv(3), where k = ?k]) (use b apart in auto)
  moreover have "pending_ok minAge b (u, att, fs_now (ay_fs s))" using b by (simp add: pending_ok_def)
  ultimately have "sys_ok minAge b (rows s) (insert (u, att, fs_now (ay_fs s)) (set (ay_pending s))) (set (ay_dying s)) (ay_sweep s)"
    by (rule sys_ok_new_pending) (use apart in auto)
  then show ?thesis using b inv m by (simp add: ainv_def rows_def)
qed

lemma ainv_put_failed:
  assumes "ainv minAge s"
    and up: "upload_put lib cfg attachMemory (fsBlobStore g p) ctx now r1 r2 u t f rd (ay_repo s, ay_fs s) = (Inl e, (m, b))"
    and fresh: "\<And>k. anewID r2 = Inr k \<Longrightarrow> fresh_key s k"
  shows "ainv minAge (s\<lparr>ay_repo := m, ay_fs := b\<rparr>)"
proof -
  note inv = ainv_parts [OF assms(1)]
  from upload_put_cases [OF up] have m: "m = ay_repo s"
    and "b = ay_fs s \<or> (\<exists>k e'. anewID r2 = Inr k \<and> fs_Put g (ctx 2) k rd (ac_maxBytes cfg) (ay_fs s) = (Inl e', b))"
    by auto
  then show ?thesis
  proof (elim disjE exE conjE)
    fix k e' assume k: "anewID r2 = Inr k" and put: "fs_Put g (ctx 2) k rd (ac_maxBytes cfg) (ay_fs s) = (Inl e', b)"
    note b = fs_Put_failed [OF inv(1) put] and apart = fresh_key_apart [OF fresh [OF k]]
    have "sys_ok minAge b (rows s) (set (ay_pending s)) (set (ay_dying s)) (ay_sweep s)"
      by (rule sys_ok_one_key [OF inv(3), where k = k]) (use b apart in \<open>auto simp: only_key_def\<close>)
    then show ?thesis using b inv m by (simp add: ainv_def rows_def only_key_def)
  qed (use inv m in \<open>simp add: ainv_def rows_def\<close>)
qed

text \<open>Removing a blob that no row has, and no upload in flight that is still timely.\<close>

lemma ainv_delete_blob:
  assumes "fs_inv b" and "sys_ok m b R P D W" and "bs_Delete (fsBlobStore g p) c k b = (x, b')"
    and "\<And>a. a \<in> R \<Longrightarrow> a_StorageKey a \<noteq> k" and "\<And>x. x \<in> P \<Longrightarrow> pkey x \<noteq> k \<or> expired m b k"
  shows "fs_inv b' \<and> sys_ok m b' R P D W"
proof -
  note b' = fs.delete_blob [OF assms(1,3)]
  have "sys_ok m b' R P D W"
    by (rule sys_ok_one_key [OF assms(2), where k = k]) (use b' assms(4,5) in auto)
  with b' show ?thesis by simp
qed

lemma ainv_recorded:
  assumes "ainv minAge s" and mem: "(u, att, t0) \<in> set (ay_pending s)" and timely: "fs_now (ay_fs s) - t0 \<le> minAge"
    and up: "upload_record attachMemory (fsBlobStore g p) ctx u att (ay_repo s, ay_fs s) = (r, (m, b))"
  shows "ainv minAge (s\<lparr>ay_repo := m, ay_fs := b, ay_pending := removeAll (u, att, t0) (ay_pending s)\<rparr>)"
proof -
  note inv = ainv_parts [OF assms(1)]
  let ?P = "set (ay_pending s) - {(u, att, t0)}" and ?k = "a_StorageKey att"
  have fewer: "sys_ok minAge (ay_fs s) (rows s) ?P (set (ay_dying s)) (ay_sweep s)"
    by (rule sys_ok_fewer [OF inv(3)]) auto
  have row: "a_StorageKey a \<noteq> ?k" if "a \<in> rows s" for a
    using inv(3) mem that by (fastforce simp: sys_ok_def)
  have other: "pkey x \<noteq> ?k" if "x \<in> ?P" for x
  proof -
    have "inj_on pkey (set (ay_pending s))" using inv(3) by (simp add: sys_ok_def)
    from inj_onD [OF this, of x "(u, att, t0)"] mem that show ?thesis by fastforce
  qed
  have pend: "pending_ok minAge (ay_fs s) (u, att, t0)" and dying: "?k \<notin> set (ay_dying s)"
    using inv(3) mem by (fastforce simp: sys_ok_def)+
  obtain rc m' where c: "am_Create (ctx 3) att u (ay_repo s) = (rc, m')" by fastforce
  note minv = am_Create_inv [OF inv(2) c] and crows = am_Create_rows [OF c]
  show ?thesis
  proof (cases rc)
    case (Inl e)
    with c crows up have m: "m = ay_repo s" and del: "b = snd (fs_Delete g (ctx 4) ?k (ay_fs s))"
      by (auto simp: upload_record_def)
    from del obtain x where "bs_Delete (fsBlobStore g p) (ctx 4) ?k (ay_fs s) = (x, b)" by (simp add: prod_eq_iff)
    from ainv_delete_blob [OF inv(1) fewer this] row other m inv(2) show ?thesis
      by (auto simp: ainv_def rows_def)
  next
    case (Inr un)
    with c up have m: "m = m'" "b = ay_fs s" by (auto simp: upload_record_def)
    have "sys_ok minAge (ay_fs s) (insert att (rows s)) ?P (set (ay_dying s)) (ay_sweep s)"
      using timely_stored [OF pend timely] dying other by (intro sys_ok_new_row [OF fewer]) auto
    moreover have "rows (s\<lparr>ay_repo := m', ay_fs := ay_fs s, ay_pending := removeAll (u, att, t0) (ay_pending s)\<rparr>) = insert att (rows s)"
      using crows Inr by (simp add: rows_def)
    ultimately show ?thesis using m minv inv(1) by (simp add: ainv_def)
  qed
qed


lemma ainv_unlink:
  assumes "ainv minAge s" and "delete_row attachMemory ctx u k (ay_repo s) = (Inr (), m)"
  shows "ainv minAge (s\<lparr>ay_repo := m, ay_dying := k # ay_dying s\<rparr>)"
proof -
  note inv = ainv_parts [OF assms(1)]
  from assms(2) have del: "am_Delete (ctx 0) k u (ay_repo s) = (Inr (), m)"
    by (auto simp: delete_row_def split: if_splits sum.splits prod.splits)
  note kept = am_Delete_rows [OF inv(2) del]
  then obtain a where a: "a \<in> rows s" "a_StorageKey a = k" by (auto simp: rows_def)
  let ?R = "{a \<in> rows s. a_StorageKey a \<noteq> k}"
  have "sys_ok minAge (ay_fs s) ?R (set (ay_pending s)) (set (ay_dying s)) (ay_sweep s)"
    by (rule sys_ok_fewer [OF inv(3)]) auto
  moreover have "pkey x \<noteq> k" if "x \<in> set (ay_pending s)" for x
    using inv(3) a that unfolding sys_ok_def by blast
  ultimately have "sys_ok minAge (ay_fs s) ?R (set (ay_pending s)) (insert k (set (ay_dying s))) (ay_sweep s)"
    by (intro sys_ok_new_dying) auto
  with kept inv am_Delete_inv [OF inv(2) del] show ?thesis by (simp add: ainv_def rows_def)
qed

lemma ainv_reap:
  assumes "ainv minAge s" and "k \<in> set (ay_dying s)" and "bs_Delete (fsBlobStore g p) c k (ay_fs s) = (x, b)"
  shows "ainv minAge (s\<lparr>ay_fs := b, ay_dying := removeAll k (ay_dying s)\<rparr>)"
proof -
  note inv = ainv_parts [OF assms(1)]
  have "sys_ok minAge (ay_fs s) (rows s) (set (ay_pending s)) (set (removeAll k (ay_dying s))) (ay_sweep s)"
    by (rule sys_ok_fewer [OF inv(3)]) auto
  moreover have "a_StorageKey a \<noteq> k" if "a \<in> rows s" for a
    using inv(3) assms(2) that unfolding sys_ok_def by blast
  moreover have "pkey x \<noteq> k" if "x \<in> set (ay_pending s)" for x
    using inv(3) assms(2) that unfolding sys_ok_def by blast
  ultimately have "fs_inv b \<and> sys_ok minAge b (rows s) (set (ay_pending s)) (set (removeAll k (ay_dying s))) (ay_sweep s)"
    using ainv_delete_blob [OF inv(1) _ assms(3)] by blast
  with inv(2) show ?thesis by (simp add: ainv_def rows_def)
qed

lemma ainv_cascade:
  assumes "ainv minAge s"
  shows "ainv minAge (s\<lparr>ay_repo := \<lparr>am_store = filter Q (am_store (ay_repo s)), am_owns = owns\<rparr>\<rparr>)"
proof -
  note inv = ainv_parts [OF assms(1)]
  have "sys_ok minAge (ay_fs s) (set (map snd (filter Q (am_store (ay_repo s))))) (set (ay_pending s)) (set (ay_dying s)) (ay_sweep s)"
    by (rule sys_ok_fewer [OF inv(3)]) (auto simp: rows_def)
  with inv am_inv_filter show ?thesis by (simp add: ainv_def rows_def)
qed

lemma ainv_list:
  assumes "ainv minAge s"
    and "sweep_list (fsBlobStore g p) c (fs_now (ay_fs s)) minAge (ay_fs s) = (Inr ks, b)"
  shows "ainv minAge (s\<lparr>ay_fs := b, ay_sweep := Listed ks\<rparr>)"
proof -
  note inv = ainv_parts [OF assms(1)]
  from assms(2) obtain refs where l: "bs_List (fsBlobStore g p) c (ay_fs s) = (Inr refs, b)"
    and ks: "ks = map br_Key (filter (\<lambda>r. br_ModTime r < fs_now (ay_fs s) - minAge) refs)"
    by (auto simp: sweep_list_def split: sum.splits prod.splits)
  note b = fs.list_blobs [OF inv(1) l]
  have "expired minAge b k" if "k \<in> set ks" for k
  proof -
    from that ks obtain r where r: "r \<in> set refs" "br_Key r = k" "br_ModTime r < fs_now (ay_fs s) - minAge" by auto
    have "r = \<lparr>br_Key = br_Key r, br_ModTime = br_ModTime r\<rparr>" by (cases r) simp
    with r b obtain d where "fs_content b k = Some (d, br_ModTime r)" by metis
    with b r(3) show ?thesis by (simp add: expired_def)
  qed
  moreover have kept: "sys_ok minAge b (rows s) (set (ay_pending s)) (set (ay_dying s)) (ay_sweep s)"
    by (rule sys_ok_blobs [OF inv(3)]) (use b pending_ok_kept in auto)
  ultimately have "sys_ok minAge b (rows s) (set (ay_pending s)) (set (ay_dying s)) (Listed ks)"
    by (intro sys_ok_sweep [OF kept]) auto
  with b inv(2) show ?thesis by (simp add: ainv_def rows_def)
qed

lemma ainv_ask:
  assumes "ainv minAge s" and "ay_sweep s = Listed ks" and "sweep_ask attachMemory c ks (ay_repo s) = (Inr orphans, m)"
  shows "ainv minAge (s\<lparr>ay_repo := m, ay_sweep := Deleting orphans\<rparr>)"
proof -
  note inv = ainv_parts [OF assms(1)]
  from assms(3) have m: "m = ay_repo s"
    and "orphans = filter (\<lambda>k. k \<notin> set (map a_StorageKey (gomap_values (am_store (ay_repo s))))) ks"
    by (auto simp: sweep_ask_def am_UnreferencedKeys_def Let_def split: sum.splits option.splits)
  then have o: "set orphans = set ks - a_StorageKey ` rows s" by (simp add: rows_def image_image set_diff_eq)
  have "sys_ok minAge (ay_fs s) (rows s) (set (ay_pending s)) (set (ay_dying s)) (Deleting orphans)"
    using inv(3) assms(2) o by (intro sys_ok_sweep [OF inv(3)]) (auto simp: sys_ok_def)
  with inv m show ?thesis by (simp add: ainv_def rows_def)
qed

lemma ainv_remove:
  assumes "ainv minAge s" and "ay_sweep s = Deleting (k # ks)" and "bs_Delete (fsBlobStore g p) c k (ay_fs s) = (x, b)"
  shows "ainv minAge (s\<lparr>ay_fs := b, ay_sweep := (if isl x then Idle else Deleting ks)\<rparr>)"
proof -
  note inv = ainv_parts [OF assms(1)]
  have k: "expired minAge (ay_fs s) k" "\<And>a. a \<in> rows s \<Longrightarrow> a_StorageKey a \<notin> set (k # ks)"
    using inv(3) assms(2) unfolding sys_ok_def by (simp, blast)
  have b: "fs_inv b \<and> sys_ok minAge b (rows s) (set (ay_pending s)) (set (ay_dying s)) (ay_sweep s)"
    by (rule ainv_delete_blob [OF inv(1,3) assms(3)]) (use k in auto)
  then have "sys_ok minAge b (rows s) (set (ay_pending s)) (set (ay_dying s)) (if isl x then Idle else Deleting ks)"
  proof (rule sys_ok_sweep [OF conjunct2])
    have "\<forall>j \<in> set (k # ks). expired minAge b j" using b assms(2) by (simp add: sys_ok_def)
    then show "expired minAge b j" if "j \<in> sweep_keys (if isl x then Idle else Deleting ks)" for j
      using that by (simp split: if_splits)
  qed (use k in \<open>simp_all split: if_splits\<close>)
  with b inv(2) show ?thesis by (simp add: ainv_def rows_def)
qed

lemma ainv_finish: "ainv minAge s \<Longrightarrow> ainv minAge (s\<lparr>ay_sweep := Idle\<rparr>)"
  by (auto simp: ainv_def rows_def intro: sys_ok_sweep)

lemma ainv_access:
  assumes "ainv minAge s" and "bs_Open (fsBlobStore g p) c k (ay_fs s) = (ro, b)"
  shows "ainv minAge (s\<lparr>ay_fs := b\<rparr>)"
proof -
  note inv = ainv_parts [OF assms(1)] and b = fs.open_blob [OF ainv_parts(1) [OF assms(1)] assms(2)]
  have "sys_ok minAge b (rows s) (set (ay_pending s)) (set (ay_dying s)) (ay_sweep s)"
    by (rule sys_ok_blobs [OF inv(3)]) (use b pending_ok_kept in auto)
  with b inv(2) show ?thesis by (simp add: ainv_def rows_def)
qed

lemma ainv_tick:
  assumes "ainv minAge s" and "fs_now (ay_fs s) \<le> t"
  shows "ainv minAge (s\<lparr>ay_fs := (ay_fs s)\<lparr>fs_now := t\<rparr>\<rparr>)"
proof -
  note inv = ainv_parts [OF assms(1)]
  have same: "fs_content ((ay_fs s)\<lparr>fs_now := t\<rparr>) = fs_content (ay_fs s)" by (rule fs_content_dir) simp
  have "sys_ok minAge ((ay_fs s)\<lparr>fs_now := t\<rparr>) (rows s) (set (ay_pending s)) (set (ay_dying s)) (ay_sweep s)"
    by (rule sys_ok_blobs [OF inv(3)]) (use same assms(2) pending_ok_kept in auto)
  with inv show ?thesis by (simp add: ainv_def rows_def)
qed

lemmas ainv_steps = ainv_put ainv_put_failed ainv_recorded ainv_unlink ainv_reap ainv_cascade ainv_list ainv_ask
  ainv_remove ainv_finish ainv_access ainv_tick

lemma astep_ainv: "astep lib cfg g p minAge s s' \<Longrightarrow> 0 \<le> ac_maxBytes cfg \<Longrightarrow> ainv minAge s \<Longrightarrow> ainv minAge s'"
  by (induction rule: astep.induct) (rule ainv_steps; assumption)+

lemma areach_ainv: "areach lib cfg g p minAge s \<Longrightarrow> 0 \<le> ac_maxBytes cfg \<Longrightarrow> ainv minAge s"
proof (induction rule: areach.induct)
  case (init b owns)
  then show ?case by (simp add: ainv_def rows_def NewAttachMemory_def am_inv_def sys_ok_def)
next
  case (step s s')
  then show ?case using astep_ainv by blast
qed

end
