(* ===== verification/AttachGuarantees.thy ===== *)
theory AttachGuarantees
  imports AttachSystem TaskCalls
begin

text \<open>
  What the attachment component promises its callers: bytes and row stay together under any interleaving, a
  download returns what was uploaded and only to the owner of the task, and the collector over the in-memory
  repository removes the files no row references, also those whose name is no storage key.
\<close>

lemma anewID_newID: "anewID (Inr b) = Inr i \<longleftrightarrow> newID (Inr b) = Inr i"
  by (simp add: anewID_def newID_def Let_def)

lemma aisValidID_eq: "aisValidID = isValidID"
  by (simp add: aisValidID_def isValidID_def fun_eq_iff)

lemma anewID_valid: "length b = 16 \<Longrightarrow> anewID (Inr b) = Inr i \<Longrightarrow> aisValidID i"
  using newID_valid_canon [of b i] by (simp add: anewID_newID aisValidID_eq)

subsection \<open>Downloads\<close>

lemma fs_Open_hit:
  assumes "fs_content b k = Some (d, t)" and "fs_faults b (fs_calls b) = None" and "gd_admits g k"
  shows "fst (fs_Open g Live k b) = Inr d"
  using assms by (auto simp: fs_Open_def syscall_def fs_content_Some simp del: map_of_eq_Some_iff)

lemma Download_row:
  assumes "am_inv m" and "a \<in> set (gomap_values (am_store m))" and "am_owns m Live (a_TaskID a) u = Inr True"
    and "aisValidID (a_StorageKey a)"
    and "fs_content b (a_StorageKey a) = Some (d, t)" and "fs_faults b (fs_calls b) = None" and "gd_admits g (a_StorageKey a)"
  shows "fst (Download attachMemory (fsBlobStore g p) live u (a_StorageKey a) (m, b)) = Inr (a, d)"
proof -
  from assms(2) obtain i where "(i, a) \<in> set (am_store m)" by auto
  with assms(1) have "scan_key (a_StorageKey a) (am_store m) = Some (i, a)" by (intro scan_key_unique) (simp_all add: am_inv_def)
  then have "am_FindByStorageKey Live (a_StorageKey a) u m = (Inr a, m)" by (simp add: am_FindByStorageKey_def assms(3))
  moreover obtain b' where "fs_Open g Live (a_StorageKey a) b = (Inr d, b')"
    using fs_Open_hit [OF assms(5-7)] by (cases "fs_Open g Live (a_StorageKey a) b") auto
  ultimately show ?thesis using assms(4) by (simp add: Download_def)
qed

lemma Download_stranger:
  assumes "am_inv m" and "a \<in> set (gomap_values (am_store m))" and "am_owns m Live (a_TaskID a) v = Inr False"
  shows "\<exists>e. Download attachMemory blobs live v (a_StorageKey a) (m, b) = (Inl e, (m, b)) \<and> errors_Is e AErrNotFound"
proof -
  from assms(2) obtain i where "(i, a) \<in> set (am_store m)" by auto
  with assms(1) have "scan_key (a_StorageKey a) (am_store m) = Some (i, a)" by (intro scan_key_unique) (simp_all add: am_inv_def)
  then have "am_FindByStorageKey Live (a_StorageKey a) v m = (Inl (Sentinel AErrNotFound), m)"
    by (simp add: am_FindByStorageKey_def assms(3))
  then show ?thesis by (simp add: Download_def)
qed

text \<open>
  C20. No row without its bytes. In every state that uploads, deletes, task deletions, downloads and sweeps
  of the collector reach together, in any interleaving and under any failing system calls, every
  attachment row has its file and the file has exactly the recorded length. So, as long as the next system call does
  not fail, the owner of its task can download it.
\<close>

theorem no_row_without_its_bytes:
  assumes "areach lib cfg g p minAge s" and "0 \<le> ac_maxBytes cfg" and "a \<in> rows s"
  shows "\<exists>d t. fs_content (ay_fs s) (a_StorageKey a) = Some (d, t) \<and> a_SizeBytes a = int (length d) \<and>
    (\<forall>u. am_owns (ay_repo s) Live (a_TaskID a) u = Inr True \<and> aisValidID (a_StorageKey a) \<and>
       gd_admits g (a_StorageKey a) \<and> fs_faults (ay_fs s) (fs_calls (ay_fs s)) = None \<longrightarrow>
       fst (Download attachMemory (fsBlobStore g p) live u (a_StorageKey a) (ay_repo s, ay_fs s)) = Inr (a, d))"
proof -
  note inv = ainv_parts [OF areach_ainv [OF assms(1,2)]]
  from inv(3) assms(3) have "stored (ay_fs s) a" by (simp add: sys_ok_def)
  then obtain d t where d: "fs_content (ay_fs s) (a_StorageKey a) = Some (d, t)" "a_SizeBytes a = int (length d)"
    by (auto simp: stored_def)
  have row: "a \<in> set (gomap_values (am_store (ay_repo s)))" using assms(3) by (simp only: rows_def)
  from d show ?thesis
    by (intro exI [of _ d] exI [of _ t]) (auto intro!: Download_row [OF inv(2) row])
qed


subsection \<open>Upload and download\<close>

lemma fs_Put_admitted: "fs_Put g c k r m b = (Inr n, b') \<Longrightarrow> gd_admits g k"
  by (auto simp: fs_Put_def Let_def split: option.splits prod.splits if_splits)

lemma am_Create_ok:
  assumes "am_Create c a u m = (Inr un, m')"
  shows "am_owns m c (a_TaskID a) u = Inr True \<and> am_owns m' = am_owns m \<and> am_store m' = am_store m @ [(a_ID a, a)]"
  using assms by (auto simp: am_Create_def set_update_new split: sum.splits if_splits)

lemma Upload_ok:
  assumes "fs_inv b" and "0 \<le> ac_maxBytes cfg"
    and up: "Upload lib cfg attachMemory (fsBlobStore g p) ctx now r1 r2 u t f rd (m, b) = (Inr att, (m', b'))"
  shows "anewID r2 = Inr (a_StorageKey att) \<and> a_TaskID att = t \<and> a_ContentType att \<in> set allowedContentTypes \<and>
    normalizeFilename lib f = Inr (a_OriginalFilename att) \<and> gd_admits g (a_StorageKey att) \<and>
    a_SizeBytes att = int (length (rd_bytes rd)) \<and> a_SizeBytes att \<le> ac_maxBytes cfg \<and>
    am_Create (ctx 3) att u m = (Inr (), m') \<and>
    fs_content b' = (fs_content b)(a_StorageKey att \<mapsto> (rd_bytes rd, fs_now b))"
proof -
  obtain r m1 b1 where p: "upload_put lib cfg attachMemory (fsBlobStore g p) ctx now r1 r2 u t f rd (m, b) = (r, (m1, b1))"
    by (metis surj_pair)
  from up p obtain a where r: "r = Inr a" "upload_record attachMemory (fsBlobStore g p) ctx u a (m1, b1) = (Inr att, (m', b'))"
    by (auto simp: Upload_halves split: sum.splits)
  then have c: "a = att" "b1 = b'" "am_Create (ctx 3) att u m1 = (Inr (), m')"
    by (auto simp: upload_record_def split: prod.splits sum.splits)
  from upload_put_cases [OF p] r(1) c have
    q: "m1 = m" "anewID r2 = Inr (a_StorageKey att)" "a_TaskID att = t" "a_ContentType att \<in> set allowedContentTypes"
      "normalizeFilename lib f = Inr (a_OriginalFilename att)"
      "fs_Put g (ctx 2) (a_StorageKey att) rd (ac_maxBytes cfg) b = (Inr (a_SizeBytes att), b')" by auto
  from fs_Put_ok [OF assms(1,2) q(6)] fs_Put_admitted [OF q(6)] q c show ?thesis by auto
qed

text \<open>
  What was uploaded is what is downloaded. After an upload that answered with an attachment, its owner
  downloads exactly the bytes of the request (as long as the next system call does not fail) with the recorded metadata; these are
  at most the configured maximum, of an accepted type and under the normalised name. A user who does not own the task gets \<^verbatim>\<open>ErrNotFound\<close>
  and nothing changes.
\<close>

theorem upload_download_roundtrip:
  assumes "am_inv m" and "fs_inv b" and "0 \<le> ac_maxBytes cfg" and "length rnd2 = 16"
    and up: "Upload lib cfg attachMemory (fsBlobStore g p) live now r1 (Inr rnd2) u t f rd (m, b) = (Inr att, (m', b'))"
    and nofault: "fs_faults b' (fs_calls b') = None"
  shows "fst (Download attachMemory (fsBlobStore g p) live u (a_StorageKey att) (m', b')) = Inr (att, rd_bytes rd) \<and>
    a_SizeBytes att = int (length (rd_bytes rd)) \<and> a_SizeBytes att \<le> ac_maxBytes cfg \<and>
    a_ContentType att \<in> set allowedContentTypes \<and> normalizeFilename lib f = Inr (a_OriginalFilename att) \<and>
    (\<forall>v. am_owns m' Live (a_TaskID att) v = Inr False \<longrightarrow>
       (\<exists>e. Download attachMemory (fsBlobStore g p) live v (a_StorageKey att) (m', b') = (Inl e, (m', b')) \<and> errors_Is e AErrNotFound))"
proof -
  note ok = Upload_ok [OF assms(2,3) up]
  from ok have c: "am_Create Live att u m = (Inr (), m')" by simp
  note inv' = am_Create_inv [OF assms(1) c] and cr = am_Create_ok [OF c]
  have row: "att \<in> set (gomap_values (am_store m'))" using cr by simp
  have "aisValidID (a_StorageKey att)" using anewID_valid [OF assms(4)] ok by simp
  with ok cr have "fst (Download attachMemory (fsBlobStore g p) live u (a_StorageKey att) (m', b')) = Inr (att, rd_bytes rd)"
    by (intro Download_row [OF inv' row _ _ _ nofault]) auto
  with ok Download_stranger [OF inv' row] show ?thesis by (intro conjI allI impI) simp_all
qed

subsection \<open>The collector\<close>

definition fs_clean :: "fs \<Rightarrow> bool" where
  "fs_clean b \<longleftrightarrow> fs_inv b \<and> (\<forall>n. fs_faults b n = None)"

lemma syscall_clean:
  assumes "fs_clean b"
  obtains b' where "syscall b = (None, b')" "fs_clean b'" "fs_dir b' = fs_dir b" "fs_now b' = fs_now b" "fs_content b' = fs_content b"
proof -
  obtain b' where s: "syscall b = (None, b')" and "fs_faults b' = fs_faults b"
    using assms by (simp add: syscall_def fs_clean_def)
  with syscall_fs [OF s] assms that show ?thesis by (simp add: fs_clean_def)
qed

text \<open>Removing a blob without faults: afterwards it is not there, whether it was before or not.\<close>

lemma fs_Delete_clean:
  assumes "fs_clean b" and "gd_admits g k"
  shows "\<exists>b'. fs_Delete g Live k b = (Inr (), b') \<and> fs_clean b' \<and> fs_now b' = fs_now b \<and> fs_content b' = (fs_content b)(k := None)"
proof -
  obtain b1 where 1: "syscall b = (None, b1)" "fs_clean b1" "fs_dir b1 = fs_dir b" "fs_now b1 = fs_now b" "fs_content b1 = fs_content b"
    using syscall_clean [OF assms(1)] by blast
  obtain b2 where 2: "syscall b1 = (None, b2)" "fs_clean b2" "fs_dir b2 = fs_dir b1" "fs_now b2 = fs_now b1" "fs_content b2 = fs_content b1"
    using syscall_clean [OF 1(2)] by blast
  show ?thesis
  proof (cases "map_of (fs_dir b) k = None")
    case True
    then have "fs_content b k = None" by (simp add: fs_content_def)
    then have "fs_content b1 = (fs_content b)(k := None)" using 1(5) by (simp add: fun_upd_idem)
    moreover have "fs_Delete g Live k b = (Inr (), b1)" using True 1 by (simp add: fs_Delete_def fs_remove_def)
    ultimately show ?thesis using 1(2,4) by blast
  next
    case False
    let ?b = "b2\<lparr>fs_dir := AList.delete k (fs_dir b2)\<rparr>"
    have "fs_content ?b = (fs_content b)(k := None)" using fs_content_delete [of ?b k b2] 1 2 by simp
    moreover have "fs_Delete g Live k b = (Inr (), ?b)"
      using False by (auto simp: fs_Delete_def fs_remove_def 1(1,3) 2(1) assms(2))
    moreover have "fs_clean ?b" "fs_now ?b = fs_now b" using 1 2 by (simp_all add: fs_clean_def)
    ultimately show ?thesis by blast
  qed
qed

lemma list_loop_clean:
  "fs_clean b \<Longrightarrow> \<exists>b'. list_loop p es refs b = (Inr (refs @ file_refs es), b') \<and> fs_clean b'"
proof (induction p es refs b rule: list_loop.induct)
  case (3 p name data t rest refs b)
  obtain b1 where 1: "syscall b = (None, b1)" "fs_clean b1" using syscall_clean [OF 3(2)] by blast
  from 3(1) [OF 1(1) [symmetric] refl 1(2)] 1 show ?case by simp
qed simp_all

lemma collect_loop_clean:
  assumes "fs_clean b" and "distinct ks"
    and "\<And>k. k \<in> set ks \<Longrightarrow> gd_admits g k \<and> fs_content b k \<noteq> None"
  shows "\<exists>b'. collect_loop (fsBlobStore g p) live ks n b = ((None, n + length ks), b') \<and>
    fs_content b' = (\<lambda>k. if k \<in> set ks then None else fs_content b k)"
  using assms
proof (induction ks arbitrary: n b)
  case (Cons k ks)
  obtain b1 where 1: "fs_Delete g Live k b = (Inr (), b1)" "fs_clean b1" "fs_content b1 = (fs_content b)(k := None)"
    using fs_Delete_clean [OF Cons.prems(1)] Cons.prems(3) by (metis list.set_intros(1))
  have "\<exists>b'. collect_loop (fsBlobStore g p) live ks (Suc n) b1 = ((None, Suc n + length ks), b') \<and>
      fs_content b' = (\<lambda>k. if k \<in> set ks then None else fs_content b1 k)"
    using Cons.prems(2,3) 1(2,3) by (intro Cons.IH) auto
  with 1 show ?case by (auto simp: fun_eq_iff)
qed simp

text \<open>The keys a pass is about: the blobs older than the limit that no row has.\<close>

definition orphan_keys :: "att_mem \<Rightarrow> fs \<Rightarrow> time \<Rightarrow> duration \<Rightarrow> string set" where
  "orphan_keys m b now minAge =
     {k. \<exists>d t. fs_content b k = Some (d, t) \<and> t < now - minAge \<and> k \<notin> a_StorageKey ` set (gomap_values (am_store m))}"

text \<open>The names old enough for a pass, each once.\<close>

definition old_names :: "fs \<Rightarrow> time \<Rightarrow> duration \<Rightarrow> string list" where
  "old_names b now minAge = map br_Key (filter (\<lambda>r. br_ModTime r < now - minAge) (file_refs (fs_dir b)))"

lemma old_names:
  assumes "fs_inv b"
  shows "distinct (old_names b now minAge)"
    and "set (old_names b now minAge) = {k. \<exists>d t. fs_content b k = Some (d, t) \<and> t < now - minAge}"
proof -
  let ?refs = "file_refs (fs_dir b)"
  have "distinct (map br_Key ?refs)" using file_refs_distinct [of "fs_dir b"] assms by simp
  then show "distinct (old_names b now minAge)" unfolding old_names_def by (rule distinct_map_filter)
  have "r = \<lparr>br_Key = br_Key r, br_ModTime = br_ModTime r\<rparr>" for r :: blob_ref by (cases r) simp
  then have "(\<exists>r \<in> set ?refs. br_Key r = k \<and> br_ModTime r < now - minAge) \<longleftrightarrow>
      (\<exists>t. \<lparr>br_Key = k, br_ModTime = t\<rparr> \<in> set ?refs \<and> t < now - minAge)" for k by (metis blob_ref.select_convs)
  then have "(\<exists>r \<in> set ?refs. br_Key r = k \<and> br_ModTime r < now - minAge) \<longleftrightarrow> (\<exists>d t. fs_content b k = Some (d, t) \<and> t < now - minAge)" for k
    using file_refs_content [OF assms] by auto
  moreover have "set (old_names b now minAge) = {k. \<exists>r \<in> set ?refs. br_Key r = k \<and> br_ModTime r < now - minAge}"
    unfolding old_names_def by auto
  ultimately show "set (old_names b now minAge) = {k. \<exists>d t. fs_content b k = Some (d, t) \<and> t < now - minAge}" by simp
qed

text \<open>A pass without faults, over any repository that answers with some of the names it is asked about.\<close>

lemma sweep_over:
  assumes "fs_clean b" and "0 < minAge"
    and ask: "ar_UnreferencedKeys repo Live (old_names b now minAge) s = (Inr (filter P (old_names b now minAge)), s')"
    and "\<And>k. fs_content b k \<noteq> None \<Longrightarrow> P k \<Longrightarrow> gd_admits g k"
  defines "gone \<equiv> {k. P k \<and> (\<exists>d t. fs_content b k = Some (d, t) \<and> t < now - minAge)}"
  shows "\<exists>b'. CollectOrphans repo (fsBlobStore g p) live now minAge (s, b) =
      ((None, card gone), (if old_names b now minAge = [] then s else s', b')) \<and>
    fs_content b' = (\<lambda>k. if k \<in> gone then None else fs_content b k)"
proof -
  have inv: "fs_inv b" using assms(1) by (simp add: fs_clean_def)
  let ?cands = "old_names b now minAge"
  let ?ks = "filter P ?cands"
  obtain b1 where 1: "syscall b = (None, b1)" "fs_clean b1" "fs_dir b1 = fs_dir b" "fs_content b1 = fs_content b"
    using syscall_clean [OF assms(1)] by blast
  obtain b2 where 2: "list_loop p (fs_dir b) [] b1 = (Inr (file_refs (fs_dir b)), b2)" "fs_clean b2"
    using list_loop_clean [OF 1(2), of p "fs_dir b" "[]"] by auto
  have same: "fs_content b2 = fs_content b" using list_loop_fs [OF 2(1)] 1(3,4) fs_content_dir [of b2 b] by simp
  have orphans: "distinct ?ks" "set ?ks = gone" using old_names [OF inv, of now minAge] by (auto simp: gone_def)
  then have len: "length ?ks = card gone" using distinct_card by metis
  have "gd_admits g k \<and> fs_content b2 k \<noteq> None" if "k \<in> set ?ks" for k
  proof -
    from that have "k \<in> gone" unfolding orphans(2) .
    then have "P k" "fs_content b k \<noteq> None" by (auto simp: gone_def)
    with assms(4) same show ?thesis by simp
  qed
  then obtain b3 where 3: "collect_loop (fsBlobStore g p) live ?ks 0 b2 = ((None, length ?ks), b3)"
    "fs_content b3 = (\<lambda>k. if k \<in> set ?ks then None else fs_content b2 k)"
    using collect_loop_clean [OF 2(2) orphans(1), of g p 0] by auto
  have lst: "sweep_list (fsBlobStore g p) Live now minAge b = (Inr ?cands, b2)"
    using 1 2 by (simp add: sweep_list_def fs_List_def old_names_def)
  have ask': "sweep_ask repo Live ?cands s = (Inr ?ks, s')" using ask by (simp add: sweep_ask_def)
  show ?thesis
  proof (cases "?cands = []")
    case True
    then have "gone = {}" using orphans(2) by simp
    with True lst same show ?thesis by (auto simp: CollectOrphans_thirds [OF assms(2)])
  next
    case False
    have "fs_content b3 = (\<lambda>k. if k \<in> gone then None else fs_content b k)" unfolding 3(2) same orphans(2) ..
    with False lst ask' 3(1) len show ?thesis by (simp add: CollectOrphans_thirds [OF assms(2)])
  qed
qed

text \<open>
  Over the in-memory repository a pass takes every old file no row references, also one that is no storage key: that repository reports such
  a name as unreferenced, although the documentation of \<^verbatim>\<open>CollectOrphans\<close> says that no repository does.
\<close>

theorem memory_sweep_takes_foreign_files:
  assumes "fs_clean b" and "0 < minAge" and "\<And>k. fs_content b k \<noteq> None \<Longrightarrow> gd_admits g k"
  shows "\<exists>b'. CollectOrphans attachMemory (fsBlobStore g p) live now minAge (m, b) =
      ((None, card (orphan_keys m b now minAge)), (m, b')) \<and>
    fs_content b' = (\<lambda>k. if k \<in> orphan_keys m b now minAge then None else fs_content b k)"
proof -
  let ?P = "\<lambda>k. k \<notin> a_StorageKey ` set (gomap_values (am_store m))"
  have ask: "ar_UnreferencedKeys attachMemory Live (old_names b now minAge) m = (Inr (filter ?P (old_names b now minAge)), m)"
    by (simp add: am_UnreferencedKeys_def Let_def image_image)
  have "orphan_keys m b now minAge = {k. ?P k \<and> (\<exists>d t. fs_content b k = Some (d, t) \<and> t < now - minAge)}"
    by (auto simp: orphan_keys_def)
  then show ?thesis using sweep_over [OF assms(1,2) ask assms(3), of p] by simp
qed


subsection \<open>A concrete run\<close>

definition demo_att_lib :: att_lib where
  "demo_att_lib = \<lparr>al_DetectContentType = (\<lambda>_. ''text/plain; charset=utf-8''), al_PlainText = TrimSpace,
     al_lower = (\<lambda>c. [char_of c]), al_IsPrint = (\<lambda>_. True)\<rparr>"

definition demo_att_cfg :: att_cfg where
  "demo_att_cfg = \<lparr>ac_maxBytes = 1000, ac_maxBytesPerUser = 5000\<rparr>"

definition demo_guard :: guard where
  "demo_guard = \<lparr>gd_admits = (\<lambda>_. True), gd_excl = True\<rparr>"

definition demo_fs :: "(string, fs_entry) gomap \<Rightarrow> nat \<Rightarrow> time \<Rightarrow> fs" where
  "demo_fs files calls now = \<lparr>fs_dir = files, fs_faults = (\<lambda>_. None), fs_calls = calls, fs_now = now\<rparr>"

definition demo_owns :: "ctx_state \<Rightarrow> string \<Rightarrow> string \<Rightarrow> bool ares" where
  "demo_owns c t u = Inr (u = ''ann'')"

definition demo_reader :: reader where
  "demo_reader = \<lparr>rd_bytes = ''two litres'', rd_err = None\<rparr>"

definition demo_att :: attachment where
  "demo_att = \<lparr>a_ID = demo_id, a_TaskID = demo_id, a_OriginalFilename = ''notes.txt'', a_StorageKey = demo_id,
     a_ContentType = ''text/plain'', a_SizeBytes = 10, a_CreatedAt = 7\<rparr>"

lemma demo_anewID: "anewID (Inr demo_bytes) = Inr demo_id"
  using demo_newID by (simp add: anewID_newID)

lemma demo_valid: "aisValidID demo_id"
  using anewID_valid [OF _ demo_anewID] by (simp add: demo_bytes_def)

lemma demo_filename: "normalizeFilename demo_att_lib ''docs/notes.txt'' = Inr ''notes.txt''"
  by (simp add: normalizeFilename_def after_last_separator_def filepath_Base_def demo_att_lib_def maxOriginalFilenameLen_def go_eval)

lemma demo_type: "detectContentType demo_att_lib x = ''text/plain''"
  by (simp add: detectContentType_def demo_att_lib_def go_eval ToLower_def ascii_lower_def)

lemma demo_head: "read_head demo_reader = Inr ''two litres''"
  by (simp add: read_head_def demo_reader_def sniffLen_def)

lemma demo_put: "fs_Put demo_guard Live demo_id demo_reader 1000 (demo_fs [] 0 7) =
    (Inr 10, demo_fs [(demo_id, File ''two litres'' 7)] 3 7)"
  by (simp add: fs_Put_def syscall_def demo_fs_def demo_guard_def write_file_def copied_def copy_error_def demo_reader_def Let_def)

lemma demo_upload_put:
  "upload_put demo_att_lib demo_att_cfg attachMemory (fsBlobStore demo_guard p) live 7 (Inr demo_bytes) (Inr demo_bytes)
     ''ann'' demo_id ''docs/notes.txt'' demo_reader (NewAttachMemory demo_owns, demo_fs [] 0 7) =
   (Inr demo_att, (NewAttachMemory demo_owns, demo_fs [(demo_id, File ''two litres'' 7)] 3 7))"
  by (simp add: upload_put_def demo_valid demo_filename demo_head demo_type demo_anewID demo_put Let_def NewAttachMemory_def
      am_TotalBytesForUser_def am_CountByTask_def demo_owns_def demo_att_cfg_def maxAttachmentsPerTask_def
      allowedContentTypes_def demo_att_def)

definition demo_att_mem :: att_mem where
  "demo_att_mem = \<lparr>am_store = [(demo_id, demo_att)], am_owns = demo_owns\<rparr>"

lemma demo_upload_record:
  "upload_record attachMemory blobs live ''ann'' demo_att (NewAttachMemory demo_owns, b) = (Inr demo_att, (demo_att_mem, b))"
  by (simp add: upload_record_def am_Create_def NewAttachMemory_def demo_owns_def demo_att_def demo_att_mem_def)


definition demo_att_sys :: "sweep \<Rightarrow> time \<Rightarrow> att_sys" where
  "demo_att_sys w now = \<lparr>ay_repo = demo_att_mem, ay_fs = demo_fs [(demo_id, File ''two litres'' 7)] 3 now,
     ay_pending = [], ay_dying = [], ay_sweep = w\<rparr>"

text \<open>An upload in two steps, between which the collector could have run.\<close>

lemma demo_reach: "areach demo_att_lib demo_att_cfg demo_guard (\<lambda>_. True) 60 (demo_att_sys Idle 7)"
proof -
  let ?b = "demo_fs [(demo_id, File ''two litres'' 7)] 3 7"
  define s0 where "s0 = \<lparr>ay_repo = NewAttachMemory demo_owns, ay_fs = demo_fs [] 0 7, ay_pending = [], ay_dying = [], ay_sweep = Idle\<rparr>"
  define s1 where "s1 = s0\<lparr>ay_repo := NewAttachMemory demo_owns, ay_fs := ?b, ay_pending := [(''ann'', demo_att, 7)]\<rparr>"
  have "areach demo_att_lib demo_att_cfg demo_guard (\<lambda>_. True) 60 s0"
    unfolding s0_def by (rule areach.init) (simp add: demo_fs_def)
  moreover have "astep demo_att_lib demo_att_cfg demo_guard (\<lambda>_. True) 60 s0 s1"
  proof -
    have "fresh_key s0 (a_StorageKey demo_att)"
      by (simp add: fresh_key_def s0_def row_keys_def pending_keys_def fs_content_def demo_fs_def NewAttachMemory_def)
    from astep.put [of demo_att_lib demo_att_cfg demo_guard "\<lambda>_. True" live 7 "Inr demo_bytes" "Inr demo_bytes" "''ann''" demo_id
        "''docs/notes.txt''" demo_reader s0, OF _ this] demo_upload_put [of "\<lambda>_. True"]
    show ?thesis by (simp add: s1_def s0_def demo_fs_def)
  qed
  moreover have "astep demo_att_lib demo_att_cfg demo_guard (\<lambda>_. True) 60 s1 (demo_att_sys Idle 7)"
    using astep.recorded [of "''ann''" demo_att 7 s1 60 demo_guard "\<lambda>_. True" live] demo_upload_record [of _ ?b]
    by (simp add: s1_def s0_def demo_att_sys_def demo_fs_def)
  ultimately show ?thesis by (blast intro: areach.step)
qed

theorem no_row_without_its_bytes_witness:
  "demo_att \<in> rows (demo_att_sys Idle 7) \<and> (\<exists>d t. fs_content (ay_fs (demo_att_sys Idle 7)) demo_id = Some (d, t) \<and>
     length d = 10 \<and> fst (Download attachMemory (fsBlobStore demo_guard (\<lambda>_. True)) live ''ann'' demo_id
       (ay_repo (demo_att_sys Idle 7), ay_fs (demo_att_sys Idle 7))) = Inr (demo_att, d))"
proof -
  have row: "demo_att \<in> rows (demo_att_sys Idle 7)" by (simp add: rows_def demo_att_sys_def demo_att_mem_def)
  have key: "a_StorageKey demo_att = demo_id" "a_SizeBytes demo_att = 10" by (simp_all add: demo_att_def)
  have "am_owns (ay_repo (demo_att_sys Idle 7)) Live (a_TaskID demo_att) ''ann'' = Inr True" "gd_admits demo_guard demo_id"
    "fs_faults (ay_fs (demo_att_sys Idle 7)) (fs_calls (ay_fs (demo_att_sys Idle 7))) = None"
    by (simp_all add: demo_att_sys_def demo_att_mem_def demo_owns_def demo_guard_def demo_fs_def)
  with no_row_without_its_bytes [OF demo_reach _ row] demo_valid row show ?thesis
    unfolding key by (fastforce simp: demo_att_cfg_def)
qed

theorem upload_download_roundtrip_witness:
  "Upload demo_att_lib demo_att_cfg attachMemory (fsBlobStore demo_guard (\<lambda>_. True)) live 7 (Inr demo_bytes) (Inr demo_bytes)
     ''ann'' demo_id ''docs/notes.txt'' demo_reader (NewAttachMemory demo_owns, demo_fs [] 0 7) =
     (Inr demo_att, (demo_att_mem, demo_fs [(demo_id, File ''two litres'' 7)] 3 7)) \<and>
   fst (Download attachMemory (fsBlobStore demo_guard (\<lambda>_. True)) live ''ann'' demo_id
     (demo_att_mem, demo_fs [(demo_id, File ''two litres'' 7)] 3 7)) = Inr (demo_att, ''two litres'') \<and>
   (\<exists>e. Download attachMemory (fsBlobStore demo_guard (\<lambda>_. True)) live ''bob'' demo_id
     (demo_att_mem, demo_fs [(demo_id, File ''two litres'' 7)] 3 7) =
       (Inl e, (demo_att_mem, demo_fs [(demo_id, File ''two litres'' 7)] 3 7)) \<and> errors_Is e AErrNotFound)"
proof -
  have up: "Upload demo_att_lib demo_att_cfg attachMemory (fsBlobStore demo_guard (\<lambda>_. True)) live 7 (Inr demo_bytes) (Inr demo_bytes)
     ''ann'' demo_id ''docs/notes.txt'' demo_reader (NewAttachMemory demo_owns, demo_fs [] 0 7) =
     (Inr demo_att, (demo_att_mem, demo_fs [(demo_id, File ''two litres'' 7)] 3 7))"
    by (simp add: Upload_halves demo_upload_put demo_upload_record)
  have bob: "am_owns demo_att_mem Live (a_TaskID demo_att) ''bob'' = Inr False" by (simp add: demo_att_mem_def demo_owns_def)
  have key: "a_StorageKey demo_att = demo_id" "rd_bytes demo_reader = ''two litres''" by (simp_all add: demo_att_def demo_reader_def)
  have "0 \<le> ac_maxBytes demo_att_cfg" "length demo_bytes = 16" "fs_inv (demo_fs [] 0 7)"
    "fs_faults (demo_fs [(demo_id, File ''two litres'' 7)] 3 7) (fs_calls (demo_fs [(demo_id, File ''two litres'' 7)] 3 7)) = None"
    by (simp_all add: demo_att_cfg_def demo_bytes_def demo_fs_def)
  from upload_download_roundtrip [OF am_inv_New this(3,1,2) up this(4)] bob up show ?thesis unfolding key by blast
qed

theorem memory_sweep_takes_foreign_files_witness:
  "\<exists>b'. CollectOrphans attachMemory (fsBlobStore demo_guard (\<lambda>_. True)) live 100 60
      (demo_att_mem, demo_fs [(demo_id, File ''two litres'' 7), (''stray'', File ''x'' 7), (''fresh'', File ''y'' 90)] 0 100) =
      ((None, 1), (demo_att_mem, b')) \<and> fs_content b' ''stray'' = None \<and> fs_content b' demo_id = Some (''two litres'', 7) \<and>
      fs_content b' ''fresh'' = Some (''y'', 90)"
proof -
  let ?b = "demo_fs [(demo_id, File ''two litres'' 7), (''stray'', File ''x'' 7), (''fresh'', File ''y'' 90)] 0 100"
  have c: "fs_clean ?b" by (simp add: fs_clean_def demo_fs_def demo_id_def)
  have "orphan_keys demo_att_mem ?b 100 60 = {''stray''}"
    by (auto simp: orphan_keys_def fs_content_def demo_fs_def demo_att_mem_def demo_att_def demo_id_def split: if_splits)
  with memory_sweep_takes_foreign_files [OF c, of 60 demo_guard "\<lambda>_. True" 100 demo_att_mem]
  obtain b' where b': "CollectOrphans attachMemory (fsBlobStore demo_guard (\<lambda>_. True)) live 100 60 (demo_att_mem, ?b) =
      ((None, 1), (demo_att_mem, b'))" "fs_content b' = (\<lambda>k. if k \<in> {''stray''} then None else fs_content ?b k)"
    by (auto simp: demo_guard_def)
  have "fs_content ?b demo_id = Some (''two litres'', 7)" "fs_content ?b ''fresh'' = Some (''y'', 90)"
    by (simp_all add: fs_content_def demo_fs_def demo_id_def)
  with b' show ?thesis by (intro exI [of _ b']) (simp add: demo_id_def)
qed

end
