(* ===== verification/AccountDeletion.thy ===== *)
theory AccountDeletion
  imports UserHandler AttachGuarantees
begin

text \<open>
  Deleting an account (\<^verbatim>\<open>DELETE /auth/me\<close>) across the three domains: the closures of \<^verbatim>\<open>newServer\<close>
  (\<^verbatim>\<open>cmd/api/main.go\<close>) that connect them, the cascade over tasks and attachments, and what the handler built on it
  guarantees with the in-memory stores and the file system.
\<close>

subsection \<open>The closures of the composition root\<close>

text \<open>
  The \<^verbatim>\<open>TaskOwnershipFunc\<close> of the in-memory attachment repository: an answer of the task repository other than
  \<^verbatim>\<open>ErrNotFound\<close> is passed on. A context error is the same value in both packages.
\<close>

fun error_of_tasks :: "(task_err \<Rightarrow> string) \<Rightarrow> terr \<Rightarrow> aerr" where
  "error_of_tasks txt (Sentinel TContextCanceled) = Sentinel AContextCanceled"
| "error_of_tasks txt (Sentinel TContextDeadlineExceeded) = Sentinel AContextDeadlineExceeded"
| "error_of_tasks txt e = Opaque (error_text txt e)"

definition ownsTask :: "(task_err \<Rightarrow> string) \<Rightarrow> 't task_repo \<Rightarrow> 't \<Rightarrow> ctx_state \<Rightarrow> string \<Rightarrow> string \<Rightarrow> bool ares" where
  "ownsTask txt repo ts ctx taskID userID =
     (case fst (r_FindByID repo ctx taskID userID ts) of
        Inl err \<Rightarrow> if errors_Is err TErrNotFound then Inr False else Inl (error_of_tasks txt err)
      | Inr _ \<Rightarrow> Inr True)"

text \<open>The repository sees the task store of the moment.\<close>

definition bind_owns :: "(task_err \<Rightarrow> string) \<Rightarrow> memory_store \<Rightarrow> att_mem \<Rightarrow> att_mem" where
  "bind_owns txt ts s = s\<lparr>am_owns := ownsTask txt memoryRepository ts\<rparr>"

text \<open>The calls of a cascade, each with the context it finds; identifiers and keys are distinct, so each call has its own.\<close>

datatype cascade_point = AtListTasks | AtListAttachments string | AtDeleteAttachment string | AtDeleteTask string

datatype cascade_err = CListTasks terr | CListAttachments string aerr | CDeleteAttachment string aerr | CDeleteTask string terr

fun delete_attachments :: "'s att_repo \<Rightarrow> 'b blob_store \<Rightarrow> (cascade_point \<Rightarrow> ctxs) \<Rightarrow> string \<Rightarrow> attachment list
    \<Rightarrow> 's \<times> 'b \<Rightarrow> cascade_err option \<times> ('s \<times> 'b)" where
  "delete_attachments repo blobs ctx userID [] sb = (None, sb)"
| "delete_attachments repo blobs ctx userID (a # atts) sb =
     (case DeleteAttachment repo blobs (ctx (AtDeleteAttachment (a_StorageKey a))) userID (a_StorageKey a) sb of
        (Inl err, sb') \<Rightarrow> (Some (CDeleteAttachment (a_StorageKey a) err), sb')
      | (Inr _, sb') \<Rightarrow> delete_attachments repo blobs ctx userID atts sb')"

text \<open>
  The body of the loop over the tasks. \<open>att\<close> is the attachment service, if attachments are enabled; \<open>bind\<close> gives its
  repository the current task store.
\<close>

definition delete_task_attachments :: "('s att_repo \<times> 'b blob_store) option \<Rightarrow> ('t \<Rightarrow> 's \<Rightarrow> 's)
    \<Rightarrow> (cascade_point \<Rightarrow> ctxs) \<Rightarrow> string \<Rightarrow> string \<Rightarrow> 't \<times> ('s \<times> 'b) \<Rightarrow> cascade_err option \<times> ('t \<times> ('s \<times> 'b))" where
  "delete_task_attachments att bind ctx userID taskID w =
     (case w of (ts, (s, b)) \<Rightarrow>
      case att of
        None \<Rightarrow> (None, w)
      | Some (repo, blobs) \<Rightarrow>
          (case ListByTask repo (ctx (AtListAttachments taskID)) userID taskID (bind ts s, b) of
             (Inl err, sb) \<Rightarrow> (Some (CListAttachments taskID err), (ts, sb))
           | (Inr atts, sb) \<Rightarrow>
               (case delete_attachments repo blobs ctx userID atts sb of (e, sb') \<Rightarrow> (e, (ts, sb')))))"

fun delete_tasks :: "'t task_repo \<Rightarrow> ('s att_repo \<times> 'b blob_store) option \<Rightarrow> ('t \<Rightarrow> 's \<Rightarrow> 's)
    \<Rightarrow> (cascade_point \<Rightarrow> ctxs) \<Rightarrow> string \<Rightarrow> task list \<Rightarrow> 't \<times> ('s \<times> 'b) \<Rightarrow> cascade_err option \<times> ('t \<times> ('s \<times> 'b))" where
  "delete_tasks repo att bind ctx userID [] w = (None, w)"
| "delete_tasks repo att bind ctx userID (t # tasks) w =
     (case delete_task_attachments att bind ctx userID (t_ID t) w of
        (Some e, w1) \<Rightarrow> (Some e, w1)
      | (None, (ts1, sb1)) \<Rightarrow>
          (case DeleteTask repo (ctx (AtDeleteTask (t_ID t))) userID (t_ID t) ts1 of
             (Inl err, ts2) \<Rightarrow> (Some (CDeleteTask (t_ID t) err), (ts2, sb1))
           | (Inr _, ts2) \<Rightarrow> delete_tasks repo att bind ctx userID tasks (ts2, sb1)))"

definition deleteAccountCascade :: "'t task_repo \<Rightarrow> ('s att_repo \<times> 'b blob_store) option \<Rightarrow> ('t \<Rightarrow> 's \<Rightarrow> 's)
    \<Rightarrow> (cascade_point \<Rightarrow> ctxs) \<Rightarrow> string \<Rightarrow> 't \<times> ('s \<times> 'b) \<Rightarrow> cascade_err option \<times> ('t \<times> ('s \<times> 'b))" where
  "deleteAccountCascade repo att bind ctx userID w =
     (case w of (ts, sb) \<Rightarrow>
      case ListTasks repo (ctx AtListTasks) userID (-1) 0 [] [] ts of
        (Inl err, ts1) \<Rightarrow> (Some (CListTasks err), (ts1, sb))
      | (Inr (tasks, _), ts1) \<Rightarrow> delete_tasks repo att bind ctx userID tasks (ts1, sb))"

subsection \<open>The in-memory stores\<close>

type_synonym mem_world = "memory_store \<times> (att_mem \<times> fs)"

definition mem_cascade :: "(task_err \<Rightarrow> string) \<Rightarrow> guard \<Rightarrow> (nat \<Rightarrow> bool) \<Rightarrow> (cascade_point \<Rightarrow> ctxs) \<Rightarrow> string
    \<Rightarrow> mem_world \<Rightarrow> cascade_err option \<times> mem_world" where
  "mem_cascade txt g p = deleteAccountCascade memoryRepository (Some (attachMemory, fsBlobStore g p)) (bind_owns txt)"

lemma ownsTask_live:
  "ownsTask txt memoryRepository m Live t u = Inr (\<exists>x. map_of m t = Some x \<and> t_UserID x = u)"
  by (auto simp: ownsTask_def mem_FindByID_def simp del: map_of_eq_Some_iff split: option.split)

lemma bind_owns_sel [simp]:
  "am_store (bind_owns txt m s) = am_store s" "am_owns (bind_owns txt m s) = ownsTask txt memoryRepository m"
  "am_inv (bind_owns txt m s) = am_inv s"
  by (simp_all add: bind_owns_def am_inv_def)

text \<open>The rows and blobs that remain when those of the tasks \<open>T\<close> go.\<close>

definition att_rows :: "att_mem \<Rightarrow> attachment set" where
  "att_rows s = set (gomap_values (am_store s))"

lemma att_rows_bind [simp]: "att_rows (bind_owns txt m s) = att_rows s"
  by (simp add: att_rows_def)

definition keys_of :: "string set \<Rightarrow> att_mem \<Rightarrow> string set" where
  "keys_of T s = a_StorageKey ` {a \<in> att_rows s. a_TaskID a \<in> T}"

definition without_blobs :: "string set \<Rightarrow> blobs \<Rightarrow> blobs" where
  "without_blobs K c = (\<lambda>k. if k \<in> K then None else c k)"

lemma without_blobs_simps [simp]:
  "without_blobs {} c = c" "without_blobs K (c(k := None)) = without_blobs (insert k K) c"
  "without_blobs K (without_blobs L c) = without_blobs (K \<union> L) c"
  by (auto simp: without_blobs_def fun_eq_iff)

text \<open>
  The files after \<^verbatim>\<open>os.Remove\<close> was tried on those of the keys \<open>K\<close>: each of them is gone or, its removal having failed, as it was; all of
  them are gone when the system calls succeed. No other file changes.
\<close>

definition swept :: "string set \<Rightarrow> fs \<Rightarrow> fs \<Rightarrow> bool" where
  "swept K b b' \<longleftrightarrow> fs_inv b' \<and> (\<forall>k. fs_content b' k = fs_content b k \<or> k \<in> K \<and> fs_content b' k = None) \<and>
     (fs_clean b \<longrightarrow> fs_clean b' \<and> fs_content b' = without_blobs K (fs_content b))"

lemma swept_refl: "fs_inv b \<Longrightarrow> swept {} b b"
  by (simp add: swept_def)

lemma swept_trans: "swept K b c \<Longrightarrow> swept L c d \<Longrightarrow> swept (L \<union> K) b d"
  unfolding swept_def by (metis Un_iff without_blobs_simps(3))

lemma swept_inv: "swept K b c \<Longrightarrow> fs_inv c"
  by (simp add: swept_def)

lemma swept_Delete:
  assumes "fs_inv b" and "gd_admits g k"
  shows "swept {k} b (snd (fs_Delete g Live k b))"
proof -
  obtain rd b' where d: "fs_Delete g Live k b = (rd, b')" by fastforce
  have "fs_inv b'" "fs_content b' = fs_content b \<or> fs_content b' = (fs_content b)(k := None)"
    using fs.delete_blob [of b g "\<lambda>_. True" Live k rd b'] assms(1) d by simp_all
  moreover have "fs_clean b' \<and> fs_content b' = without_blobs {k} (fs_content b)" if "fs_clean b"
    using fs_Delete_clean [OF that assms(2)] d by (auto simp: without_blobs_def fun_eq_iff)
  ultimately show ?thesis using d by (auto simp: swept_def split: if_splits)
qed

subsection \<open>A cascade that is not cancelled\<close>

lemma am_inv_inj: "am_inv s \<Longrightarrow> inj_on a_StorageKey (att_rows s)"
  unfolding am_inv_def att_rows_def distinct_map by blast

lemma am_inv_distinct: "am_inv s \<Longrightarrow> distinct (gomap_values (am_store s))"
  unfolding am_inv_def by (metis distinct_map)

lemma scan_key_row:
  assumes "am_inv s" and "a \<in> att_rows s"
  obtains i where "scan_key (a_StorageKey a) (am_store s) = Some (i, a)"
proof -
  from assms(2) obtain i where "(i, a) \<in> set (am_store s)" by (auto simp: att_rows_def)
  with assms(1) show ?thesis by (intro that scan_key_unique) (simp_all add: am_inv_def)
qed

lemma am_Delete_owns: "am_Delete c k u s = (r, s') \<Longrightarrow> am_owns s' = am_owns s"
  by (auto simp: am_Delete_def split: option.splits prod.splits sum.splits if_splits)

lemma DeleteAttachment_live:
  assumes "am_inv s" and "fs_inv b" and "a \<in> att_rows s" and "am_owns s Live (a_TaskID a) u = Inr True"
    and "aisValidID (a_StorageKey a)" and "gd_admits g (a_StorageKey a)"
  shows "\<exists>s' b'. DeleteAttachment attachMemory (fsBlobStore g p) live u (a_StorageKey a) (s, b) = (Inr (), (s', b')) \<and>
    am_inv s' \<and> am_owns s' = am_owns s \<and> att_rows s' = {x \<in> att_rows s. a_StorageKey x \<noteq> a_StorageKey a} \<and>
    swept {a_StorageKey a} b b'"
proof -
  obtain i where "scan_key (a_StorageKey a) (am_store s) = Some (i, a)" using scan_key_row [OF assms(1,3)] .
  with assms(4) obtain s' where d: "am_Delete Live (a_StorageKey a) u s = (Inr (), s')" by (simp add: am_Delete_def)
  show ?thesis
    using d swept_Delete [OF assms(2,6)] am_Delete_inv [OF assms(1) d] am_Delete_owns [OF d] am_Delete_rows [OF assms(1) d, folded att_rows_def] assms(5)
    by (simp add: DeleteAttachment_def)
qed

lemma delete_attachments_live:
  assumes "am_inv s" and "fs_inv b" and "set atts \<subseteq> att_rows s" and "distinct (map a_StorageKey atts)"
    and "\<forall>a \<in> set atts. am_owns s Live (a_TaskID a) u = Inr True \<and> aisValidID (a_StorageKey a) \<and> gd_admits g (a_StorageKey a)"
  shows "\<exists>s' b'. delete_attachments attachMemory (fsBlobStore g p) (\<lambda>_. live) u atts (s, b) = (None, (s', b')) \<and>
    am_inv s' \<and> am_owns s' = am_owns s \<and> att_rows s' = {x \<in> att_rows s. a_StorageKey x \<notin> a_StorageKey ` set atts} \<and>
    swept (a_StorageKey ` set atts) b b'"
  using assms
proof (induction atts arbitrary: s b)
  case (Cons a atts)
  have a: "a \<in> att_rows s" "am_owns s Live (a_TaskID a) u = Inr True" "aisValidID (a_StorageKey a)" "gd_admits g (a_StorageKey a)"
    using Cons.prems(3,5) by simp_all
  obtain s1 b1 where 1: "DeleteAttachment attachMemory (fsBlobStore g p) live u (a_StorageKey a) (s, b) = (Inr (), (s1, b1))"
    "am_inv s1" "am_owns s1 = am_owns s" "att_rows s1 = {x \<in> att_rows s. a_StorageKey x \<noteq> a_StorageKey a}"
    "swept {a_StorageKey a} b b1"
    using DeleteAttachment_live [OF Cons.prems(1,2) a] by blast
  have "set atts \<subseteq> att_rows s1" unfolding 1(4) using Cons.prems(3,4) by (auto simp: image_iff)
  moreover have "\<forall>x \<in> set atts. am_owns s1 Live (a_TaskID x) u = Inr True \<and> aisValidID (a_StorageKey x) \<and> gd_admits g (a_StorageKey x)"
    using Cons.prems(5) 1(3) by simp
  moreover have "distinct (map a_StorageKey atts)" using Cons.prems(4) by simp
  ultimately obtain s2 b2 where "delete_attachments attachMemory (fsBlobStore g p) (\<lambda>_. live) u atts (s1, b1) = (None, (s2, b2))"
    "am_inv s2" "am_owns s2 = am_owns s1" "att_rows s2 = {x \<in> att_rows s1. a_StorageKey x \<notin> a_StorageKey ` set atts}"
    "swept (a_StorageKey ` set atts) b1 b2"
    using Cons.IH [OF 1(2) swept_inv [OF 1(5)]] by blast
  moreover have "swept (a_StorageKey ` set (a # atts)) b b2" using swept_trans [OF 1(5) calculation(5)] by simp
  moreover have "att_rows s2 = {x \<in> att_rows s. a_StorageKey x \<notin> a_StorageKey ` set (a # atts)}" unfolding calculation(4) 1(4) by auto
  ultimately show ?case using 1(1,3) by simp
qed (simp add: swept_refl)

text \<open>A task is deletable when its identifier and the keys of its attachments are ones the services accept.\<close>

definition deletable :: "guard \<Rightarrow> att_mem \<Rightarrow> task \<Rightarrow> bool" where
  "deletable g s t \<longleftrightarrow> isValidID (t_ID t) \<and>
     (\<forall>a \<in> att_rows s. a_TaskID a = t_ID t \<longrightarrow> aisValidID (a_StorageKey a) \<and> gd_admits g (a_StorageKey a))"

lemma delete_task_attachments_live:
  assumes "am_inv s" and "fs_inv b" and "map_of m (t_ID t) = Some t" and "t_UserID t = u" and "deletable g s t"
  shows "\<exists>s' b'. delete_task_attachments (Some (attachMemory, fsBlobStore g p)) (bind_owns txt) (\<lambda>_. live) u (t_ID t) (m, (s, b)) =
      (None, (m, (s', b'))) \<and> am_inv s' \<and> att_rows s' = {x \<in> att_rows s. a_TaskID x \<noteq> t_ID t} \<and>
    swept (keys_of {t_ID t} s) b b'"
proof -
  let ?s = "bind_owns txt m s"
  let ?atts = "sort_key att_key (filter (\<lambda>a. a_TaskID a = t_ID t) (gomap_values (am_store s)))"
  have owns: "am_owns ?s Live (t_ID t) u = Inr True" using assms(3,4) by (simp add: ownsTask_live)
  have list: "ListByTask attachMemory live u (t_ID t) (?s, b) = (Inr ?atts, (?s, b))"
    using assms(5) owns by (simp add: ListByTask_def am_FindByTask_def aisValidID_eq deletable_def)
  have atts: "set ?atts = {a \<in> att_rows ?s. a_TaskID a = t_ID t}" unfolding att_rows_def by auto
  have "distinct ?atts" using am_inv_distinct [OF assms(1)] by simp
  then have dist: "distinct (map a_StorageKey ?atts)"
    unfolding distinct_map atts using am_inv_inj [OF assms(1)] by (auto intro: inj_on_subset)
  have ok: "\<forall>a \<in> set ?atts. am_owns ?s Live (a_TaskID a) u = Inr True \<and> aisValidID (a_StorageKey a) \<and> gd_admits g (a_StorageKey a)"
    using assms(5) owns unfolding atts deletable_def by simp
  have "am_inv ?s" "set ?atts \<subseteq> att_rows ?s" using assms(1) atts by auto
  from delete_attachments_live [OF this(1) assms(2) this(2) dist ok, unfolded att_rows_bind, of p]
  obtain s' b' where d: "delete_attachments attachMemory (fsBlobStore g p) (\<lambda>_. live) u ?atts (?s, b) = (None, (s', b'))"
    "am_inv s'" "att_rows s' = {x \<in> att_rows s. a_StorageKey x \<notin> a_StorageKey ` set ?atts}"
    "swept (a_StorageKey ` set ?atts) b b'" by blast
  have "a_StorageKey x \<notin> a_StorageKey ` set ?atts \<longleftrightarrow> a_TaskID x \<noteq> t_ID t" if "x \<in> att_rows s" for x
    using that am_inv_inj [OF assms(1)] unfolding atts by (auto simp: inj_on_def)
  then have "att_rows s' = {x \<in> att_rows s. a_TaskID x \<noteq> t_ID t}" unfolding d(3) by blast
  moreover have "a_StorageKey ` set ?atts = keys_of {t_ID t} s" unfolding atts keys_of_def by simp
  ultimately show ?thesis using list d by (simp add: delete_task_attachments_def)
qed

lemma delete_tasks_live:
  assumes "mem_inv m" and "am_inv s" and "fs_inv b" and "distinct (map t_ID ts)"
    and "\<forall>t \<in> set ts. map_of m (t_ID t) = Some t \<and> t_UserID t = u \<and> deletable g s t"
  shows "\<exists>m' s' b'. delete_tasks memoryRepository (Some (attachMemory, fsBlobStore g p)) (bind_owns txt) (\<lambda>_. live) u ts (m, (s, b)) =
      (None, (m', (s', b'))) \<and> mem_inv m' \<and> (\<forall>k. map_of m' k = (if k \<in> t_ID ` set ts then None else map_of m k)) \<and>
    am_inv s' \<and> att_rows s' = {x \<in> att_rows s. a_TaskID x \<notin> t_ID ` set ts} \<and>
    swept (keys_of (t_ID ` set ts) s) b b'"
  using assms
proof (induction ts arbitrary: m s b)
  case Nil
  then show ?case by (simp add: keys_of_def swept_refl)
next
  case (Cons t ts)
  have t: "map_of m (t_ID t) = Some t" "t_UserID t = u" "deletable g s t" using Cons.prems(5) by simp_all
  obtain s1 b1 where 1: "delete_task_attachments (Some (attachMemory, fsBlobStore g p)) (bind_owns txt) (\<lambda>_. live) u (t_ID t) (m, (s, b)) =
      (None, (m, (s1, b1)))" "am_inv s1" "att_rows s1 = {x \<in> att_rows s. a_TaskID x \<noteq> t_ID t}"
    "swept (keys_of {t_ID t} s) b b1"
    using delete_task_attachments_live [OF Cons.prems(2,3) t] by blast
  let ?m = "AList.delete (t_ID t) m"
  have 2: "DeleteTask memoryRepository live u (t_ID t) m = (Inr (), ?m)"
    using t by (simp add: DeleteTask_def deletable_def mem_Delete_def)
  have "\<forall>x \<in> set ts. map_of ?m (t_ID x) = Some x \<and> t_UserID x = u \<and> deletable g s1 x"
  proof
    fix x assume x: "x \<in> set ts"
    then have "t_ID x \<noteq> t_ID t" using Cons.prems(4) by (metis distinct.simps(2) imageI list.simps(9) set_map)
    then show "map_of ?m (t_ID x) = Some x \<and> t_UserID x = u \<and> deletable g s1 x"
      using Cons.prems(5) x 1(3) by (simp add: gomap_simps deletable_def)
  qed
  moreover have "distinct (map t_ID ts)" using Cons.prems(4) by simp
  ultimately obtain m' s' b' where 3:
    "delete_tasks memoryRepository (Some (attachMemory, fsBlobStore g p)) (bind_owns txt) (\<lambda>_. live) u ts (?m, (s1, b1)) = (None, (m', (s', b')))"
    "mem_inv m'" "\<forall>k. map_of m' k = (if k \<in> t_ID ` set ts then None else map_of ?m k)" "am_inv s'"
    "att_rows s' = {x \<in> att_rows s1. a_TaskID x \<notin> t_ID ` set ts}" "swept (keys_of (t_ID ` set ts) s1) b1 b'"
    using Cons.IH [OF mem_inv_delete [OF Cons.prems(1)] 1(2) swept_inv [OF 1(4)]] by blast
  have "keys_of (t_ID ` set ts) s1 \<union> keys_of {t_ID t} s = keys_of (t_ID ` set (t # ts)) s"
    unfolding keys_of_def 1(3) by auto
  with swept_trans [OF 1(4) 3(6)] have "swept (keys_of (t_ID ` set (t # ts)) s) b b'" by simp
  moreover have "\<forall>k. map_of m' k = (if k \<in> t_ID ` set (t # ts) then None else map_of m k)"
    using 3(3) by (simp add: gomap_simps)
  moreover have "att_rows s' = {x \<in> att_rows s. a_TaskID x \<notin> t_ID ` set (t # ts)}" unfolding 3(5) 1(3) by auto
  ultimately show ?case using 1(1) 2 3(1,2,4) by simp
qed

lemma mem_listing_all:
  assumes "mem_inv m" and "ListTasks memoryRepository ctx u (-1) 0 [] [] m = (Inr (ts, n), m')"
  shows "m' = m \<and> distinct (map t_ID ts) \<and> set ts = {t. map_of m (t_ID t) = Some t \<and> t_UserID t = u}"
proof -
  have v: "validateStatusFilters [] = Inr []" "validatePriorityFilters [] = Inr []"
    by (simp_all add: validateStatusFilters_def validatePriorityFilters_def maxFilterValues_def)
  have ts: "ts = sort_key task_key (mem_matching u [] [] m)" and m': "m' = m"
    using assms(2) by (auto simp: ListTasks_def v mem_FindAll_def mem_CountAll_def paginateTasks_window window_def
        split: option.splits)
  have l: "is_listing (map_of m) u [] [] ts" unfolding ts by (rule is_listing_memory [OF assms(1)])
  have k: "map_of m i = Some t \<Longrightarrow> t_ID t = i" for i t using mem.keyed [OF assms(1)] by (auto simp: keyed_def)
  have "set ts = {t \<in> ran (map_of m). t_UserID t = u}" using l by (simp add: is_listing_def selected_def passes_def)
  also have "\<dots> = {t. map_of m (t_ID t) = Some t \<and> t_UserID t = u}"
  proof (intro Collect_cong conj_cong refl iffI)
    fix t assume "t \<in> ran (map_of m)"
    then obtain i where "map_of m i = Some t" unfolding ran_def by blast
    with k show "map_of m (t_ID t) = Some t" by metis
  next
    fix t assume "map_of m (t_ID t) = Some t"
    then show "t \<in> ran (map_of m)" by (rule ranI)
  qed
  finally have s: "set ts = {t. map_of m (t_ID t) = Some t \<and> t_UserID t = u}" .
  have "inj_on t_ID (set ts)" unfolding s inj_on_def by (metis (mono_tags, lifting) mem_Collect_eq option.sel)
  with l s m' show ?thesis by (simp add: is_listing_def distinct_map)
qed

lemma listed_ids:
  assumes "mem_inv m" and "set ts = {t. map_of m (t_ID t) = Some t \<and> t_UserID t = u}"
  shows "t_ID ` set ts = {k. \<exists>t. map_of m k = Some t \<and> t_UserID t = u}"
proof -
  have k: "map_of m i = Some t \<Longrightarrow> t_ID t = i" for i t using mem.keyed [OF assms(1)] by (auto simp: keyed_def)
  have "x \<in> {k. \<exists>t. map_of m k = Some t \<and> t_UserID t = u} \<longleftrightarrow> (\<exists>t. t \<in> set ts \<and> x = t_ID t)" for x
    unfolding assms(2) mem_Collect_eq using k by metis
  then show ?thesis by blast
qed

lemma mem_cascade_live:
  assumes "mem_inv m" and "am_inv s" and "fs_inv b"
    and "\<forall>t. map_of m (t_ID t) = Some t \<and> t_UserID t = u \<longrightarrow> deletable g s t"
  defines "T \<equiv> {k. \<exists>t. map_of m k = Some t \<and> t_UserID t = u}"
  shows "\<exists>m' s' b'. mem_cascade txt g p (\<lambda>_. live) u (m, (s, b)) = (None, (m', (s', b'))) \<and>
    (\<forall>k. map_of m' k = (if k \<in> T then None else map_of m k)) \<and>
    att_rows s' = {x \<in> att_rows s. a_TaskID x \<notin> T} \<and> swept (keys_of T s) b b'"
proof -
  obtain ts where l: "ListTasks memoryRepository live u (-1) 0 [] [] m = (Inr (ts, int (length (mem_matching u [] [] m))), m)"
    by (simp add: ListTasks_def validateStatusFilters_def validatePriorityFilters_def maxFilterValues_def mem_FindAll_def
        mem_CountAll_def Let_def)
  note all = mem_listing_all [OF assms(1) l]
  have T: "t_ID ` set ts = T" unfolding T_def by (rule listed_ids [OF assms(1)]) (use all in blast)
  have "\<forall>t \<in> set ts. map_of m (t_ID t) = Some t \<and> t_UserID t = u \<and> deletable g s t" using all assms(4) by auto
  from delete_tasks_live [OF assms(1-3) _ this, unfolded T] all l show ?thesis
    by (fastforce simp: mem_cascade_def deleteAccountCascade_def)
qed

subsection \<open>A cascade under any faults\<close>

text \<open>Rows go only where \<open>P\<close> allows it, and blobs only together with their rows.\<close>

definition shrinks :: "(attachment \<Rightarrow> bool) \<Rightarrow> att_mem \<times> fs \<Rightarrow> att_mem \<times> fs \<Rightarrow> bool" where
  "shrinks P x y \<longleftrightarrow> am_inv (fst y) \<and> fs_inv (snd y) \<and> att_rows (fst y) \<subseteq> att_rows (fst x) \<and>
     (\<forall>a \<in> att_rows (fst x) - att_rows (fst y). P a) \<and>
     (\<forall>k. k \<notin> a_StorageKey ` (att_rows (fst x) - att_rows (fst y)) \<longrightarrow> fs_content (snd y) k = fs_content (snd x) k)"

lemma shrinks_refl: "am_inv s \<Longrightarrow> fs_inv b \<Longrightarrow> shrinks P (s, b) (s, b)"
  by (simp add: shrinks_def)

lemma shrinks_trans:
  assumes "shrinks P x y" and "shrinks P y z"
  shows "shrinks P x z"
proof -
  have "att_rows (fst x) - att_rows (fst z) = (att_rows (fst x) - att_rows (fst y)) \<union> (att_rows (fst y) - att_rows (fst z))"
    using assms by (auto simp: shrinks_def)
  then show ?thesis using assms unfolding shrinks_def by (auto simp: image_Un)
qed

lemma shrinks_mono: "shrinks P x y \<Longrightarrow> (\<And>a. a \<in> att_rows (fst x) \<Longrightarrow> P a \<Longrightarrow> Q a) \<Longrightarrow> shrinks Q x y"
  unfolding shrinks_def by blast

lemma DeleteAttachment_shrinks:
  assumes "am_inv s" and "fs_inv b" and "DeleteAttachment attachMemory (fsBlobStore g p) ctx u k (s, b) = (r, (s', b'))"
  shows "shrinks (\<lambda>a. a_StorageKey a = k) (s, b) (s', b') \<and> am_owns s' = am_owns s \<and>
    (r = Inr () \<longrightarrow> k \<notin> a_StorageKey ` att_rows s')"
proof (cases r)
  case (Inl e)
  have "am_Delete c k u s = (Inl e', s'') \<Longrightarrow> s'' = s" for c e' s''
    by (auto simp: am_Delete_def split: option.splits prod.splits sum.splits if_splits)
  with assms Inl have "s' = s \<and> b' = b" by (auto simp: DeleteAttachment_def split: if_splits prod.splits sum.splits)
  with assms(1,2) Inl show ?thesis by (simp add: shrinks_refl)
next
  case (Inr x)
  with assms(3) have d: "am_Delete (ctx 0) k u s = (Inr (), s')" and b': "b' = snd (fs_Delete g (ctx 1) k b)"
    by (auto simp: DeleteAttachment_def split: if_splits prod.splits sum.splits)
  obtain rd where "fs_Delete g (ctx 1) k b = (rd, b')" using b' by (cases "fs_Delete g (ctx 1) k b") auto
  with fs.delete_blob [of b g p "ctx 1" k rd b'] assms(2)
  have b: "fs_inv b'" "fs_content b' = fs_content b \<or> fs_content b' = (fs_content b)(k := None)" by simp_all
  note rows = am_Delete_rows [OF assms(1) d, folded att_rows_def]
  then obtain x where "x \<in> att_rows s" "a_StorageKey x = k" by blast
  with rows have "x \<in> att_rows s - att_rows s'" "a_StorageKey x = k" by blast+
  then have "k \<in> a_StorageKey ` (att_rows s - att_rows s')" by blast
  then have "\<forall>j. j \<notin> a_StorageKey ` (att_rows s - att_rows s') \<longrightarrow> fs_content b' j = fs_content b j" using b(2) by auto
  with rows b(1) am_Delete_inv [OF assms(1) d] have "shrinks (\<lambda>a. a_StorageKey a = k) (s, b) (s', b')"
    by (simp add: shrinks_def)
  moreover have "k \<notin> a_StorageKey ` att_rows s'" using rows by blast
  ultimately show ?thesis using am_Delete_owns [OF d] by blast
qed

lemma delete_attachments_shrinks:
  assumes "am_inv s" and "fs_inv b" and "\<forall>x \<in> att_rows s. a_StorageKey x \<in> a_StorageKey ` set atts \<longrightarrow> P x"
    and "delete_attachments attachMemory (fsBlobStore g p) ctx u atts (s, b) = (e, (s', b'))"
  shows "shrinks P (s, b) (s', b') \<and> (e = None \<longrightarrow> (\<forall>x \<in> att_rows s'. a_StorageKey x \<notin> a_StorageKey ` set atts))"
  using assms
proof (induction atts arbitrary: s b)
  case Nil
  then show ?case by (auto simp: shrinks_refl)
next
  case (Cons a atts)
  obtain r s1 b1 where d: "DeleteAttachment attachMemory (fsBlobStore g p) (ctx (AtDeleteAttachment (a_StorageKey a))) u (a_StorageKey a) (s, b) =
      (r, (s1, b1))" by (metis prod_cases3)
  note one = DeleteAttachment_shrinks [OF Cons.prems(1,2) d]
  then have 1: "shrinks P (s, b) (s1, b1)" by (elim conjE shrinks_mono) (use Cons.prems(3) in auto)
  show ?case
  proof (cases r)
    case (Inl err)
    with Cons.prems(4) d 1 show ?thesis by auto
  next
    case (Inr x)
    with Cons.prems(4) d have rest: "delete_attachments attachMemory (fsBlobStore g p) ctx u atts (s1, b1) = (e, (s', b'))" by simp
    have s1: "am_inv s1" "fs_inv b1" "att_rows s1 \<subseteq> att_rows s" using 1 by (simp_all add: shrinks_def)
    then have "\<forall>x \<in> att_rows s1. a_StorageKey x \<in> a_StorageKey ` set atts \<longrightarrow> P x" using Cons.prems(3) by auto
    note 2 = Cons.IH [OF s1(1,2) this rest]
    have "a_StorageKey y \<noteq> a_StorageKey a" if "y \<in> att_rows s'" for y
    proof -
      have "y \<in> att_rows s1" using 2 that by (auto simp: shrinks_def)
      with one Inr show ?thesis by (metis imageI old.unit.exhaust)
    qed
    with shrinks_trans [OF 1] 2 show ?thesis by auto
  qed
qed

lemma shrinks_bind: "shrinks P (bind_owns txt m s, b) y = shrinks P (s, b) y"
  by (simp add: shrinks_def)

lemma delete_task_attachments_shrinks:
  assumes "am_inv s" and "fs_inv b"
    and run: "delete_task_attachments (Some (attachMemory, fsBlobStore g p)) (bind_owns txt) ctx u i (m, (s, b)) = (e, (m', (s', b')))"
  shows "m' = m \<and> shrinks (\<lambda>a. a_TaskID a = i) (s, b) (s', b') \<and> (e = None \<longrightarrow> (\<forall>x \<in> att_rows s'. a_TaskID x \<noteq> i))"
proof -
  let ?s = "bind_owns txt m s"
  obtain rl s1 b1 where l: "ListByTask attachMemory (ctx (AtListAttachments i)) u i (?s, b) = (rl, (s1, b1))" by (metis prod_cases3)
  have same: "s1 = ?s" "b1 = b"
    using l by (auto simp: ListByTask_def am_FindByTask_def split: if_splits sum.splits)
  have inv: "am_inv ?s" using assms(1) by simp
  show ?thesis
  proof (cases rl)
    case (Inl err)
    with run l same have "m' = m" "s' = ?s" "b' = b" "e \<noteq> None" by (auto simp: delete_task_attachments_def)
    with assms(1,2) show ?thesis using shrinks_refl [OF inv assms(2)] by (auto simp: shrinks_bind)
  next
    case (Inr atts)
    then have "atts = sort_key att_key (filter (\<lambda>a. a_TaskID a = i) (gomap_values (am_store s)))"
      using l by (auto simp: ListByTask_def am_FindByTask_def split: if_splits sum.splits)
    then have atts: "set atts = {a \<in> att_rows s. a_TaskID a = i}" unfolding att_rows_def by simp
    obtain e1 s2 b2 where d: "delete_attachments attachMemory (fsBlobStore g p) ctx u atts (?s, b) = (e1, (s2, b2))" by (metis prod_cases3)
    with run l same Inr have eq: "m' = m" "s2 = s'" "b2 = b'" "e1 = e" by (auto simp: delete_task_attachments_def)
    have key: "a_StorageKey x \<in> a_StorageKey ` set atts \<longleftrightarrow> a_TaskID x = i" if "x \<in> att_rows s" for x
      using that am_inv_inj [OF assms(1)] unfolding atts by (auto simp: inj_on_def)
    then have "\<forall>x \<in> att_rows ?s. a_StorageKey x \<in> a_StorageKey ` set atts \<longrightarrow> a_TaskID x = i" by simp
    from delete_attachments_shrinks [OF inv assms(2) this d]
    have sh: "shrinks (\<lambda>a. a_TaskID a = i) (s, b) (s', b')"
      "e = None \<longrightarrow> (\<forall>x \<in> att_rows s'. a_StorageKey x \<notin> a_StorageKey ` set atts)" by (simp_all add: shrinks_bind eq)
    moreover have "att_rows s' \<subseteq> att_rows s" using sh(1) by (simp add: shrinks_def)
    ultimately show ?thesis using eq(1) key by blast
  qed
qed

lemma DeleteTask_mem:
  assumes "DeleteTask memoryRepository ctx u i m = (r, m')"
  shows "(r = Inr () \<and> m' = AList.delete i m) \<or> ((\<exists>e. r = Inl e) \<and> m' = m)"
  using assms by (auto simp: DeleteTask_def mem_Delete_def split: if_splits option.splits)

lemma delete_tasks_shrinks:
  assumes "am_inv s" and "fs_inv b" and "mem_inv m"
    and "delete_tasks memoryRepository (Some (attachMemory, fsBlobStore g p)) (bind_owns txt) ctx u ts (m, (s, b)) = (e, (m', (s', b')))"
  shows "shrinks (\<lambda>a. a_TaskID a \<in> t_ID ` set ts) (s, b) (s', b') \<and> mem_inv m' \<and>
    (\<forall>k. map_of m' k = map_of m k \<or> k \<in> t_ID ` set ts \<and> map_of m' k = None) \<and>
    (e = None \<longrightarrow> (\<forall>k \<in> t_ID ` set ts. map_of m' k = None \<and> (\<forall>x \<in> att_rows s'. a_TaskID x \<noteq> k)))"
  using assms
proof (induction ts arbitrary: m s b)
  case Nil
  then show ?case by (auto simp: shrinks_refl)
next
  case (Cons t ts)
  obtain e1 m1 s1 b1 where 1: "delete_task_attachments (Some (attachMemory, fsBlobStore g p)) (bind_owns txt) ctx u (t_ID t) (m, (s, b)) =
      (e1, (m1, (s1, b1)))" by (metis prod_cases4)
  note a = delete_task_attachments_shrinks [OF Cons.prems(1,2) 1]
  have sh1: "shrinks (\<lambda>a. a_TaskID a \<in> t_ID ` set (t # ts)) (s, b) (s1, b1)" using a by (auto elim: shrinks_mono)
  have s1: "am_inv s1" "fs_inv b1" "m1 = m" using a by (simp_all add: shrinks_def)
  show ?case
  proof (cases "e1 = None \<and> (\<exists>x. fst (DeleteTask memoryRepository (ctx (AtDeleteTask (t_ID t))) u (t_ID t) m) = Inr x)")
    case True
    then obtain m2 where 2: "DeleteTask memoryRepository (ctx (AtDeleteTask (t_ID t))) u (t_ID t) m = (Inr (), m2)"
      by (metis old.unit.exhaust prod.collapse)
    then have m2: "m2 = AList.delete (t_ID t) m" using DeleteTask_mem by blast
    have rest: "delete_tasks memoryRepository (Some (attachMemory, fsBlobStore g p)) (bind_owns txt) ctx u ts (m2, (s1, b1)) = (e, (m', (s', b')))"
      using Cons.prems(4) 1 2 True s1(3) by simp
    have inv2: "mem_inv m2" unfolding m2 by (rule mem_inv_delete [OF Cons.prems(3)])
    note IH = Cons.IH [OF s1(1,2) inv2 rest]
    have "shrinks (\<lambda>a. a_TaskID a \<in> t_ID ` set (t # ts)) (s1, b1) (s', b')" using IH by (auto elim: shrinks_mono)
    note sh = shrinks_trans [OF sh1 this]
    have store: "map_of m' k = map_of m k \<or> k \<in> t_ID ` set (t # ts) \<and> map_of m' k = None" for k
      using IH by (auto simp: m2 gomap_simps split: if_splits)
    have "map_of m2 (t_ID t) = None" by (simp add: m2 gomap_simps)
    then have t: "map_of m' (t_ID t) = None" using IH by metis
    have "att_rows s' \<subseteq> att_rows s1" using IH by (simp add: shrinks_def)
    then have "\<forall>x \<in> att_rows s'. a_TaskID x \<noteq> t_ID t" using a True by blast
    with sh store t IH show ?thesis by simp
  next
    case False
    obtain r2 m2 where 2: "DeleteTask memoryRepository (ctx (AtDeleteTask (t_ID t))) u (t_ID t) m = (r2, m2)" by fastforce
    have "e \<noteq> None \<and> m' = m \<and> s' = s1 \<and> b' = b1"
      using False Cons.prems(4) 1 2 s1(3) DeleteTask_mem [OF 2] by (cases e1) auto
    with sh1 Cons.prems(3) show ?thesis by auto
  qed
qed

lemma mem_cascade_shrinks:
  assumes "am_inv s" and "fs_inv b" and "mem_inv m" and run: "mem_cascade txt g p ctx u (m, (s, b)) = (e, (m', (s', b')))"
  defines "T \<equiv> {k. \<exists>t. map_of m k = Some t \<and> t_UserID t = u}"
  shows "shrinks (\<lambda>a. a_TaskID a \<in> T) (s, b) (s', b') \<and> mem_inv m' \<and>
    (\<forall>k. map_of m' k = map_of m k \<or> k \<in> T \<and> map_of m' k = None) \<and>
    (e = None \<longrightarrow> (\<forall>k \<in> T. map_of m' k = None \<and> (\<forall>x \<in> att_rows s'. a_TaskID x \<noteq> k)))"
proof -
  obtain rl m1 where l: "ListTasks memoryRepository (ctx AtListTasks) u (-1) 0 [] [] m = (rl, m1)" by fastforce
  show ?thesis
  proof (cases rl)
    case (Inl err)
    have "m1 = m" using l Inl
      by (auto simp: ListTasks_def mem_FindAll_def mem_CountAll_def Let_def split: sum.splits option.splits)
    with run l Inl have "e \<noteq> None" "m' = m" "s' = s" "b' = b" by (auto simp: mem_cascade_def deleteAccountCascade_def)
    with assms(1-3) show ?thesis by (auto simp: shrinks_refl)
  next
    case (Inr tn)
    obtain ts n where tn: "tn = (ts, n)" by fastforce
    note all = mem_listing_all [OF assms(3) l [unfolded Inr tn]]
    have T: "t_ID ` set ts = T" unfolding T_def by (rule listed_ids [OF assms(3)]) (use all in blast)
    have d: "delete_tasks memoryRepository (Some (attachMemory, fsBlobStore g p)) (bind_owns txt) ctx u ts (m, (s, b)) = (e, (m', (s', b')))"
      using run l Inr tn conjunct1 [OF all] by (simp add: mem_cascade_def deleteAccountCascade_def)
    show ?thesis by (rule delete_tasks_shrinks [OF assms(1-3) d, unfolded T])
  qed
qed

subsection \<open>The account itself\<close>

lemma verifyPassword_mem:
  "verifyPassword lib userMemory c u pw us =
     (case uctx_Err c of
        Some e \<Rightarrow> (Inl (WrapPre ''verify password'' e), us)
      | None \<Rightarrow>
          if \<exists>acc. map_of (um_usersByID (us_repo us)) u = Some acc \<and> ul_compare lib (u_PasswordHash acc) pw
          then (Inr (), us) else (Inl (Sentinel UErrInvalidCredentials), us))"
  by (cases c) (auto simp: verifyPassword_def on_repo_apply um_FindUserByID_def unless_done_def split: option.split)

text \<open>\<^verbatim>\<open>DeleteAccount\<close> on any contexts: it touches nobody else, and reports success exactly when the account is gone.\<close>

lemma DeleteAccount_mem:
  assumes "um_inv (us_repo us)" and "DeleteAccount userMemory ctx u us = (r, us')"
  shows "(\<forall>v. v \<noteq> u \<longrightarrow> map_of (um_usersByID (us_repo us')) v = map_of (um_usersByID (us_repo us)) v) \<and>
    (\<forall>k x. sn_UserID x \<noteq> u \<longrightarrow> map_of (um_sessions (us_repo us')) k = Some x \<longleftrightarrow> map_of (um_sessions (us_repo us)) k = Some x) \<and>
    (if r = Inr () then map_of (um_usersByID (us_repo us')) u = None
     else map_of (um_usersByID (us_repo us')) u = map_of (um_usersByID (us_repo us)) u)"
proof -
  note wf = um_inv_sessionsD(1) [OF assms(1)]
  have rd: "map_of (range_delete (\<lambda>h sess. sn_UserID sess = u) (um_sessions (us_repo us))) k = Some x \<longleftrightarrow>
      map_of (um_sessions (us_repo us)) k = Some x" if "sn_UserID x \<noteq> u" for k x
    using that by (simp add: range_delete_lookup [OF wf])
  show ?thesis using assms(2) rd
    by (cases "ctx 0"; cases "ctx (Suc 0)"; cases "map_of (um_usersByID (us_repo us)) u")
      (auto simp: DeleteAccount_def on_repo_apply um_DeleteSessionsForUser_def um_DeleteUser_def unless_done_def gomap_simps)
qed

lemma DeleteAccount_live:
  assumes "um_inv (us_repo us)" and "map_of (um_usersByID (us_repo us)) u = Some acc"
  shows "fst (DeleteAccount userMemory ulive u us) = Inr ()"
  using assms by (simp add: DeleteAccount_def on_repo_apply um_DeleteSessionsForUser_def um_DeleteUser_def)

text \<open>
  C25. Deleting an account is complete. With the right password, contexts that stay live and in-memory stores, whichever system calls
  of the file store fail, the answer is 204 with the session cookie cleared, and gone are exactly: the account with every session
  and cached token of it, the user's tasks and the attachment rows of those tasks. The bytes of each such attachment
  are gone too when the system calls succeed; where \<^verbatim>\<open>os.Remove\<close> fails (the removal is best effort and its error
  only logged) the file may be left as it was, and then no row refers to it any more: it is an orphan for the collector. Nobody else's task,
  attachment row, file or account changes.
\<close>

theorem account_deletion_complete:
  assumes "um_inv (us_repo us)" and "gomap_wf (us_cache us)" and "mem_inv m" and "am_inv s" and "fs_inv b"
    and "uh_repo h = userMemory" and "map_of (um_usersByID (us_repo us)) u = Some acc"
    and "ul_compare (uh_lib h) (u_PasswordHash acc) pw"
    and "\<forall>t. map_of m (t_ID t) = Some t \<and> t_UserID t = u \<longrightarrow> deletable g s t"
    and run: "deleteAccount h ulive (mem_cascade txt g p (\<lambda>_. live)) u (Some \<lparr>da_CurrentPassword = pw\<rparr>) (us, (m, (s, b))) =
      (rs, (us', (m', (s', b'))))"
  shows "rs_Status rs = 204 \<and> rs_Audit rs = [(''account_deleted'', u)] \<and>
    rs_Cookies rs = [clearSessionCookie (uh_cookieInsecure h)] \<and>
    map_of (um_usersByID (us_repo us')) u = None \<and>
    (\<forall>lib clk token. fst (ValidateToken lib userMemory ulive clk token us') \<noteq> Inr u) \<and>
    (\<forall>v. v \<noteq> u \<longrightarrow> map_of (um_usersByID (us_repo us')) v = map_of (um_usersByID (us_repo us)) v) \<and>
    (\<forall>k t. map_of m' k = Some t \<longleftrightarrow> map_of m k = Some t \<and> t_UserID t \<noteq> u) \<and>
    (\<forall>a. a \<in> att_rows s' \<longleftrightarrow> a \<in> att_rows s \<and> \<not> (\<exists>t. map_of m (a_TaskID a) = Some t \<and> t_UserID t = u)) \<and>
    (\<forall>k. if \<exists>a t. a \<in> att_rows s \<and> a_StorageKey a = k \<and> map_of m (a_TaskID a) = Some t \<and> t_UserID t = u
       then (fs_content b' k = None \<or> \<not> fs_clean b \<and> fs_content b' k = fs_content b k) \<and> k \<notin> a_StorageKey ` att_rows s'
       else fs_content b' k = fs_content b k)"
proof -
  define T where "T = {k. \<exists>t. map_of m k = Some t \<and> t_UserID t = u}"
  obtain m1 s1 b1 where c: "mem_cascade txt g p (\<lambda>_. live) u (m, (s, b)) = (None, (m1, (s1, b1)))"
    and m1: "\<forall>k. map_of m1 k = (if k \<in> T then None else map_of m k)"
    and rows: "att_rows s1 = {x \<in> att_rows s. a_TaskID x \<notin> T}"
    and blobs: "swept (keys_of T s) b b1"
    using mem_cascade_live [OF assms(3-5,9)] unfolding T_def by blast
  obtain us1 where d: "DeleteAccount userMemory ulive u us = (Inr (), us1)"
    using DeleteAccount_live [OF assms(1,7)] by (metis prod.collapse)
  have v: "verifyPassword (uh_lib h) userMemory ULive u pw us = (Inr (), us)"
    using assms(7,8) by (auto simp: verifyPassword_mem)
  have eq: "us' = us1" "m' = m1" "s' = s1" "b' = b1" and rs: "rs_Status rs = 204" "rs_Audit rs = [(''account_deleted'', u)]"
    "rs_Cookies rs = [clearSessionCookie (uh_cookieInsecure h)]"
    using run assms(6) v c d by (auto simp: deleteAccount_def uresponse_defs audit_defs)
  have gone: "map_of (um_usersByID (us_repo us')) u = None"
    "\<forall>v. v \<noteq> u \<longrightarrow> map_of (um_usersByID (us_repo us')) v = map_of (um_usersByID (us_repo us)) v"
    using DeleteAccount_mem [OF assms(1) d] eq by auto
  have out: "fst (ValidateToken lib userMemory ulive clk token us') \<noteq> Inr u" for lib clk token
    using DeleteAccount_signed_out [OF assms(1,2), of u] d eq(1) by (intro signed_out_refused) simp
  have tasks: "map_of m' k = Some t \<longleftrightarrow> map_of m k = Some t \<and> t_UserID t \<noteq> u" for k t
    unfolding eq m1 [rule_format] T_def by auto
  have row: "a \<in> att_rows s' \<longleftrightarrow> a \<in> att_rows s \<and> \<not> (\<exists>t. map_of m (a_TaskID a) = Some t \<and> t_UserID t = u)" for a
    unfolding eq rows T_def by blast
  have key: "k \<in> keys_of T s \<longleftrightarrow> (\<exists>a t. a \<in> att_rows s \<and> a_StorageKey a = k \<and> map_of m (a_TaskID a) = Some t \<and> t_UserID t = u)" for k
    unfolding keys_of_def T_def by blast
  have "k \<notin> a_StorageKey ` att_rows s'" if "k \<in> keys_of T s" for k
    using that am_inv_inj [OF assms(4)] unfolding eq rows keys_of_def by (auto simp: inj_on_def)
  then have "if k \<in> keys_of T s then (fs_content b' k = None \<or> \<not> fs_clean b \<and> fs_content b' k = fs_content b k) \<and> k \<notin> a_StorageKey ` att_rows s'
      else fs_content b' k = fs_content b k" for k
    using blobs unfolding eq swept_def without_blobs_def by auto
  then have "\<forall>k. if \<exists>a t. a \<in> att_rows s \<and> a_StorageKey a = k \<and> map_of m (a_TaskID a) = Some t \<and> t_UserID t = u
      then (fs_content b' k = None \<or> \<not> fs_clean b \<and> fs_content b' k = fs_content b k) \<and> k \<notin> a_StorageKey ` att_rows s'
      else fs_content b' k = fs_content b k" unfolding key by blast
  with rs gone out tasks row show ?thesis by blast
qed

text \<open>The outcomes of the handler, on any contexts and faults.\<close>

lemma deleteAccount_outcomes:
  assumes "uh_repo h = userMemory" and "deleteAccount h ctx cascade u body (us, w) = (rs, (us', w'))"
  obtains (untouched) "us' = us" "w' = w" "rs_Status rs \<noteq> 204"
    | (stopped) req acc e where "body = Some req" "map_of (um_usersByID (us_repo us)) u = Some acc"
      "ul_compare (uh_lib h) (u_PasswordHash acc) (da_CurrentPassword req)"
      "us' = us" "cascade u w = (Some e, w')" "rs_Status rs = 500"
    | (cascaded) req acc r where "body = Some req" "map_of (um_usersByID (us_repo us)) u = Some acc"
      "ul_compare (uh_lib h) (u_PasswordHash acc) (da_CurrentPassword req)"
      "cascade u w = (None, w')" "DeleteAccount userMemory (\<lambda>i. ctx (1 + i)) u us = (r, us')"
      "rs_Status rs = 204 \<longleftrightarrow> r = Inr ()"
proof -
  have no204: "rs_Status (uhandleServiceError tx err) \<noteq> 204" for tx err
    by (simp add: uhandleServiceError_def uresponse_defs)
  show thesis
  proof (cases body)
    case None
    with assms(2) show thesis by (intro untouched) (auto simp: deleteAccount_def uresponse_defs)
  next
    case (Some req)
    show thesis
    proof (cases "fst (verifyPassword (uh_lib h) userMemory (ctx 0) u (da_CurrentPassword req) us)")
      case (Inl err)
      moreover have "snd (verifyPassword (uh_lib h) userMemory (ctx 0) u (da_CurrentPassword req) us) = us"
        by (simp add: verifyPassword_mem split: option.split)
      ultimately show thesis using assms Some no204
        by (intro untouched) (auto simp: deleteAccount_def split_beta)
    next
      case (Inr x)
      then have v: "verifyPassword (uh_lib h) userMemory (ctx 0) u (da_CurrentPassword req) us = (Inr (), us)"
        by (auto simp: verifyPassword_mem split: option.splits if_splits)
      then obtain acc where acc: "map_of (um_usersByID (us_repo us)) u = Some acc"
        "ul_compare (uh_lib h) (u_PasswordHash acc) (da_CurrentPassword req)"
        by (auto simp: verifyPassword_mem split: option.splits if_splits)
      obtain e w1 where c: "cascade u w = (e, w1)" by fastforce
      obtain r us1 where d: "DeleteAccount userMemory (\<lambda>i. ctx (1 + i)) u us = (r, us1)" by fastforce
      show thesis
      proof (cases e)
        case None
        with assms Some v c d have "us' = us1" "w' = w1" "rs_Status rs = 204 \<longleftrightarrow> r = Inr ()"
          using no204 by (auto simp: deleteAccount_def uresponse_defs split: sum.splits)
        with None Some acc c d show thesis by (intro cascaded) auto
      next
        case (Some err)
        with assms \<open>body = Some req\<close> v c have "us' = us" "w' = w1" "rs_Status rs = 500"
          by (auto simp: deleteAccount_def uresponse_defs)
        with Some \<open>body = Some req\<close> acc c show thesis by (intro stopped) auto
      qed
    qed
  qed
qed

text \<open>
  C26. Deleting an account is confined, whatever fails: however the contexts end and whichever system calls fail, no other
  user's task, account or session, no attachment of another user's task and no file of such an attachment
  changes; the answer is 204 only if the password was right and the account, all its tasks and all their
  attachment rows are gone; with any other answer the account is still there, so the request can be repeated; and a
  wrong password gives 401 and changes nothing.
\<close>

theorem account_deletion_confined:
  assumes "um_inv (us_repo us)" and "mem_inv m" and "am_inv s" and "fs_inv b" and "uh_repo h = userMemory"
    and run: "deleteAccount h ctx (mem_cascade txt g p cctx) u body (us, (m, (s, b))) = (rs, (us', (m', (s', b'))))"
  shows "(\<forall>k t. t_UserID t \<noteq> u \<longrightarrow> map_of m' k = Some t \<longleftrightarrow> map_of m k = Some t) \<and>
    (\<forall>a. \<not> (\<exists>t. map_of m (a_TaskID a) = Some t \<and> t_UserID t = u) \<longrightarrow>
       (a \<in> att_rows s' \<longleftrightarrow> a \<in> att_rows s) \<and> (a \<in> att_rows s \<longrightarrow> fs_content b' (a_StorageKey a) = fs_content b (a_StorageKey a))) \<and>
    (\<forall>v. v \<noteq> u \<longrightarrow> map_of (um_usersByID (us_repo us')) v = map_of (um_usersByID (us_repo us)) v) \<and>
    (\<forall>k x. sn_UserID x \<noteq> u \<longrightarrow> map_of (um_sessions (us_repo us')) k = Some x \<longleftrightarrow> map_of (um_sessions (us_repo us)) k = Some x) \<and>
    (if rs_Status rs = 204
     then (\<exists>req acc. body = Some req \<and> map_of (um_usersByID (us_repo us)) u = Some acc \<and>
             ul_compare (uh_lib h) (u_PasswordHash acc) (da_CurrentPassword req)) \<and>
       map_of (um_usersByID (us_repo us')) u = None \<and> (\<forall>k t. map_of m' k = Some t \<longrightarrow> t_UserID t \<noteq> u) \<and>
       (\<forall>a \<in> att_rows s'. \<not> (\<exists>t. map_of m (a_TaskID a) = Some t \<and> t_UserID t = u))
     else map_of (um_usersByID (us_repo us')) u = map_of (um_usersByID (us_repo us)) u) \<and>
    (\<forall>req acc. body = Some req \<and> map_of (um_usersByID (us_repo us)) u = Some acc \<and>
       \<not> ul_compare (uh_lib h) (u_PasswordHash acc) (da_CurrentPassword req) \<and> ctx 0 = ULive \<longrightarrow>
       rs_Status rs = 401 \<and> us' = us \<and> m' = m \<and> s' = s \<and> b' = b)"
    (is "?tasks \<and> ?rows \<and> ?users \<and> ?sessions \<and> ?status \<and> ?wrong")
proof -
  define T where "T = {k. \<exists>t. map_of m k = Some t \<and> t_UserID t = u}"
  have wrong: ?wrong
    using run assms(5) by (auto simp: deleteAccount_def verifyPassword_mem uhandleServiceError_def uresponse_defs)
  have kept: ?tasks ?rows if w: "mem_cascade txt g p cctx u (m, (s, b)) = (e, (m', (s', b')))" for e
  proof -
    note sh = mem_cascade_shrinks [OF assms(3,4,2) w, folded T_def]
    have "t_UserID t \<noteq> u \<Longrightarrow> map_of m' k = Some t \<longleftrightarrow> map_of m k = Some t" for k t
      using conjunct1 [OF conjunct2 [OF conjunct2 [OF sh]], rule_format, of k] unfolding T_def by auto
    then show ?tasks by blast
    have "(a \<in> att_rows s' \<longleftrightarrow> a \<in> att_rows s) \<and> (a \<in> att_rows s \<longrightarrow> fs_content b' (a_StorageKey a) = fs_content b (a_StorageKey a))"
      if a: "a_TaskID a \<notin> T" for a
    proof -
      have rows: "a \<in> att_rows s' \<longleftrightarrow> a \<in> att_rows s" using sh a unfolding shrinks_def fst_conv by blast
      have "a_StorageKey a \<notin> a_StorageKey ` (att_rows s - att_rows s')" if "a \<in> att_rows s"
        using that rows am_inv_inj [OF assms(3)] by (auto simp: inj_on_def)
      with rows sh show ?thesis unfolding shrinks_def fst_conv snd_conv by blast
    qed
    then show ?rows unfolding T_def by blast
  qed
  from assms(5) run show ?thesis
  proof (cases rule: deleteAccount_outcomes)
    case untouched
    then show ?thesis using wrong by simp
  next
    case (stopped req acc e)
    then show ?thesis using wrong kept [OF stopped(5)] by simp
  next
    case (cascaded req acc r)
    note sh = mem_cascade_shrinks [OF assms(3,4,2) cascaded(4), folded T_def]
    have gone: "\<forall>k t. map_of m' k = Some t \<longrightarrow> t_UserID t \<noteq> u"
      "\<forall>a \<in> att_rows s'. \<not> (\<exists>t. map_of m (a_TaskID a) = Some t \<and> t_UserID t = u)"
    proof -
      show "\<forall>a \<in> att_rows s'. \<not> (\<exists>t. map_of m (a_TaskID a) = Some t \<and> t_UserID t = u)"
        using sh unfolding T_def by blast
      show "\<forall>k t. map_of m' k = Some t \<longrightarrow> t_UserID t \<noteq> u"
      proof (intro allI impI notI)
        fix k t assume t: "map_of m' k = Some t" "t_UserID t = u"
        then have "map_of m k = Some t"
          using conjunct1 [OF conjunct2 [OF conjunct2 [OF sh]], rule_format, of k] by simp
        with t(2) have "k \<in> T" unfolding T_def by blast
        with sh t(1) show False by auto
      qed
    qed
    have acc: "\<exists>req acc. body = Some req \<and> map_of (um_usersByID (us_repo us)) u = Some acc \<and>
             ul_compare (uh_lib h) (u_PasswordHash acc) (da_CurrentPassword req)" using cascaded(1-3) by blast
    note d = DeleteAccount_mem [OF assms(1) cascaded(5)]
    have ?status using d gone acc cascaded(6) by (cases "r = Inr ()") simp_all
    with wrong kept [OF cascaded(4)] d show ?thesis by blast
  qed
qed

subsection \<open>A concrete account\<close>

definition demo_own_task :: task where
  "demo_own_task = demo_task\<lparr>t_UserID := u_ID demo_user\<rparr>"

definition demo_world :: mem_world where
  "demo_world = ([(demo_id, demo_own_task)], (demo_att_mem, demo_fs [(demo_id, File ''two litres'' 7)] 0 7))"

lemma demo_world_ok:
  "mem_inv [(demo_id, demo_own_task)]" "am_inv demo_att_mem" "fs_clean (demo_fs [(demo_id, File ''two litres'' 7)] 0 7)"
  "fs_inv (demo_fs [(demo_id, File ''two litres'' 7)] 0 7)" "deletable demo_guard demo_att_mem demo_own_task" "t_UserID demo_own_task = u_ID demo_user"
  using demo_valid [unfolded aisValidID_eq]
  by (simp_all add: mem_inv_def keyed_def demo_own_task_def demo_task_def am_inv_def demo_att_mem_def demo_att_def
      fs_clean_def demo_fs_def deletable_def att_rows_def demo_guard_def aisValidID_eq)

lemma demo_accounts_user:
  "map_of (um_usersByID (us_repo demo_accounts)) (u_ID demo_user) = Some demo_user" "gomap_wf (us_cache demo_accounts)"
  by (simp_all add: demo_accounts_def NewUserService_def um_New_def)

theorem account_deletion_complete_witness:
  "fs_content (snd (snd (snd (snd (deleteAccount demo_user_handler ulive (mem_cascade (\<lambda>_. '''') demo_guard (\<lambda>_. True) (\<lambda>_. live))
     (u_ID demo_user) (Some \<lparr>da_CurrentPassword = ''correct horse''\<rparr>) (demo_accounts, demo_world)))))) demo_id = None"
proof -
  let ?run = "deleteAccount demo_user_handler ulive (mem_cascade (\<lambda>_. '''') demo_guard (\<lambda>_. True) (\<lambda>_. live))
     (u_ID demo_user) (Some \<lparr>da_CurrentPassword = ''correct horse''\<rparr>) (demo_accounts, demo_world)"
  obtain rs us' m' s' b' where run: "?run = (rs, (us', (m', (s', b'))))" by (metis prod_cases5)
  have pw: "ul_compare (uh_lib demo_user_handler) (u_PasswordHash demo_user) ''correct horse''" by (simp add: demo_user_def)
  have del: "\<forall>t. map_of [(demo_id, demo_own_task)] (t_ID t) = Some t \<and> t_UserID t = u_ID demo_user \<longrightarrow> deletable demo_guard demo_att_mem t"
    using demo_world_ok(5) by auto
  have "demo_att \<in> att_rows demo_att_mem" "a_StorageKey demo_att = demo_id" "a_TaskID demo_att = demo_id"
    by (simp_all add: att_rows_def demo_att_mem_def) (simp_all add: demo_att_def)
  moreover have "map_of [(demo_id, demo_own_task)] demo_id = Some demo_own_task" by simp
  ultimately have "fs_content b' demo_id = None"
    using account_deletion_complete [OF demo_accounts_inv(1) demo_accounts_user(2) demo_world_ok(1,2,4) demo_user_handler_sel(3)
        demo_accounts_user(1) pw del run [unfolded demo_world_def]] demo_world_ok(3,6) by metis
  with run show ?thesis by simp
qed

theorem account_deletion_confined_witness:
  "rs_Status (fst (deleteAccount demo_user_handler ulive (mem_cascade (\<lambda>_. '''') demo_guard (\<lambda>_. True) (\<lambda>_. live))
     (u_ID demo_user) (Some \<lparr>da_CurrentPassword = ''guess''\<rparr>) (demo_accounts, demo_world))) = 401"
proof -
  let ?run = "deleteAccount demo_user_handler ulive (mem_cascade (\<lambda>_. '''') demo_guard (\<lambda>_. True) (\<lambda>_. live))
     (u_ID demo_user) (Some \<lparr>da_CurrentPassword = ''guess''\<rparr>) (demo_accounts, demo_world)"
  obtain rs us' m' s' b' where run: "?run = (rs, (us', (m', (s', b'))))" by (metis prod_cases5)
  have "\<not> ul_compare (uh_lib demo_user_handler) (u_PasswordHash demo_user) ''guess''" by (simp add: demo_user_def)
  with account_deletion_confined [OF demo_accounts_inv(1) demo_world_ok(1,2,4) demo_user_handler_sel(3) run [unfolded demo_world_def]]
  have "rs_Status rs = 401" using demo_accounts_user(1) by auto
  with run show ?thesis by simp
qed

end
