(* ===== verification/UserSessions.thy ===== *)
theory UserSessions
  imports UserPostgres
begin

text \<open>
  Logins side by side. Each \<^verbatim>\<open>CreateSession\<close> is a transaction of five statements, and under \<^verbatim>\<open>READ COMMITTED\<close>
  each statement sees what others have committed by then and the transaction's own rows. The theory interleaves the
  statements of any number of transactions, with the advisory lock as the only thing that orders them, and shows that
  the cap on sessions holds in every committed state.
\<close>

text \<open>
  How far a transaction is: begun for a session, holding the lock of its user, its row inserted, and the user's older sessions
  selected for removal (by token hash; the removal and the row become visible with the commit).
\<close>

datatype tx = Begun session | Holding session | Inserted session | Evicting session "string list"

record login_sys =
  ls_users :: "user list"
  ls_sessions :: "session list"
  ls_txs :: "nat \<Rightarrow> tx option"

fun tx_session :: "tx \<Rightarrow> session" where
  "tx_session (Begun x) = x"
| "tx_session (Holding x) = x"
| "tx_session (Inserted x) = x"
| "tx_session (Evicting x vs) = x"

fun tx_holds :: "tx \<Rightarrow> bool" where
  "tx_holds (Begun x) = False"
| "tx_holds _ = True"

fun tx_inserted :: "tx \<Rightarrow> bool" where
  "tx_inserted (Inserted x) = True"
| "tx_inserted (Evicting x vs) = True"
| "tx_inserted _ = False"

text \<open>
  The steps of a run with \<open>maxSessions\<close> and the server's \<^verbatim>\<open>hashtext\<close>. A lock is granted when no other transaction
  holds the same number; an insertion conflicts with a committed or a pending row of the same token hash;
  \<open>rollback\<close> stands for every error of a statement, a lost connection and a done context; \<open>removal\<close> for logouts, expiry and account
  deletion, committed at once.
\<close>

inductive lstep :: "pg_lib \<Rightarrow> (string \<Rightarrow> int) \<Rightarrow> nat \<Rightarrow> login_sys \<Rightarrow> login_sys \<Rightarrow> bool"
  for pg hashtext maxSessions where
  begun: "ls_txs s i = None \<Longrightarrow> uuid_in pg (sn_UserID x) = Some (sn_UserID x) \<Longrightarrow>
     lstep pg hashtext maxSessions s (s\<lparr>ls_txs := (ls_txs s)(i \<mapsto> Begun x)\<rparr>)"
| lock: "ls_txs s i = Some (Begun x) \<Longrightarrow>
     (\<And>j t. ls_txs s j = Some t \<Longrightarrow> tx_holds t \<Longrightarrow> hashtext (sn_UserID (tx_session t)) \<noteq> hashtext (sn_UserID x)) \<Longrightarrow>
     lstep pg hashtext maxSessions s (s\<lparr>ls_txs := (ls_txs s)(i \<mapsto> Holding x)\<rparr>)"
| insert: "ls_txs s i = Some (Holding x) \<Longrightarrow>
     usql_insert_session pg x (ls_users s, ls_sessions s) = Inr (us, ls_sessions s @ [row]) \<Longrightarrow>
     (\<And>j t. ls_txs s j = Some t \<Longrightarrow> tx_inserted t \<Longrightarrow> sn_TokenHash (tx_session t) \<noteq> sn_TokenHash x) \<Longrightarrow>
     lstep pg hashtext maxSessions s (s\<lparr>ls_txs := (ls_txs s)(i \<mapsto> Inserted row)\<rparr>)"
| evict: "ls_txs s i = Some (Inserted row) \<Longrightarrow>
     usql_evict pg (sn_UserID row) maxSessions (ls_users s, ls_sessions s @ [row]) = Inr (us, kept) \<Longrightarrow>
     lstep pg hashtext maxSessions s
       (s\<lparr>ls_txs := (ls_txs s)(i \<mapsto> Evicting row (map sn_TokenHash (filter (\<lambda>y. y \<notin> set kept) (ls_sessions s @ [row]))))\<rparr>)"
| commit: "ls_txs s i = Some (Evicting row victims) \<Longrightarrow>
     lstep pg hashtext maxSessions s
       (s\<lparr>ls_sessions := filter (\<lambda>y. sn_TokenHash y \<notin> set victims) (ls_sessions s @ [row]), ls_txs := (ls_txs s)(i := None)\<rparr>)"
| rollback: "lstep pg hashtext maxSessions s (s\<lparr>ls_txs := (ls_txs s)(i := None)\<rparr>)"
| removal: "lstep pg hashtext maxSessions s (s\<lparr>ls_sessions := filter P (ls_sessions s)\<rparr>)"
| users: "lstep pg hashtext maxSessions s (s\<lparr>ls_users := us\<rparr>)"

inductive lreach :: "pg_lib \<Rightarrow> (string \<Rightarrow> int) \<Rightarrow> nat \<Rightarrow> login_sys \<Rightarrow> bool"
  for pg hashtext maxSessions where
  init: "lreach pg hashtext maxSessions \<lparr>ls_users = us, ls_sessions = [], ls_txs = (\<lambda>_. None)\<rparr>"
| step: "lreach pg hashtext maxSessions s \<Longrightarrow> lstep pg hashtext maxSessions s s' \<Longrightarrow> lreach pg hashtext maxSessions s'"

subsection \<open>The invariant\<close>

abbreviation user_sessions :: "string \<Rightarrow> session list \<Rightarrow> session list" where
  "user_sessions u ss \<equiv> filter (\<lambda>x. sn_UserID x = u) ss"

definition tx_ok :: "pg_lib \<Rightarrow> nat \<Rightarrow> session list \<Rightarrow> tx \<Rightarrow> bool" where
  "tx_ok pg n ss t \<longleftrightarrow> uuid_in pg (sn_UserID (tx_session t)) = Some (sn_UserID (tx_session t)) \<and>
     (tx_inserted t \<longrightarrow> sn_TokenHash (tx_session t) \<notin> sn_TokenHash ` set ss) \<and>
     (\<forall>row vs. t = Evicting row vs \<longrightarrow>
        length (user_sessions (sn_UserID row) (filter (\<lambda>y. sn_TokenHash y \<notin> set vs) (ss @ [row]))) \<le> n)"

lemma tx_ok_Evicting:
  "tx_ok pg n ss (Evicting row vs) \<longleftrightarrow> uuid_in pg (sn_UserID row) = Some (sn_UserID row) \<and>
     sn_TokenHash row \<notin> sn_TokenHash ` set ss \<and>
     length (user_sessions (sn_UserID row) (filter (\<lambda>y. sn_TokenHash y \<notin> set vs) (ss @ [row]))) \<le> n"
  by (simp add: tx_ok_def)

text \<open>Two transactions at the same time: not the same lock, not the same token hash.\<close>

definition tx_apart :: "(string \<Rightarrow> int) \<Rightarrow> tx \<Rightarrow> tx \<Rightarrow> bool" where
  "tx_apart h t t' \<longleftrightarrow>
     (tx_holds t \<and> tx_holds t' \<longrightarrow> h (sn_UserID (tx_session t)) \<noteq> h (sn_UserID (tx_session t'))) \<and>
     (tx_inserted t \<and> tx_inserted t' \<longrightarrow> sn_TokenHash (tx_session t) \<noteq> sn_TokenHash (tx_session t'))"

definition linv :: "pg_lib \<Rightarrow> (string \<Rightarrow> int) \<Rightarrow> nat \<Rightarrow> login_sys \<Rightarrow> bool" where
  "linv pg h n s \<longleftrightarrow> distinct (map sn_TokenHash (ls_sessions s)) \<and>
     (\<forall>u. length (user_sessions u (ls_sessions s)) \<le> n) \<and>
     (\<forall>i t. ls_txs s i = Some t \<longrightarrow> tx_ok pg n (ls_sessions s) t) \<and>
     (\<forall>i j t t'. ls_txs s i = Some t \<longrightarrow> ls_txs s j = Some t' \<longrightarrow> i \<noteq> j \<longrightarrow> tx_apart h t t')"

lemma linvD:
  assumes "linv pg h n s"
  shows "distinct (map sn_TokenHash (ls_sessions s))" "length (user_sessions u (ls_sessions s)) \<le> n"
    "ls_txs s i = Some t \<Longrightarrow> tx_ok pg n (ls_sessions s) t"
    "ls_txs s i = Some t \<Longrightarrow> ls_txs s j = Some t' \<Longrightarrow> i \<noteq> j \<Longrightarrow> tx_apart h t t'"
  using assms unfolding linv_def by blast+

lemma tx_apart_sym: "tx_apart h t t' \<longleftrightarrow> tx_apart h t' t"
  by (auto simp: tx_apart_def)

text \<open>One transaction moves on.\<close>

lemma linv_tx:
  assumes "linv pg h n s" and "tx_ok pg n (ls_sessions s) t"
    and "\<And>j t'. ls_txs s j = Some t' \<Longrightarrow> j \<noteq> i \<Longrightarrow> tx_apart h t t'"
  shows "linv pg h n (s\<lparr>ls_txs := (ls_txs s)(i \<mapsto> t)\<rparr>)"
  using assms linvD [OF assms(1)] unfolding linv_def by (auto simp: tx_apart_sym split: if_splits)

text \<open>Fewer sessions, fewer transactions.\<close>

lemma length_filter_conj: "length (filter (\<lambda>x. P x \<and> Q x) xs) \<le> length (filter Q xs)"
  by (induction xs) auto

lemma tx_ok_fewer:
  assumes "tx_ok pg n ss t"
  shows "tx_ok pg n (filter P ss) t"
proof (cases t)
  case (Evicting row vs)
  with assms length_filter_conj [of P "\<lambda>x. sn_TokenHash x \<notin> set vs \<and> sn_UserID x = sn_UserID row" ss] show ?thesis
    by (auto simp: tx_ok_def)
qed (use assms in \<open>auto simp: tx_ok_def\<close>)

lemma linv_fewer:
  assumes "linv pg h n s"
  shows "linv pg h n (s\<lparr>ls_sessions := filter P (ls_sessions s)\<rparr>)" "linv pg h n (s\<lparr>ls_txs := (ls_txs s)(i := None)\<rparr>)"
proof -
  have "length (filter (\<lambda>x. P x \<and> sn_UserID x = u) (ls_sessions s)) \<le> n" for u
    using length_filter_conj linvD(2) [OF assms] by (rule order_trans)
  with linvD [OF assms] show "linv pg h n (s\<lparr>ls_sessions := filter P (ls_sessions s)\<rparr>)"
    unfolding linv_def by (auto simp: distinct_map_filter tx_ok_fewer)
  show "linv pg h n (s\<lparr>ls_txs := (ls_txs s)(i := None)\<rparr>)"
    using linvD [OF assms] unfolding linv_def by (auto split: if_splits)
qed

subsection \<open>The steps keep it\<close>

lemma insert_session_row:
  assumes "usql_insert_session pg x (us, ss) = Inr (us', ss @ [row])" and "uuid_in pg (sn_UserID x) = Some (sn_UserID x)"
  shows "sn_TokenHash row = sn_TokenHash x \<and> sn_UserID row = sn_UserID x \<and> sn_TokenHash x \<notin> sn_TokenHash ` set ss"
  using assms by (auto simp: usql_insert_session_def with_uuid_def with_text_def split: if_splits)

text \<open>What the eviction leaves of the user's sessions is within the limit.\<close>

lemma evict_within_limit:
  assumes "usql_evict pg u n (us, ss) = Inr (us', kept)" and "uuid_in pg u = Some u" and "distinct (map sn_TokenHash ss)"
  shows "length (user_sessions u (filter (\<lambda>y. sn_TokenHash y \<notin> set (map sn_TokenHash (filter (\<lambda>y. y \<notin> set kept) ss))) ss)) \<le> n"
proof -
  define keep where "keep = set (map sn_TokenHash (take n (newest_first u ss)))"
  have k: "kept = filter (\<lambda>x. \<not> (sn_UserID x = u \<and> sn_TokenHash x \<notin> keep)) ss"
    using assms(1,2) by (simp add: usql_evict_def with_uuid_def Let_def keep_def)
  define V where "V = set (map sn_TokenHash (filter (\<lambda>y. y \<notin> set kept) ss))"
  define left where "left = user_sessions u (filter (\<lambda>y. sn_TokenHash y \<notin> V) ss)"
  have sub: "sn_TokenHash ` set left \<subseteq> keep"
  proof (rule image_subsetI)
    fix y assume "y \<in> set left"
    then have y: "y \<in> set ss" "sn_UserID y = u" "sn_TokenHash y \<notin> V" unfolding left_def by simp_all
    then have "y \<in> set kept" unfolding V_def by force
    with y(2) k show "sn_TokenHash y \<in> keep" by simp
  qed
  have "distinct (map sn_TokenHash left)" unfolding left_def using assms(3) by (intro distinct_map_filter)
  then have "length left = card (sn_TokenHash ` set left)" by (metis distinct_card length_map set_map)
  also have "\<dots> \<le> card keep" using sub by (intro card_mono) (simp_all add: keep_def)
  also have "\<dots> \<le> n" unfolding keep_def by (rule order_trans [OF card_length]) simp
  finally show ?thesis unfolding left_def V_def .
qed

lemma linv_lock:
  assumes "linv pg h n s" and "ls_txs s i = Some (Begun x)"
    and "\<And>j t. ls_txs s j = Some t \<Longrightarrow> tx_holds t \<Longrightarrow> h (sn_UserID (tx_session t)) \<noteq> h (sn_UserID x)"
  shows "linv pg h n (s\<lparr>ls_txs := (ls_txs s)(i \<mapsto> Holding x)\<rparr>)"
proof (rule linv_tx [OF assms(1)])
  show "tx_ok pg n (ls_sessions s) (Holding x)" using linvD(3) [OF assms(1,2)] by (simp add: tx_ok_def)
  show "tx_apart h (Holding x) t'" if "ls_txs s j = Some t'" "j \<noteq> i" for j t'
    using assms(3) [OF that(1)] by (auto simp: tx_apart_def)
qed

lemma linv_insert:
  assumes "linv pg h n s" and i: "ls_txs s i = Some (Holding x)"
    and ins: "usql_insert_session pg x (ls_users s, ls_sessions s) = Inr (us, ls_sessions s @ [row])"
    and fresh: "\<And>j t. ls_txs s j = Some t \<Longrightarrow> tx_inserted t \<Longrightarrow> sn_TokenHash (tx_session t) \<noteq> sn_TokenHash x"
  shows "linv pg h n (s\<lparr>ls_txs := (ls_txs s)(i \<mapsto> Inserted row)\<rparr>)"
proof (rule linv_tx [OF assms(1)])
  have canon: "uuid_in pg (sn_UserID x) = Some (sn_UserID x)" using linvD(3) [OF assms(1) i] by (simp add: tx_ok_def)
  note row = insert_session_row [OF ins canon]
  then show "tx_ok pg n (ls_sessions s) (Inserted row)" using canon by (simp add: tx_ok_def)
  show "tx_apart h (Inserted row) t'" if "ls_txs s j = Some t'" "j \<noteq> i" for j t'
    using linvD(4) [OF assms(1) i that(1)] that(2) fresh [OF that(1)] row by (auto simp: tx_apart_def)
qed

lemma linv_evict:
  assumes "linv pg h n s" and i: "ls_txs s i = Some (Inserted row)"
    and ev: "usql_evict pg (sn_UserID row) n (ls_users s, ls_sessions s @ [row]) = Inr (us, kept)"
  shows "linv pg h n (s\<lparr>ls_txs := (ls_txs s)(i \<mapsto> Evicting row (map sn_TokenHash (filter (\<lambda>y. y \<notin> set kept) (ls_sessions s @ [row]))))\<rparr>)"
proof (rule linv_tx [OF assms(1)])
  have ok: "uuid_in pg (sn_UserID row) = Some (sn_UserID row)" "sn_TokenHash row \<notin> sn_TokenHash ` set (ls_sessions s)"
    using linvD(3) [OF assms(1) i] by (simp_all add: tx_ok_def)
  have "distinct (map sn_TokenHash (ls_sessions s @ [row]))" using linvD(1) [OF assms(1)] ok(2) by simp
  from evict_within_limit [OF ev ok(1) this] ok
  show "tx_ok pg n (ls_sessions s) (Evicting row (map sn_TokenHash (filter (\<lambda>y. y \<notin> set kept) (ls_sessions s @ [row]))))"
    unfolding tx_ok_Evicting by blast
  show "tx_apart h (Evicting row vs) t'" if "ls_txs s j = Some t'" "j \<noteq> i" for j t' vs
    using linvD(4) [OF assms(1) i that(1)] that(2) by (auto simp: tx_apart_def)
qed

lemma linv_commit:
  assumes "linv pg h n s" and i: "ls_txs s i = Some (Evicting row vs)"
  shows "linv pg h n (s\<lparr>ls_sessions := filter (\<lambda>y. sn_TokenHash y \<notin> set vs) (ls_sessions s @ [row]), ls_txs := (ls_txs s)(i := None)\<rparr>)"
proof -
  let ?new = "filter (\<lambda>y. sn_TokenHash y \<notin> set vs) (ls_sessions s @ [row])"
  note inv = linvD [OF assms(1)]
  have ok: "sn_TokenHash row \<notin> sn_TokenHash ` set (ls_sessions s)" "length (user_sessions (sn_UserID row) ?new) \<le> n"
    using inv(3) [OF i] by (simp_all add: tx_ok_def)
  have dist: "distinct (map sn_TokenHash ?new)" using inv(1) ok(1) by (intro distinct_map_filter) simp
  have others: "user_sessions u (filter (\<lambda>y. sn_TokenHash y \<notin> set vs) (ls_sessions s @ [row])) =
      filter (\<lambda>y. sn_TokenHash y \<notin> set vs \<and> sn_UserID y = u) (ls_sessions s)" if "u \<noteq> sn_UserID row" for u
    using that by simp
  have cap: "length (user_sessions u ?new) \<le> n" for u
  proof (cases "u = sn_UserID row")
    case False
    show ?thesis unfolding others [OF False] by (rule order_trans [OF length_filter_conj inv(2)])
  qed (use ok(2) in simp)
  have tx: "tx_ok pg n ?new t" if j: "ls_txs s j = Some t" "j \<noteq> i" for j t
  proof -
    have apart: "tx_apart h (Evicting row vs) t" using inv(4) [OF i j(1)] j(2) by simp
    have fewer: "tx_ok pg n (filter (\<lambda>y. sn_TokenHash y \<notin> set vs) (ls_sessions s)) t" by (rule tx_ok_fewer [OF inv(3) [OF j(1)]])
    show ?thesis
    proof (cases t)
      case (Evicting row' vs')
      with apart have "sn_UserID row' \<noteq> sn_UserID row" "sn_TokenHash row' \<noteq> sn_TokenHash row" by (auto simp: tx_apart_def)
      with fewer Evicting show ?thesis by (auto simp: tx_ok_def)
    qed (use fewer apart in \<open>auto simp: tx_ok_def tx_apart_def\<close>)
  qed
  show ?thesis unfolding linv_def using dist cap tx inv(4) by (auto split: if_splits)
qed

lemma lstep_linv: "lstep pg h n s s' \<Longrightarrow> linv pg h n s \<Longrightarrow> linv pg h n s'"
proof (induction rule: lstep.induct)
  case (begun s i x)
  show ?case by (rule linv_tx [OF begun.prems]) (use begun in \<open>auto simp: tx_ok_def tx_apart_def\<close>)
next
  case (users s us)
  then show ?case by (simp add: linv_def)
qed (blast intro: linv_lock linv_insert linv_evict linv_commit linv_fewer)+

lemma lreach_linv: "lreach pg h n s \<Longrightarrow> linv pg h n s"
  by (induction rule: lreach.induct) (simp add: linv_def, blast intro: lstep_linv)


subsection \<open>The method alone\<close>

text \<open>
  Without faults and without another transaction in between, the method is these five steps: it ends with the tables
  the commit leaves, or reports the error of the insertion and leaves them as they were.
\<close>

lemma kept_as_filter:
  assumes "distinct (map sn_TokenHash ss)"
  shows "filter (\<lambda>y. sn_TokenHash y \<notin> set (map sn_TokenHash (filter (\<lambda>y. y \<notin> set (filter P ss)) ss))) ss = filter P ss"
proof (rule filter_cong [OF refl])
  fix y assume y: "y \<in> set ss"
  have "z = y" if "z \<in> set ss" "sn_TokenHash z = sn_TokenHash y" for z
    using that y assms by (metis distinct_map inj_onD)
  then show "(sn_TokenHash y \<notin> set (map sn_TokenHash (filter (\<lambda>y. y \<notin> set (filter P ss)) ss))) = P y"
    using y by (auto simp: image_iff)
qed

lemma CreateSession_alone:
  assumes "\<forall>k. up_oracle s k = UNoFault" and "uuid_in pg (sn_UserID x) = Some (sn_UserID x)" and "text_in pg (sn_UserID x)"
    and "distinct (map sn_TokenHash (up_sessions s))" and "up_CreateSession pg ULive x n s = (r, s')"
  shows "case usql_insert_session pg x (up_tables s) of
      Inl err \<Rightarrow> r = Inl (WrapPre ''postgres: create session'' (uwrapDBError err)) \<and> up_tables s' = up_tables s
    | Inr (us, ss) \<Rightarrow> r = Inr () \<and> us = up_users s \<and> (\<exists>row kept. ss = up_sessions s @ [row] \<and>
        usql_evict pg (sn_UserID row) n (us, ss) = Inr (us, kept) \<and>
        up_sessions s' = filter (\<lambda>y. sn_TokenHash y \<notin> set (map sn_TokenHash (filter (\<lambda>y. y \<notin> set kept) ss))) ss)"
proof (cases "usql_insert_session pg x (up_tables s)")
  case (Inl err)
  with assms(1,3,5) show ?thesis by (auto simp: up_CreateSession_def upg_exec_def Let_def with_text_def)
next
  case (Inr t)
  then obtain row where t: "t = (up_users s, up_sessions s @ [row])" "sn_UserID row = sn_UserID x"
    "sn_TokenHash row \<notin> sn_TokenHash ` set (up_sessions s)"
    using assms(2) by (auto simp: usql_insert_session_def with_uuid_def with_text_def split: if_splits)
  define ss where "ss = up_sessions s @ [row]"
  define keep where "keep = map sn_TokenHash (take n (newest_first (sn_UserID x) ss))"
  let ?P = "\<lambda>y. \<not> (sn_UserID y = sn_UserID x \<and> sn_TokenHash y \<notin> set keep)"
  have ins: "usql_insert_session pg x (up_tables s) = Inr (up_users s, ss)" using Inr t(1) by (simp add: ss_def)
  have ev: "usql_evict pg (sn_UserID x) n (up_users s, ss) = Inr (up_users s, filter ?P ss)"
    using assms(2) by (simp add: usql_evict_def with_uuid_def Let_def keep_def)
  have "r = Inr ()" "up_sessions s' = filter ?P ss"
    using ins ev assms(1,3,5) by (auto simp: up_CreateSession_def upg_exec_def Let_def with_text_def)
  moreover have "filter (\<lambda>y. sn_TokenHash y \<notin> set (map sn_TokenHash (filter (\<lambda>y. y \<notin> set (filter ?P ss)) ss))) ss = filter ?P ss"
    using assms(4) t(3) by (intro kept_as_filter) (simp add: ss_def)
  ultimately show ?thesis unfolding ins sum.case prod.case using ev ss_def
    by (intro conjI exI [of _ row] exI [of _ "filter ?P ss"]) (simp_all only: t(2))
qed

text \<open>
  C24. The cap on sessions holds between concurrent logins. Whatever number of \<^verbatim>\<open>CreateSession\<close> transactions run side by
  side against PostgreSQL, each statement seeing only what is committed by then, and whatever fails, rolls back or is
  logged out in between, no user ever has more than \<^verbatim>\<open>maxSessions\<close> committed sessions, and no token hash occurs twice.
\<close>

theorem session_cap_under_concurrent_logins:
  assumes "lreach pg hashtext maxSessions s"
  shows "length (user_sessions u (ls_sessions s)) \<le> maxSessions \<and> distinct (map sn_TokenHash (ls_sessions s))"
  using linvD(1,2) [OF lreach_linv [OF assms]] by blast

subsection \<open>A concrete run\<close>

definition demo_pgl :: pg_lib where
  "demo_pgl = \<lparr>uuid_in = Some, text_in = (\<lambda>_. True)\<rparr>"

definition demo_login_user :: user where
  "demo_login_user = \<lparr>u_ID = ''ann'', u_Email = ''ann@x.org'', u_CreatedAt = 0, u_UpdatedAt = 0, u_PasswordHash = ''h''\<rparr>"

definition demo_logins :: "session list \<Rightarrow> (nat \<Rightarrow> tx option) \<Rightarrow> login_sys" where
  "demo_logins ss txs = \<lparr>ls_users = [demo_login_user], ls_sessions = ss, ls_txs = txs\<rparr>"

definition demo_row_session :: session where
  "demo_row_session = \<lparr>sn_TokenHash = ''b'', sn_UserID = ''ann'', sn_ExpiresAt = 7000, sn_CreatedAt = 7000\<rparr>"

text \<open>Two logins of one user with a cap of one session: the second waits for the lock while the first commits.\<close>

lemma demo_lreach:
  "lreach demo_pgl (\<lambda>_. 0) 1 (demo_logins [demo_row_session] ((\<lambda>_. None)(2 \<mapsto> Begun (demo_session ''c'' 8000))))"
proof -
  let ?x = "demo_session ''b'' 7000" and ?w = "Begun (demo_session ''c'' 8000)"
  let ?t = "\<lambda>t. (\<lambda>_. None)(2 \<mapsto> ?w, 1 \<mapsto> t)"
  have r0: "lreach demo_pgl (\<lambda>_. 0) 1 (demo_logins [] (\<lambda>_. None))" unfolding demo_logins_def by (rule lreach.init)
  have s1: "lstep demo_pgl (\<lambda>_. 0) 1 (demo_logins [] (\<lambda>_. None)) (demo_logins [] ((\<lambda>_. None)(2 \<mapsto> ?w)))"
    using lstep.begun [of "demo_logins [] (\<lambda>_. None)" 2 demo_pgl "demo_session ''c'' 8000"] by (simp add: demo_logins_def demo_pgl_def)
  have s2: "lstep demo_pgl (\<lambda>_. 0) 1 (demo_logins [] ((\<lambda>_. None)(2 \<mapsto> ?w))) (demo_logins [] (?t (Begun ?x)))"
    using lstep.begun [of "demo_logins [] ((\<lambda>_. None)(2 \<mapsto> ?w))" 1 demo_pgl ?x] by (simp add: demo_logins_def demo_pgl_def)
  have s3: "lstep demo_pgl (\<lambda>_. 0) 1 (demo_logins [] (?t (Begun ?x))) (demo_logins [] (?t (Holding ?x)))"
  proof -
    let ?s = "demo_logins [] (?t (Begun ?x))"
    have "lstep demo_pgl (\<lambda>_. 0) 1 ?s (?s\<lparr>ls_txs := (ls_txs ?s)(1 \<mapsto> Holding ?x)\<rparr>)"
      by (rule lstep.lock) (auto simp: demo_logins_def split: if_splits)
    then show ?thesis by (simp add: demo_logins_def)
  qed
  have s4: "lstep demo_pgl (\<lambda>_. 0) 1 (demo_logins [] (?t (Holding ?x))) (demo_logins [] (?t (Inserted demo_row_session)))"
  proof -
    have "usql_insert_session demo_pgl ?x ([demo_login_user], []) = Inr ([demo_login_user], [] @ [demo_row_session])"
      by (simp add: usql_insert_session_def with_uuid_def with_text_def demo_pgl_def demo_session_def demo_login_user_def demo_row_session_def pg_time_def)
    then have ins: "usql_insert_session demo_pgl ?x (ls_users (demo_logins [] (?t (Holding ?x))), ls_sessions (demo_logins [] (?t (Holding ?x)))) =
        Inr ([demo_login_user], ls_sessions (demo_logins [] (?t (Holding ?x))) @ [demo_row_session])" by (simp add: demo_logins_def)
    let ?s = "demo_logins [] (?t (Holding ?x))"
    have "lstep demo_pgl (\<lambda>_. 0) 1 ?s (?s\<lparr>ls_txs := (ls_txs ?s)(1 \<mapsto> Inserted demo_row_session)\<rparr>)"
      by (rule lstep.insert [OF _ ins]) (auto simp: demo_logins_def split: if_splits)
    then show ?thesis by (simp add: demo_logins_def)
  qed
  have s5: "lstep demo_pgl (\<lambda>_. 0) 1 (demo_logins [] (?t (Inserted demo_row_session))) (demo_logins [] (?t (Evicting demo_row_session [])))"
  proof -
    have "usql_evict demo_pgl (sn_UserID demo_row_session) 1 ([demo_login_user], [demo_row_session]) = Inr ([demo_login_user], [demo_row_session])"
      by (simp add: usql_evict_def with_uuid_def demo_pgl_def newest_first_def)
    then show ?thesis
      using lstep.evict [of "demo_logins [] (?t (Inserted demo_row_session))" 1 demo_row_session demo_pgl 1 "[demo_login_user]" "[demo_row_session]" "\<lambda>_. 0"]
      by (simp add: demo_logins_def)
  qed
  have s6: "lstep demo_pgl (\<lambda>_. 0) 1 (demo_logins [] (?t (Evicting demo_row_session []))) (demo_logins [demo_row_session] ((\<lambda>_. None)(2 \<mapsto> ?w)))"
    using lstep.commit [of "demo_logins [] (?t (Evicting demo_row_session []))" 1 demo_row_session "[]" demo_pgl "\<lambda>_. 0" 1]
    by (simp add: demo_logins_def)
  show ?thesis by (rule lreach.step [OF lreach.step [OF lreach.step [OF lreach.step [OF lreach.step [OF lreach.step [OF r0 s1] s2] s3] s4] s5] s6])
qed

theorem session_cap_under_concurrent_logins_witness:
  "ls_sessions (demo_logins [demo_row_session] ((\<lambda>_. None)(2 \<mapsto> Begun (demo_session ''c'' 8000)))) = [demo_row_session] \<and>
   length (user_sessions ''ann'' [demo_row_session]) \<le> 1 \<and> distinct (map sn_TokenHash [demo_row_session])"
  using session_cap_under_concurrent_logins [OF demo_lreach, of "''ann''"] by (simp add: demo_logins_def)

end
