(* ===== verification/AttachPostgres.thy ===== *)
theory AttachPostgres
  imports TaskPostgres AttachGuarantees
begin

text \<open>
  The attachment repository over PostgreSQL (\<^verbatim>\<open>internal/attachment/postgres_repository.go\<close>): the rows of
  \<^verbatim>\<open>attachments\<close>, the owners the join with \<^verbatim>\<open>tasks\<close> sees, and one function on them per SQL statement, with
  the constraints of migration 0007. Faults are data of the state as in the task repository; a deletion of the
  task that races an insertion is one of them (the foreign key error). The server's reading of an array literal
  is an argument. At the end, what the collector removes when it asks PostgreSQL.
\<close>

datatype afault = ANoFault | AFailBefore aerr | AFailAfter aerr

record att_pg_lib = pg_lib +
  array_in :: "string \<Rightarrow> string list option"

record att_pg =
  ap_rows :: "attachment list"
  ap_tasks :: "(string \<times> string) list"
  ap_oracle :: "nat \<Rightarrow> afault"
  ap_count :: nat

definition postgreSQLForeignKeyViolation :: string where
  "postgreSQLForeignKeyViolation = ''23503''"

definition awrapDBError :: "aerr \<Rightarrow> aerr" where
  "awrapDBError err =
     (if IsInfrastructureFailure ADriverErrBadConn AContextDeadlineExceeded err
      then WrapBoth (Sentinel AErrDependencyUnavailable) err else err)"

definition aisUniqueViolation :: "aerr \<Rightarrow> bool" where
  "aisUniqueViolation err = (errors_As_PgError err = Some postgreSQLUniqueViolation)"

definition isForeignKeyViolation :: "aerr \<Rightarrow> bool" where
  "isForeignKeyViolation err = (errors_As_PgError err = Some postgreSQLForeignKeyViolation)"

definition apg_exec :: "ctx_state \<Rightarrow> (att_pg \<Rightarrow> aerr + ('a \<times> attachment list)) \<Rightarrow> (att_err, 'a, att_pg) op" where
  "apg_exec ctx stmt s =
     (case actx_Err ctx of Some err \<Rightarrow> (Inl err, s) | None \<Rightarrow>
      (let f = ap_oracle s (ap_count s); s1 = s\<lparr>ap_count := Suc (ap_count s)\<rparr> in
       case f of
         AFailBefore err \<Rightarrow> (Inl err, s1)
       | ANoFault \<Rightarrow> (case stmt s of Inl err \<Rightarrow> (Inl err, s1) | Inr (x, rs) \<Rightarrow> (Inr x, s1\<lparr>ap_rows := rs\<rparr>))
       | AFailAfter err \<Rightarrow> (case stmt s of Inl e \<Rightarrow> (Inl e, s1) | Inr (x, rs) \<Rightarrow> (Inl err, s1\<lparr>ap_rows := rs\<rparr>))))"

definition abad_uuid :: aerr where
  "abad_uuid = PgError ''22P02'' ''invalid input syntax for type uuid''"

fun uuids_in :: "att_pg_lib \<Rightarrow> string list \<Rightarrow> aerr + string list" where
  "uuids_in pg [] = Inr []"
| "uuids_in pg (i # is) =
     (case uuid_in pg i of None \<Rightarrow> Inl abad_uuid | Some i' \<Rightarrow>
      case uuids_in pg is of Inl err \<Rightarrow> Inl err | Inr is' \<Rightarrow> Inr (i' # is'))"

subsection \<open>The statements\<close>

text \<open>\<^verbatim>\<open>INSERT ... SELECT\<close>: a row only if the task exists and is the user's; the answer is the number of rows.\<close>

definition att_row_error :: "attachment \<Rightarrow> att_pg \<Rightarrow> aerr option" where
  "att_row_error a s =
     (if RuneCountInString (a_OriginalFilename a) > 255 \<or> RuneCountInString (a_ContentType a) > 255
      then Some (PgError ''22001'' ''value too long for type character varying'')
      else if a_SizeBytes a < 0 then Some (PgError ''23514'' ''new row violates check constraint'')
      else if a_ID a \<in> a_ID ` set (ap_rows s) \<or> a_StorageKey a \<in> a_StorageKey ` set (ap_rows s)
      then Some (PgError postgreSQLUniqueViolation ''duplicate key value violates unique constraint'')
      else None)"

definition asql_insert :: "att_pg_lib \<Rightarrow> attachment \<Rightarrow> string \<Rightarrow> att_pg \<Rightarrow> aerr + (nat \<times> attachment list)" where
  "asql_insert pg a u s =
     (case uuids_in pg [a_ID a, a_TaskID a, a_StorageKey a, u] of
        Inl err \<Rightarrow> Inl err
      | Inr ids \<Rightarrow>
          if \<not> text_in pg (a_OriginalFilename a) \<or> \<not> text_in pg (a_ContentType a)
          then Inl (PgError ''22021'' ''invalid byte sequence for encoding'')
          else if (ids ! 1, ids ! 3) \<notin> set (ap_tasks s) then Inr (0, ap_rows s)
          else let row = a\<lparr>a_ID := ids ! 0, a_TaskID := ids ! 1, a_StorageKey := ids ! 2, a_CreatedAt := pg_time (a_CreatedAt a)\<rparr>
               in case att_row_error row s of Some err \<Rightarrow> Inl err | None \<Rightarrow> Inr (1, ap_rows s @ [row]))"

definition asql_find :: "att_pg_lib \<Rightarrow> string \<Rightarrow> string \<Rightarrow> att_pg \<Rightarrow> aerr + (attachment \<times> attachment list)" where
  "asql_find pg k u s =
     (case uuids_in pg [k, u] of
        Inl err \<Rightarrow> Inl err
      | Inr ids \<Rightarrow>
          (case filter (\<lambda>a. a_StorageKey a = ids ! 0 \<and> (a_TaskID a, ids ! 1) \<in> set (ap_tasks s)) (ap_rows s) of
             [] \<Rightarrow> Inl (Sentinel ASqlErrNoRows)
           | a # _ \<Rightarrow> Inr (a, ap_rows s)))"

definition asql_delete :: "att_pg_lib \<Rightarrow> string \<Rightarrow> string \<Rightarrow> att_pg \<Rightarrow> aerr + (nat \<times> attachment list)" where
  "asql_delete pg k u s =
     (case uuids_in pg [k, u] of
        Inl err \<Rightarrow> Inl err
      | Inr ids \<Rightarrow>
          (let hit = (\<lambda>a. (a_TaskID a, ids ! 1) \<in> set (ap_tasks s) \<and> a_StorageKey a = ids ! 0)
           in Inr (length (filter hit (ap_rows s)), filter (\<lambda>a. \<not> hit a) (ap_rows s))))"

definition asql_total :: "att_pg_lib \<Rightarrow> string \<Rightarrow> att_pg \<Rightarrow> aerr + (int \<times> attachment list)" where
  "asql_total pg u s =
     (case uuid_in pg u of None \<Rightarrow> Inl abad_uuid | Some u' \<Rightarrow>
      Inr (sum_list (map a_SizeBytes (filter (\<lambda>a. (a_TaskID a, u') \<in> set (ap_tasks s)) (ap_rows s))), ap_rows s))"

definition asql_count :: "att_pg_lib \<Rightarrow> string \<Rightarrow> string \<Rightarrow> att_pg \<Rightarrow> aerr + (int \<times> attachment list)" where
  "asql_count pg u t s =
     (case uuids_in pg [u, t] of
        Inl err \<Rightarrow> Inl err
      | Inr ids \<Rightarrow>
          Inr (int (length (filter (\<lambda>a. (a_TaskID a, ids ! 0) \<in> set (ap_tasks s) \<and> a_TaskID a = ids ! 1) (ap_rows s))),
               ap_rows s))"

definition asql_owns :: "att_pg_lib \<Rightarrow> string \<Rightarrow> string \<Rightarrow> att_pg \<Rightarrow> aerr + (unit \<times> attachment list)" where
  "asql_owns pg t u s =
     (case uuids_in pg [t, u] of
        Inl err \<Rightarrow> Inl err
      | Inr ids \<Rightarrow>
          if (ids ! 0, ids ! 1) \<in> set (ap_tasks s) then Inr ((), ap_rows s) else Inl (Sentinel ASqlErrNoRows))"

definition asql_by_task :: "att_pg_lib \<Rightarrow> string \<Rightarrow> att_pg \<Rightarrow> aerr + (attachment list \<times> attachment list)" where
  "asql_by_task pg t s =
     (case uuid_in pg t of None \<Rightarrow> Inl abad_uuid | Some t' \<Rightarrow>
      Inr (sort_key att_key (filter (\<lambda>a. a_TaskID a = t') (ap_rows s)), ap_rows s))"

text \<open>The names of the array that look like a key and, cast to \<^verbatim>\<open>uuid\<close>, are the key of no row.\<close>

definition asql_unreferenced :: "att_pg_lib \<Rightarrow> string \<Rightarrow> att_pg \<Rightarrow> aerr + (string list \<times> attachment list)" where
  "asql_unreferenced pg lit s =
     (case array_in pg lit of
        None \<Rightarrow> Inl (PgError ''22P02'' ''malformed array literal'')
      | Some keys \<Rightarrow>
          (case uuids_in pg (filter aisValidID keys) of
             Inl err \<Rightarrow> Inl err
           | Inr ids \<Rightarrow>
               Inr (map fst (filter (\<lambda>(k, i). i \<notin> a_StorageKey ` set (ap_rows s)) (zip (filter aisValidID keys) ids)), ap_rows s)))"

subsection \<open>Methods\<close>

text \<open>
  The inner loop of \<^verbatim>\<open>pqTextArray\<close> ranges over the runes of a key, so a byte that is not UTF-8 is written as U+FFFD;
  quotes and backslashes get a backslash.
\<close>

definition written_rune :: "nat \<times> string \<Rightarrow> string" where
  "written_rune rc = (if fst rc = 0xFFFD then [CHR 0xEF, CHR 0xBF, CHR 0xBD] else snd rc)"

definition escape_element :: "string \<Rightarrow> string" where
  "escape_element key = concat (map (\<lambda>rc. if fst rc = 0x22 \<or> fst rc = 0x5C then CHR 0x5C # written_rune rc else written_rune rc) (chunks key))"

definition pqTextArray :: "string list \<Rightarrow> string" where
  "pqTextArray keys = ''{'' @ Join '','' (map (\<lambda>key. [CHR 0x22] @ escape_element key @ [CHR 0x22]) keys) @ ''}''"

definition ap_Create :: "att_pg_lib \<Rightarrow> ctx_state \<Rightarrow> attachment \<Rightarrow> string \<Rightarrow> (att_err, unit, att_pg) op" where
  "ap_Create pg ctx a userID s =
     (case apg_exec ctx (asql_insert pg a userID) s of
        (Inl err, s') \<Rightarrow>
          (if aisUniqueViolation err then (Inl (Sentinel AErrAlreadyExists), s')
           else if isForeignKeyViolation err then (Inl (Sentinel AErrTaskNotFound), s')
           else (Inl (WrapPre ''postgres: create attachment'' (awrapDBError err)), s'))
      | (Inr affected, s') \<Rightarrow>
          if affected = 0 then (Inl (Sentinel AErrTaskNotFound), s') else (Inr (), s'))"

definition ap_FindByStorageKey :: "att_pg_lib \<Rightarrow> ctx_state \<Rightarrow> string \<Rightarrow> string \<Rightarrow> (att_err, attachment, att_pg) op" where
  "ap_FindByStorageKey pg ctx storageKey userID s =
     (case apg_exec ctx (asql_find pg storageKey userID) s of
        (Inl err, s') \<Rightarrow>
          (if errors_Is err ASqlErrNoRows then (Inl (Sentinel AErrNotFound), s')
           else (Inl (WrapPre ''postgres: find attachment by storage key'' (awrapDBError err)), s'))
      | (Inr att, s') \<Rightarrow> (Inr att, s'))"

definition ap_Delete :: "att_pg_lib \<Rightarrow> ctx_state \<Rightarrow> string \<Rightarrow> string \<Rightarrow> (att_err, unit, att_pg) op" where
  "ap_Delete pg ctx storageKey userID s =
     (case apg_exec ctx (asql_delete pg storageKey userID) s of
        (Inl err, s') \<Rightarrow> (Inl (WrapPre ''postgres: delete attachment'' (awrapDBError err)), s')
      | (Inr affected, s') \<Rightarrow>
          if affected = 0 then (Inl (Sentinel AErrNotFound), s') else (Inr (), s'))"

definition ap_TotalBytesForUser :: "att_pg_lib \<Rightarrow> ctx_state \<Rightarrow> string \<Rightarrow> (att_err, int, att_pg) op" where
  "ap_TotalBytesForUser pg ctx userID s =
     (case apg_exec ctx (asql_total pg userID) s of
        (Inl err, s') \<Rightarrow> (Inl (WrapPre ''postgres: total bytes for user'' (awrapDBError err)), s')
      | (Inr n, s') \<Rightarrow> (Inr n, s'))"

definition ap_CountByTask :: "att_pg_lib \<Rightarrow> ctx_state \<Rightarrow> string \<Rightarrow> string \<Rightarrow> (att_err, int, att_pg) op" where
  "ap_CountByTask pg ctx taskID userID s =
     (case apg_exec ctx (asql_count pg userID taskID) s of
        (Inl err, s') \<Rightarrow> (Inl (WrapPre ''postgres: count by task'' (awrapDBError err)), s')
      | (Inr n, s') \<Rightarrow> (Inr n, s'))"

definition ap_FindByTask :: "att_pg_lib \<Rightarrow> ctx_state \<Rightarrow> string \<Rightarrow> string \<Rightarrow> (att_err, attachment list, att_pg) op" where
  "ap_FindByTask pg ctx taskID userID s =
     (case apg_exec ctx (asql_owns pg taskID userID) s of
        (Inl err, s1) \<Rightarrow>
          (if errors_Is err ASqlErrNoRows then (Inl (Sentinel AErrTaskNotFound), s1)
           else (Inl (WrapPre ''postgres: check task ownership'' (awrapDBError err)), s1))
      | (Inr _, s1) \<Rightarrow>
     (case apg_exec ctx (asql_by_task pg taskID) s1 of
        (Inl err, s2) \<Rightarrow> (Inl (WrapPre ''postgres: find attachments by task'' (awrapDBError err)), s2)
      | (Inr atts, s2) \<Rightarrow> (Inr atts, s2)))"

definition ap_UnreferencedKeys :: "att_pg_lib \<Rightarrow> ctx_state \<Rightarrow> string list \<Rightarrow> (att_err, string list, att_pg) op" where
  "ap_UnreferencedKeys pg ctx keys s =
     (if keys = [] then (Inr [], s)
      else case apg_exec ctx (asql_unreferenced pg (pqTextArray keys)) s of
        (Inl err, s') \<Rightarrow> (Inl (WrapPre ''postgres: find unreferenced storage keys'' (awrapDBError err)), s')
      | (Inr unreferenced, s') \<Rightarrow> (Inr unreferenced, s'))"

definition attachPostgres :: "att_pg_lib \<Rightarrow> att_pg att_repo" where
  "attachPostgres pg = \<lparr>ar_Create = ap_Create pg, ar_FindByStorageKey = ap_FindByStorageKey pg,
     ar_FindByTask = ap_FindByTask pg, ar_Delete = ap_Delete pg, ar_TotalBytesForUser = ap_TotalBytesForUser pg,
     ar_CountByTask = ap_CountByTask pg, ar_UnreferencedKeys = ap_UnreferencedKeys pg\<rparr>"

lemma attachPostgres_sel [simp]:
  "ar_Create (attachPostgres pg) = ap_Create pg" "ar_FindByStorageKey (attachPostgres pg) = ap_FindByStorageKey pg"
  "ar_FindByTask (attachPostgres pg) = ap_FindByTask pg" "ar_Delete (attachPostgres pg) = ap_Delete pg"
  "ar_TotalBytesForUser (attachPostgres pg) = ap_TotalBytesForUser pg" "ar_CountByTask (attachPostgres pg) = ap_CountByTask pg"
  "ar_UnreferencedKeys (attachPostgres pg) = ap_UnreferencedKeys pg"
  by (simp_all add: attachPostgres_def)


subsection \<open>PostgreSQL refines the in-memory repository\<close>

text \<open>
  The in-memory state a database state stands for: the rows under their identifiers, and a task store that answers
  from the table \<^verbatim>\<open>tasks\<close>.
\<close>

definition owns_in :: "(string \<times> string) list \<Rightarrow> ctx_state \<Rightarrow> string \<Rightarrow> string \<Rightarrow> bool ares" where
  "owns_in tasks c t u = (case actx_Err c of Some err \<Rightarrow> Inl err | None \<Rightarrow> Inr ((t, u) \<in> set tasks))"

definition ap_abs :: "att_pg \<Rightarrow> att_mem" where
  "ap_abs s = \<lparr>am_store = map (\<lambda>a. (a_ID a, a)) (ap_rows s), am_owns = owns_in (ap_tasks s)\<rparr>"

definition ap_inv :: "att_pg \<Rightarrow> bool" where
  "ap_inv s \<longleftrightarrow> distinct (map a_ID (ap_rows s)) \<and> distinct (map a_StorageKey (ap_rows s)) \<and> (\<forall>n. ap_oracle s n = ANoFault)"

abbreviation acanon :: "att_pg_lib \<Rightarrow> string \<Rightarrow> bool" where
  "acanon pg i \<equiv> uuid_in pg i = Some i"

lemma gomap_values_abs [simp]: "gomap_values (am_store (ap_abs s)) = ap_rows s"
  by (simp add: ap_abs_def comp_def)

lemma am_owns_abs [simp]: "am_owns (ap_abs s) Live t u = Inr ((t, u) \<in> set (ap_tasks s))"
  by (simp add: ap_abs_def owns_in_def)

lemma apg_exec_clean:
  assumes "ap_inv s"
  shows "apg_exec Live stmt s =
    (case stmt s of Inl err \<Rightarrow> (Inl err, s\<lparr>ap_count := Suc (ap_count s)\<rparr>)
     | Inr (x, rs) \<Rightarrow> (Inr x, s\<lparr>ap_count := Suc (ap_count s), ap_rows := rs\<rparr>))"
  using assms by (simp add: apg_exec_def ap_inv_def Let_def)

lemma ap_abs_count [simp]: "ap_abs (s\<lparr>ap_count := n\<rparr>) = ap_abs s"
  "ap_abs (s\<lparr>ap_count := n, ap_rows := ap_rows s\<rparr>) = ap_abs s"
  by (simp_all add: ap_abs_def)

lemma ap_inv_count [simp]: "ap_inv (s\<lparr>ap_count := n\<rparr>) = ap_inv s"
  "ap_inv (s\<lparr>ap_count := n, ap_rows := ap_rows s\<rparr>) = ap_inv s"
  by (simp_all add: ap_inv_def)

lemma abad_uuid_simps [simp]: "\<not> aisUniqueViolation abad_uuid" "\<not> isForeignKeyViolation abad_uuid" "\<not> errors_Is abad_uuid x"
  by (simp_all add: abad_uuid_def aisUniqueViolation_def isForeignKeyViolation_def postgreSQLUniqueViolation_def postgreSQLForeignKeyViolation_def)

lemma scan_key_abs: "scan_key k (map (\<lambda>a. (a_ID a, a)) rs) = map_option (\<lambda>a. (a_ID a, a)) (find (\<lambda>a. a_StorageKey a = k) rs)"
  by (induction rs) auto

text \<open>A key picks at most one row.\<close>

lemma filter_by_storage_key:
  assumes "distinct (map a_StorageKey rs)"
  shows "filter (\<lambda>a. a_StorageKey a = k \<and> P a) rs =
    (case find (\<lambda>a. a_StorageKey a = k) rs of None \<Rightarrow> [] | Some a \<Rightarrow> if P a then [a] else [])"
  using assms
proof (induction rs)
  case (Cons a rs)
  show ?case
  proof (cases "a_StorageKey a = k")
    case True
    with Cons.prems have "filter (\<lambda>x. a_StorageKey x = k \<and> P x) rs = []" by (auto simp: filter_empty_conv image_iff)
    with True show ?thesis by simp
  qed (use Cons in simp)
qed simp

lemma delete_by_storage_key:
  assumes "distinct (map a_StorageKey rs)" and "distinct (map a_ID rs)" and "find (\<lambda>a. a_StorageKey a = k) rs = Some a"
  shows "AList.delete (a_ID a) (map (\<lambda>a. (a_ID a, a)) rs) = map (\<lambda>a. (a_ID a, a)) (filter (\<lambda>x. a_StorageKey x \<noteq> k) rs)"
proof -
  from assms(3) have a: "a \<in> set rs" "a_StorageKey a = k" by (auto simp: find_Some_iff)
  have "a_ID x \<noteq> a_ID a \<longleftrightarrow> a_StorageKey x \<noteq> k" if "x \<in> set rs" for x
    using that a assms(1,2) by (metis (no_types, lifting) distinct_map inj_onD)
  then have "filter (\<lambda>x. a_ID a \<noteq> a_ID x) rs = filter (\<lambda>x. a_StorageKey x \<noteq> k) rs" by (intro filter_cong) metis+
  then show ?thesis by (simp add: AList.delete_eq filter_map comp_def eq_commute)
qed

lemma total_loop_owned:
  "total_loop (\<lambda>t. Inr (Q t)) as n = Inr (n + sum_list (map a_SizeBytes (filter (\<lambda>a. Q (a_TaskID a)) as)))"
  by (induction as arbitrary: n) auto

text \<open>What the schema accepts: the lengths and the sign the service guarantees, and text of the server's encoding.\<close>

definition storable :: "att_pg_lib \<Rightarrow> attachment \<Rightarrow> bool" where
  "storable pg a \<longleftrightarrow> acanon pg (a_ID a) \<and> acanon pg (a_TaskID a) \<and> acanon pg (a_StorageKey a) \<and>
     text_in pg (a_OriginalFilename a) \<and> text_in pg (a_ContentType a) \<and>
     RuneCountInString (a_OriginalFilename a) \<le> 255 \<and> RuneCountInString (a_ContentType a) \<le> 255 \<and> 0 \<le> a_SizeBytes a"

lemma ap_Create_refines:
  assumes "ap_inv s" and "storable pg a" and "acanon pg u"
  shows "ap_inv (snd (ap_Create pg Live a u s)) \<and>
    (fst (ap_Create pg Live a u s), ap_abs (snd (ap_Create pg Live a u s))) =
      am_Create Live (a\<lparr>a_CreatedAt := pg_time (a_CreatedAt a)\<rparr>) u (ap_abs s)"
proof -
  let ?a = "a\<lparr>a_CreatedAt := pg_time (a_CreatedAt a)\<rparr>"
  have ids: "a\<lparr>a_ID := a_ID a, a_TaskID := a_TaskID a, a_StorageKey := a_StorageKey a, a_CreatedAt := pg_time (a_CreatedAt a)\<rparr> = ?a"
    by (cases a) simp
  have m: "map_of (am_store (ap_abs s)) (a_ID a) = None \<longleftrightarrow> a_ID a \<notin> a_ID ` set (ap_rows s)"
    by (simp add: ap_abs_def map_of_eq_None_iff image_image)
  have k: "scan_key (a_StorageKey a) (am_store (ap_abs s)) = None \<longleftrightarrow> a_StorageKey a \<notin> a_StorageKey ` set (ap_rows s)"
    by (simp add: scan_key_None)
  show ?thesis
  proof (cases "(a_TaskID a, u) \<in> set (ap_tasks s) \<and> a_ID a \<notin> a_ID ` set (ap_rows s) \<and> a_StorageKey a \<notin> a_StorageKey ` set (ap_rows s)")
    case True
    then have "ap_Create pg Live a u s = (Inr (), s\<lparr>ap_count := Suc (ap_count s), ap_rows := ap_rows s @ [?a]\<rparr>)"
      using assms by (simp add: ap_Create_def apg_exec_clean asql_insert_def storable_def ids Let_def att_row_error_def)
    moreover have "am_Create Live ?a u (ap_abs s) = (Inr (), (ap_abs s)\<lparr>am_store := am_store (ap_abs s) @ [(a_ID a, ?a)]\<rparr>)"
      using True m k by (simp add: am_Create_def set_update_new)
    ultimately show ?thesis using True assms(1) by (auto simp: ap_inv_def ap_abs_def)
  next
    case False
    then show ?thesis using assms m k
      by (auto simp: ap_Create_def am_Create_def apg_exec_clean asql_insert_def storable_def ids Let_def att_row_error_def
          aisUniqueViolation_def)
  qed
qed


lemma uuids_in_canon: "\<forall>i \<in> set is. acanon pg i \<Longrightarrow> uuids_in pg is = Inr is"
  by (induction "is") auto

lemma ap_Find_refines:
  assumes "ap_inv s" and "acanon pg k" and "acanon pg u"
  shows "ap_inv (snd (ap_FindByStorageKey pg Live k u s)) \<and>
    (fst (ap_FindByStorageKey pg Live k u s), ap_abs (snd (ap_FindByStorageKey pg Live k u s))) = am_FindByStorageKey Live k u (ap_abs s)"
proof -
  have f: "asql_find pg k u s = (case find (\<lambda>a. a_StorageKey a = k) (ap_rows s) of
      None \<Rightarrow> Inl (Sentinel ASqlErrNoRows)
    | Some a \<Rightarrow> if (a_TaskID a, u) \<in> set (ap_tasks s) then Inr (a, ap_rows s) else Inl (Sentinel ASqlErrNoRows))"
    using assms by (auto simp: asql_find_def ap_inv_def filter_by_storage_key split: option.splits)
  have "scan_key k (am_store (ap_abs s)) = map_option (\<lambda>a. (a_ID a, a)) (find (\<lambda>a. a_StorageKey a = k) (ap_rows s))"
    by (simp add: ap_abs_def scan_key_abs)
  with assms(1) f show ?thesis
    by (cases "find (\<lambda>a. a_StorageKey a = k) (ap_rows s)")
      (auto simp: ap_FindByStorageKey_def am_FindByStorageKey_def apg_exec_clean)
qed

lemma ap_Delete_refines:
  assumes "ap_inv s" and "acanon pg k" and "acanon pg u"
  shows "ap_inv (snd (ap_Delete pg Live k u s)) \<and>
    (fst (ap_Delete pg Live k u s), ap_abs (snd (ap_Delete pg Live k u s))) = am_Delete Live k u (ap_abs s)"
proof -
  let ?hit = "\<lambda>a. (a_TaskID a, u) \<in> set (ap_tasks s) \<and> a_StorageKey a = k"
  have dist: "distinct (map a_StorageKey (ap_rows s))" "distinct (map a_ID (ap_rows s))" using assms(1) by (auto simp: ap_inv_def)
  have run: "asql_delete pg k u s = Inr (length (filter ?hit (ap_rows s)), filter (\<lambda>a. \<not> ?hit a) (ap_rows s))"
    using assms by (simp add: asql_delete_def)
  have hits: "filter ?hit (ap_rows s) = (case find (\<lambda>a. a_StorageKey a = k) (ap_rows s) of
      None \<Rightarrow> [] | Some a \<Rightarrow> if (a_TaskID a, u) \<in> set (ap_tasks s) then [a] else [])"
    using filter_by_storage_key [OF dist(1), of k "\<lambda>a. (a_TaskID a, u) \<in> set (ap_tasks s)"] by (simp add: conj_commute)
  have sc: "scan_key k (am_store (ap_abs s)) = map_option (\<lambda>a. (a_ID a, a)) (find (\<lambda>a. a_StorageKey a = k) (ap_rows s))"
    by (simp add: ap_abs_def scan_key_abs)
  show ?thesis
  proof (cases "filter ?hit (ap_rows s)")
    case Nil
    then have "filter (\<lambda>a. \<not> ?hit a) (ap_rows s) = ap_rows s" by (auto simp: filter_empty_conv intro!: filter_True)
    with Nil run hits sc assms(1) show ?thesis
      by (auto simp: ap_Delete_def am_Delete_def apg_exec_clean split: option.splits if_splits)
  next
    case (Cons a as)
    with hits have a: "find (\<lambda>a. a_StorageKey a = k) (ap_rows s) = Some a" "(a_TaskID a, u) \<in> set (ap_tasks s)" "as = []"
      by (auto split: option.splits if_splits)
    then have mem: "a \<in> set (ap_rows s)" "a_StorageKey a = k" by (auto simp: find_Some_iff)
    have only: "x = a" if "x \<in> set (ap_rows s)" "a_StorageKey x = k" for x
      using that mem dist(1) by (metis (no_types, lifting) distinct_map inj_onD)
    have rest: "filter (\<lambda>a. \<not> ?hit a) (ap_rows s) = filter (\<lambda>x. a_StorageKey x \<noteq> k) (ap_rows s)"
      using only a(2) by (intro filter_cong) auto
    have dist': "distinct (map f (filter P (ap_rows s)))" if "distinct (map f (ap_rows s))" for f :: "attachment \<Rightarrow> string" and P
      using that by (rule distinct_map_filter)
    have "ap_Delete pg Live k u s = (Inr (), s\<lparr>ap_count := Suc (ap_count s), ap_rows := filter (\<lambda>x. a_StorageKey x \<noteq> k) (ap_rows s)\<rparr>)"
      using run Cons a(3) assms(1) rest by (simp add: ap_Delete_def apg_exec_clean)
    moreover have "am_Delete Live k u (ap_abs s) = (Inr (), (ap_abs s)\<lparr>am_store := AList.delete (a_ID a) (am_store (ap_abs s))\<rparr>)"
      using sc a by (simp add: am_Delete_def)
    ultimately show ?thesis using delete_by_storage_key [OF dist a(1)] dist' dist assms(1)
      by (simp add: ap_inv_def ap_abs_def)
  qed
qed

lemma ap_reads_refine:
  assumes "ap_inv s" and "acanon pg t" and "acanon pg u"
  shows "(fst (ap_FindByTask pg Live t u s), ap_abs (snd (ap_FindByTask pg Live t u s))) = am_FindByTask Live t u (ap_abs s)"
    "(fst (ap_CountByTask pg Live t u s), ap_abs (snd (ap_CountByTask pg Live t u s))) = am_CountByTask Live t u (ap_abs s)"
    "(fst (ap_TotalBytesForUser pg Live u s), ap_abs (snd (ap_TotalBytesForUser pg Live u s))) = am_TotalBytesForUser Live u (ap_abs s)"
proof -
  show "(fst (ap_FindByTask pg Live t u s), ap_abs (snd (ap_FindByTask pg Live t u s))) = am_FindByTask Live t u (ap_abs s)"
    using assms by (simp add: ap_FindByTask_def am_FindByTask_def apg_exec_clean asql_owns_def asql_by_task_def)
  have "filter (\<lambda>a. (a_TaskID a, u) \<in> set (ap_tasks s) \<and> a_TaskID a = t) (ap_rows s) =
      (if (t, u) \<in> set (ap_tasks s) then filter (\<lambda>a. a_TaskID a = t) (ap_rows s) else [])"
    by (auto simp: filter_empty_conv intro: filter_cong)
  then show "(fst (ap_CountByTask pg Live t u s), ap_abs (snd (ap_CountByTask pg Live t u s))) = am_CountByTask Live t u (ap_abs s)"
    using assms by (simp add: ap_CountByTask_def am_CountByTask_def apg_exec_clean asql_count_def)
  show "(fst (ap_TotalBytesForUser pg Live u s), ap_abs (snd (ap_TotalBytesForUser pg Live u s))) = am_TotalBytesForUser Live u (ap_abs s)"
    using assms by (simp add: ap_TotalBytesForUser_def am_TotalBytesForUser_def apg_exec_clean asql_total_def total_loop_owned)
qed

subsection \<open>The array literal is read back\<close>

text \<open>
  How PostgreSQL documents the text form of an array, for elements in double quotes: braces around them, commas between
  them, and a backslash before a character that stands for itself.
\<close>

datatype array_mode = ElemStart | InQuotes | Escaped | ElemEnd

fun array_scan :: "array_mode \<Rightarrow> string \<Rightarrow> string list \<Rightarrow> string \<Rightarrow> string list option" where
  "array_scan m e es [] = None"
| "array_scan ElemStart e es (c # cs) =
     (if c = CHR 0x22 then array_scan InQuotes [] es cs
      else if c = CHR ''}'' \<and> es = [] \<and> cs = [] then Some [] else None)"
| "array_scan InQuotes e es (c # cs) =
     (if c = CHR 0x22 then array_scan ElemEnd e es cs
      else if c = CHR 0x5C then array_scan Escaped e es cs
      else array_scan InQuotes (e @ [c]) es cs)"
| "array_scan Escaped e es (c # cs) = array_scan InQuotes (e @ [c]) es cs"
| "array_scan ElemEnd e es (c # cs) =
     (if c = CHR '','' then array_scan ElemStart [] (es @ [e]) cs
      else if c = CHR ''}'' \<and> cs = [] then Some (es @ [e]) else None)"

definition array_read :: "string \<Rightarrow> string list option" where
  "array_read lit = (case lit of [] \<Rightarrow> None | c # cs \<Rightarrow> if c = CHR ''{'' then array_scan ElemStart [] [] cs else None)"

definition array_ok :: "att_pg_lib \<Rightarrow> bool" where
  "array_ok pg \<longleftrightarrow> (\<forall>lit ks. text_in pg lit \<and> array_read lit = Some ks \<longrightarrow> array_in pg lit = Some ks)"

text \<open>A rune of one byte is that byte; a rune of several bytes, or a byte that is not UTF-8, has none below 128.\<close>

lemma decode_rune_ascii: "byte c < 128 \<Longrightarrow> decode_rune (c # cs) = (byte c, 1)"
  by (simp add: decode_rune.simps)

lemma decode_rune_high:
  assumes "\<not> byte c < 128"
  shows "128 \<le> fst (decode_rune (c # cs)) \<and> (\<forall>x \<in> set (take (snd (decode_rune (c # cs))) (c # cs)). 128 \<le> byte x)"
  using assms by (auto simp: decode_rune.simps Let_def cont_byte_def split: list.splits)

lemma chunks_bytes:
  "(r, bs) \<in> set (chunks s) \<Longrightarrow> (\<exists>c \<in> set s. byte c < 128 \<and> r = byte c \<and> bs = [c]) \<or>
     128 \<le> r \<and> (\<forall>c \<in> set bs. 128 \<le> byte c \<and> c \<in> set s) \<and> bs \<noteq> []"
proof (induction s rule: chunks.induct)
  case (2 c cs)
  obtain r' w where d: "decode_rune (c # cs) = (r', w)" by fastforce
  then have w: "1 \<le> w" using decode_rune_width [of c cs] by simp
  have sub: "set (drop w (c # cs)) \<subseteq> set (c # cs)" by (rule set_drop_subset)
  from "2.prems" d consider "r = r'" "bs = take w (c # cs)" | "(r, bs) \<in> set (chunks (drop w (c # cs)))" by auto
  then show ?case
  proof cases
    case 1
    show ?thesis
    proof (cases "byte c < 128")
      case True
      with d have "r' = byte c" "w = 1" by (simp_all add: decode_rune_ascii)
      with True 1 show ?thesis by simp
    next
      case False
      have "set bs \<subseteq> set (c # cs)" "bs \<noteq> []" using 1 w set_take_subset [of w "c # cs"] by (auto simp: take_eq_Nil)
      with decode_rune_high [OF False, of cs] d 1 show ?thesis by auto
    qed
  next
    case 2
    from "2.IH" [OF d [symmetric] refl 2] sub show ?thesis by blast
  qed
qed simp

text \<open>What the server gets for a name: bytes that are not UTF-8 have become U+FFFD.\<close>

definition clean_name :: "string \<Rightarrow> string" where
  "clean_name k = concat (map written_rune (chunks k))"

lemma array_scan_plain:
  "\<forall>c \<in> set w. c \<noteq> CHR 0x22 \<and> c \<noteq> CHR 0x5C \<Longrightarrow> array_scan InQuotes e es (w @ rest) = array_scan InQuotes (e @ w) es rest"
  by (induction w arbitrary: e) auto

lemma array_scan_rune:
  assumes "(r, bs) \<in> set (chunks k)"
  shows "array_scan InQuotes e es ((if r = 0x22 \<or> r = 0x5C then CHR 0x5C # written_rune (r, bs) else written_rune (r, bs)) @ rest) =
    array_scan InQuotes (e @ written_rune (r, bs)) es rest"
proof -
  show ?thesis
    using chunks_bytes [OF assms]
  proof (elim disjE bexE conjE)
    fix c assume c: "byte c < 128" "r = byte c" "bs = [c]"
    show ?thesis
    proof (cases "r = 0x22 \<or> r = 0x5C")
      case True
      then show ?thesis using c by (auto simp: written_rune_def)
    next
      case False
      then have "c \<noteq> CHR 0x22" "c \<noteq> CHR 0x5C" using c(2) by auto
      then show ?thesis using False c array_scan_plain [of "[c]" e es rest] by (auto simp: written_rune_def)
    qed
  next
    assume h: "128 \<le> r" "\<forall>c \<in> set bs. 128 \<le> byte c \<and> c \<in> set k"
    then have "\<forall>c \<in> set (written_rune (r, bs)). c \<noteq> CHR 0x22 \<and> c \<noteq> CHR 0x5C" by (auto simp: written_rune_def)
    with h(1) show ?thesis by (simp add: array_scan_plain)
  qed
qed

lemma array_scan_element:
  "array_scan InQuotes e es (escape_element k @ rest) = array_scan InQuotes (e @ clean_name k) es rest"
proof -
  have "array_scan InQuotes e es (concat (map (\<lambda>rc. if fst rc = 0x22 \<or> fst rc = 0x5C then CHR 0x5C # written_rune rc else written_rune rc) cs) @ rest) =
      array_scan InQuotes (e @ concat (map written_rune cs)) es rest" if "set cs \<subseteq> set (chunks k)" for cs
    using that
  proof (induction cs arbitrary: e)
    case (Cons rc cs)
    obtain r bs where rc: "rc = (r, bs)" by fastforce
    with Cons array_scan_rune [of r bs k] show ?case by simp
  qed simp
  then show ?thesis unfolding escape_element_def clean_name_def by blast
qed

lemma array_scan_elements:
  assumes "ks \<noteq> []"
  shows "array_scan ElemStart e es (Join '','' (map (\<lambda>key. [CHR 0x22] @ escape_element key @ [CHR 0x22]) ks) @ ''}'') =
    Some (es @ map clean_name ks)"
  using assms
proof (induction ks arbitrary: e es)
  case (Cons k ks)
  show ?case
  proof (cases ks)
    case Nil
    then show ?thesis by (simp add: array_scan_element)
  next
    case (Cons k2 ks2)
    with Cons.IH show ?thesis by (simp add: array_scan_element)
  qed
qed simp

lemma array_read_pqTextArray: "ks \<noteq> [] \<Longrightarrow> array_read (pqTextArray ks) = Some (map clean_name ks)"
  using array_scan_elements [of ks "[]" "[]"] by (simp add: array_read_def pqTextArray_def)

text \<open>A name that looks like a key arrives unchanged, and no other name is turned into one.\<close>

lemma clean_name_cases: "clean_name k = k \<or> \<not> aisValidID k \<and> \<not> aisValidID (clean_name k)"
proof (cases "\<exists>bs. (65533, bs) \<in> set (chunks k)")
  case True
  then obtain bs where bs: "(65533, bs) \<in> set (chunks k)" by blast
  have ascii: "byte c < 128" if "isValidID x" "c \<in> set x" for x c
    using that unfolding isValidID_def list_all2_conv_all_nth in_set_conv_nth
    by (fastforce simp: is_hex_def is_digit_def split: if_splits)
  have "\<exists>c \<in> set k. 128 \<le> byte c" using chunks_bytes [OF bs] by (cases bs) auto
  then have "\<not> isValidID k" using ascii [of k] by (metis not_le)
  moreover have "CHR 0xEF \<in> set (clean_name k)" using bs by (force simp: clean_name_def written_rune_def)
  then have "\<not> isValidID (clean_name k)" using ascii [of "clean_name k" "CHR 0xEF"] by auto
  ultimately show ?thesis by (simp add: aisValidID_eq)
next
  case False
  then have "map written_rune (chunks k) = map snd (chunks k)" by (auto simp: written_rune_def)
  then have "clean_name k = concat (map snd (chunks k))" unfolding clean_name_def by (rule arg_cong)
  then show ?thesis by (simp only: concat_chunks simp_thms)
qed

lemma valid_clean_names: "filter aisValidID (map clean_name ks) = filter aisValidID ks"
proof (induction ks)
  case (Cons k ks)
  with clean_name_cases [of k] show ?case by auto
qed simp

subsection \<open>The unreferenced keys\<close>

abbreviation lower :: "string \<Rightarrow> string" where
  "lower \<equiv> map ascii_lower"

lemma uuids_in_lower: "uuid_ok pg \<Longrightarrow> \<forall>i \<in> set is. isValidID i \<Longrightarrow> uuids_in pg is = Inr (map lower is)"
  by (induction "is") (auto simp: uuid_ok_def)

lemma unreferenced_answer:
  assumes "ap_inv s" and "uuid_ok pg" and "array_ok pg" and "text_in pg (pqTextArray ks)"
  shows "\<exists>n. ap_UnreferencedKeys pg Live ks s =
    (Inr (filter (\<lambda>k. aisValidID k \<and> lower k \<notin> a_StorageKey ` set (ap_rows s)) ks), s\<lparr>ap_count := n\<rparr>)"
proof (cases "ks = []")
  case True
  then show ?thesis by (auto simp: ap_UnreferencedKeys_def intro: exI [of _ "ap_count s"])
next
  case False
  then have lit: "array_in pg (pqTextArray ks) = Some (map clean_name ks)"
    using assms(3,4) array_read_pqTextArray unfolding array_ok_def by blast
  have zip: "map fst (filter (\<lambda>(k, i). i \<notin> K) (zip xs (map lower xs))) = filter (\<lambda>k. lower k \<notin> K) xs" for K xs
    by (induction xs) auto
  have "uuids_in pg (filter aisValidID ks) = Inr (map lower (filter aisValidID ks))"
    by (rule uuids_in_lower [OF assms(2)]) (simp add: aisValidID_eq)
  then have "asql_unreferenced pg (pqTextArray ks) s =
      Inr (filter (\<lambda>k. aisValidID k \<and> lower k \<notin> a_StorageKey ` set (ap_rows s)) ks, ap_rows s)"
    by (simp add: asql_unreferenced_def lit valid_clean_names zip conj_commute)
  moreover have "s\<lparr>ap_count := n, ap_rows := ap_rows s\<rparr> = s\<lparr>ap_count := n\<rparr>" for n by (cases s) simp
  ultimately show ?thesis using False assms(1)
    by (intro exI [of _ "Suc (ap_count s)"]) (simp add: ap_UnreferencedKeys_def apg_exec_clean)
qed

lemma ap_Unreferenced_refines:
  assumes "ap_inv s" and "uuid_ok pg" and "array_ok pg" and "text_in pg (pqTextArray ks)"
  shows "(map_sum id (map lower) (fst (ap_UnreferencedKeys pg Live ks s)), ap_abs (snd (ap_UnreferencedKeys pg Live ks s))) =
    am_UnreferencedKeys Live (map lower (filter aisValidID ks)) (ap_abs s)"
proof -
  obtain n where u: "ap_UnreferencedKeys pg Live ks s =
      (Inr (filter (\<lambda>k. aisValidID k \<and> lower k \<notin> a_StorageKey ` set (ap_rows s)) ks), s\<lparr>ap_count := n\<rparr>)"
    using unreferenced_answer [OF assms] by blast
  have "filter (\<lambda>k. k \<notin> K) (map lower (filter aisValidID ks)) = map lower (filter (\<lambda>k. aisValidID k \<and> lower k \<notin> K) ks)" for K
    by (induction ks) auto
  then show ?thesis by (simp add: u am_UnreferencedKeys_def Let_def)
qed

text \<open>Every other statement sees its identifiers in lower case and the time in whole microseconds.\<close>

definition row_seen :: "attachment \<Rightarrow> attachment" where
  "row_seen a = a\<lparr>a_ID := lower (a_ID a), a_TaskID := lower (a_TaskID a), a_StorageKey := lower (a_StorageKey a),
     a_CreatedAt := pg_time (a_CreatedAt a)\<rparr>"

lemma row_seen_sel [simp]: "a_ID (row_seen a) = lower (a_ID a)" "a_TaskID (row_seen a) = lower (a_TaskID a)"
  "a_StorageKey (row_seen a) = lower (a_StorageKey a)" "a_OriginalFilename (row_seen a) = a_OriginalFilename a"
  "a_ContentType (row_seen a) = a_ContentType a" "a_SizeBytes (row_seen a) = a_SizeBytes a"
  "(row_seen a)\<lparr>a_CreatedAt := pg_time (a_CreatedAt (row_seen a))\<rparr> = row_seen a"
  by (simp_all add: row_seen_def pg_time_def)

lemma uuid_in_seen:
  assumes "uuid_ok pg" and "isValidID i"
  shows "uuid_in pg i = Some (lower i)" and "uuid_in pg (lower i) = Some (lower i)"
  using assms isValidID_lower [OF assms(2)] by (simp_all add: uuid_ok_def comp_def)

lemma ap_Create_seen:
  assumes "uuid_ok pg" and "isValidID (a_ID a)" and "isValidID (a_TaskID a)" and "isValidID (a_StorageKey a)" and "isValidID u"
  shows "ap_Create pg ctx a u = ap_Create pg ctx (row_seen a) (lower u)"
proof -
  have row: "(row_seen a)\<lparr>a_ID := i, a_TaskID := t, a_StorageKey := k, a_CreatedAt := pg_time (a_CreatedAt (row_seen a))\<rparr> =
      a\<lparr>a_ID := i, a_TaskID := t, a_StorageKey := k, a_CreatedAt := pg_time (a_CreatedAt a)\<rparr>" for i t k
    by (simp add: row_seen_def pg_time_def)
  have "asql_insert pg a u s = asql_insert pg (row_seen a) (lower u) s" for s
    using assms(2-5) [THEN uuid_in_seen(1) [OF assms(1)]] assms(2-5) [THEN uuid_in_seen(2) [OF assms(1)]]
    by (simp add: asql_insert_def row del: row_seen_sel(7))
  then have "asql_insert pg a u = asql_insert pg (row_seen a) (lower u)" by (rule ext)
  then show ?thesis by (intro ext) (simp only: ap_Create_def row_seen_sel)
qed

lemma ap_calls_seen:
  assumes "uuid_ok pg" and "isValidID k" and "isValidID u"
  shows "ap_FindByStorageKey pg ctx k u = ap_FindByStorageKey pg ctx (lower k) (lower u)"
    and "ap_Delete pg ctx k u = ap_Delete pg ctx (lower k) (lower u)"
    and "ap_FindByTask pg ctx k u = ap_FindByTask pg ctx (lower k) (lower u)"
    and "ap_CountByTask pg ctx k u = ap_CountByTask pg ctx (lower k) (lower u)"
    and "ap_TotalBytesForUser pg ctx u = ap_TotalBytesForUser pg ctx (lower u)"
proof -
  note in_k = uuid_in_seen [OF assms(1,2)] and in_u = uuid_in_seen [OF assms(1,3)]
  have "asql_find pg k u = asql_find pg (lower k) (lower u)" "asql_delete pg k u = asql_delete pg (lower k) (lower u)"
    "asql_owns pg k u = asql_owns pg (lower k) (lower u)" "asql_by_task pg k = asql_by_task pg (lower k)"
    "asql_count pg u k = asql_count pg (lower u) (lower k)" "asql_total pg u = asql_total pg (lower u)"
    by (simp_all add: fun_eq_iff asql_find_def asql_delete_def asql_owns_def asql_by_task_def asql_count_def asql_total_def in_k in_u)
  then show "ap_FindByStorageKey pg ctx k u = ap_FindByStorageKey pg ctx (lower k) (lower u)"
    "ap_Delete pg ctx k u = ap_Delete pg ctx (lower k) (lower u)"
    "ap_FindByTask pg ctx k u = ap_FindByTask pg ctx (lower k) (lower u)"
    "ap_CountByTask pg ctx k u = ap_CountByTask pg ctx (lower k) (lower u)"
    "ap_TotalBytesForUser pg ctx u = ap_TotalBytesForUser pg ctx (lower u)"
    by (intro ext; simp only: ap_FindByStorageKey_def ap_Delete_def ap_FindByTask_def ap_CountByTask_def ap_TotalBytesForUser_def)+
qed


subsection \<open>Runs of calls\<close>

datatype att_call =
    CallACreate attachment string | CallAFind string string | CallAByTask string string | CallADelete string string
  | CallATotal string | CallACount string string | CallAUnreferenced "string list"

datatype att_answer = AnsUnit "unit ares" | AnsAtt "attachment ares" | AnsAtts "attachment list ares" | AnsInt "int ares" | AnsKeys "string list ares"

fun att_serve :: "'s att_repo \<Rightarrow> att_call \<Rightarrow> 's \<Rightarrow> att_answer \<times> 's" where
  "att_serve r (CallACreate a u) s = map_prod AnsUnit id (ar_Create r Live a u s)"
| "att_serve r (CallAFind k u) s = map_prod AnsAtt id (ar_FindByStorageKey r Live k u s)"
| "att_serve r (CallAByTask t u) s = map_prod AnsAtts id (ar_FindByTask r Live t u s)"
| "att_serve r (CallADelete k u) s = map_prod AnsUnit id (ar_Delete r Live k u s)"
| "att_serve r (CallATotal u) s = map_prod AnsInt id (ar_TotalBytesForUser r Live u s)"
| "att_serve r (CallACount t u) s = map_prod AnsInt id (ar_CountByTask r Live t u s)"
| "att_serve r (CallAUnreferenced ks) s = map_prod AnsKeys id (ar_UnreferencedKeys r Live ks s)"

fun att_trace :: "'s att_repo \<Rightarrow> att_call list \<Rightarrow> 's \<Rightarrow> att_answer list \<times> 's" where
  "att_trace r [] s = ([], s)"
| "att_trace r (c # cs) s =
     (case att_serve r c s of (x, s') \<Rightarrow> case att_trace r cs s' of (xs, s'') \<Rightarrow> (x # xs, s''))"

text \<open>
  The arguments the service passes: identifiers of the form of a UUID, in any case; a row whose texts the server's encoding and the columns
  accept; and, to the collector's query, any file names whose literal is text of that encoding (UTF-8 without NUL).
\<close>

definition row_accepted :: "att_pg_lib \<Rightarrow> attachment \<Rightarrow> bool" where
  "row_accepted pg a \<longleftrightarrow> isValidID (a_ID a) \<and> isValidID (a_TaskID a) \<and> isValidID (a_StorageKey a) \<and>
     text_in pg (a_OriginalFilename a) \<and> text_in pg (a_ContentType a) \<and>
     RuneCountInString (a_OriginalFilename a) \<le> 255 \<and> RuneCountInString (a_ContentType a) \<le> 255 \<and> 0 \<le> a_SizeBytes a"

fun att_call_ok :: "att_pg_lib \<Rightarrow> att_call \<Rightarrow> bool" where
  "att_call_ok pg (CallACreate a u) = (row_accepted pg a \<and> isValidID u)"
| "att_call_ok pg (CallAFind k u) = (isValidID k \<and> isValidID u)"
| "att_call_ok pg (CallAByTask t u) = (isValidID t \<and> isValidID u)"
| "att_call_ok pg (CallADelete k u) = (isValidID k \<and> isValidID u)"
| "att_call_ok pg (CallATotal u) = isValidID u"
| "att_call_ok pg (CallACount t u) = (isValidID t \<and> isValidID u)"
| "att_call_ok pg (CallAUnreferenced ks) = text_in pg (pqTextArray ks)"

text \<open>A call as PostgreSQL sees it, and an answer with its keys in lower case.\<close>

fun att_seen :: "att_call \<Rightarrow> att_call" where
  "att_seen (CallACreate a u) = CallACreate (row_seen a) (lower u)"
| "att_seen (CallAFind k u) = CallAFind (lower k) (lower u)"
| "att_seen (CallAByTask t u) = CallAByTask (lower t) (lower u)"
| "att_seen (CallADelete k u) = CallADelete (lower k) (lower u)"
| "att_seen (CallATotal u) = CallATotal (lower u)"
| "att_seen (CallACount t u) = CallACount (lower t) (lower u)"
| "att_seen (CallAUnreferenced ks) = CallAUnreferenced (map lower (filter aisValidID ks))"

fun ans_seen :: "att_answer \<Rightarrow> att_answer" where
  "ans_seen (AnsKeys r) = AnsKeys (map_sum id (map lower) r)"
| "ans_seen x = x"

lemma apg_read_keeps:
  assumes "ap_inv s" and "\<And>x rs. stmt s = Inr (x, rs) \<Longrightarrow> rs = ap_rows s"
  shows "ap_inv (snd (apg_exec Live stmt s))"
  using assms by (auto simp: apg_exec_clean split: sum.splits)

lemma ap_reads_keep:
  assumes "ap_inv s"
  shows "ap_inv (snd (ap_FindByTask pg Live t u s))" "ap_inv (snd (ap_CountByTask pg Live t u s))"
    "ap_inv (snd (ap_TotalBytesForUser pg Live u s))" "ap_inv (snd (ap_UnreferencedKeys pg Live ks s))"
proof -
  have "ap_inv (snd (apg_exec Live (asql_by_task pg t) (snd (apg_exec Live (asql_owns pg t u) s))))"
    using assms by (intro apg_read_keeps) (auto simp: asql_owns_def asql_by_task_def split: sum.splits option.splits if_splits)
  moreover have "ap_inv (snd (apg_exec Live (asql_owns pg t u) s))"
    using assms by (intro apg_read_keeps) (auto simp: asql_owns_def split: sum.splits option.splits if_splits)
  ultimately show "ap_inv (snd (ap_FindByTask pg Live t u s))"
    unfolding ap_FindByTask_def by (auto split: prod.splits sum.splits)
  have "ap_inv (snd (apg_exec Live (asql_count pg u t) s))"
    using assms by (intro apg_read_keeps) (auto simp: asql_count_def split: sum.splits option.splits)
  then show "ap_inv (snd (ap_CountByTask pg Live t u s))" unfolding ap_CountByTask_def by (auto split: prod.splits sum.splits)
  have "ap_inv (snd (apg_exec Live (asql_total pg u) s))"
    using assms by (intro apg_read_keeps) (auto simp: asql_total_def split: option.splits)
  then show "ap_inv (snd (ap_TotalBytesForUser pg Live u s))" unfolding ap_TotalBytesForUser_def by (auto split: prod.splits sum.splits)
  have "ap_inv (snd (apg_exec Live (asql_unreferenced pg (pqTextArray ks)) s))"
    using assms by (intro apg_read_keeps) (auto simp: asql_unreferenced_def split: sum.splits option.splits)
  then show "ap_inv (snd (ap_UnreferencedKeys pg Live ks s))"
    using assms unfolding ap_UnreferencedKeys_def by (auto split: prod.splits sum.splits)
qed

lemma row_accepted_storable: "uuid_ok pg \<Longrightarrow> row_accepted pg a \<Longrightarrow> storable pg (row_seen a)"
  by (simp add: storable_def row_accepted_def uuid_in_seen(2))

lemma att_serve_refines:
  assumes "ap_inv s" and "uuid_ok pg" and "array_ok pg" and "att_call_ok pg c"
  shows "ap_inv (snd (att_serve (attachPostgres pg) c s)) \<and>
    (ans_seen (fst (att_serve (attachPostgres pg) c s)), ap_abs (snd (att_serve (attachPostgres pg) c s))) =
      att_serve attachMemory (att_seen c) (ap_abs s)"
proof (cases c)
  case (CallACreate a u)
  with assms have ids: "isValidID (a_ID a)" "isValidID (a_TaskID a)" "isValidID (a_StorageKey a)" "isValidID u"
    by (simp_all add: row_accepted_def)
  have "storable pg (row_seen a)" using CallACreate assms by (simp add: row_accepted_storable)
  with ap_Create_refines [OF assms(1) this, of "lower u"] ap_Create_seen [OF assms(2) ids] uuid_in_seen(2) [OF assms(2) ids(4)] CallACreate
  show ?thesis by (simp add: prod_eq_iff)
next
  case (CallAFind k u)
  with assms have v: "isValidID k" "isValidID u" by simp_all
  with CallAFind ap_Find_refines [OF assms(1), of pg "lower k" "lower u"] ap_calls_seen(1) [OF assms(2) v] uuid_in_seen(2) [OF assms(2)]
  show ?thesis by (simp add: prod_eq_iff)
next
  case (CallAByTask t u)
  with assms have v: "isValidID t" "isValidID u" by simp_all
  with CallAByTask ap_reads_refine(1) [OF assms(1), of pg "lower t" "lower u"] ap_reads_keep(1) [OF assms(1)]
    ap_calls_seen(3) [OF assms(2) v] uuid_in_seen(2) [OF assms(2)]
  show ?thesis by (simp add: prod_eq_iff)
next
  case (CallADelete k u)
  with assms have v: "isValidID k" "isValidID u" by simp_all
  with CallADelete ap_Delete_refines [OF assms(1), of pg "lower k" "lower u"] ap_calls_seen(2) [OF assms(2) v] uuid_in_seen(2) [OF assms(2)]
  show ?thesis by (simp add: prod_eq_iff)
next
  case (CallATotal u)
  with assms have v: "isValidID u" by simp
  with CallATotal ap_reads_refine(3) [OF assms(1), of pg "lower u" "lower u"] ap_reads_keep(3) [OF assms(1)]
    ap_calls_seen(5) [OF assms(2) v v] uuid_in_seen(2) [OF assms(2)]
  show ?thesis by (simp add: prod_eq_iff)
next
  case (CallACount t u)
  with assms have v: "isValidID t" "isValidID u" by simp_all
  with CallACount ap_reads_refine(2) [OF assms(1), of pg "lower t" "lower u"] ap_reads_keep(2) [OF assms(1)]
    ap_calls_seen(4) [OF assms(2) v] uuid_in_seen(2) [OF assms(2)]
  show ?thesis by (simp add: prod_eq_iff)
next
  case (CallAUnreferenced ks)
  with assms ap_Unreferenced_refines [OF assms(1-3), of ks] ap_reads_keep(4) [OF assms(1)] show ?thesis by (simp add: prod_eq_iff)
qed

text \<open>
  C22. The two attachment repositories are one, up to what PostgreSQL's column types do. For every sequence of repository calls
  with identifiers of the form of a UUID and rows the schema accepts, PostgreSQL (answering without faults) gives the answers, errors included, that the
  in-memory repository gives to those calls as PostgreSQL sees them, started from the state the tables stand for, and ends in the state the in-memory one
  ends in. PostgreSQL sees an identifier in lower case, a time cut to whole microseconds (the service passes nanoseconds), and of
  the file names in the collector's query only those that have the form of a key, which the literal of \<^verbatim>\<open>pqTextArray\<close>
  carries over unchanged whatever else is in the list.
\<close>

theorem attachment_postgres_refines_memory:
  assumes "ap_inv s" and "uuid_ok pg" and "array_ok pg" and "\<forall>c \<in> set calls. att_call_ok pg c"
  shows "(map ans_seen (fst (att_trace (attachPostgres pg) calls s)), ap_abs (snd (att_trace (attachPostgres pg) calls s))) =
    att_trace attachMemory (map att_seen calls) (ap_abs s)"
  using assms
proof (induction calls arbitrary: s)
  case (Cons c cs)
  obtain x s' where 1: "att_serve (attachPostgres pg) c s = (x, s')" by fastforce
  with att_serve_refines [OF Cons.prems(1-3), of c] Cons.prems(4)
  have "att_serve attachMemory (att_seen c) (ap_abs s) = (ans_seen x, ap_abs s')" "ap_inv s'" by simp_all
  moreover obtain xs s'' where 2: "att_trace (attachPostgres pg) cs s' = (xs, s'')" by fastforce
  ultimately show ?case using Cons.IH [of s'] Cons.prems(2-4) 1 by (simp add: split_def prod_eq_iff)
qed simp

subsection \<open>The collector over PostgreSQL\<close>

text \<open>
  C21. A sweep over PostgreSQL comes to an end, leaves no orphan and touches nothing else. With the system calls and the database answering and file names the server's encoding can hold,
  \<^verbatim>\<open>CollectOrphans\<close> removes exactly the files older than the minimum age whose name has the form of a storage key and is, in lower case, the
  key of no row; it returns their number, and leaves every other file and all rows as they are. So a file whose name is no
  storage key survives, whatever its age and name.
\<close>

theorem sweep_removes_exactly_the_orphans:
  assumes "fs_clean b" and "0 < minAge" and "\<And>k. aisValidID k \<Longrightarrow> gd_admits g k"
    and "ap_inv s" and "uuid_ok pg" and "array_ok pg" and "text_in pg (pqTextArray (old_names b now minAge))"
  shows "\<exists>s' b'. CollectOrphans (attachPostgres pg) (fsBlobStore g p) live now minAge (s, b) =
      ((None, card {k. aisValidID k \<and> lower k \<notin> a_StorageKey ` set (ap_rows s) \<and> (\<exists>d t. fs_content b k = Some (d, t) \<and> t < now - minAge)}),
       (s', b')) \<and>
    ap_rows s' = ap_rows s \<and>
    (\<forall>k. fs_content b' k =
       (if aisValidID k \<and> lower k \<notin> a_StorageKey ` set (ap_rows s) \<and> (\<exists>d t. fs_content b k = Some (d, t) \<and> t < now - minAge)
        then None else fs_content b k))"
proof -
  let ?P = "\<lambda>k. aisValidID k \<and> lower k \<notin> a_StorageKey ` set (ap_rows s)"
  obtain n where ask: "ar_UnreferencedKeys (attachPostgres pg) Live (old_names b now minAge) s =
      (Inr (filter ?P (old_names b now minAge)), s\<lparr>ap_count := n\<rparr>)"
    using unreferenced_answer [OF assms(4-7)] by auto
  from sweep_over [OF assms(1,2) ask, of g p] assms(3)
  obtain b' where "CollectOrphans (attachPostgres pg) (fsBlobStore g p) live now minAge (s, b) =
      ((None, card {k. ?P k \<and> (\<exists>d t. fs_content b k = Some (d, t) \<and> t < now - minAge)}),
       (if old_names b now minAge = [] then s else s\<lparr>ap_count := n\<rparr>, b'))"
    "fs_content b' = (\<lambda>k. if k \<in> {k. ?P k \<and> (\<exists>d t. fs_content b k = Some (d, t) \<and> t < now - minAge)} then None else fs_content b k)"
    by blast
  then show ?thesis by (intro exI [of _ "if old_names b now minAge = [] then s else s\<lparr>ap_count := n\<rparr>"] exI [of _ b']) (simp add: conj_assoc)
qed


subsection \<open>A lost answer\<close>

lemma fs_Open_gone:
  "fs_content b k = None \<Longrightarrow> \<exists>b'. fs_Open g Live k b = (Inl (Sentinel AErrNotFound), b')"
  by (auto simp: fs_Open_def syscall_def fs_content_def split: option.splits fs_entry.splits)

text \<open>
  C23. A lost answer costs the bytes, not the row. When the insertion of the row is carried out but its answer is lost (the
  connection drops after the commit), an upload takes the error for a failed insertion and removes the blob. The row
  stays in the table, and its owner's download answers \<^verbatim>\<open>ErrNotFound\<close>.
\<close>

theorem lost_answer_leaves_row_without_bytes:
  assumes put: "upload_put lib cfg (attachPostgres pg) (fsBlobStore g p) live now r1 r2 u t f rd (s0, b0) = (Inr att, (s, b))"
    and lost: "ap_oracle s (ap_count s) = AFailAfter e" and "\<not> aisUniqueViolation e" and "\<not> isForeignKeyViolation e"
    and later: "ap_oracle s (Suc (ap_count s)) = ANoFault"
    and row: "storable pg att" "acanon pg u" "(a_TaskID att, u) \<in> set (ap_tasks s)" "aisValidID (a_StorageKey att)"
      "a_ID att \<notin> a_ID ` set (ap_rows s)" "a_StorageKey att \<notin> a_StorageKey ` set (ap_rows s)"
    and blob: "fs_clean b" "fs_content b (a_StorageKey att) \<noteq> None" "gd_admits g (a_StorageKey att)"
  shows "\<exists>e' s' b'. Upload lib cfg (attachPostgres pg) (fsBlobStore g p) live now r1 r2 u t f rd (s0, b0) = (Inl e', (s', b')) \<and>
    a_StorageKey att \<in> a_StorageKey ` set (ap_rows s') \<and> fs_content b' (a_StorageKey att) = None \<and>
    (\<exists>e''. fst (Download (attachPostgres pg) (fsBlobStore g p) live u (a_StorageKey att) (s', b')) = Inl e'' \<and> errors_Is e'' AErrNotFound)"
proof -
  let ?k = "a_StorageKey att"
  let ?row = "att\<lparr>a_CreatedAt := pg_time (a_CreatedAt att)\<rparr>"
  have ids: "att\<lparr>a_ID := a_ID att, a_TaskID := a_TaskID att, a_StorageKey := ?k, a_CreatedAt := pg_time (a_CreatedAt att)\<rparr> = ?row"
    by (cases att) simp
  define s' where "s' = s\<lparr>ap_count := Suc (ap_count s), ap_rows := ap_rows s @ [?row]\<rparr>"
  have "asql_insert pg att u s = Inr (1, ap_rows s @ [?row])"
    using row by (simp add: asql_insert_def storable_def ids Let_def att_row_error_def)
  then obtain e1 where c: "ap_Create pg Live att u s = (Inl e1, s')"
    using lost assms(3,4) by (simp add: ap_Create_def apg_exec_def Let_def s'_def)
  obtain b' where d: "fs_Delete g Live ?k b = (Inr (), b')" "fs_content b' ?k = None"
    using fs_Delete_clean [OF blob(1,3)] by auto
  have up: "Upload lib cfg (attachPostgres pg) (fsBlobStore g p) live now r1 r2 u t f rd (s0, b0) =
      (Inl (WrapPre ''upload attachment'' e1), (s', b'))"
    by (simp add: Upload_halves put upload_record_def c d(1))
  have "filter (\<lambda>a. a_StorageKey a = ?k \<and> (a_TaskID a, u) \<in> set (ap_tasks s)) (ap_rows s) = []"
    using row(6) by (auto simp: filter_empty_conv image_iff)
  then have "asql_find pg ?k u s' = Inr (?row, ap_rows s')"
    using row(1-4) by (simp add: asql_find_def storable_def s'_def)
  then obtain s'' where f: "ap_FindByStorageKey pg Live ?k u s' = (Inr ?row, s'')"
    using later by (simp add: ap_FindByStorageKey_def apg_exec_def Let_def s'_def)
  obtain b'' where "fs_Open g Live ?k b' = (Inl (Sentinel AErrNotFound), b'')" using fs_Open_gone [OF d(2)] by blast
  with f row(4) have "fst (Download (attachPostgres pg) (fsBlobStore g p) live u ?k (s', b')) =
      Inl (WrapPre ''download attachment'' (Sentinel AErrNotFound))" by (simp add: Download_def)
  moreover have "?k \<in> a_StorageKey ` set (ap_rows s')" by (simp add: s'_def)
  ultimately show ?thesis using up d(2) by (intro exI conjI) auto
qed


subsection \<open>Concrete runs\<close>

definition demo_apg_lib :: att_pg_lib where
  "demo_apg_lib = \<lparr>uuid_in = Some, text_in = (\<lambda>_. True),
     array_in = (\<lambda>lit. Some [filter (\<lambda>c. c \<notin> {CHR ''{'', CHR ''}'', CHR 0x22}) lit])\<rparr>"

definition demo_apg :: "attachment list \<Rightarrow> (nat \<Rightarrow> afault) \<Rightarrow> nat \<Rightarrow> att_pg" where
  "demo_apg as oracle n = \<lparr>ap_rows = as, ap_tasks = [(demo_id, ''ann'')], ap_oracle = oracle, ap_count = n\<rparr>"

text \<open>A server that reads identifiers and array literals as PostgreSQL documents it, and one task, of \<^term>\<open>demo_ann\<close>.\<close>

definition demo_server :: att_pg_lib where
  "demo_server = \<lparr>uuid_in = (\<lambda>i. if isValidID i then Some (lower i) else None), text_in = (\<lambda>_. True), array_in = array_read\<rparr>"

lemma demo_server_ok: "uuid_ok demo_server" "array_ok demo_server" "text_in demo_server t"
  by (simp_all add: uuid_ok_def array_ok_def demo_server_def)

definition demo_tables :: "attachment list \<Rightarrow> att_pg" where
  "demo_tables as = \<lparr>ap_rows = as, ap_tasks = [(demo_id, demo_ann)], ap_oracle = (\<lambda>_. ANoFault), ap_count = 0\<rparr>"

definition demo_att_calls :: "att_call list" where
  "demo_att_calls = [CallACreate demo_att demo_bob, CallACreate demo_att demo_ann, CallAFind demo_upper demo_ann,
     CallATotal demo_ann, CallAUnreferenced [demo_id, ''stray'', demo_bob], CallADelete demo_upper demo_ann]"

lemma demo_aids: "aisValidID demo_id" "aisValidID demo_bob" "\<not> aisValidID ''stray''" "isValidID demo_id"
proof -
  show "aisValidID demo_id" "aisValidID demo_bob" "isValidID demo_id" using demo_valid demo_ids_valid by (simp_all add: aisValidID_eq)
  show "\<not> aisValidID ''stray''" by (auto simp: aisValidID_eq isValidID_def idPattern_def dest!: list_all2_lengthD)
qed

lemma demo_distinct: "demo_ann \<noteq> demo_bob" "demo_bob \<noteq> demo_ann" "demo_id \<noteq> demo_bob" "demo_bob \<noteq> demo_id"
  by (simp_all add: demo_ann_def demo_bob_def demo_id_def)

theorem attachment_postgres_refines_memory_witness:
  "map ans_seen (fst (att_trace (attachPostgres demo_server) demo_att_calls (demo_tables []))) =
     [AnsUnit (Inl (Sentinel AErrTaskNotFound)), AnsUnit (Inr ()), AnsAtt (Inr (demo_att\<lparr>a_CreatedAt := 0\<rparr>)),
      AnsInt (Inr 10), AnsKeys (Inr [demo_bob]), AnsUnit (Inr ())]"
proof -
  have "row_accepted demo_server demo_att"
    using demo_aids by (simp add: row_accepted_def demo_server_def demo_att_def go_eval)
  then have "\<forall>c \<in> set demo_att_calls. att_call_ok demo_server c"
    using demo_server_ok demo_ids_valid by (simp add: demo_att_calls_def)
  moreover have "ap_inv (demo_tables [])" by (simp add: ap_inv_def demo_tables_def)
  moreover have seen: "row_seen demo_att = demo_att\<lparr>a_CreatedAt := 0\<rparr>"
    by (simp add: row_seen_def demo_att_def demo_lower pg_time_def)
  moreover have "fst (att_trace attachMemory (map att_seen demo_att_calls) (ap_abs (demo_tables []))) =
     [AnsUnit (Inl (Sentinel AErrTaskNotFound)), AnsUnit (Inr ()), AnsAtt (Inr (demo_att\<lparr>a_CreatedAt := 0\<rparr>)),
      AnsInt (Inr 10), AnsKeys (Inr [demo_bob]), AnsUnit (Inr ())]"
    by (simp add: demo_att_calls_def seen demo_lower demo_aids demo_distinct)
      (simp add: demo_att_def demo_distinct ap_abs_def demo_tables_def owns_in_def am_Create_def
        am_Delete_def am_FindByStorageKey_def am_TotalBytesForUser_def am_UnreferencedKeys_def)
  ultimately show ?thesis using attachment_postgres_refines_memory [OF _ demo_server_ok(1,2), of "demo_tables []" demo_att_calls]
    by (simp add: prod_eq_iff)
qed

theorem sweep_removes_exactly_the_orphans_witness:
  "\<exists>s' b'. CollectOrphans (attachPostgres demo_server) (fsBlobStore demo_guard (\<lambda>_. True)) live 100 60
      (demo_tables [demo_att], demo_fs [(demo_id, File ''two litres'' 7), (''stray'', File ''x'' 7), (demo_bob, File ''z'' 7), (demo_ann, File ''y'' 90)] 0 100) =
      ((None, 1), (s', b')) \<and> fs_content b' ''stray'' = Some (''x'', 7) \<and> fs_content b' demo_id = Some (''two litres'', 7) \<and>
      fs_content b' demo_ann = Some (''y'', 90) \<and> fs_content b' demo_bob = None"
proof -
  let ?b = "demo_fs [(demo_id, File ''two litres'' 7), (''stray'', File ''x'' 7), (demo_bob, File ''z'' 7), (demo_ann, File ''y'' 90)] 0 100"
  have names: "demo_id \<noteq> ''stray''" "demo_bob \<noteq> ''stray''" "demo_ann \<noteq> ''stray''" "demo_id \<noteq> demo_ann"
    by (simp_all add: demo_id_def demo_ann_def demo_bob_def)
  have c: "fs_clean ?b" using names demo_distinct by (auto simp: fs_clean_def demo_fs_def)
  have inv: "ap_inv (demo_tables [demo_att])" by (simp add: ap_inv_def demo_tables_def)
  have content: "fs_content ?b k = (if k = demo_id then Some (''two litres'', 7) else if k = ''stray'' then Some (''x'', 7)
      else if k = demo_bob then Some (''z'', 7) else if k = demo_ann then Some (''y'', 90) else None)" for k
    by (simp add: fs_content_def demo_fs_def)
  have rows: "a_StorageKey ` set (ap_rows (demo_tables [demo_att])) = {demo_id}" by (simp add: demo_tables_def demo_att_def)
  have old: "(\<exists>d t. fs_content ?b k = Some (d, t) \<and> t < 100 - 60) \<longleftrightarrow> k \<in> {demo_id, ''stray'', demo_bob}" for k
    using names demo_distinct by (simp add: content)
  have mem: "aisValidID k \<and> lower k \<notin> a_StorageKey ` set (ap_rows (demo_tables [demo_att])) \<and> (\<exists>d t. fs_content ?b k = Some (d, t) \<and> t < 100 - 60)
      \<longleftrightarrow> k = demo_bob" for k unfolding rows old using demo_aids demo_distinct demo_lower by auto
  obtain s' b' where run: "CollectOrphans (attachPostgres demo_server) (fsBlobStore demo_guard (\<lambda>_. True)) live 100 60 (demo_tables [demo_att], ?b) =
      ((None, 1), (s', b'))" "\<And>k. fs_content b' k = (if k = demo_bob then None else fs_content ?b k)"
    using sweep_removes_exactly_the_orphans [OF c _ _ inv demo_server_ok, where g = demo_guard and p = "\<lambda>_. True" and now = 100 and minAge = 60, unfolded mem]
    by (auto simp: demo_guard_def)
  then show ?thesis using names demo_distinct by (intro exI [of _ s'] exI [of _ b']) (simp add: content)
qed

definition demo_lost :: "nat \<Rightarrow> afault" where
  "demo_lost n = (if n = 2 then AFailAfter (Sentinel ADriverErrBadConn) else ANoFault)"

lemma demo_pg_put:
  "upload_put demo_att_lib demo_att_cfg (attachPostgres demo_apg_lib) (fsBlobStore demo_guard p) live 7 (Inr demo_bytes)
     (Inr demo_bytes) ''ann'' demo_id ''docs/notes.txt'' demo_reader (demo_apg [] demo_lost 0, demo_fs [] 0 7) =
   (Inr demo_att, (demo_apg [] demo_lost 2, demo_fs [(demo_id, File ''two litres'' 7)] 3 7))"
  by (simp add: upload_put_def demo_valid demo_filename demo_head demo_type demo_anewID demo_put Let_def
      ap_TotalBytesForUser_def ap_CountByTask_def apg_exec_def asql_total_def asql_count_def demo_apg_lib_def demo_apg_def demo_lost_def
      demo_att_cfg_def maxAttachmentsPerTask_def allowedContentTypes_def demo_att_def)

theorem lost_answer_leaves_row_without_bytes_witness:
  "\<exists>e' s' b'. Upload demo_att_lib demo_att_cfg (attachPostgres demo_apg_lib) (fsBlobStore demo_guard (\<lambda>_. True)) live 7
      (Inr demo_bytes) (Inr demo_bytes) ''ann'' demo_id ''docs/notes.txt'' demo_reader (demo_apg [] demo_lost 0, demo_fs [] 0 7) =
      (Inl e', (s', b')) \<and> demo_id \<in> a_StorageKey ` set (ap_rows s') \<and> fs_content b' demo_id = None \<and>
    (\<exists>e''. fst (Download (attachPostgres demo_apg_lib) (fsBlobStore demo_guard (\<lambda>_. True)) live ''ann'' demo_id (s', b')) = Inl e'' \<and>
      errors_Is e'' AErrNotFound)"
proof -
  have key: "a_StorageKey demo_att = demo_id" by (simp add: demo_att_def)
  have "storable demo_apg_lib demo_att" by (simp add: storable_def demo_apg_lib_def demo_att_def go_eval)
  moreover have "fs_content (demo_fs [(demo_id, File ''two litres'' 7)] 3 7) demo_id \<noteq> None" "fs_clean (demo_fs [(demo_id, File ''two litres'' 7)] 3 7)"
    by (simp_all add: fs_content_def fs_clean_def demo_fs_def)
  moreover have "\<not> aisUniqueViolation (Sentinel ADriverErrBadConn)" "\<not> isForeignKeyViolation (Sentinel ADriverErrBadConn)"
    by (simp_all add: aisUniqueViolation_def isForeignKeyViolation_def)
  ultimately show ?thesis
    using lost_answer_leaves_row_without_bytes [OF demo_pg_put [of "\<lambda>_. True"], of "Sentinel ADriverErrBadConn", unfolded key] demo_valid
    by (simp add: demo_apg_def demo_lost_def demo_guard_def key demo_att_def) (simp add: demo_apg_lib_def)
qed

end
