(* ===== verification/Breakers.thy ===== *)
theory Breakers
  imports UserSessions AttachPostgres TaskBreaker
begin

text \<open>
  The circuit breaker in front of PostgreSQL as the user and the attachment packages use it
  (\<^verbatim>\<open>internal/user/postgres_breaker.go\<close>, \<^verbatim>\<open>internal/attachment/postgres_breaker.go\<close>, and the translation in
  \<^verbatim>\<open>internal/attachment/s3_breaker.go\<close>). As in the task package every method is one call of the breaker. The breaker of the
  \<^verbatim>\<open>bastion\<close> library is an argument: it admits or rejects a call and is told how an admitted one ended.
\<close>

subsection \<open>One guarded call, over any package's errors and contexts\<close>

record ('c, 's, 'b) breaker =
  bk_admit :: "'c \<Rightarrow> 'b \<Rightarrow> rejection option \<times> 'b"
  bk_settle :: "'s gerr option \<Rightarrow> 'b \<Rightarrow> 'b"

definition Execute :: "('c \<Rightarrow> rejection \<Rightarrow> 's gerr) \<Rightarrow> ('c, 's, 'b) breaker \<Rightarrow> 'c \<Rightarrow> ('s, 'a, 'st) op \<Rightarrow> ('s, 'a, 'st \<times> 'b) op" where
  "Execute rej_err B ctx fn sb =
     (case sb of (s, b) \<Rightarrow>
      case bk_admit B ctx b of
        (Some rej, b') \<Rightarrow> (Inl (rej_err ctx rej), (s, b'))
      | (None, b') \<Rightarrow>
          (case fn s of
             (Inl err, s') \<Rightarrow> (Inl err, (s', bk_settle B (Some err) b'))
           | (Inr x, s') \<Rightarrow> (Inr x, (s', bk_settle B None b'))))"

definition map_error :: "('s gerr \<Rightarrow> 's gerr) \<Rightarrow> ('s, 'a) res \<times> 'st \<Rightarrow> ('s, 'a) res \<times> 'st" where
  "map_error f out = (case out of (Inl err, s) \<Rightarrow> (Inl (f err), s) | (Inr x, s) \<Rightarrow> (Inr x, s))"

lemma guarded_cases:
  assumes "map_error f (Execute rej_err B ctx fn (s, b)) = (r, (s', b'))"
  obtains (rejected) rej where "bk_admit B ctx b = (Some rej, b')" "r = Inl (f (rej_err ctx rej))" "s' = s"
    | (error) e where "fst (bk_admit B ctx b) = None" "fn s = (Inl e, s')" "r = Inl (f e)"
    | (finished) x where "fst (bk_admit B ctx b) = None" "fn s = (Inr x, s')" "r = Inr x"
  using assms
  by (cases "bk_admit B ctx b"; cases "fst (bk_admit B ctx b)"; cases "fn s"; cases "fst (fn s)")
    (auto simp: map_error_def Execute_def)

subsection \<open>Users\<close>

fun urejection_error :: "uctx \<Rightarrow> rejection \<Rightarrow> uerr" where
  "urejection_error ctx OpenState = Sentinel UBreakerErrOpenState"
| "urejection_error ctx TooManyRequests = Sentinel UBreakerErrTooManyRequests"
| "urejection_error ctx ContextDone = (case uctx_Err ctx of Some err \<Rightarrow> err | None \<Rightarrow> Sentinel UContextCanceled)"

definition utranslateBreakerError :: "duration \<Rightarrow> uerr \<Rightarrow> uerr" where
  "utranslateBreakerError retryAfter err =
     (if errors_Is err UBreakerErrOpenState \<or> errors_Is err UBreakerErrTooManyRequests
      then UnavailErr UErrUnavailable err retryAfter else err)"

definition ubrk :: "(uctx, user_err, 'b) breaker \<Rightarrow> duration \<Rightarrow> uctx \<Rightarrow> (user_err, 'a, 's) op \<Rightarrow> (user_err, 'a, 's \<times> 'b) op" where
  "ubrk B ra ctx fn sb = map_error (utranslateBreakerError ra) (Execute urejection_error B ctx fn sb)"

definition userBreaker :: "(uctx, user_err, 'b) breaker \<Rightarrow> duration \<Rightarrow> 's user_repo \<Rightarrow> ('s \<times> 'b) user_repo" where
  "userBreaker B ra next = \<lparr>
     ur_CreateUser = (\<lambda>ctx u. ubrk B ra ctx (ur_CreateUser next ctx u)),
     ur_FindUserByEmail = (\<lambda>ctx email. ubrk B ra ctx (ur_FindUserByEmail next ctx email)),
     ur_FindUserByID = (\<lambda>ctx i. ubrk B ra ctx (ur_FindUserByID next ctx i)),
     ur_UpdateUserPassword = (\<lambda>ctx now i hash. ubrk B ra ctx (ur_UpdateUserPassword next ctx now i hash)),
     ur_DeleteUser = (\<lambda>ctx i. ubrk B ra ctx (ur_DeleteUser next ctx i)),
     ur_CreateSession = (\<lambda>ctx sess maxSessions. ubrk B ra ctx (ur_CreateSession next ctx sess maxSessions)),
     ur_FindSessionByTokenHash = (\<lambda>ctx h. ubrk B ra ctx (ur_FindSessionByTokenHash next ctx h)),
     ur_DeleteSession = (\<lambda>ctx h. ubrk B ra ctx (ur_DeleteSession next ctx h)),
     ur_FindSessionsForUser = (\<lambda>ctx u. ubrk B ra ctx (ur_FindSessionsForUser next ctx u)),
     ur_DeleteSessionsForUser = (\<lambda>ctx u. ubrk B ra ctx (ur_DeleteSessionsForUser next ctx u)),
     ur_DeleteSessionsForUserExcept = (\<lambda>ctx u keep. ubrk B ra ctx (ur_DeleteSessionsForUserExcept next ctx u keep)),
     ur_DeleteExpiredSessions = (\<lambda>ctx now. ubrk B ra ctx (ur_DeleteExpiredSessions next ctx now)) \<rparr>"

subsection \<open>Attachments\<close>

fun arejection_error :: "ctx_state \<Rightarrow> rejection \<Rightarrow> aerr" where
  "arejection_error ctx OpenState = Sentinel ABreakerErrOpenState"
| "arejection_error ctx TooManyRequests = Sentinel ABreakerErrTooManyRequests"
| "arejection_error ctx ContextDone = (case actx_Err ctx of Some err \<Rightarrow> err | None \<Rightarrow> Sentinel AContextCanceled)"

definition atranslateBreakerError :: "duration \<Rightarrow> aerr \<Rightarrow> aerr" where
  "atranslateBreakerError retryAfter err =
     (if errors_Is err ABreakerErrOpenState \<or> errors_Is err ABreakerErrTooManyRequests
      then UnavailErr AErrUnavailable err retryAfter else err)"

definition abrk :: "(ctx_state, att_err, 'b) breaker \<Rightarrow> duration \<Rightarrow> ctx_state \<Rightarrow> (att_err, 'a, 's) op
    \<Rightarrow> (att_err, 'a, 's \<times> 'b) op" where
  "abrk B ra ctx fn sb = map_error (atranslateBreakerError ra) (Execute arejection_error B ctx fn sb)"

definition attachBreaker :: "(ctx_state, att_err, 'b) breaker \<Rightarrow> duration \<Rightarrow> 's att_repo \<Rightarrow> ('s \<times> 'b) att_repo" where
  "attachBreaker B ra next = \<lparr>
     ar_Create = (\<lambda>ctx a u. abrk B ra ctx (ar_Create next ctx a u)),
     ar_FindByStorageKey = (\<lambda>ctx k u. abrk B ra ctx (ar_FindByStorageKey next ctx k u)),
     ar_FindByTask = (\<lambda>ctx t u. abrk B ra ctx (ar_FindByTask next ctx t u)),
     ar_Delete = (\<lambda>ctx k u. abrk B ra ctx (ar_Delete next ctx k u)),
     ar_TotalBytesForUser = (\<lambda>ctx u. abrk B ra ctx (ar_TotalBytesForUser next ctx u)),
     ar_CountByTask = (\<lambda>ctx t u. abrk B ra ctx (ar_CountByTask next ctx t u)),
     ar_UnreferencedKeys = (\<lambda>ctx ks. abrk B ra ctx (ar_UnreferencedKeys next ctx ks)) \<rparr>"

subsection \<open>What a caller sees\<close>

text \<open>
  The breaker all three packages put in front of PostgreSQL. In each of them, for every repository method: a
  call the breaker rejects because it is open or probing never reaches the database, and its error is the
  package's \<^verbatim>\<open>ErrUnavailable\<close> with the configured \<^verbatim>\<open>RetryAfter\<close>; a call it admits runs once, in
  full, with the state and answer the method has without the breaker; and no error that leaves the decorator matches
  a sentinel of the breaker library.
\<close>

theorem breaker_contract:
  "(\<forall>r s' b'. with_translation ra (bastion_Execute BT ct ft (st, bt)) = (r, (s', b')) \<longrightarrow>
      (case fst (bst_admit BT ct bt) of
         Some rej \<Rightarrow> s' = st \<and> (rej \<noteq> ContextDone \<longrightarrow> (\<exists>e. r = Inl e \<and> errors_Is e TErrUnavailable \<and> errors_As_RetryAfter e = Some ra))
       | None \<Rightarrow> s' = snd (ft st) \<and> (\<forall>x. r = Inr x \<longleftrightarrow> fst (ft st) = Inr x)) \<and>
      (\<forall>e. r = Inl e \<longrightarrow> \<not> errors_Is e TBreakerErrOpenState \<and> \<not> errors_Is e TBreakerErrTooManyRequests)) \<and>
   (\<forall>r s' b'. ubrk BU ra cu fu (su, bu) = (r, (s', b')) \<longrightarrow>
      (case fst (bk_admit BU cu bu) of
         Some rej \<Rightarrow> s' = su \<and> (rej \<noteq> ContextDone \<longrightarrow> (\<exists>e. r = Inl e \<and> errors_Is e UErrUnavailable \<and> errors_As_RetryAfter e = Some ra))
       | None \<Rightarrow> s' = snd (fu su) \<and> (\<forall>x. r = Inr x \<longleftrightarrow> fst (fu su) = Inr x)) \<and>
      (\<forall>e. r = Inl e \<longrightarrow> \<not> errors_Is e UBreakerErrOpenState \<and> \<not> errors_Is e UBreakerErrTooManyRequests)) \<and>
   (\<forall>r s' b'. abrk BA ra ca fa (sa, ba) = (r, (s', b')) \<longrightarrow>
      (case fst (bk_admit BA ca ba) of
         Some rej \<Rightarrow> s' = sa \<and> (rej \<noteq> ContextDone \<longrightarrow> (\<exists>e. r = Inl e \<and> errors_Is e AErrUnavailable \<and> errors_As_RetryAfter e = Some ra))
       | None \<Rightarrow> s' = snd (fa sa) \<and> (\<forall>x. r = Inr x \<longleftrightarrow> fst (fa sa) = Inr x)) \<and>
      (\<forall>e. r = Inl e \<longrightarrow> \<not> errors_Is e ABreakerErrOpenState \<and> \<not> errors_Is e ABreakerErrTooManyRequests))"
proof (intro conjI)
  have rej: "rej \<noteq> ContextDone \<Longrightarrow> rej = OpenState \<or> rej = TooManyRequests" for rej by (cases rej) auto
  show "\<forall>r s' b'. with_translation ra (bastion_Execute BT ct ft (st, bt)) = (r, (s', b')) \<longrightarrow>
      (case fst (bst_admit BT ct bt) of
         Some rej \<Rightarrow> s' = st \<and> (rej \<noteq> ContextDone \<longrightarrow> (\<exists>e. r = Inl e \<and> errors_Is e TErrUnavailable \<and> errors_As_RetryAfter e = Some ra))
       | None \<Rightarrow> s' = snd (ft st) \<and> (\<forall>x. r = Inr x \<longleftrightarrow> fst (ft st) = Inr x)) \<and>
      (\<forall>e. r = Inl e \<longrightarrow> \<not> errors_Is e TBreakerErrOpenState \<and> \<not> errors_Is e TBreakerErrTooManyRequests)"
    by (auto simp: with_translation_def bastion_Execute_def translateBreakerError_def split: prod.splits option.splits sum.splits
        dest!: rej)
  show "\<forall>r s' b'. ubrk BU ra cu fu (su, bu) = (r, (s', b')) \<longrightarrow>
      (case fst (bk_admit BU cu bu) of
         Some rej \<Rightarrow> s' = su \<and> (rej \<noteq> ContextDone \<longrightarrow> (\<exists>e. r = Inl e \<and> errors_Is e UErrUnavailable \<and> errors_As_RetryAfter e = Some ra))
       | None \<Rightarrow> s' = snd (fu su) \<and> (\<forall>x. r = Inr x \<longleftrightarrow> fst (fu su) = Inr x)) \<and>
      (\<forall>e. r = Inl e \<longrightarrow> \<not> errors_Is e UBreakerErrOpenState \<and> \<not> errors_Is e UBreakerErrTooManyRequests)"
    by (auto simp: ubrk_def map_error_def Execute_def utranslateBreakerError_def split: prod.splits option.splits sum.splits
        dest!: rej)
  show "\<forall>r s' b'. abrk BA ra ca fa (sa, ba) = (r, (s', b')) \<longrightarrow>
      (case fst (bk_admit BA ca ba) of
         Some rej \<Rightarrow> s' = sa \<and> (rej \<noteq> ContextDone \<longrightarrow> (\<exists>e. r = Inl e \<and> errors_Is e AErrUnavailable \<and> errors_As_RetryAfter e = Some ra))
       | None \<Rightarrow> s' = snd (fa sa) \<and> (\<forall>x. r = Inr x \<longleftrightarrow> fst (fa sa) = Inr x)) \<and>
      (\<forall>e. r = Inl e \<longrightarrow> \<not> errors_Is e ABreakerErrOpenState \<and> \<not> errors_Is e ABreakerErrTooManyRequests)"
    by (auto simp: abrk_def map_error_def Execute_def atranslateBreakerError_def split: prod.splits option.splits sum.splits
        dest!: rej)
qed

definition demo_guarding :: "('c, 's, nat) breaker" where
  "demo_guarding = \<lparr>bk_admit = (\<lambda>_ n. if n = 0 then (Some OpenState, 0) else (None, n - 1)), bk_settle = (\<lambda>_ n. n)\<rparr>"

theorem breaker_contract_witness:
  "\<exists>e. ur_DeleteUser (userBreaker demo_guarding 30 userMemory) ULive ''u1'' (um_New, 0) =
     (Inl e, (um_New, 0)) \<and> errors_Is e UErrUnavailable \<and> errors_As_RetryAfter e = Some 30"
proof -
  let ?f = "um_DeleteUser ULive ''u1''" and ?s = um_New
  let ?B = "demo_guarding :: (uctx, user_err, nat) breaker"
  obtain r s' b' where run: "ubrk ?B 30 ULive ?f (?s, 0) = (r, (s', b'))" by (metis prod_cases3)
  have adm: "bk_admit ?B ULive 0 = (Some OpenState, 0)" by (simp add: demo_guarding_def)
  then have "b' = 0" using run by (simp add: ubrk_def map_error_def Execute_def)
  moreover have "s' = ?s" "\<exists>e. r = Inl e \<and> errors_Is e UErrUnavailable \<and> errors_As_RetryAfter e = Some 30"
    using conjunct1 [OF conjunct2 [OF breaker_contract [of 30 demo_breaker Live "mem_Update Live demo_task" "[]" 0 ?B ULive ?f ?s 0 "demo_guarding" Live
        "am_Delete Live '''' ''''" demo_att_mem 0]], rule_format, OF run] adm by auto
  ultimately show ?thesis using run by (auto simp: userBreaker_def)
qed

end
