(* ===== verification/Migrations.thy ===== *)
theory Migrations
  imports GoStrings
begin

text \<open>
  Schema migrations (\<^verbatim>\<open>internal/platform/migrate/migrate.go\<close>) and the command that runs them
  (\<^verbatim>\<open>cmd/migrate/main.go\<close>). The embedded files are a list of paths with their contents. The database has a schema of any type
  \<open>'d\<close>, which a script changes as \<open>exec\<close> says (or fails on), and the table \<^verbatim>\<open>schema_migrations\<close>, absent before the first run.
  Every statement takes the next entry of \<open>mdb_faults\<close>: it works, it fails without effect (an expired context is such a
  failure), or, for a statement that commits, it is applied and its answer lost. \<^verbatim>\<open>now()\<close> is the time at which the
  transaction began.
\<close>

subsection \<open>The files and the database\<close>

datatype mig_err = ErrNoMigrationsToRevert

type_synonym merr = "mig_err gerr"

datatype db_fault = Works | Refused merr | Lost merr

record 'd mig_db =
  mdb_schema :: 'd
  mdb_table :: "(string \<times> time) list option"
  mdb_faults :: "nat \<Rightarrow> db_fault"
  mdb_calls :: nat
  mdb_now :: "nat \<Rightarrow> time"

type_synonym mig_files = "(string, string) gomap"

definition HasSuffix :: "string \<Rightarrow> string \<Rightarrow> bool" where
  "HasSuffix s suf \<longleftrightarrow> length suf \<le> length s \<and> drop (length s - length suf) s = suf"

definition TrimSuffix :: "string \<Rightarrow> string \<Rightarrow> string" where
  "TrimSuffix s suf = (if HasSuffix s suf then take (length s - length suf) s else s)"

definition path_Base :: "string \<Rightarrow> string" where
  "path_Base p = rev (takeWhile (\<lambda>c. c \<noteq> CHR ''/'') (rev p))"

text \<open>\<^verbatim>\<open>fs.Glob(migrationFiles, "migrations/*.up.sql")\<close>: the star stands for no slash.\<close>

definition Glob_up :: "mig_files \<Rightarrow> string list" where
  "Glob_up files = filter (\<lambda>p. take 11 p = ''migrations/'' \<and> HasSuffix p ''.up.sql'' \<and> CHR ''/'' \<notin> set (drop 11 p)) (map fst files)"

definition ReadFile :: "mig_files \<Rightarrow> string \<Rightarrow> (mig_err, string) res" where
  "ReadFile files p = (case map_of files p of None \<Rightarrow> Inl (Opaque (''open '' @ p @ '': file does not exist'')) | Some c \<Rightarrow> Inr c)"

definition version_of :: "string \<Rightarrow> string" where
  "version_of p = TrimSuffix (path_Base p) ''.up.sql''"

subsection \<open>Statements\<close>

definition next_fault :: "'d mig_db \<Rightarrow> db_fault \<times> 'd mig_db" where
  "next_fault db = (mdb_faults db (mdb_calls db), db\<lparr>mdb_calls := Suc (mdb_calls db)\<rparr>)"

definition ensureMigrationsTable :: "(mig_err, unit, 'd mig_db) op" where
  "ensureMigrationsTable db =
     (case next_fault db of (f, db1) \<Rightarrow>
      let created = db1\<lparr>mdb_table := (case mdb_table db1 of None \<Rightarrow> Some [] | Some t \<Rightarrow> Some t)\<rparr> in
      case f of
        Refused err \<Rightarrow> (Inl err, db1)
      | Lost err \<Rightarrow> (Inl err, created)
      | Works \<Rightarrow> (Inr (), created))"

text \<open>A query fails without effect whichever way it fails.\<close>

definition query :: "((string \<times> time) list \<Rightarrow> 'a) \<Rightarrow> (mig_err, 'a, 'd mig_db) op" where
  "query q db =
     (case next_fault db of (f, db1) \<Rightarrow>
      case f of
        Refused err \<Rightarrow> (Inl err, db1)
      | Lost err \<Rightarrow> (Inl err, db1)
      | Works \<Rightarrow> (case mdb_table db1 of
          None \<Rightarrow> (Inl (Opaque ''relation schema_migrations does not exist''), db1)
        | Some t \<Rightarrow> (Inr (q t), db1)))"

definition migrationApplied :: "string \<Rightarrow> (mig_err, bool, 'd mig_db) op" where
  "migrationApplied version = query (\<lambda>t. version \<in> fst ` set t)"

text \<open>\<^verbatim>\<open>ORDER BY applied_at DESC LIMIT 1\<close>; the empty string when there is no row.\<close>

definition latestAppliedMigration :: "(mig_err, string, 'd mig_db) op" where
  "latestAppliedMigration = query (\<lambda>t. case sort_key (\<lambda>(v, at). - at) t of [] \<Rightarrow> '''' | (v, at) # _ \<Rightarrow> v)"

text \<open>
  A transaction of a script and one change of the table: begin, script, change, commit. Any failure before the commit rolls
  everything back.
\<close>

definition mig_tx :: "(string \<Rightarrow> 'd \<Rightarrow> merr + 'd) \<Rightarrow> string \<Rightarrow> string \<Rightarrow> string \<Rightarrow> ((string \<times> time) list \<Rightarrow> time \<Rightarrow> merr + (string \<times> time) list)
    \<Rightarrow> (mig_err, unit, 'd mig_db) op" where
  "mig_tx exec script_msg change_msg stmt change db =
     (case next_fault db of (f1, db1) \<Rightarrow>
      case f1 of Refused err \<Rightarrow> (Inl (WrapPre ''begin transaction'' err), db1) | Lost err \<Rightarrow> (Inl (WrapPre ''begin transaction'' err), db1) | Works \<Rightarrow>
      (case next_fault db1 of (f2, db2) \<Rightarrow>
      case f2 of Refused err \<Rightarrow> (Inl (WrapPre script_msg err), db2) | Lost err \<Rightarrow> (Inl (WrapPre script_msg err), db2) | Works \<Rightarrow>
      (case exec stmt (mdb_schema db2) of Inl err \<Rightarrow> (Inl (WrapPre script_msg err), db2) | Inr schema \<Rightarrow>
      (case next_fault db2 of (f3, db3) \<Rightarrow>
      case f3 of Refused err \<Rightarrow> (Inl (WrapPre change_msg err), db3) | Lost err \<Rightarrow> (Inl (WrapPre change_msg err), db3) | Works \<Rightarrow>
      (case mdb_table db3 of
         None \<Rightarrow> (Inl (WrapPre change_msg (Opaque ''relation schema_migrations does not exist'')), db3)
       | Some t \<Rightarrow>
      (case change t (mdb_now db (mdb_calls db)) of Inl err \<Rightarrow> (Inl (WrapPre change_msg err), db3) | Inr t' \<Rightarrow>
      (case next_fault db3 of (f4, db4) \<Rightarrow>
      let committed = db4\<lparr>mdb_schema := schema, mdb_table := Some t'\<rparr> in
      case f4 of
        Refused err \<Rightarrow> (Inl (WrapPre ''commit transaction'' err), db4)
      | Lost err \<Rightarrow> (Inl (WrapPre ''commit transaction'' err), committed)
      | Works \<Rightarrow> (Inr (), committed))))))))"

definition applyMigration :: "(string \<Rightarrow> 'd \<Rightarrow> merr + 'd) \<Rightarrow> string \<Rightarrow> string \<Rightarrow> (mig_err, unit, 'd mig_db) op" where
  "applyMigration exec version stmt =
     mig_tx exec ''execute migration DDL'' ''record migration version'' stmt
       (\<lambda>t now. if version \<in> fst ` set t then Inl (PgError ''23505'' ''duplicate key value'') else Inr (t @ [(version, now)]))"

definition revertMigration :: "(string \<Rightarrow> 'd \<Rightarrow> merr + 'd) \<Rightarrow> string \<Rightarrow> string \<Rightarrow> (mig_err, unit, 'd mig_db) op" where
  "revertMigration exec version stmt =
     mig_tx exec ''execute down migration DDL'' ''remove migration record'' stmt
       (\<lambda>t now. Inr (filter (\<lambda>(v, at). v \<noteq> version) t))"

subsection \<open>Up and down\<close>

fun up_loop :: "mig_files \<Rightarrow> (string \<Rightarrow> 'd \<Rightarrow> merr + 'd) \<Rightarrow> string list \<Rightarrow> (mig_err, unit, 'd mig_db) op" where
  "up_loop files exec [] db = (Inr (), db)"
| "up_loop files exec (p # paths) db =
     (let version = version_of p in
      case migrationApplied version db of
        (Inl err, db1) \<Rightarrow> (Inl (WrapPre (''postgres: check migration '' @ version) err), db1)
      | (Inr True, db1) \<Rightarrow> up_loop files exec paths db1
      | (Inr False, db1) \<Rightarrow>
          (case ReadFile files p of
             Inl err \<Rightarrow> (Inl (WrapPre (''postgres: read migration '' @ version) err), db1)
           | Inr stmt \<Rightarrow>
               (case applyMigration exec version stmt db1 of
                  (Inl err, db2) \<Rightarrow> (Inl (WrapPre (''postgres: apply migration '' @ version) err), db2)
                | (Inr _, db2) \<Rightarrow> up_loop files exec paths db2)))"

definition RunMigrations :: "mig_files \<Rightarrow> (string \<Rightarrow> 'd \<Rightarrow> merr + 'd) \<Rightarrow> (mig_err, unit, 'd mig_db) op" where
  "RunMigrations files exec db =
     (case ensureMigrationsTable db of
        (Inl err, db1) \<Rightarrow> (Inl (WrapPre ''postgres: ensure schema_migrations table'' err), db1)
      | (Inr _, db1) \<Rightarrow> up_loop files exec (sort (Glob_up files)) db1)"

definition RunMigrationsDown :: "mig_files \<Rightarrow> (string \<Rightarrow> 'd \<Rightarrow> merr + 'd) \<Rightarrow> (mig_err, unit, 'd mig_db) op" where
  "RunMigrationsDown files exec db =
     (case ensureMigrationsTable db of
        (Inl err, db1) \<Rightarrow> (Inl (WrapPre ''postgres: ensure schema_migrations table'' err), db1)
      | (Inr _, db1) \<Rightarrow>
      (case latestAppliedMigration db1 of
         (Inl err, db2) \<Rightarrow> (Inl (WrapPre ''postgres: find latest applied migration'' err), db2)
       | (Inr version, db2) \<Rightarrow>
      if version = '''' then (Inl (Sentinel ErrNoMigrationsToRevert), db2)
      else (case ReadFile files (''migrations/'' @ version @ ''.down.sql'') of
              Inl err \<Rightarrow> (Inl (WrapPre (''postgres: read down migration for '' @ version) err), db2)
            | Inr stmt \<Rightarrow>
                (case revertMigration exec version stmt db2 of
                   (Inl err, db3) \<Rightarrow> (Inl (WrapPre (''postgres: revert migration '' @ version) err), db3)
                 | (Inr _, db3) \<Rightarrow> (Inr (), db3)))))"

subsection \<open>The command\<close>

text \<open>
  \<^verbatim>\<open>run\<close> of \<^verbatim>\<open>cmd/migrate\<close>: \<open>load\<close> is the database URL of the loaded configuration, \<open>open_db\<close> what
  \<^verbatim>\<open>sql.Open\<close> returns; the result is the line printed.
\<close>

definition migrate_run :: "mig_files \<Rightarrow> (string \<Rightarrow> 'd \<Rightarrow> merr + 'd) \<Rightarrow> (nat \<Rightarrow> bool) \<Rightarrow> string \<Rightarrow> merr + string \<Rightarrow> (string \<Rightarrow> merr option)
    \<Rightarrow> (mig_err, string, 'd mig_db) op" where
  "migrate_run files exec isPrint direction load open_db db =
     (if direction \<noteq> ''up'' \<and> direction \<noteq> ''down''
      then (Inl (Opaque (''invalid -direction '' @ Quote isPrint direction @ '': want '' @ [CHR 0x22] @ ''up'' @ [CHR 0x22] @ '' or '' @
              [CHR 0x22] @ ''down'' @ [CHR 0x22])), db)
      else case load of
        Inl err \<Rightarrow> (Inl (WrapPre ''load config'' err), db)
      | Inr url \<Rightarrow>
      if url = '''' then (Inl (Opaque ''DATABASE_URL must be set''), db)
      else case open_db url of
        Some err \<Rightarrow> (Inl (WrapPre ''open database'' err), db)
      | None \<Rightarrow>
      (case next_fault db of (f, db1) \<Rightarrow>
       case f of
         Refused err \<Rightarrow> (Inl (WrapPre ''ping database'' err), db1)
       | Lost err \<Rightarrow> (Inl (WrapPre ''ping database'' err), db1)
       | Works \<Rightarrow>
      if direction = ''up'' then
        (case RunMigrations files exec db1 of
           (Inl err, db2) \<Rightarrow> (Inl (WrapPre ''apply migrations'' err), db2)
         | (Inr _, db2) \<Rightarrow> (Inr ''migrations applied'', db2))
      else
        (case RunMigrationsDown files exec db1 of
           (Inl err, db2) \<Rightarrow>
             (if errors_Is err ErrNoMigrationsToRevert then (Inr ''no migrations to revert'', db2)
              else (Inl (WrapPre ''revert migration'' err), db2))
         | (Inr _, db2) \<Rightarrow> (Inr ''last migration reverted'', db2))))"


subsection \<open>Names\<close>

lemma HasSuffix_iff: "HasSuffix s suf \<longleftrightarrow> (\<exists>pre. s = pre @ suf)"
  by (auto simp: HasSuffix_def) (metis append_take_drop_id)

lemma Glob_path:
  assumes "p \<in> set (Glob_up files)"
  shows "p = ''migrations/'' @ version_of p @ ''.up.sql''" and "p \<in> fst ` set files"
proof -
  from assms have t: "take 11 p = ''migrations/''" "HasSuffix p ''.up.sql''" and slash: "CHR ''/'' \<notin> set (drop 11 p)" and mem: "p \<in> fst ` set files"
    by (auto simp: Glob_up_def)
  obtain rest where p: "p = ''migrations/'' @ rest" using t(1) by (metis append_take_drop_id)
  have rest: "CHR ''/'' \<notin> set rest" using slash p by simp
  have base: "path_Base p = rest"
  proof -
    have "takeWhile (\<lambda>c. c \<noteq> CHR ''/'') (rev rest @ rev ''migrations/'') = rev rest"
      using rest by (subst takeWhile_append2) auto
    then show ?thesis by (simp add: path_Base_def p)
  qed
  obtain pre where pre: "p = pre @ ''.up.sql''" using t(2) HasSuffix_iff by blast
  have "''migrations/'' @ rest = pre @ ''.up.sql''" using p pre by simp
  then have "\<exists>v. rest = v @ ''.up.sql''"
  proof (subst (asm) append_eq_append_conv2, elim exE disjE conjE)
    fix us assume us: "''migrations/'' = pre @ us" "us @ rest = ''.up.sql''"
    show ?thesis
    proof (cases us rule: rev_cases)
      case (snoc ys y)
      then have "y = CHR ''/''" using arg_cong [OF us(1), of last] by simp
      then have "CHR ''/'' \<in> set (us @ rest)" using snoc by simp
      then show ?thesis unfolding us(2) by simp
    qed (use us in simp)
  qed blast
  then obtain v where "rest = v @ ''.up.sql''" by blast
  with base p show "p = ''migrations/'' @ version_of p @ ''.up.sql''" by (simp add: version_of_def TrimSuffix_def HasSuffix_def)
  show "p \<in> fst ` set files" by (rule mem)
qed


subsection \<open>The specification: a prefix of the scripts, in the order of their names\<close>

definition up_paths :: "mig_files \<Rightarrow> string list" where
  "up_paths files = sort (Glob_up files)"

definition versions :: "mig_files \<Rightarrow> string list" where
  "versions files = map version_of (up_paths files)"

definition scripts :: "mig_files \<Rightarrow> string list" where
  "scripts files = map (\<lambda>p. the (map_of files p)) (up_paths files)"

fun replay :: "(string \<Rightarrow> 'd \<Rightarrow> merr + 'd) \<Rightarrow> string list \<Rightarrow> 'd \<Rightarrow> merr + 'd" where
  "replay exec [] d = Inr d"
| "replay exec (s # ss) d = (case exec s d of Inl err \<Rightarrow> Inl err | Inr d' \<Rightarrow> replay exec ss d')"

lemma replay_append: "replay exec (ss @ ts) d = (case replay exec ss d of Inl err \<Rightarrow> Inl err | Inr d' \<Rightarrow> replay exec ts d')"
  by (induction ss arbitrary: d) (auto split: sum.splits)

definition recorded :: "'d mig_db \<Rightarrow> string list" where
  "recorded db = (case mdb_table db of None \<Rightarrow> [] | Some t \<Rightarrow> map fst t)"

text \<open>The timestamps grow with the rows, and are behind every later transaction.\<close>

definition timely :: "'d mig_db \<Rightarrow> bool" where
  "timely db \<longleftrightarrow> (case mdb_table db of None \<Rightarrow> True | Some t \<Rightarrow>
     sorted_wrt (<) (map snd t) \<and> (\<forall>at \<in> snd ` set t. \<forall>i \<ge> mdb_calls db. at < mdb_now db i))"

definition migrated :: "mig_files \<Rightarrow> (string \<Rightarrow> 'd \<Rightarrow> merr + 'd) \<Rightarrow> 'd \<Rightarrow> nat \<Rightarrow> 'd mig_db \<Rightarrow> bool" where
  "migrated files exec init n db \<longleftrightarrow> n \<le> length (versions files) \<and> recorded db = take n (versions files) \<and>
     replay exec (take n (scripts files)) init = Inr (mdb_schema db) \<and> timely db"

lemma versions_distinct: "gomap_wf files \<Longrightarrow> distinct (versions files)"
proof -
  assume "gomap_wf files"
  then have "distinct (up_paths files)" by (simp add: up_paths_def Glob_up_def)
  moreover have "inj_on version_of (set (up_paths files))"
    by (rule inj_onI) (metis Glob_path(1) set_sort up_paths_def)
  ultimately show ?thesis by (simp add: versions_def distinct_map)
qed

lemma length_names [simp]: "length (scripts files) = length (up_paths files)" "length (versions files) = length (up_paths files)"
  by (simp_all add: scripts_def versions_def)

lemma ReadFile_up: "p \<in> set (up_paths files) \<Longrightarrow> ReadFile files p = Inr (the (map_of files p))"
  using Glob_path(2) [of p files] by (auto simp: up_paths_def ReadFile_def map_of_eq_None_iff split: option.splits)

subsection \<open>What the statements do\<close>

text \<open>Later calls of the same database: the faults to come and the clock are its own.\<close>

definition later :: "'d mig_db \<Rightarrow> 'd mig_db \<Rightarrow> bool" where
  "later db db' \<longleftrightarrow> mdb_faults db' = mdb_faults db \<and> mdb_now db' = mdb_now db \<and> mdb_calls db \<le> mdb_calls db'"

definition unchanged :: "'d mig_db \<Rightarrow> 'd mig_db \<Rightarrow> bool" where
  "unchanged db db' \<longleftrightarrow> later db db' \<and> mdb_schema db' = mdb_schema db \<and> recorded db' = recorded db \<and> (timely db \<longrightarrow> timely db') \<and>
     (mdb_table db \<noteq> None \<longrightarrow> mdb_table db' = mdb_table db)"

lemma later_trans: "later a b \<Longrightarrow> later b c \<Longrightarrow> later a c"
  by (auto simp: later_def)

lemma unchanged_migrated: "unchanged db db' \<Longrightarrow> migrated files exec init n db \<Longrightarrow> migrated files exec init n db'"
  by (auto simp: unchanged_def migrated_def)

lemma timely_later: "timely db \<Longrightarrow> later db db' \<Longrightarrow> mdb_table db' = mdb_table db \<Longrightarrow> timely db'"
  by (cases "mdb_table db") (auto simp: timely_def later_def dest: order_trans)

lemma unchangedI:
  assumes "later db db'" and "mdb_schema db' = mdb_schema db" and "mdb_table db' = mdb_table db \<or> mdb_table db = None \<and> mdb_table db' = Some []"
  shows "unchanged db db'"
  using assms timely_later [of db db'] by (auto simp: unchanged_def recorded_def timely_def)

lemma ensure_spec:
  assumes "ensureMigrationsTable db = (r, db')"
  shows "unchanged db db'" and "r = Inr () \<Longrightarrow> mdb_table db' \<noteq> None" and "mdb_faults db (mdb_calls db) = Works \<Longrightarrow> r = Inr ()"
  using assms by (auto simp: ensureMigrationsTable_def next_fault_def Let_def later_def split: db_fault.splits option.splits intro!: unchangedI)

lemma query_spec:
  assumes "query q db = (r, db')"
  shows "unchanged db db'" and "mdb_table db' = mdb_table db" and "r = Inr x \<Longrightarrow> \<exists>t. mdb_table db = Some t \<and> x = q t"
    and "mdb_faults db (mdb_calls db) = Works \<Longrightarrow> mdb_table db = Some t \<Longrightarrow> r = Inr (q t)"
  using assms by (auto simp: query_def next_fault_def later_def split: db_fault.splits option.splits intro!: unchangedI)

text \<open>A transaction is applied as a whole or not at all, and reports success only when it is applied.\<close>

lemma mig_tx_spec:
  assumes "mig_tx exec m1 m2 stmt change db = (r, db')"
  shows "later db db' \<and> (r \<noteq> Inr () \<and> mdb_schema db' = mdb_schema db \<and> mdb_table db' = mdb_table db \<or>
    (\<exists>d t t'. exec stmt (mdb_schema db) = Inr d \<and> mdb_table db = Some t \<and> change t (mdb_now db (mdb_calls db)) = Inr t' \<and>
       mdb_schema db' = d \<and> mdb_table db' = Some t' \<and> mdb_calls db < mdb_calls db'))"
  using assms
  by (auto simp: mig_tx_def next_fault_def Let_def later_def split: db_fault.splits sum.splits option.splits)

lemma mig_tx_works:
  assumes "\<forall>i \<ge> mdb_calls db. mdb_faults db i = Works" and "exec stmt (mdb_schema db) = Inr d" and "mdb_table db = Some t"
    and "change t (mdb_now db (mdb_calls db)) = Inr t'"
  shows "fst (mig_tx exec m1 m2 stmt change db) = Inr ()"
  using assms by (simp add: mig_tx_def next_fault_def Let_def)


lemma applied_iff:
  assumes "gomap_wf files" and "migrated files exec init n db" and "mdb_table db = Some t" and "k < length (up_paths files)"
  shows "versions files ! k \<in> fst ` set t \<longleftrightarrow> k < n"
proof -
  have "fst ` set t = set (take n (versions files))" using assms(2,3) by (metis list.set_map migrated_def option.simps(5) recorded_def)
  moreover have "versions files ! k \<in> set (take n (versions files)) \<longleftrightarrow> k < n"
    using assms(2,4) versions_distinct [OF assms(1)]
    by (auto simp: in_set_conv_nth migrated_def nth_eq_iff_index_eq)
  ultimately show ?thesis by simp
qed

lemma apply_migrated:
  assumes "migrated files exec init n db" and "n < length (up_paths files)" and "strict_mono (mdb_now db)"
    and "applyMigration exec (versions files ! n) (scripts files ! n) db = (r, db')"
  shows "later db db' \<and> (r \<noteq> Inr () \<and> migrated files exec init n db' \<and> (mdb_table db \<noteq> None \<longrightarrow> mdb_table db' \<noteq> None) \<or>
    migrated files exec init (Suc n) db' \<and> mdb_table db' \<noteq> None)"
  using mig_tx_spec [OF assms(4) [unfolded applyMigration_def]]
proof (elim conjE disjE exE)
  assume l: "later db db'" and same: "r \<noteq> Inr ()" "mdb_schema db' = mdb_schema db" "mdb_table db' = mdb_table db"
  then have "unchanged db db'" by (intro unchangedI) auto
  with l same assms(1) show ?thesis by (metis unchanged_migrated)
next
  fix d t t'
  assume l: "later db db'" and d: "exec (scripts files ! n) (mdb_schema db) = Inr d" "mdb_table db = Some t" "mdb_schema db' = d" "mdb_table db' = Some t'"
    and t': "(if versions files ! n \<in> fst ` set t then Inl (PgError ''23505'' ''duplicate key value'')
      else Inr (t @ [(versions files ! n, mdb_now db (mdb_calls db))])) = Inr t'" and calls: "mdb_calls db < mdb_calls db'"
  then have t'_eq: "t' = t @ [(versions files ! n, mdb_now db (mdb_calls db))]" by (auto split: if_splits)
  have "recorded db' = take (Suc n) (versions files)"
    using assms(1,2) d t'_eq by (simp add: migrated_def recorded_def take_Suc_conv_app_nth)
  moreover have "replay exec (take (Suc n) (scripts files)) init = Inr d"
    using assms(1,2) d by (simp add: migrated_def take_Suc_conv_app_nth replay_append)
  moreover have "timely db'"
  proof -
    have "\<forall>at \<in> snd ` set t. \<forall>i \<ge> mdb_calls db. at < mdb_now db i" "sorted_wrt (<) (map snd t)"
      using assms(1) d(2) by (auto simp: migrated_def timely_def)
    moreover have "mdb_now db (mdb_calls db) < mdb_now db i" if "i \<ge> mdb_calls db'" for i
      using strict_monoD [OF assms(3)] calls that by simp
    moreover have "mdb_now db' = mdb_now db" "mdb_calls db \<le> mdb_calls db'" using l by (simp_all add: later_def)
    ultimately show ?thesis using d(4) t'_eq by (auto simp: timely_def sorted_wrt_append)
  qed
  ultimately show ?thesis using l d assms(2) by (simp add: migrated_def)
qed

text \<open>Nothing fails any more: no fault is to come, and the scripts run through on the initial schema.\<close>

definition clean :: "(string \<Rightarrow> 'd \<Rightarrow> merr + 'd) \<Rightarrow> mig_files \<Rightarrow> 'd \<Rightarrow> 'd mig_db \<Rightarrow> bool" where
  "clean exec files init db \<longleftrightarrow> (\<forall>i \<ge> mdb_calls db. mdb_faults db i = Works) \<and> (\<exists>final. replay exec (scripts files) init = Inr final)"

lemma clean_next:
  assumes "clean exec files init db" and "migrated files exec init n db1" and "n < length (up_paths files)"
  shows "\<exists>d. exec (scripts files ! n) (mdb_schema db1) = Inr d"
proof -
  have "scripts files = take n (scripts files) @ scripts files ! n # drop (Suc n) (scripts files)"
    using assms(3) by (simp add: id_take_nth_drop)
  then obtain final where "replay exec (take n (scripts files) @ scripts files ! n # drop (Suc n) (scripts files)) init = Inr final"
    using assms(1) by (auto simp: clean_def)
  with assms(2) show ?thesis by (auto simp: migrated_def replay_append split: sum.splits)
qed

lemma apply_works:
  assumes "gomap_wf files" and "clean exec files init db" and "migrated files exec init n db" and n: "n < length (up_paths files)"
    and "mdb_table db \<noteq> None"
  shows "fst (applyMigration exec (versions files ! n) (scripts files ! n) db) = Inr ()"
proof -
  obtain t where t: "mdb_table db = Some t" using assms(5) by auto
  obtain d where d: "exec (scripts files ! n) (mdb_schema db) = Inr d" using clean_next [OF assms(2,3) n] by auto
  have "versions files ! n \<notin> fst ` set t" using applied_iff [OF assms(1,3) t n] by simp
  then show ?thesis unfolding applyMigration_def
    using assms(2) d t by (intro mig_tx_works [of db exec "scripts files ! n" d t]) (auto simp: clean_def)
qed

lemma up_loop_migrated:
  assumes "gomap_wf files" and "strict_mono (mdb_now db)" and "up_paths files = pre @ paths" and "migrated files exec init n db"
    and "length pre \<le> n" and "mdb_table db \<noteq> None" and "up_loop files exec paths db = (r, db')"
  shows "\<exists>n' \<ge> n. migrated files exec init n' db' \<and> later db db' \<and> (r = Inr () \<longrightarrow> n' = length (up_paths files)) \<and>
    (clean exec files init db \<longrightarrow> r = Inr ())"
  using assms(2-)
proof (induction paths arbitrary: pre n db)
  case Nil
  then show ?case by (auto simp: migrated_def later_def)
next
  case (Cons p paths)
  let ?k = "length pre"
  have k: "?k < length (up_paths files)" "up_paths files ! ?k = p" using Cons.prems(2) by simp_all
  have pv: "version_of p = versions files ! ?k" "the (map_of files p) = scripts files ! ?k" using k by (simp_all add: versions_def scripts_def)
  have mem: "p \<in> set (up_paths files)" using Cons.prems(2) by simp
  obtain b db1 where q: "migrationApplied (version_of p) db = (b, db1)" by fastforce
  note qs = query_spec [OF q [unfolded migrationApplied_def]]
  have m1: "migrated files exec init n db1" "later db db1" "mdb_table db1 \<noteq> None" "strict_mono (mdb_now db1)"
    using unchanged_migrated [OF qs(1) Cons.prems(3)] qs(1,2) Cons.prems(1,5) by (auto simp: unchanged_def later_def)
  have step: ?case if "up_loop files exec paths db2 = (r, db')" "migrated files exec init m db2" "m \<ge> n" "Suc ?k \<le> m" "later db db2" "mdb_table db2 \<noteq> None" for m db2
    using Cons.IH [of db2 "pre @ [p]" m] that Cons.prems(1,2) later_trans [OF that(5)]
    by (auto simp: later_def clean_def dest: order_trans)
  show ?case
  proof (cases b)
    case (Inl err)
    with qs(4) Cons.prems(5) have "\<not> clean exec files init db" by (auto simp: clean_def)
    then show ?thesis using Inl Cons.prems(6) q m1 by (intro exI [of _ n]) (auto simp: Let_def)
  next
    case (Inr applied)
    obtain t where t: "mdb_table db = Some t" "applied \<longleftrightarrow> version_of p \<in> fst ` set t" using qs(3) Inr by blast
    then have ap: "applied \<longleftrightarrow> ?k < n" using applied_iff [OF assms(1) Cons.prems(3) t(1) k(1)] pv(1) by simp
    show ?thesis
    proof (cases applied)
      case True
      then have "up_loop files exec paths db1 = (r, db')" using Cons.prems(6) q Inr by (simp add: Let_def)
      then show ?thesis by (rule step [OF _ m1(1)]) (use True ap m1 in auto)
    next
      case False
      then have n: "n = ?k" using ap Cons.prems(4) by simp
      obtain r2 db2 where a: "applyMigration exec (versions files ! n) (scripts files ! n) db1 = (r2, db2)" by fastforce
      have run: "(r, db') = (case r2 of Inl err \<Rightarrow> (Inl (WrapPre (''postgres: apply migration '' @ version_of p) err), db2) | Inr _ \<Rightarrow> up_loop files exec paths db2)"
        using Cons.prems(6) q Inr False a pv n ReadFile_up [OF mem] by (simp add: Let_def split: sum.splits)
      from apply_migrated [OF m1(1) _ m1(4) a] k n m1(3)
      have am: "later db1 db2" "mdb_table db2 \<noteq> None" "r2 \<noteq> Inr () \<and> migrated files exec init n db2 \<or> migrated files exec init (Suc n) db2"
        by auto
      have works: "r2 = Inr ()" if "clean exec files init db"
      proof -
        have "clean exec files init db1" using that m1(2) by (auto simp: clean_def later_def)
        from apply_works [OF assms(1) this m1(1) _ m1(3)] a k n show ?thesis by simp
      qed
      show ?thesis
      proof (cases r2)
        case (Inl err)
        with run have "r \<noteq> Inr ()" "db' = db2" by auto
        with am works Inl later_trans [OF m1(2) am(1)] show ?thesis by (metis le_SucI le_refl sum.distinct(1))
      next
        case (Inr u)
        with am have "migrated files exec init (Suc n) db2" by simp
        then show ?thesis by (intro step) (use run Inr n am later_trans [OF m1(2) am(1)] in auto)
      qed
    qed
  qed
qed


lemma RunMigrations_migrated:
  assumes "gomap_wf files" and "strict_mono (mdb_now db)" and "migrated files exec init n db" and "RunMigrations files exec db = (r, db')"
  shows "\<exists>n' \<ge> n. migrated files exec init n' db' \<and> later db db' \<and> (r = Inr () \<longrightarrow> n' = length (up_paths files)) \<and>
    (clean exec files init db \<longrightarrow> r = Inr ())"
proof -
  obtain r1 db1 where e: "ensureMigrationsTable db = (r1, db1)" by fastforce
  note es = ensure_spec [OF e]
  have m1: "migrated files exec init n db1" "later db db1" using unchanged_migrated [OF es(1) assms(3)] es(1) by (simp_all add: unchanged_def)
  show ?thesis
  proof (cases r1)
    case (Inl err)
    then have "\<not> clean exec files init db" using es(3) by (auto simp: clean_def)
    with Inl assms(4) e m1 show ?thesis by (intro exI [of _ n]) (auto simp: RunMigrations_def)
  next
    case (Inr u)
    then have "up_loop files exec (up_paths files) db1 = (r, db')" using assms(4) e by (simp add: RunMigrations_def up_paths_def)
    moreover have "strict_mono (mdb_now db1)" "mdb_table db1 \<noteq> None" using m1(2) assms(2) es(2) Inr by (simp_all add: later_def)
    ultimately obtain n' where "n' \<ge> n" "migrated files exec init n' db'" "later db1 db'" "r = Inr () \<longrightarrow> n' = length (up_paths files)"
      "clean exec files init db1 \<longrightarrow> r = Inr ()"
      using up_loop_migrated [OF assms(1) _ _ m1(1), of "[]" "up_paths files" r db'] by auto
    moreover have "clean exec files init db \<longrightarrow> clean exec files init db1" using m1(2) by (auto simp: clean_def later_def)
    ultimately show ?thesis using later_trans [OF m1(2)] by blast
  qed
qed

subsection \<open>Any number of deployments\<close>

text \<open>A fresh database, on which the migrations have been run any number of times, whatever failed.\<close>

inductive deployed :: "mig_files \<Rightarrow> (string \<Rightarrow> 'd \<Rightarrow> merr + 'd) \<Rightarrow> 'd \<Rightarrow> 'd mig_db \<Rightarrow> bool" for files exec init where
  fresh: "mdb_schema db = init \<Longrightarrow> mdb_table db = None \<Longrightarrow> strict_mono (mdb_now db) \<Longrightarrow> deployed files exec init db"
| run: "deployed files exec init db \<Longrightarrow> RunMigrations files exec db = (r, db') \<Longrightarrow> deployed files exec init db'"

lemma deployed_migrated:
  assumes "deployed files exec init db" and "gomap_wf files"
  shows "strict_mono (mdb_now db) \<and> (\<exists>n. migrated files exec init n db)"
  using assms(1)
proof induction
  case (fresh db)
  then show ?case by (auto simp: migrated_def recorded_def timely_def intro!: exI [of _ 0])
next
  case (run db r db')
  then obtain n where n: "migrated files exec init n db" "strict_mono (mdb_now db)" by blast
  from RunMigrations_migrated [OF assms(2) n(2,1) run.hyps(2)] n(2) show ?case by (auto simp: later_def)
qed

text \<open>
  C32. Migrations are all or nothing and converge. However often they were run on a database, and whatever failed on
  the way (statements, commits, answers of commits that happened), its schema is the result of the first few scripts in the order
  of their names, run once each, and exactly those are recorded. A run that reports success leaves all of
  them applied; it does report success when nothing fails any more; and running it again then changes neither schema nor record.
\<close>

theorem migrations_converge:
  assumes "deployed files exec init db" and "gomap_wf files"
  shows "(\<exists>n \<le> length (versions files). recorded db = take n (versions files) \<and> replay exec (take n (scripts files)) init = Inr (mdb_schema db)) \<and>
    (\<forall>r db1. RunMigrations files exec db = (r, db1) \<longrightarrow>
      (r = Inr () \<longrightarrow> recorded db1 = versions files \<and> replay exec (scripts files) init = Inr (mdb_schema db1)) \<and>
      (clean exec files init db \<longrightarrow> r = Inr ()) \<and>
      (\<forall>r2 db2. r = Inr () \<and> RunMigrations files exec db1 = (r2, db2) \<longrightarrow>
         recorded db2 = recorded db1 \<and> mdb_schema db2 = mdb_schema db1))"
proof -
  from deployed_migrated [OF assms] obtain n where m: "migrated files exec init n db" "strict_mono (mdb_now db)" by blast
  have out: "(r = Inr () \<longrightarrow> migrated files exec init (length (up_paths files)) db1) \<and> (clean exec files init db \<longrightarrow> r = Inr ())"
    if "RunMigrations files exec db = (r, db1)" for r db1
    using RunMigrations_migrated [OF assms(2) m(2,1) that] by blast
  have again: "migrated files exec init (length (up_paths files)) db2"
    if runs: "RunMigrations files exec db = (Inr (), db1)" "RunMigrations files exec db1 = (r2, db2)" for db1 r2 db2
  proof -
    have "deployed files exec init db1" using deployed.run [OF assms(1) runs(1)] .
    from deployed_migrated [OF this assms(2)] have "strict_mono (mdb_now db1)" by blast
    then obtain n' where n': "n' \<ge> length (up_paths files)" "migrated files exec init n' db2"
      using RunMigrations_migrated [OF assms(2) _ _ runs(2), of init "length (up_paths files)"] out [OF runs(1)] by blast
    then have "n' = length (up_paths files)" by (auto simp: migrated_def)
    with n'(2) show ?thesis by simp
  qed
  have full: "recorded d = versions files \<and> replay exec (scripts files) init = Inr (mdb_schema d)" if "migrated files exec init (length (up_paths files)) d" for d
    using that by (simp add: migrated_def)
  have first: "\<exists>n \<le> length (versions files). recorded db = take n (versions files) \<and> replay exec (take n (scripts files)) init = Inr (mdb_schema db)"
    using m(1) by (auto simp: migrated_def)
  have "recorded db2 = recorded db1 \<and> mdb_schema db2 = mdb_schema db1"
    if "RunMigrations files exec db = (Inr (), db1)" "RunMigrations files exec db1 = (r2, db2)" for db1 r2 db2
    using full [OF again [OF that]] full [of db1] out [OF that(1)] by auto
  with first out full show ?thesis by blast
qed

subsection \<open>Reverting\<close>

lemma sort_key_latest:
  assumes "sorted_wrt (<) (map snd (t @ [(v, at)]))"
  shows "\<exists>rest. sort_key (\<lambda>(v, at :: int). - at) (t @ [(v, at)]) = (v, at) # rest"
proof -
  have "sort_key (\<lambda>(v, at). - at) (t @ [(v, at)]) = rev (t @ [(v, at)])"
  proof (rule sort_key_inj_key_eq)
    have "distinct (map snd (t @ [(v, at)]))" using assms by (metis strict_sorted_iff)
    then have "inj_on snd (set (t @ [(v, at)]))" unfolding distinct_map by blast
    then show "inj_on (\<lambda>(v, at). - at) (set (t @ [(v, at)]))" by (auto simp: inj_on_def split_beta)
    have "sorted_wrt (\<lambda>x y. - snd x \<le> - snd y) (rev (t @ [(v, at)]))"
      using assms unfolding sorted_wrt_rev sorted_wrt_map by (rule sorted_wrt_mono_rel [rotated]) auto
    then show "sorted (map (\<lambda>(v, at). - at) (rev (t @ [(v, at)])))" by (simp add: sorted_wrt_map split_beta)
  qed simp
  then show ?thesis by simp
qed


text \<open>The query finds the row recorded last.\<close>

definition latest :: "'d mig_db \<Rightarrow> string" where
  "latest db = (if recorded db = [] then '''' else last (recorded db))"

lemma latest_is_last:
  assumes "timely db" and "latestAppliedMigration db = (r, db')"
  shows "unchanged db db'" and "r = Inr v \<Longrightarrow> v = latest db"
    and "mdb_faults db (mdb_calls db) = Works \<Longrightarrow> mdb_table db \<noteq> None \<Longrightarrow> r = Inr (latest db)"
proof -
  note q = query_spec [OF assms(2) [unfolded latestAppliedMigration_def]]
  have latest: "(case sort_key (\<lambda>(v, at). - at) t of [] \<Rightarrow> '''' | (v, at) # _ \<Rightarrow> v) = latest db" if t: "mdb_table db = Some t" for t
  proof (cases t rule: rev_cases)
    case (snoc t0 x)
    obtain v at where "x = (v, at)" by fastforce
    with snoc t show ?thesis using sort_key_latest [of t0 v at] assms(1) by (auto simp: timely_def recorded_def latest_def)
  qed (use t in \<open>simp add: recorded_def latest_def\<close>)
  show "unchanged db db'" by (rule q)
  show "v = latest db" if "r = Inr v" using q(3) [OF that] latest by auto
  show "r = Inr (latest db)" if "mdb_faults db (mdb_calls db) = Works" "mdb_table db \<noteq> None" using that q(4) latest by auto
qed

lemma unchanged_trans: "unchanged a b \<Longrightarrow> unchanged b c \<Longrightarrow> unchanged a c"
  by (auto simp: unchanged_def later_def)

lemma unchanged_works: "unchanged a b \<Longrightarrow> \<forall>i \<ge> mdb_calls a. mdb_faults a i = Works \<Longrightarrow> \<forall>i \<ge> mdb_calls b. mdb_faults b i = Works"
  by (auto simp: unchanged_def later_def)

text \<open>Reverting a recorded version runs its script and forgets that one row, or does nothing.\<close>

lemma revert_last:
  assumes "timely db" and "distinct (recorded db)" and "recorded db \<noteq> []" and "revertMigration exec (last (recorded db)) down db = (r, db')"
  shows "r \<noteq> Inr () \<and> unchanged db db' \<or>
    exec down (mdb_schema db) = Inr (mdb_schema db') \<and> recorded db' = butlast (recorded db) \<and> timely db'"
    and "\<forall>i \<ge> mdb_calls db. mdb_faults db i = Works \<Longrightarrow> exec down (mdb_schema db) = Inr d \<Longrightarrow> r = Inr ()"
proof -
  note tx = mig_tx_spec [OF assms(4) [unfolded revertMigration_def]]
  obtain t where t: "mdb_table db = Some t" "recorded db = map fst t" using assms(3) by (auto simp: recorded_def split: option.splits)
  obtain t0 v at where t0: "t = t0 @ [(v, at)]" using assms(3) t by (metis list.map_disc_iff prod.exhaust rev_exhaust)
  have "v \<notin> fst ` set t0" using assms(2) t t0 by simp
  then have keep: "filter (\<lambda>(w, at). w \<noteq> v) t = t0" unfolding t0 by (force simp: filter_id_conv)
  have timely0: "timely db'" if "later db db'" "mdb_table db' = Some t0"
    using that assms(1) t t0 by (auto simp: timely_def sorted_wrt_append later_def)
  from tx show "r \<noteq> Inr () \<and> unchanged db db' \<or>
    exec down (mdb_schema db) = Inr (mdb_schema db') \<and> recorded db' = butlast (recorded db) \<and> timely db'"
  proof (elim conjE disjE exE)
    assume "later db db'" "r \<noteq> Inr ()" "mdb_schema db' = mdb_schema db" "mdb_table db' = mdb_table db"
    then show ?thesis by (intro disjI1 conjI unchangedI) simp_all
  next
    fix d t1 t' assume "later db db'" "exec down (mdb_schema db) = Inr d" "mdb_table db = Some t1"
      "Inr (filter (\<lambda>(v, at). v \<noteq> last (recorded db)) t1) = (Inr t' :: merr + _)" "mdb_schema db' = d" "mdb_table db' = Some t'"
    with keep t t0 timely0 show ?thesis by (simp add: recorded_def)
  qed
  show "r = Inr ()" if "\<forall>i \<ge> mdb_calls db. mdb_faults db i = Works" "exec down (mdb_schema db) = Inr d"
    using that(2) mig_tx_works [OF that(1) _ t(1), of exec down d "\<lambda>t now. Inr (filter (\<lambda>(v, at). v \<noteq> last (recorded db)) t)"] assms(4)
    unfolding revertMigration_def by (metis fst_conv)
qed

text \<open>A run that does not come to the transaction changes nothing; one that does concerns the latest version.\<close>

lemma down_cases:
  assumes "timely db" and run: "RunMigrationsDown files exec db = (r, db')"
  obtains (refused) e where "r = Inl e" "unchanged db db'"
      "\<forall>i \<ge> mdb_calls db. mdb_faults db i = Works \<Longrightarrow>
        if latest db = '''' then e = Sentinel ErrNoMigrationsToRevert else map_of files (''migrations/'' @ latest db @ ''.down.sql'') = None"
    | (reverting) down db2 r3 where "latest db \<noteq> ''''" "map_of files (''migrations/'' @ latest db @ ''.down.sql'') = Some down" "unchanged db db2"
      "revertMigration exec (latest db) down db2 = (r3, db')" "r = Inr () \<longleftrightarrow> r3 = Inr ()"
proof -
  obtain r1 db1 where e: "ensureMigrationsTable db = (r1, db1)" by fastforce
  note es = ensure_spec [OF e]
  obtain r2 db2 where q: "latestAppliedMigration db1 = (r2, db2)" by fastforce
  have "timely db1" "latest db1 = latest db" using es(1) assms(1) by (simp_all add: unchanged_def latest_def)
  note qs = latest_is_last [OF this(1) q, unfolded this(2)]
  have same2: "unchanged db db2" by (rule unchanged_trans [OF es(1) qs(1)])
  have works1: "mdb_faults db1 (mdb_calls db1) = Works" if "\<forall>i \<ge> mdb_calls db. mdb_faults db i = Works"
    using unchanged_works [OF es(1) that] by simp
  show thesis
  proof (cases r1)
    case (Inl err)
    with e run es(1,3) show thesis by (intro refused) (auto simp: RunMigrationsDown_def)
  next
    case r1: (Inr u)
    show thesis
    proof (cases r2)
      case (Inl err)
      with e q run r1 same2 qs(3) es(2) works1 show thesis by (intro refused) (auto simp: RunMigrationsDown_def)
    next
      case (Inr v)
      with qs(2) have v: "r2 = Inr (latest db)" by simp
      consider "latest db = ''''" | "latest db \<noteq> ''''" "map_of files (''migrations/'' @ latest db @ ''.down.sql'') = None"
        | down where "latest db \<noteq> ''''" "map_of files (''migrations/'' @ latest db @ ''.down.sql'') = Some down" by blast
      then show thesis
      proof cases
        case 3
        obtain r3 db3 where rv: "revertMigration exec (latest db) down db2 = (r3, db3)" by fastforce
        with e q run r1 v 3 have "db' = db3" "r = Inr () \<longleftrightarrow> r3 = Inr ()" by (auto simp: RunMigrationsDown_def ReadFile_def split: sum.splits)
        with 3 same2 rv show thesis by (intro reverting) auto
      qed (use e q run r1 v same2 in \<open>auto intro!: refused simp: RunMigrationsDown_def ReadFile_def\<close>)
    qed
  qed
qed

text \<open>
  C33. Reverting touches only the latest migration. On a database whose records are distinct and dated in the order of their insertion
  (the table's key and \<^verbatim>\<open>applied_at\<close>), whatever the scripts do and whichever statements fail, one \<^verbatim>\<open>RunMigrationsDown\<close>
  either reports an error and leaves schema and records as they are, or it has run the down script of the latest recorded version on the schema and
  removed that record and no other; the records are again distinct and in order. It reports success only in the second case. When no
  statement fails, with nothing recorded (or a latest version of the empty name) it reports \<^verbatim>\<open>ErrNoMigrationsToRevert\<close>, and otherwise it
  reports success exactly when the version has a down script and the schema accepts it.
\<close>

theorem down_reverts_only_the_latest:
  assumes "timely db" and "distinct (recorded db)" and run: "RunMigrationsDown files exec db = (r, db')"
  shows "((\<exists>e. r = Inl e) \<and> mdb_schema db' = mdb_schema db \<and> recorded db' = recorded db \<or>
      recorded db \<noteq> [] \<and> recorded db' = butlast (recorded db) \<and>
      (\<exists>down. map_of files (''migrations/'' @ last (recorded db) @ ''.down.sql'') = Some down \<and> exec down (mdb_schema db) = Inr (mdb_schema db'))) \<and>
    timely db' \<and> distinct (recorded db') \<and>
    ((\<forall>i \<ge> mdb_calls db. mdb_faults db i = Works) \<longrightarrow>
      (if recorded db = [] \<or> last (recorded db) = '''' then r = Inl (Sentinel ErrNoMigrationsToRevert)
       else r = Inr () \<longleftrightarrow> (\<exists>down d. map_of files (''migrations/'' @ last (recorded db) @ ''.down.sql'') = Some down \<and>
         exec down (mdb_schema db) = Inr d)))"
  using assms(1,3)
proof (cases rule: down_cases)
  case (refused e)
  have "latest db = '''' \<longleftrightarrow> recorded db = [] \<or> last (recorded db) = ''''" "recorded db \<noteq> [] \<Longrightarrow> latest db = last (recorded db)"
    by (simp_all add: latest_def)
  with refused assms(1,2) show ?thesis by (auto simp: unchanged_def)
next
  case (reverting down db2 r3)
  have l: "recorded db \<noteq> []" "latest db = last (recorded db)" "last (recorded db) \<noteq> ''''" using reverting(1) by (auto simp: latest_def split: if_splits)
  have s2: "recorded db2 = recorded db" "timely db2" "mdb_schema db2 = mdb_schema db" using reverting(3) assms(1) by (simp_all add: unchanged_def)
  note rv = reverting(4) [unfolded l(2), folded s2(1)]
  note out = revert_last [OF s2(2) _ _ rv, unfolded s2, OF assms(2) l(1)]
  have "\<exists>e. r = Inl e" if "r \<noteq> Inr ()" using that by (cases r) auto
  moreover have "\<forall>i \<ge> mdb_calls db. mdb_faults db i = Works \<Longrightarrow> exec down (mdb_schema db) = Inr d \<Longrightarrow> r = Inr ()" for d
    using out(2) unchanged_works [OF reverting(3)] reverting(5) by blast
  ultimately show ?thesis using out(1) reverting(2,5) l assms(2) s2 by (auto simp: unchanged_def distinct_butlast)
qed


subsection \<open>Concrete migrations\<close>

text \<open>Two migrations of a schema that counts; in the first run the answer to the first commit is lost.\<close>

definition demo_files :: mig_files where
  "demo_files = [(''migrations/0002_b.up.sql'', ''b''), (''migrations/0001_a.up.sql'', ''a''),
     (''migrations/0001_a.down.sql'', ''-a''), (''migrations/0002_b.down.sql'', ''-b'')]"

definition demo_exec :: "string \<Rightarrow> int \<Rightarrow> merr + int" where
  "demo_exec s d = (if s = ''a'' then Inr (d + 1) else if s = ''b'' then Inr (d + 10)
     else if s = ''-a'' then Inr (d - 1) else if s = ''-b'' then Inr (d - 10) else Inl (Opaque ''syntax error''))"

definition demo_db :: "int mig_db" where
  "demo_db = \<lparr>mdb_schema = 0, mdb_table = None, mdb_faults = (\<lambda>i. if i = 5 then Lost (Opaque ''connection reset'') else Works),
     mdb_calls = 0, mdb_now = int\<rparr>"

lemma demo_paths: "up_paths demo_files = [''migrations/0001_a.up.sql'', ''migrations/0002_b.up.sql'']"
  unfolding up_paths_def demo_files_def by code_simp

lemma demo_names: "versions demo_files = [''0001_a'', ''0002_b'']" "scripts demo_files = [''a'', ''b'']"
  unfolding versions_def scripts_def demo_paths unfolding demo_files_def by code_simp+

lemma demo_first_run: "mdb_calls (snd (RunMigrations demo_files demo_exec demo_db)) = 6"
  unfolding demo_files_def demo_db_def by code_simp

lemma demo_deployed: "deployed demo_files demo_exec 0 demo_db" "gomap_wf demo_files"
  by (rule deployed.fresh) (simp_all add: demo_db_def strict_mono_def demo_files_def)


lemma demo_after_fault:
  defines "db1 \<equiv> snd (RunMigrations demo_files demo_exec demo_db)"
  shows "deployed demo_files demo_exec 0 db1" and "\<forall>i \<ge> mdb_calls db1. mdb_faults db1 i = Works" and "clean demo_exec demo_files 0 db1"
proof -
  obtain r where run: "RunMigrations demo_files demo_exec demo_db = (r, db1)" unfolding db1_def by (metis prod.collapse)
  show d: "deployed demo_files demo_exec 0 db1" by (rule deployed.run [OF demo_deployed(1) run])
  have "later demo_db db1"
    using RunMigrations_migrated [OF demo_deployed(2) _ _ run, of 0 0] by (auto simp: demo_db_def strict_mono_def migrated_def recorded_def timely_def)
  then show w: "\<forall>i \<ge> mdb_calls db1. mdb_faults db1 i = Works"
    using demo_first_run unfolding db1_def by (auto simp: later_def demo_db_def)
  then show "clean demo_exec demo_files 0 db1" by (simp add: clean_def demo_names demo_exec_def)
qed

theorem migrations_converge_witness:
  "recorded (snd (RunMigrations demo_files demo_exec (snd (RunMigrations demo_files demo_exec demo_db)))) = [''0001_a'', ''0002_b'']"
proof -
  let ?db1 = "snd (RunMigrations demo_files demo_exec demo_db)"
  obtain r db2 where run: "RunMigrations demo_files demo_exec ?db1 = (r, db2)" by fastforce
  from migrations_converge [OF demo_after_fault(1) demo_deployed(2)] demo_after_fault(3) run
  have "recorded db2 = versions demo_files" by blast
  then show ?thesis by (simp add: run demo_names)
qed

lemma demo_converged:
  defines "db1 \<equiv> snd (RunMigrations demo_files demo_exec demo_db)"
  defines "db2 \<equiv> snd (RunMigrations demo_files demo_exec db1)"
  shows "timely db2" and "recorded db2 = [''0001_a'', ''0002_b'']" and "mdb_schema db2 = 11" and "\<forall>i \<ge> mdb_calls db2. mdb_faults db2 i = Works"
proof -
  obtain r where run: "RunMigrations demo_files demo_exec db1 = (r, db2)" unfolding db2_def by (metis prod.collapse)
  note after = demo_after_fault [folded db1_def]
  from deployed_migrated [OF after(1) demo_deployed(2)] obtain n where "migrated demo_files demo_exec 0 n db1" "strict_mono (mdb_now db1)" by blast
  from RunMigrations_migrated [OF demo_deployed(2) this(2,1) run] after(3)
  have m: "migrated demo_files demo_exec 0 2 db2" "later db1 db2" by (auto simp: demo_paths numeral_2_eq_2)
  then show "timely db2" "recorded db2 = [''0001_a'', ''0002_b'']" "mdb_schema db2 = 11"
    by (simp_all add: migrated_def demo_names demo_exec_def)
  show "\<forall>i \<ge> mdb_calls db2. mdb_faults db2 i = Works" using m(2) after(2) by (auto simp: later_def)
qed

theorem down_reverts_only_the_latest_witness:
  "\<exists>db'. RunMigrationsDown demo_files demo_exec (snd (RunMigrations demo_files demo_exec (snd (RunMigrations demo_files demo_exec demo_db)))) =
     (Inr (), db') \<and> recorded db' = [''0001_a''] \<and> mdb_schema db' = 1"
proof -
  let ?db = "snd (RunMigrations demo_files demo_exec (snd (RunMigrations demo_files demo_exec demo_db)))"
  obtain r db' where run: "RunMigrationsDown demo_files demo_exec ?db = (r, db')" by fastforce
  have down: "map_of demo_files (''migrations/'' @ ''0002_b'' @ ''.down.sql'') = Some ''-b''" by (simp add: demo_files_def)
  have "demo_exec ''-b'' 11 = Inr 1" by (simp add: demo_exec_def)
  with down_reverts_only_the_latest [OF demo_converged(1) _ run] demo_converged(4) down
  have "r = Inr ()" "recorded db' = [''0001_a'']" "mdb_schema db' = 1" unfolding demo_converged(2,3) by auto
  with run show ?thesis by simp
qed

end
