(* ===== verification/Links.thy ===== *)
theory Links
  imports TaskRoutes
begin

text \<open>
  Short links (\<^verbatim>\<open>internal/link\<close>): the service around the shortener of the library \<^verbatim>\<open>cairn\<close>, its HTTP handler and the
  error encoder of the public route. The shortener and its store are the record \<open>cairn\<close>, a parameter; what its documentation
  promises is the hypothesis \<open>cairn_semantics\<close>, over the links a store holds with their revocation.
  Decoding the JSON body is an input, as for the other handlers.
\<close>

subsection \<open>Links and the shortener\<close>

datatype link_err = ErrNotOwner | ErrCodeNotFound | ErrInvalidCode | ErrLinkExpired | ErrLinkRevoked | ErrDestinationRejected
  | ErrCodeExists | ErrVanityReserved | ErrVanityLength | ErrCodeSpaceExhausted | ErrStoreUnavailable

type_synonym lerr = "link_err gerr"

text \<open>A zero \<^verbatim>\<open>ExpiresAt\<close> is \<open>None\<close>; \<open>ln_Dest\<close> is \<^verbatim>\<open>Dest.Raw()\<close>.\<close>

record link =
  ln_Code :: string
  ln_Dest :: string
  ln_OwnerID :: string
  ln_Vanity :: bool
  ln_CreatedAt :: time
  ln_ExpiresAt :: "time option"

datatype create_option = WithOwner string | WithVanityCode string | WithTTL duration

record 's cairn =
  cn_Create :: "time \<Rightarrow> string \<Rightarrow> create_option list \<Rightarrow> 's \<Rightarrow> (lerr + link) \<times> 's"
  cn_Resolve :: "time \<Rightarrow> string \<Rightarrow> 's \<Rightarrow> (lerr + link) \<times> 's"
  cn_Revoke :: "time \<Rightarrow> string \<Rightarrow> 's \<Rightarrow> lerr option \<times> 's"
  cn_ListByOwner :: "string \<Rightarrow> string \<Rightarrow> int \<Rightarrow> 's \<Rightarrow> (lerr + link list \<times> string) \<times> 's"
  cn_RejectReason :: "lerr \<Rightarrow> string"

subsection \<open>Service\<close>

record CreateRequest =
  cr_RawURL :: string
  cr_VanityCode :: string
  cr_TTL :: duration

text \<open>\<open>lister\<close> is whether the store implements \<^verbatim>\<open>cairn.OwnerLister\<close>, \<open>typ\<close> the name of its type.\<close>

definition link_NewService :: "bool \<Rightarrow> string \<Rightarrow> 's cairn \<Rightarrow> string + 's cairn" where
  "link_NewService lister typ shortener =
     (if \<not> lister then Inl (''link: store '' @ typ @ '' does not implement cairn.OwnerLister, required for GET /v1/links'')
      else Inr shortener)"

definition create_options :: "string \<Rightarrow> CreateRequest \<Rightarrow> create_option list" where
  "create_options ownerID req =
     [WithOwner ownerID] @
     (if cr_VanityCode req \<noteq> '''' then [WithVanityCode (cr_VanityCode req)] else []) @
     (if cr_TTL req > 0 then [WithTTL (cr_TTL req)] else [])"

definition link_Create :: "'s cairn \<Rightarrow> time \<Rightarrow> string \<Rightarrow> CreateRequest \<Rightarrow> 's \<Rightarrow> (lerr + link) \<times> 's" where
  "link_Create c now ownerID req = cn_Create c now (cr_RawURL req) (create_options ownerID req)"

definition link_List :: "'s cairn \<Rightarrow> string \<Rightarrow> string \<Rightarrow> int \<Rightarrow> 's \<Rightarrow> (lerr + link list \<times> string) \<times> 's" where
  "link_List c ownerID after limit = cn_ListByOwner c ownerID after limit"

text \<open>The two calls of \<^verbatim>\<open>Revoke\<close> read the clock at \<open>now\<close> and \<open>now'\<close>.\<close>

definition link_Revoke :: "'s cairn \<Rightarrow> time \<Rightarrow> time \<Rightarrow> string \<Rightarrow> string \<Rightarrow> 's \<Rightarrow> lerr option \<times> 's" where
  "link_Revoke c now now' ownerID code s =
     (case cn_Resolve c now code s of
        (Inl err, s') \<Rightarrow> (Some err, s')
      | (Inr l, s') \<Rightarrow> if ln_OwnerID l \<noteq> ownerID then (Some (Sentinel ErrNotOwner), s') else cn_Revoke c now' code s')"

subsection \<open>Handler\<close>

definition maxListLimit :: int where
  "maxListLimit = 100"

definition defaultListLimit :: int where
  "defaultListLimit = 20"

record createLinkRequest =
  lq_URL :: string
  lq_VanityCode :: string
  lq_TTLSeconds :: int

record link_request =
  lr_Method :: string
  lr_Segments :: "string list"
  lr_Query :: url_values
  lr_Create :: "createLinkRequest option"

record 's link_handler =
  lh_svc :: "'s cairn"
  lh_publicBaseURL :: string

definition toLinkResponse :: "'s link_handler \<Rightarrow> link \<Rightarrow> json" where
  "toLinkResponse h l = JObject
     ([(''code'', JString (ln_Code l)), (''short_url'', JString (lh_publicBaseURL h @ ''/'' @ ln_Code l)), (''url'', JString (ln_Dest l)),
       (''vanity'', JBool (ln_Vanity l)), (''created_at'', JTime (ln_CreatedAt l))] @
      (case ln_ExpiresAt l of None \<Rightarrow> [] | Some t \<Rightarrow> [(''expires_at'', JTime t)]))"

definition lhandleServiceError :: "'s link_handler \<Rightarrow> lerr \<Rightarrow> http_response" where
  "lhandleServiceError h err =
     (if errors_Is err ErrCodeNotFound \<or> errors_Is err ErrInvalidCode \<or> errors_Is err ErrLinkExpired \<or> errors_Is err ErrLinkRevoked \<or>
         errors_Is err ErrNotOwner
      then writeError [] 404 ''link not found''
      else if errors_Is err ErrDestinationRejected
      then writeErrorWithReason [] 422 ''destination rejected'' (cn_RejectReason (lh_svc h) err)
      else if errors_Is err ErrCodeExists then writeError [] 409 ''code already exists''
      else if errors_Is err ErrVanityReserved then writeError [] 422 ''vanity code is reserved''
      else if errors_Is err ErrVanityLength then writeError [] 422 ''vanity code length collides with the generated code length''
      else if errors_Is err ErrCodeSpaceExhausted \<or> errors_Is err ErrStoreUnavailable
      then writeError [] 503 ''link service temporarily unavailable''
      else logged LogError ''unexpected service error'' (writeError [] 500 ''internal server error''))"

text \<open>\<^verbatim>\<open>time.Duration(req.TTLSeconds) * time.Second\<close>, a product of two \<^verbatim>\<open>int64\<close>.\<close>

definition mul64 :: "int \<Rightarrow> int \<Rightarrow> int" where
  "mul64 a b = sint (word_of_int a * word_of_int b :: 64 word)"

definition link_ttl :: "createLinkRequest \<Rightarrow> duration" where
  "link_ttl req = (if lq_TTLSeconds req > 0 then mul64 (lq_TTLSeconds req) Second else 0)"

definition createLink :: "'s link_handler \<Rightarrow> time \<Rightarrow> string \<Rightarrow> link_request \<Rightarrow> 's \<Rightarrow> http_response \<times> 's" where
  "createLink h now userID r s =
     (case lr_Create r of
        None \<Rightarrow> (writeError [] 400 ''invalid request body'', s)
      | Some req \<Rightarrow>
          (case link_Create (lh_svc h) now userID
                  \<lparr>cr_RawURL = lq_URL req, cr_VanityCode = lq_VanityCode req, cr_TTL = link_ttl req\<rparr> s of
             (Inl err, s') \<Rightarrow> (lhandleServiceError h err, s')
           | (Inr l, s') \<Rightarrow> (writeJSON [] 201 (toLinkResponse h l), s')))"

definition list_limit :: "url_values \<Rightarrow> string + int" where
  "list_limit q =
     (let raw = url_Get q ''limit'' in
      if raw \<noteq> '''' then
        (case Atoi raw of
           None \<Rightarrow> Inl ''invalid input: limit must be a positive integer''
         | Some n \<Rightarrow>
             if n \<le> 0 then Inl ''invalid input: limit must be a positive integer''
             else if n > maxListLimit then Inl (''invalid input: limit must be at most '' @ Itoa maxListLimit)
             else Inr n)
      else Inr defaultListLimit)"

definition listLinks :: "'s link_handler \<Rightarrow> string \<Rightarrow> link_request \<Rightarrow> 's \<Rightarrow> http_response \<times> 's" where
  "listLinks h userID r s =
     (case list_limit (lr_Query r) of
        Inl msg \<Rightarrow> (writeError [] 400 msg, s)
      | Inr limit \<Rightarrow>
          (case link_List (lh_svc h) userID (url_Get (lr_Query r) ''after'') limit s of
             (Inl err, s') \<Rightarrow> (lhandleServiceError h err, s')
           | (Inr (links, cursor), s') \<Rightarrow>
               (writeJSON (if cursor \<noteq> '''' then [(''X-Next-Cursor'', cursor)] else []) 200 (JArray (map (toLinkResponse h) links)), s')))"

definition revokeLink :: "'s link_handler \<Rightarrow> time \<Rightarrow> time \<Rightarrow> string \<Rightarrow> string \<Rightarrow> 's \<Rightarrow> http_response \<times> 's" where
  "revokeLink h now now' userID code s =
     (case link_Revoke (lh_svc h) now now' userID code s of
        (Some err, s') \<Rightarrow> (lhandleServiceError h err, s')
      | (None, s') \<Rightarrow> (\<lparr>rs_Status = 204, rs_Header = [], rs_Body = NoBody, rs_Log = []\<rparr>, s'))"

datatype link_route = LCreate | LList | LRevoke

definition link_routes :: "(string \<times> segment list \<times> link_route) list" where
  "link_routes = [(''POST'', [Lit ''links''], LCreate), (''GET'', [Lit ''links''], LList), (''DELETE'', [Lit ''links'', Wild], LRevoke)]"

fun link_dispatch :: "'s link_handler \<Rightarrow> time \<Rightarrow> time \<Rightarrow> string \<Rightarrow> link_request \<Rightarrow> link_route \<Rightarrow> string \<Rightarrow> 's \<Rightarrow> http_response \<times> 's" where
  "link_dispatch h now now' u r LCreate i = createLink h now u r"
| "link_dispatch h now now' u r LList i = listLinks h u r"
| "link_dispatch h now now' u r LRevoke i = revokeLink h now now' u i"

definition serve_links :: "user_lib \<Rightarrow> 'u user_repo \<Rightarrow> uctxs \<Rightarrow> clock \<Rightarrow> auth_request
    \<Rightarrow> 's link_handler \<Rightarrow> time \<Rightarrow> time \<Rightarrow> link_request \<Rightarrow> 'u user_svc \<times> 's \<Rightarrow> http_response \<times> ('u user_svc \<times> 's)" where
  "serve_links ul ur uctx clk cred h now now' r st =
     (case mux_match link_routes (lr_Method r) (lr_Segments r) of
        MuxNotFound \<Rightarrow> (muxError 404 ''404 page not found'', st)
      | MuxMethodNotAllowed \<Rightarrow> (muxError 405 ''Method Not Allowed'', st)
      | MuxFound route i \<Rightarrow>
          (case st of (us, s) \<Rightarrow>
           case RequireAuth ul ur uctx clk cred us of
             (AuthRejected status msg, us') \<Rightarrow> (writeAuthError status msg, (us', s))
           | (AuthPassed u token, us') \<Rightarrow>
               (case link_dispatch h now now' u r route i s of (rs, s') \<Rightarrow> (rs, (us', s')))))"

subsection \<open>The public route\<close>

definition writeSimpleJSONError :: "nat \<Rightarrow> string \<Rightarrow> http_response" where
  "writeSimpleJSONError status msg =
     \<lparr>rs_Status = status, rs_Header = [(''Content-Type'', ''application/json'')], rs_Body = JsonBody (errorResponse msg ''''), rs_Log = []\<rparr>"

definition publicErrorEncoder :: "lerr \<Rightarrow> http_response" where
  "publicErrorEncoder err =
     (if errors_Is err ErrInvalidCode \<or> errors_Is err ErrCodeNotFound \<or> errors_Is err ErrLinkExpired \<or> errors_Is err ErrLinkRevoked
      then writeSimpleJSONError 404 ''link not found''
      else if errors_Is err ErrStoreUnavailable then writeSimpleJSONError 503 ''link service unavailable''
      else writeSimpleJSONError 500 ''internal server error'')"

text \<open>\<open>cairnhttp\<close> is \<^verbatim>\<open>cairnhttp.NewHandler\<close> of the library, given the shortener and the error encoder.\<close>

definition NewPublicResolveHandler :: "('s cairn \<Rightarrow> (lerr \<Rightarrow> http_response) \<Rightarrow> 'h) \<Rightarrow> 's cairn \<Rightarrow> 'h" where
  "NewPublicResolveHandler cairnhttp shortener = cairnhttp shortener publicErrorEncoder"

subsection \<open>What the library documents\<close>

definition link_live :: "time \<Rightarrow> link \<Rightarrow> bool" where
  "link_live now l = (case ln_ExpiresAt l of None \<Rightarrow> True | Some t \<Rightarrow> now < t)"

type_synonym link_view = "string \<Rightarrow> (link \<times> bool) option"

text \<open>
  \<open>held s\<close> gives the link of a code and whether it is revoked. Resolving and listing change nothing; a resolved link is the
  stored one, neither expired nor revoked; a listed link is a stored one of the owner asked for; revoking touches the
  link of the code only; creating adds one link of the owner named in the options, under a code not in use, with the
  destination given.
\<close>

definition resolve_ok :: "'s cairn \<Rightarrow> ('s \<Rightarrow> link_view) \<Rightarrow> bool" where
  "resolve_ok c held \<longleftrightarrow> (\<forall>now code s r s'. cn_Resolve c now code s = (r, s') \<longrightarrow> held s' = held s \<and>
     (\<forall>l. r = Inr l \<longrightarrow> held s code = Some (l, False) \<and> link_live now l))"

definition revoke_ok :: "'s cairn \<Rightarrow> ('s \<Rightarrow> link_view) \<Rightarrow> bool" where
  "revoke_ok c held \<longleftrightarrow> (\<forall>now code s r s'. cn_Revoke c now code s = (r, s') \<longrightarrow>
     (held s' = held s \<or> (\<exists>l b. held s code = Some (l, b) \<and> held s' = (held s)(code \<mapsto> (l, True)))) \<and>
     (r = None \<longrightarrow> (\<exists>l. held s' code = Some (l, True))))"

definition list_ok :: "'s cairn \<Rightarrow> ('s \<Rightarrow> link_view) \<Rightarrow> bool" where
  "list_ok c held \<longleftrightarrow> (\<forall>owner after limit s r s'. cn_ListByOwner c owner after limit s = (r, s') \<longrightarrow> held s' = held s \<and>
     (\<forall>links cursor. r = Inr (links, cursor) \<longrightarrow> (\<forall>l \<in> set links. ln_OwnerID l = owner \<and> (\<exists>b. held s (ln_Code l) = Some (l, b)))))"

definition create_ok :: "'s cairn \<Rightarrow> ('s \<Rightarrow> link_view) \<Rightarrow> bool" where
  "create_ok c held \<longleftrightarrow> (\<forall>now url owner opts s r s'. cn_Create c now url (WithOwner owner # opts) s = (r, s') \<longrightarrow>
     (case r of
        Inl err \<Rightarrow> held s' = held s
      | Inr l \<Rightarrow> held s (ln_Code l) = None \<and> held s' = (held s)(ln_Code l \<mapsto> (l, False)) \<and> ln_OwnerID l = owner \<and> ln_Dest l = url))"

definition cairn_semantics :: "'s cairn \<Rightarrow> ('s \<Rightarrow> link_view) \<Rightarrow> bool" where
  "cairn_semantics c held \<longleftrightarrow> resolve_ok c held \<and> revoke_ok c held \<and> list_ok c held \<and> create_ok c held"


subsection \<open>Who can change a link\<close>

text \<open>What a request of user \<open>u\<close> may do to the links: add one of their own, or revoke one of their own.\<close>

definition own_change :: "string \<Rightarrow> link_view \<Rightarrow> link_view \<Rightarrow> bool" where
  "own_change u v v' \<longleftrightarrow> (\<forall>code. v' code = v code \<or>
     (\<exists>l. ln_OwnerID l = u \<and> (v code = Some (l, False) \<and> v' code = Some (l, True) \<or> v code = None \<and> v' code = Some (l, False))))"

lemma own_change_refl [simp]: "own_change u v v"
  by (simp add: own_change_def)

lemma own_change_upd: "own_change u v v' \<Longrightarrow> v code = Some (l, b) \<Longrightarrow> ln_OwnerID l \<noteq> u \<Longrightarrow> v' code = Some (l, b)"
  unfolding own_change_def by (metis option.distinct(1) option.inject prod.inject)

lemma own_change_revoke: "v code = Some (l, False) \<Longrightarrow> own_change (ln_OwnerID l) v (v(code \<mapsto> (l, True)))"
  by (auto simp: own_change_def)

lemma own_change_create: "v (ln_Code l) = None \<Longrightarrow> own_change (ln_OwnerID l) v (v(ln_Code l \<mapsto> (l, False)))"
  by (auto simp: own_change_def)

lemma refused_create_keeps:
  assumes "cairn_semantics c held" and "link_Create c now u req s = (Inl e, s')"
  shows "held s' = held s"
  using assms unfolding cairn_semantics_def create_ok_def link_Create_def create_options_def by fastforce

lemma resolve_held: "cairn_semantics c held \<Longrightarrow> cn_Resolve c now code s = (r, s') \<Longrightarrow> held s' = held s"
  unfolding cairn_semantics_def resolve_ok_def by blast

lemma resolved_held: "cairn_semantics c held \<Longrightarrow> cn_Resolve c now code s = (Inr l, s') \<Longrightarrow> held s code = Some (l, False)"
  unfolding cairn_semantics_def resolve_ok_def by blast

lemma list_held: "cairn_semantics c held \<Longrightarrow> cn_ListByOwner c owner after limit s = (r, s') \<Longrightarrow> held s' = held s"
  unfolding cairn_semantics_def list_ok_def by blast

lemma listed_owner:
  "cairn_semantics c held \<Longrightarrow> cn_ListByOwner c owner after limit s = (Inr (links, cursor), s') \<Longrightarrow> list_all (\<lambda>l. ln_OwnerID l = owner) links"
  unfolding cairn_semantics_def list_ok_def list_all_iff by blast

lemma revoke_held:
  "cairn_semantics c held \<Longrightarrow> cn_Revoke c now code s = (r, s') \<Longrightarrow> held s code = Some (l, False) \<Longrightarrow>
   held s' = held s \<or> held s' = (held s)(code \<mapsto> (l, True))"
  unfolding cairn_semantics_def revoke_ok_def by (metis option.inject prod.inject)

lemma create_own:
  assumes "cairn_semantics c held" and "cn_Create c now url (WithOwner owner # opts) s = (r, s')"
  shows "own_change owner (held s) (held s')"
proof (cases r)
  case (Inl e)
  with assms have "held s' = held s" unfolding cairn_semantics_def create_ok_def by fastforce
  then show ?thesis by simp
next
  case (Inr l)
  with assms have "held s (ln_Code l) = None" "held s' = (held s)(ln_Code l \<mapsto> (l, False))" "ln_OwnerID l = owner"
    unfolding cairn_semantics_def create_ok_def by fastforce+
  then show ?thesis using own_change_create by metis
qed

lemma revoke_own:
  assumes "cairn_semantics c held" and "link_Revoke c now now' u code s = (r, s')"
  shows "own_change u (held s) (held s')"
proof -
  obtain x s1 where res: "cn_Resolve c now code s = (x, s1)" by fastforce
  have v1: "held s1 = held s" using resolve_held [OF assms(1) res] .
  show ?thesis
  proof (cases x)
    case (Inl e)
    with res assms(2) v1 show ?thesis by (simp add: link_Revoke_def)
  next
    case (Inr l)
    have vl: "held s code = Some (l, False)" using resolved_held [OF assms(1)] res Inr by blast
    show ?thesis
    proof (cases "ln_OwnerID l = u")
      case True
      with res Inr assms(2) have "cn_Revoke c now' code s1 = (r, s')" by (simp add: link_Revoke_def)
      from revoke_held [OF assms(1) this] v1 vl True show ?thesis using own_change_revoke [of "held s" code l] by auto
    next
      case False
      with res Inr assms(2) v1 show ?thesis by (simp add: link_Revoke_def)
    qed
  qed
qed

lemma dispatch_own:
  assumes "cairn_semantics (lh_svc h) held" and "link_dispatch h now now' u r route i s = (rs, s')"
  shows "own_change u (held s) (held s')"
proof (cases route)
  case LCreate
  with assms(2) create_own [OF assms(1)] show ?thesis
    by (fastforce simp: createLink_def link_Create_def create_options_def split: option.splits prod.splits sum.splits)
next
  case LList
  with assms(2) list_held [OF assms(1)] show ?thesis
    by (fastforce simp: listLinks_def link_List_def split: prod.splits sum.splits)
next
  case LRevoke
  with assms(2) revoke_own [OF assms(1)] show ?thesis by (auto simp: revokeLink_def split: prod.splits option.splits)
qed

lemma listed_are_own:
  assumes "cairn_semantics (lh_svc h) held" and "listLinks h u r s = (rs, s')" and "rs_Status rs = 200"
  shows "\<exists>links. rs_Body rs = JsonBody (JArray (map (toLinkResponse h) links)) \<and> list_all (\<lambda>l. ln_OwnerID l = u) links"
  using assms(2,3) listed_owner [OF assms(1)]
  by (fastforce simp: listLinks_def link_List_def lhandleServiceError_def writeError_def writeErrorWithReason_def writeJSON_def
      split: prod.splits sum.splits if_splits)

lemma foreign_is_not_found:
  assumes "cn_Resolve (lh_svc h) now code s = (Inr l, s1)" and "ln_OwnerID l \<noteq> u"
  shows "revokeLink h now now' u code s = (lhandleServiceError h (Sentinel ErrCodeNotFound), s1)"
  using assms by (simp add: revokeLink_def link_Revoke_def lhandleServiceError_def)


text \<open>
  C38. Links belong to the user who made them. A request, authenticated as a user or as nobody, leaves every link of anybody
  else as it was; it can add a link of its own user, or revoke one. A listing names own links only. A \<^verbatim>\<open>DELETE\<close> of somebody
  else's link gets the very answer an unknown, expired or revoked code gets. Creating is different: a \<^verbatim>\<open>POST\<close> that asks for a vanity code the
  shortener reports as taken answers 409 and changes nothing, so it does tell that the code exists, though not whose it is.
  The shortener itself checks no owner.
\<close>

theorem links_change_only_for_their_owner:
  assumes "cairn_semantics (lh_svc h) held"
    and "serve_links ul ur uctx clk cred h now now' r (us, s) = (rs, (us', s'))"
  shows "(held s' = held s \<or>
      (\<exists>u token. fst (RequireAuth ul ur uctx clk cred us) = AuthPassed u token \<and> own_change u (held s) (held s'))) \<and>
    (\<forall>u token. fst (RequireAuth ul ur uctx clk cred us) = AuthPassed u token \<longrightarrow>
      (\<forall>code l b. held s code = Some (l, b) \<and> ln_OwnerID l \<noteq> u \<longrightarrow> held s' code = Some (l, b)) \<and>
      (\<forall>i. mux_match link_routes (lr_Method r) (lr_Segments r) = MuxFound LList i \<and> rs_Status rs = 200 \<longrightarrow>
        (\<exists>links. rs_Body rs = JsonBody (JArray (map (toLinkResponse h) links)) \<and> list_all (\<lambda>l. ln_OwnerID l = u) links)) \<and>
      (\<forall>code l s1. mux_match link_routes (lr_Method r) (lr_Segments r) = MuxFound LRevoke code \<and>
        cn_Resolve (lh_svc h) now code s = (Inr l, s1) \<and> ln_OwnerID l \<noteq> u \<longrightarrow>
        rs = lhandleServiceError h (Sentinel ErrCodeNotFound) \<and> held s' = held s) \<and>
      (\<forall>code e s1. mux_match link_routes (lr_Method r) (lr_Segments r) = MuxFound LRevoke code \<and> cn_Resolve (lh_svc h) now code s = (Inl e, s1) \<and>
        e \<in> {Sentinel ErrCodeNotFound, Sentinel ErrLinkExpired, Sentinel ErrLinkRevoked} \<longrightarrow>
        rs = lhandleServiceError h (Sentinel ErrCodeNotFound) \<and> held s' = held s) \<and>
      (\<forall>i req s1. mux_match link_routes (lr_Method r) (lr_Segments r) = MuxFound LCreate i \<and> lr_Create r = Some req \<and>
        link_Create (lh_svc h) now u \<lparr>cr_RawURL = lq_URL req, cr_VanityCode = lq_VanityCode req, cr_TTL = link_ttl req\<rparr> s =
          (Inl (Sentinel ErrCodeExists), s1) \<longrightarrow> rs = writeError [] 409 ''code already exists'' \<and> held s' = held s))"
proof (cases "mux_match link_routes (lr_Method r) (lr_Segments r)")
  case (MuxFound route i)
  show ?thesis
  proof (cases "RequireAuth ul ur uctx clk cred us")
    case (Pair out us2)
    show ?thesis
    proof (cases out)
      case (AuthPassed u token)
      with MuxFound Pair assms(2) have d: "link_dispatch h now now' u r route i s = (rs, s')"
        by (auto simp: serve_links_def split: prod.splits)
      have own: "own_change u (held s) (held s')" by (rule dispatch_own [OF assms(1) d])
      have "rs_Status rs = 200 \<Longrightarrow> route = LList \<Longrightarrow>
          \<exists>links. rs_Body rs = JsonBody (JArray (map (toLinkResponse h) links)) \<and> list_all (\<lambda>l. ln_OwnerID l = u) links"
        using d listed_are_own [OF assms(1)] by simp
      moreover have "rs = lhandleServiceError h (Sentinel ErrCodeNotFound) \<and> held s' = held s"
        if "route = LRevoke" "cn_Resolve (lh_svc h) now i s = (Inr l, s1)" "ln_OwnerID l \<noteq> u" for l s1
        using that d foreign_is_not_found [OF that(2,3)] resolve_held [OF assms(1) that(2)] by simp
      moreover have "rs = lhandleServiceError h (Sentinel ErrCodeNotFound) \<and> held s' = held s"
        if "route = LRevoke" "cn_Resolve (lh_svc h) now i s = (Inl e, s1)" "e \<in> {Sentinel ErrCodeNotFound, Sentinel ErrLinkExpired, Sentinel ErrLinkRevoked}"
        for e s1
        using that d resolve_held [OF assms(1) that(2)] by (auto simp: revokeLink_def link_Revoke_def lhandleServiceError_def)
      moreover have "rs = writeError [] 409 ''code already exists'' \<and> held s' = held s"
        if "route = LCreate" "lr_Create r = Some req" "link_Create (lh_svc h) now u
            \<lparr>cr_RawURL = lq_URL req, cr_VanityCode = lq_VanityCode req, cr_TTL = link_ttl req\<rparr> s = (Inl (Sentinel ErrCodeExists), s1)" for req s1
        using that d refused_create_keeps [OF assms(1) that(3)] by (auto simp: createLink_def lhandleServiceError_def)
      ultimately show ?thesis using own own_change_upd [OF own] MuxFound Pair AuthPassed by auto
    qed (use MuxFound Pair assms(2) in \<open>auto simp: serve_links_def\<close>)
  qed
qed (use assms(2) own_change_refl in \<open>auto simp: serve_links_def\<close>)

text \<open>A shortener that keeps its links in a list, for the concrete case.\<close>

type_synonym demo_links = "(string \<times> (link \<times> bool)) list"

definition demo_cairn :: "demo_links cairn" where
  "demo_cairn = \<lparr>
     cn_Create = (\<lambda>now url opts s. case opts of
        WithOwner owner # _ \<Rightarrow>
          (if map_of s ''c1'' = None
           then (let l = \<lparr>ln_Code = ''c1'', ln_Dest = url, ln_OwnerID = owner, ln_Vanity = False, ln_CreatedAt = now, ln_ExpiresAt = None\<rparr>
                 in (Inr l, (''c1'', (l, False)) # s))
           else (Inl (Sentinel ErrCodeSpaceExhausted), s))
      | _ \<Rightarrow> (Inl (Opaque ''owner''), s)),
     cn_Resolve = (\<lambda>now code s. case map_of s code of
        Some (l, b) \<Rightarrow> (if b then (Inl (Sentinel ErrLinkRevoked), s) else if link_live now l then (Inr l, s) else (Inl (Sentinel ErrLinkExpired), s))
      | None \<Rightarrow> (Inl (Sentinel ErrCodeNotFound), s)),
     cn_Revoke = (\<lambda>now code s. case map_of s code of
        Some (l, b) \<Rightarrow> (None, (code, (l, True)) # s)
      | None \<Rightarrow> (Some (Sentinel ErrCodeNotFound), s)),
     cn_ListByOwner = (\<lambda>owner after limit s. (Inr ([], ''''), s)),
     cn_RejectReason = (\<lambda>_. '''')\<rparr>"

lemma demo_cairn_semantics: "cairn_semantics demo_cairn map_of"
  by (auto simp: cairn_semantics_def resolve_ok_def revoke_ok_def list_ok_def create_ok_def demo_cairn_def Let_def
      split: option.splits prod.splits if_splits)

definition demo_link :: link where
  "demo_link = \<lparr>ln_Code = ''c0'', ln_Dest = ''http://a'', ln_OwnerID = ''somebody'', ln_Vanity = False, ln_CreatedAt = 0, ln_ExpiresAt = None\<rparr>"

definition demo_link_handler :: "demo_links link_handler" where
  "demo_link_handler = \<lparr>lh_svc = demo_cairn, lh_publicBaseURL = ''https://s''\<rparr>"

definition demo_revocation :: link_request where
  "demo_revocation = \<lparr>lr_Method = ''DELETE'', lr_Segments = [''links'', ''c0''], lr_Query = [], lr_Create = None\<rparr>"

theorem links_change_only_for_their_owner_witness:
  "\<exists>rs us' s'. serve_links demo_ulib userMemory ulive (\<lambda>_. 5) \<lparr>ar_Authorization = ''Bearer a'', ar_Cookie = None\<rparr>
       demo_link_handler 5 5 demo_revocation (demo_signed_in, [(''c0'', (demo_link, False))]) = (rs, (us', s')) \<and>
     rs = lhandleServiceError demo_link_handler (Sentinel ErrCodeNotFound) \<and> map_of s' ''c0'' = Some (demo_link, False)"
proof -
  let ?cred = "\<lparr>ar_Authorization = ''Bearer a'', ar_Cookie = None\<rparr>"
  let ?s = "[(''c0'', (demo_link, False))]"
  obtain rs us' s' where run: "serve_links demo_ulib userMemory ulive (\<lambda>_. 5) ?cred demo_link_handler 5 5 demo_revocation
      (demo_signed_in, ?s) = (rs, (us', s'))"
    by (metis surj_pair)
  have auth: "fst (RequireAuth demo_ulib userMemory ulive (\<lambda>_. 5) ?cred demo_signed_in) = AuthPassed (u_ID demo_user) ''a''"
    by (auto simp: RequireAuth_def credentialSource_def bearerToken_def ValidateToken_live tc_get_def demo_signed_in_def
        demo_accounts_def NewUserService_def Let_def split: if_splits)
  have sem: "cairn_semantics (lh_svc demo_link_handler) map_of" by (simp add: demo_link_handler_def demo_cairn_semantics)
  have mux: "mux_match link_routes (lr_Method demo_revocation) (lr_Segments demo_revocation) = MuxFound LRevoke ''c0''"
    by (simp add: mux_match_def link_routes_def demo_revocation_def)
  have res: "cn_Resolve (lh_svc demo_link_handler) 5 ''c0'' ?s = (Inr demo_link, ?s)"
    by (simp add: demo_link_handler_def demo_cairn_def demo_link_def link_live_def)
  have other: "ln_OwnerID demo_link \<noteq> u_ID demo_user" by (simp add: demo_link_def demo_user_def)
  from links_change_only_for_their_owner [OF sem run] auth mux res other
  have "rs = lhandleServiceError demo_link_handler (Sentinel ErrCodeNotFound) \<and> map_of s' = map_of ?s" by blast
  with run show ?thesis by auto
qed

subsection \<open>The lifetime a caller asks for\<close>

lemma mul64_signed: "mul64 a b = signed_take_bit 63 (a * b)"
proof -
  have "word_of_int a * word_of_int b = (word_of_int (a * b) :: 64 word)" by simp
  then show ?thesis unfolding mul64_def by (simp only: sint_sbintrunc') simp
qed

lemma mul64_range: "- (2 ^ 63) \<le> mul64 a b \<and> mul64 a b < 2 ^ 63"
  unfolding mul64_signed using signed_take_bit_int_greater_eq_minus_exp [of 63 "a * b"] signed_take_bit_int_less_exp [of 63 "a * b"] by simp

lemma mul64_exact: "0 \<le> a * b \<Longrightarrow> a * b < 2 ^ 63 \<Longrightarrow> mul64 a b = a * b"
  unfolding mul64_signed by (rule signed_take_bit_int_eq_self) (auto intro: order_trans [of _ 0])

text \<open>
  C39. The lifetime handed to the shortener is the one asked for, in seconds, exactly up to 9223372036 seconds (292 years).
  Above that the product wraps around in 64 bits: a request for 18446744074 seconds makes a link that lives 0.29 seconds, and
  one for 9223372037 seconds is passed on with no lifetime at all.
\<close>

theorem ttl_exact_iff_fits:
  assumes "0 < t" and "t < 2 ^ 63"
  shows "(WithTTL (t * Second) \<in> set (create_options u
      \<lparr>cr_RawURL = url, cr_VanityCode = v, cr_TTL = link_ttl \<lparr>lq_URL = url, lq_VanityCode = v, lq_TTLSeconds = t\<rparr>\<rparr>) \<longleftrightarrow> t \<le> 9223372036) \<and>
    link_ttl \<lparr>lq_URL = url, lq_VanityCode = v, lq_TTLSeconds = 18446744074\<rparr> = 290448384 \<and>
    create_options u \<lparr>cr_RawURL = url, cr_VanityCode = '''',
      cr_TTL = link_ttl \<lparr>lq_URL = url, lq_VanityCode = '''', lq_TTLSeconds = 9223372037\<rparr>\<rparr> = [WithOwner u]"
proof (intro conjI)
  have big: "t \<le> 9223372036 \<longleftrightarrow> t * Second < 2 ^ 63" by (cases "t \<le> 9223372036") (simp_all add: duration_defs)
  have "mul64 t Second = t * Second \<longleftrightarrow> t * Second < 2 ^ 63"
    using mul64_exact [of t Second] mul64_range [of t Second] assms(1) by (auto simp: duration_defs)
  then show "WithTTL (t * Second) \<in> set (create_options u
      \<lparr>cr_RawURL = url, cr_VanityCode = v, cr_TTL = link_ttl \<lparr>lq_URL = url, lq_VanityCode = v, lq_TTLSeconds = t\<rparr>\<rparr>) \<longleftrightarrow> t \<le> 9223372036"
    using assms(1) big by (auto simp: create_options_def link_ttl_def duration_defs)
qed (simp_all add: link_ttl_def create_options_def mul64_def duration_defs)

theorem ttl_exact_iff_fits_witness:
  "WithTTL (3600 * Second) \<in> set (create_options ''u1''
     \<lparr>cr_RawURL = ''http://a'', cr_VanityCode = '''', cr_TTL = link_ttl \<lparr>lq_URL = ''http://a'', lq_VanityCode = '''', lq_TTLSeconds = 3600\<rparr>\<rparr>)"
  using ttl_exact_iff_fits [of 3600 "''u1''" "''http://a''" "''''"] by simp

end
