(* ===== verification/Config.thy ===== *)
theory Config
  imports TaskHandler
begin

text \<open>
  Configuration (\<^verbatim>\<open>internal/config\<close>): the \<^verbatim>\<open>.env\<close> file and the environment, and \<^verbatim>\<open>Load\<close>, which reads
  and validates every variable in a fixed order and stops at the first one that is not acceptable. The parsers of the
  standard library that \<^verbatim>\<open>Load\<close> only calls (durations, floats, host and port, URLs, IP prefixes) are the record
  \<open>config_lib\<close>; what is proved holds whatever they accept. An error is its text.
\<close>

type_synonym env = "(string, string) gomap"
type_synonym 'a cres = "string + 'a"

definition Getenv :: "env \<Rightarrow> string \<Rightarrow> string" where
  "Getenv e k = (case map_of e k of None \<Rightarrow> '''' | Some v \<Rightarrow> v)"

text \<open>A \<^verbatim>\<open>float64\<close>; \<open>Finite m x\<close> is \<open>m\<close> times two to the power \<open>x\<close>.\<close>

datatype float64 = NaN | NegInf | PosInf | Finite int int

fun float_positive :: "float64 \<Rightarrow> bool" where
  "float_positive NaN = False"
| "float_positive NegInf = False"
| "float_positive PosInf = True"
| "float_positive (Finite m x) = (0 < m)"

record config_lib =
  cl_ParseDuration :: "string \<Rightarrow> duration cres"
  cl_DurationString :: "duration \<Rightarrow> string"
  cl_ParseFloat :: "string \<Rightarrow> float64 cres"
  cl_SplitHostPort :: "string \<Rightarrow> (string \<times> string) cres"
  cl_url_Parse :: "string \<Rightarrow> (string \<times> string) cres"
  cl_ParsePrefix :: "string \<Rightarrow> nat option"
  cl_ParseAddr :: "string \<Rightarrow> bool"
  cl_IsPrint :: "nat \<Rightarrow> bool"
  cl_lower :: "nat \<Rightarrow> string"

subsection \<open>The .env file\<close>

text \<open>The lines a \<^verbatim>\<open>bufio.Scanner\<close> yields, and whether it stopped at one that does not fit its buffer.\<close>

definition MaxScanTokenSize :: nat where
  "MaxScanTokenSize = 64 * 1024"

definition drop_cr :: "string \<Rightarrow> string" where
  "drop_cr l = (if l \<noteq> [] \<and> last l = CHR 0x0D then butlast l else l)"

fun scan_lines :: "string list \<Rightarrow> string list \<times> string option" where
  "scan_lines [] = ([], None)"
| "scan_lines (l # ls) =
     (if length l \<ge> MaxScanTokenSize then ([], Some ''bufio.Scanner: token too long'')
      else if l = [] \<and> ls = [] then ([], None)
      else (case scan_lines ls of (ok, err) \<Rightarrow> (drop_cr l # ok, err)))"

definition file_lines :: "string \<Rightarrow> string list \<times> string option" where
  "file_lines content = scan_lines (Split (CHR 0x0A) content)"

definition strip_quotes :: "string \<Rightarrow> string" where
  "strip_quotes v =
     (if length v \<ge> 2 then
        (if (hd v = CHR 0x22 \<and> last v = CHR 0x22) \<or> (hd v = CHR 0x27 \<and> last v = CHR 0x27) then butlast (tl v) else v)
      else v)"

text \<open>One line: nothing, or the variable it assigns.\<close>

definition parse_line :: "string \<Rightarrow> (string \<times> string) option" where
  "parse_line text0 =
     (let line = TrimSpace text0 in
      if line = '''' \<or> take 1 line = ''#'' then None
      else if CHR ''='' \<notin> set line then None
      else (let key = TrimSpace (takeWhile (\<lambda>c. c \<noteq> CHR ''='') line);
                val = strip_quotes (TrimSpace (tl (dropWhile (\<lambda>c. c \<noteq> CHR ''='') line)))
            in if key = '''' then None else Some (key, val)))"

text \<open>\<^verbatim>\<open>os.Setenv\<close>, whose error (a NUL byte) is ignored.\<close>

definition Setenv :: "string \<Rightarrow> string \<Rightarrow> env \<Rightarrow> env" where
  "Setenv k v e = (if CHR 0x00 \<in> set k \<or> CHR 0x00 \<in> set v then e else AList.update k v e)"

fun dotenv_loop :: "string list \<Rightarrow> env \<Rightarrow> env" where
  "dotenv_loop [] e = e"
| "dotenv_loop (l # ls) e =
     (case parse_line l of
        None \<Rightarrow> dotenv_loop ls e
      | Some (k, v) \<Rightarrow> dotenv_loop ls (if map_of e k = None then Setenv k v e else e))"

datatype dotenv_file = NoFile | OpenFailed string | FileContent string

definition loadDotEnv :: "dotenv_file \<Rightarrow> env \<Rightarrow> string option \<times> env" where
  "loadDotEnv f e =
     (case f of
        NoFile \<Rightarrow> (None, e)
      | OpenFailed err \<Rightarrow> (Some err, e)
      | FileContent content \<Rightarrow> (case file_lines content of (ls, err) \<Rightarrow> (err, dotenv_loop ls e)))"

subsection \<open>One variable\<close>

definition cerror :: "string \<Rightarrow> 'a cres" where
  "cerror msg = Inl (''config: '' @ msg)"

definition parseDuration :: "config_lib \<Rightarrow> env \<Rightarrow> string \<Rightarrow> duration \<Rightarrow> duration cres" where
  "parseDuration lib e name def =
     (let raw = Getenv e name in
      if raw = '''' then Inr def
      else case cl_ParseDuration lib raw of
        Inl err \<Rightarrow> cerror (name @ '' '' @ Quote (cl_IsPrint lib) raw @ '' is not a valid duration: '' @ err)
      | Inr d \<Rightarrow> if d \<le> 0 then cerror (name @ '' must be positive, got '' @ Quote (cl_IsPrint lib) raw) else Inr d)"

definition parseNonNegativeDuration :: "config_lib \<Rightarrow> env \<Rightarrow> string \<Rightarrow> duration \<Rightarrow> duration cres" where
  "parseNonNegativeDuration lib e name def =
     (let raw = Getenv e name in
      if raw = '''' then Inr def
      else case cl_ParseDuration lib raw of
        Inl err \<Rightarrow> cerror (name @ '' '' @ Quote (cl_IsPrint lib) raw @ '' is not a valid duration: '' @ err)
      | Inr d \<Rightarrow> if d < 0 then cerror (name @ '' must not be negative, got '' @ Quote (cl_IsPrint lib) raw) else Inr d)"

text \<open>The text of a \<^verbatim>\<open>strconv.NumError\<close>.\<close>

definition num_syntax :: "string \<Rightarrow> bool" where
  "num_syntax s = (let ds = (if take 1 s = ''-'' \<or> take 1 s = ''+'' then tl s else s) in ds \<noteq> [] \<and> list_all is_digit ds)"

definition num_error :: "config_lib \<Rightarrow> string \<Rightarrow> string \<Rightarrow> string" where
  "num_error lib fn raw =
     ''strconv.'' @ fn @ '': parsing '' @ Quote (cl_IsPrint lib) raw @ '': '' @
     (if num_syntax raw \<and> fn \<noteq> ''ParseBool'' then ''value out of range'' else ''invalid syntax'')"

definition parsePositiveInt :: "config_lib \<Rightarrow> env \<Rightarrow> string \<Rightarrow> int \<Rightarrow> int cres" where
  "parsePositiveInt lib e name def =
     (let raw = Getenv e name in
      if raw = '''' then Inr def
      else case Atoi raw of
        None \<Rightarrow> cerror (name @ '' '' @ Quote (cl_IsPrint lib) raw @ '' is not a valid integer: '' @ num_error lib ''Atoi'' raw)
      | Some n \<Rightarrow> if n \<le> 0 then cerror (name @ '' must be positive, got '' @ Quote (cl_IsPrint lib) raw) else Inr n)"

definition parsePositiveInt64 :: "config_lib \<Rightarrow> env \<Rightarrow> string \<Rightarrow> int \<Rightarrow> int cres" where
  "parsePositiveInt64 lib e name def =
     (let raw = Getenv e name in
      if raw = '''' then Inr def
      else case Atoi raw of
        None \<Rightarrow> cerror (name @ '' '' @ Quote (cl_IsPrint lib) raw @ '' is not a valid integer: '' @ num_error lib ''ParseInt'' raw)
      | Some n \<Rightarrow> if n \<le> 0 then cerror (name @ '' must be positive, got '' @ Quote (cl_IsPrint lib) raw) else Inr n)"

definition parsePositiveFloat :: "config_lib \<Rightarrow> env \<Rightarrow> string \<Rightarrow> float64 \<Rightarrow> float64 cres" where
  "parsePositiveFloat lib e name def =
     (let raw = Getenv e name in
      if raw = '''' then Inr def
      else case cl_ParseFloat lib raw of
        Inl err \<Rightarrow> cerror (name @ '' '' @ Quote (cl_IsPrint lib) raw @ '' is not a valid number: '' @ err)
      | Inr f \<Rightarrow> if \<not> float_positive f then cerror (name @ '' must be positive, got '' @ Quote (cl_IsPrint lib) raw) else Inr f)"

definition ParseBool :: "string \<Rightarrow> bool option" where
  "ParseBool s =
     (if s \<in> {''1'', ''t'', ''T'', ''true'', ''TRUE'', ''True''} then Some True
      else if s \<in> {''0'', ''f'', ''F'', ''false'', ''FALSE'', ''False''} then Some False
      else None)"

definition parseBool :: "config_lib \<Rightarrow> env \<Rightarrow> string \<Rightarrow> bool \<Rightarrow> bool cres" where
  "parseBool lib e name def =
     (let raw = Getenv e name in
      if raw = '''' then Inr def
      else case ParseBool raw of
        None \<Rightarrow> cerror (name @ '' '' @ Quote (cl_IsPrint lib) raw @ '' is not a valid boolean: '' @ num_error lib ''ParseBool'' raw)
      | Some b \<Rightarrow> Inr b)"

definition parseLogLevel :: "config_lib \<Rightarrow> env \<Rightarrow> string \<Rightarrow> log_level \<Rightarrow> log_level cres" where
  "parseLogLevel lib e name def =
     (let raw = Getenv e name in
      if raw = '''' then Inr def
      else let l = ToLower (cl_lower lib) raw in
        if l = ''debug'' then Inr LogDebug
        else if l = ''info'' then Inr LogInfo
        else if l = ''warn'' \<or> l = ''warning'' then Inr LogWarn
        else if l = ''error'' then Inr LogError
        else cerror (name @ '' '' @ Quote (cl_IsPrint lib) raw @ '' is not a valid log level (want debug, info, warn, or error)''))"

definition parseCommaSeparated :: "env \<Rightarrow> string \<Rightarrow> string list" where
  "parseCommaSeparated e name =
     (let raw = Getenv e name in
      if raw = '''' then [] else filter (\<lambda>x. x \<noteq> '''') (map TrimSpace (Split (CHR '','') raw)))"

fun cidr_loop :: "config_lib \<Rightarrow> string \<Rightarrow> string list \<Rightarrow> unit cres" where
  "cidr_loop lib name [] = Inr ()"
| "cidr_loop lib name (entry # rest) =
     (case cl_ParsePrefix lib entry of
        Some bits \<Rightarrow>
          if bits = 0
          then cerror (name @ '' entry '' @ Quote (cl_IsPrint lib) entry @ '' is the default route, which would trust every client as a proxy'')
          else cidr_loop lib name rest
      | None \<Rightarrow>
          if \<not> cl_ParseAddr lib entry
          then cerror (name @ '' entry '' @ Quote (cl_IsPrint lib) entry @ '' is not a valid CIDR or IP address'')
          else cidr_loop lib name rest)"

definition parseCIDRList :: "config_lib \<Rightarrow> env \<Rightarrow> string \<Rightarrow> string list cres" where
  "parseCIDRList lib e name =
     (let raw = parseCommaSeparated e name in
      if raw = [] then Inr []
      else case cidr_loop lib name raw of Inl err \<Rightarrow> Inl err | Inr _ \<Rightarrow> Inr raw)"

definition validateAddr :: "config_lib \<Rightarrow> string \<Rightarrow> string option" where
  "validateAddr lib raw =
     (case cl_SplitHostPort lib raw of
        Inl err \<Rightarrow> Some (''must be a host:port address: '' @ err)
      | Inr (host, port) \<Rightarrow>
          (case Atoi port of
             None \<Rightarrow> Some (''port '' @ Quote (cl_IsPrint lib) port @ '' is not a valid integer'')
           | Some p \<Rightarrow> if p < 1 \<or> p > 65535 then Some (''port '' @ Itoa p @ '' is out of range (1'' @ [CHR 0xE2, CHR 0x80, CHR 0x93] @ ''65535)'') else None))"

definition validateLinkPublicBaseURL :: "config_lib \<Rightarrow> string \<Rightarrow> string option" where
  "validateLinkPublicBaseURL lib raw =
     (if raw = '''' then Some ''config: LINK_PUBLIC_BASE_URL is required when LINK_SHORTENING_ENABLED=true''
      else case cl_url_Parse lib raw of
        Inl err \<Rightarrow> Some (''config: LINK_PUBLIC_BASE_URL is not a valid URL: '' @ err)
      | Inr (scheme, host) \<Rightarrow>
          if scheme \<noteq> ''http'' \<and> scheme \<noteq> ''https''
          then Some (''config: LINK_PUBLIC_BASE_URL must be an absolute http(s) URL, got '' @ Quote (cl_IsPrint lib) raw)
          else if host = ''''
          then Some (''config: LINK_PUBLIC_BASE_URL must include a host, got '' @ Quote (cl_IsPrint lib) raw)
          else None)"


subsection \<open>The configuration\<close>

definition Hour :: duration where
  "Hour = 60 * Minute"

definition defaultAddr :: string where "defaultAddr = '':8080''"
definition defaultReadTimeout :: duration where "defaultReadTimeout = 5 * Second"
definition defaultWriteTimeout :: duration where "defaultWriteTimeout = 10 * Second"
definition defaultIdleTimeout :: duration where "defaultIdleTimeout = 60 * Second"
definition defaultShutdownTimeout :: duration where "defaultShutdownTimeout = 10 * Second"
definition defaultLogLevel :: log_level where "defaultLogLevel = LogInfo"
definition defaultDotenvPath :: string where "defaultDotenvPath = ''.env''"
definition defaultDBMaxOpenConns :: int where "defaultDBMaxOpenConns = 25"
definition defaultDBMaxIdleConns :: int where "defaultDBMaxIdleConns = 25"
definition defaultDBConnMaxLife :: duration where "defaultDBConnMaxLife = 5 * Minute"
definition defaultDBCallTimeout :: duration where "defaultDBCallTimeout = 5 * Second"
definition defaultStorageCallTO :: duration where "defaultStorageCallTO = 30 * Second"
definition defaultDBAutoMigrate :: bool where "defaultDBAutoMigrate = True"
definition defaultAuthSessionTTL :: duration where "defaultAuthSessionTTL = 24 * Hour"
definition defaultAuthMaxSessionsPerUser :: int where "defaultAuthMaxSessionsPerUser = 10"
definition defaultHSTSMaxAge :: duration where "defaultHSTSMaxAge = 365 * 24 * Hour"
definition defaultCookieInsecure :: bool where "defaultCookieInsecure = False"
definition defaultLinkShorteningEnabled :: bool where "defaultLinkShorteningEnabled = False"
definition defaultRateLimitBurst :: int where "defaultRateLimitBurst = 60"
definition defaultRateLimitPerSec :: float64 where "defaultRateLimitPerSec = Finite 20 0"
definition defaultAuthRateLimitBurst :: int where "defaultAuthRateLimitBurst = 10"
definition defaultAuthRateLimitPer :: float64 where "defaultAuthRateLimitPer = Finite 3602879701896397 (- 56)"
definition defaultUserRateLimitBurst :: int where "defaultUserRateLimitBurst = 120"
definition defaultUserRateLimitPer :: float64 where "defaultUserRateLimitPer = Finite 40 0"
definition defaultAttachmentMaxBytes :: int where "defaultAttachmentMaxBytes = 10 * 2 ^ 20"
definition defaultAttachmentMaxBytesPerUser :: int where "defaultAttachmentMaxBytesPerUser = 500 * 2 ^ 20"
definition defaultAttachmentOrphanMinAge :: duration where "defaultAttachmentOrphanMinAge = 1 * Hour"
definition defaultRedisUseTLS :: bool where "defaultRedisUseTLS = False"
definition defaultRedisCacheTTL :: duration where "defaultRedisCacheTTL = 5 * Minute"
definition defaultRedisCacheL1TTL :: duration where "defaultRedisCacheL1TTL = 5 * Second"

lemmas default_defs = Hour_def duration_defs defaultAddr_def defaultReadTimeout_def defaultWriteTimeout_def defaultIdleTimeout_def
  defaultShutdownTimeout_def defaultLogLevel_def defaultDotenvPath_def defaultDBMaxOpenConns_def defaultDBMaxIdleConns_def
  defaultDBConnMaxLife_def defaultDBCallTimeout_def defaultStorageCallTO_def defaultDBAutoMigrate_def defaultAuthSessionTTL_def
  defaultAuthMaxSessionsPerUser_def defaultHSTSMaxAge_def defaultCookieInsecure_def defaultLinkShorteningEnabled_def
  defaultRateLimitBurst_def defaultRateLimitPerSec_def defaultAuthRateLimitBurst_def defaultAuthRateLimitPer_def
  defaultUserRateLimitBurst_def defaultUserRateLimitPer_def defaultAttachmentMaxBytes_def defaultAttachmentMaxBytesPerUser_def
  defaultAttachmentOrphanMinAge_def defaultRedisUseTLS_def defaultRedisCacheTTL_def defaultRedisCacheL1TTL_def

record config =
  cf_Addr :: string
  cf_ReadTimeout :: duration
  cf_WriteTimeout :: duration
  cf_IdleTimeout :: duration
  cf_ShutdownTimeout :: duration
  cf_PreShutdownDelay :: duration
  cf_LogLevel :: log_level
  cf_DatabaseURL :: string
  cf_DBMaxOpenConns :: int
  cf_DBMaxIdleConns :: int
  cf_DBConnMaxLifetime :: duration
  cf_DBCallTimeout :: duration
  cf_StorageCallTimeout :: duration
  cf_DBAutoMigrate :: bool
  cf_AuthSessionTTL :: duration
  cf_AuthMaxSessionsPerUser :: int
  cf_CORSAllowedOrigins :: "string list"
  cf_HSTSMaxAge :: duration
  cf_TrustedProxies :: "string list"
  cf_AttachmentStorageDir :: string
  cf_AttachmentMaxBytes :: int
  cf_AttachmentMaxBytesPerUser :: int
  cf_AttachmentS3Endpoint :: string
  cf_AttachmentS3Bucket :: string
  cf_AttachmentS3AccessKey :: string
  cf_AttachmentS3SecretKey :: string
  cf_AttachmentS3Region :: string
  cf_AttachmentS3UseSSL :: bool
  cf_AttachmentOrphanMinAge :: duration
  cf_RateLimitBurst :: int
  cf_RateLimitPerSec :: float64
  cf_AuthRateLimitBurst :: int
  cf_AuthRateLimitPerSec :: float64
  cf_UserRateLimitBurst :: int
  cf_UserRateLimitPerSec :: float64
  cf_CrierOTLPEndpoint :: string
  cf_CSRFSecret :: string
  cf_CookieInsecure :: bool
  cf_LinkShorteningEnabled :: bool
  cf_LinkPublicBaseURL :: string
  cf_RedisAddr :: string
  cf_RedisUsername :: string
  cf_RedisPassword :: string
  cf_RedisUseTLS :: bool
  cf_RedisCacheTTL :: duration
  cf_RedisCacheL1TTL :: duration

text \<open>The value \<^verbatim>\<open>Load\<close> starts from; the fields it does not name are zero values.\<close>

definition initial_config :: config where
  "initial_config = \<lparr>cf_Addr = defaultAddr, cf_ReadTimeout = defaultReadTimeout, cf_WriteTimeout = defaultWriteTimeout,
     cf_IdleTimeout = defaultIdleTimeout, cf_ShutdownTimeout = defaultShutdownTimeout, cf_PreShutdownDelay = 0, cf_LogLevel = defaultLogLevel,
     cf_DatabaseURL = '''', cf_DBMaxOpenConns = defaultDBMaxOpenConns, cf_DBMaxIdleConns = defaultDBMaxIdleConns,
     cf_DBConnMaxLifetime = defaultDBConnMaxLife, cf_DBCallTimeout = defaultDBCallTimeout, cf_StorageCallTimeout = defaultStorageCallTO,
     cf_DBAutoMigrate = defaultDBAutoMigrate, cf_AuthSessionTTL = defaultAuthSessionTTL,
     cf_AuthMaxSessionsPerUser = defaultAuthMaxSessionsPerUser, cf_CORSAllowedOrigins = [], cf_HSTSMaxAge = defaultHSTSMaxAge,
     cf_TrustedProxies = [], cf_AttachmentStorageDir = '''', cf_AttachmentMaxBytes = 0, cf_AttachmentMaxBytesPerUser = 0,
     cf_AttachmentS3Endpoint = '''', cf_AttachmentS3Bucket = '''', cf_AttachmentS3AccessKey = '''', cf_AttachmentS3SecretKey = '''',
     cf_AttachmentS3Region = '''', cf_AttachmentS3UseSSL = False, cf_AttachmentOrphanMinAge = 0, cf_RateLimitBurst = 0,
     cf_RateLimitPerSec = Finite 0 0, cf_AuthRateLimitBurst = 0, cf_AuthRateLimitPerSec = Finite 0 0, cf_UserRateLimitBurst = 0,
     cf_UserRateLimitPerSec = Finite 0 0, cf_CrierOTLPEndpoint = '''', cf_CSRFSecret = '''', cf_CookieInsecure = False,
     cf_LinkShorteningEnabled = False, cf_LinkPublicBaseURL = '''', cf_RedisAddr = '''', cf_RedisUsername = '''', cf_RedisPassword = '''',
     cf_RedisUseTLS = False, cf_RedisCacheTTL = 0, cf_RedisCacheL1TTL = 0\<rparr>"

subsection \<open>Load\<close>

text \<open>A step of \<^verbatim>\<open>Load\<close> assigns fields or returns an error; the first error ends it.\<close>

type_synonym cfg_step = "config \<Rightarrow> config cres"

definition setting :: "'a cres \<Rightarrow> ('a \<Rightarrow> config \<Rightarrow> config) \<Rightarrow> cfg_step" where
  "setting p upd cfg = (case p of Inl err \<Rightarrow> Inl err | Inr x \<Rightarrow> Inr (upd x cfg))"

definition assign :: "(config \<Rightarrow> config) \<Rightarrow> cfg_step" where
  "assign upd cfg = Inr (upd cfg)"

fun run_steps :: "cfg_step list \<Rightarrow> cfg_step" where
  "run_steps [] cfg = Inr cfg"
| "run_steps (s # ss) cfg = (case s cfg of Inl err \<Rightarrow> Inl err | Inr cfg' \<Rightarrow> run_steps ss cfg')"

fun Contains :: "string \<Rightarrow> string \<Rightarrow> bool" where
  "Contains sub [] = (sub = [])"
| "Contains sub (c # cs) = (take (length sub) (c # cs) = sub \<or> Contains sub cs)"

definition TrimRight :: "char \<Rightarrow> string \<Rightarrow> string" where
  "TrimRight c s = rev (dropWhile (\<lambda>x. x = c) (rev s))"

fun required_loop :: "(string \<times> string) list \<Rightarrow> unit cres" where
  "required_loop [] = Inr ()"
| "required_loop ((name, v) # rest) =
     (if TrimSpace v = '''' then cerror (name @ '' is required when ATTACHMENT_S3_ENDPOINT is set'') else required_loop rest)"

definition parseAttachmentS3 :: "config_lib \<Rightarrow> env \<Rightarrow> cfg_step" where
  "parseAttachmentS3 lib e cfg0 =
     (let cfg1 = cfg0\<lparr>cf_AttachmentS3Endpoint := TrimSpace (Getenv e ''ATTACHMENT_S3_ENDPOINT'')\<rparr> in
      if cf_AttachmentS3Endpoint cfg1 = '''' then Inr cfg1
      else let cfg2 = cfg1\<lparr>cf_AttachmentS3Bucket := TrimSpace (Getenv e ''ATTACHMENT_S3_BUCKET''),
                  cf_AttachmentS3AccessKey := TrimSpace (Getenv e ''ATTACHMENT_S3_ACCESS_KEY''),
                  cf_AttachmentS3SecretKey := Getenv e ''ATTACHMENT_S3_SECRET_KEY'',
                  cf_AttachmentS3Region := TrimSpace (Getenv e ''ATTACHMENT_S3_REGION'')\<rparr> in
      if Contains ''://'' (cf_AttachmentS3Endpoint cfg2)
      then cerror ''ATTACHMENT_S3_ENDPOINT must be host[:port] without a scheme; use ATTACHMENT_S3_USE_SSL to choose https''
      else case required_loop
          [(''ATTACHMENT_S3_BUCKET'', cf_AttachmentS3Bucket cfg2), (''ATTACHMENT_S3_ACCESS_KEY'', cf_AttachmentS3AccessKey cfg2),
           (''ATTACHMENT_S3_SECRET_KEY'', cf_AttachmentS3SecretKey cfg2)] of
        Inl err \<Rightarrow> Inl err
      | Inr _ \<Rightarrow>
      (case parseBool lib e ''ATTACHMENT_S3_USE_SSL'' True of
         Inl err \<Rightarrow> Inl err
       | Inr useSSL \<Rightarrow> Inr (cfg2\<lparr>cf_AttachmentS3UseSSL := useSSL\<rparr>)))"

definition load_addr :: "config_lib \<Rightarrow> env \<Rightarrow> cfg_step" where
  "load_addr lib e cfg =
     (let raw = Getenv e ''HTTP_ADDR'' in
      if raw \<noteq> '''' then
        (case validateAddr lib raw of
           Some err \<Rightarrow> cerror (''HTTP_ADDR '' @ Quote (cl_IsPrint lib) raw @ '' is invalid: '' @ err)
         | None \<Rightarrow> Inr (cfg\<lparr>cf_Addr := raw\<rparr>))
      else Inr cfg)"

definition one_backend :: cfg_step where
  "one_backend cfg =
     (if cf_AttachmentStorageDir cfg \<noteq> '''' \<and> cf_AttachmentS3Endpoint cfg \<noteq> ''''
      then cerror ''ATTACHMENT_STORAGE_DIR and ATTACHMENT_S3_ENDPOINT are both set; choose one attachment backend''
      else Inr cfg)"

definition link_checked :: "config_lib \<Rightarrow> cfg_step" where
  "link_checked lib cfg =
     (if cf_LinkShorteningEnabled cfg then
        (case validateLinkPublicBaseURL lib (cf_LinkPublicBaseURL cfg) of Some err \<Rightarrow> Inl err | None \<Rightarrow> Inr cfg)
      else Inr cfg)"

definition l1_within :: "config_lib \<Rightarrow> cfg_step" where
  "l1_within lib cfg =
     (if cf_RedisCacheL1TTL cfg > cf_RedisCacheTTL cfg
      then cerror (''REDIS_CACHE_L1_TTL ('' @ cl_DurationString lib (cf_RedisCacheL1TTL cfg) @ '') must not exceed REDIS_CACHE_TTL ('' @
             cl_DurationString lib (cf_RedisCacheTTL cfg) @ '')'')
      else Inr cfg)"

definition load_steps :: "config_lib \<Rightarrow> env \<Rightarrow> cfg_step list" where
  "load_steps lib e =
     [load_addr lib e,
      setting (parseDuration lib e ''HTTP_READ_TIMEOUT'' defaultReadTimeout) (\<lambda>x c. c\<lparr>cf_ReadTimeout := x\<rparr>),
      setting (parseDuration lib e ''HTTP_WRITE_TIMEOUT'' defaultWriteTimeout) (\<lambda>x c. c\<lparr>cf_WriteTimeout := x\<rparr>),
      setting (parseDuration lib e ''HTTP_IDLE_TIMEOUT'' defaultIdleTimeout) (\<lambda>x c. c\<lparr>cf_IdleTimeout := x\<rparr>),
      setting (parseDuration lib e ''HTTP_SHUTDOWN_TIMEOUT'' defaultShutdownTimeout) (\<lambda>x c. c\<lparr>cf_ShutdownTimeout := x\<rparr>),
      setting (parseNonNegativeDuration lib e ''HTTP_PRE_SHUTDOWN_DELAY'' 0) (\<lambda>x c. c\<lparr>cf_PreShutdownDelay := x\<rparr>),
      setting (parseLogLevel lib e ''LOG_LEVEL'' defaultLogLevel) (\<lambda>x c. c\<lparr>cf_LogLevel := x\<rparr>),
      assign (\<lambda>c. c\<lparr>cf_DatabaseURL := Getenv e ''DATABASE_URL''\<rparr>),
      setting (parsePositiveInt lib e ''DB_MAX_OPEN_CONNS'' defaultDBMaxOpenConns) (\<lambda>x c. c\<lparr>cf_DBMaxOpenConns := x\<rparr>),
      setting (parsePositiveInt lib e ''DB_MAX_IDLE_CONNS'' defaultDBMaxIdleConns) (\<lambda>x c. c\<lparr>cf_DBMaxIdleConns := x\<rparr>),
      setting (parseDuration lib e ''DB_CONN_MAX_LIFETIME'' defaultDBConnMaxLife) (\<lambda>x c. c\<lparr>cf_DBConnMaxLifetime := x\<rparr>),
      setting (parseDuration lib e ''DB_CALL_TIMEOUT'' defaultDBCallTimeout) (\<lambda>x c. c\<lparr>cf_DBCallTimeout := x\<rparr>),
      setting (parseDuration lib e ''STORAGE_CALL_TIMEOUT'' defaultStorageCallTO) (\<lambda>x c. c\<lparr>cf_StorageCallTimeout := x\<rparr>),
      setting (parseBool lib e ''DB_AUTO_MIGRATE'' defaultDBAutoMigrate) (\<lambda>x c. c\<lparr>cf_DBAutoMigrate := x\<rparr>),
      setting (parseDuration lib e ''AUTH_SESSION_TTL'' defaultAuthSessionTTL) (\<lambda>x c. c\<lparr>cf_AuthSessionTTL := x\<rparr>),
      setting (parsePositiveInt lib e ''AUTH_MAX_SESSIONS_PER_USER'' defaultAuthMaxSessionsPerUser) (\<lambda>x c. c\<lparr>cf_AuthMaxSessionsPerUser := x\<rparr>),
      assign (\<lambda>c. c\<lparr>cf_CORSAllowedOrigins := parseCommaSeparated e ''CORS_ALLOWED_ORIGINS''\<rparr>),
      setting (parseNonNegativeDuration lib e ''HSTS_MAX_AGE'' defaultHSTSMaxAge) (\<lambda>x c. c\<lparr>cf_HSTSMaxAge := x\<rparr>),
      assign (\<lambda>c. c\<lparr>cf_CrierOTLPEndpoint := TrimSpace (Getenv e ''CRIER_OTLP_ENDPOINT'')\<rparr>),
      assign (\<lambda>c. c\<lparr>cf_CSRFSecret := Getenv e ''CSRF_SECRET''\<rparr>),
      setting (parseBool lib e ''COOKIE_INSECURE'' defaultCookieInsecure) (\<lambda>x c. c\<lparr>cf_CookieInsecure := x\<rparr>),
      assign (\<lambda>c. c\<lparr>cf_AttachmentStorageDir := TrimSpace (Getenv e ''ATTACHMENT_STORAGE_DIR'')\<rparr>),
      parseAttachmentS3 lib e,
      one_backend,
      setting (parsePositiveInt64 lib e ''ATTACHMENT_MAX_BYTES'' defaultAttachmentMaxBytes) (\<lambda>x c. c\<lparr>cf_AttachmentMaxBytes := x\<rparr>),
      setting (parsePositiveInt64 lib e ''ATTACHMENT_MAX_BYTES_PER_USER'' defaultAttachmentMaxBytesPerUser)
        (\<lambda>x c. c\<lparr>cf_AttachmentMaxBytesPerUser := x\<rparr>),
      setting (parseDuration lib e ''ATTACHMENT_ORPHAN_MIN_AGE'' defaultAttachmentOrphanMinAge) (\<lambda>x c. c\<lparr>cf_AttachmentOrphanMinAge := x\<rparr>),
      setting (parseCIDRList lib e ''TRUSTED_PROXIES'') (\<lambda>x c. c\<lparr>cf_TrustedProxies := x\<rparr>),
      setting (parsePositiveInt lib e ''RATE_LIMIT_BURST'' defaultRateLimitBurst) (\<lambda>x c. c\<lparr>cf_RateLimitBurst := x\<rparr>),
      setting (parsePositiveFloat lib e ''RATE_LIMIT_PER_SEC'' defaultRateLimitPerSec) (\<lambda>x c. c\<lparr>cf_RateLimitPerSec := x\<rparr>),
      setting (parsePositiveInt lib e ''AUTH_RATE_LIMIT_BURST'' defaultAuthRateLimitBurst) (\<lambda>x c. c\<lparr>cf_AuthRateLimitBurst := x\<rparr>),
      setting (parsePositiveFloat lib e ''AUTH_RATE_LIMIT_PER_SEC'' defaultAuthRateLimitPer) (\<lambda>x c. c\<lparr>cf_AuthRateLimitPerSec := x\<rparr>),
      setting (parsePositiveInt lib e ''USER_RATE_LIMIT_BURST'' defaultUserRateLimitBurst) (\<lambda>x c. c\<lparr>cf_UserRateLimitBurst := x\<rparr>),
      setting (parsePositiveFloat lib e ''USER_RATE_LIMIT_PER_SEC'' defaultUserRateLimitPer) (\<lambda>x c. c\<lparr>cf_UserRateLimitPerSec := x\<rparr>),
      setting (parseBool lib e ''LINK_SHORTENING_ENABLED'' defaultLinkShorteningEnabled) (\<lambda>x c. c\<lparr>cf_LinkShorteningEnabled := x\<rparr>),
      assign (\<lambda>c. c\<lparr>cf_LinkPublicBaseURL := TrimRight (CHR ''/'') (TrimSpace (Getenv e ''LINK_PUBLIC_BASE_URL''))\<rparr>),
      link_checked lib,
      assign (\<lambda>c. c\<lparr>cf_RedisAddr := TrimSpace (Getenv e ''REDIS_ADDR''), cf_RedisUsername := TrimSpace (Getenv e ''REDIS_USERNAME''),
        cf_RedisPassword := Getenv e ''REDIS_PASSWORD''\<rparr>),
      setting (parseBool lib e ''REDIS_USE_TLS'' defaultRedisUseTLS) (\<lambda>x c. c\<lparr>cf_RedisUseTLS := x\<rparr>),
      setting (parseDuration lib e ''REDIS_CACHE_TTL'' defaultRedisCacheTTL) (\<lambda>x c. c\<lparr>cf_RedisCacheTTL := x\<rparr>),
      setting (parseDuration lib e ''REDIS_CACHE_L1_TTL'' defaultRedisCacheL1TTL) (\<lambda>x c. c\<lparr>cf_RedisCacheL1TTL := x\<rparr>),
      l1_within lib]"

text \<open>\<open>file\<close> opens the \<^verbatim>\<open>.env\<close> file of a path; the environment keeps what it sets.\<close>

definition Load :: "config_lib \<Rightarrow> (string \<Rightarrow> dotenv_file) \<Rightarrow> env \<Rightarrow> config cres \<times> env" where
  "Load lib dotfile e =
     (let dotenvPath = (if Getenv e ''DOTENV_PATH'' \<noteq> '''' then Getenv e ''DOTENV_PATH'' else defaultDotenvPath) in
      case loadDotEnv (dotfile dotenvPath) e of
        (Some err, e1) \<Rightarrow> (cerror (''failed to load '' @ dotenvPath @ '': '' @ err), e1)
      | (None, e1) \<Rightarrow> (run_steps (load_steps lib e1) initial_config, e1))"


subsection \<open>What Load guarantees\<close>

definition config_ok :: "config_lib \<Rightarrow> config \<Rightarrow> bool" where
  "config_ok lib c \<longleftrightarrow>
     (cf_Addr c = defaultAddr \<or> (\<exists>host port p. cl_SplitHostPort lib (cf_Addr c) = Inr (host, port) \<and> Atoi port = Some p \<and> 1 \<le> p \<and> p \<le> 65535)) \<and>
     0 < cf_ReadTimeout c \<and> 0 < cf_WriteTimeout c \<and> 0 < cf_IdleTimeout c \<and> 0 < cf_ShutdownTimeout c \<and> 0 \<le> cf_PreShutdownDelay c \<and>
     0 < cf_DBMaxOpenConns c \<and> 0 < cf_DBMaxIdleConns c \<and> 0 < cf_DBConnMaxLifetime c \<and> 0 < cf_DBCallTimeout c \<and> 0 < cf_StorageCallTimeout c \<and>
     0 < cf_AuthSessionTTL c \<and> 0 < cf_AuthMaxSessionsPerUser c \<and> 0 \<le> cf_HSTSMaxAge c \<and>
     0 < cf_AttachmentMaxBytes c \<and> cf_AttachmentMaxBytes c < 2 ^ 63 \<and> 0 < cf_AttachmentMaxBytesPerUser c \<and> 0 < cf_AttachmentOrphanMinAge c \<and>
     (cf_AttachmentStorageDir c = '''' \<or> cf_AttachmentS3Endpoint c = '''') \<and>
     (cf_AttachmentS3Endpoint c \<noteq> '''' \<longrightarrow> \<not> Contains ''://'' (cf_AttachmentS3Endpoint c) \<and> TrimSpace (cf_AttachmentS3Bucket c) \<noteq> '''' \<and>
        TrimSpace (cf_AttachmentS3AccessKey c) \<noteq> '''' \<and> TrimSpace (cf_AttachmentS3SecretKey c) \<noteq> '''') \<and>
     (\<forall>entry \<in> set (cf_TrustedProxies c). cl_ParsePrefix lib entry \<noteq> Some 0 \<and> (cl_ParsePrefix lib entry = None \<longrightarrow> cl_ParseAddr lib entry)) \<and>
     0 < cf_RateLimitBurst c \<and> 0 < cf_AuthRateLimitBurst c \<and> 0 < cf_UserRateLimitBurst c \<and>
     float_positive (cf_RateLimitPerSec c) \<and> float_positive (cf_AuthRateLimitPerSec c) \<and> float_positive (cf_UserRateLimitPerSec c) \<and>
     (cf_LinkShorteningEnabled c \<longrightarrow> (\<exists>scheme host. cl_url_Parse lib (cf_LinkPublicBaseURL c) = Inr (scheme, host) \<and>
        scheme \<in> {''http'', ''https''} \<and> host \<noteq> '''')) \<and>
     0 < cf_RedisCacheL1TTL c \<and> cf_RedisCacheL1TTL c \<le> cf_RedisCacheTTL c"

lemma run_steps_Cons: "run_steps (s # ss) c = Inr c' \<longleftrightarrow> (\<exists>c1. s c = Inr c1 \<and> run_steps ss c1 = Inr c')"
  by (auto split: sum.splits)

lemma setting_Inr: "setting p upd c = Inr c' \<longleftrightarrow> (\<exists>x. p = Inr x \<and> c' = upd x c)"
  by (auto simp: setting_def split: sum.splits)

lemma assign_Inr: "assign upd c = Inr c' \<longleftrightarrow> c' = upd c"
  by (auto simp: assign_def)

lemma parse_Inr:
  "parseDuration lib e n d = Inr x \<Longrightarrow> 0 < d \<Longrightarrow> 0 < x"
  "parseNonNegativeDuration lib e n d = Inr x \<Longrightarrow> 0 \<le> d \<Longrightarrow> 0 \<le> x"
  "parsePositiveInt lib e n i = Inr j \<Longrightarrow> 0 < i \<Longrightarrow> 0 < j"
  "parsePositiveInt64 lib e n i = Inr j \<Longrightarrow> 0 < i \<Longrightarrow> i < 2 ^ 63 \<Longrightarrow> 0 < j \<and> j < 2 ^ 63"
  "parsePositiveFloat lib e n f = Inr g \<Longrightarrow> float_positive f \<Longrightarrow> float_positive g"
  using Atoi_range
  by (auto simp: parseDuration_def parseNonNegativeDuration_def parsePositiveInt_def parsePositiveInt64_def parsePositiveFloat_def cerror_def Let_def
      split: if_splits sum.splits option.splits)

lemma cidr_loop_Inr:
  "cidr_loop lib n entries = Inr () \<Longrightarrow> entry \<in> set entries \<Longrightarrow>
     cl_ParsePrefix lib entry \<noteq> Some 0 \<and> (cl_ParsePrefix lib entry = None \<longrightarrow> cl_ParseAddr lib entry)"
  by (induction lib n entries rule: cidr_loop.induct) (auto simp: cerror_def split: option.splits if_splits)

lemma parseCIDRList_Inr:
  "parseCIDRList lib e n = Inr entries \<Longrightarrow> entry \<in> set entries \<Longrightarrow>
     cl_ParsePrefix lib entry \<noteq> Some 0 \<and> (cl_ParsePrefix lib entry = None \<longrightarrow> cl_ParseAddr lib entry)"
  using cidr_loop_Inr [of lib n entries] by (auto simp: parseCIDRList_def Let_def split: if_splits sum.splits)

lemma validateAddr_None:
  "validateAddr lib raw = None \<Longrightarrow> \<exists>host port p. cl_SplitHostPort lib raw = Inr (host, port) \<and> Atoi port = Some p \<and> 1 \<le> p \<and> p \<le> 65535"
  by (auto simp: validateAddr_def split: sum.splits option.splits if_splits)

lemma validateLink_None:
  "validateLinkPublicBaseURL lib raw = None \<Longrightarrow> \<exists>scheme host. cl_url_Parse lib raw = Inr (scheme, host) \<and> scheme \<in> {''http'', ''https''} \<and> host \<noteq> ''''"
  by (auto simp: validateLinkPublicBaseURL_def split: sum.splits if_splits)


lemma load_addr_Inr:
  "load_addr lib e c = Inr c' \<longleftrightarrow> (\<exists>a. c' = c\<lparr>cf_Addr := a\<rparr> \<and>
     (if Getenv e ''HTTP_ADDR'' = '''' then a = cf_Addr c else a = Getenv e ''HTTP_ADDR'' \<and> validateAddr lib a = None))"
  by (auto simp: load_addr_def cerror_def Let_def split: option.splits)

lemma one_backend_Inr: "one_backend c = Inr c' \<longleftrightarrow> c' = c \<and> (cf_AttachmentStorageDir c = '''' \<or> cf_AttachmentS3Endpoint c = '''')"
  by (auto simp: one_backend_def cerror_def)

lemma link_checked_Inr:
  "link_checked lib c = Inr c' \<longleftrightarrow> c' = c \<and> (cf_LinkShorteningEnabled c \<longrightarrow> validateLinkPublicBaseURL lib (cf_LinkPublicBaseURL c) = None)"
  by (auto simp: link_checked_def split: option.splits)

lemma l1_within_Inr: "l1_within lib c = Inr c' \<longleftrightarrow> c' = c \<and> cf_RedisCacheL1TTL c \<le> cf_RedisCacheTTL c"
  by (auto simp: l1_within_def cerror_def)

lemma parseAttachmentS3_Inr:
  assumes "parseAttachmentS3 lib e c = Inr c'"
  shows "\<exists>ep bucket ak sk region ssl. c' = c\<lparr>cf_AttachmentS3Endpoint := ep, cf_AttachmentS3Bucket := bucket, cf_AttachmentS3AccessKey := ak,
      cf_AttachmentS3SecretKey := sk, cf_AttachmentS3Region := region, cf_AttachmentS3UseSSL := ssl\<rparr> \<and>
    (ep \<noteq> '''' \<longrightarrow> \<not> Contains ''://'' ep \<and> TrimSpace bucket \<noteq> '''' \<and> TrimSpace ak \<noteq> '''' \<and> TrimSpace sk \<noteq> '''')"
proof (cases "TrimSpace (Getenv e ''ATTACHMENT_S3_ENDPOINT'') = ''''")
  case True
  then have "c' = c\<lparr>cf_AttachmentS3Endpoint := ''''\<rparr>" using assms by (simp add: parseAttachmentS3_def Let_def)
  then have "c' = c\<lparr>cf_AttachmentS3Endpoint := '''', cf_AttachmentS3Bucket := cf_AttachmentS3Bucket c, cf_AttachmentS3AccessKey := cf_AttachmentS3AccessKey c,
      cf_AttachmentS3SecretKey := cf_AttachmentS3SecretKey c, cf_AttachmentS3Region := cf_AttachmentS3Region c,
      cf_AttachmentS3UseSSL := cf_AttachmentS3UseSSL c\<rparr>" by simp
  then show ?thesis by blast
next
  case False
  with assms obtain ssl where "c' = c\<lparr>cf_AttachmentS3Endpoint := TrimSpace (Getenv e ''ATTACHMENT_S3_ENDPOINT''),
      cf_AttachmentS3Bucket := TrimSpace (Getenv e ''ATTACHMENT_S3_BUCKET''), cf_AttachmentS3AccessKey := TrimSpace (Getenv e ''ATTACHMENT_S3_ACCESS_KEY''),
      cf_AttachmentS3SecretKey := Getenv e ''ATTACHMENT_S3_SECRET_KEY'', cf_AttachmentS3Region := TrimSpace (Getenv e ''ATTACHMENT_S3_REGION''),
      cf_AttachmentS3UseSSL := ssl\<rparr>" "\<not> Contains ''://'' (TrimSpace (Getenv e ''ATTACHMENT_S3_ENDPOINT''))"
    "TrimSpace (TrimSpace (Getenv e ''ATTACHMENT_S3_BUCKET'')) \<noteq> ''''" "TrimSpace (TrimSpace (Getenv e ''ATTACHMENT_S3_ACCESS_KEY'')) \<noteq> ''''"
    "TrimSpace (Getenv e ''ATTACHMENT_S3_SECRET_KEY'') \<noteq> ''''"
    by (auto simp: parseAttachmentS3_def cerror_def Let_def split: if_splits sum.splits)
  then show ?thesis by blast
qed

lemma run_steps_Nil: "run_steps [] c = Inr c' \<longleftrightarrow> c' = c" by auto

lemmas step_Inr = run_steps_Cons setting_Inr assign_Inr load_addr_Inr one_backend_Inr link_checked_Inr l1_within_Inr

lemma default_pos:
  "0 < defaultReadTimeout" "0 < defaultWriteTimeout" "0 < defaultIdleTimeout" "0 < defaultShutdownTimeout" "0 < defaultDBConnMaxLife"
  "0 < defaultDBCallTimeout" "0 < defaultStorageCallTO" "0 < defaultAuthSessionTTL" "0 < defaultAttachmentOrphanMinAge"
  "0 < defaultRedisCacheTTL" "0 < defaultRedisCacheL1TTL" "0 < defaultDBMaxOpenConns" "0 < defaultDBMaxIdleConns"
  "0 < defaultAuthMaxSessionsPerUser" "0 < defaultRateLimitBurst" "0 < defaultAuthRateLimitBurst" "0 < defaultUserRateLimitBurst"
  by (simp_all add: default_defs)

lemma default_nonneg: "0 \<le> (0 :: duration)" "0 \<le> defaultHSTSMaxAge"
  by (simp_all add: default_defs)

lemma default_rates: "float_positive defaultRateLimitPerSec" "float_positive defaultAuthRateLimitPer" "float_positive defaultUserRateLimitPer"
  by (simp_all add: default_defs)

lemma default_bytes:
  "parsePositiveInt64 lib e n defaultAttachmentMaxBytes = Inr j \<Longrightarrow> 0 < j"
  "parsePositiveInt64 lib e n defaultAttachmentMaxBytes = Inr j \<Longrightarrow> j < 9223372036854775808"
  "parsePositiveInt64 lib e n defaultAttachmentMaxBytesPerUser = Inr j \<Longrightarrow> 0 < j"
  using parse_Inr(4) [of lib e n defaultAttachmentMaxBytes j] parse_Inr(4) [of lib e n defaultAttachmentMaxBytesPerUser j]
  by (simp_all add: default_defs)

lemmas parse_default = default_pos [THEN parse_Inr(1) [rotated]] default_nonneg [THEN parse_Inr(2) [rotated]]
  default_pos [THEN parse_Inr(3) [rotated]] default_rates [THEN parse_Inr(5) [rotated]] default_bytes

lemma addr_ok:
  "(if Getenv e ''HTTP_ADDR'' = '''' then a = cf_Addr initial_config else a = Getenv e ''HTTP_ADDR'' \<and> validateAddr lib a = None) \<Longrightarrow>
   a = defaultAddr \<or> (\<exists>host port. cl_SplitHostPort lib a = Inr (host, port) \<and> (\<exists>p. Atoi port = Some p \<and> 1 \<le> p \<and> p \<le> 65535))"
  using validateAddr_None [of lib a] by (auto simp: initial_config_def split: if_splits)

lemma load_steps_ok:
  assumes "run_steps (load_steps lib e) initial_config = Inr c"
  shows "config_ok lib c"
  using assms [unfolded load_steps_def step_Inr run_steps_Nil]
  apply (elim exE conjE)
  apply (drule parseAttachmentS3_Inr)
  apply (elim exE conjE)
  apply hypsubst
  apply (simp add: config_ok_def)
  apply (intro conjI impI ballI)
  apply (simp_all add: parse_default)
  apply (erule addr_ok)
  apply (drule (1) parseCIDRList_Inr, simp)+
  apply (drule validateLink_None, simp)
  done


text \<open>What the file assigns: the lines that name a variable and that \<^verbatim>\<open>os.Setenv\<close> accepts, in order.\<close>

definition file_vars :: "string list \<Rightarrow> (string \<times> string) list" where
  "file_vars ls = filter (\<lambda>(k, v). CHR 0x00 \<notin> set k \<and> CHR 0x00 \<notin> set v) (List.map_filter parse_line ls)"

definition vars_of :: "dotenv_file \<Rightarrow> (string \<times> string) list" where
  "vars_of f = (case f of FileContent content \<Rightarrow> file_vars (fst (file_lines content)) | _ \<Rightarrow> [])"

lemma file_vars_simps:
  "file_vars [] = []"
  "file_vars (l # ls) = (case parse_line l of None \<Rightarrow> file_vars ls
     | Some (k, v) \<Rightarrow> if CHR 0x00 \<in> set k \<or> CHR 0x00 \<in> set v then file_vars ls else (k, v) # file_vars ls)"
  by (auto simp: file_vars_def map_filter_simps split: option.splits)

lemma dotenv_loop_lookup:
  "map_of (dotenv_loop ls e) k = (case map_of e k of Some v \<Rightarrow> Some v | None \<Rightarrow> map_of (file_vars ls) k)"
proof (induction ls arbitrary: e)
  case Nil
  then show ?case by (simp add: file_vars_simps split: option.split)
next
  case (Cons l ls)
  then show ?case
    by (cases "parse_line l") (auto simp: file_vars_simps Setenv_def update_conv' split: option.splits)
qed

lemma loadDotEnv_lookup:
  "loadDotEnv f e = (err, e') \<Longrightarrow> map_of e' k = (case map_of e k of Some v \<Rightarrow> Some v | None \<Rightarrow> map_of (vars_of f) k)"
  by (auto simp: loadDotEnv_def vars_of_def dotenv_loop_lookup split: dotenv_file.splits prod.splits option.splits)

lemma Load_InrD:
  assumes "Load lib dotfile e = (Inr cfg, e')"
  obtains path where "path = (if Getenv e ''DOTENV_PATH'' \<noteq> '''' then Getenv e ''DOTENV_PATH'' else defaultDotenvPath)"
    "loadDotEnv (dotfile path) e = (None, e')" "run_steps (load_steps lib e') initial_config = Inr cfg"
  using assms by (auto simp: Load_def cerror_def Let_def split: prod.splits option.splits if_splits)

text \<open>
  C34. A configuration that \<^verbatim>\<open>Load\<close> returns is usable as it is, whatever the environment and the \<^verbatim>\<open>.env\<close> file hold: every
  timeout, limit and rate is positive (the two documented exceptions may be zero), the port is in range, at most one
  attachment backend is chosen and an S3 backend is complete, no trusted proxy entry is the default route, short links have
  an absolute public address, and the first cache level never outlives the second. The environment it was read from is the
  one of the process, with the variables it lacks taken from the first line of the file that sets them.
\<close>

theorem Load_well_formed:
  assumes "Load lib dotfile e = (Inr cfg, e')"
    and "path = (if Getenv e ''DOTENV_PATH'' \<noteq> '''' then Getenv e ''DOTENV_PATH'' else defaultDotenvPath)"
  shows "config_ok lib cfg \<and> run_steps (load_steps lib e') initial_config = Inr cfg \<and>
    (\<forall>k. map_of e' k = (case map_of e k of Some v \<Rightarrow> Some v | None \<Rightarrow> map_of (vars_of (dotfile path)) k))"
  using assms(1)
proof (cases rule: Load_InrD)
  case (1 p)
  then have "p = path" using assms(2) by simp
  then show ?thesis using 1 load_steps_ok loadDotEnv_lookup by blast
qed

definition demo_lib :: config_lib where
  "demo_lib = \<lparr>cl_ParseDuration = (\<lambda>s. if s = ''1s'' then Inr Second else Inl ''bad''), cl_DurationString = (\<lambda>_. ''1s''),
     cl_ParseFloat = (\<lambda>_. Inl ''bad''), cl_SplitHostPort = (\<lambda>s. Inr ('''', tl s)), cl_url_Parse = (\<lambda>_. Inl ''bad''),
     cl_ParsePrefix = (\<lambda>_. None), cl_ParseAddr = (\<lambda>_. False), cl_IsPrint = (\<lambda>_. True), cl_lower = (\<lambda>_. [])\<rparr>"

definition demo_file :: dotenv_file where
  "demo_file = FileContent (''DB_MAX_OPEN_CONNS=7'' @ [CHR 0x0A] @ ''DB_MAX_IDLE_CONNS=8'')"

definition demo_environ :: env where
  "demo_environ = [(''DB_MAX_IDLE_CONNS'', ''3''), (''DB_MAX_OPEN_CONNS'', ''7'')]"

text \<open>Two variables in the file, one of them also in the environment, which wins.\<close>

lemma demo_lines:
  "parse_line ''DB_MAX_OPEN_CONNS=7'' = Some (''DB_MAX_OPEN_CONNS'', ''7'')"
  "parse_line ''DB_MAX_IDLE_CONNS=8'' = Some (''DB_MAX_IDLE_CONNS'', ''8'')"
  by (simp_all add: parse_line_def strip_quotes_def go_eval Let_def)

lemma demo_dotenv: "loadDotEnv demo_file [(''DB_MAX_IDLE_CONNS'', ''3'')] = (None, demo_environ)"
  by (simp add: loadDotEnv_def demo_file_def demo_environ_def file_lines_def MaxScanTokenSize_def drop_cr_def demo_lines Setenv_def)

lemma demo_steps:
  "case run_steps (load_steps demo_lib demo_environ) initial_config of
     Inl _ \<Rightarrow> False | Inr cfg \<Rightarrow> cf_DBMaxOpenConns cfg = 7 \<and> cf_DBMaxIdleConns cfg = 3"
  by code_simp

theorem Load_well_formed_witness:
  "\<exists>cfg e'. Load demo_lib (\<lambda>_. demo_file) [(''DB_MAX_IDLE_CONNS'', ''3'')] = (Inr cfg, e') \<and>
     config_ok demo_lib cfg \<and> cf_DBMaxOpenConns cfg = 7 \<and> cf_DBMaxIdleConns cfg = 3"
proof -
  obtain cfg where cfg: "run_steps (load_steps demo_lib demo_environ) initial_config = Inr cfg" "cf_DBMaxOpenConns cfg = 7" "cf_DBMaxIdleConns cfg = 3"
    using demo_steps by (auto split: sum.splits)
  then have "Load demo_lib (\<lambda>_. demo_file) [(''DB_MAX_IDLE_CONNS'', ''3'')] = (Inr cfg, demo_environ)"
    by (simp add: Load_def Let_def demo_dotenv)
  from Load_well_formed [OF this refl] this cfg show ?thesis by blast
qed

end
