(* ===== verification/AttachHandler.thy ===== *)
theory AttachHandler
  imports AccountDeletion
begin

text \<open>
  The HTTP face of the attachments (\<^verbatim>\<open>internal/attachment/handler.go\<close>): the streaming upload, the listing, the
  deletion, the download with its range requests, the mapping of errors and the routes behind
  \<^verbatim>\<open>requireAuth\<close>. A multipart body is what \<^verbatim>\<open>mime/multipart\<close> makes of it under the limit the
  handler sets: not multipart, or the parts in their order and whether the body ends properly after
  them. Of \<^verbatim>\<open>http.ServeContent\<close> the answer to a plain and to a range request is modelled; the preconditions
  (\<^verbatim>\<open>If-Modified-Since\<close> and its kin) are taken to be absent from the request.
\<close>

declare map_of_eq_Some_iff [simp del] Some_eq_map_of_iff [simp del]

subsection \<open>Requests\<close>

record part =
  pt_FormName :: string
  pt_FileName :: string
  pt_Body :: reader

datatype multipart = NotMultipart | Multipart "part list" bool

text \<open>\<open>aq_Body n\<close>: the body as the parser sees it when reading stops with an error after \<open>n\<close> bytes.\<close>

record attach_request =
  aq_Method :: string
  aq_Segments :: "string list"
  aq_Range :: string
  aq_Body :: "int \<Rightarrow> multipart"

definition multipartMemoryBytes :: int where
  "multipartMemoryBytes = 2 ^ 20"

definition fileFormField :: string where
  "fileFormField = ''file''"

definition attachment_json :: "attachment \<Rightarrow> json" where
  "attachment_json a = JObject
     [(''id'', JString (a_ID a)), (''task_id'', JString (a_TaskID a)), (''original_filename'', JString (a_OriginalFilename a)),
      (''storage_key'', JString (a_StorageKey a)), (''content_type'', JString (a_ContentType a)),
      (''size_bytes'', JInt (a_SizeBytes a)), (''created_at'', JTime (a_CreatedAt a))]"

definition awriteError :: "(string, string) gomap \<Rightarrow> nat \<Rightarrow> string \<Rightarrow> http_response" where
  "awriteError hdr status msg = writeJSON hdr status (JObject [(''error'', JString msg)])"

definition ahandleServiceError :: "(att_err \<Rightarrow> string) \<Rightarrow> aerr \<Rightarrow> http_response" where
  "ahandleServiceError texts err =
     (if errors_Is err AErrNotFound then awriteError [] 404 ''attachment not found''
      else if errors_Is err AErrTaskNotFound then awriteError [] 404 ''task not found''
      else if errors_Is err AErrInvalidInput then awriteError [] 400 (error_text texts err)
      else if errors_Is err AErrAlreadyExists
      then logged LogError ''attachment identifier collision'' (awriteError [] 500 ''internal server error'')
      else if errors_Is err AErrDependencyUnavailable
      then logged LogError ''dependency unavailable'' (awriteError [] 503 ''service temporarily unavailable, please retry'')
      else if errors_Is err AErrUnavailable
      then logged LogWarn ''attachment store circuit open, call rejected''
             (awriteError
                (case errors_As_RetryAfter err of
                   Some d \<Rightarrow> [(''Retry-After'', Itoa (whole_seconds d))]
                 | None \<Rightarrow> [])
                503 ''attachment storage temporarily unavailable, please retry'')
      else logged LogError ''unexpected service error'' (awriteError [] 500 ''internal server error''))"

subsection \<open>http.ServeContent\<close>

text \<open>\<^verbatim>\<open>time.Time\<close> in \<^verbatim>\<open>http.TimeFormat\<close>; 1970-01-01 was a Thursday.\<close>

definition weekdays :: "string list" where
  "weekdays = [''Thu'', ''Fri'', ''Sat'', ''Sun'', ''Mon'', ''Tue'', ''Wed'']"

definition months :: "string list" where
  "months = [''Jan'', ''Feb'', ''Mar'', ''Apr'', ''May'', ''Jun'', ''Jul'', ''Aug'', ''Sep'', ''Oct'', ''Nov'', ''Dec'']"

definition format_http :: "time \<Rightarrow> string" where
  "format_http t =
     (let day = seconds_of t div 86400; sec = seconds_of t mod 86400 in
      case civil day of (y, m, d) \<Rightarrow>
        weekdays ! nat (day mod 7) @ '', '' @ padded 2 d @ '' '' @ months ! nat (m - 1) @ '' '' @ padded 4 y @ '' '' @
        padded 2 (sec div 3600) @ '':'' @ padded 2 (sec div 60 mod 60) @ '':'' @ padded 2 (sec mod 60) @ '' GMT'')"

text \<open>
  \<^verbatim>\<open>parseRange\<close>: one range as \<open>Inr (Some (start, length))\<close>, \<open>Inr None\<close> for one that starts
  beyond the content, \<open>Inl ()\<close> when it is malformed; then the list of them.
\<close>

definition trim_ws :: "string \<Rightarrow> string" where
  "trim_ws s = (let ws = (\<lambda>c. c \<in> {CHR '' '', CHR 0x09, CHR 0x0A, CHR 0x0D}) in rev (dropWhile ws (rev (dropWhile ws s))))"

definition parse_one_range :: "int \<Rightarrow> string \<Rightarrow> unit + (int \<times> int) option" where
  "parse_one_range sz ra =
     (if CHR ''-'' \<notin> set ra then Inl ()
      else let start = trim_ws (takeWhile (\<lambda>c. c \<noteq> CHR ''-'') ra);
               stop = trim_ws (tl (dropWhile (\<lambda>c. c \<noteq> CHR ''-'') ra)) in
      if start = [] then
        (if stop = [] \<or> hd stop = CHR ''-'' then Inl ()
         else case Atoi stop of
           None \<Rightarrow> Inl ()
         | Some i \<Rightarrow> if i < 0 then Inl () else (let j = min i sz in Inr (Some (sz - j, j))))
      else case Atoi start of
        None \<Rightarrow> Inl ()
      | Some i \<Rightarrow>
          if i < 0 then Inl ()
          else if i \<ge> sz then Inr None
          else if stop = [] then Inr (Some (i, sz - i))
          else (case Atoi stop of
                  None \<Rightarrow> Inl ()
                | Some j \<Rightarrow> if i > j then Inl () else Inr (Some (i, min j (sz - 1) - i + 1))))"

datatype ranges = BadRange | NoOverlap | Ranges "(int \<times> int) list"

fun range_loop :: "int \<Rightarrow> string list \<Rightarrow> (int \<times> int) list \<Rightarrow> bool \<Rightarrow> ranges" where
  "range_loop sz [] acc noOverlap = (if noOverlap \<and> acc = [] then NoOverlap else Ranges acc)"
| "range_loop sz (ra0 # ras) acc noOverlap =
     (let ra = trim_ws ra0 in
      if ra = [] then range_loop sz ras acc noOverlap
      else case parse_one_range sz ra of
        Inl _ \<Rightarrow> BadRange
      | Inr None \<Rightarrow> range_loop sz ras acc True
      | Inr (Some r) \<Rightarrow> range_loop sz ras (acc @ [r]) noOverlap)"

definition parseRange :: "string \<Rightarrow> int \<Rightarrow> ranges" where
  "parseRange s sz =
     (if s = [] then Ranges []
      else if take 6 s \<noteq> ''bytes='' then BadRange
      else range_loop sz (Split (CHR '','') (drop 6 s)) [] False)"

definition range_slice :: "int \<times> int \<Rightarrow> string \<Rightarrow> string" where
  "range_slice r data = take (nat (snd r)) (drop (nat (fst r)) data)"

definition contentRange :: "int \<times> int \<Rightarrow> int \<Rightarrow> string" where
  "contentRange r sz = ''bytes '' @ Itoa (fst r) @ ''-'' @ Itoa (fst r + snd r - 1) @ ''/'' @ Itoa sz"

definition ServeContent :: "(string, string) gomap \<Rightarrow> string \<Rightarrow> string \<Rightarrow> time \<Rightarrow> string \<Rightarrow> http_response" where
  "ServeContent hdr method ranged modtime data =
     (let sz = int (length data); hdr1 = AList.update ''Last-Modified'' (format_http modtime) hdr;
          answer = (\<lambda>status hdr2 content.
            \<lparr>rs_Status = status, rs_Header = hdr2, rs_Body = (if method = ''HEAD'' then NoBody else content), rs_Log = []\<rparr>);
          sized = (\<lambda>n h. AList.update ''Content-Length'' (Itoa n) (AList.update ''Accept-Ranges'' ''bytes'' h));
          unsatisfiable = (\<lambda>h. answer 416 (AList.update ''Content-Type'' ''text/plain; charset=utf-8'' h) (TextBody ''invalid range: failed to overlap''));
          serve_ranges = (\<lambda>rs.
            case (if sum_list (map snd rs) > sz then [] else rs) of
              [] \<Rightarrow> answer 200 (sized sz hdr1) (BlobBody data)
            | [r] \<Rightarrow> answer 206 (sized (snd r) (AList.update ''Content-Range'' (contentRange r sz) hdr1)) (BlobBody (range_slice r data))
            | several \<Rightarrow> answer 206 (AList.update ''Accept-Ranges'' ''bytes'' hdr1) (RangesBody (map (\<lambda>r. (contentRange r sz, range_slice r data)) several)))
      in case parseRange ranged sz of
           BadRange \<Rightarrow> answer 416 (AList.update ''Content-Type'' ''text/plain; charset=utf-8'' hdr1) (TextBody ''invalid range'')
         | NoOverlap \<Rightarrow>
             if sz = 0 then serve_ranges []
             else unsatisfiable (AList.update ''Content-Range'' (''bytes */'' @ Itoa sz) hdr1)
         | Ranges rs \<Rightarrow> serve_ranges rs)"

subsection \<open>Handlers\<close>

record ('s, 'b) attach_handler =
  ah_lib :: att_lib
  ah_cfg :: att_cfg
  ah_repo :: "'s att_repo"
  ah_blobs :: "'b blob_store"
  ah_texts :: "att_err \<Rightarrow> string"
  ah_maxBytes :: int

text \<open>The loop over the parts: the first one of the field \<^verbatim>\<open>file\<close> is uploaded, the others before it are skipped.\<close>

fun upload_parts :: "(part \<Rightarrow> 'st \<Rightarrow> attachment ares \<times> 'st) \<Rightarrow> (att_err \<Rightarrow> string) \<Rightarrow> part list \<Rightarrow> bool \<Rightarrow> 'st \<Rightarrow> http_response \<times> 'st" where
  "upload_parts up texts [] ends st =
     (if \<not> ends then (awriteError [] 400 ''malformed multipart body'', st)
      else (awriteError [] 400 (''multipart body must contain a '' @ quoted fileFormField @ '' part''), st))"
| "upload_parts up texts (p # ps) ends st =
     (if pt_FormName p \<noteq> fileFormField then upload_parts up texts ps ends st
      else case up p st of
        (Inl err, st') \<Rightarrow> (ahandleServiceError texts err, st')
      | (Inr att, st') \<Rightarrow> (writeJSON [] 201 (attachment_json att), st'))"

definition upload :: "('s, 'b) attach_handler \<Rightarrow> ctxs \<Rightarrow> time \<Rightarrow> string + 8 word list \<Rightarrow> string + 8 word list \<Rightarrow> string \<Rightarrow> attach_request
    \<Rightarrow> string \<Rightarrow> 's \<times> 'b \<Rightarrow> http_response \<times> ('s \<times> 'b)" where
  "upload h ctx now rnd1 rnd2 userID r i st =
     (case aq_Body r (ah_maxBytes h + multipartMemoryBytes) of
        NotMultipart \<Rightarrow> (awriteError [] 400 ''request body must be multipart/form-data'', st)
      | Multipart parts ends \<Rightarrow>
          upload_parts (\<lambda>p. Upload (ah_lib h) (ah_cfg h) (ah_repo h) (ah_blobs h) ctx now rnd1 rnd2 userID i (pt_FileName p) (pt_Body p))
            (ah_texts h) parts ends st)"

definition alist :: "('s, 'b) attach_handler \<Rightarrow> ctxs \<Rightarrow> string \<Rightarrow> string \<Rightarrow> 's \<times> 'b \<Rightarrow> http_response \<times> ('s \<times> 'b)" where
  "alist h ctx userID i st =
     (case ListByTask (ah_repo h) ctx userID i st of
        (Inl err, st') \<Rightarrow> (ahandleServiceError (ah_texts h) err, st')
      | (Inr attachments, st') \<Rightarrow> (writeJSON [] 200 (JArray (map attachment_json attachments)), st'))"

definition adelete :: "('s, 'b) attach_handler \<Rightarrow> ctxs \<Rightarrow> string \<Rightarrow> string \<Rightarrow> 's \<times> 'b \<Rightarrow> http_response \<times> ('s \<times> 'b)" where
  "adelete h ctx userID key st =
     (case DeleteAttachment (ah_repo h) (ah_blobs h) ctx userID key st of
        (Inl err, st') \<Rightarrow> (ahandleServiceError (ah_texts h) err, st')
      | (Inr _, st') \<Rightarrow> (\<lparr>rs_Status = 204, rs_Header = [], rs_Body = NoBody, rs_Log = []\<rparr>, st'))"

text \<open>
  For \<^verbatim>\<open>attachment\<close> with a file name \<^verbatim>\<open>mime.FormatMediaType\<close> always gives a value, so the fallback to the
  bare directive is not taken.
\<close>

definition download :: "('s, 'b) attach_handler \<Rightarrow> ctxs \<Rightarrow> string \<Rightarrow> attach_request \<Rightarrow> string \<Rightarrow> 's \<times> 'b \<Rightarrow> http_response \<times> ('s \<times> 'b)" where
  "download h ctx userID r key st =
     (case Download (ah_repo h) (ah_blobs h) ctx userID key st of
        (Inl err, st') \<Rightarrow> (ahandleServiceError (ah_texts h) err, st')
      | (Inr (att, blob), st') \<Rightarrow>
          (let disposition0 = FormatMediaType_attachment (a_OriginalFilename att);
               disposition = (if disposition0 = '''' then ''attachment'' else disposition0);
               hdr = [(''Content-Type'', a_ContentType att), (''Content-Disposition'', disposition)]
           in (ServeContent hdr (aq_Method r) (aq_Range r) (a_CreatedAt att) blob, st')))"

subsection \<open>Routes\<close>

datatype attach_route = FUpload | FList | FDownload | FDelete

definition attach_routes :: "(string \<times> segment list \<times> attach_route) list" where
  "attach_routes =
     [(''POST'', [Lit ''tasks'', Wild, Lit ''attachments''], FUpload),
      (''GET'', [Lit ''tasks'', Wild, Lit ''attachments''], FList),
      (''GET'', [Lit ''files'', Wild], FDownload),
      (''DELETE'', [Lit ''files'', Wild], FDelete)]"

fun attach_dispatch :: "('s, 'b) attach_handler \<Rightarrow> ctxs \<Rightarrow> time \<Rightarrow> string + 8 word list \<Rightarrow> string + 8 word list \<Rightarrow> string \<Rightarrow> attach_request
    \<Rightarrow> attach_route \<Rightarrow> string \<Rightarrow> 's \<times> 'b \<Rightarrow> http_response \<times> ('s \<times> 'b)" where
  "attach_dispatch h ctx now rnd1 rnd2 u r FUpload i = upload h ctx now rnd1 rnd2 u r i"
| "attach_dispatch h ctx now rnd1 rnd2 u r FList i = alist h ctx u i"
| "attach_dispatch h ctx now rnd1 rnd2 u r FDownload i = download h ctx u r i"
| "attach_dispatch h ctx now rnd1 rnd2 u r FDelete i = adelete h ctx u i"

definition serve_attachments :: "user_lib \<Rightarrow> 'u user_repo \<Rightarrow> uctxs \<Rightarrow> clock \<Rightarrow> auth_request
    \<Rightarrow> ('s, 'b) attach_handler \<Rightarrow> ctxs \<Rightarrow> time \<Rightarrow> string + 8 word list \<Rightarrow> string + 8 word list \<Rightarrow> attach_request
    \<Rightarrow> 'u user_svc \<times> ('s \<times> 'b) \<Rightarrow> http_response \<times> ('u user_svc \<times> ('s \<times> 'b))" where
  "serve_attachments ul ur uctx clk cred h ctx now rnd1 rnd2 r st =
     (case mux_match attach_routes (aq_Method r) (aq_Segments r) of
        MuxNotFound \<Rightarrow> (muxError 404 ''404 page not found'', st)
      | MuxMethodNotAllowed \<Rightarrow> (muxError 405 ''Method Not Allowed'', st)
      | MuxFound route i \<Rightarrow>
          (case st of (us, sb) \<Rightarrow>
           case RequireAuth ul ur uctx clk cred us of
             (AuthRejected status msg, us') \<Rightarrow> (writeAuthError status msg, (us', sb))
           | (AuthPassed u token, us') \<Rightarrow>
               (case attach_dispatch h ctx now rnd1 rnd2 u r route i sb of (rs, sb') \<Rightarrow> (rs, (us', sb')))))"

subsection \<open>Resuming a download\<close>

text \<open>The header \<^verbatim>\<open>Range: bytes=k-\<close> with which a client asks for the rest after \<open>k\<close> bytes.\<close>

definition resume_from :: "nat \<Rightarrow> string" where
  "resume_from k = ''bytes='' @ Itoa (int k) @ ''-''"

lemma digits_plain:
  assumes "c \<in> set (show_nat n)"
  shows "c \<noteq> CHR ''-''" and "c \<noteq> CHR '',''" and "c \<notin> {CHR '' '', CHR 0x09, CHR 0x0A, CHR 0x0D}"
  using show_nat_digits [of n] assms by (auto simp: is_digit_def)

lemma trim_ws_id:
  assumes "s \<noteq> [] \<Longrightarrow> hd s \<notin> {CHR '' '', CHR 0x09, CHR 0x0A, CHR 0x0D} \<and> last s \<notin> {CHR '' '', CHR 0x09, CHR 0x0A, CHR 0x0D}"
  shows "trim_ws s = s"
proof (cases s rule: rev_cases)
  case Nil
  then show ?thesis by (simp add: trim_ws_def Let_def)
next
  case (snoc ys y)
  have "dropWhile (\<lambda>c. c \<in> {CHR '' '', CHR 0x09, CHR 0x0A, CHR 0x0D}) s = s" using assms snoc by (auto simp: dropWhile_eq_self_iff)
  then show ?thesis using assms snoc by (simp add: trim_ws_def Let_def)
qed

lemma parseRange_resume:
  assumes "k < n" and "int k < 2 ^ 63"
  shows "parseRange (resume_from k) (int n) = Ranges [(int k, int n - int k)]"
proof -
  let ?d = "show_nat k"
  have d: "Itoa (int k) = ?d" by (simp add: Itoa_def)
  have plain: "c \<in> set ?d \<Longrightarrow> c \<noteq> CHR ''-'' \<and> c \<noteq> CHR '','' \<and> c \<notin> {CHR '' '', CHR 0x09, CHR 0x0A, CHR 0x0D}" for c
    using digits_plain [of c k] by simp
  have ends: "hd ?d \<in> set ?d" "last ?d \<in> set ?d" by simp_all
  have t1: "trim_ws (?d @ ''-'') = ?d @ ''-''" using plain [OF ends(1)] by (intro trim_ws_id) (simp add: hd_append)
  have t2: "trim_ws ?d = ?d" using plain [OF ends(1)] plain [OF ends(2)] by (intro trim_ws_id) simp
  have tw: "takeWhile (\<lambda>c. c \<noteq> CHR ''-'') (?d @ ''-'') = ?d" "dropWhile (\<lambda>c. c \<noteq> CHR ''-'') (?d @ ''-'') = ''-''"
    using plain by (simp_all add: takeWhile_append2 dropWhile_append2)
  have sp: "Split (CHR '','') (?d @ ''-'') = [?d @ ''-'']" using plain by (intro Split_no_sep) auto
  have a: "Atoi ?d = Some (int k)" using Atoi_Itoa [of "int k"] assms(2) d by simp
  have "parse_one_range (int n) (?d @ ''-'') = Inr (Some (int k, int n - int k))"
    using assms(1) by (simp add: parse_one_range_def Let_def tw t2 a trim_ws_def [of "[]"])
  with sp t1 show ?thesis by (simp add: parseRange_def resume_from_def d Let_def)
qed

lemma ServeContent_full:
  "ServeContent hdr ''GET'' '''' t data =
     \<lparr>rs_Status = 200, rs_Header = AList.update ''Content-Length'' (Itoa (int (length data))) (AList.update ''Accept-Ranges'' ''bytes''
        (AList.update ''Last-Modified'' (format_http t) hdr)), rs_Body = BlobBody data, rs_Log = []\<rparr>"
  by (simp add: ServeContent_def parseRange_def Let_def)

lemma ServeContent_resume:
  assumes "k < length data" and "int k < 2 ^ 63"
  shows "ServeContent hdr ''GET'' (resume_from k) t data =
     \<lparr>rs_Status = 206, rs_Header = AList.update ''Content-Length'' (Itoa (int (length data) - int k)) (AList.update ''Accept-Ranges'' ''bytes''
        (AList.update ''Content-Range'' (contentRange (int k, int (length data) - int k) (int (length data)))
          (AList.update ''Last-Modified'' (format_http t) hdr))), rs_Body = BlobBody (drop k data), rs_Log = []\<rparr>"
proof -
  have "range_slice (int k, int (length data) - int k) data = drop k data"
    using assms(1) by (simp add: range_slice_def nat_diff_distrib)
  then show ?thesis using parseRange_resume [OF assms] by (simp add: ServeContent_def Let_def)
qed


lemma ahandleServiceError_status: "rs_Status (ahandleServiceError texts err) \<in> {400, 404, 500, 503}"
  by (simp add: ahandleServiceError_def awriteError_def writeJSON_def)

lemma upload_parts_created:
  assumes "upload_parts up texts ps ends st = (rs, st')" and "rs_Status rs = 201"
  shows "\<exists>p att. find (\<lambda>p. pt_FormName p = ''file'') ps = Some p \<and> up p st = (Inr att, st') \<and> rs_Body rs = JsonBody (attachment_json att)"
  using assms
proof (induction up texts ps ends st rule: upload_parts.induct)
  case (1 up texts ends st)
  then show ?case by (auto simp: awriteError_def writeJSON_def split: if_splits)
next
  case (2 up texts p ps ends st)
  have no: "rs_Status (ahandleServiceError texts err) \<noteq> 201" for err
    using ahandleServiceError_status [of texts err] by auto
  show ?case
  proof (cases "pt_FormName p = fileFormField")
    case True
    then have f: "pt_FormName p = ''file''" by (simp add: fileFormField_def)
    obtain r st1 where u: "up p st = (r, st1)" by fastforce
    with 2(2,3) True no obtain att where "r = Inr att" "st1 = st'" "rs = writeJSON [] 201 (attachment_json att)"
      by (cases r) auto
    with u f show ?thesis by (simp add: writeJSON_def)
  next
    case False
    then have "pt_FormName p \<noteq> ''file''" by (simp add: fileFormField_def)
    with 2 False show ?thesis by simp
  qed
qed

text \<open>
  C31. Upload and download over HTTP. When \<^verbatim>\<open>POST /tasks/{id}/attachments\<close> answers 201, the first part named
  \<^verbatim>\<open>file\<close> is what was stored, and the response describes it; then \<^verbatim>\<open>GET /files/{key}\<close> of the
  owner answers 200 with exactly its bytes, to be saved and not shown; a range request for the rest after any number of bytes
  the client already has answers 206 with exactly the missing ones; and anybody who does not own the task gets the 404 of a file that does not exist.
\<close>

theorem upload_download_over_http:
  assumes "am_inv m" and "fs_inv b" and "0 \<le> ac_maxBytes (ah_cfg h)" and "length rnd2 = 16"
    and h: "ah_repo h = attachMemory" "ah_blobs h = fsBlobStore g sys"
    and up: "upload h live now r1 (Inr rnd2) u r t (m, b) = (rs, (m', b'))" and "rs_Status rs = 201"
    and nofault: "fs_faults b' (fs_calls b') = None"
    and get: "aq_Method q = ''GET''"
  shows "\<exists>parts ends p att. aq_Body r (ah_maxBytes h + multipartMemoryBytes) = Multipart parts ends \<and>
    find (\<lambda>p. pt_FormName p = ''file'') parts = Some p \<and> rs_Body rs = JsonBody (attachment_json att) \<and> a_TaskID att = t \<and>
    (aq_Range q = '''' \<longrightarrow> (let out = fst (download h live u q (a_StorageKey att) (m', b')) in
        rs_Status out = 200 \<and> rs_Body out = BlobBody (rd_bytes (pt_Body p)) \<and>
        map_of (rs_Header out) ''Content-Type'' = Some (a_ContentType att) \<and> a_ContentType att \<in> set allowedContentTypes \<and>
        map_of (rs_Header out) ''Content-Disposition'' = Some (FormatMediaType_attachment (a_OriginalFilename att)))) \<and>
    (\<forall>k < length (rd_bytes (pt_Body p)). int k < 2 ^ 63 \<and> aq_Range q = resume_from k \<longrightarrow>
        (let out = fst (download h live u q (a_StorageKey att) (m', b')) in
         rs_Status out = 206 \<and> rs_Body out = BlobBody (drop k (rd_bytes (pt_Body p))) \<and>
         map_of (rs_Header out) ''Content-Range'' =
           Some (''bytes '' @ Itoa (int k) @ ''-'' @ Itoa (a_SizeBytes att - 1) @ ''/'' @ Itoa (a_SizeBytes att)))) \<and>
    (\<forall>v. am_owns m' Live (a_TaskID att) v = Inr False \<longrightarrow>
        download h live v q (a_StorageKey att) (m', b') = (awriteError [] 404 ''attachment not found'', (m', b')))"
proof -
  from up assms(8) obtain parts ends where body: "aq_Body r (ah_maxBytes h + multipartMemoryBytes) = Multipart parts ends"
    by (auto simp: upload_def awriteError_def writeJSON_def split: multipart.splits)
  from up body obtain p att where p: "find (\<lambda>p. pt_FormName p = ''file'') parts = Some p" "rs_Body rs = JsonBody (attachment_json att)"
    and put: "Upload (ah_lib h) (ah_cfg h) attachMemory (fsBlobStore g sys) live now r1 (Inr rnd2) u t (pt_FileName p) (pt_Body p) (m, b) = (Inr att, (m', b'))"
    using upload_parts_created [OF _ assms(8)] unfolding upload_def h by fastforce
  note ok = Upload_ok [OF assms(2,3) put]
  from ok have c: "am_Create Live att u m = (Inr (), m')" by simp
  note inv' = am_Create_inv [OF assms(1) c] and cr = am_Create_ok [OF c]
  have row: "att \<in> set (gomap_values (am_store m'))" using cr by simp
  have valid: "aisValidID (a_StorageKey att)" using anewID_valid [OF assms(4)] ok by simp
  have down: "fst (Download attachMemory (fsBlobStore g sys) live u (a_StorageKey att) (m', b')) = Inr (att, rd_bytes (pt_Body p))"
    using ok cr valid by (intro Download_row [OF inv' row _ _ _ nofault]) auto
  have disp: "FormatMediaType_attachment f \<noteq> ''''" for f by (simp add: FormatMediaType_attachment_def)
  let ?hdr = "[(''Content-Type'', a_ContentType att), (''Content-Disposition'', FormatMediaType_attachment (a_OriginalFilename att))]"
  have out: "fst (download h live u q (a_StorageKey att) (m', b')) = ServeContent ?hdr ''GET'' (aq_Range q) (a_CreatedAt att) (rd_bytes (pt_Body p))"
    using down by (auto simp: download_def h get disp Let_def split: prod.splits)
  have stranger: "download h live v q (a_StorageKey att) (m', b') = (awriteError [] 404 ''attachment not found'', (m', b'))"
    if no: "am_owns m' Live (a_TaskID att) v = Inr False" for v
  proof -
    obtain e where "Download attachMemory (fsBlobStore g sys) live v (a_StorageKey att) (m', b') = (Inl e, (m', b'))" "errors_Is e AErrNotFound"
      using Download_stranger [OF inv' row no, of "fsBlobStore g sys" b'] by (elim exE conjE)
    then show ?thesis by (simp add: download_def h ahandleServiceError_def)
  qed
  have full: "aq_Range q = '''' \<longrightarrow> (let out = fst (download h live u q (a_StorageKey att) (m', b')) in
        rs_Status out = 200 \<and> rs_Body out = BlobBody (rd_bytes (pt_Body p)) \<and>
        map_of (rs_Header out) ''Content-Type'' = Some (a_ContentType att) \<and> a_ContentType att \<in> set allowedContentTypes \<and>
        map_of (rs_Header out) ''Content-Disposition'' = Some (FormatMediaType_attachment (a_OriginalFilename att)))"
    using ok unfolding out Let_def by (intro impI) (simp add: ServeContent_full)
  have rest: "\<forall>k < length (rd_bytes (pt_Body p)). int k < 2 ^ 63 \<and> aq_Range q = resume_from k \<longrightarrow>
        (let out = fst (download h live u q (a_StorageKey att) (m', b')) in
         rs_Status out = 206 \<and> rs_Body out = BlobBody (drop k (rd_bytes (pt_Body p))) \<and>
         map_of (rs_Header out) ''Content-Range'' =
           Some (''bytes '' @ Itoa (int k) @ ''-'' @ Itoa (a_SizeBytes att - 1) @ ''/'' @ Itoa (a_SizeBytes att)))"
    using ok unfolding out Let_def by (intro allI impI) (simp add: ServeContent_resume contentRange_def)
  from body p full rest stranger ok show ?thesis by blast
qed


definition demo_attach_handler :: "(att_mem, fs) attach_handler" where
  "demo_attach_handler = \<lparr>ah_lib = demo_att_lib, ah_cfg = demo_att_cfg, ah_repo = attachMemory, ah_blobs = fsBlobStore demo_guard (\<lambda>_. True),
     ah_texts = att_err_text (\<lambda>_. ''''), ah_maxBytes = 1000\<rparr>"

definition demo_attach_request :: "string \<Rightarrow> string \<Rightarrow> attach_request" where
  "demo_attach_request method rng = \<lparr>aq_Method = method, aq_Segments = [], aq_Range = rng,
     aq_Body = (\<lambda>n. Multipart [\<lparr>pt_FormName = ''note'', pt_FileName = '''', pt_Body = demo_reader\<rparr>,
       \<lparr>pt_FormName = ''file'', pt_FileName = ''docs/notes.txt'', pt_Body = demo_reader\<rparr>] True)\<rparr>"

lemma demo_http_upload:
  "upload demo_attach_handler live 7 (Inr demo_bytes) (Inr demo_bytes) ''ann'' (demo_attach_request ''POST'' '''') demo_id
     (NewAttachMemory demo_owns, demo_fs [] 0 7) =
   (writeJSON [] 201 (attachment_json demo_att), (demo_att_mem, demo_fs [(demo_id, File ''two litres'' 7)] 3 7))"
  by (simp add: upload_def demo_attach_handler_def demo_attach_request_def fileFormField_def Upload_halves demo_upload_put demo_upload_record)

theorem upload_download_over_http_witness:
  "rs_Body (fst (download demo_attach_handler live ''ann'' (demo_attach_request ''GET'' (resume_from 4)) demo_id
      (demo_att_mem, demo_fs [(demo_id, File ''two litres'' 7)] 3 7))) = BlobBody ''litres''"
proof -
  have key: "a_StorageKey att = demo_id" "a_StorageKey demo_att = demo_id" if "attachment_json demo_att = attachment_json att" for att
    using that by (simp_all add: attachment_json_def demo_att_def)
  have h: "0 \<le> ac_maxBytes (ah_cfg demo_attach_handler)" "length demo_bytes = 16" "fs_inv (demo_fs [] 0 7)"
    "ah_repo demo_attach_handler = attachMemory" "ah_blobs demo_attach_handler = fsBlobStore demo_guard (\<lambda>_. True)"
    "fs_faults (demo_fs [(demo_id, File ''two litres'' 7)] 3 7) (fs_calls (demo_fs [(demo_id, File ''two litres'' 7)] 3 7)) = None"
    by (simp_all add: demo_attach_handler_def demo_att_cfg_def demo_bytes_def demo_fs_def)
  have q: "aq_Method (demo_attach_request ''GET'' (resume_from 4)) = ''GET''" "aq_Range (demo_attach_request ''GET'' (resume_from 4)) = resume_from 4"
    by (simp_all add: demo_attach_request_def)
  have s: "rs_Status (writeJSON [] 201 (attachment_json demo_att)) = 201" by (simp add: writeJSON_def)
  from upload_download_over_http [OF am_inv_New h(3,1,2,4,5) demo_http_upload s h(6) q(1)]
  obtain parts ends p att where a: "aq_Body (demo_attach_request ''POST'' '''') (ah_maxBytes demo_attach_handler + multipartMemoryBytes) = Multipart parts ends"
    "find (\<lambda>p. pt_FormName p = ''file'') parts = Some p" "attachment_json demo_att = attachment_json att"
    and rest: "\<And>k. k < length (rd_bytes (pt_Body p)) \<Longrightarrow> int k < 2 ^ 63 \<Longrightarrow> resume_from 4 = resume_from k \<Longrightarrow>
       rs_Body (fst (download demo_attach_handler live ''ann'' (demo_attach_request ''GET'' (resume_from 4)) (a_StorageKey att)
         (demo_att_mem, demo_fs [(demo_id, File ''two litres'' 7)] 3 7))) = BlobBody (drop k (rd_bytes (pt_Body p)))"
    unfolding q(2) Let_def by (auto simp: writeJSON_def)
  have "rd_bytes (pt_Body p) = ''two litres''" using a(1,2) by (auto simp: demo_attach_request_def demo_reader_def)
  with rest [of 4] key(1) [OF a(3)] show ?thesis by simp
qed

end
