(* ===== verification/Middleware.thy ===== *)
theory Middleware
  imports AttachHandler
begin

text \<open>
  The middlewares of \<^verbatim>\<open>internal/middleware\<close> and the chain \<^verbatim>\<open>newServer\<close> builds of them. A handler takes the
  request, with the values its context carries, and the response writer, and returns the writer, with the
  panic that unwinds through it, if any. The writer has the header map, what was sent (the status with the
  header map at that moment), the body, the log, and the \<^verbatim>\<open>statusRecorder\<close> that \<^verbatim>\<open>Logging\<close> puts
  around it. The application behind the chain is any function from a request to the calls it makes on the writer
  and the panic they end in. Header names are spelled as in the source, which \<^verbatim>\<open>http.Header\<close> canonicalises at every
  access alike. The libraries' middlewares (security headers, the CSRF protector) are parameters with their documented
  behaviour as hypotheses.
\<close>

subsection \<open>Requests, writers, handlers\<close>

datatype attr = AText string | ANum int | AFlag bool

record log_line =
  ll_Level :: log_level
  ll_Msg :: string
  ll_Attrs :: "(string \<times> attr) list"

record mw_request =
  mq_Method :: string
  mq_Path :: string
  mq_Header :: "(string, string) gomap"
  mq_Cookie :: "string option"
  mq_RequestID :: "string option"
  mq_RealIP :: "string option"
  mq_UserID :: "string option"
  mq_SessionToken :: "string option"
  mq_LogSlot :: bool

definition mq_Get :: "mw_request \<Rightarrow> string \<Rightarrow> string" where
  "mq_Get r k = (case map_of (mq_Header r) k of None \<Rightarrow> '''' | Some v \<Rightarrow> v)"

type_synonym headers = "(string, string list) gomap"

record statusRecorder =
  sr_status :: nat
  sr_wroteHeader :: bool

record writer =
  w_Header :: headers
  w_Sent :: "(nat \<times> headers) option"
  w_Informational :: "nat list"
  w_Body :: string
  w_Log :: "log_line list"
  w_Recorder :: "statusRecorder option"
  w_UserIDForLog :: string

definition hdr_Set :: "string \<Rightarrow> string \<Rightarrow> writer \<Rightarrow> writer" where
  "hdr_Set k v w = w\<lparr>w_Header := AList.update k [v] (w_Header w)\<rparr>"

definition hdr_Add :: "string \<Rightarrow> string \<Rightarrow> writer \<Rightarrow> writer" where
  "hdr_Add k v w = w\<lparr>w_Header := AList.update k ((case map_of (w_Header w) k of None \<Rightarrow> [] | Some vs \<Rightarrow> vs) @ [v]) (w_Header w)\<rparr>"

text \<open>
  The server's own writer: the first final status is sent with the headers set so far, an informational one (other than
  101) is sent ahead of it, any later one is ignored; a write sends 200 first when nothing was sent.
\<close>

definition raw_WriteHeader :: "nat \<Rightarrow> writer \<Rightarrow> writer" where
  "raw_WriteHeader code w =
     (if w_Sent w \<noteq> None then w
      else if 100 \<le> code \<and> code \<le> 199 \<and> code \<noteq> 101 then w\<lparr>w_Informational := w_Informational w @ [code]\<rparr>
      else w\<lparr>w_Sent := Some (code, w_Header w)\<rparr>)"

definition raw_Write :: "string \<Rightarrow> writer \<Rightarrow> writer" where
  "raw_Write b w = (let w1 = raw_WriteHeader 200 w in w1\<lparr>w_Body := w_Body w1 @ b\<rparr>)"

definition sr_WriteHeader :: "nat \<Rightarrow> writer \<Rightarrow> writer" where
  "sr_WriteHeader code w =
     raw_WriteHeader code
       (case w_Recorder w of
          None \<Rightarrow> w
        | Some rec \<Rightarrow> if \<not> sr_wroteHeader rec then w\<lparr>w_Recorder := Some \<lparr>sr_status = code, sr_wroteHeader = True\<rparr>\<rparr> else w)"

definition HeaderWritten :: "statusRecorder \<Rightarrow> bool" where
  "HeaderWritten rec = sr_wroteHeader rec"

definition sr_Write :: "string \<Rightarrow> writer \<Rightarrow> writer" where
  "sr_Write b w =
     raw_Write b
       (case w_Recorder w of
          None \<Rightarrow> w
        | Some rec \<Rightarrow> if \<not> sr_wroteHeader rec then sr_WriteHeader 200 w else w)"

text \<open>What the client gets when the handler has returned.\<close>

definition response :: "writer \<Rightarrow> nat \<times> headers" where
  "response w = (case w_Sent w of Some sh \<Rightarrow> sh | None \<Rightarrow> (200, w_Header w))"

definition new_writer :: writer where
  "new_writer = \<lparr>w_Header = [], w_Sent = None, w_Informational = [], w_Body = [], w_Log = [], w_Recorder = None, w_UserIDForLog = []\<rparr>"

datatype panic = ErrAbortHandler | Panic string

type_synonym http_handler = "mw_request \<Rightarrow> writer \<Rightarrow> panic option \<times> writer"
type_synonym middleware = "http_handler \<Rightarrow> http_handler"

datatype action = SetHeader string string | AddHeader string string | WriteHeader nat | Write string | RecordUserID string

text \<open>\<^verbatim>\<open>RecordUserIDForLog\<close> writes through the pointer that \<^verbatim>\<open>Logging\<close> left in the context, if it did.\<close>

definition RecordUserIDForLog :: "mw_request \<Rightarrow> string \<Rightarrow> writer \<Rightarrow> writer" where
  "RecordUserIDForLog r userID w = (if mq_LogSlot r then w\<lparr>w_UserIDForLog := userID\<rparr> else w)"

fun act :: "mw_request \<Rightarrow> action \<Rightarrow> writer \<Rightarrow> writer" where
  "act r (SetHeader k v) w = hdr_Set k v w"
| "act r (AddHeader k v) w = hdr_Add k v w"
| "act r (WriteHeader code) w = sr_WriteHeader code w"
| "act r (Write b) w = sr_Write b w"
| "act r (RecordUserID u) w = RecordUserIDForLog r u w"

definition application :: "(mw_request \<Rightarrow> action list \<times> panic option) \<Rightarrow> http_handler" where
  "application f r w = (case f r of (actions, p) \<Rightarrow> (p, fold (act r) actions w))"

subsection \<open>The chain\<close>

text \<open>The loop runs over the middlewares from the last to the first.\<close>

fun chain_loop :: "middleware list \<Rightarrow> nat \<Rightarrow> http_handler \<Rightarrow> http_handler" where
  "chain_loop ms 0 final = final"
| "chain_loop ms (Suc i) final = chain_loop ms i ((ms ! i) final)"

definition Chain :: "middleware list \<Rightarrow> middleware" where
  "Chain ms final = chain_loop ms (length ms) final"

subsection \<open>Request IDs and addresses\<close>

definition HeaderRequestID :: string where
  "HeaderRequestID = ''X-Request-ID''"

definition maxRequestIDLen :: nat where
  "maxRequestIDLen = 128"

text \<open>A byte above 127 is part of a rune above 127, or of an invalid one: refused like any other.\<close>

definition isValidRequestID :: "string \<Rightarrow> bool" where
  "isValidRequestID i =
     (if i = '''' \<or> length i > maxRequestIDLen then False
      else list_all (\<lambda>c. (97 \<le> byte c \<and> byte c \<le> 122) \<or> (65 \<le> byte c \<and> byte c \<le> 90) \<or> is_digit c \<or> c = CHR ''-'' \<or> c = CHR ''_'') i)"

text \<open>The randomness is the result of \<^verbatim>\<open>rand.Read\<close>; the fallback is the time in nanoseconds.\<close>

definition newRequestID :: "string + 8 word list \<Rightarrow> time \<Rightarrow> string" where
  "newRequestID rnd now = (case rnd of Inl _ \<Rightarrow> ''fallback-'' @ Itoa now | Inr b \<Rightarrow> hex_bytes b)"

definition RequestID :: "string + 8 word list \<Rightarrow> time \<Rightarrow> middleware" where
  "RequestID rnd now next r w =
     (let i0 = mq_Get r HeaderRequestID;
          i = (if \<not> isValidRequestID i0 then newRequestID rnd now else i0)
      in next (r\<lparr>mq_RequestID := Some i\<rparr>) (hdr_Set HeaderRequestID i w))"

definition RequestIDFromContext :: "mw_request \<Rightarrow> string \<times> bool" where
  "RequestIDFromContext r = (case mq_RequestID r of None \<Rightarrow> ('''', False) | Some i \<Rightarrow> (i, True))"

definition RealIP :: "(mw_request \<Rightarrow> string + string) \<Rightarrow> middleware" where
  "RealIP addressOf next r w =
     (let addr = (case addressOf r of Inl err \<Rightarrow> '''' | Inr a \<Rightarrow> a) in next (r\<lparr>mq_RealIP := Some addr\<rparr>) w)"

definition RealIPFromContext :: "mw_request \<Rightarrow> string" where
  "RealIPFromContext r = (case mq_RealIP r of None \<Rightarrow> '''' | Some a \<Rightarrow> a)"

subsection \<open>What authentication leaves in the context\<close>

definition ContextWithUserID :: "string \<Rightarrow> mw_request \<Rightarrow> mw_request" where
  "ContextWithUserID u r = r\<lparr>mq_UserID := Some u\<rparr>"

definition UserIDFromContext :: "mw_request \<Rightarrow> string \<times> bool" where
  "UserIDFromContext r = (case mq_UserID r of None \<Rightarrow> ('''', False) | Some u \<Rightarrow> (u, True))"

definition ContextWithSessionToken :: "string \<Rightarrow> mw_request \<Rightarrow> mw_request" where
  "ContextWithSessionToken t r = r\<lparr>mq_SessionToken := Some t\<rparr>"

definition SessionTokenFromContext :: "mw_request \<Rightarrow> string \<times> bool" where
  "SessionTokenFromContext r = (case mq_SessionToken r of None \<Rightarrow> ('''', False) | Some t \<Rightarrow> (t, True))"

text \<open>The key of the per-user limiter (\<^verbatim>\<open>cmd/api/main.go\<close>); \<open>None\<close> is \<^verbatim>\<open>ratelimit.ErrNoKey\<close>.\<close>

definition userIDKey :: "mw_request \<Rightarrow> string option" where
  "userIDKey r = (case UserIDFromContext r of (i, ok) \<Rightarrow> if \<not> ok \<or> i = '''' then None else Some i)"

subsection \<open>Cache-Control, CORS, CSRF\<close>

definition CacheControl :: "string \<Rightarrow> middleware" where
  "CacheControl authPrefix next r w =
     next r (hdr_Set ''Cache-Control''
       (if take (length authPrefix) (mq_Path r) = authPrefix then ''private, no-store'' else ''private, no-cache'') w)"

text \<open>\<open>csrfHeader\<close> is \<^verbatim>\<open>csrf.DefaultHeaderName\<close>.\<close>

definition corsAllowedHeaders :: "string \<Rightarrow> string" where
  "corsAllowedHeaders csrfHeader = ''Authorization, Content-Type, X-Request-Id, '' @ csrfHeader"

definition corsExposedHeaders :: string where
  "corsExposedHeaders = ''X-Total-Count, ETag''"

definition corsAllowedMethods :: string where
  "corsAllowedMethods = ''GET, POST, PUT, PATCH, DELETE, OPTIONS''"

definition corsMaxAge :: string where
  "corsMaxAge = ''600''"

definition CORS :: "string \<Rightarrow> string list \<Rightarrow> middleware" where
  "CORS csrfHeader allowedOrigins next r w =
     (if allowedOrigins = [] then next r w
      else
        (let w1 = hdr_Add ''Vary'' ''Origin'' w; origin = mq_Get r ''Origin'' in
         if origin = '''' \<or> origin \<notin> set allowedOrigins then next r w1
         else
           (let w2 = hdr_Set ''Access-Control-Expose-Headers'' corsExposedHeaders
                (hdr_Set ''Access-Control-Allow-Credentials'' ''true'' (hdr_Set ''Access-Control-Allow-Origin'' origin w1)) in
            if mq_Method r = ''OPTIONS'' then
              (None, sr_WriteHeader 204
                (hdr_Set ''Access-Control-Max-Age'' corsMaxAge
                  (hdr_Set ''Access-Control-Allow-Headers'' (corsAllowedHeaders csrfHeader)
                    (hdr_Set ''Access-Control-Allow-Methods'' corsAllowedMethods w2))))
            else next r w2)))"

definition isSafeMethod :: "string \<Rightarrow> bool" where
  "isSafeMethod method \<longleftrightarrow> method \<in> {''GET'', ''HEAD'', ''OPTIONS'', ''TRACE''}"

text \<open>\<open>protect\<close> is \<^verbatim>\<open>p.Middleware\<close> of the CSRF library.\<close>

definition CSRF :: "middleware \<Rightarrow> middleware" where
  "CSRF protect next r w =
     (if \<not> isSafeMethod (mq_Method r) \<and> mq_Get r ''Authorization'' \<noteq> '''' then next r w
      else protect next r w)"

text \<open>The rejection the composition root gives the library (\<^verbatim>\<open>cmd/api/main.go\<close>).\<close>

definition json_error_text :: "string \<Rightarrow> string" where
  "json_error_text msg = ''{'' @ quoted ''error'' @ '':'' @ quoted msg @ ''}''"

definition writeCSRFError :: "mw_request \<Rightarrow> writer \<Rightarrow> writer" where
  "writeCSRFError r w =
     sr_Write (json_error_text ''CSRF verification failed'' @ [CHR 0x0A])
       (sr_WriteHeader 403 (hdr_Set ''Content-Type'' ''application/json'' w))"

subsection \<open>Logging and Recovery\<close>

text \<open>\<^verbatim>\<open>http.StatusText\<close> of the error statuses.\<close>

definition StatusText :: "nat \<Rightarrow> string" where
  "StatusText code = (case map_of
     [(400, ''Bad Request''), (401, ''Unauthorized''), (402, ''Payment Required''), (403, ''Forbidden''), (404, ''Not Found''),
      (405, ''Method Not Allowed''), (406, ''Not Acceptable''), (407, ''Proxy Authentication Required''), (408, ''Request Timeout''),
      (409, ''Conflict''), (410, ''Gone''), (411, ''Length Required''), (412, ''Precondition Failed''),
      (413, ''Request Entity Too Large''), (414, ''Request URI Too Long''), (415, ''Unsupported Media Type''),
      (416, ''Requested Range Not Satisfiable''), (417, ''Expectation Failed''), (418, ''I'' @ [CHR 0x27] @ ''m a teapot''),
      (421, ''Misdirected Request''), (422, ''Unprocessable Entity''), (423, ''Locked''), (424, ''Failed Dependency''),
      (425, ''Too Early''), (426, ''Upgrade Required''), (428, ''Precondition Required''), (429, ''Too Many Requests''),
      (431, ''Request Header Fields Too Large''), (451, ''Unavailable For Legal Reasons''), (500, ''Internal Server Error''),
      (501, ''Not Implemented''), (502, ''Bad Gateway''), (503, ''Service Unavailable''), (504, ''Gateway Timeout''),
      (505, ''HTTP Version Not Supported''), (506, ''Variant Also Negotiates''), (507, ''Insufficient Storage''),
      (508, ''Loop Detected''), (510, ''Not Extended''), (511, ''Network Authentication Required'')] code of
     None \<Rightarrow> '''' | Some t \<Rightarrow> t)"

definition log_level_of :: "string list \<Rightarrow> string \<Rightarrow> nat \<Rightarrow> log_level" where
  "log_level_of quietPaths path status =
     (let level = (if status \<ge> 500 then LogError
                   else if status = 429 \<or> status = 401 then LogInfo
                   else if status \<ge> 400 then LogWarn else LogInfo)
      in if status < 400 \<and> path \<in> set quietPaths then LogDebug else level)"

text \<open>\<open>elapsed\<close> is \<^verbatim>\<open>time.Since(start).String()\<close>. Behind it the writer is the recorder; the line is not written when a panic unwinds.\<close>

definition Logging :: "string list \<Rightarrow> string \<Rightarrow> middleware" where
  "Logging quietPaths elapsed next r0 w =
     (let r = r0\<lparr>mq_LogSlot := True\<rparr> in
      case next r (w\<lparr>w_Recorder := Some \<lparr>sr_status = 200, sr_wroteHeader = False\<rparr>, w_UserIDForLog := ''''\<rparr>) of
        (Some p, w1) \<Rightarrow> (Some p, w1\<lparr>w_Recorder := w_Recorder w\<rparr>)
      | (None, w1) \<Rightarrow>
          (let status = (case w_Recorder w1 of None \<Rightarrow> 200 | Some rec \<Rightarrow> sr_status rec);
               attrs = [(''method'', AText (mq_Method r)), (''path'', AText (mq_Path r)), (''status'', ANum (int status)),
                        (''duration'', AText elapsed), (''request_id'', AText (fst (RequestIDFromContext r)))] @
                       (if w_UserIDForLog w1 \<noteq> '''' then [(''user_id'', AText (w_UserIDForLog w1))] else []) @
                       (if status \<ge> 400 then [(''error'', AText (StatusText status))] else []);
               line = \<lparr>ll_Level = log_level_of quietPaths (mq_Path r) status, ll_Msg = ''http request'', ll_Attrs = attrs\<rparr>
           in (None, w1\<lparr>w_Recorder := w_Recorder w, w_Log := w_Log w1 @ [line]\<rparr>)))"

definition responseStarted :: "writer \<Rightarrow> bool" where
  "responseStarted w = (case w_Recorder w of None \<Rightarrow> False | Some rec \<Rightarrow> HeaderWritten rec)"

text \<open>\<open>stack\<close> is \<^verbatim>\<open>debug.Stack()\<close>.\<close>

definition Recovery :: "string \<Rightarrow> middleware" where
  "Recovery stack next r w =
     (case next r w of
        (None, w1) \<Rightarrow> (None, w1)
      | (Some ErrAbortHandler, w1) \<Rightarrow> (Some ErrAbortHandler, w1)
      | (Some (Panic v), w1) \<Rightarrow>
          (let started = responseStarted w1;
               line = \<lparr>ll_Level = LogError, ll_Msg = ''panic recovered'',
                 ll_Attrs = [(''panic'', AText v), (''stack'', AText stack), (''method'', AText (mq_Method r)), (''path'', AText (mq_Path r)),
                   (''request_id'', AText (fst (RequestIDFromContext r))), (''response_already_started'', AFlag started)]\<rparr>;
               w2 = w1\<lparr>w_Log := w_Log w1 @ [line]\<rparr>
           in if started then (None, w2)
              else (None, sr_Write (json_error_text ''internal server error'')
                     (sr_WriteHeader 500 (hdr_Set ''Content-Type'' ''application/json'' w2)))))"

subsection \<open>The chain of newServer\<close>

record chain_env =
  ce_rnd :: "string + 8 word list"
  ce_now :: time
  ce_addressKey :: "mw_request \<Rightarrow> string + string"
  ce_elapsed :: string
  ce_stack :: string
  ce_secureheaders :: middleware
  ce_csrfHeader :: string
  ce_CORSAllowedOrigins :: "string list"
  ce_protect :: middleware

definition rootHandler :: "chain_env \<Rightarrow> http_handler \<Rightarrow> http_handler" where
  "rootHandler e root =
     Chain [RequestID (ce_rnd e) (ce_now e),
            RealIP (ce_addressKey e),
            Logging [''/health'', ''/health/ready''] (ce_elapsed e),
            ce_secureheaders e,
            CORS (ce_csrfHeader e) (ce_CORSAllowedOrigins e),
            CSRF (ce_protect e),
            Recovery (ce_stack e)] root"

end
