(* ===== verification/MiddlewareChain.thy ===== *)
theory MiddlewareChain
  imports Middleware
begin

text \<open>
  What the chain of \<^verbatim>\<open>newServer\<close> guarantees for every application behind it: which requests reach it, what the client
  gets when it panics, what is logged, which headers every response carries, and where the CSRF gate and the
  authentication disagree.
\<close>

declare map_of_eq_Some_iff [simp del] Some_eq_map_of_iff [simp del]

subsection \<open>What the libraries' middlewares are documented to do\<close>

definition set_all :: "(string \<times> string) list \<Rightarrow> writer \<Rightarrow> writer" where
  "set_all hs w = fold (\<lambda>(k, v). hdr_Set k v) hs w"

definition add_all :: "(string \<times> string) list \<Rightarrow> writer \<Rightarrow> writer" where
  "add_all hs w = fold (\<lambda>(k, v). hdr_Add k v) hs w"

text \<open>The security headers are set before the request goes on.\<close>

definition sets_headers :: "(string \<times> string) list \<Rightarrow> middleware \<Rightarrow> bool" where
  "sets_headers hs m \<longleftrightarrow> (\<forall>next r w. m next r w = next r (set_all hs w))"

text \<open>
  The CSRF protector: a safe request, or one whose origin and token it verifies, goes on, with the headers
  \<open>mint r\<close> (its cookie) added; any other one is answered by the error handler it was given.
\<close>

definition csrf_protector :: "(mw_request \<Rightarrow> bool) \<Rightarrow> (mw_request \<Rightarrow> (string \<times> string) list) \<Rightarrow> middleware \<Rightarrow> bool" where
  "csrf_protector verified mint protect \<longleftrightarrow> (\<forall>next r w. protect next r w =
     (if isSafeMethod (mq_Method r) \<or> verified r then next r (add_all (mint r) w)
      else (None, writeCSRFError r w)))"

subsection \<open>Which requests reach the application\<close>

definition request_id :: "chain_env \<Rightarrow> mw_request \<Rightarrow> string" where
  "request_id e r = (if isValidRequestID (mq_Get r HeaderRequestID) then mq_Get r HeaderRequestID else newRequestID (ce_rnd e) (ce_now e))"

definition allowed_origin :: "chain_env \<Rightarrow> mw_request \<Rightarrow> bool" where
  "allowed_origin e r \<longleftrightarrow> mq_Get r ''Origin'' \<noteq> '''' \<and> mq_Get r ''Origin'' \<in> set (ce_CORSAllowedOrigins e)"

definition preflight :: "chain_env \<Rightarrow> mw_request \<Rightarrow> bool" where
  "preflight e r \<longleftrightarrow> allowed_origin e r \<and> mq_Method r = ''OPTIONS''"

text \<open>The request as the application sees it.\<close>

definition seen :: "chain_env \<Rightarrow> mw_request \<Rightarrow> mw_request" where
  "seen e r = r\<lparr>mq_RequestID := Some (request_id e r),
     mq_RealIP := Some (case ce_addressKey e (r\<lparr>mq_RequestID := Some (request_id e r)\<rparr>) of Inl _ \<Rightarrow> '''' | Inr a \<Rightarrow> a),
     mq_LogSlot := True\<rparr>"

lemma seen_sel [simp]:
  "mq_Method (seen e r) = mq_Method r" "mq_Path (seen e r) = mq_Path r" "mq_Get (seen e r) k = mq_Get r k"
  "mq_RequestID (seen e r) = Some (request_id e r)"
  by (simp_all add: seen_def mq_Get_def)

definition admitted :: "chain_env \<Rightarrow> (mw_request \<Rightarrow> bool) \<Rightarrow> mw_request \<Rightarrow> bool" where
  "admitted e verified r \<longleftrightarrow> \<not> preflight e r \<and>
     (isSafeMethod (mq_Method r) \<or> mq_Get r ''Authorization'' \<noteq> '''' \<or> verified (seen e r))"

subsection \<open>Writers before the first write\<close>

definition unsent :: "writer \<Rightarrow> bool" where
  "unsent w \<longleftrightarrow> w_Sent w = None \<and> w_Body w = [] \<and> w_Log w = [] \<and>
     w_Recorder w = Some \<lparr>sr_status = 200, sr_wroteHeader = False\<rparr>"

lemma unsent_hdr [simp]: "unsent (hdr_Set k v w) = unsent w" "unsent (hdr_Add k v w) = unsent w"
  by (simp_all add: unsent_def hdr_Set_def hdr_Add_def)

lemma set_all_simps [simp]: "set_all [] w = w" "set_all (h # hs) w = set_all hs (hdr_Set (fst h) (snd h) w)"
  by (simp_all add: set_all_def split_beta)

lemma add_all_simps [simp]: "add_all [] w = w" "add_all (h # hs) w = add_all hs (hdr_Add (fst h) (snd h) w)"
  by (simp_all add: add_all_def split_beta)

lemma unsent_set_all [simp]: "unsent (set_all hs w) = unsent w"
  by (induction hs arbitrary: w) simp_all

lemma unsent_add_all [simp]: "unsent (add_all hs w) = unsent w"
  by (induction hs arbitrary: w) simp_all

text \<open>The values of a header.\<close>

definition hvals :: "headers \<Rightarrow> string \<Rightarrow> string list" where
  "hvals h k = (case map_of h k of None \<Rightarrow> [] | Some vs \<Rightarrow> vs)"

lemma hvals_hdr [simp]:
  "hvals (w_Header (hdr_Set k v w)) k' = (if k' = k then [v] else hvals (w_Header w) k')"
  "hvals (w_Header (hdr_Add k v w)) k' = (if k' = k then hvals (w_Header w) k @ [v] else hvals (w_Header w) k')"
  by (simp_all add: hvals_def hdr_Set_def hdr_Add_def gomap_simps)

lemma hvals_set_all_other [simp]: "k \<notin> fst ` set hs \<Longrightarrow> hvals (w_Header (set_all hs w)) k = hvals (w_Header w) k"
  by (induction hs arbitrary: w) auto

lemma hvals_add_all_other [simp]: "k \<notin> fst ` set hs \<Longrightarrow> hvals (w_Header (add_all hs w)) k = hvals (w_Header w) k"
  by (induction hs arbitrary: w) auto

lemma hvals_set_all: "distinct (map fst hs) \<Longrightarrow> (k, v) \<in> set hs \<Longrightarrow> hvals (w_Header (set_all hs w)) k = [v]"
proof (induction hs arbitrary: w)
  case (Cons h hs)
  then show ?case by (cases "h = (k, v)") (auto simp: image_iff)
qed simp

lemma hvals_add_all_member: "v \<in> set (hvals (w_Header w) k) \<Longrightarrow> v \<in> set (hvals (w_Header (add_all hs w)) k)"
proof (induction hs arbitrary: w)
  case (Cons h hs)
  from Cons.prems have "v \<in> set (hvals (w_Header (hdr_Add (fst h) (snd h) w)) k)" by auto
  from Cons.IH [OF this] show ?case by simp
qed simp

subsection \<open>The application's script\<close>

text \<open>What a script sends, computed from its calls alone.\<close>

fun script_status :: "action list \<Rightarrow> nat option" where
  "script_status [] = None"
| "script_status (WriteHeader c # as) = Some c"
| "script_status (Write b # as) = Some 200"
| "script_status (a # as) = script_status as"

fun script_body :: "action list \<Rightarrow> string" where
  "script_body [] = []"
| "script_body (Write b # as) = b @ script_body as"
| "script_body (a # as) = script_body as"

fun sets_name :: "action \<Rightarrow> string option" where
  "sets_name (SetHeader k v) = Some k"
| "sets_name (AddHeader k v) = Some k"
| "sets_name _ = None"

text \<open>Informational statuses are not a response; no handler of the program sends one.\<close>

fun final_action :: "action \<Rightarrow> bool" where
  "final_action (WriteHeader c) \<longleftrightarrow> c < 100 \<or> 199 < c \<or> c = 101"
| "final_action _ \<longleftrightarrow> True"

definition committed :: "nat \<Rightarrow> writer \<Rightarrow> bool" where
  "committed c w \<longleftrightarrow> (\<exists>h. w_Sent w = Some (c, h)) \<and> w_Recorder w = Some \<lparr>sr_status = c, sr_wroteHeader = True\<rparr>"

lemmas writer_defs = sr_WriteHeader_def sr_Write_def raw_WriteHeader_def raw_Write_def hdr_Set_def hdr_Add_def RecordUserIDForLog_def

lemma act_log [simp]: "w_Log (act r a w) = w_Log w"
  by (cases a) (auto simp: writer_defs Let_def split: option.splits)

lemma fold_act_log [simp]: "w_Log (fold (act r) as w) = w_Log w"
  by (induction as arbitrary: w) auto

lemma act_committed: "committed c w \<Longrightarrow> committed c (act r a w) \<and> w_Body (act r a w) = w_Body w @ script_body [a]"
  by (cases a) (auto simp: committed_def writer_defs Let_def)

lemma fold_committed:
  "committed c w \<Longrightarrow> committed c (fold (act r) as w) \<and> w_Body (fold (act r) as w) = w_Body w @ script_body as"
proof (induction as arbitrary: w)
  case (Cons a as)
  have "script_body (a # as) = script_body [a] @ script_body as" by (cases a) auto
  with Cons act_committed [OF Cons.prems, of r a] show ?case by simp
qed simp

lemma script_run:
  assumes "unsent w" and "list_all final_action as"
  shows "(case script_status as of
     None \<Rightarrow> unsent (fold (act r) as w) \<and> script_body as = []
   | Some c \<Rightarrow> committed c (fold (act r) as w) \<and> w_Body (fold (act r) as w) = script_body as)"
  using assms
proof (induction as arbitrary: w)
  case (Cons a as)
  have fin: "final_action a" "list_all final_action as" using Cons.prems(2) by auto
  have skip: ?case if "unsent (act r a w)" "script_status (a # as) = script_status as" "script_body (a # as) = script_body as"
    using Cons.IH [OF that(1) fin(2)] that by (simp split: option.splits)
  show ?case
  proof (cases a)
    case (WriteHeader c)
    then have "committed c (act r a w)" "w_Body (act r a w) = []"
      using Cons.prems(1) fin by (auto simp: committed_def unsent_def writer_defs Let_def)
    with fold_committed [of c "act r a w" r as] WriteHeader show ?thesis by simp
  next
    case (Write b)
    then have "committed 200 (act r a w)" "w_Body (act r a w) = b"
      using Cons.prems(1) by (auto simp: committed_def unsent_def writer_defs Let_def)
    with fold_committed [of 200 "act r a w" r as] Write show ?thesis by simp
  next
    case (RecordUserID u)
    then show ?thesis using Cons.prems(1) by (intro skip) (auto simp: unsent_def writer_defs)
  qed (use Cons.prems(1) in \<open>(intro skip; simp)+\<close>)
qed simp


subsection \<open>Through the chain\<close>

lemma rootHandler_unfold:
  "rootHandler e root = RequestID (ce_rnd e) (ce_now e) (RealIP (ce_addressKey e) (Logging [''/health'', ''/health/ready''] (ce_elapsed e)
     (ce_secureheaders e (CORS (ce_csrfHeader e) (ce_CORSAllowedOrigins e) (CSRF (ce_protect e) (Recovery (ce_stack e) root))))))"
  by (simp add: rootHandler_def Chain_def)

text \<open>The headers the CORS middleware leaves for the request.\<close>

definition cors_writer :: "chain_env \<Rightarrow> mw_request \<Rightarrow> writer \<Rightarrow> writer" where
  "cors_writer e r w =
     (if ce_CORSAllowedOrigins e = [] then w
      else let w1 = hdr_Add ''Vary'' ''Origin'' w in
        if \<not> allowed_origin e r then w1
        else hdr_Set ''Access-Control-Expose-Headers'' corsExposedHeaders
          (hdr_Set ''Access-Control-Allow-Credentials'' ''true'' (hdr_Set ''Access-Control-Allow-Origin'' (mq_Get r ''Origin'') w1)))"

definition preflight_answer :: "chain_env \<Rightarrow> writer \<Rightarrow> writer" where
  "preflight_answer e w = sr_WriteHeader 204 (hdr_Set ''Access-Control-Max-Age'' corsMaxAge
     (hdr_Set ''Access-Control-Allow-Headers'' (corsAllowedHeaders (ce_csrfHeader e))
       (hdr_Set ''Access-Control-Allow-Methods'' corsAllowedMethods w)))"

lemma CORS_cases:
  "CORS (ce_csrfHeader e) (ce_CORSAllowedOrigins e) next r w =
     (if preflight e r then (None, preflight_answer e (cors_writer e r w)) else next r (cors_writer e r w))"
  by (auto simp: CORS_def preflight_def preflight_answer_def allowed_origin_def cors_writer_def Let_def)

text \<open>The writer with which the request gets past the CSRF gate.\<close>

definition gate_writer :: "(mw_request \<Rightarrow> (string \<times> string) list) \<Rightarrow> mw_request \<Rightarrow> writer \<Rightarrow> writer" where
  "gate_writer mint r w = (if \<not> isSafeMethod (mq_Method r) \<and> mq_Get r ''Authorization'' \<noteq> '''' then w else add_all (mint r) w)"

lemma CSRF_cases:
  assumes "csrf_protector verified mint protect"
  shows "CSRF protect next r w =
    (if isSafeMethod (mq_Method r) \<or> mq_Get r ''Authorization'' \<noteq> '''' \<or> verified r then next r (gate_writer mint r w)
     else (None, writeCSRFError r w))"
  using assms by (auto simp: CSRF_def csrf_protector_def gate_writer_def)

definition first_writer :: "chain_env \<Rightarrow> (string \<times> string) list \<Rightarrow> mw_request \<Rightarrow> writer" where
  "first_writer e hs r = set_all hs ((hdr_Set HeaderRequestID (request_id e r) new_writer)
     \<lparr>w_Recorder := Some \<lparr>sr_status = 200, sr_wroteHeader = False\<rparr>, w_UserIDForLog := ''''\<rparr>)"

text \<open>What happens between the access log and the application.\<close>

definition inside :: "chain_env \<Rightarrow> (mw_request \<Rightarrow> bool) \<Rightarrow> (mw_request \<Rightarrow> (string \<times> string) list) \<Rightarrow> (string \<times> string) list
    \<Rightarrow> http_handler \<Rightarrow> mw_request \<Rightarrow> panic option \<times> writer" where
  "inside e verified mint hs root r =
     (let r1 = seen e r; w1 = cors_writer e r1 (first_writer e hs r) in
      if preflight e r then (None, preflight_answer e w1)
      else if admitted e verified r then Recovery (ce_stack e) root r1 (gate_writer mint r1 w1)
      else (None, writeCSRFError r1 w1))"

definition access_line :: "chain_env \<Rightarrow> mw_request \<Rightarrow> writer \<Rightarrow> log_line" where
  "access_line e r w =
     (let status = (case w_Recorder w of None \<Rightarrow> 200 | Some rec \<Rightarrow> sr_status rec) in
      \<lparr>ll_Level = log_level_of [''/health'', ''/health/ready''] (mq_Path r) status, ll_Msg = ''http request'',
       ll_Attrs = [(''method'', AText (mq_Method r)), (''path'', AText (mq_Path r)), (''status'', ANum (int status)),
                   (''duration'', AText (ce_elapsed e)), (''request_id'', AText (request_id e r))] @
                  (if w_UserIDForLog w \<noteq> '''' then [(''user_id'', AText (w_UserIDForLog w))] else []) @
                  (if status \<ge> 400 then [(''error'', AText (StatusText status))] else [])\<rparr>)"

lemma preflight_seen [simp]: "preflight e (seen e r) = preflight e r"
  by (simp add: preflight_def allowed_origin_def)

lemma rootHandler_inside:
  assumes "sets_headers hs (ce_secureheaders e)" and "csrf_protector verified mint (ce_protect e)"
  shows "rootHandler e root r new_writer =
    (case inside e verified mint hs root r of
       (Some p, w) \<Rightarrow> (Some p, w\<lparr>w_Recorder := None\<rparr>)
     | (None, w) \<Rightarrow> (None, w\<lparr>w_Recorder := None, w_Log := w_Log w @ [access_line e r w]\<rparr>))"
proof -
  have req: "r\<lparr>mq_RequestID := Some (request_id e r), mq_RealIP := Some a, mq_LogSlot := True\<rparr> = seen e r"
    if "a = (case ce_addressKey e (r\<lparr>mq_RequestID := Some (request_id e r)\<rparr>) of Inl _ \<Rightarrow> '''' | Inr a \<Rightarrow> a)" for a
    using that by (simp add: seen_def)
  have "admitted e verified r \<longleftrightarrow> \<not> preflight e r \<and>
     (isSafeMethod (mq_Method (seen e r)) \<or> mq_Get (seen e r) ''Authorization'' \<noteq> '''' \<or> verified (seen e r))"
    by (simp add: admitted_def)
  then have in_eq: "ce_secureheaders e (CORS (ce_csrfHeader e) (ce_CORSAllowedOrigins e) (CSRF (ce_protect e) (Recovery (ce_stack e) root)))
       (seen e r) ((hdr_Set HeaderRequestID (request_id e r) new_writer)
     \<lparr>w_Recorder := Some \<lparr>sr_status = 200, sr_wroteHeader = False\<rparr>, w_UserIDForLog := ''''\<rparr>) = inside e verified mint hs root r"
    using assms(1) by (auto simp: sets_headers_def CORS_cases CSRF_cases [OF assms(2)] inside_def first_writer_def Let_def)
  have none: "w_Recorder (hdr_Set k v new_writer) = None" for k v by (simp add: hdr_Set_def new_writer_def)
  have rid: "(if \<not> isValidRequestID (mq_Get r HeaderRequestID) then newRequestID (ce_rnd e) (ce_now e) else mq_Get r HeaderRequestID) = request_id e r"
    by (simp add: request_id_def)
  show ?thesis
    unfolding rootHandler_unfold RequestID_def RealIP_def Logging_def Let_def rid
    by (simp add: req in_eq none RequestIDFromContext_def access_line_def Let_def split: prod.splits option.splits)
qed


lemma unsent_chain [simp]:
  "unsent (first_writer e hs r)" "unsent (cors_writer e r w) = unsent w" "unsent (gate_writer mint r w) = unsent w"
  by (simp_all add: first_writer_def cors_writer_def gate_writer_def Let_def)
    (simp add: unsent_def new_writer_def hdr_Set_def)

lemma committed_answers:
  assumes "unsent w"
  shows "committed 204 (preflight_answer e w) \<and> w_Body (preflight_answer e w) = [] \<and> w_Log (preflight_answer e w) = []"
    and "committed 403 (writeCSRFError r w) \<and> w_Body (writeCSRFError r w) = json_error_text ''CSRF verification failed'' @ [CHR 0x0A] \<and>
      w_Log (writeCSRFError r w) = []"
  using assms by (auto simp: unsent_def committed_def preflight_answer_def writeCSRFError_def writer_defs Let_def)

text \<open>What the client gets of a script that may end in a panic.\<close>

definition script_outcome :: "action list \<times> panic option \<Rightarrow> nat \<times> string" where
  "script_outcome s = (case s of (as, p) \<Rightarrow>
     case script_status as of
       Some c \<Rightarrow> (c, script_body as)
     | None \<Rightarrow> (case p of Some (Panic v) \<Rightarrow> (500, json_error_text ''internal server error'') | _ \<Rightarrow> (200, [])))"

definition settled :: "nat \<Rightarrow> writer \<Rightarrow> bool" where
  "settled c w \<longleftrightarrow> committed c w \<or> (w_Sent w = None \<and> c = 200 \<and> w_Recorder w = Some \<lparr>sr_status = 200, sr_wroteHeader = False\<rparr>)"

lemma settled_response:
  assumes "settled c w"
  shows "fst (response w) = c" and "(case w_Recorder w of None \<Rightarrow> 200 | Some rec \<Rightarrow> sr_status rec) = c"
  using assms by (auto simp: settled_def committed_def response_def)

lemma settled_log [simp]: "settled c (w\<lparr>w_Log := l\<rparr>) = settled c w" "committed c (w\<lparr>w_Log := l\<rparr>) = committed c w"
  by (simp_all add: settled_def committed_def)

lemma Recovery_script:
  assumes "unsent w" and "list_all final_action as" and "f r = (as, p)" and "p \<noteq> Some ErrAbortHandler"
  shows "\<exists>w' lines. Recovery stack (application f) r w = (None, w') \<and> w_Log w' = lines \<and>
    settled (fst (script_outcome (as, p))) w' \<and> w_Body w' = snd (script_outcome (as, p)) \<and>
    (lines = [] \<or> (\<exists>l. lines = [l] \<and> ll_Msg l = ''panic recovered'') \<and> p \<noteq> None)"
proof -
  let ?w = "fold (act r) as w"
  note run = script_run [OF assms(1,2), of r]
  have log: "w_Log ?w = []" using assms(1) by (simp add: unsent_def)
  have started: "responseStarted ?w \<longleftrightarrow> script_status as \<noteq> None"
    using run by (auto simp: responseStarted_def HeaderWritten_def committed_def unsent_def split: option.splits)
  show ?thesis
  proof (cases p)
    case None
    with run log assms(3) show ?thesis
      by (cases "script_status as") (auto simp: Recovery_def application_def script_outcome_def settled_def unsent_def)
  next
    case (Some q)
    with assms(4) obtain v where p: "p = Some (Panic v)" by (cases q) auto
    show ?thesis
    proof (cases "script_status as")
      case None
      with run have u: "unsent ?w" by simp
      then show ?thesis
        using p None started assms(3) log
        by (simp add: Recovery_def application_def script_outcome_def settled_def Let_def)
          (auto simp: unsent_def committed_def writer_defs Let_def)
    next
      case (Some c)
      with run have "committed c ?w" "w_Body ?w = script_body as" by simp_all
      then show ?thesis
        using p Some started assms(3) log
        by (simp add: Recovery_def application_def script_outcome_def settled_def Let_def)
    qed
  qed
qed

lemma Recovery_abort:
  assumes "f r = (as, Some ErrAbortHandler)"
  shows "Recovery stack (application f) r w = (Some ErrAbortHandler, fold (act r) as w)"
  by (simp add: Recovery_def application_def assms)

lemma valid_hex_id: "length b = 16 \<Longrightarrow> isValidRequestID (hex_bytes b)"
proof -
  assume "length b = 16"
  moreover have "list_all (\<lambda>c. (97 \<le> byte c \<and> byte c \<le> 122) \<or> (65 \<le> byte c \<and> byte c \<le> 90) \<or> is_digit c \<or> c = CHR ''-'' \<or> c = CHR ''_'') (hex_bytes b)"
    unfolding list_all_iff using hex_bytes_hex by (fastforce simp: is_hex_def)
  moreover have "hex_bytes b \<noteq> []" if "length b = 16" using length_hex_bytes [of b] that by fastforce
  ultimately show ?thesis by (simp add: isValidRequestID_def maxRequestIDLen_def)
qed

lemma request_id_valid:
  assumes "ce_rnd e = Inr b" and "length b = 16"
  shows "isValidRequestID (request_id e r)"
  using valid_hex_id [OF assms(2)] by (simp add: request_id_def newRequestID_def assms(1))

text \<open>The answer of the middlewares and the application together, unless it is the abort signal.\<close>

definition answer_of :: "chain_env \<Rightarrow> (mw_request \<Rightarrow> bool) \<Rightarrow> (mw_request \<Rightarrow> action list \<times> panic option) \<Rightarrow> mw_request \<Rightarrow> nat \<times> string" where
  "answer_of e verified f r =
     (if preflight e r then (204, [])
      else if admitted e verified r then script_outcome (f (seen e r))
      else (403, json_error_text ''CSRF verification failed'' @ [CHR 0x0A]))"

lemma inside_outcome:
  assumes "list_all final_action (fst (f (seen e r)))" and "\<not> (admitted e verified r \<and> snd (f (seen e r)) = Some ErrAbortHandler)"
  shows "\<exists>w' c. inside e verified mint hs (application f) r = (None, w') \<and> settled c w' \<and> (c, w_Body w') = answer_of e verified f r \<and>
    (w_Log w' = [] \<or> (\<exists>l. w_Log w' = [l] \<and> ll_Msg l = ''panic recovered'') \<and> admitted e verified r \<and> snd (f (seen e r)) \<noteq> None)"
proof (cases "admitted e verified r")
  case True
  let ?r = "seen e r" and ?w1 = "cors_writer e (seen e r) (first_writer e hs r)"
  obtain as q where f: "f ?r = (as, q)" by fastforce
  from True have "\<not> preflight e r" by (simp add: admitted_def)
  moreover obtain w' lines where "Recovery (ce_stack e) (application f) ?r (gate_writer mint ?r ?w1) = (None, w')" "w_Log w' = lines"
    "settled (fst (script_outcome (as, q))) w'" "w_Body w' = snd (script_outcome (as, q))"
    "lines = [] \<or> (\<exists>l. lines = [l] \<and> ll_Msg l = ''panic recovered'') \<and> q \<noteq> None"
    using Recovery_script [of "gate_writer mint ?r ?w1" as f ?r q "ce_stack e"] assms f True by auto
  ultimately show ?thesis using True f
    by (intro exI [of _ w'] exI [of _ "fst (script_outcome (as, q))"]) (auto simp: inside_def answer_of_def)
next
  case no: False
  have "unsent (cors_writer e (seen e r) (first_writer e hs r))" by simp
  note answers = committed_answers [OF this]
  show ?thesis
  proof (cases "preflight e r")
    case True
    then show ?thesis using answers(1) [of e] by (auto simp: inside_def settled_def answer_of_def Let_def)
  next
    case False
    then show ?thesis using no answers(2) [of "seen e r"] by (auto simp: inside_def settled_def answer_of_def Let_def)
  qed
qed

text \<open>
  C28. Every request through the chain, whatever the application behind it does. A preflight of an allowed origin is answered 204 and a
  request that fails the CSRF check 403, without running the application. Otherwise the client gets exactly what the
  application sent, also when it panicked afterwards; when it panicked before sending anything, a 500 with a fixed
  body that says nothing of the panic. In all these cases the access log gets exactly one line, last, with the status the client got, its
  level, and the request ID, which is well formed; a panic adds one line before it. Only the server's own abort
  signal passes through, and then nothing at all is logged.
\<close>

theorem request_served_and_logged:
  assumes "sets_headers hs (ce_secureheaders e)" and "csrf_protector verified mint (ce_protect e)"
    and "ce_rnd e = Inr rnd" and "length rnd = 16"
    and "list_all final_action (fst (f (seen e r)))"
    and run: "rootHandler e (application f) r new_writer = (p, w)"
  shows "if admitted e verified r \<and> snd (f (seen e r)) = Some ErrAbortHandler then p = Some ErrAbortHandler \<and> w_Log w = []
    else p = None \<and>
      (fst (response w), w_Body w) =
        answer_of e verified f r \<and>
      (\<exists>before line. w_Log w = before @ [line] \<and> ll_Msg line = ''http request'' \<and>
         map_of (ll_Attrs line) ''status'' = Some (ANum (int (fst (response w)))) \<and>
         ll_Level line = log_level_of [''/health'', ''/health/ready''] (mq_Path r) (fst (response w)) \<and>
         map_of (ll_Attrs line) ''request_id'' = Some (AText (request_id e r)) \<and> isValidRequestID (request_id e r) \<and>
         (before = [] \<or> (\<exists>l. before = [l] \<and> ll_Msg l = ''panic recovered'') \<and> admitted e verified r \<and> snd (f (seen e r)) \<noteq> None))"
proof -
  let ?r = "seen e r" and ?w1 = "cors_writer e (seen e r) (first_writer e hs r)"
  obtain as q where f: "f ?r = (as, q)" by fastforce
  note root = rootHandler_inside [OF assms(1,2), of "application f" r]
  show ?thesis
  proof (cases "admitted e verified r \<and> q = Some ErrAbortHandler")
    case True
    then have "inside e verified mint hs (application f) r = (Some ErrAbortHandler, fold (act ?r) as (gate_writer mint ?r ?w1))"
      using f by (simp add: inside_def Let_def Recovery_abort admitted_def)
    moreover have "unsent (gate_writer mint ?r ?w1)" by simp
    then have "w_Log (gate_writer mint ?r ?w1) = []" by (simp add: unsent_def)
    ultimately show ?thesis using root run True f by auto
  next
    case False
    then obtain w' c where w': "inside e verified mint hs (application f) r = (None, w')" "settled c w'" "(c, w_Body w') = answer_of e verified f r"
      "w_Log w' = [] \<or> (\<exists>l. w_Log w' = [l] \<and> ll_Msg l = ''panic recovered'') \<and> admitted e verified r \<and> q \<noteq> None"
      using inside_outcome [of f e r verified mint hs] assms(5) f by auto
    note st = settled_response [OF w'(2)]
    have w: "p = None" "w = w'\<lparr>w_Recorder := None, w_Log := w_Log w' @ [access_line e r w']\<rparr>" using root run w'(1) by auto
    have resp: "response w = response w'" "w_Body w = w_Body w'" by (simp_all add: w(2) response_def split: option.splits)
    have line: "ll_Msg (access_line e r w') = ''http request''" "map_of (ll_Attrs (access_line e r w')) ''status'' = Some (ANum (int c))"
      "ll_Level (access_line e r w') = log_level_of [''/health'', ''/health/ready''] (mq_Path r) c"
      "map_of (ll_Attrs (access_line e r w')) ''request_id'' = Some (AText (request_id e r))"
      using st(2) by (simp_all add: access_line_def Let_def)
    have "\<exists>before line. w_Log w = before @ [line] \<and> ll_Msg line = ''http request'' \<and>
         map_of (ll_Attrs line) ''status'' = Some (ANum (int c)) \<and>
         ll_Level line = log_level_of [''/health'', ''/health/ready''] (mq_Path r) c \<and>
         map_of (ll_Attrs line) ''request_id'' = Some (AText (request_id e r)) \<and> isValidRequestID (request_id e r) \<and>
         (before = [] \<or> (\<exists>l. before = [l] \<and> ll_Msg l = ''panic recovered'') \<and> admitted e verified r \<and> q \<noteq> None)"
      using line w'(4) request_id_valid [OF assms(3,4)]
      by (intro exI [of _ "w_Log w'"] exI [of _ "access_line e r w'"]) (simp add: w(2))
    with False w(1) w'(3) st(1) f show ?thesis unfolding resp by simp
  qed
qed


subsection \<open>The headers of every response\<close>

text \<open>A header nobody touches any more keeps its values until they are sent.\<close>

definition will_send :: "string \<Rightarrow> (string list \<Rightarrow> bool) \<Rightarrow> writer \<Rightarrow> bool" where
  "will_send k P w \<longleftrightarrow> P (hvals (w_Header w) k) \<and> (\<forall>c h. w_Sent w = Some (c, h) \<longrightarrow> P (hvals h k))"

lemma will_send_response: "will_send k P w \<Longrightarrow> P (hvals (snd (response w)) k)"
  by (auto simp: will_send_def response_def split: option.splits)

lemma will_send_unsent: "unsent w \<Longrightarrow> will_send k P w \<longleftrightarrow> P (hvals (w_Header w) k)"
  by (simp add: will_send_def unsent_def)

lemma w_Sent_hdr [simp]: "w_Sent (hdr_Set k v w) = w_Sent w" "w_Sent (hdr_Add k v w) = w_Sent w"
  by (simp_all add: hdr_Set_def hdr_Add_def)

lemma will_send_hdr:
  "k' \<noteq> k \<Longrightarrow> will_send k P (hdr_Set k' v w) = will_send k P w" "k' \<noteq> k \<Longrightarrow> will_send k P (hdr_Add k' v w) = will_send k P w"
  by (simp_all add: will_send_def)

lemma will_send_raw:
  "will_send k P w \<Longrightarrow> will_send k P (raw_WriteHeader c w)" "will_send k P w \<Longrightarrow> will_send k P (raw_Write b w)"
  by (auto simp: will_send_def raw_WriteHeader_def raw_Write_def Let_def split: if_splits)

lemma will_send_rec [simp]:
  "will_send k P (w\<lparr>w_Recorder := x\<rparr>) = will_send k P w" "will_send k P (w\<lparr>w_Log := l\<rparr>) = will_send k P w"
  "will_send k P (w\<lparr>w_UserIDForLog := u\<rparr>) = will_send k P w"
  by (simp_all add: will_send_def)

lemma will_send_sr:
  "will_send k P w \<Longrightarrow> will_send k P (sr_WriteHeader c w)" "will_send k P w \<Longrightarrow> will_send k P (sr_Write b w)"
  by (auto simp: sr_WriteHeader_def sr_Write_def intro!: will_send_raw split: option.splits)

lemma will_send_act: "will_send k P w \<Longrightarrow> sets_name a \<noteq> Some k \<Longrightarrow> will_send k P (act r a w)"
  by (cases a) (auto simp: will_send_hdr RecordUserIDForLog_def intro: will_send_sr)

lemma will_send_fold: "will_send k P w \<Longrightarrow> (\<forall>a \<in> set as. sets_name a \<noteq> Some k) \<Longrightarrow> will_send k P (fold (act r) as w)"
  by (induction as arbitrary: w) (auto intro: will_send_act)

lemma will_send_Recovery:
  assumes "will_send k P w" and "k \<noteq> ''Content-Type''" and "\<forall>a \<in> set (fst (f r)). sets_name a \<noteq> Some k"
  shows "will_send k P (snd (Recovery stack (application f) r w))"
proof -
  obtain as p where f: "f r = (as, p)" by fastforce
  with assms have "will_send k P (fold (act r) as w)" by (auto intro: will_send_fold)
  with f assms(2) show ?thesis
    by (auto simp: Recovery_def application_def Let_def will_send_hdr intro!: will_send_sr split: option.splits panic.splits)
qed

definition cors_names :: "string set" where
  "cors_names = {''Access-Control-Allow-Origin'', ''Access-Control-Allow-Credentials'', ''Access-Control-Expose-Headers'',
     ''Access-Control-Allow-Methods'', ''Access-Control-Allow-Headers'', ''Access-Control-Max-Age''}"

text \<open>What holds of a header before the gate, and is kept by it, holds of the response when the application does not touch it.\<close>

lemma response_header:
  assumes lib: "sets_headers hs (ce_secureheaders e)" "csrf_protector verified mint (ce_protect e)"
    and run: "rootHandler e (application f) r new_writer = (p, w)"
    and gate: "\<And>w. P (hvals (w_Header w) k) \<Longrightarrow> P (hvals (w_Header (add_all (mint (seen e r)) w)) k)"
    and k: "k \<noteq> ''Content-Type''" "k \<notin> {''Access-Control-Allow-Methods'', ''Access-Control-Allow-Headers'', ''Access-Control-Max-Age''}"
    and app: "\<forall>a \<in> set (fst (f (seen e r))). sets_name a \<noteq> Some k"
    and before: "P (hvals (w_Header (cors_writer e (seen e r) (first_writer e hs r))) k)"
  shows "P (hvals (snd (response w)) k)"
proof -
  let ?w1 = "cors_writer e (seen e r) (first_writer e hs r)" and ?in = "inside e verified mint hs (application f) r"
  have w1: "will_send k P ?w1" using before by (simp add: will_send_unsent)
  have "will_send k P (gate_writer mint (seen e r) ?w1)" using gate before by (simp add: will_send_unsent gate_writer_def)
  then have "will_send k P (snd (Recovery (ce_stack e) (application f) (seen e r) (gate_writer mint (seen e r) ?w1)))"
    using will_send_Recovery [of k P _ f "seen e r"] k(1) app by blast
  moreover have "will_send k P (preflight_answer e ?w1)" "will_send k P (writeCSRFError (seen e r) ?w1)"
    using w1 k by (auto simp: preflight_answer_def writeCSRFError_def will_send_hdr intro!: will_send_sr)
  ultimately have "will_send k P (snd ?in)" by (simp add: inside_def Let_def)
  moreover have "response w = response (snd ?in)"
    using run unfolding rootHandler_inside [OF lib] by (auto simp: response_def split: prod.splits option.splits)
  ultimately show ?thesis by (metis will_send_response)
qed

lemma first_writer_id: "HeaderRequestID \<notin> fst ` set hs \<Longrightarrow> hvals (w_Header (first_writer e hs r)) HeaderRequestID = [request_id e r]"
  by (simp add: first_writer_def)

lemma first_writer_other:
  "k \<notin> fst ` set hs \<Longrightarrow> k \<noteq> HeaderRequestID \<Longrightarrow> hvals (w_Header (first_writer e hs r)) k = []"
  by (simp add: first_writer_def) (simp add: hvals_def hdr_Set_def gomap_simps new_writer_def)

lemma cors_writer_other:
  "k \<notin> insert ''Vary'' cors_names \<Longrightarrow> hvals (w_Header (cors_writer e r w)) k = hvals (w_Header w) k"
  by (simp add: cors_writer_def cors_names_def Let_def)

text \<open>
  C29. The headers of every response, be it the application's, a preflight answer, a CSRF rejection or the 500 after a panic: every
  security header with its value, the request ID, and, when cross-origin access is configured, \<^verbatim>\<open>Vary: Origin\<close>.
  \<^verbatim>\<open>Access-Control-Allow-Origin\<close> is there exactly when the request's origin is on the list, and names just that origin.
  The application, the CSRF library and the security headers are taken not to write each other's header names.
\<close>

theorem every_response_carries_headers:
  assumes lib: "sets_headers hs (ce_secureheaders e)" "csrf_protector verified mint (ce_protect e)"
    and "distinct (map fst hs)" and hs: "fst ` set hs \<inter> (cors_names \<union> {''Vary'', ''Content-Type'', HeaderRequestID}) = {}"
    and mint: "fst ` set (mint (seen e r)) \<inter> (fst ` set hs \<union> cors_names \<union> {HeaderRequestID}) = {}"
    and app: "\<forall>a \<in> set (fst (f (seen e r))). \<forall>k. sets_name a = Some k \<longrightarrow> k \<notin> fst ` set hs \<union> cors_names \<union> {''Vary'', HeaderRequestID}"
    and run: "rootHandler e (application f) r new_writer = (p, w)"
  shows "(\<forall>(k, v) \<in> set hs. hvals (snd (response w)) k = [v]) \<and>
    hvals (snd (response w)) HeaderRequestID = [request_id e r] \<and>
    (ce_CORSAllowedOrigins e \<noteq> [] \<longrightarrow> ''Origin'' \<in> set (hvals (snd (response w)) ''Vary'')) \<and>
    hvals (snd (response w)) ''Access-Control-Allow-Origin'' = (if allowed_origin e r then [mq_Get r ''Origin''] else [])"
proof -
  let ?w0 = "first_writer e hs r" and ?acao = "''Access-Control-Allow-Origin''"
  have names: "?acao \<in> cors_names" "''Vary'' \<notin> cors_names" "''Content-Type'' \<notin> cors_names"
    "HeaderRequestID \<notin> insert ''Vary'' cors_names" "HeaderRequestID \<noteq> ''Content-Type''"
    "{''Access-Control-Allow-Methods'', ''Access-Control-Allow-Headers'', ''Access-Control-Max-Age''} \<subseteq> cors_names"
    by (simp_all add: cors_names_def HeaderRequestID_def)
  have app': "\<forall>a \<in> set (fst (f (seen e r))). sets_name a \<noteq> Some k" if "k \<in> fst ` set hs \<union> cors_names \<union> {''Vary'', HeaderRequestID}" for k
    using app that by blast
  have minted: "hvals (w_Header (add_all (mint (seen e r)) w1)) k = hvals (w_Header w1) k"
    if "k \<in> fst ` set hs \<union> cors_names \<union> {HeaderRequestID}" for k w1
    using mint that by (intro hvals_add_all_other) blast
  have sec: "hvals (snd (response w)) k = [v]" if kv: "(k, v) \<in> set hs" for k v
  proof -
    have k: "k \<in> fst ` set hs" using kv by force
    then have "k \<notin> insert ''Vary'' cors_names" "k \<noteq> ''Content-Type''" using hs by blast+
    note k2 = this
    have "hvals (w_Header (cors_writer e (seen e r) ?w0)) k = [v]"
      unfolding cors_writer_other [OF k2(1)] first_writer_def by (rule hvals_set_all [OF assms(3) kv])
    moreover have "hvals (w_Header (add_all (mint (seen e r)) w1)) k = [v]" if "hvals (w_Header w1) k = [v]" for w1
      using minted [of k w1] k that by simp
    moreover have "\<forall>a \<in> set (fst (f (seen e r))). sets_name a \<noteq> Some k" by (rule app') (use k in blast)
    moreover have "k \<notin> {''Access-Control-Allow-Methods'', ''Access-Control-Allow-Headers'', ''Access-Control-Max-Age''}"
      using k2(1) names(6) by blast
    ultimately show ?thesis using response_header [where P = "\<lambda>x. x = [v]", OF lib run, of k] k2(2) by blast
  qed
  have rid: "hvals (snd (response w)) HeaderRequestID = [request_id e r]"
  proof (rule response_header [where P = "\<lambda>x. x = [request_id e r]", OF lib run])
    show "hvals (w_Header (cors_writer e (seen e r) ?w0)) HeaderRequestID = [request_id e r]"
      using hs names(4) by (subst cors_writer_other) (auto intro!: first_writer_id)
    show "\<forall>a \<in> set (fst (f (seen e r))). sets_name a \<noteq> Some HeaderRequestID" by (rule app') simp
  qed (use minted [of HeaderRequestID] names in auto)
  have acao: "hvals (snd (response w)) ?acao = (if allowed_origin e r then [mq_Get r ''Origin''] else [])"
  proof (rule response_header [where P = "\<lambda>x. x = (if allowed_origin e r then [mq_Get r ''Origin''] else [])", OF lib run])
    have "hvals (w_Header ?w0) ?acao = []" using hs names(1,4) by (intro first_writer_other) auto
    moreover have "allowed_origin e (seen e r) = allowed_origin e r" by (simp add: allowed_origin_def)
    ultimately show "hvals (w_Header (cors_writer e (seen e r) ?w0)) ?acao = (if allowed_origin e r then [mq_Get r ''Origin''] else [])"
      by (auto simp: cors_writer_def Let_def allowed_origin_def)
    show "\<forall>a \<in> set (fst (f (seen e r))). sets_name a \<noteq> Some ?acao" by (rule app') (use names(1) in blast)
  qed (use minted [of ?acao] names(1) in auto)
  have vary: "''Origin'' \<in> set (hvals (snd (response w)) ''Vary'')" if on: "ce_CORSAllowedOrigins e \<noteq> []"
  proof (rule response_header [where P = "\<lambda>x. ''Origin'' \<in> set x", OF lib run hvals_add_all_member])
    show "''Origin'' \<in> set (hvals (w_Header (cors_writer e (seen e r) ?w0)) ''Vary'')" using on by (simp add: cors_writer_def Let_def)
    show "\<forall>a \<in> set (fst (f (seen e r))). sets_name a \<noteq> Some ''Vary''" by (rule app') simp
  qed auto
  from sec rid acao vary show ?thesis by blast
qed


subsection \<open>The CSRF gate and the authentication\<close>

definition credential :: "mw_request \<Rightarrow> auth_request" where
  "credential r = \<lparr>ar_Authorization = mq_Get r ''Authorization'', ar_Cookie = mq_Cookie r\<rparr>"

text \<open>
  C30. Where the gate and the authentication disagree. A mutating request that has an \<^verbatim>\<open>Authorization\<close> header without a bearer
  token in it (another scheme, or an empty token) passes the CSRF gate unchecked, whatever the protector would
  say, and is then authenticated exactly as if the header were absent: by its session cookie. A mutating request without that
  header goes through the protector; with a bearer token it is authenticated by the token and the cookie plays no part.
\<close>

theorem csrf_gate_ignores_scheme:
  assumes "\<not> isSafeMethod (mq_Method r)"
  shows "(mq_Get r ''Authorization'' \<noteq> '''' \<and> bearerToken (credential r) = None \<longrightarrow>
      CSRF protect next r w = next r w \<and>
      RequireAuth lib repo ctx clk (credential r) s = RequireAuth lib repo ctx clk \<lparr>ar_Authorization = '''', ar_Cookie = mq_Cookie r\<rparr> s) \<and>
    (mq_Get r ''Authorization'' = '''' \<longrightarrow> CSRF protect next r w = protect next r w) \<and>
    (\<forall>token cookie. bearerToken (credential r) = Some token \<longrightarrow> CSRF protect next r w = next r w \<and>
      RequireAuth lib repo ctx clk (credential r) s = RequireAuth lib repo ctx clk ((credential r)\<lparr>ar_Cookie := cookie\<rparr>) s)"
proof -
  have "mq_Get r ''Authorization'' \<noteq> ''''" if "bearerToken (credential r) = Some token" for token
    using that by (auto simp: bearerToken_def credential_def Let_def split: if_splits)
  moreover have "bearerToken \<lparr>ar_Authorization = '''', ar_Cookie = c\<rparr> = None" for c by (simp add: bearerToken_def)
  moreover have "bearerToken ((credential r)\<lparr>ar_Cookie := c\<rparr>) = bearerToken (credential r)" for c by (simp add: bearerToken_def Let_def)
  ultimately show ?thesis using assms
    by (auto simp: CSRF_def RequireAuth_def credentialSource_def) (simp_all add: credential_def)
qed

subsection \<open>Concrete requests\<close>

definition demo_env :: chain_env where
  "demo_env = \<lparr>ce_rnd = Inr demo_bytes, ce_now = 7, ce_addressKey = (\<lambda>_. Inr ''10.0.0.1''), ce_elapsed = ''1ms'', ce_stack = ''stack'',
     ce_secureheaders = (\<lambda>next r w. next r (set_all [(''X-Content-Type-Options'', ''nosniff'')] w)), ce_csrfHeader = ''X-CSRF-Token'',
     ce_CORSAllowedOrigins = [''https://app.example''],
     ce_protect = (\<lambda>next r w. if isSafeMethod (mq_Method r) then next r w else (None, writeCSRFError r w))\<rparr>"

definition demo_mw_request :: "string \<Rightarrow> (string, string) gomap \<Rightarrow> mw_request" where
  "demo_mw_request method hdr = \<lparr>mq_Method = method, mq_Path = ''/v1/tasks'', mq_Header = hdr, mq_Cookie = Some ''a'', mq_RequestID = None,
     mq_RealIP = None, mq_UserID = None, mq_SessionToken = None, mq_LogSlot = False\<rparr>"

lemma demo_env_libs:
  "sets_headers [(''X-Content-Type-Options'', ''nosniff'')] (ce_secureheaders demo_env)"
  "csrf_protector (\<lambda>_. False) (\<lambda>_. []) (ce_protect demo_env)" "ce_rnd demo_env = Inr demo_bytes" "length demo_bytes = 16"
  by (simp_all add: demo_env_def sets_headers_def csrf_protector_def demo_bytes_def)

text \<open>An application that panics before it answers.\<close>

abbreviation demo_panicking :: "mw_request \<Rightarrow> action list \<times> panic option" where
  "demo_panicking \<equiv> \<lambda>_. ([RecordUserID ''u1''], Some (Panic ''boom''))"

theorem request_served_and_logged_witness:
  "let w = snd (rootHandler demo_env (application demo_panicking) (demo_mw_request ''GET'' []) new_writer) in
   fst (response w) = 500 \<and> ll_Level (last (w_Log w)) = LogError"
proof -
  let ?r = "demo_mw_request ''GET'' []"
  obtain p w where run: "rootHandler demo_env (application demo_panicking) ?r new_writer = (p, w)" by fastforce
  have adm: "admitted demo_env (\<lambda>_. False) ?r" "\<not> preflight demo_env ?r"
    by (simp_all add: admitted_def preflight_def allowed_origin_def isSafeMethod_def demo_mw_request_def mq_Get_def)
  have "list_all final_action (fst (demo_panicking (seen demo_env ?r)))" by simp
  from request_served_and_logged [OF demo_env_libs this run] adm
  have st: "fst (response w) = 500" "\<exists>before line. w_Log w = before @ [line] \<and> ll_Level line = log_level_of [''/health'', ''/health/ready''] (mq_Path ?r) 500"
    by (auto simp: answer_of_def script_outcome_def)
  then have "ll_Level (last (w_Log w)) = LogError" by (auto simp: log_level_of_def)
  with st(1) run show ?thesis by simp
qed

theorem every_response_carries_headers_witness:
  "hvals (snd (response (snd (rootHandler demo_env (application demo_panicking)
     (demo_mw_request ''POST'' [(''Origin'', ''https://app.example'')]) new_writer)))) ''Access-Control-Allow-Origin'' = [''https://app.example'']"
proof -
  let ?r = "demo_mw_request ''POST'' [(''Origin'', ''https://app.example'')]"
  obtain p w where run: "rootHandler demo_env (application demo_panicking) ?r new_writer = (p, w)" by fastforce
  have "allowed_origin demo_env ?r" "mq_Get ?r ''Origin'' = ''https://app.example''"
    by (simp_all add: allowed_origin_def demo_mw_request_def mq_Get_def demo_env_def)
  with every_response_carries_headers [OF demo_env_libs(1,2) _ _ _ _ run] run show ?thesis
    by (simp add: cors_names_def HeaderRequestID_def)
qed

theorem csrf_gate_ignores_scheme_witness:
  "let r = demo_mw_request ''POST'' [(''Authorization'', ''Basic eDp5'')] in
   CSRF (ce_protect demo_env) (application demo_panicking) r new_writer = application demo_panicking r new_writer \<and>
   fst (RequireAuth demo_ulib userMemory ulive (\<lambda>_. 5) (credential r) demo_signed_in) = AuthPassed (u_ID demo_user) ''a''"
proof -
  let ?r = "demo_mw_request ''POST'' [(''Authorization'', ''Basic eDp5'')]"
  have "\<not> isSafeMethod (mq_Method ?r)" "mq_Get ?r ''Authorization'' \<noteq> ''''" "bearerToken (credential ?r) = None" "mq_Cookie ?r = Some ''a''"
    by (simp_all add: isSafeMethod_def demo_mw_request_def mq_Get_def bearerToken_def credential_def Let_def)
  moreover have "fst (RequireAuth demo_ulib userMemory ulive (\<lambda>_. 5) \<lparr>ar_Authorization = '''', ar_Cookie = Some ''a''\<rparr> demo_signed_in) =
      AuthPassed (u_ID demo_user) ''a''"
    by (simp add: RequireAuth_def credentialSource_def bearerToken_def ValidateToken_live tc_get_def demo_signed_in_def
        demo_accounts_def NewUserService_def Let_def)
  ultimately show ?thesis
    using csrf_gate_ignores_scheme [of ?r "ce_protect demo_env" "application demo_panicking" new_writer demo_ulib userMemory ulive "\<lambda>_. 5" demo_signed_in]
    by simp
qed

end
