(* ===== verification/Crier.thy ===== *)
theory Crier
  imports Config MiddlewareChain
begin

text \<open>
  Log mirroring (\<^verbatim>\<open>cmd/api/crier.go\<close>): the handler that passes every record of the logger on to the handler it wraps and
  sends a copy to the engine of the library \<^verbatim>\<open>crier\<close>, the construction and the draining of that engine, and what
  \<^verbatim>\<open>/debug/vars\<close> shows of it. The wrapped handler and the engine are parameters; what is proved holds for any of them.
\<close>

subsection \<open>Records of log/slog\<close>

text \<open>
  A \<^verbatim>\<open>slog.Value\<close> by its kind; of a group and of any other value only the text its \<^verbatim>\<open>String\<close> method gives is kept.
  A \<^verbatim>\<open>LogValuer\<close> stands for the value its method returns.
\<close>

datatype slog_value = KindString string | KindBool bool | KindInt64 int | KindUint64 nat | KindFloat64 float64
  | KindDuration duration | KindTime time | KindGroup string | KindAny string | KindLogValuer slog_value

text \<open>\<^verbatim>\<open>Resolve\<close> gives up after a hundred calls.\<close>

fun resolve_value :: "nat \<Rightarrow> slog_value \<Rightarrow> slog_value" where
  "resolve_value n (KindLogValuer v) = (if n = 0 then KindAny ''LogValue called too many times'' else resolve_value (n - 1) v)"
| "resolve_value n v = v"

definition Resolve :: "slog_value \<Rightarrow> slog_value" where
  "Resolve v = resolve_value 100 v"

type_synonym slog_attr = "string \<times> slog_value"

record slog_record =
  rc_Time :: time
  rc_Level :: int
  rc_Message :: string
  rc_Attrs :: "slog_attr list"

definition LevelDebug :: int where "LevelDebug = - 4"
definition LevelInfo :: int where "LevelInfo = 0"
definition LevelWarn :: int where "LevelWarn = 4"
definition LevelError :: int where "LevelError = 8"

lemmas level_defs = LevelDebug_def LevelInfo_def LevelWarn_def LevelError_def

definition level_name :: "string \<Rightarrow> int \<Rightarrow> string" where
  "level_name base n = (if n = 0 then base else base @ (if n > 0 then ''+'' else '''') @ Itoa n)"

definition Level_String :: "int \<Rightarrow> string" where
  "Level_String l =
     (if l < LevelInfo then level_name ''DEBUG'' (l - LevelDebug)
      else if l < LevelWarn then level_name ''INFO'' (l - LevelInfo)
      else if l < LevelError then level_name ''WARN'' (l - LevelWarn)
      else level_name ''ERROR'' (l - LevelError))"

text \<open>A handler \<open>'w\<close> with the operations of \<^verbatim>\<open>slog.Handler\<close>; handling a record changes the state \<open>'s\<close> of its output.\<close>

record ('w, 's) slog_ops =
  so_Enabled :: "'w \<Rightarrow> int \<Rightarrow> bool"
  so_Handle :: "'w \<Rightarrow> slog_record \<Rightarrow> 's \<Rightarrow> string option \<times> 's"
  so_WithAttrs :: "'w \<Rightarrow> slog_attr list \<Rightarrow> 'w"
  so_WithGroup :: "'w \<Rightarrow> string \<Rightarrow> 'w"

subsection \<open>The mirror\<close>

datatype severity = SeverityDebug | SeverityInfo | SeverityWarn | SeverityError

definition crierSeverity :: "int \<Rightarrow> severity" where
  "crierSeverity level =
     (if level \<ge> LevelError then SeverityError
      else if level \<ge> LevelWarn then SeverityWarn
      else if level \<ge> LevelInfo then SeverityInfo
      else SeverityDebug)"

datatype any_value = AnyString string | AnyBool bool | AnyInt64 int | AnyUint64 nat | AnyFloat64 float64 | AnyDuration duration | AnyTime time

text \<open>A resolved value is never a \<^verbatim>\<open>LogValuer\<close>; its clause is not reached.\<close>

fun crier_any :: "slog_value \<Rightarrow> any_value" where
  "crier_any (KindString s) = AnyString s"
| "crier_any (KindBool b) = AnyBool b"
| "crier_any (KindInt64 i) = AnyInt64 i"
| "crier_any (KindUint64 n) = AnyUint64 n"
| "crier_any (KindFloat64 f) = AnyFloat64 f"
| "crier_any (KindDuration d) = AnyDuration d"
| "crier_any (KindTime t) = AnyTime t"
| "crier_any (KindGroup text0) = AnyString text0"
| "crier_any (KindAny text0) = AnyString text0"
| "crier_any (KindLogValuer v) = AnyString []"

definition crierAttrValue :: "slog_value \<Rightarrow> any_value" where
  "crierAttrValue v = crier_any (Resolve v)"

record log_record =
  lg_Timestamp :: time
  lg_Severity :: severity
  lg_SeverityText :: string
  lg_Body :: string
  lg_Attributes :: "(string, any_value) gomap"

record 'w crierTeeHandler =
  ct_wrapped :: 'w
  ct_attrs :: "slog_attr list"

definition newCrierTeeHandler :: "'w \<Rightarrow> 'w crierTeeHandler" where
  "newCrierTeeHandler wrapped = \<lparr>ct_wrapped = wrapped, ct_attrs = []\<rparr>"

definition ct_Enabled :: "('w, 's) slog_ops \<Rightarrow> 'w crierTeeHandler \<Rightarrow> int \<Rightarrow> bool" where
  "ct_Enabled ops h level = so_Enabled ops (ct_wrapped h) level"

text \<open>The two loops that fill the map of attributes: those of the handler, then those of the record.\<close>

definition attr_map :: "slog_attr list \<Rightarrow> (string, any_value) gomap" where
  "attr_map as = fold (\<lambda>(k, v). AList.update k (crierAttrValue v)) as []"

definition mirrored :: "'w crierTeeHandler \<Rightarrow> slog_record \<Rightarrow> log_record" where
  "mirrored h rec = \<lparr>lg_Timestamp = rc_Time rec, lg_Severity = crierSeverity (rc_Level rec), lg_SeverityText = Level_String (rc_Level rec),
     lg_Body = rc_Message rec, lg_Attributes = attr_map (ct_attrs h @ rc_Attrs rec)\<rparr>"

text \<open>\<open>log\<close> is \<^verbatim>\<open>crier.Log\<close> of the engine with state \<open>'c\<close>; its error is dropped.\<close>

definition ct_Handle :: "('w, 's) slog_ops \<Rightarrow> (log_record \<Rightarrow> 'c \<Rightarrow> string option \<times> 'c) \<Rightarrow> 'w crierTeeHandler \<Rightarrow> slog_record
    \<Rightarrow> 's \<times> 'c \<Rightarrow> string option \<times> ('s \<times> 'c)" where
  "ct_Handle ops log h rec sc =
     (case sc of (s, c) \<Rightarrow>
      case so_Handle ops (ct_wrapped h) rec s of (werr, s') \<Rightarrow>
      case log (mirrored h rec) c of (_, c') \<Rightarrow> (werr, (s', c')))"

definition ct_WithAttrs :: "('w, 's) slog_ops \<Rightarrow> slog_attr list \<Rightarrow> 'w crierTeeHandler \<Rightarrow> 'w crierTeeHandler" where
  "ct_WithAttrs ops as h = \<lparr>ct_wrapped = so_WithAttrs ops (ct_wrapped h) as, ct_attrs = ct_attrs h @ as\<rparr>"

definition ct_WithGroup :: "('w, 's) slog_ops \<Rightarrow> string \<Rightarrow> 'w crierTeeHandler \<Rightarrow> 'w crierTeeHandler" where
  "ct_WithGroup ops name h = \<lparr>ct_wrapped = so_WithGroup ops (ct_wrapped h) name, ct_attrs = ct_attrs h\<rparr>"

subsection \<open>The engine\<close>

definition crierServiceName :: string where
  "crierServiceName = ''task-api''"

definition crierShutdownTimeout :: duration where
  "crierShutdownTimeout = 5 * Second"

definition crierHealthCheckMinSeverity :: severity where
  "crierHealthCheckMinSeverity = SeverityError"

datatype drop_reason = DropInvalid | DropRedactionFailed | DropSourceQuota | DropBufferFull | DropOldest | DropBackendUnavailable | DropShutdownTimeout

definition crierDropReasons :: "drop_reason list" where
  "crierDropReasons = [DropInvalid, DropRedactionFailed, DropSourceQuota, DropBufferFull, DropOldest, DropBackendUnavailable, DropShutdownTimeout]"

record crier_options =
  co_ServiceName :: string
  co_ServiceVersion :: string
  co_Endpoint :: string
  co_Rules :: "(string \<times> string \<times> severity) list"

text \<open>
  What \<^verbatim>\<open>/debug/vars\<close> reads: the engine current in the process (its options stand for it). \<open>otlp_New\<close> and \<open>core_New\<close> are the
  constructors of the library, with the error they report.
\<close>

definition buildCrier :: "(string \<Rightarrow> string option) \<Rightarrow> (crier_options \<Rightarrow> string option) \<Rightarrow> string \<Rightarrow> config
    \<Rightarrow> crier_options option \<Rightarrow> (string + crier_options option) \<times> crier_options option" where
  "buildCrier otlp_New core_New version cfg current =
     (if cf_CrierOTLPEndpoint cfg = '''' then (Inr None, None)
      else case otlp_New (cf_CrierOTLPEndpoint cfg) of
        Some err \<Rightarrow> (Inl (''crier: build otlp exporter: '' @ err), current)
      | None \<Rightarrow>
          (let opts = \<lparr>co_ServiceName = crierServiceName, co_ServiceVersion = version, co_Endpoint = cf_CrierOTLPEndpoint cfg,
                       co_Rules = [(''path'', ''/health'', crierHealthCheckMinSeverity)]\<rparr>
           in case core_New opts of
                Some err \<Rightarrow> (Inl (''crier: '' @ err), current)
              | None \<Rightarrow> (Inr (Some opts), Some opts)))"

text \<open>The entries of \<^verbatim>\<open>publishCrierExpvarOnce\<close>: \<open>depth\<close> and \<open>dropped\<close> read the engine and its counters.\<close>

definition crier_buffer_depth :: "('c \<Rightarrow> int) \<Rightarrow> 'c option \<Rightarrow> int" where
  "crier_buffer_depth depth c = (case c of None \<Rightarrow> 0 | Some x \<Rightarrow> depth x)"

definition crier_records_dropped :: "('c \<Rightarrow> drop_reason \<Rightarrow> int) \<Rightarrow> 'c option \<Rightarrow> (drop_reason \<times> int) list" where
  "crier_records_dropped dropped c = map (\<lambda>reason. (reason, case c of None \<Rightarrow> 0 | Some x \<Rightarrow> dropped x reason)) crierDropReasons"

record drain_summary =
  ds_Clean :: bool
  ds_Lost :: int
  ds_String :: string

definition logDrainSummary :: "drain_summary \<Rightarrow> log_line" where
  "logDrainSummary summary =
     (if ds_Clean summary
      then \<lparr>ll_Level = LogInfo, ll_Msg = ''crier drain completed'', ll_Attrs = [(''summary'', AText (ds_String summary))]\<rparr>
      else \<lparr>ll_Level = LogWarn, ll_Msg = ''crier drain incomplete'',
             ll_Attrs = [(''summary'', AText (ds_String summary)), (''lost'', ANum (ds_Lost summary))]\<rparr>)"

text \<open>\<open>drain\<close> is what \<^verbatim>\<open>c.Shutdown\<close> returns.\<close>

definition shutdownCrier :: "bool \<Rightarrow> drain_summary \<times> string option \<Rightarrow> string option \<times> log_line list" where
  "shutdownCrier present drain =
     (if \<not> present then (None, [])
      else case drain of (summary, err) \<Rightarrow>
        (case err of None \<Rightarrow> None | Some e \<Rightarrow> Some (''crier: shutdown: '' @ e), [logDrainSummary summary]))"

subsection \<open>A mirror, never a gate\<close>

datatype derive = WithAttrs "slog_attr list" | WithGroup string

text \<open>A logger derived from another, over the mirror and over the wrapped handler alone.\<close>

fun derived :: "('w, 's) slog_ops \<Rightarrow> derive list \<Rightarrow> 'w crierTeeHandler \<Rightarrow> 'w crierTeeHandler" where
  "derived ops [] h = h"
| "derived ops (WithAttrs as # ds) h = derived ops ds (ct_WithAttrs ops as h)"
| "derived ops (WithGroup g # ds) h = derived ops ds (ct_WithGroup ops g h)"

fun derived_alone :: "('w, 's) slog_ops \<Rightarrow> derive list \<Rightarrow> 'w \<Rightarrow> 'w" where
  "derived_alone ops [] w = w"
| "derived_alone ops (WithAttrs as # ds) w = derived_alone ops ds (so_WithAttrs ops w as)"
| "derived_alone ops (WithGroup g # ds) w = derived_alone ops ds (so_WithGroup ops w g)"

fun derived_attrs :: "derive list \<Rightarrow> slog_attr list" where
  "derived_attrs [] = []"
| "derived_attrs (WithAttrs as # ds) = as @ derived_attrs ds"
| "derived_attrs (WithGroup g # ds) = derived_attrs ds"

lemma derived_fields:
  "ct_wrapped (derived ops ds h) = derived_alone ops ds (ct_wrapped h)"
  "ct_attrs (derived ops ds h) = ct_attrs h @ derived_attrs ds"
  by (induction ops ds h rule: derived.induct) (simp_all add: ct_WithAttrs_def ct_WithGroup_def)

lemma attr_map_lookup: "map_of (attr_map as) k = map_option crierAttrValue (map_of (rev as) k)"
proof (induction as rule: rev_induct)
  case (snoc a as)
  then show ?case by (cases a) (auto simp: attr_map_def update_conv')
qed (simp add: attr_map_def)

lemma severity_of_level: "crierSeverity l = SeverityError \<longleftrightarrow> LevelError \<le> l"
  by (simp add: crierSeverity_def)

lemma resolved: "resolve_value n v \<noteq> KindLogValuer v'"
  by (induction n v rule: resolve_value.induct) auto

text \<open>
  Whatever the engine does with the copy, logging goes on as without it: a logger derived by any calls of \<^verbatim>\<open>With\<close> is enabled
  for the same levels, gives the wrapped handler the same records and returns its result. The engine gets one copy of
  each record, with its time, message and severity, and for every name the last value given to it, by the record itself
  or else by the latest \<^verbatim>\<open>With\<close>.
\<close>

theorem crier_mirrors_without_gating:
  "(let h = derived ops ds (newCrierTeeHandler w); alone = derived_alone ops ds w in
      (\<forall>level. ct_Enabled ops h level = so_Enabled ops alone level) \<and>
      (\<forall>rec s c. fst (ct_Handle ops log h rec (s, c)) = fst (so_Handle ops alone rec s) \<and>
        fst (snd (ct_Handle ops log h rec (s, c))) = snd (so_Handle ops alone rec s) \<and>
        (\<exists>copy. snd (snd (ct_Handle ops log h rec (s, c))) = snd (log copy c) \<and>
          lg_Timestamp copy = rc_Time rec \<and> lg_Body copy = rc_Message rec \<and> lg_Severity copy = crierSeverity (rc_Level rec) \<and>
          lg_SeverityText copy = Level_String (rc_Level rec) \<and>
          (\<forall>k. map_of (lg_Attributes copy) k = map_option crierAttrValue (map_of (rev (derived_attrs ds @ rc_Attrs rec)) k)))))"
proof -
  let ?h = "derived ops ds (newCrierTeeHandler w)"
  have h: "ct_wrapped ?h = derived_alone ops ds w" "ct_attrs ?h = derived_attrs ds"
    by (simp_all add: derived_fields newCrierTeeHandler_def)
  show ?thesis
    unfolding Let_def ct_Enabled_def h
    by (auto simp: ct_Handle_def h split: prod.splits intro!: exI [of _ "mirrored ?h _"]) (simp_all add: mirrored_def attr_map_lookup h)
qed

end
