(* ===== verification/AttachS3.thy ===== *)
theory AttachS3
  imports Breakers TaskHandler
begin

text \<open>
  Attachments in an object store: \<^verbatim>\<open>internal/attachment/s3_storage.go\<close> and the breakers in front of it
  (\<^verbatim>\<open>s3_breaker.go\<close>). The client library is a parameter: \<open>s3_client\<close> has the calls the store makes, over a state of
  its own, and \<open>s3_lib\<close> how the library classifies an error: \<^verbatim>\<open>minio.ToErrorResponse\<close> (code and HTTP status), whether it
  is a \<^verbatim>\<open>net.Error\<close> and whether it is \<^verbatim>\<open>io.EOF\<close>. What the store relies on is the predicate
  \<open>object_semantics\<close>: what a call that succeeds did, and that a call that fails touched no other key.
\<close>

declare map_of_eq_Some_iff [simp del] Some_eq_map_of_iff [simp del]

record 'c s3_client =
  BucketExists :: "ctx_state \<Rightarrow> (att_err, bool, 'c) op"
  PutObject :: "ctx_state \<Rightarrow> string \<Rightarrow> reader \<Rightarrow> (att_err, int, 'c) op"
  StatObject :: "ctx_state \<Rightarrow> string \<Rightarrow> (att_err, unit, 'c) op"
  GetObject :: "string \<Rightarrow> 'c \<Rightarrow> string ares"
  RemoveObject :: "ctx_state \<Rightarrow> string \<Rightarrow> (att_err, unit, 'c) op"
  ListObjects :: "ctx_state \<Rightarrow> 'c \<Rightarrow> (blob_ref ares) list \<times> 'c"

record s3_lib =
  s3_Response :: "aerr \<Rightarrow> string \<times> int"
  s3_NetError :: "aerr \<Rightarrow> bool"
  s3_EOF :: "aerr \<Rightarrow> bool"
  s3_IsPrint :: "nat \<Rightarrow> bool"

subsection \<open>The store\<close>

definition mapS3Error :: "s3_lib \<Rightarrow> aerr \<Rightarrow> aerr" where
  "mapS3Error lib err =
     (case s3_Response lib err of (code, status) \<Rightarrow>
      if code = ''NoSuchKey'' \<or> code = ''NoSuchBucket'' then Sentinel AErrNotFound
      else if status = 404 then Sentinel AErrNotFound
      else if s3_EOF lib err then Sentinel AErrNotFound
      else WrapPre ''attachment: get object'' err)"

record S3Config =
  s3c_Endpoint :: string
  s3c_Bucket :: string
  s3c_AccessKey :: string
  s3c_SecretKey :: string
  s3c_Region :: string
  s3c_UseSSL :: bool
  s3c_CallTimeout :: duration

text \<open>
  The deadline of one call: \<open>ss_expires c\<close> says whether the one of a call that starts in the state \<open>c\<close> runs out. A timeout
  of zero leaves the caller's context alone.
\<close>

record 'c s3_store =
  ss_client :: "'c s3_client"
  ss_callTimeout :: duration
  ss_expires :: "'c \<Rightarrow> bool"
  ss_lib :: s3_lib

definition withTimeout :: "'c s3_store \<Rightarrow> 'c \<Rightarrow> ctx_state \<Rightarrow> ctx_state" where
  "withTimeout S b ctx =
     (if ss_callTimeout S \<le> 0 then ctx
      else if ctx = Live \<and> ss_expires S b then DeadlineExceeded else ctx)"

text \<open>\<^verbatim>\<open>io.LimitReader\<close>: at most \<open>n\<close> bytes; an error of the stream after them is not reached.\<close>

definition LimitReader :: "reader \<Rightarrow> int \<Rightarrow> reader" where
  "LimitReader r n = \<lparr>rd_bytes = take (nat n) (rd_bytes r), rd_err = (if length (rd_bytes r) < nat n then rd_err r else None)\<rparr>"

definition s3_Put :: "'c s3_store \<Rightarrow> ctx_state \<Rightarrow> string \<Rightarrow> reader \<Rightarrow> int \<Rightarrow> (att_err, int, 'c) op" where
  "s3_Put S ctx0 key r maxBytes b =
     (let ctx = withTimeout S b ctx0 in
      case PutObject (ss_client S) ctx key (LimitReader r (maxBytes + 1)) b of
        (Inl err, b1) \<Rightarrow> (Inl (WrapPre ''attachment: put object'' err), b1)
      | (Inr n, b1) \<Rightarrow>
          if n > maxBytes then (Inl (Sentinel AErrTooLarge), snd (RemoveObject (ss_client S) (withTimeout S b1 ctx) key b1))
          else (Inr n, b1))"

definition s3_Open :: "'c s3_store \<Rightarrow> ctx_state \<Rightarrow> string \<Rightarrow> (att_err, string, 'c) op" where
  "s3_Open S ctx key b =
     (case StatObject (ss_client S) (withTimeout S b ctx) key b of
        (Inl err, b1) \<Rightarrow> (Inl (mapS3Error (ss_lib S) err), b1)
      | (Inr _, b1) \<Rightarrow>
          (case GetObject (ss_client S) key b1 of
             Inl err \<Rightarrow> (Inl (mapS3Error (ss_lib S) err), b1)
           | Inr data \<Rightarrow> (Inr data, b1)))"

definition s3_Delete :: "'c s3_store \<Rightarrow> ctx_state \<Rightarrow> string \<Rightarrow> (att_err, unit, 'c) op" where
  "s3_Delete S ctx key b =
     (case RemoveObject (ss_client S) (withTimeout S b ctx) key b of
        (Inl err, b1) \<Rightarrow> (Inl (WrapPre ''attachment: delete object'' err), b1)
      | (Inr _, b1) \<Rightarrow> (Inr (), b1))"

fun collect_objects :: "blob_ref list \<Rightarrow> blob_ref ares list \<Rightarrow> blob_ref list ares" where
  "collect_objects refs [] = Inr refs"
| "collect_objects refs (Inl err # objects) = Inl (WrapPre ''attachment: list objects'' err)"
| "collect_objects refs (Inr object # objects) = collect_objects (refs @ [object]) objects"

definition s3_List :: "'c s3_store \<Rightarrow> ctx_state \<Rightarrow> (att_err, blob_ref list, 'c) op" where
  "s3_List S ctx b =
     (case ListObjects (ss_client S) (withTimeout S b ctx) b of (objects, b1) \<Rightarrow> (collect_objects [] objects, b1))"

definition s3BlobStore :: "'c s3_store \<Rightarrow> 'c blob_store" where
  "s3BlobStore S = \<lparr>bs_Put = s3_Put S, bs_Open = s3_Open S, bs_Delete = s3_Delete S, bs_List = s3_List S\<rparr>"

text \<open>The constructor: the bucket must exist, and an empty object is put and removed to prove that it can be written.\<close>

definition writeProbeKey :: string where
  "writeProbeKey = ''.task-api-write-probe''"

definition probeWritePermission :: "s3_lib \<Rightarrow> 'c s3_client \<Rightarrow> ctx_state \<Rightarrow> string \<Rightarrow> (att_err, unit, 'c) op" where
  "probeWritePermission lib client ctx bkt b =
     (case PutObject client ctx writeProbeKey \<lparr>rd_bytes = [], rd_err = None\<rparr> b of
        (Inl err, b1) \<Rightarrow> (Inl (WrapPre (''attachment: bucket '' @ Quote (s3_IsPrint lib) bkt @
           '' is reachable but not writable with the configured credentials'') err), b1)
      | (Inr _, b1) \<Rightarrow>
          (case RemoveObject client ctx writeProbeKey b1 of
             (Inl err, b2) \<Rightarrow> (Inl (WrapPre (''attachment: wrote startup write-probe object '' @ Quote (s3_IsPrint lib) writeProbeKey @
                '' to bucket '' @ Quote (s3_IsPrint lib) bkt @ '' but could not remove it, left behind'') err), b2)
           | (Inr _, b2) \<Rightarrow> (Inr (), b2)))"

definition NewS3BlobStore :: "s3_lib \<Rightarrow> (S3Config \<Rightarrow> 'c s3_client ares) \<Rightarrow> ('c \<Rightarrow> bool) \<Rightarrow> ctx_state \<Rightarrow> S3Config
    \<Rightarrow> (att_err, 'c s3_store, 'c) op" where
  "NewS3BlobStore lib New expires checkCtx cfg b =
     (case New cfg of
        Inl err \<Rightarrow> (Inl (WrapPre ''attachment: build s3 client'' err), b)
      | Inr client \<Rightarrow>
      (case BucketExists client checkCtx b of
         (Inl err, b1) \<Rightarrow> (Inl (WrapPre (''attachment: reach bucket '' @ Quote (s3_IsPrint lib) (s3c_Bucket cfg)) err), b1)
       | (Inr False, b1) \<Rightarrow> (Inl (Opaque (''attachment: bucket '' @ Quote (s3_IsPrint lib) (s3c_Bucket cfg) @ '' does not exist'')), b1)
       | (Inr True, b1) \<Rightarrow>
      (case probeWritePermission lib client checkCtx (s3c_Bucket cfg) b1 of
         (Inl err, b2) \<Rightarrow> (Inl err, b2)
       | (Inr _, b2) \<Rightarrow> (Inr \<lparr>ss_client = client, ss_callTimeout = s3c_CallTimeout cfg, ss_expires = expires, ss_lib = lib\<rparr>, b2))))"

subsection \<open>The breakers\<close>

definition s3BreakerOpenTimeout :: duration where
  "s3BreakerOpenTimeout = 30 * Second"

definition s3BreakerFailureThreshold :: nat where
  "s3BreakerFailureThreshold = 3"

definition isS3BreakerFailure :: "s3_lib \<Rightarrow> aerr option \<Rightarrow> bool" where
  "isS3BreakerFailure lib err0 =
     (case err0 of
        None \<Rightarrow> False
      | Some err \<Rightarrow>
          if errors_Is err AErrNotFound \<or> errors_Is err AErrTooLarge then False
          else if errors_Is err AContextDeadlineExceeded then True
          else if s3_NetError lib err then True
          else (case s3_Response lib err of (code, status) \<Rightarrow>
            if status \<ge> 500 then True
            else if code = ''SlowDown'' \<or> code = ''ServiceUnavailable'' \<or> code = ''InternalError'' then True
            else False))"

text \<open>Two breakers, \<open>rw\<close> for the request path and \<open>ls\<close> for the listing of the collector; the state is the store's and theirs.\<close>

definition on_rw :: "(att_err, 'a, 'b \<times> 'r) op \<Rightarrow> (att_err, 'a, 'b \<times> 'r \<times> 'l) op" where
  "on_rw f x = (case x of (b, r, l) \<Rightarrow> case f (b, r) of (out, (b', r')) \<Rightarrow> (out, (b', r', l)))"

definition on_list :: "(att_err, 'a, 'b \<times> 'l) op \<Rightarrow> (att_err, 'a, 'b \<times> 'r \<times> 'l) op" where
  "on_list f x = (case x of (b, r, l) \<Rightarrow> case f (b, l) of (out, (b', l')) \<Rightarrow> (out, (b', r, l')))"

definition breakerBlobStore :: "(ctx_state, att_err, 'r) breaker \<Rightarrow> (ctx_state, att_err, 'l) breaker \<Rightarrow> 'b blob_store
    \<Rightarrow> ('b \<times> 'r \<times> 'l) blob_store" where
  "breakerBlobStore rw ls next = \<lparr>
     bs_Put = (\<lambda>ctx key r m. on_rw (abrk rw s3BreakerOpenTimeout ctx (bs_Put next ctx key r m))),
     bs_Open = (\<lambda>ctx key. on_rw (abrk rw s3BreakerOpenTimeout ctx (bs_Open next ctx key))),
     bs_Delete = (\<lambda>ctx key. on_rw (abrk rw s3BreakerOpenTimeout ctx (bs_Delete next ctx key))),
     bs_List = (\<lambda>ctx. on_list (abrk ls s3BreakerOpenTimeout ctx (bs_List next ctx))) \<rparr>"

definition NewBreakerBlobStore :: "(string \<Rightarrow> (ctx_state, att_err, 'r) breaker ares) \<Rightarrow> 'b blob_store
    \<Rightarrow> (('b \<times> 'r \<times> 'r) blob_store \<times> (ctx_state, att_err, 'r) breaker \<times> (ctx_state, att_err, 'r) breaker) ares" where
  "NewBreakerBlobStore New next =
     (case New ''attachment-s3'' of
        Inl err \<Rightarrow> Inl (WrapPre ''attachment: build breaker'' err)
      | Inr rw \<Rightarrow>
      (case New ''attachment-s3-list'' of
         Inl err \<Rightarrow> Inl (WrapPre ''attachment: build breaker'' err)
       | Inr ls \<Rightarrow> Inr (breakerBlobStore rw ls next, rw, ls)))"

subsection \<open>The object store meets the contract of a BlobStore\<close>

text \<open>
  What the store relies on of the client and the service behind it: \<open>content\<close> is what the bucket holds, \<open>clock\<close> the
  time it stamps objects with, \<open>binv\<close> the invariant of the client's state. A put that succeeds has stored all bytes of the
  stream; one that fails may have stored anything under its key; a removal that fails may have happened; the reads
  change nothing, and a listing without an error names every object once.
\<close>

definition object_semantics :: "'c s3_client \<Rightarrow> ('c \<Rightarrow> blobs) \<Rightarrow> ('c \<Rightarrow> time) \<Rightarrow> ('c \<Rightarrow> bool) \<Rightarrow> bool" where
  "object_semantics cl content clock binv \<longleftrightarrow> (\<forall>b. binv b \<longrightarrow>
     (\<forall>ctx k r out b'. PutObject cl ctx k r b = (out, b') \<longrightarrow> binv b' \<and> clock b' = clock b \<and>
        (\<forall>k'. k' \<noteq> k \<longrightarrow> content b' k' = content b k') \<and>
        (\<forall>n. out = Inr n \<longrightarrow> rd_err r = None \<and> n = int (length (rd_bytes r)) \<and> content b' k = Some (rd_bytes r, clock b))) \<and>
     (\<forall>ctx k out b'. RemoveObject cl ctx k b = (out, b') \<longrightarrow> binv b' \<and> clock b' = clock b \<and>
        (content b' = content b \<or> content b' = (content b)(k := None)) \<and> (out = Inr () \<longrightarrow> content b' k = None)) \<and>
     (\<forall>ctx k out b'. StatObject cl ctx k b = (out, b') \<longrightarrow> binv b' \<and> clock b' = clock b \<and> content b' = content b) \<and>
     (\<forall>k data. GetObject cl k b = Inr data \<longrightarrow> (\<exists>t. content b k = Some (data, t))) \<and>
     (\<forall>ctx objects b'. ListObjects cl ctx b = (objects, b') \<longrightarrow> binv b' \<and> clock b' = clock b \<and> content b' = content b \<and>
        (\<forall>refs. objects = map Inr refs \<longrightarrow> distinct (map br_Key refs) \<and>
           (\<forall>k t. \<lparr>br_Key = k, br_ModTime = t\<rparr> \<in> set refs \<longleftrightarrow> (\<exists>d. content b k = Some (d, t))))))"

lemma object_laws:
  assumes "object_semantics cl content clock binv" and "binv b"
  shows object_put: "PutObject cl ctx k r b = (out, b') \<Longrightarrow> binv b' \<and> clock b' = clock b \<and>
        (\<forall>k'. k' \<noteq> k \<longrightarrow> content b' k' = content b k') \<and>
        (\<forall>n. out = Inr n \<longrightarrow> rd_err r = None \<and> n = int (length (rd_bytes r)) \<and> content b' k = Some (rd_bytes r, clock b))"
    and object_remove: "RemoveObject cl ctx k b = (out2, b') \<Longrightarrow> binv b' \<and> clock b' = clock b \<and>
        (content b' = content b \<or> content b' = (content b)(k := None)) \<and> (out2 = Inr () \<longrightarrow> content b' k = None)"
    and object_stat: "StatObject cl ctx k b = (out3, b') \<Longrightarrow> binv b' \<and> clock b' = clock b \<and> content b' = content b"
    and object_get: "GetObject cl k b = Inr data \<Longrightarrow> \<exists>t. content b k = Some (data, t)"
    and object_list: "ListObjects cl ctx b = (objects, b') \<Longrightarrow> binv b' \<and> clock b' = clock b \<and> content b' = content b \<and>
        (\<forall>refs. objects = map Inr refs \<longrightarrow> distinct (map br_Key refs) \<and>
           (\<forall>k t. \<lparr>br_Key = k, br_ModTime = t\<rparr> \<in> set refs \<longleftrightarrow> (\<exists>d. content b k = Some (d, t))))"
proof -
  note laws = assms(1) [unfolded object_semantics_def, THEN spec, THEN mp, OF assms(2)]
  note put = laws [THEN conjunct1] and laws2 = laws [THEN conjunct2]
  note remove = laws2 [THEN conjunct1] and laws3 = laws2 [THEN conjunct2]
  note stat = laws3 [THEN conjunct1] and laws4 = laws3 [THEN conjunct2]
  note get = laws4 [THEN conjunct1] and lst = laws4 [THEN conjunct2]
  show "PutObject cl ctx k r b = (out, b') \<Longrightarrow> binv b' \<and> clock b' = clock b \<and>
        (\<forall>k'. k' \<noteq> k \<longrightarrow> content b' k' = content b k') \<and>
        (\<forall>n. out = Inr n \<longrightarrow> rd_err r = None \<and> n = int (length (rd_bytes r)) \<and> content b' k = Some (rd_bytes r, clock b))"
    by (rule put [THEN spec, THEN spec, THEN spec, THEN spec, THEN spec, THEN mp])
  show "RemoveObject cl ctx k b = (out2, b') \<Longrightarrow> binv b' \<and> clock b' = clock b \<and>
        (content b' = content b \<or> content b' = (content b)(k := None)) \<and> (out2 = Inr () \<longrightarrow> content b' k = None)"
    by (rule remove [THEN spec, THEN spec, THEN spec, THEN spec, THEN mp])
  show "StatObject cl ctx k b = (out3, b') \<Longrightarrow> binv b' \<and> clock b' = clock b \<and> content b' = content b"
    by (rule stat [THEN spec, THEN spec, THEN spec, THEN spec, THEN mp])
  show "GetObject cl k b = Inr data \<Longrightarrow> \<exists>t. content b k = Some (data, t)"
    by (rule get [THEN spec, THEN spec, THEN mp])
  show "ListObjects cl ctx b = (objects, b') \<Longrightarrow> binv b' \<and> clock b' = clock b \<and> content b' = content b \<and>
        (\<forall>refs. objects = map Inr refs \<longrightarrow> distinct (map br_Key refs) \<and>
           (\<forall>k t. \<lparr>br_Key = k, br_ModTime = t\<rparr> \<in> set refs \<longleftrightarrow> (\<exists>d. content b k = Some (d, t))))"
    by (rule lst [THEN spec, THEN spec, THEN spec, THEN mp])
qed

lemma collect_objects_Inr: "collect_objects acc objects = Inr refs \<Longrightarrow> \<exists>more. objects = map Inr more \<and> refs = acc @ more"
proof (induction acc objects rule: collect_objects.induct)
  case (3 acc o' objects)
  then obtain more where "objects = map Inr more" "refs = (acc @ [o']) @ more" by auto
  then have "Inr o' # objects = map Inr (o' # more) \<and> refs = acc @ (o' # more)" by simp
  then show ?case by (rule exI)
qed auto

lemma s3BlobStore_sel [simp]:
  "bs_Put (s3BlobStore S) = s3_Put S" "bs_Open (s3BlobStore S) = s3_Open S"
  "bs_Delete (s3BlobStore S) = s3_Delete S" "bs_List (s3BlobStore S) = s3_List S"
  by (simp_all add: s3BlobStore_def)

lemma s3_Put_ok:
  assumes "object_semantics (ss_client S) content clock binv" and "binv b" and "0 \<le> m" and "s3_Put S c k r m b = (Inr n, b')"
  shows "binv b' \<and> rd_err r = None \<and> n = int (length (rd_bytes r)) \<and> n \<le> m \<and>
      content b' = (content b)(k \<mapsto> (rd_bytes r, clock b)) \<and> clock b' = clock b"
proof -
  from assms(4) have p: "PutObject (ss_client S) (withTimeout S b c) k (LimitReader r (m + 1)) b = (Inr n, b')" and n: "n \<le> m"
    by (auto simp: s3_Put_def Let_def split: prod.splits sum.splits if_splits)
  note sp = object_put [OF assms(1,2) p]
  then have e: "rd_err (LimitReader r (m + 1)) = None" and len: "n = int (length (take (nat (m + 1)) (rd_bytes r)))"
    by (simp_all add: LimitReader_def)
  from len n assms(3) have short: "length (rd_bytes r) \<le> nat m" by (auto simp: min_def split: if_splits)
  then have all: "take (nat (m + 1)) (rd_bytes r) = rd_bytes r" using assms(3) by simp
  have "rd_err r = None" using e short assms(3) by (auto simp: LimitReader_def split: if_splits)
  moreover have "content b' = (content b)(k \<mapsto> (rd_bytes r, clock b))" using sp all by (auto simp: fun_eq_iff LimitReader_def)
  ultimately show ?thesis using sp n all len by simp
qed

lemma s3_Put_failed:
  assumes "object_semantics (ss_client S) content clock binv" and "binv b" and "s3_Put S c k r m b = (Inl e, b')"
  shows "binv b' \<and> (\<forall>k'. k' \<noteq> k \<longrightarrow> content b' k' = content b k') \<and> clock b' = clock b"
proof -
  obtain out b1 where p: "PutObject (ss_client S) (withTimeout S b c) k (LimitReader r (m + 1)) b = (out, b1)" by fastforce
  note p1 = object_put [OF assms(1,2) p]
  show ?thesis
  proof (cases out)
    case (Inl err)
    with assms(3) p p1 show ?thesis by (auto simp: s3_Put_def Let_def)
  next
    case (Inr n)
    obtain out2 b2 where d: "RemoveObject (ss_client S) (withTimeout S b1 (withTimeout S b c)) k b1 = (out2, b2)" by fastforce
    with assms(3) p Inr have "b' = b2" by (auto simp: s3_Put_def Let_def split: if_splits)
    with object_remove [OF assms(1) _ d] p1 show ?thesis by fastforce
  qed
qed

lemma s3_Open_spec:
  assumes "object_semantics (ss_client S) content clock binv" and "binv b" and "s3_Open S c k b = (ro, b')"
  shows "binv b' \<and> content b' = content b \<and> clock b' = clock b \<and> (\<forall>data. ro = Inr data \<longrightarrow> (\<exists>t. content b k = Some (data, t)))"
proof -
  obtain out b1 where st: "StatObject (ss_client S) (withTimeout S b c) k b = (out, b1)" by fastforce
  note b1 = object_stat [OF assms(1,2) st]
  with assms(3) st object_get [OF assms(1), of b1 k] show ?thesis
    by (auto simp: s3_Open_def split: sum.splits)
qed

lemma s3_contract:
  assumes sem: "object_semantics (ss_client S) content clock binv"
  shows "blob_contract (s3BlobStore S) content clock binv"
proof (unfold_locales, goal_cases)
  case (1 b m c k r n b')
  then show ?case using s3_Put_ok [OF sem 1(1,2)] by (simp only: s3BlobStore_sel)
next
  case (2 b c k r m e b')
  then show ?case using s3_Put_failed [OF sem] by (metis s3BlobStore_sel(1))
next
  case (3 b c k ro b')
  then show ?case using s3_Open_spec [OF sem] by (metis s3BlobStore_sel(2))
next
  case (4 b c k rd b')
  then show ?case using object_remove [OF sem 4(1)]
    by (auto simp: s3_Delete_def split: prod.splits sum.splits)
next
  case (5 b c rl b')
  obtain objects b1 where l: "ListObjects (ss_client S) (withTimeout S b c) b = (objects, b1)" by fastforce
  with 5(2) have b1: "b' = b1" and rl: "rl = collect_objects [] objects" by (auto simp: s3_List_def)
  note spec = object_list [OF sem 5(1) l]
  have "objects = map Inr refs" if "rl = Inr refs" for refs
    using collect_objects_Inr [of "[]" objects refs] that rl by auto
  with spec b1 show ?case by blast
qed

text \<open>A store behind the breakers is as good as the store: a rejected call does not reach it.\<close>

lemma abrk_cases:
  assumes "abrk B ra ctx fn (s, x) = (r, (s', x'))"
  obtains (rejected) rej where "bk_admit B ctx x = (Some rej, x')" "r = Inl (atranslateBreakerError ra (arejection_error ctx rej))" "s' = s"
    | (error) e where "fst (bk_admit B ctx x) = None" "fn s = (Inl e, s')" "r = Inl (atranslateBreakerError ra e)"
    | (finished) v where "fst (bk_admit B ctx x) = None" "fn s = (Inr v, s')" "r = Inr v"
  using assms unfolding abrk_def by (rule guarded_cases) blast+

lemma on_rw_out:
  assumes "on_rw f (b, r, l) = (out, y)"
  obtains b' r' where "y = (b', r', l)" "f (b, r) = (out, (b', r'))"
  using assms by (auto simp: on_rw_def split: prod.splits)

lemma on_list_out:
  assumes "on_list f (b, r, l) = (out, y)"
  obtains b' l' where "y = (b', r, l')" "f (b, l) = (out, (b', l'))"
  using assms by (auto simp: on_list_def split: prod.splits)

lemma breakerBlobStore_sel [simp]:
  "bs_Put (breakerBlobStore rw ls next) = (\<lambda>ctx key r m. on_rw (abrk rw s3BreakerOpenTimeout ctx (bs_Put next ctx key r m)))"
  "bs_Open (breakerBlobStore rw ls next) = (\<lambda>ctx key. on_rw (abrk rw s3BreakerOpenTimeout ctx (bs_Open next ctx key)))"
  "bs_Delete (breakerBlobStore rw ls next) = (\<lambda>ctx key. on_rw (abrk rw s3BreakerOpenTimeout ctx (bs_Delete next ctx key)))"
  "bs_List (breakerBlobStore rw ls next) = (\<lambda>ctx. on_list (abrk ls s3BreakerOpenTimeout ctx (bs_List next ctx)))"
  by (simp_all add: breakerBlobStore_def)

context blob_contract
begin

lemma decorated_contract:
  "blob_contract (breakerBlobStore rw ls store) (content \<circ> fst) (clock \<circ> fst) (binv \<circ> fst)"
proof (unfold_locales, goal_cases)
  case (1 x m c k r n x')
  obtain b p q where x: "x = (b, p, q)" by (cases x)
  from 1(3) obtain b' p' where y: "x' = (b', p', q)" "abrk rw s3BreakerOpenTimeout c (bs_Put store c k r m) (b, p) = (Inr n, (b', p'))"
    unfolding x breakerBlobStore_sel by (rule on_rw_out)
  from y(2) have "bs_Put store c k r m b = (Inr n, b')" by (rule abrk_cases) auto
  with put_ok [of b m c k r n b'] 1(1,2) y(1) x show ?case by simp
next
  case (2 x c k r m e x')
  obtain b p q where x: "x = (b, p, q)" by (cases x)
  from 2(2) obtain b' p' where y: "x' = (b', p', q)" "abrk rw s3BreakerOpenTimeout c (bs_Put store c k r m) (b, p) = (Inl e, (b', p'))"
    unfolding x breakerBlobStore_sel by (rule on_rw_out)
  from y(2) have "b' = b \<or> (\<exists>e'. bs_Put store c k r m b = (Inl e', b'))" by (rule abrk_cases) auto
  with put_failed [of b c k r m _ b'] 2(1) y(1) x show ?case by auto
next
  case (3 x c k ro x')
  obtain b p q where x: "x = (b, p, q)" by (cases x)
  from 3(2) obtain b' p' where y: "x' = (b', p', q)" "abrk rw s3BreakerOpenTimeout c (bs_Open store c k) (b, p) = (ro, (b', p'))"
    unfolding x breakerBlobStore_sel by (rule on_rw_out)
  from y(2) have "(b' = b \<and> isl ro) \<or> (\<exists>ro'. bs_Open store c k b = (ro', b') \<and> (\<forall>d. ro = Inr d \<longrightarrow> ro' = Inr d))" by (rule abrk_cases) auto
  with open_blob [of b c k _ b'] 3(1) y(1) x show ?case by auto
next
  case (4 x c k rd x')
  obtain b p q where x: "x = (b, p, q)" by (cases x)
  from 4(2) obtain b' p' where y: "x' = (b', p', q)" "abrk rw s3BreakerOpenTimeout c (bs_Delete store c k) (b, p) = (rd, (b', p'))"
    unfolding x breakerBlobStore_sel by (rule on_rw_out)
  from y(2) have "b' = b \<or> (\<exists>rd'. bs_Delete store c k b = (rd', b'))" by (rule abrk_cases) auto
  with delete_blob [of b c k _ b'] 4(1) y(1) x show ?case by auto
next
  case (5 x c rl x')
  obtain b p q where x: "x = (b, p, q)" by (cases x)
  from 5(2) obtain b' q' where y: "x' = (b', p, q')" "abrk ls s3BreakerOpenTimeout c (bs_List store c) (b, q) = (rl, (b', q'))"
    unfolding x breakerBlobStore_sel by (rule on_list_out)
  from y(2) have "(b' = b \<and> isl rl) \<or> (\<exists>rl'. bs_List store c b = (rl', b') \<and> (\<forall>d. rl = Inr d \<longrightarrow> rl' = Inr d))" by (rule abrk_cases) auto
  with list_blobs [of b c _ b'] 5(1) y(1) x show ?case by auto
qed

end

lemma s3_stack_contract:
  assumes "object_semantics (ss_client S) content clock binv"
  shows "blob_contract (breakerBlobStore rw ls (s3BlobStore S)) (content \<circ> fst) (clock \<circ> fst) (binv \<circ> fst)"
  by (rule blob_contract.decorated_contract [OF s3_contract [OF assms]])

subsection \<open>Uploads and downloads through the whole stack\<close>

context blob_contract
begin

lemma Upload_stores:
  assumes "binv b" and "0 \<le> ac_maxBytes cfg"
    and "Upload lib cfg repo store ctx now rnd1 rnd2 u t f r (s, b) = (Inr att, (s', b'))"
  shows "binv b' \<and> rd_err r = None \<and> a_SizeBytes att = int (length (rd_bytes r)) \<and> a_SizeBytes att \<le> ac_maxBytes cfg \<and>
    content b' = (content b)(a_StorageKey att \<mapsto> (rd_bytes r, clock b))"
proof -
  from assms(3) obtain s1 where "upload_put lib cfg repo store ctx now rnd1 rnd2 u t f r (s, b) = (Inr att, (s1, b'))"
    by (auto simp: Upload_halves upload_record_def split: prod.splits sum.splits)
  then have "bs_Put store (ctx 2) (a_StorageKey att) r (ac_maxBytes cfg) b = (Inr (a_SizeBytes att), b')"
    by (auto simp: upload_put_def Let_def split: if_splits prod.splits sum.splits)
  from put_ok [OF assms(1,2) this] show ?thesis by simp
qed

lemma Download_returns:
  assumes "binv b" and "Download repo store ctx u k (s, b) = (Inr (att, data), (s', b'))"
  shows "\<exists>t. content b (a_StorageKey att) = Some (data, t)"
proof -
  from assms(2) have "bs_Open store (ctx 1) (a_StorageKey att) b = (Inr data, b')"
    by (auto simp: Download_def split: if_splits prod.splits sum.splits)
  from open_blob [OF assms(1) this] show ?thesis by simp
qed

end

lemma on_rw_keeps_list: "snd (snd (snd (on_rw f (b, r, l)))) = l"
  by (simp add: on_rw_def split_beta)

text \<open>The store's own answers about a request: no object, or too many bytes.\<close>

lemma honest_answers:
  "mapS3Error lib e = Sentinel AErrNotFound \<Longrightarrow> \<not> isS3BreakerFailure lib (Some (mapS3Error lib e))"
  "\<not> isS3BreakerFailure lib (Some (Sentinel AErrTooLarge))"
  by (simp_all add: isS3BreakerFailure_def)

text \<open>
  C27. Attachments in the object store, behind PostgreSQL and both breakers, whatever fails: when an upload
  succeeds, the bucket holds exactly the bytes sent, within the limit, under the new key, and nothing else changed; a
  download of that attachment that succeeds returns those bytes; a listing by the collector never
  changes the breaker of the request path, and a request never that of the listing; and neither a missing
  object nor an oversized upload counts as a failure of the store.
\<close>

theorem object_store_stack:
  assumes sem: "object_semantics (ss_client S) content clock binv" and "binv b" and "0 \<le> ac_maxBytes cfg"
    and up: "Upload lib cfg (attachBreaker B ra repo) (breakerBlobStore rw ls (s3BlobStore S)) ctx now rnd1 rnd2 u t f r (s, (b, x, y)) =
      (Inr att, (s', (b', x', y')))"
  shows "content b' = (content b)(a_StorageKey att \<mapsto> (rd_bytes r, clock b)) \<and>
    a_SizeBytes att = int (length (rd_bytes r)) \<and> a_SizeBytes att \<le> ac_maxBytes cfg \<and>
    (\<forall>ctx2 v k s2 x2 y2 a data w. Download (attachBreaker B ra repo) (breakerBlobStore rw ls (s3BlobStore S)) ctx2 v k (s2, (b', x2, y2)) =
        (Inr (a, data), w) \<and> a_StorageKey a = a_StorageKey att \<longrightarrow> data = rd_bytes r) \<and>
    (\<forall>c. fst (snd (snd (bs_List (breakerBlobStore rw ls (s3BlobStore S)) c (b', x', y')))) = x') \<and>
    (\<forall>c k. snd (snd (snd (bs_Open (breakerBlobStore rw ls (s3BlobStore S)) c k (b', x', y')))) = y' \<and>
       snd (snd (snd (bs_Delete (breakerBlobStore rw ls (s3BlobStore S)) c k (b', x', y')))) = y') \<and> y' = y \<and>
    (\<forall>e. mapS3Error (ss_lib S) e = Sentinel AErrNotFound \<longrightarrow> \<not> isS3BreakerFailure (ss_lib S) (Some (mapS3Error (ss_lib S) e))) \<and>
    \<not> isS3BreakerFailure (ss_lib S) (Some (Sentinel AErrTooLarge))"
proof -
  let ?store = "breakerBlobStore rw ls (s3BlobStore S)"
  note stack = s3_stack_contract [OF sem, of rw ls]
  have inv: "(binv \<circ> fst) (b, x, y)" using assms(2) by simp
  note st = blob_contract.Upload_stores [OF stack inv assms(3) up]
  have down: "data = rd_bytes r"
    if d: "Download (attachBreaker B ra repo) ?store ctx2 v k (s2, (b', x2, y2)) = (Inr (a, data), w)" "a_StorageKey a = a_StorageKey att"
    for ctx2 v k s2 x2 y2 a data w
  proof -
    obtain s3 z where e: "w = (s3, z)" by (cases w)
    have "(binv \<circ> fst) (b', x2, y2)" using st by simp
    from blob_contract.Download_returns [OF stack this d(1) [unfolded e]] st d(2) show ?thesis by simp
  qed
  have keep: "fst (snd (snd (bs_List ?store c (b', x', y')))) = x'" for c
    by (simp add: on_list_def split_beta)
  have "y' = y"
  proof -
    obtain s1 where "upload_put lib cfg (attachBreaker B ra repo) ?store ctx now rnd1 rnd2 u t f r (s, (b, x, y)) = (Inr att, (s1, (b', x', y')))"
      using up by (auto simp: Upload_halves upload_record_def split: prod.splits sum.splits)
    then have "bs_Put ?store (ctx 2) (a_StorageKey att) r (ac_maxBytes cfg) (b, x, y) = (Inr (a_SizeBytes att), (b', x', y'))"
      by (auto simp: upload_put_def Let_def simp del: breakerBlobStore_sel split: if_splits prod.splits sum.splits)
    then show ?thesis using on_rw_keeps_list [of _ b x y] by (metis breakerBlobStore_sel(1) snd_conv)
  qed
  with st down keep honest_answers show ?thesis by (auto simp: on_rw_keeps_list)
qed

text \<open>A client without faults, over the objects of one bucket and the time.\<close>

type_synonym bucket = "(string, string \<times> time) gomap \<times> time"

definition demo_client :: "bucket s3_client" where
  "demo_client = \<lparr>
     BucketExists = (\<lambda>ctx b. (Inr True, b)),
     PutObject = (\<lambda>ctx k r b. case rd_err r of Some err \<Rightarrow> (Inl err, b)
       | None \<Rightarrow> (Inr (int (length (rd_bytes r))), (AList.update k (rd_bytes r, snd b) (fst b), snd b))),
     StatObject = (\<lambda>ctx k b. (if map_of (fst b) k = None then Inl (Opaque ''no such key'') else Inr (), b)),
     GetObject = (\<lambda>k b. case map_of (fst b) k of None \<Rightarrow> Inl (Opaque ''no such key'') | Some (data, t) \<Rightarrow> Inr data),
     RemoveObject = (\<lambda>ctx k b. (Inr (), (AList.delete k (fst b), snd b))),
     ListObjects = (\<lambda>ctx b. (map (\<lambda>(k, (data, t)). Inr \<lparr>br_Key = k, br_ModTime = t\<rparr>) (fst b), b)) \<rparr>"

abbreviation demo_content :: "bucket \<Rightarrow> blobs" where
  "demo_content b \<equiv> map_of (fst b)"

lemma listed_objects:
  assumes "gomap_wf m" and "map (\<lambda>(k, (data, t)). Inr \<lparr>br_Key = k, br_ModTime = t\<rparr>) m = map (Inr :: blob_ref \<Rightarrow> blob_ref ares) refs"
  shows "distinct (map br_Key refs) \<and> (\<lparr>br_Key = k, br_ModTime = t\<rparr> \<in> set refs \<longleftrightarrow> (\<exists>d. map_of m k = Some (d, t)))"
proof -
  have refs: "refs = map (\<lambda>(k, (data, t)). \<lparr>br_Key = k, br_ModTime = t\<rparr>) m"
    using arg_cong [OF assms(2), of "map projr"] by (auto simp: split_beta comp_def)
  have "map br_Key refs = map fst m" by (auto simp: refs split_beta)
  with assms(1) have "distinct (map br_Key refs)" by metis
  moreover have "map_of m k = Some (d, t) \<longleftrightarrow> (k, d, t) \<in> set m" for d
    by (rule map_of_eq_Some_iff [OF assms(1)])
  then have "\<lparr>br_Key = k, br_ModTime = t\<rparr> \<in> set refs \<longleftrightarrow> (\<exists>d. map_of m k = Some (d, t))"
    by (auto simp: refs image_iff split_beta) force
  ultimately show ?thesis by blast
qed

lemma demo_client_ok: "object_semantics demo_client demo_content snd (\<lambda>b. gomap_wf (fst b))"
  unfolding object_semantics_def demo_client_def
  by (auto simp: fun_eq_iff gomap_simps listed_objects split: option.splits if_splits)

definition demo_s3 :: "bucket s3_store" where
  "demo_s3 = \<lparr>ss_client = demo_client, ss_callTimeout = 0, ss_expires = (\<lambda>_. False),
     ss_lib = \<lparr>s3_Response = (\<lambda>e. (''NoSuchKey'', 404)), s3_NetError = (\<lambda>_. False), s3_EOF = (\<lambda>_. False), s3_IsPrint = (\<lambda>_. True)\<rparr>\<rparr>"

abbreviation demo_s3_upload :: "attachment ares \<times> (att_mem \<times> nat) \<times> bucket \<times> nat \<times> nat" where
  "demo_s3_upload \<equiv> Upload demo_att_lib demo_att_cfg (attachBreaker demo_guarding 30 attachMemory)
     (breakerBlobStore demo_guarding demo_guarding (s3BlobStore demo_s3)) live 7 (Inr demo_bytes) (Inr demo_bytes)
     ''ann'' demo_id ''docs/notes.txt'' demo_reader ((NewAttachMemory demo_owns, 9), (([], 7), 5, 5))"

lemma demo_s3_put:
  "s3_Put demo_s3 Live demo_id demo_reader 1000 ([], 7) = (Inr 10, ([(demo_id, ''two litres'', 7)], 7))"
  by (simp add: s3_Put_def withTimeout_def demo_client_def demo_s3_def LimitReader_def demo_reader_def Let_def)

lemma demo_s3_upload_ok: "fst demo_s3_upload = Inr demo_att"
  by (simp add: Upload_def attachBreaker_def abrk_def Execute_def map_error_def demo_guarding_def on_rw_def demo_valid demo_filename demo_head
      demo_type demo_anewID Let_def NewAttachMemory_def am_TotalBytesForUser_def am_CountByTask_def am_Create_def demo_owns_def demo_att_cfg_def
      maxAttachmentsPerTask_def allowedContentTypes_def demo_s3_put demo_att_def)

theorem object_store_stack_witness:
  "demo_content (fst (snd (snd demo_s3_upload))) demo_id = Some (''two litres'', 7)"
proof -
  obtain s' b' x' y' where up: "demo_s3_upload = (Inr demo_att, (s', (b', x', y')))"
    using demo_s3_upload_ok by (metis prod.collapse)
  have "gomap_wf (fst ([], 7 :: time))" "0 \<le> ac_maxBytes demo_att_cfg" by (simp_all add: demo_att_cfg_def)
  moreover have "object_semantics (ss_client demo_s3) demo_content snd (\<lambda>b. gomap_wf (fst b))"
    using demo_client_ok by (simp add: demo_s3_def)
  ultimately show ?thesis
    using object_store_stack [of demo_s3 demo_content snd "\<lambda>b. gomap_wf (fst b)" "([], 7)", OF _ _ _ up]
    unfolding up by (simp add: demo_att_def demo_reader_def)
qed

end
