(* ===== verification/Server.thy ===== *)
theory Server
  imports Crier AttachS3
begin

text \<open>
  The life of the process (\<^verbatim>\<open>cmd/api/main.go\<close>): \<^verbatim>\<open>run\<close> loads the configuration, \<^verbatim>\<open>newServer\<close> opens what it asks for and wires
  the parts together, the server serves until a signal or a failure, and \<^verbatim>\<open>closeAll\<close> releases everything. Every constructor
  of a library, and every closing call, is a field of the record \<open>boot\<close> with the error it reports, so the theorems
  cover every combination of failures. The events of a run (what was opened, that a closing call was made, that the server
  began serving and that all its requests are done) are recorded in order, with the log and with what \<^verbatim>\<open>/debug/vars\<close> reads.
\<close>

subsection \<open>What the process holds\<close>

datatype resource = DBPool | RedisClient | CacheBus | LimiterStore string | BlobRoot | CrierEngine

datatype event = Opened resource | CloseCalled resource | CleanupStarted | Serving | Stopped

text \<open>What the package variables behind \<^verbatim>\<open>/debug/vars\<close> point to.\<close>

record pool =
  po_DSN :: string
  po_MaxOpenConns :: int
  po_MaxIdleConns :: int
  po_ConnMaxLifetime :: duration

datatype breaker = BreakerNamed string

record debug_vars =
  dv_DB :: "pool option"
  dv_DBBreaker :: "breaker option"
  dv_RWBreaker :: "breaker option"
  dv_ListBreaker :: "breaker option"
  dv_Crier :: "crier_options option"

record world =
  wo_Events :: "event list"
  wo_Log :: "log_line list"
  wo_Vars :: debug_vars

definition event :: "event \<Rightarrow> world \<Rightarrow> world" where
  "event ev w = w\<lparr>wo_Events := wo_Events w @ [ev]\<rparr>"

definition log_to :: "log_level \<Rightarrow> string \<Rightarrow> (string \<times> attr) list \<Rightarrow> world \<Rightarrow> world" where
  "log_to level msg as w = w\<lparr>wo_Log := wo_Log w @ [\<lparr>ll_Level = level, ll_Msg = msg, ll_Attrs = as\<rparr>]\<rparr>"

text \<open>What is open after a list of events.\<close>

fun open_after :: "event list \<Rightarrow> resource set \<Rightarrow> resource set" where
  "open_after [] R = R"
| "open_after (Opened r # es) R = open_after es (insert r R)"
| "open_after (CloseCalled r # es) R = open_after es (R - {r})"
| "open_after (_ # es) R = open_after es R"

subsection \<open>The calls that can fail\<close>

record boot =
  bo_sql_Open :: "string \<Rightarrow> string option"
  bo_Ping :: "string option"
  bo_RunMigrations :: "string option"
  bo_buildDBBreaker :: "string option"
  bo_memory_New :: "string option"
  bo_redisstore_New :: "string option"
  bo_redisstore_NewBus :: "string option"
  bo_NewCachedRepository :: "string option"
  bo_csrf_New :: "string \<Rightarrow> string list \<Rightarrow> string option"
  bo_realip_New :: "string list \<Rightarrow> string option"
  bo_NewS3BlobStore :: "S3Config \<Rightarrow> string option"
  bo_NewBreakerBlobStore :: "string option"
  bo_NewFSBlobStore :: "string \<Rightarrow> string option"
  bo_url_Parse :: "string \<Rightarrow> string + string"
  bo_cairn_New :: "string \<Rightarrow> string option"
  bo_link_NewService :: "string option"
  bo_otlp_New :: "string \<Rightarrow> string option"
  bo_core_New :: "crier_options \<Rightarrow> string option"
  bo_db_Close :: "string option"
  bo_cached_Close :: "string option"
  bo_redis_Close :: "string option"
  bo_blobs_Close :: "string option"
  bo_crier_Shutdown :: "drain_summary \<times> string option"
  bo_version :: string
  bo_commit :: string

subsection \<open>Database, cache, blobs\<close>

definition openDatabase :: "config \<Rightarrow> boot \<Rightarrow> world \<Rightarrow> (string + pool option) \<times> world" where
  "openDatabase cfg b w =
     (if cf_DatabaseURL cfg = '''' then (Inr None, w)
      else case bo_sql_Open b (cf_DatabaseURL cfg) of
        Some err \<Rightarrow> (Inl (''open database: '' @ err), w)
      | None \<Rightarrow>
          (let w1 = event (Opened DBPool) w;
               db = \<lparr>po_DSN = cf_DatabaseURL cfg, po_MaxOpenConns = cf_DBMaxOpenConns cfg, po_MaxIdleConns = cf_DBMaxIdleConns cfg,
                     po_ConnMaxLifetime = cf_DBConnMaxLifetime cfg\<rparr>
           in case bo_Ping b of
                Some err \<Rightarrow> (Inl (''ping database: '' @ err), event (CloseCalled DBPool) w1)
              | None \<Rightarrow>
                  if cf_DBAutoMigrate cfg then
                    (case bo_RunMigrations b of
                       Some err \<Rightarrow> (Inl (''run migrations: '' @ err), event (CloseCalled DBPool) w1)
                     | None \<Rightarrow> (Inr (Some db), log_to LogInfo ''database migrations applied'' [] w1))
                  else (Inr (Some db), w1)))"

text \<open>The cache in front of the task repository, with its two lifetimes, or none.\<close>

definition buildCachedTaskRepository :: "config \<Rightarrow> boot \<Rightarrow> world \<Rightarrow> (string + (duration \<times> duration) option) \<times> world" where
  "buildCachedTaskRepository cfg b w =
     (if cf_RedisAddr cfg = '''' then (Inr None, w)
      else
        (let w1 = event (Opened RedisClient) w; giveUp = event (CloseCalled RedisClient) w1 in
         case bo_memory_New b of Some err \<Rightarrow> (Inl (''build task cache L1: '' @ err), giveUp) | None \<Rightarrow>
         (case bo_redisstore_New b of Some err \<Rightarrow> (Inl (''build task cache L2: '' @ err), giveUp) | None \<Rightarrow>
         (case bo_redisstore_NewBus b of Some err \<Rightarrow> (Inl (''build task cache bus: '' @ err), giveUp) | None \<Rightarrow>
         (case bo_NewCachedRepository b of Some err \<Rightarrow> (Inl (''build cached task repository: '' @ err), giveUp) | None \<Rightarrow>
           (Inr (Some (cf_RedisCacheTTL cfg, cf_RedisCacheL1TTL cfg)), event (Opened CacheBus) w1))))))"

definition closeCache :: "bool \<Rightarrow> boot \<Rightarrow> world \<Rightarrow> string option \<times> world" where
  "closeCache cached b w =
     (if \<not> cached then (None, w)
      else
        (let w1 = event (CloseCalled CacheBus) w in
         case bo_cached_Close b of
           Some err \<Rightarrow> (Some err, event (CloseCalled RedisClient) w1)
         | None \<Rightarrow> (bo_redis_Close b, event (CloseCalled RedisClient) w1)))"

definition attachmentsEnabled :: "config \<Rightarrow> bool" where
  "attachmentsEnabled cfg \<longleftrightarrow> cf_AttachmentStorageDir cfg \<noteq> '''' \<or> cf_AttachmentS3Endpoint cfg \<noteq> ''''"

datatype blob_backend = S3Backend S3Config | FSBackend string

definition s3_config :: "config \<Rightarrow> S3Config" where
  "s3_config cfg = \<lparr>s3c_Endpoint = cf_AttachmentS3Endpoint cfg, s3c_Bucket = cf_AttachmentS3Bucket cfg,
     s3c_AccessKey = cf_AttachmentS3AccessKey cfg, s3c_SecretKey = cf_AttachmentS3SecretKey cfg, s3c_Region = cf_AttachmentS3Region cfg,
     s3c_UseSSL = cf_AttachmentS3UseSSL cfg, s3c_CallTimeout = cf_StorageCallTimeout cfg\<rparr>"

definition store_blob_breakers :: "breaker option \<Rightarrow> breaker option \<Rightarrow> world \<Rightarrow> world" where
  "store_blob_breakers rw ls w = w\<lparr>wo_Vars := (wo_Vars w)\<lparr>dv_RWBreaker := rw, dv_ListBreaker := ls\<rparr>\<rparr>"

text \<open>The closing function of the S3 store does nothing; the one of the file system closes the root directory.\<close>

definition buildBlobStore :: "config \<Rightarrow> boot \<Rightarrow> world \<Rightarrow> (string + blob_backend) \<times> world" where
  "buildBlobStore cfg b w =
     (if cf_AttachmentS3Endpoint cfg \<noteq> '''' then
        (case bo_NewS3BlobStore b (s3_config cfg) of
           Some err \<Rightarrow> (Inl err, w)
         | None \<Rightarrow>
             (case bo_NewBreakerBlobStore b of
                Some err \<Rightarrow> (Inl err, w)
              | None \<Rightarrow> (Inr (S3Backend (s3_config cfg)),
                  store_blob_breakers (Some (BreakerNamed ''attachment-s3'')) (Some (BreakerNamed ''attachment-s3-list'')) w)))
      else
        (let w1 = store_blob_breakers None None w in
         case bo_NewFSBlobStore b (cf_AttachmentStorageDir cfg) of
           Some err \<Rightarrow> (Inl err, w1)
         | None \<Rightarrow> (Inr (FSBackend (cf_AttachmentStorageDir cfg)), event (Opened BlobRoot) w1)))"

definition closeBlobs :: "blob_backend option \<Rightarrow> boot \<Rightarrow> world \<Rightarrow> string option \<times> world" where
  "closeBlobs store b w =
     (case store of Some (FSBackend _) \<Rightarrow> (bo_blobs_Close b, event (CloseCalled BlobRoot) w) | _ \<Rightarrow> (None, w))"

text \<open>The key of the address-keyed limiters: the peer, or the extractor over the proxies named.\<close>

datatype address_key = RemoteAddrKey | RealIPKey "string list"

definition addressKeyFunc :: "config \<Rightarrow> boot \<Rightarrow> string + address_key" where
  "addressKeyFunc cfg b =
     (if cf_TrustedProxies cfg = [] then Inr RemoteAddrKey
      else case bo_realip_New b (cf_TrustedProxies cfg) of
        Some err \<Rightarrow> Inl (''configure trusted proxies: '' @ err)
      | None \<Rightarrow> Inr (RealIPKey (cf_TrustedProxies cfg)))"

subsection \<open>The server\<close>

record server =
  sv_Addr :: string
  sv_ReadTimeout :: duration
  sv_WriteTimeout :: duration
  sv_IdleTimeout :: duration
  sv_DB :: "pool option"
  sv_DBCallTimeout :: duration
  sv_Cache :: "(duration \<times> duration) option"
  sv_SessionTTL :: duration
  sv_MaxSessions :: int
  sv_CookieInsecure :: bool
  sv_TrustedOrigins :: "string list"
  sv_AddressKey :: address_key
  sv_GlobalLimit :: "int \<times> float64"
  sv_AuthLimit :: "int \<times> float64"
  sv_UserLimit :: "int \<times> float64"
  sv_Blobs :: "blob_backend option"
  sv_AttachmentMax :: "int \<times> int"
  sv_OrphanMinAge :: "duration option"
  sv_Links :: "string option"
  sv_CORS :: "string list"
  sv_HSTSMaxAge :: duration

definition limiters :: "string list" where
  "limiters = [''global'', ''auth'', ''user'']"

definition open_limiters :: "world \<Rightarrow> world" where
  "open_limiters w = fold (\<lambda>n. event (Opened (LimiterStore n))) limiters w"

definition closeLimiters :: "world \<Rightarrow> world" where
  "closeLimiters w = fold (\<lambda>n. event (CloseCalled (LimiterStore n))) limiters w"

definition closeDB :: "pool option \<Rightarrow> world \<Rightarrow> world" where
  "closeDB db w = (case db of None \<Rightarrow> w | Some _ \<Rightarrow> event (CloseCalled DBPool) w)"

definition csrf_options :: "config \<Rightarrow> string list" where
  "csrf_options cfg = (if length (cf_CORSAllowedOrigins cfg) > 0 then cf_CORSAllowedOrigins cfg else [])"

text \<open>The part on links; its result is the public base address when they are enabled.\<close>

definition buildLinks :: "config \<Rightarrow> boot \<Rightarrow> string + string option" where
  "buildLinks cfg b =
     (if cf_LinkShorteningEnabled cfg then
        (case bo_url_Parse b (cf_LinkPublicBaseURL cfg) of
           Inl err \<Rightarrow> Inl (''parse LINK_PUBLIC_BASE_URL: '' @ err)
         | Inr host \<Rightarrow>
             (case bo_cairn_New b host of
                Some err \<Rightarrow> Inl (''build link shortener: '' @ err)
              | None \<Rightarrow>
                  (case bo_link_NewService b of
                     Some err \<Rightarrow> Inl (''build link service: '' @ err)
                   | None \<Rightarrow> Inr (Some (cf_LinkPublicBaseURL cfg)))))
      else Inr None)"

definition new_server :: "config \<Rightarrow> pool option \<Rightarrow> (duration \<times> duration) option \<Rightarrow> address_key \<Rightarrow> blob_backend option \<Rightarrow> string option \<Rightarrow> server" where
  "new_server cfg db cache key blobs links = \<lparr>sv_Addr = cf_Addr cfg, sv_ReadTimeout = cf_ReadTimeout cfg,
     sv_WriteTimeout = cf_WriteTimeout cfg, sv_IdleTimeout = cf_IdleTimeout cfg, sv_DB = db, sv_DBCallTimeout = cf_DBCallTimeout cfg,
     sv_Cache = cache, sv_SessionTTL = cf_AuthSessionTTL cfg, sv_MaxSessions = cf_AuthMaxSessionsPerUser cfg,
     sv_CookieInsecure = cf_CookieInsecure cfg, sv_TrustedOrigins = csrf_options cfg, sv_AddressKey = key,
     sv_GlobalLimit = (cf_RateLimitBurst cfg, cf_RateLimitPerSec cfg), sv_AuthLimit = (cf_AuthRateLimitBurst cfg, cf_AuthRateLimitPerSec cfg),
     sv_UserLimit = (cf_UserRateLimitBurst cfg, cf_UserRateLimitPerSec cfg), sv_Blobs = blobs,
     sv_AttachmentMax = (cf_AttachmentMaxBytes cfg, cf_AttachmentMaxBytesPerUser cfg),
     sv_OrphanMinAge = (if blobs = None then None else Some (cf_AttachmentOrphanMinAge cfg)), sv_Links = links,
     sv_CORS = cf_CORSAllowedOrigins cfg, sv_HSTSMaxAge = cf_HSTSMaxAge cfg\<rparr>"

text \<open>From the limiters on: the attachments, the links, the server.\<close>

definition build_blobs :: "config \<Rightarrow> boot \<Rightarrow> world \<Rightarrow> (string + blob_backend option) \<times> world" where
  "build_blobs cfg b w =
     (if attachmentsEnabled cfg then
        (case buildBlobStore cfg b w of
           (Inl err, w1) \<Rightarrow> (Inl (''open attachment storage: '' @ err), w1)
         | (Inr store, w1) \<Rightarrow> (Inr (Some store), w1))
      else (Inr None, store_blob_breakers None None w))"

definition newServer_rest :: "config \<Rightarrow> boot \<Rightarrow> pool option \<Rightarrow> (duration \<times> duration) option \<Rightarrow> address_key \<Rightarrow> world \<Rightarrow> (string + server) \<times> world" where
  "newServer_rest cfg b db cache key w =
     (case build_blobs cfg b (open_limiters w) of
        (Inl err, w1) \<Rightarrow> (Inl err, closeDB db (closeLimiters w1))
      | (Inr blobs, w1) \<Rightarrow>
          (case buildLinks cfg b of
             Inl err \<Rightarrow> (Inl err, snd (closeBlobs blobs b (closeDB db (closeLimiters w1))))
           | Inr links \<Rightarrow> (Inr (new_server cfg db cache key blobs links), event CleanupStarted w1)))"

text \<open>The repositories: in memory, or over the pool and the shared breaker.\<close>

definition build_repositories :: "boot \<Rightarrow> pool option \<Rightarrow> world \<Rightarrow> string option \<times> world" where
  "build_repositories b db w =
     (let w1 = w\<lparr>wo_Vars := (wo_Vars w)\<lparr>dv_DB := db\<rparr>\<rparr> in
      case db of
        None \<Rightarrow> (None, w1\<lparr>wo_Vars := (wo_Vars w1)\<lparr>dv_DBBreaker := None\<rparr>\<rparr>)
      | Some _ \<Rightarrow>
          (case bo_buildDBBreaker b of
             Some err \<Rightarrow> (Some (''build database breaker: '' @ err), closeDB db w1)
           | None \<Rightarrow> (None, w1\<lparr>wo_Vars := (wo_Vars w1)\<lparr>dv_DBBreaker := Some (BreakerNamed ''postgres'')\<rparr>\<rparr>)))"

definition newServer :: "config \<Rightarrow> boot \<Rightarrow> world \<Rightarrow> (string + server) \<times> world" where
  "newServer cfg b w =
     (case openDatabase cfg b w of
        (Inl err, w1) \<Rightarrow> (Inl (''open database: '' @ err), w1)
      | (Inr db, w1) \<Rightarrow>
     (case build_repositories b db w1 of
        (Some err, w2) \<Rightarrow> (Inl err, w2)
      | (None, w2) \<Rightarrow>
     (case buildCachedTaskRepository cfg b w2 of
        (Inl err, w3) \<Rightarrow> (Inl (''build cached task repository: '' @ err), closeDB db w3)
      | (Inr cache, w3) \<Rightarrow>
     (case bo_csrf_New b (cf_CSRFSecret cfg) (csrf_options cfg) of
        Some err \<Rightarrow> (Inl (''build csrf protector: '' @ err), w3)
      | None \<Rightarrow>
     (case addressKeyFunc cfg b of
        Inl err \<Rightarrow> (Inl err, closeDB db w3)
      | Inr key \<Rightarrow> newServer_rest cfg b db cache key w3)))))"

definition closeAll :: "boot \<Rightarrow> bool \<Rightarrow> server \<Rightarrow> world \<Rightarrow> string option \<times> world" where
  "closeAll b crier srv w =
     (case closeBlobs (sv_Blobs srv) b (closeLimiters w) of
        (Some err, w1) \<Rightarrow> (Some err, w1)
      | (None, w1) \<Rightarrow>
     (case closeCache (sv_Cache srv \<noteq> None) b w1 of
        (Some err, w2) \<Rightarrow> (Some err, w2)
      | (None, w2) \<Rightarrow>
     (case shutdownCrier crier (bo_crier_Shutdown b) of
        (err, ls) \<Rightarrow>
          (let w3 = (if crier then event (CloseCalled CrierEngine) w2 else w2);
               w4 = w3\<lparr>wo_Log := wo_Log w3 @ ls\<rparr>
           in case err of
                Some e \<Rightarrow> (Some e, w4)
              | None \<Rightarrow> (case sv_DB srv of None \<Rightarrow> None | Some _ \<Rightarrow> bo_db_Close b, closeDB (sv_DB srv) w4)))))"


subsection \<open>run\<close>

text \<open>
  How serving ends: the server fails on its own, or a signal arrives. After a signal the server may fail while it drains,
  \<^verbatim>\<open>Shutdown\<close> may report an error (its deadline passed with requests in flight), and \<^verbatim>\<open>ListenAndServe\<close> returns
  \<^verbatim>\<open>http.ErrServerClosed\<close> (\<open>None\<close>) or something else. Only \<^verbatim>\<open>Shutdown\<close> waits for the requests on open connections: the
  event \<open>Stopped\<close> is recorded when it returns without an error, and not when \<^verbatim>\<open>ListenAndServe\<close> merely returns.
\<close>

record signalled =
  sg_Reason :: string
  sg_DrainFailure :: "string option"
  sg_Shutdown :: "string option"
  sg_Final :: "string option"

datatype ending = ServerFails string | SignalReceived signalled

definition drain_fails :: "config \<Rightarrow> signalled \<Rightarrow> string option" where
  "drain_fails cfg sg = (if cf_PreShutdownDelay cfg > 0 then sg_DrainFailure sg else None)"

definition serve_until :: "(duration \<Rightarrow> string) \<Rightarrow> config \<Rightarrow> ending \<Rightarrow> world \<Rightarrow> string option \<times> world" where
  "serve_until durString cfg ending0 w =
     (case ending0 of
        ServerFails err \<Rightarrow> (Some (''server error: '' @ err), w)
      | SignalReceived sg \<Rightarrow>
          (let w1 = log_to LogInfo ''signal received'' [(''reason'', AText (sg_Reason sg))] w;
               w2 = (if cf_PreShutdownDelay cfg > 0
                     then log_to LogInfo ''draining before shutdown'' [(''delay'', AText (durString (cf_PreShutdownDelay cfg)))] w1 else w1)
           in case drain_fails cfg sg of
                Some err \<Rightarrow> (Some (''server error: '' @ err), w2)
              | None \<Rightarrow>
                  (let w3 = log_to LogInfo ''shutdown initiated'' [(''timeout'', AText (durString (cf_ShutdownTimeout cfg)))] w2 in
                   case sg_Shutdown sg of
                     Some err \<Rightarrow> (Some (''shutdown: '' @ err), log_to LogError ''shutdown error'' [(''error'', AText err)] w3)
                   | None \<Rightarrow>
                       (case sg_Final sg of
                          Some err \<Rightarrow> (Some (''server error: '' @ err), event Stopped w3)
                        | None \<Rightarrow> (None, log_to LogInfo ''shutdown completed'' [] (event Stopped w3))))))"

definition run :: "(duration \<Rightarrow> string) \<Rightarrow> config cres \<Rightarrow> boot \<Rightarrow> ending \<Rightarrow> world \<Rightarrow> string option \<times> world" where
  "run durString load b ending0 w =
     (case load of
        Inl err \<Rightarrow> (Some (''load config: '' @ err), w)
      | Inr cfg \<Rightarrow>
     (case buildCrier (bo_otlp_New b) (bo_core_New b) (bo_version b) cfg (dv_Crier (wo_Vars w)) of
        (Inl err, _) \<Rightarrow> (Some (''build crier: '' @ err), w)
      | (Inr crier, current) \<Rightarrow>
          (let w1 = w\<lparr>wo_Vars := (wo_Vars w)\<lparr>dv_Crier := current\<rparr>\<rparr>;
               w2 = (if crier \<noteq> None then event (Opened CrierEngine) w1 else w1);
               w3 = log_to LogInfo ''build info'' [(''version'', AText (bo_version b)), (''commit'', AText (bo_commit b))] w2
           in case newServer cfg b w3 of
                (Inl err, w4) \<Rightarrow> (Some (''build server: '' @ err), w4)
              | (Inr srv, w4) \<Rightarrow>
                  (case serve_until durString cfg ending0 (log_to LogInfo ''server started'' [(''addr'', AText (cf_Addr cfg))] (event Serving w4)) of
                     (res, w5) \<Rightarrow>
                       (case closeAll b (crier \<noteq> None) srv w5 of
                          (None, w6) \<Rightarrow> (res, w6)
                        | (Some err, w6) \<Rightarrow> (res, log_to LogError ''failed to close database'' [(''error'', AText err)] w6))))))"

subsection \<open>The events of a start\<close>

definition db_res :: "config \<Rightarrow> resource set" where
  "db_res cfg = (if cf_DatabaseURL cfg = '''' then {} else {DBPool})"

definition cache_res :: "config \<Rightarrow> resource set" where
  "cache_res cfg = (if cf_RedisAddr cfg = '''' then {} else {RedisClient, CacheBus})"

definition fs_blobs :: "config \<Rightarrow> bool" where
  "fs_blobs cfg \<longleftrightarrow> cf_AttachmentStorageDir cfg \<noteq> '''' \<and> cf_AttachmentS3Endpoint cfg = ''''"

definition start_events :: "config \<Rightarrow> event list" where
  "start_events cfg =
     (if cf_DatabaseURL cfg = '''' then [] else [Opened DBPool]) @
     (if cf_RedisAddr cfg = '''' then [] else [Opened RedisClient, Opened CacheBus]) @
     map (\<lambda>n. Opened (LimiterStore n)) limiters @ (if fs_blobs cfg then [Opened BlobRoot] else []) @ [CleanupStarted]"

lemma events_simps [simp]:
  "wo_Events (event ev w) = wo_Events w @ [ev]" "wo_Events (log_to l m as w) = wo_Events w"
  "wo_Events (store_blob_breakers x y w) = wo_Events w"
  "wo_Events (open_limiters w) = wo_Events w @ map (\<lambda>n. Opened (LimiterStore n)) limiters"
  "wo_Events (closeLimiters w) = wo_Events w @ map (\<lambda>n. CloseCalled (LimiterStore n)) limiters"
  "wo_Events (closeDB db w) = wo_Events w @ (if db = None then [] else [CloseCalled DBPool])"
  by (simp_all add: event_def log_to_def store_blob_breakers_def open_limiters_def closeLimiters_def limiters_def closeDB_def split: option.split)

lemma open_after_append [simp]: "open_after (xs @ ys) R = open_after ys (open_after xs R)"
  by (induction xs R rule: open_after.induct) simp_all

lemma openDatabase_Inr:
  "openDatabase cfg b w = (Inr db, w') \<Longrightarrow> wo_Events w' = wo_Events w @ (if cf_DatabaseURL cfg = '''' then [] else [Opened DBPool]) \<and>
     (db = None \<longleftrightarrow> cf_DatabaseURL cfg = '''')"
  by (auto simp: openDatabase_def Let_def split: if_splits option.splits)

lemma openDatabase_Inl:
  "openDatabase cfg b w = (Inl err, w') \<Longrightarrow> wo_Events w' = wo_Events w \<or> wo_Events w' = wo_Events w @ [Opened DBPool, CloseCalled DBPool]"
  by (auto simp: openDatabase_def Let_def split: if_splits option.splits)

lemma build_repositories_events:
  "build_repositories b db w = (err, w') \<Longrightarrow> wo_Events w' = wo_Events w @ (if err = None then [] else [CloseCalled DBPool])"
  by (auto simp: build_repositories_def Let_def split: option.splits)

lemma cached_Inr:
  "buildCachedTaskRepository cfg b w = (Inr cache, w') \<Longrightarrow>
     wo_Events w' = wo_Events w @ (if cf_RedisAddr cfg = '''' then [] else [Opened RedisClient, Opened CacheBus]) \<and>
     (cache = None \<longleftrightarrow> cf_RedisAddr cfg = '''')"
  by (auto simp: buildCachedTaskRepository_def Let_def split: if_splits option.splits)

lemma cached_Inl:
  "buildCachedTaskRepository cfg b w = (Inl err, w') \<Longrightarrow> wo_Events w' = wo_Events w @ [Opened RedisClient, CloseCalled RedisClient]"
  by (auto simp: buildCachedTaskRepository_def Let_def split: if_splits option.splits)

lemma build_blobs_events:
  "build_blobs cfg b w = (Inr blobs, w') \<Longrightarrow> wo_Events w' = wo_Events w @ (if fs_blobs cfg then [Opened BlobRoot] else []) \<and>
     ((\<exists>d. blobs = Some (FSBackend d)) \<longleftrightarrow> fs_blobs cfg)"
  "build_blobs cfg b w = (Inl err, w') \<Longrightarrow> wo_Events w' = wo_Events w"
  by (auto simp: build_blobs_def buildBlobStore_def attachmentsEnabled_def fs_blobs_def Let_def split: if_splits option.splits prod.splits sum.splits)


lemma newServer_Inr:
  assumes "newServer cfg b w = (Inr srv, w')"
  shows "wo_Events w' = wo_Events w @ start_events cfg \<and> (sv_DB srv = None \<longleftrightarrow> cf_DatabaseURL cfg = '''') \<and>
    (sv_Cache srv = None \<longleftrightarrow> cf_RedisAddr cfg = '''') \<and> ((\<exists>d. sv_Blobs srv = Some (FSBackend d)) \<longleftrightarrow> fs_blobs cfg)"
proof -
  obtain db w1 w2 cache w3 key where 1: "openDatabase cfg b w = (Inr db, w1)" "build_repositories b db w1 = (None, w2)"
      "buildCachedTaskRepository cfg b w2 = (Inr cache, w3)" "newServer_rest cfg b db cache key w3 = (Inr srv, w')"
    using assms by (auto simp: newServer_def split: prod.splits sum.splits option.splits)
  obtain blobs w4 links where 2: "build_blobs cfg b (open_limiters w3) = (Inr blobs, w4)" "srv = new_server cfg db cache key blobs links"
      "w' = event CleanupStarted w4"
    using 1(4) by (auto simp: newServer_rest_def split: prod.splits sum.splits)
  from openDatabase_Inr [OF 1(1)] build_repositories_events [OF 1(2)] cached_Inr [OF 1(3)] build_blobs_events(1) [OF 2(1)] 2
  show ?thesis by (simp add: start_events_def new_server_def)
qed

subsection \<open>A start that fails\<close>

text \<open>Whether the database and the cache come up.\<close>

definition db_up :: "config \<Rightarrow> boot \<Rightarrow> bool" where
  "db_up cfg b \<longleftrightarrow> cf_DatabaseURL cfg = '''' \<or> bo_sql_Open b (cf_DatabaseURL cfg) = None \<and> bo_Ping b = None \<and>
     (cf_DBAutoMigrate cfg \<longrightarrow> bo_RunMigrations b = None) \<and> bo_buildDBBreaker b = None"

definition cache_up :: "config \<Rightarrow> boot \<Rightarrow> bool" where
  "cache_up cfg b \<longleftrightarrow> cf_RedisAddr cfg = '''' \<or>
     bo_memory_New b = None \<and> bo_redisstore_New b = None \<and> bo_redisstore_NewBus b = None \<and> bo_NewCachedRepository b = None"

lemma openDatabase_fails:
  "openDatabase cfg b w = (Inl err, w') \<Longrightarrow> \<not> db_up cfg b"
  by (auto simp: openDatabase_def db_up_def Let_def split: if_splits option.splits)

lemma build_repositories_iff:
  "openDatabase cfg b w0 = (Inr db, w1) \<Longrightarrow> build_repositories b db w = (err, w') \<Longrightarrow> err = None \<longleftrightarrow> db_up cfg b"
  by (auto simp: openDatabase_def build_repositories_def db_up_def Let_def split: if_splits option.splits)

lemma cached_iff: "buildCachedTaskRepository cfg b w = (r, w') \<Longrightarrow> isl r \<longleftrightarrow> \<not> cache_up cfg b"
  by (auto simp: buildCachedTaskRepository_def cache_up_def Let_def split: if_splits option.splits)

lemma closeBlobs_events:
  "wo_Events (snd (closeBlobs blobs b w)) = wo_Events w @ (if \<exists>d. blobs = Some (FSBackend d) then [CloseCalled BlobRoot] else [])"
  by (auto simp: closeBlobs_def split: option.splits blob_backend.splits)

text \<open>From the limiters on, what was opened there and the pool are released.\<close>

lemma newServer_rest_Inl:
  assumes "newServer_rest cfg b db cache key w = (Inl err, w')"
    and "\<And>n. LimiterStore n \<notin> open_after (wo_Events w) {}" and "BlobRoot \<notin> open_after (wo_Events w) {}"
  shows "open_after (wo_Events w') {} = open_after (wo_Events w) {} - (if db = None then {} else {DBPool})"
  using assms
  by (auto simp: newServer_rest_def limiters_def closeBlobs_events dest!: build_blobs_events split: prod.splits sum.splits if_splits)

text \<open>What an unsuccessful start leaves open.\<close>

definition left_open :: "config \<Rightarrow> boot \<Rightarrow> resource set" where
  "left_open cfg b =
     (if db_up cfg b \<and> cache_up cfg b
      then cache_res cfg \<union> (if bo_csrf_New b (cf_CSRFSecret cfg) (csrf_options cfg) \<noteq> None then db_res cfg else {})
      else {})"

text \<open>
  C36. What an unsuccessful start leaves open, for every configuration and every failure. When the database or the cache fails
  nothing is left; after that the cache is never released, and the connection pool is not released when the CSRF protector
  cannot be built. The documentation of \<^verbatim>\<open>newServer\<close> says that it fails only when the database cannot be opened, and
  that there is nothing to close then.
\<close>

theorem failed_start_leaves_open:
  assumes "newServer cfg b w = (Inl err, w')" and "open_after (wo_Events w) {} = {}"
  shows "open_after (wo_Events w') {} = left_open cfg b"
proof (cases "openDatabase cfg b w")
  case (Pair r w1)
  show ?thesis
  proof (cases r)
    case (Inl e)
    with Pair openDatabase_Inl [of cfg b w e w1] openDatabase_fails [of cfg b w e w1] assms
    show ?thesis by (auto simp: newServer_def left_open_def)
  next
    case (Inr db)
    with Pair have db: "openDatabase cfg b w = (Inr db, w1)" by simp
    note ev1 = openDatabase_Inr [OF db]
    obtain e2 w2 where rep: "build_repositories b db w1 = (e2, w2)" by fastforce
    note ev2 = build_repositories_events [OF rep] and up = build_repositories_iff [OF db rep]
    obtain r3 w3 where ca: "buildCachedTaskRepository cfg b w2 = (r3, w3)" by fastforce
    show ?thesis
    proof (cases "e2 = None \<and> \<not> isl r3")
      case False
      then show ?thesis using assms db rep ca ev1 ev2 up cached_iff [OF ca] cached_Inl [of cfg b w2 _ w3]
        by (cases e2; cases r3) (auto simp: newServer_def left_open_def db_up_def)
    next
      case True
      then obtain cache where ca': "r3 = Inr cache" "e2 = None" by (cases r3) auto
      have ev3: "open_after (wo_Events w3) {} = db_res cfg \<union> cache_res cfg"
        using ev1 ev2 cached_Inr [of cfg b w2 cache w3] ca ca' assms(2) by (auto simp: db_res_def cache_res_def)
      have ups: "db_up cfg b" "cache_up cfg b" using up cached_iff [OF ca] True by auto
      show ?thesis
      proof (cases "\<exists>key. bo_csrf_New b (cf_CSRFSecret cfg) (csrf_options cfg) = None \<and> addressKeyFunc cfg b = Inr key")
        case False
        then show ?thesis using assms(1) db rep ca ca' ev1 ev3 ups
          by (auto simp: newServer_def left_open_def db_res_def cache_res_def split: option.splits sum.splits)
      next
        case True
        then obtain key where "newServer_rest cfg b db cache key w3 = (Inl err, w')" "bo_csrf_New b (cf_CSRFSecret cfg) (csrf_options cfg) = None"
          using assms(1) db rep ca ca' by (auto simp: newServer_def)
        with newServer_rest_Inl [OF this(1)] ev1 ev3 ups show ?thesis
          by (auto simp: left_open_def db_res_def cache_res_def split: if_splits)
      qed
    qed
  qed
qed


definition demo_boot :: boot where
  "demo_boot = \<lparr>bo_sql_Open = (\<lambda>_. None), bo_Ping = None, bo_RunMigrations = None, bo_buildDBBreaker = None, bo_memory_New = None,
     bo_redisstore_New = None, bo_redisstore_NewBus = None, bo_NewCachedRepository = None,
     bo_csrf_New = (\<lambda>secret _. if length secret < 32 then Some ''secret too short'' else None), bo_realip_New = (\<lambda>_. None),
     bo_NewS3BlobStore = (\<lambda>_. None), bo_NewBreakerBlobStore = None, bo_NewFSBlobStore = (\<lambda>_. None), bo_url_Parse = (\<lambda>s. Inr s),
     bo_cairn_New = (\<lambda>_. None), bo_link_NewService = None, bo_otlp_New = (\<lambda>_. None), bo_core_New = (\<lambda>_. None), bo_db_Close = None,
     bo_cached_Close = None, bo_redis_Close = None, bo_blobs_Close = None, bo_crier_Shutdown = (\<lparr>ds_Clean = True, ds_Lost = 0, ds_String = []\<rparr>, None),
     bo_version = ''dev'', bo_commit = ''unknown''\<rparr>"

definition demo_world :: world where
  "demo_world = \<lparr>wo_Events = [], wo_Log = [], wo_Vars = \<lparr>dv_DB = None, dv_DBBreaker = None, dv_RWBreaker = None, dv_ListBreaker = None, dv_Crier = None\<rparr>\<rparr>"

definition demo_config :: config where
  "demo_config = initial_config\<lparr>cf_DatabaseURL := ''postgres://db'', cf_RedisAddr := ''redis:6379''\<rparr>"

lemma demo_fails: "isl (fst (newServer demo_config demo_boot demo_world))"
  by (simp add: newServer_def openDatabase_def build_repositories_def buildCachedTaskRepository_def demo_config_def demo_boot_def initial_config_def Let_def)

text \<open>With no CSRF secret, a start over PostgreSQL and Redis leaves both connected.\<close>

theorem failed_start_leaves_open_witness:
  "open_after (wo_Events (snd (newServer demo_config demo_boot demo_world))) {} = {DBPool, RedisClient, CacheBus}"
proof -
  obtain err w' where r: "newServer demo_config demo_boot demo_world = (Inl err, w')"
    using demo_fails by (metis isl_def prod.collapse)
  have "open_after (wo_Events w') {} = left_open demo_config demo_boot"
    by (rule failed_start_leaves_open [OF r]) (simp add: demo_world_def)
  with r show ?thesis
    by (auto simp: left_open_def db_up_def cache_up_def cache_res_def db_res_def demo_config_def demo_boot_def initial_config_def csrf_options_def)
qed

subsection \<open>A run from start to end\<close>

definition crier_on :: "config \<Rightarrow> bool" where
  "crier_on cfg \<longleftrightarrow> cf_CrierOTLPEndpoint cfg \<noteq> ''''"

definition blobs_stuck :: "config \<Rightarrow> boot \<Rightarrow> bool" where
  "blobs_stuck cfg b \<longleftrightarrow> fs_blobs cfg \<and> bo_blobs_Close b \<noteq> None"

definition cache_stuck :: "config \<Rightarrow> boot \<Rightarrow> bool" where
  "cache_stuck cfg b \<longleftrightarrow> cf_RedisAddr cfg \<noteq> '''' \<and> (bo_cached_Close b \<noteq> None \<or> bo_redis_Close b \<noteq> None)"

definition crier_stuck :: "config \<Rightarrow> boot \<Rightarrow> bool" where
  "crier_stuck cfg b \<longleftrightarrow> crier_on cfg \<and> snd (bo_crier_Shutdown b) \<noteq> None"

text \<open>The closing calls, in their order: the first that reports an error is the last one made.\<close>

definition close_events :: "config \<Rightarrow> boot \<Rightarrow> event list" where
  "close_events cfg b =
     map (\<lambda>n. CloseCalled (LimiterStore n)) limiters @ (if fs_blobs cfg then [CloseCalled BlobRoot] else []) @
     (if blobs_stuck cfg b then [] else
        (if cf_RedisAddr cfg = '''' then [] else [CloseCalled CacheBus, CloseCalled RedisClient]) @
        (if cache_stuck cfg b then [] else
           (if crier_on cfg then [CloseCalled CrierEngine] else []) @
           (if crier_stuck cfg b then [] else (if cf_DatabaseURL cfg = '''' then [] else [CloseCalled DBPool]))))"

lemma closeBlobs_fst: "fst (closeBlobs blobs b w) = (if \<exists>d. blobs = Some (FSBackend d) then bo_blobs_Close b else None)"
  by (auto simp: closeBlobs_def split: option.splits blob_backend.splits)

lemma closeCache_simps:
  "wo_Events (snd (closeCache cached b w)) = wo_Events w @ (if cached then [CloseCalled CacheBus, CloseCalled RedisClient] else [])"
  "fst (closeCache cached b w) = None \<longleftrightarrow> \<not> cached \<or> bo_cached_Close b = None \<and> bo_redis_Close b = None"
  by (auto simp: closeCache_def Let_def split: option.splits)

lemma closeAll_events:
  assumes "closeAll b (crier_on cfg) srv w = (err, w')"
    and "sv_DB srv = None \<longleftrightarrow> cf_DatabaseURL cfg = ''''" and "sv_Cache srv = None \<longleftrightarrow> cf_RedisAddr cfg = ''''"
    and "(\<exists>d. sv_Blobs srv = Some (FSBackend d)) \<longleftrightarrow> fs_blobs cfg"
  shows "wo_Events w' = wo_Events w @ close_events cfg b"
proof -
  obtain e1 w1 where 1: "closeBlobs (sv_Blobs srv) b (closeLimiters w) = (e1, w1)" by fastforce
  have ev1: "wo_Events w1 = wo_Events w @ map (\<lambda>n. CloseCalled (LimiterStore n)) limiters @ (if fs_blobs cfg then [CloseCalled BlobRoot] else [])"
    "e1 \<noteq> None \<longleftrightarrow> blobs_stuck cfg b"
    using closeBlobs_events [of "sv_Blobs srv" b "closeLimiters w"] closeBlobs_fst [of "sv_Blobs srv" b "closeLimiters w"] 1 assms(4)
    by (auto simp: blobs_stuck_def split: if_splits)
  obtain e2 w2 where 2: "closeCache (sv_Cache srv \<noteq> None) b w1 = (e2, w2)" by fastforce
  have ev2: "wo_Events w2 = wo_Events w1 @ (if cf_RedisAddr cfg = '''' then [] else [CloseCalled CacheBus, CloseCalled RedisClient])"
    "e2 \<noteq> None \<longleftrightarrow> cache_stuck cfg b"
    using closeCache_simps [of "sv_Cache srv \<noteq> None" b w1] 2 assms(3) by (auto simp: cache_stuck_def split: if_splits)
  show ?thesis
    using assms(1,2) 1 2 ev1 ev2
    by (auto simp: closeAll_def close_events_def shutdownCrier_def crier_stuck_def Let_def split: option.splits prod.splits if_splits)
qed


text \<open>Every request is known to be done only when \<^verbatim>\<open>Shutdown\<close> was called and returned without an error.\<close>

definition drained :: "config \<Rightarrow> ending \<Rightarrow> bool" where
  "drained cfg ending0 = (case ending0 of ServerFails _ \<Rightarrow> False | SignalReceived sg \<Rightarrow> drain_fails cfg sg = None \<and> sg_Shutdown sg = None)"

definition clean_end :: "config \<Rightarrow> ending \<Rightarrow> bool" where
  "clean_end cfg ending0 = (case ending0 of ServerFails _ \<Rightarrow> False
     | SignalReceived sg \<Rightarrow> drain_fails cfg sg = None \<and> sg_Shutdown sg = None \<and> sg_Final sg = None)"

lemma serve_until_events:
  assumes "serve_until durString cfg ending0 w = (res, w')"
  shows "wo_Events w' = wo_Events w @ (if drained cfg ending0 then [Stopped] else [])" and "res = None \<longleftrightarrow> clean_end cfg ending0"
  using assms by (auto simp: serve_until_def drained_def clean_end_def Let_def split: ending.splits option.splits)

lemma buildCrier_on: "buildCrier f g v cfg cur = (Inr crier, cur') \<Longrightarrow> crier \<noteq> None \<longleftrightarrow> crier_on cfg"
  by (auto simp: buildCrier_def crier_on_def Let_def split: if_splits option.splits)

lemma newServer_not_serving:
  assumes "newServer cfg b w = (Inl err, w')" and "Serving \<notin> set (wo_Events w)"
  shows "Serving \<notin> set (wo_Events w')"
proof -
  have rest: "Serving \<notin> set (wo_Events w4)" if "newServer_rest cfg b db cache key w3 = (Inl err, w4)" "Serving \<notin> set (wo_Events w3)" for db cache key w3 w4
    using that by (auto simp: newServer_rest_def limiters_def closeBlobs_events dest!: build_blobs_events split: prod.splits sum.splits if_splits)
  show ?thesis
    using assms
    by (auto simp: newServer_def split: prod.splits sum.splits option.splits if_splits
        dest!: openDatabase_Inr openDatabase_Inl build_repositories_events cached_Inr cached_Inl elim!: rest)
qed

lemma run_events:
  assumes "run durString (Inr cfg) b ending0 w = (res, w')" and "wo_Events w = []" and "Serving \<in> set (wo_Events w')"
  shows "wo_Events w' = ((if crier_on cfg then [Opened CrierEngine] else []) @ start_events cfg @ [Serving] @
      (if drained cfg ending0 then [Stopped] else [])) @ close_events cfg b" and "res = None \<longleftrightarrow> clean_end cfg ending0"
proof -
  obtain crier cur where cr: "buildCrier (bo_otlp_New b) (bo_core_New b) (bo_version b) cfg (dv_Crier (wo_Vars w)) = (Inr crier, cur)"
    using assms by (auto simp: run_def split: prod.splits sum.splits)
  define w3 where "w3 = log_to LogInfo ''build info'' [(''version'', AText (bo_version b)), (''commit'', AText (bo_commit b))]
     (if crier \<noteq> None then event (Opened CrierEngine) (w\<lparr>wo_Vars := (wo_Vars w)\<lparr>dv_Crier := cur\<rparr>\<rparr>) else w\<lparr>wo_Vars := (wo_Vars w)\<lparr>dv_Crier := cur\<rparr>\<rparr>)"
  have ev3: "wo_Events w3 = (if crier_on cfg then [Opened CrierEngine] else [])"
    using assms(2) buildCrier_on [OF cr] by (simp add: w3_def)
  obtain r w4 where ns: "newServer cfg b w3 = (r, w4)" by fastforce
  have "\<not> isl r"
    using newServer_not_serving [of cfg b w3 _ w4] ns ev3 assms(1,3) cr by (cases r) (auto simp: run_def w3_def Let_def split: if_splits)
  then obtain srv where srv: "newServer cfg b w3 = (Inr srv, w4)" using ns by (cases r) auto
  note fields = newServer_Inr [OF srv]
  obtain res5 w5 where su: "serve_until durString cfg ending0
      (log_to LogInfo ''server started'' [(''addr'', AText (cf_Addr cfg))] (event Serving w4)) = (res5, w5)" by fastforce
  obtain cerr w6 where ca: "closeAll b (crier_on cfg) srv w5 = (cerr, w6)" by fastforce
  have "(res, wo_Events w') = (res5, wo_Events w6)"
    using assms(1) cr srv su ca buildCrier_on [OF cr] unfolding w3_def [symmetric]
    by (auto simp: run_def w3_def Let_def split: option.splits if_splits)
  then show "wo_Events w' = ((if crier_on cfg then [Opened CrierEngine] else []) @ start_events cfg @ [Serving] @
      (if drained cfg ending0 then [Stopped] else [])) @ close_events cfg b" and "res = None \<longleftrightarrow> clean_end cfg ending0"
    using closeAll_events [OF ca] serve_until_events [OF su] fields ev3 by auto
qed


definition crier_res :: "config \<Rightarrow> resource set" where
  "crier_res cfg = (if crier_on cfg then {CrierEngine} else {})"

definition limiter_res :: "resource set" where
  "limiter_res = LimiterStore ` set limiters"

definition blob_res :: "config \<Rightarrow> resource set" where
  "blob_res cfg = (if fs_blobs cfg then {BlobRoot} else {})"

lemmas res_defs = db_res_def cache_res_def crier_res_def limiter_res_def blob_res_def limiters_def

lemma open_start:
  "open_after (start_events cfg) R = R \<union> db_res cfg \<union> cache_res cfg \<union> limiter_res \<union> blob_res cfg"
  by (simp add: start_events_def res_defs) blast

lemma open_close:
  "open_after (close_events cfg b) R = R - limiter_res - blob_res cfg - (if blobs_stuck cfg b then {} else cache_res cfg \<union>
     (if cache_stuck cfg b then {} else crier_res cfg \<union> (if crier_stuck cfg b then {} else db_res cfg)))"
  by (simp add: close_events_def res_defs) blast

lemma res_disjoint:
  "(db_res cfg \<union> cache_res cfg \<union> crier_res cfg) \<inter> (limiter_res \<union> blob_res cfg) = {}"
  "db_res cfg \<inter> cache_res cfg = {}" "db_res cfg \<inter> crier_res cfg = {}" "cache_res cfg \<inter> crier_res cfg = {}"
  by (auto simp: res_defs)

text \<open>
  C35. A run that got as far as serving, and what it closes when. Closing begins only when \<^verbatim>\<open>run\<close> is done with serving, and it begins in any
  case: after \<^verbatim>\<open>Shutdown\<close> has reported every request done exactly when a signal arrived, the server did not fail while draining and
  \<^verbatim>\<open>Shutdown\<close> returned without an error. In the other endings (\<^verbatim>\<open>ListenAndServe\<close> failed on its own, or the deadline
  of \<^verbatim>\<open>Shutdown\<close> passed) the handles are closed although requests may be in flight, against the comment in
  \<^verbatim>\<open>run\<close>. Every handle is opened and closed at most once and nothing is closed that was not opened; \<^verbatim>\<open>run\<close>
  succeeds exactly when the signal was followed by an orderly stop. At the end everything is released unless a closing call reports an
  error, and then exactly what comes after it in the order blobs, cache, log engine, database is left.
\<close>

theorem run_stops_then_releases:
  assumes "run durString (Inr cfg) b ending0 w = (res, w')" and "wo_Events w = []" and "Serving \<in> set (wo_Events w')"
  shows "(\<exists>before after. wo_Events w' = before @ after \<and> Serving \<in> set before \<and> (Stopped \<in> set before \<longleftrightarrow> drained cfg ending0) \<and>
      (\<forall>r. CloseCalled r \<notin> set before) \<and> set after \<subseteq> range CloseCalled \<and>
      (\<forall>r. CloseCalled r \<in> set after \<longrightarrow> Opened r \<in> set before) \<and> distinct (before @ after)) \<and>
    open_after (wo_Events w') {} =
      (if blobs_stuck cfg b then cache_res cfg \<union> crier_res cfg \<union> db_res cfg
       else if cache_stuck cfg b then crier_res cfg \<union> db_res cfg
       else if crier_stuck cfg b then db_res cfg else {}) \<and>
    (res = None \<longleftrightarrow> clean_end cfg ending0)"
proof -
  let ?before = "(if crier_on cfg then [Opened CrierEngine] else []) @ start_events cfg @ [Serving] @ (if drained cfg ending0 then [Stopped] else [])"
  note ev = run_events [OF assms]
  have "Serving \<in> set ?before \<and> (Stopped \<in> set ?before \<longleftrightarrow> drained cfg ending0) \<and> (\<forall>r. CloseCalled r \<notin> set ?before)"
    by (auto simp: start_events_def)
  moreover have "set (close_events cfg b) \<subseteq> range CloseCalled" by (auto simp: close_events_def)
  moreover have "\<forall>r. CloseCalled r \<in> set (close_events cfg b) \<longrightarrow> Opened r \<in> set ?before"
    by (auto simp: close_events_def start_events_def)
  moreover have "distinct (?before @ close_events cfg b)"
    by (simp add: close_events_def start_events_def limiters_def)
  moreover have "open_after (wo_Events w') {} =
      (if blobs_stuck cfg b then cache_res cfg \<union> crier_res cfg \<union> db_res cfg
       else if cache_stuck cfg b then crier_res cfg \<union> db_res cfg
       else if crier_stuck cfg b then db_res cfg else {})"
  proof -
    have "open_after ?before {} = crier_res cfg \<union> db_res cfg \<union> cache_res cfg \<union> limiter_res \<union> blob_res cfg"
      by (simp add: open_start) (simp add: crier_res_def)
    then show ?thesis unfolding ev(1) open_after_append [of ?before] open_close using res_disjoint [of cfg]
      by (cases "blobs_stuck cfg b"; cases "cache_stuck cfg b"; cases "crier_stuck cfg b") (simp_all, blast+)
  qed
  ultimately show ?thesis using ev by blast
qed

definition demo_ready :: config where
  "demo_ready = demo_config\<lparr>cf_CSRFSecret := ''0123456789abcdef0123456789abcdef'', cf_AttachmentStorageDir := ''/data''\<rparr>"

definition demo_signal :: ending where
  "demo_signal = SignalReceived \<lparr>sg_Reason = ''interrupt'', sg_DrainFailure = None, sg_Shutdown = None, sg_Final = None\<rparr>"

definition demo_run :: "string option \<times> world" where
  "demo_run = run (\<lambda>_. ''10s'') (Inr demo_ready) (demo_boot\<lparr>bo_blobs_Close := Some ''EIO''\<rparr>) demo_signal demo_world"

lemma demo_serves: "Serving \<in> set (wo_Events (snd demo_run))"
  by (simp add: demo_run_def run_def buildCrier_def newServer_def openDatabase_def build_repositories_def buildCachedTaskRepository_def
      addressKeyFunc_def newServer_rest_def build_blobs_def buildBlobStore_def attachmentsEnabled_def buildLinks_def new_server_def
      serve_until_def drain_fails_def closeAll_def closeBlobs_def demo_ready_def demo_config_def demo_boot_def demo_signal_def
      initial_config_def default_defs Let_def)

text \<open>One failing call, on the directory of the blobs, leaves the database pool and the cache connections open.\<close>

theorem run_stops_then_releases_witness:
  "open_after (wo_Events (snd demo_run)) {} = {DBPool, RedisClient, CacheBus} \<and> fst demo_run = None"
proof -
  have r: "run (\<lambda>_. ''10s'') (Inr demo_ready) (demo_boot\<lparr>bo_blobs_Close := Some ''EIO''\<rparr>) demo_signal demo_world = (fst demo_run, snd demo_run)"
    by (simp add: demo_run_def)
  have w: "wo_Events demo_world = []" by (simp add: demo_world_def)
  show ?thesis
    using run_stops_then_releases [OF r w demo_serves]
    by (auto simp: blobs_stuck_def fs_blobs_def cache_res_def crier_res_def crier_on_def db_res_def clean_end_def drain_fails_def
        demo_ready_def demo_config_def demo_boot_def demo_signal_def initial_config_def)
qed

end
