(* ===== verification/Operations.thy ===== *)
theory Operations
  imports Crier AttachService
begin

text \<open>
  The operational side of the process (\<^verbatim>\<open>cmd/api\<close>): the health probes, the outer muxes that decide what the rate limiter and the
  authentication see, what \<^verbatim>\<open>/debug/vars\<close> shows of the pool and the breakers, what the breakers log, and the loop of
  periodic cleanup. The libraries' middlewares, the versioned API behind \<^verbatim>\<open>/v1\<close> and the page of a redirect are
  parameters. Paths are taken without escaped bytes.
\<close>

subsection \<open>Health probes\<close>

definition readinessPingTimeout :: duration where
  "readinessPingTimeout = 5 * Second"

definition healthResponse :: "string \<Rightarrow> string" where
  "healthResponse status = ''{'' @ quoted ''status'' @ '':'' @ quoted status @ ''}'' @ [CHR 0x0A]"

definition health_script :: "nat \<Rightarrow> string \<Rightarrow> action list" where
  "health_script status body0 = [SetHeader ''Content-Type'' ''application/json'', WriteHeader status, Write body0]"

definition health :: "mw_request \<Rightarrow> action list \<times> panic option" where
  "health r = (health_script 200 (healthResponse ''ok''), None)"

text \<open>\<open>ping timeout\<close> is the error of \<^verbatim>\<open>db.PingContext\<close> under that deadline; no database is \<open>None\<close>.\<close>

definition ready :: "(duration \<Rightarrow> string option) option \<Rightarrow> mw_request \<Rightarrow> action list \<times> panic option" where
  "ready db r =
     (case db of
        None \<Rightarrow> (health_script 200 (healthResponse ''ok''), None)
      | Some ping \<Rightarrow>
          (case ping readinessPingTimeout of
             None \<Rightarrow> (health_script 200 (healthResponse ''ok''), None)
           | Some err \<Rightarrow> (health_script 503 (healthResponse ''unavailable''), None)))"

subsection \<open>The outer muxes\<close>

text \<open>\<^verbatim>\<open>path.Clean\<close> of a rooted path, segment by segment, and \<^verbatim>\<open>cleanPath\<close> of \<^verbatim>\<open>net/http\<close>, which keeps a trailing slash.\<close>

fun clean_loop :: "string list \<Rightarrow> string list \<Rightarrow> string list" where
  "clean_loop acc [] = rev acc"
| "clean_loop acc (x # xs) =
     (if x = '''' \<or> x = ''.'' then clean_loop acc xs
      else if x = ''..'' then clean_loop (tl acc) xs
      else clean_loop (x # acc) xs)"

definition cleanPath :: "string \<Rightarrow> string" where
  "cleanPath p =
     (if p = '''' then ''/''
      else let p1 = (if hd p \<noteq> CHR ''/'' then CHR ''/'' # p else p);
               np = CHR ''/'' # Join ''/'' (clean_loop [] (Split (CHR ''/'') p1))
           in if last p1 = CHR ''/'' \<and> np \<noteq> ''/'' then np @ ''/'' else np)"

definition serves_get :: "string \<Rightarrow> bool" where
  "serves_get m \<longleftrightarrow> m = ''GET'' \<or> m = ''HEAD''"

datatype root_target = RedirectTo string | HealthRoute | ReadyRoute | BehindLimiter

text \<open>The root mux: \<^verbatim>\<open>GET /health\<close>, \<^verbatim>\<open>GET /health/ready\<close> and \<^verbatim>\<open>/\<close>.\<close>

definition root_lookup :: "string \<Rightarrow> string \<Rightarrow> root_target" where
  "root_lookup m path =
     (if m \<noteq> ''CONNECT'' \<and> cleanPath path \<noteq> path then RedirectTo (cleanPath path)
      else if path = ''/health'' \<and> serves_get m then HealthRoute
      else if path = ''/health/ready'' \<and> serves_get m then ReadyRoute
      else BehindLimiter)"

datatype mux_target = InnerRedirect string | DebugVars | V1 string | ResolveCode string | NoRoute | WrongMethod

text \<open>
  The mux behind the limiter: \<^verbatim>\<open>GET /debug/vars\<close>, \<^verbatim>\<open>/v1/\<close> and, with links, \<^verbatim>\<open>/{code}\<close>. A path that lacks only the trailing
  slash of a subtree is redirected, unless a pattern takes it as it is.
\<close>

definition inner_lookup :: "bool \<Rightarrow> string \<Rightarrow> string \<Rightarrow> mux_target" where
  "inner_lookup links m path =
     (if path = ''/debug/vars'' then (if serves_get m then DebugVars else WrongMethod)
      else if take 4 path = ''/v1/'' then V1 (drop 3 path)
      else if links \<and> length path > 1 \<and> hd path = CHR ''/'' \<and> CHR ''/'' \<notin> set (tl path) then ResolveCode (tl path)
      else if path = ''/v1'' then InnerRedirect ''/v1/''
      else NoRoute)"

record parts =
  sp_globalLimiter :: middleware
  sp_authenticated :: middleware
  sp_expvar :: http_handler
  sp_v1 :: http_handler
  sp_resolve :: "http_handler option"
  sp_db :: "(duration \<Rightarrow> string option) option"
  sp_redirectPage :: "string \<Rightarrow> string"

definition http_error :: "nat \<Rightarrow> string \<Rightarrow> action list" where
  "http_error status msg = [SetHeader ''Content-Type'' ''text/plain; charset=utf-8'', SetHeader ''X-Content-Type-Options'' ''nosniff'',
     WriteHeader status, Write (msg @ [CHR 0x0A])]"

definition redirect :: "parts \<Rightarrow> string \<Rightarrow> http_handler" where
  "redirect p url = application (\<lambda>r.
     ([SetHeader ''Location'' url] @ (if serves_get (mq_Method r) then [SetHeader ''Content-Type'' ''text/html; charset=utf-8''] else []) @
      [WriteHeader 301] @ (if mq_Method r = ''GET'' then [Write (sp_redirectPage p url)] else []), None))"

definition serve_mux :: "parts \<Rightarrow> http_handler" where
  "serve_mux p r w =
     (case inner_lookup (sp_resolve p \<noteq> None) (mq_Method r) (mq_Path r) of
        InnerRedirect url \<Rightarrow> redirect p url r w
      | DebugVars \<Rightarrow> sp_authenticated p (CacheControl ''/debug/vars'' (sp_expvar p)) r w
      | V1 path \<Rightarrow> CacheControl ''/auth/'' (sp_v1 p) (r\<lparr>mq_Path := path\<rparr>) w
      | ResolveCode code \<Rightarrow> (case sp_resolve p of Some h \<Rightarrow> h r w | None \<Rightarrow> application (\<lambda>_. (http_error 404 ''404 page not found'', None)) r w)
      | NoRoute \<Rightarrow> application (\<lambda>_. (http_error 404 ''404 page not found'', None)) r w
      | WrongMethod \<Rightarrow> application (\<lambda>_. (SetHeader ''Allow'' ''GET, HEAD'' # http_error 405 ''Method Not Allowed'', None)) r w)"

definition serve_root :: "parts \<Rightarrow> http_handler" where
  "serve_root p r w =
     (case root_lookup (mq_Method r) (mq_Path r) of
        RedirectTo url \<Rightarrow> redirect p url r w
      | HealthRoute \<Rightarrow> application health r w
      | ReadyRoute \<Rightarrow> application (ready (sp_db p)) r w
      | BehindLimiter \<Rightarrow> sp_globalLimiter p (serve_mux p) r w)"

subsection \<open>What /debug/vars shows\<close>

record dbStatsVars =
  ds_MaxOpenConnections :: int
  ds_OpenConnections :: int
  ds_InUse :: int
  ds_Idle :: int
  ds_WaitCount :: int
  ds_WaitDuration :: string

text \<open>\<open>stats\<close> is \<^verbatim>\<open>db.Stats()\<close>, with its wait as a duration.\<close>

definition dbStatsSnapshot :: "(duration \<Rightarrow> string) \<Rightarrow> (int \<times> int \<times> int \<times> int \<times> int \<times> duration) option \<Rightarrow> dbStatsVars" where
  "dbStatsSnapshot durString stats =
     (case stats of
        None \<Rightarrow> \<lparr>ds_MaxOpenConnections = 0, ds_OpenConnections = 0, ds_InUse = 0, ds_Idle = 0, ds_WaitCount = 0, ds_WaitDuration = ''''\<rparr>
      | Some (maxOpen, opened, inUse, idle, waitCount, wait) \<Rightarrow>
          \<lparr>ds_MaxOpenConnections = maxOpen, ds_OpenConnections = opened, ds_InUse = inUse, ds_Idle = idle, ds_WaitCount = waitCount,
           ds_WaitDuration = durString wait\<rparr>)"

datatype breaker_state = StateClosed | StateOpen | StateHalfOpen

record breaker_counts =
  bc_State :: breaker_state
  bc_ConsecutiveFailures :: int
  bc_FailureThreshold :: int
  bc_OpenedAt :: "time option"
  bc_Manual :: bool

record attachmentBreakerVars =
  bv_State :: string
  bv_ConsecutiveFailures :: int
  bv_FailureThreshold :: int
  bv_OpenedAt :: string
  bv_Manual :: bool

text \<open>\<open>stateString\<close> and \<open>rfc3339\<close> are \<^verbatim>\<open>State.String\<close> of the library and \<^verbatim>\<open>time.Format\<close>; a zero \<^verbatim>\<open>OpenedAt\<close> is \<open>None\<close>.\<close>

definition attachmentBreakerSnapshot :: "(breaker_state \<Rightarrow> string) \<Rightarrow> (time \<Rightarrow> string) \<Rightarrow> breaker_counts option \<Rightarrow> attachmentBreakerVars" where
  "attachmentBreakerSnapshot stateString rfc3339 counts =
     (case counts of
        None \<Rightarrow> \<lparr>bv_State = ''disabled'', bv_ConsecutiveFailures = 0, bv_FailureThreshold = 0, bv_OpenedAt = '''', bv_Manual = False\<rparr>
      | Some c \<Rightarrow> \<lparr>bv_State = stateString (bc_State c), bv_ConsecutiveFailures = bc_ConsecutiveFailures c,
          bv_FailureThreshold = bc_FailureThreshold c, bv_OpenedAt = (case bc_OpenedAt c of None \<Rightarrow> '''' | Some t \<Rightarrow> rfc3339 t),
          bv_Manual = bc_Manual c\<rparr>)"

definition dbBreakerOpenTimeout :: duration where
  "dbBreakerOpenTimeout = 30 * Second"

record state_change =
  sc_Name :: string
  sc_From :: breaker_state
  sc_To :: breaker_state
  sc_Manual :: bool

record call_event =
  ce_Name :: string
  ce_State :: breaker_state
  ce_Counted :: bool
  ce_Err :: "string option"

definition on_state_change :: "(breaker_state \<Rightarrow> string) \<Rightarrow> string \<Rightarrow> state_change \<Rightarrow> log_line list" where
  "on_state_change stateString msg ev =
     [\<lparr>ll_Level = (if sc_To ev = StateOpen then LogWarn else LogInfo), ll_Msg = msg,
       ll_Attrs = [(''breaker'', AText (sc_Name ev)), (''from'', AText (stateString (sc_From ev))), (''to'', AText (stateString (sc_To ev))),
         (''manual'', AFlag (sc_Manual ev))]\<rparr>]"

definition on_call :: "(breaker_state \<Rightarrow> string) \<Rightarrow> string \<Rightarrow> call_event \<Rightarrow> log_line list" where
  "on_call stateString msg ev =
     (case ce_Err ev of
        None \<Rightarrow> []
      | Some err \<Rightarrow>
          if \<not> ce_Counted ev then []
          else [\<lparr>ll_Level = LogWarn, ll_Msg = msg,
                 ll_Attrs = [(''breaker'', AText (ce_Name ev)), (''state'', AText (stateString (ce_State ev))), (''error'', AText err)]\<rparr>])"

text \<open>The two pairs of hooks: what to log at a change of state and at a call.\<close>

definition attachmentBreakerHooks :: "(breaker_state \<Rightarrow> string) \<Rightarrow> (state_change \<Rightarrow> log_line list) \<times> (call_event \<Rightarrow> log_line list)" where
  "attachmentBreakerHooks stateString =
     (on_state_change stateString ''attachment store circuit breaker state change'', on_call stateString ''attachment store call failed'')"

definition dbBreakerHooks :: "(breaker_state \<Rightarrow> string) \<Rightarrow> (state_change \<Rightarrow> log_line list) \<times> (call_event \<Rightarrow> log_line list)" where
  "dbBreakerHooks stateString =
     (on_state_change stateString ''postgres circuit breaker state change'', on_call stateString ''postgres call failed'')"

subsection \<open>Periodic cleanup\<close>

definition sessionCleanupInterval :: duration where
  "sessionCleanupInterval = 1 * Hour"

datatype cleanup_event = Tick time | CtxDone

text \<open>
  \<open>prune now\<close> is \<^verbatim>\<open>PruneExpiredSessions\<close> with the text of its error, \<open>collect\<close> the sweep of the blobs when there is a store. A
  pass works on the sessions and on the blobs.
\<close>

definition log_error :: "string \<Rightarrow> (string \<times> attr) list \<Rightarrow> log_line" where
  "log_error msg as = \<lparr>ll_Level = LogError, ll_Msg = msg, ll_Attrs = as\<rparr>"

definition cleanup_tick :: "(time \<Rightarrow> 'u \<Rightarrow> string option \<times> 'u) \<Rightarrow> (time \<Rightarrow> 'b \<Rightarrow> (string option \<times> nat) \<times> 'b) option \<Rightarrow> time
    \<Rightarrow> 'u \<times> 'b \<Rightarrow> log_line list \<times> ('u \<times> 'b)" where
  "cleanup_tick prune collectOrphans now ub =
     (case ub of (u, b) \<Rightarrow>
      case prune now u of (perr, u') \<Rightarrow>
      let l1 = (case perr of None \<Rightarrow> [] | Some err \<Rightarrow> [log_error ''session cleanup failed'' [(''error'', AText err)]]) in
      case collectOrphans of
        None \<Rightarrow> (l1, (u', b))
      | Some collect \<Rightarrow>
          (case collect now b of ((cerr, deleted), b') \<Rightarrow>
            (l1 @ (case cerr of
                Some err \<Rightarrow> [log_error ''orphan blob cleanup failed'' [(''error'', AText err), (''deleted'', ANum (int deleted))]]
              | None \<Rightarrow> if deleted > 0
                  then [\<lparr>ll_Level = LogInfo, ll_Msg = ''orphan blobs removed'', ll_Attrs = [(''count'', ANum (int deleted))]\<rparr>] else []),
             (u', b'))))"

fun runPeriodicCleanup :: "(time \<Rightarrow> 'u \<Rightarrow> string option \<times> 'u) \<Rightarrow> (time \<Rightarrow> 'b \<Rightarrow> (string option \<times> nat) \<times> 'b) option \<Rightarrow> cleanup_event list
    \<Rightarrow> 'u \<times> 'b \<Rightarrow> log_line list \<times> ('u \<times> 'b)" where
  "runPeriodicCleanup prune collect [] ub = ([], ub)"
| "runPeriodicCleanup prune collect (CtxDone # evs) ub = ([], ub)"
| "runPeriodicCleanup prune collect (Tick now # evs) ub =
     (case cleanup_tick prune collect now ub of (l1, ub1) \<Rightarrow>
      case runPeriodicCleanup prune collect evs ub1 of (l2, ub2) \<Rightarrow> (l1 @ l2, ub2))"


fun ticks :: "cleanup_event list \<Rightarrow> time list" where
  "ticks [] = []"
| "ticks (CtxDone # evs) = []"
| "ticks (Tick now # evs) = now # ticks evs"

text \<open>
  Neither pass of the cleanup depends on the other: whatever errors either one reports, at every tick until the context ends the
  expired sessions are pruned and, when there is a blob store, the orphans are swept, each exactly once, and after the end
  nothing is touched.
\<close>

theorem cleanup_passes_independent:
  "snd (runPeriodicCleanup prune collect evs (u, b)) =
     (fold (\<lambda>now u. snd (prune now u)) (ticks evs) u,
      fold (\<lambda>now b. case collect of None \<Rightarrow> b | Some c \<Rightarrow> snd (c now b)) (ticks evs) b)"
proof (induction evs arbitrary: u b rule: ticks.induct)
  case (3 now evs)
  have "snd (cleanup_tick prune collect now (u, b)) = (snd (prune now u), case collect of None \<Rightarrow> b | Some c \<Rightarrow> snd (c now b))"
    by (simp add: cleanup_tick_def Let_def split: prod.splits option.splits)
  with 3 show ?case by (simp add: split_beta)
qed simp_all

subsection \<open>Probes through the whole chain\<close>

lemma rootHandler_cong:
  assumes "sets_headers hs (ce_secureheaders e)" and "csrf_protector verified mint (ce_protect e)"
    and "\<And>w. root (seen e r) w = root' (seen e r) w"
  shows "rootHandler e root r new_writer = rootHandler e root' r new_writer"
proof -
  have "Recovery (ce_stack e) root (seen e r) w = Recovery (ce_stack e) root' (seen e r) w" for w
    using assms(3) by (simp add: Recovery_def)
  then have "inside e verified mint hs root r = inside e verified mint hs root' r" by (simp add: inside_def Let_def)
  then show ?thesis by (simp add: rootHandler_inside [OF assms(1,2)])
qed

text \<open>What the chain gives for a handler that is a script on this request and does not panic.\<close>

lemma script_through_chain:
  assumes "sets_headers hs (ce_secureheaders e)" and "csrf_protector verified mint (ce_protect e)"
    and "isSafeMethod (mq_Method r)" and "mq_Method r \<noteq> ''OPTIONS''"
    and "\<And>w. root (seen e r) w = application f (seen e r) w"
    and "f (seen e r) = (as, None)" and "list_all final_action as" and "script_status as = Some c"
    and "rootHandler e root r new_writer = (q, w)"
  shows "q = None \<and> fst (response w) = c \<and> w_Body w = script_body as \<and>
    (\<exists>line. w_Log w = [line] \<and> ll_Level line = log_level_of [''/health'', ''/health/ready''] (mq_Path r) c)"
proof -
  have adm: "admitted e verified r" "\<not> preflight e r" using assms(3,4) by (simp_all add: admitted_def preflight_def)
  obtain w' d where w': "inside e verified mint hs (application f) r = (None, w')" "settled d w'" "(d, w_Body w') = answer_of e verified f r"
    "w_Log w' = []"
    using inside_outcome [of f e r verified mint hs] assms(6,7) by auto
  have "answer_of e verified f r = (c, script_body as)" using adm assms(6,8) by (simp add: answer_of_def script_outcome_def)
  with w'(3) have d: "d = c" "w_Body w' = script_body as" by auto
  have "rootHandler e root r new_writer = (None, w'\<lparr>w_Recorder := None, w_Log := w_Log w' @ [access_line e r w']\<rparr>)"
    using rootHandler_cong [where root = root and root' = "application f", OF assms(1,2,5)] rootHandler_inside [OF assms(1,2), of "application f" r] w'(1) by simp
  with assms(9) have w: "q = None" "w = w'\<lparr>w_Recorder := None, w_Log := [access_line e r w']\<rparr>" using w'(4) by auto
  have "response w = response w'" by (simp add: w(2) response_def split: option.splits)
  then show ?thesis using settled_response [OF w'(2)] w d by (auto simp: access_line_def Let_def)
qed

lemma clean_probes: "cleanPath ''/health'' = ''/health''" "cleanPath ''/health/ready'' = ''/health/ready''"
  by (simp_all add: cleanPath_def Let_def)

text \<open>
  C37. The probes answer whatever the rest of the server does: for every rate limiter, authentication and application behind them,
  \<^verbatim>\<open>GET /health\<close> is answered 200 and \<^verbatim>\<open>GET /health/ready\<close> 200 exactly when there is no database or it answers the
  ping, else 503, through all the middlewares. The successful ones are logged at debug level only, an unready one as an error.
\<close>

theorem probes_answer_under_load:
  assumes "sets_headers hs (ce_secureheaders e)" and "csrf_protector verified mint (ce_protect e)"
    and "serves_get (mq_Method r)" and "mq_Path r = ''/health'' \<or> mq_Path r = ''/health/ready''"
    and "rootHandler e (serve_root p) r new_writer = (q, w)"
  shows "let up = (mq_Path r = ''/health'' \<or> (case sp_db p of None \<Rightarrow> True | Some ping \<Rightarrow> ping readinessPingTimeout = None)) in
    q = None \<and> fst (response w) = (if up then 200 else 503) \<and> w_Body w = healthResponse (if up then ''ok'' else ''unavailable'') \<and>
    (\<exists>line. w_Log w = [line] \<and> ll_Level line = (if up then LogDebug else LogError))"
proof -
  let ?f = "if mq_Path r = ''/health'' then health else ready (sp_db p)"
  have root: "serve_root p (seen e r) w = application ?f (seen e r) w" for w
    using assms(3,4) by (auto simp: serve_root_def root_lookup_def clean_probes)
  have safe: "isSafeMethod (mq_Method r)" "mq_Method r \<noteq> ''OPTIONS''" using assms(3) by (auto simp: serves_get_def isSafeMethod_def)
  define up where "up \<longleftrightarrow> mq_Path r = ''/health'' \<or> (case sp_db p of None \<Rightarrow> True | Some ping \<Rightarrow> ping readinessPingTimeout = None)"
  have f: "?f (seen e r) = (health_script (if up then 200 else 503) (healthResponse (if up then ''ok'' else ''unavailable'')), None)"
    by (auto simp: up_def health_def ready_def split: option.splits)
  from script_through_chain [OF assms(1,2) safe root f _ _ assms(5), of "if up then 200 else 503"] assms(4)
  show ?thesis unfolding up_def [symmetric] Let_def by (auto simp: health_script_def log_level_of_def Let_def)
qed

definition demo_parts :: parts where
  "demo_parts = \<lparr>sp_globalLimiter = (\<lambda>next r w. (None, sr_WriteHeader 429 w)), sp_authenticated = (\<lambda>next r w. (None, sr_WriteHeader 401 w)),
     sp_expvar = (\<lambda>r w. (None, w)), sp_v1 = (\<lambda>r w. (None, w)), sp_resolve = None, sp_db = Some (\<lambda>_. Some ''connection refused''),
     sp_redirectPage = (\<lambda>_. [])\<rparr>"

text \<open>A limiter that refuses everything and a database that is down: alive, and not ready.\<close>

theorem probes_answer_under_load_witness:
  "fst (response (snd (rootHandler MiddlewareChain.demo_env (serve_root demo_parts) ((demo_mw_request ''GET'' [])\<lparr>mq_Path := ''/health''\<rparr>) new_writer))) = 200 \<and>
   fst (response (snd (rootHandler MiddlewareChain.demo_env (serve_root demo_parts) ((demo_mw_request ''GET'' [])\<lparr>mq_Path := ''/health/ready''\<rparr>) new_writer))) = 503"
proof -
  have "fst (response (snd (rootHandler MiddlewareChain.demo_env (serve_root demo_parts) r new_writer))) = (if mq_Path r = ''/health'' then 200 else 503)"
    if "r = (demo_mw_request ''GET'' [])\<lparr>mq_Path := path\<rparr>" "path \<in> {''/health'', ''/health/ready''}" for r path
  proof -
    obtain q w where run: "rootHandler MiddlewareChain.demo_env (serve_root demo_parts) r new_writer = (q, w)" by fastforce
    have "serves_get (mq_Method r)" "mq_Path r = ''/health'' \<or> mq_Path r = ''/health/ready''"
      using that by (auto simp: demo_mw_request_def serves_get_def)
    from probes_answer_under_load [OF demo_env_libs(1,2) this run] run show ?thesis by (simp add: demo_parts_def Let_def)
  qed
  from this [OF refl, of "''/health''"] this [OF refl, of "''/health/ready''"] show ?thesis by simp
qed

end
