(* ===== verification/Web.thy ===== *)
theory Web
  imports Operations Server
begin

text \<open>
  The server of the browser application (\<^verbatim>\<open>cmd/web\<close>): its configuration, the content security policy it computes from the page it
  serves, its chain of middlewares, and the handler that serves a file of the build when the path names one and the page
  otherwise. The digest, the parser of durations and \<^verbatim>\<open>http.FileServer\<close> are parameters; the file system is the function
  \<open>stat\<close>, which says whether a path exists and is a directory.
\<close>

subsection \<open>Configuration\<close>

record webConfig =
  wc_addr :: string
  wc_distDir :: string
  wc_apiOrigin :: string
  wc_hstsMaxAge :: duration
  wc_shutdownTimeout :: duration
  wc_preShutdownDelay :: duration

definition defaultWebAddr :: string where "defaultWebAddr = '':8080''"
definition defaultWebDistDir :: string where "defaultWebDistDir = ''/dist''"
definition defaultWebHSTSMaxAge :: duration where "defaultWebHSTSMaxAge = 365 * 24 * Hour"
definition defaultWebShutdownTimeout :: duration where "defaultWebShutdownTimeout = 10 * Second"
definition defaultWebReadHeaderTimeout :: duration where "defaultWebReadHeaderTimeout = 5 * Second"
definition defaultWebReadTimeout :: duration where "defaultWebReadTimeout = 10 * Second"
definition defaultWebWriteTimeout :: duration where "defaultWebWriteTimeout = 10 * Second"
definition defaultWebIdleTimeout :: duration where "defaultWebIdleTimeout = 60 * Second"

definition getenvDefault :: "env \<Rightarrow> string \<Rightarrow> string \<Rightarrow> string" where
  "getenvDefault e key def = (if Getenv e key \<noteq> '''' then Getenv e key else def)"

definition parseDurationDefault :: "config_lib \<Rightarrow> env \<Rightarrow> string \<Rightarrow> duration \<Rightarrow> duration cres" where
  "parseDurationDefault lib e key def =
     (let raw = Getenv e key in
      if raw = '''' then Inr def
      else case cl_ParseDuration lib raw of Inl err \<Rightarrow> Inl (key @ '': '' @ err) | Inr d \<Rightarrow> Inr d)"

definition loadConfig :: "config_lib \<Rightarrow> env \<Rightarrow> webConfig cres" where
  "loadConfig lib e =
     (let apiOrigin = TrimSpace (Getenv e ''WEB_API_ORIGIN'') in
      if apiOrigin = '''' then
        Inl (''WEB_API_ORIGIN is required '' @ [CHR 0xE2, CHR 0x80, CHR 0x94] @ '' the origin this server'' @ [CHR 0x27] @ ''s connect-src '' @
             ''allows, which must match VITE_API_BASE_URL baked into the build'')
      else case parseDurationDefault lib e ''WEB_HSTS_MAX_AGE'' defaultWebHSTSMaxAge of Inl err \<Rightarrow> Inl err | Inr hsts \<Rightarrow>
      (case parseDurationDefault lib e ''WEB_SHUTDOWN_TIMEOUT'' defaultWebShutdownTimeout of Inl err \<Rightarrow> Inl err | Inr shutdown \<Rightarrow>
      (case parseDurationDefault lib e ''WEB_PRE_SHUTDOWN_DELAY'' 0 of Inl err \<Rightarrow> Inl err | Inr delay \<Rightarrow>
        Inr \<lparr>wc_addr = getenvDefault e ''WEB_ADDR'' defaultWebAddr, wc_distDir = getenvDefault e ''WEB_DIST_DIR'' defaultWebDistDir,
             wc_apiOrigin = apiOrigin, wc_hstsMaxAge = hsts, wc_shutdownTimeout = shutdown, wc_preShutdownDelay = delay\<rparr>)))"

subsection \<open>Content security policy\<close>

definition open_tag :: string where "open_tag = ''<script>''"
definition close_tag :: string where "close_tag = ''</script>''"

text \<open>The text up to the first closing tag, and what follows the tag.\<close>

fun until_close :: "string \<Rightarrow> (string \<times> string) option" where
  "until_close [] = None"
| "until_close (c # cs) =
     (if take 9 (c # cs) = close_tag then Some ([], drop 9 (c # cs))
      else case until_close cs of None \<Rightarrow> None | Some (body0, rest) \<Rightarrow> Some (c # body0, rest))"

lemma until_close_length: "until_close s = Some (body0, rest) \<Longrightarrow> length rest < length s"
proof (induction s arbitrary: body0)
  case (Cons c cs)
  then show ?case by (fastforce split: if_splits option.splits)
qed simp

text \<open>The leftmost matches of \<^verbatim>\<open>(?s)<script>(.*?)</script>\<close>, one after the other.\<close>

function inline_scripts :: "string \<Rightarrow> string list" where
  "inline_scripts [] = []"
| "inline_scripts (c # cs) =
     (if take 8 (c # cs) = open_tag then
        (case until_close (drop 8 (c # cs)) of
           None \<Rightarrow> inline_scripts cs
         | Some (body0, rest) \<Rightarrow> body0 # inline_scripts rest)
      else inline_scripts cs)"
  by pat_completeness auto
termination
proof (relation "measure length", goal_cases)
  case (3 c cs p body0 rest)
  then have "length rest < length (drop 8 (c # cs))" using until_close_length by metis
  then show ?case by simp
qed simp_all

text \<open>\<open>sha256_base64\<close> is the digest in standard base64.\<close>

definition cspScriptHashes :: "(string \<Rightarrow> string) \<Rightarrow> string \<Rightarrow> string list" where
  "cspScriptHashes sha256_base64 html =
     map (\<lambda>body0. [CHR 0x27] @ ''sha256-'' @ sha256_base64 body0 @ [CHR 0x27]) (inline_scripts html)"

definition csp_quoted :: "string \<Rightarrow> string" where
  "csp_quoted s = [CHR 0x27] @ s @ [CHR 0x27]"

definition script_src :: "(string \<Rightarrow> string) \<Rightarrow> string \<Rightarrow> string" where
  "script_src sha256_base64 indexHTML =
     (let hashes = cspScriptHashes sha256_base64 indexHTML in
      csp_quoted ''self'' @ (if length hashes > 0 then '' '' @ Join '' '' hashes else ''''))"

definition buildCSP :: "(string \<Rightarrow> string) \<Rightarrow> string \<Rightarrow> string \<Rightarrow> string" where
  "buildCSP sha256_base64 indexHTML apiOrigin =
     Join ''; ''
       [''default-src '' @ csp_quoted ''self'', ''script-src '' @ script_src sha256_base64 indexHTML, ''style-src '' @ csp_quoted ''self'',
        ''img-src '' @ csp_quoted ''self'' @ '' data:'', ''font-src '' @ csp_quoted ''self'',
        ''connect-src '' @ csp_quoted ''self'' @ '' '' @ apiOrigin, ''object-src '' @ csp_quoted ''none'', ''base-uri '' @ csp_quoted ''none'',
        ''frame-ancestors '' @ csp_quoted ''none'']"

subsection \<open>Paths\<close>

text \<open>\<^verbatim>\<open>path.Clean\<close>, which \<^verbatim>\<open>filepath.Clean\<close> is here, and \<^verbatim>\<open>filepath.Join\<close> of two elements.\<close>

fun clean_rel :: "string list \<Rightarrow> string list \<Rightarrow> string list" where
  "clean_rel acc [] = rev acc"
| "clean_rel acc (x # xs) =
     (if x = '''' \<or> x = ''.'' then clean_rel acc xs
      else if x = ''..'' \<and> acc \<noteq> [] \<and> hd acc \<noteq> ''..'' then clean_rel (tl acc) xs
      else clean_rel (x # acc) xs)"

definition path_Clean :: "string \<Rightarrow> string" where
  "path_Clean p =
     (if p = '''' then ''.''
      else if hd p = CHR ''/'' then CHR ''/'' # Join ''/'' (clean_loop [] (Split (CHR ''/'') p))
      else let s = Join ''/'' (clean_rel [] (Split (CHR ''/'') p)) in if s = '''' then ''.'' else s)"

definition filepath_Join :: "string \<Rightarrow> string \<Rightarrow> string" where
  "filepath_Join a b =
     (let es = filter (\<lambda>x. x \<noteq> '''') [a, b] in if es = [] then '''' else path_Clean (Join ''/'' es))"

definition pathEscapesDir :: "string \<Rightarrow> string \<Rightarrow> bool" where
  "pathEscapesDir fsPath dir =
     (if fsPath = dir then False
      else take (length (dir @ ''/'')) fsPath \<noteq> dir @ ''/'')"

subsection \<open>Handlers\<close>

definition fs_path :: "string \<Rightarrow> mw_request \<Rightarrow> string" where
  "fs_path distDir r = filepath_Join (path_Clean distDir) (path_Clean (mq_Path r))"

definition spaHandler :: "(string \<Rightarrow> bool option) \<Rightarrow> (string \<Rightarrow> http_handler) \<Rightarrow> string \<Rightarrow> string \<Rightarrow> http_handler" where
  "spaHandler stat fileServer distDir indexHTML r w =
     (let cleanDistDir = path_Clean distDir; fsPath = fs_path distDir r in
      if pathEscapesDir fsPath cleanDistDir then application (\<lambda>_. (http_error 404 ''404 page not found'', None)) r w
      else if stat fsPath = Some False then
        fileServer distDir r
          (hdr_Set ''Cache-Control''
            (if take 8 (path_Clean (mq_Path r)) = ''/assets/'' then ''public, max-age=31536000, immutable'' else ''no-cache'') w)
      else application (\<lambda>_. ([SetHeader ''Content-Type'' ''text/html; charset=utf-8'', SetHeader ''Cache-Control'' ''no-cache'',
             WriteHeader 200, Write indexHTML], None)) r w)"

text \<open>The mux: \<^verbatim>\<open>GET /healthz\<close> and \<^verbatim>\<open>/\<close>; a path that is not clean is redirected first.\<close>

definition web_mux :: "parts \<Rightarrow> http_handler \<Rightarrow> http_handler" where
  "web_mux p spa r w =
     (if mq_Method r \<noteq> ''CONNECT'' \<and> cleanPath (mq_Path r) \<noteq> mq_Path r then redirect p (cleanPath (mq_Path r)) r w
      else if mq_Path r = ''/healthz'' \<and> serves_get (mq_Method r) then application (\<lambda>_. ([WriteHeader 200], None)) r w
      else spa r w)"

definition newHandler :: "chain_env \<Rightarrow> parts \<Rightarrow> (string \<Rightarrow> bool option) \<Rightarrow> (string \<Rightarrow> http_handler) \<Rightarrow> string \<Rightarrow> string \<Rightarrow> http_handler" where
  "newHandler e p stat fileServer distDir indexHTML =
     Chain [RequestID (ce_rnd e) (ce_now e), Logging [] (ce_elapsed e), ce_secureheaders e, Recovery (ce_stack e)]
       (web_mux p (spaHandler stat fileServer distDir indexHTML))"


subsection \<open>run\<close>

text \<open>How serving ends is as for the API server, here without a line for a failed shutdown.\<close>

definition web_serve :: "webConfig \<Rightarrow> ending \<Rightarrow> string option" where
  "web_serve cfg ending0 =
     (case ending0 of
        ServerFails err \<Rightarrow> Some (''server error: '' @ err)
      | SignalReceived sg \<Rightarrow>
          (case (if wc_preShutdownDelay cfg > 0 then sg_DrainFailure sg else None) of
             Some err \<Rightarrow> Some (''server error: '' @ err)
           | None \<Rightarrow>
               (case sg_Shutdown sg of
                  Some err \<Rightarrow> Some (''shutdown: '' @ err)
                | None \<Rightarrow> map_option (\<lambda>err. ''server error: '' @ err) (sg_Final sg))))"

text \<open>The result, with the policy the server was built with.\<close>

definition web_run :: "config_lib \<Rightarrow> env \<Rightarrow> (string \<Rightarrow> string cres) \<Rightarrow> (string \<Rightarrow> string) \<Rightarrow> ending \<Rightarrow> string option \<times> string option" where
  "web_run lib e readFile sha256_base64 ending0 =
     (case loadConfig lib e of
        Inl err \<Rightarrow> (Some (''load config: '' @ err), None)
      | Inr cfg \<Rightarrow>
          (let indexPath = filepath_Join (wc_distDir cfg) ''index.html'' in
           case readFile indexPath of
             Inl err \<Rightarrow> (Some (''read '' @ indexPath @ '': '' @ err), None)
           | Inr indexHTML \<Rightarrow> (web_serve cfg ending0, Some (buildCSP sha256_base64 indexHTML (wc_apiOrigin cfg)))))"

subsection \<open>Clean paths\<close>

definition plain_segment :: "string \<Rightarrow> bool" where
  "plain_segment s \<longleftrightarrow> s \<noteq> '''' \<and> s \<noteq> ''.'' \<and> s \<noteq> ''..'' \<and> CHR ''/'' \<notin> set s"

definition path_of :: "string list \<Rightarrow> string" where
  "path_of segs = concat (map (\<lambda>s. CHR ''/'' # s) segs)"

lemma path_of_Join: "segs \<noteq> [] \<Longrightarrow> CHR ''/'' # Join ''/'' segs = path_of segs"
  by (induction "''/''" segs rule: Join.induct) (simp_all add: path_of_def)

lemma Split_parts: "x \<in> set (Split sep s) \<Longrightarrow> sep \<notin> set x"
proof (induction s arbitrary: x)
  case (Cons c cs)
  then show ?case by (cases "Split sep cs") (auto split: if_splits)
qed simp

lemma clean_loop_plain:
  "list_all (\<lambda>s. CHR ''/'' \<notin> set s) xs \<Longrightarrow> list_all plain_segment acc \<Longrightarrow> list_all plain_segment (clean_loop acc xs)"
proof (induction acc xs rule: clean_loop.induct)
  case (2 acc x xs)
  moreover have "list_all plain_segment (tl acc)" using "2.prems"(2) by (cases acc) auto
  ultimately show ?case by (auto simp: plain_segment_def [of x])
qed (simp add: list_all_iff)

definition segments :: "string \<Rightarrow> string list" where
  "segments p = clean_loop [] (Split (CHR ''/'') p)"

lemma segments_plain: "list_all plain_segment (segments p)"
  unfolding segments_def by (rule clean_loop_plain) (auto simp: list_all_iff Split_parts)

lemma clean_loop_append: "clean_loop acc (xs @ ys) = clean_loop (rev (clean_loop acc xs)) ys"
  by (induction acc xs rule: clean_loop.induct) auto

lemma clean_loop_id: "list_all plain_segment xs \<Longrightarrow> clean_loop acc xs = rev acc @ xs"
  by (induction xs arbitrary: acc) (auto simp: plain_segment_def)

lemma clean_rel_id: "list_all plain_segment xs \<Longrightarrow> clean_rel acc xs = rev acc @ xs"
  by (induction xs arbitrary: acc) (auto simp: plain_segment_def)

lemma Split_append: "Split sep (x @ sep # y) = Split sep x @ Split sep y"
proof (induction x)
  case (Cons c x)
  then show ?case by (cases "Split sep x") simp_all
qed simp

lemma Split_path_of: "list_all plain_segment segs \<Longrightarrow> segs \<noteq> [] \<Longrightarrow> Split (CHR ''/'') (path_of segs) = [] # segs"
  using Split_Join [of segs "CHR ''/''"] by (simp add: path_of_Join [symmetric] list_all_iff plain_segment_def)

lemma path_Clean_rooted:
  "p \<noteq> '''' \<Longrightarrow> hd p = CHR ''/'' \<Longrightarrow> path_Clean p = (if segments p = [] then ''/'' else path_of (segments p))"
  using path_of_Join [of "segments p"] by (auto simp: path_Clean_def segments_def)

lemma segments_Clean:
  "p \<noteq> '''' \<Longrightarrow> hd p = CHR ''/'' \<Longrightarrow> segments (path_Clean p) = segments p"
  using segments_plain [of p] Split_path_of [of "segments p"] clean_loop_id [of "segments p" "[]"]
  by (simp add: path_Clean_rooted segments_def)

lemma segments_append: "segments (x @ CHR ''/'' # y) = clean_loop (rev (segments x)) (Split (CHR ''/'') y)"
  by (simp add: segments_def Split_append clean_loop_append)

lemma path_Clean_not_Nil: "path_Clean p \<noteq> ''''"
  by (auto simp: path_Clean_def Let_def)


lemma clean_after:
  assumes "list_all plain_segment ds" and "p \<noteq> ''''" and "hd p = CHR ''/''"
  shows "clean_loop (rev ds) (Split (CHR ''/'') (path_Clean p)) = ds @ segments p"
    and "clean_rel (rev ds) (Split (CHR ''/'') (path_Clean p)) = ds @ segments p"
  using segments_plain [of p] Split_path_of [of "segments p"] assms(2,3)
  by (auto simp: path_Clean_rooted clean_loop_id clean_rel_id)

lemma fs_path_absolute:
  assumes "distDir \<noteq> ''''" and "hd distDir = CHR ''/''" and "mq_Path r \<noteq> ''''" and "hd (mq_Path r) = CHR ''/''"
  shows "fs_path distDir r = (if segments distDir @ segments (mq_Path r) = [] then ''/'' else path_of (segments distDir @ segments (mq_Path r)))"
proof -
  let ?D = "path_Clean distDir" and ?P = "path_Clean (mq_Path r)"
  have rooted: "?D @ CHR ''/'' # ?P \<noteq> ''''" "hd (?D @ CHR ''/'' # ?P) = CHR ''/''"
    using assms(1,2) by (auto simp: path_Clean_def)
  have "segments (?D @ CHR ''/'' # ?P) = segments distDir @ segments (mq_Path r)"
    using clean_after(1) [OF segments_plain assms(3,4), of distDir] segments_Clean [OF assms(1,2)] by (simp add: segments_append)
  moreover have "fs_path distDir r = path_Clean (?D @ CHR ''/'' # ?P)"
    by (simp add: fs_path_def filepath_Join_def path_Clean_not_Nil Let_def)
  ultimately show ?thesis using path_Clean_rooted [OF rooted] by simp
qed

definition index_page :: "string \<Rightarrow> http_handler" where
  "index_page indexHTML = application (\<lambda>_. ([SetHeader ''Content-Type'' ''text/html; charset=utf-8'', SetHeader ''Cache-Control'' ''no-cache'',
     WriteHeader 200, Write indexHTML], None))"

lemma path_of_append [simp]: "path_of (xs @ ys) = path_of xs @ path_of ys" "path_of [] = []"
  by (simp_all add: path_of_def)

lemma path_of_Cons: "path_of (s # ss) = CHR ''/'' # s @ path_of ss"
  by (simp add: path_of_def)

lemma assets_prefix:
  assumes "list_all plain_segment segs"
  shows "take 8 (if segs = [] then ''/'' else path_of segs) = ''/assets/'' \<longleftrightarrow> 2 \<le> length segs \<and> hd segs = ''assets''"
proof (cases segs)
  case (Cons s ss)
  have "take 7 (s @ path_of ss) = ''assets/'' \<longleftrightarrow> ss \<noteq> [] \<and> s = ''assets''"
  proof
    assume "take 7 (s @ path_of ss) = ''assets/''"
    then have split: "s @ path_of ss = ''assets'' @ CHR ''/'' # drop 7 (s @ path_of ss)"
      by (metis append.assoc append_Cons append_Nil append_take_drop_id)
    have noslash: "CHR ''/'' \<notin> set s" using assms Cons by (simp add: plain_segment_def)
    show "ss \<noteq> [] \<and> s = ''assets''"
    proof (cases ss)
      case Nil
      then have "CHR ''/'' \<in> set s" using split by (metis append_Nil2 in_set_conv_decomp path_of_append(2))
      with noslash show ?thesis by simp
    next
      case (Cons t ts)
      with split split_at_sep [of s "CHR ''/''" "t @ path_of ts" "''assets''"] noslash show ?thesis by (simp add: path_of_Cons)
    qed
  next
    assume "ss \<noteq> [] \<and> s = ''assets''"
    then show "take 7 (s @ path_of ss) = ''assets/''" by (cases ss) (simp_all add: path_of_Cons)
  qed
  with Cons show ?thesis by (cases ss) (simp_all add: path_of_Cons)
qed simp

text \<open>
  C40. With the build in a directory given by an absolute path other than the root, whatever path a request names, the file looked up lies in that
  directory: its path is the directory followed by plain names only, with no way up, and the check for an escape never refuses it. What exists there and
  is no directory is served with the cache policy of its place; a directory, or a name that does not exist, gets the page itself with
  status 200. For a build in \<^verbatim>\<open>.\<close> or \<^verbatim>\<open>/\<close> see below.
\<close>

theorem spa_stays_in_the_build:
  assumes "distDir \<noteq> ''''" and "hd distDir = CHR ''/''" and "path_Clean distDir \<noteq> ''/''"
    and "mq_Path r \<noteq> ''''" and "hd (mq_Path r) = CHR ''/''"
  shows "\<exists>segs. list_all plain_segment segs \<and> fs_path distDir r = path_Clean distDir @ path_of segs \<and>
    spaHandler stat fileServer distDir indexHTML r w =
      (if stat (path_Clean distDir @ path_of segs) = Some False
       then fileServer distDir r (hdr_Set ''Cache-Control''
         (if 2 \<le> length segs \<and> hd segs = ''assets'' then ''public, max-age=31536000, immutable'' else ''no-cache'') w)
       else index_page indexHTML r w)"
proof -
  let ?segs = "segments (mq_Path r)" and ?D = "path_Clean distDir"
  have D: "?D = path_of (segments distDir)" using assms(3) path_Clean_rooted [OF assms(1,2)] by auto
  have fs: "fs_path distDir r = ?D @ path_of ?segs"
    using fs_path_absolute [OF assms(1,2,4,5)] assms(3) path_Clean_rooted [OF assms(1,2)] D by (auto split: if_splits)
  have inside_dir: "\<not> pathEscapesDir (?D @ path_of ?segs) ?D"
    by (cases ?segs) (simp_all add: pathEscapesDir_def path_of_Cons)
  have assets: "take 8 (path_Clean (mq_Path r)) = ''/assets/'' \<longleftrightarrow> 2 \<le> length ?segs \<and> hd ?segs = ''assets''"
    using assets_prefix [OF segments_plain, of "mq_Path r"] by (simp add: path_Clean_rooted [OF assms(4,5)])
  show ?thesis
    by (rule exI [of _ ?segs]) (simp add: segments_plain fs spaHandler_def inside_dir assets index_page_def Let_def)
qed


theorem spa_stays_in_the_build_witness:
  "fs_path ''/dist'' ((demo_mw_request ''GET'' [])\<lparr>mq_Path := ''/../../etc/passwd''\<rparr>) = ''/dist/etc/passwd'' \<and>
   (\<exists>segs. list_all plain_segment segs \<and> fs_path ''/dist'' ((demo_mw_request ''GET'' [])\<lparr>mq_Path := ''/../../etc/passwd''\<rparr>) = ''/dist'' @ path_of segs)"
proof -
  let ?r = "(demo_mw_request ''GET'' [])\<lparr>mq_Path := ''/../../etc/passwd''\<rparr>"
  have "path_Clean ''/dist'' = ''/dist''" by (simp add: path_Clean_def)
  with spa_stays_in_the_build [of "''/dist''" ?r] have "\<exists>segs. list_all plain_segment segs \<and> fs_path ''/dist'' ?r = ''/dist'' @ path_of segs"
    by fastforce
  moreover have "fs_path ''/dist'' ?r = ''/dist/etc/passwd''" by (simp add: fs_path_def filepath_Join_def path_Clean_def Let_def)
  ultimately show ?thesis by blast
qed

subsection \<open>A build in the current directory or at the root\<close>

lemma plain_not_dot:
  assumes "list_all plain_segment segs" and "segs \<noteq> []"
  shows "take 2 (Join ''/'' segs) \<noteq> ''./'' \<and> Join ''/'' segs \<noteq> ''.'' \<and> Join ''/'' segs \<noteq> ''''"
proof -
  obtain c s ss where segs: "segs = (c # s) # ss" "plain_segment (c # s)"
    using assms by (cases segs; cases "hd segs") (auto simp: plain_segment_def)
  then show ?thesis by (cases s; cases ss) (auto simp: plain_segment_def numeral_2_eq_2)
qed

text \<open>
  A build directory of \<^verbatim>\<open>/\<close> or \<^verbatim>\<open>.\<close> hides the whole build: the check for an escape compares with the directory and a
  separator after it, which no path below these two begins with, so every path that names anything is answered 404, whether
  the file exists or not, and the page is served for \<^verbatim>\<open>/\<close> alone.
\<close>

theorem root_dist_hides_the_build:
  assumes "distDir = ''/'' \<or> distDir = ''.''" and "mq_Path r \<noteq> ''''" and "hd (mq_Path r) = CHR ''/''" and "segments (mq_Path r) \<noteq> []"
  shows "spaHandler stat fileServer distDir indexHTML r w = application (\<lambda>_. (http_error 404 ''404 page not found'', None)) r w"
proof -
  let ?segs = "segments (mq_Path r)"
  have P: "path_Clean (mq_Path r) = path_of ?segs" using assms(4) path_Clean_rooted [OF assms(2,3)] by simp
  obtain s ss where seg: "?segs = s # ss" using assms(4) by (cases ?segs) auto
  have plain: "plain_segment s" using segments_plain [of "mq_Path r"] seg by simp
  have "pathEscapesDir (fs_path distDir r) (path_Clean distDir)"
  proof (cases "distDir = ''/''")
    case True
    then have "fs_path distDir r = path_of ?segs" using fs_path_absolute [of distDir r] assms by (simp add: segments_def)
    with True plain seg show ?thesis
      by (cases s) (auto simp: pathEscapesDir_def path_Clean_def path_of_Cons plain_segment_def)
  next
    case False
    then have dot: "distDir = ''.''" using assms(1) by simp
    note nd = plain_not_dot [OF segments_plain assms(4)]
    have "Split (CHR ''/'') (CHR ''.'' # CHR ''/'' # path_of ?segs) = ''.'' # Split (CHR ''/'') (path_of ?segs)" by simp
    then have "clean_rel [] (Split (CHR ''/'') (CHR ''.'' # CHR ''/'' # path_of ?segs)) = ?segs"
      using clean_after(2) [of "[]" "mq_Path r"] assms(2,3) P by simp
    then have "fs_path distDir r = Join ''/'' ?segs"
      using nd P seg by (simp add: dot fs_path_def filepath_Join_def path_of_Cons path_Clean_def [of "CHR ''.'' # _"] Let_def)
    with dot nd show ?thesis by (simp add: pathEscapesDir_def path_Clean_def numeral_2_eq_2)
  qed
  then show ?thesis by (simp add: spaHandler_def Let_def)
qed

theorem root_dist_hides_the_build_witness:
  "spaHandler (\<lambda>_. Some False) (\<lambda>_ _ w. (None, w)) ''.'' ''<html>'' ((demo_mw_request ''GET'' [])\<lparr>mq_Path := ''/assets/index.js''\<rparr>) new_writer =
   application (\<lambda>_. (http_error 404 ''404 page not found'', None)) ((demo_mw_request ''GET'' [])\<lparr>mq_Path := ''/assets/index.js''\<rparr>) new_writer"
  using root_dist_hides_the_build [of "''.''" "(demo_mw_request ''GET'' [])\<lparr>mq_Path := ''/assets/index.js''\<rparr>"] by (simp add: segments_def)

end
