(* ===== verification/Seed.thy ===== *)
theory Seed
  imports Config
begin

text \<open>
  The command that fills a database with demo data (\<^verbatim>\<open>cmd/seed\<close>): the guard on emptying the tables, the random tasks and their
  status, and the loop that registers the users and creates their tasks through the services, whose models it calls. The random
  numbers are inputs. The status is drawn with the floating-point arithmetic of the source: a weight is a \<^verbatim>\<open>float64\<close>, sums are rounded to
  53 bits, and the draw is a multiple of two to the power -53, as \<^verbatim>\<open>rand.Float64\<close> makes it.
\<close>

subsection \<open>Data\<close>

definition verbs :: "string list" where
  "verbs = [''Buy'', ''Fix'', ''Review'', ''Schedule'', ''Write'', ''Clean'', ''Renew'', ''Update'',
     ''Call'', ''Plan'', ''Organize'', ''Back up'', ''Test'', ''Deploy'', ''Refactor'',
     ''Document'', ''Research'', ''Cancel'', ''Book'', ''Return'']"

definition subjects :: "string list" where
  "subjects = [''groceries'', ''the leaking faucet'', ''the pull request'', ''a dentist appointment'',
     ''unit tests for the payment service'', ''the garage'', ''the passport'',
     ''project dependencies'', ''the plumber'', ''the team offsite'',
     ''the quarterly report'', ''the database backups'', ''the staging environment'',
     ''the onboarding docs'', ''the API rate limits'', ''the client meeting'',
     ''the car insurance'', ''the flight tickets'', ''the birthday gift'',
     ''the home office setup'']"

definition descriptions :: "string list" where
  "descriptions = ['''', '''', '''', ''Needs to be done before Friday.'',
     ''Low priority '' @ [CHR 0xE2, CHR 0x80, CHR 0x94] @ '' whenever there'' @ [CHR 0x27] @ ''s time.'',
     ''Follow up with the team before starting.'', ''Double-check with the manager first.'',
     ''Blocked until the previous step is done.'', ''Reminder from last week'' @ [CHR 0x27] @ ''s meeting.'',
     ''High priority.'', ''Can be delegated if needed.'']"

text \<open>\<^verbatim>\<open>xs[rand.IntN(len(xs))]\<close>, with any number for the draw.\<close>

definition pick :: "'a list \<Rightarrow> nat \<Rightarrow> 'a" where
  "pick xs k = xs ! (k mod length xs)"

definition randomTask :: "nat \<Rightarrow> nat \<Rightarrow> nat \<Rightarrow> string \<times> string" where
  "randomTask k1 k2 k3 = (pick verbs k1 @ '' '' @ pick subjects k2, pick descriptions k3)"

definition randomPriority :: "nat \<Rightarrow> priority" where
  "randomPriority k = pick [PriorityLow, PriorityMedium, PriorityHigh] k"

subsection \<open>The status\<close>

text \<open>A finite \<^verbatim>\<open>float64\<close> as its integer multiple of two to the power -60; rounding to 53 significant bits, ties to even.\<close>

fun bit_length :: "nat \<Rightarrow> nat" where
  "bit_length n = (if n = 0 then 0 else Suc (bit_length (n div 2)))"

declare bit_length.simps [simp del]

definition round53 :: "nat \<Rightarrow> nat" where
  "round53 n =
     (let d = bit_length n - 53; unit = 2 ^ d; q = n div unit; r = n mod unit in
      if 2 * r > unit \<or> (2 * r = unit \<and> odd q) then (q + 1) * unit else q * unit)"

definition statusWeights :: "(status \<times> nat) list" where
  "statusWeights = [(StatusPending, 6305039478318694 * 2 ^ 6), (StatusInProgress, 2 ^ 58), (StatusDone, 5404319552844595 * 2 ^ 6),
     (StatusCancelled, 7205759403792794 * 2 ^ 4)]"

fun status_loop :: "nat \<Rightarrow> nat \<Rightarrow> (status \<times> nat) list \<Rightarrow> status" where
  "status_loop roll cumulative [] = StatusPending"
| "status_loop roll cumulative ((st, weight) # sws) =
     (let cumulative' = round53 (cumulative + weight) in if roll < cumulative' then st else status_loop roll cumulative' sws)"

text \<open>The draw \<open>k\<close> below two to the power 53 stands for its quotient by that power.\<close>

definition randomStatus :: "nat \<Rightarrow> status" where
  "randomStatus k = status_loop (k * 2 ^ 7) 0 statusWeights"

subsection \<open>The guard\<close>

text \<open>\<open>parse\<close> is \<^verbatim>\<open>url.Parse\<close>, with the scheme and the host name of its result.\<close>

definition isLocalDatabase :: "(string \<Rightarrow> (string \<times> string) cres) \<Rightarrow> string \<Rightarrow> bool" where
  "isLocalDatabase parse databaseURL =
     (case parse databaseURL of
        Inl _ \<Rightarrow> False
      | Inr (scheme, hostname) \<Rightarrow>
          if scheme \<noteq> ''postgres'' \<and> scheme \<noteq> ''postgresql'' then False
          else hostname \<in> {''localhost'', ''127.0.0.1'', ''::1''})"

record seedOptions =
  se_users :: int
  se_password :: string
  se_tasksPerUser :: int
  se_reset :: bool
  se_allowRemoteReset :: bool

subsection \<open>The loop\<close>

text \<open>What one task draws, and what the services read outside themselves.\<close>

record draw =
  dr_title :: "nat \<times> nat \<times> nat"
  dr_priority :: nat
  dr_roll :: nat
  dr_rnd :: "string + 8 word list"
  dr_now :: time

record ('u, 's) seed_env =
  sn_ulib :: user_lib
  sn_urepo :: "'u user_repo"
  sn_tlib :: task_lib
  sn_trepo :: "'s task_repo"
  sn_uctx :: uctxs
  sn_ctx :: ctxs
  sn_clock :: clock
  sn_salt :: "nat \<Rightarrow> string"
  sn_userRnd :: "nat \<Rightarrow> string + 8 word list"
  sn_draw :: "nat \<Rightarrow> nat \<Rightarrow> draw"
  sn_utext :: "user_err \<Rightarrow> string"
  sn_ttext :: "task_err \<Rightarrow> string"
  sn_IsPrint :: "nat \<Rightarrow> bool"

definition demo_email :: "nat \<Rightarrow> string" where
  "demo_email i = ''demo-user-'' @ Itoa (int i) @ ''@example.com''"

definition seed_user :: "('u, 's) seed_env \<Rightarrow> string \<Rightarrow> nat \<Rightarrow> 'u user_svc \<Rightarrow> (string + user) \<times> 'u user_svc" where
  "seed_user n password i us =
     (let email = demo_email i in
      case Register (sn_ulib n) (sn_urepo n) (sn_uctx n) (sn_clock n) (sn_salt n i) (sn_userRnd n i) email password us of
        (Inr u, us1) \<Rightarrow> (Inr u, us1)
      | (Inl err, us1) \<Rightarrow>
          if \<not> errors_Is err UErrAlreadyExists then (Inl (''register '' @ email @ '': '' @ error_text (sn_utext n) err), us1)
          else (case Authenticate (sn_ulib n) (sn_urepo n) (sn_uctx n) (sn_clock n) email password us1 of
                  (Inl err2, us2) \<Rightarrow> (Inl (email @ '' already exists with a different password than -password='' @ Quote (sn_IsPrint n) password @
                    '' (run with -reset to start over): '' @ error_text (sn_utext n) err2), us2)
                | (Inr u, us2) \<Rightarrow> (Inr u, us2)))"

definition nth_of :: "nat \<Rightarrow> int \<Rightarrow> nat \<Rightarrow> string" where
  "nth_of j per_user i = Itoa (int j + 1) @ ''/'' @ Itoa per_user @ '' for '' @ demo_email i"

definition seed_task :: "('u, 's) seed_env \<Rightarrow> int \<Rightarrow> string \<Rightarrow> nat \<Rightarrow> nat \<Rightarrow> 's \<Rightarrow> (string + status) \<times> 's" where
  "seed_task n per_user userID i j s =
     (let d = sn_draw n i j; (k1, k2, k3) = dr_title d; (title, description) = randomTask k1 k2 k3 in
      case CreateTask (sn_tlib n) (sn_trepo n) (sn_ctx n) (dr_now d) (dr_rnd d) userID title description (randomPriority (dr_priority d)) s of
        (Inl err, s1) \<Rightarrow> (Inl (''create task '' @ nth_of j per_user i @ '': '' @ error_text (sn_ttext n) err), s1)
      | (Inr created, s1) \<Rightarrow>
          (let target = randomStatus (dr_roll d) in
           if target \<noteq> StatusPending then
             (case TransitionStatus (sn_tlib n) (sn_trepo n) (sn_ctx n) (dr_now d) userID (t_ID created) target s1 of
                (Inl err, s2) \<Rightarrow> (Inl (''transition task '' @ nth_of j per_user i @ '' to '' @ target @ '': '' @ error_text (sn_ttext n) err), s2)
              | (Inr _, s2) \<Rightarrow> (Inr target, s2))
           else (Inr target, s1)))"

text \<open>The tasks of user \<open>i\<close>, from the \<open>j\<close>-th, as many as remain, with the statuses of all the tasks so far.\<close>

fun seed_tasks :: "('u, 's) seed_env \<Rightarrow> int \<Rightarrow> string \<Rightarrow> nat \<Rightarrow> nat \<Rightarrow> nat \<Rightarrow> status list \<Rightarrow> 's \<Rightarrow> (string + status list) \<times> 's" where
  "seed_tasks n per_user userID i j 0 acc s = (Inr acc, s)"
| "seed_tasks n per_user userID i j (Suc k) acc s =
     (case seed_task n per_user userID i j s of
        (Inl err, s1) \<Rightarrow> (Inl err, s1)
      | (Inr st, s1) \<Rightarrow> seed_tasks n per_user userID i (Suc j) k (acc @ [st]) s1)"

fun seed_users :: "('u, 's) seed_env \<Rightarrow> seedOptions \<Rightarrow> nat \<Rightarrow> nat \<Rightarrow> status list \<Rightarrow> 'u user_svc \<times> 's \<Rightarrow> (string + status list) \<times> ('u user_svc \<times> 's)" where
  "seed_users n opts i 0 acc st = (Inr acc, st)"
| "seed_users n opts i (Suc k) acc (us, s) =
     (case seed_user n (se_password opts) i us of
        (Inl err, us1) \<Rightarrow> (Inl err, (us1, s))
      | (Inr u, us1) \<Rightarrow>
          (case seed_tasks n (se_tasksPerUser opts) (u_ID u) i 0 (nat (se_tasksPerUser opts)) acc s of
             (Inl err, s1) \<Rightarrow> (Inl err, (us1, s1))
           | (Inr acc1, s1) \<Rightarrow> seed_users n opts (Suc i) k acc1 (us1, s1)))"

definition tally :: "status list \<Rightarrow> status \<Rightarrow> string" where
  "tally sts st = Itoa (int (count_list sts st))"

definition seeded_line :: "(nat \<Rightarrow> bool) \<Rightarrow> seedOptions \<Rightarrow> status list \<Rightarrow> string" where
  "seeded_line isPrint opts sts =
     ''seeded '' @ Itoa (se_users opts) @ '' demo users (password: '' @ Quote isPrint (se_password opts) @ '') and '' @ Itoa (int (length sts)) @
     '' tasks (pending='' @ tally sts StatusPending @ '' in_progress='' @ tally sts StatusInProgress @
     '' done='' @ tally sts StatusDone @ '' cancelled='' @ tally sts StatusCancelled @ '')''"

text \<open>
  \<^verbatim>\<open>run\<close>: the error, if any, and the lines printed. \<open>connect\<close> is the error of opening the database, the ping or the migrations;
  \<open>emptyTables\<close> is the \<^verbatim>\<open>TRUNCATE\<close>.
\<close>

definition seed_run :: "('u, 's) seed_env \<Rightarrow> (string \<Rightarrow> (string \<times> string) cres) \<Rightarrow> config cres \<Rightarrow> (string \<Rightarrow> string option)
    \<Rightarrow> ('u user_svc \<times> 's \<Rightarrow> string option \<times> ('u user_svc \<times> 's)) \<Rightarrow> seedOptions
    \<Rightarrow> 'u user_svc \<times> 's \<Rightarrow> (string option \<times> string list) \<times> ('u user_svc \<times> 's)" where
  "seed_run n parse load connect emptyTables opts st =
     (if se_users opts < 0 then ((Some (''invalid -users '' @ Itoa (se_users opts) @ '': must not be negative''), []), st)
      else if se_tasksPerUser opts < 0
      then ((Some (''invalid -tasks-per-user '' @ Itoa (se_tasksPerUser opts) @ '': must not be negative''), []), st)
      else case load of
        Inl err \<Rightarrow> ((Some (''load config: '' @ err), []), st)
      | Inr cfg \<Rightarrow>
      if cf_DatabaseURL cfg = ''''
      then ((Some (''DATABASE_URL must be set '' @ [CHR 0xE2, CHR 0x80, CHR 0x94] @ '' seeding the in-memory store has no observable effect''), []), st)
      else if se_reset opts \<and> \<not> se_allowRemoteReset opts \<and> \<not> isLocalDatabase parse (cf_DatabaseURL cfg)
      then ((Some (''refusing -reset against a non-local DATABASE_URL: '' @ ''-reset irreversibly TRUNCATEs users, sessions and tasks. '' @
                   ''Re-run with -allow-remote-reset if this really is the database you meant''), []), st)
      else case connect (cf_DatabaseURL cfg) of
        Some err \<Rightarrow> ((Some err, []), st)
      | None \<Rightarrow>
      (case (if se_reset opts then emptyTables st else (None, st)) of
         (Some err, st1) \<Rightarrow> ((Some (''reset database: '' @ err), []), st1)
       | (None, st1) \<Rightarrow>
           (let out = (if se_reset opts then [''users, sessions and tasks tables emptied''] else []) in
            if se_users opts = 0 then ((None, out @ [''no users requested (-users=0); nothing seeded'']), st1)
            else case seed_users n opts 1 (nat (se_users opts)) [] st1 of
              (Inl err, st2) \<Rightarrow> ((Some err, out), st2)
            | (Inr sts, st2) \<Rightarrow> ((None, out @ [seeded_line (sn_IsPrint n) opts sts]), st2))))"

subsection \<open>What is guaranteed\<close>

text \<open>
  The tables are emptied only on request, and only when the database is on this machine or the remote one was acknowledged: otherwise
  what emptying would do has no influence on the run.
\<close>

theorem reset_needs_local_or_acknowledged:
  assumes "load = Inr cfg" and "\<not> se_reset opts \<or> \<not> se_allowRemoteReset opts \<and> \<not> isLocalDatabase parse (cf_DatabaseURL cfg)"
  shows "seed_run n parse load connect emptyTables opts st = seed_run n parse load connect emptyTables' opts st"
  using assms by (auto simp: seed_run_def)

lemma bit_length_le: "n < 2 ^ b \<Longrightarrow> bit_length n \<le> b"
proof (induction n arbitrary: b rule: bit_length.induct)
  case (1 n)
  show ?case
  proof (cases "n = 0")
    case False
    with "1.prems" obtain b' where b': "b = Suc b'" by (cases b) auto
    with "1.prems" have "n div 2 < 2 ^ b'" by simp
    with "1.IH" [OF False] b' False show ?thesis by (simp add: bit_length.simps [of n])
  qed (simp add: bit_length.simps)
qed

lemma bit_length_ge: "2 ^ b \<le> n \<Longrightarrow> b < bit_length n"
proof (induction b arbitrary: n)
  case 0
  then show ?case by (simp add: bit_length.simps [of n])
next
  case (Suc b)
  then have "2 ^ b \<le> n div 2" by simp
  moreover have "n \<noteq> 0" using Suc.prems by (metis not_less zero_less_numeral zero_less_power)
  ultimately show ?case using Suc.IH [of "n div 2"] by (simp add: bit_length.simps [of n])
qed

lemma bit_length_eq: "2 ^ b \<le> n \<Longrightarrow> n < 2 ^ Suc b \<Longrightarrow> bit_length n = Suc b"
  using bit_length_le [of n "Suc b"] bit_length_ge [of b n] by simp

lemma cumulative_sums:
  "round53 (0 + 6305039478318694 * 2 ^ 6) = 3152519739159347 * 2 ^ 7"
  "round53 (3152519739159347 * 2 ^ 7 + 2 ^ 58) = 5404319552844595 * 2 ^ 7"
  "round53 (5404319552844595 * 2 ^ 7 + 5404319552844595 * 2 ^ 6) = 8106479329266892 * 2 ^ 7"
  "round53 (8106479329266892 * 2 ^ 7 + 7205759403792794 * 2 ^ 4) = 9007199254740991 * 2 ^ 7"
  using bit_length_eq [of 58 "6305039478318694 * 2 ^ 6"] bit_length_eq [of 59 "3152519739159347 * 2 ^ 7 + 2 ^ 58"]
    bit_length_eq [of 59 "5404319552844595 * 2 ^ 7 + 5404319552844595 * 2 ^ 6"] bit_length_eq [of 59 "8106479329266892 * 2 ^ 7 + 7205759403792794 * 2 ^ 4"]
  by (simp_all add: round53_def Let_def)

text \<open>
  The status drawn, for every draw. The rounded weights sum to one minus two to the power -53, so the largest draw falls through the
  loop to the return that the comment in the source calls unreachable. Whatever is drawn, one transition takes a new task there.
\<close>

theorem random_status_reachable:
  "randomStatus k =
     (if k < 3152519739159347 then StatusPending else if k < 5404319552844595 then StatusInProgress
      else if k < 8106479329266892 then StatusDone else if k < 2 ^ 53 - 1 then StatusCancelled else StatusPending) \<and>
   (randomStatus k = StatusPending \<or> legal StatusPending (randomStatus k))"
proof -
  have "randomStatus k =
     (if k < 3152519739159347 then StatusPending else if k < 5404319552844595 then StatusInProgress
      else if k < 8106479329266892 then StatusDone else if k < 2 ^ 53 - 1 then StatusCancelled else StatusPending)"
    unfolding randomStatus_def statusWeights_def status_loop.simps Let_def cumulative_sums by simp
  then show ?thesis by (simp add: legal_def legalTransitions_def StatusPending_def StatusInProgress_def StatusDone_def StatusCancelled_def)
qed

end
