(* ===== verification/Spec2Isabelle.thy ===== *)
theory Spec2Isabelle
  imports TaskCache TaskConditional AccountDeletion UserSessions Breakers Migrations Links Server Operations Web Seed
begin

text \<open>
  A model of the task API and of what makes it correct. The program is a Go service: three domains (tasks, accounts with their
  sessions, attachments) and short links, each a package with a handler, a service and a repository interface; two implementations of
  every repository, in memory and over PostgreSQL, the latter behind a circuit breaker; an optional cache in front of the task
  lists; two blob stores; a chain of middlewares; and the composition root that opens, wires and closes all of it. Three more
  commands share its packages: the migrations, the seeding of demo data and the server of the browser application.

  \<^bold>\<open>How the model relates to the code.\<close> A Go function is a HOL function of the same name where the name is free (a prefix tells
  apart methods that several types have: \<open>mem_\<close>, \<open>pg_\<close>, \<open>brk_\<close>, \<open>cached_\<close>, \<open>um_\<close>, \<open>up_\<close>, \<open>am_\<close>, \<open>ap_\<close>, \<open>fs_\<close>, \<open>s3_\<close>).
  Structs are records, sentinel errors a datatype per package, and an error value the tree \<open>gerr\<close> of \<open>GoPrelude\<close>, so that
  \<^verbatim>\<open>errors.Is\<close> sees through wrapping as in the code. State is passed explicitly: a store is an argument and a result. A map is an
  association list whose order stands for the iteration order, which every theorem leaves open. Strings are bytes, with
  UTF-8 decoding where the code counts runes; 64-bit arithmetic is written with words where it can overflow (the
  login backoff, the lifetime of a link); time is nanoseconds. The clock, the random bytes and the outcome of a context are
  inputs of each call, so the theorems hold for all of them.

  \<^bold>\<open>Foundations.\<close> \<open>GoPrelude\<close>: errors, maps, time. \<open>GoStrings\<close>: the functions of \<^verbatim>\<open>strings\<close>, \<^verbatim>\<open>strconv\<close> and
  \<^verbatim>\<open>unicode/utf8\<close> that are called, with their round trips. \<open>Pgerr\<close>: \<^verbatim>\<open>internal/platform/pgerr\<close>.

  \<^bold>\<open>Tasks\<close> (\<^verbatim>\<open>internal/task\<close>). \<open>TaskModel\<close>: the data and the contract of the repository interface, the locale
  \<open>task_repository\<close>, which relates every call to an atomic step \<open>task_step\<close> of an abstract store. \<open>TaskMemory\<close> and
  \<open>TaskPostgres\<close> are the two repositories, the latter statement by statement with a fault or a lost answer at each; both
  interpret the locale, as does \<open>TaskBreaker\<close>, the breaker around any repository. \<open>TaskCache\<close> is the cache-aside layer.
  \<open>TaskService\<close> is the business logic, over any repository of the contract; \<open>TaskCalls\<close> runs of its calls, \<open>TaskConcurrency\<close> requests
  interleaved between their read and their write. \<open>TaskHandler\<close>, \<open>TaskCSV\<close>, \<open>TaskRoutes\<close> and \<open>TaskConditional\<close> are the HTTP face.
  Shown: stored tasks stay well formed and status changes legal under every interleaving; nobody reads or changes another user's
  tasks, up to the responses of the HTTP interface (non-interference); a write succeeds exactly when it is the whole operation done at once, and the second of two writers conflicts; both
  backends answer alike up to the spelling of an identifier in upper case; cached lists are fresh after invalidation; pages tile the listing; a 304 means an unchanged task; an export
  read back as CSV is the tasks, with no formula in it.

  \<^bold>\<open>Accounts\<close> (\<^verbatim>\<open>internal/user\<close>). \<open>UserModel\<close>, \<open>LoginBackoff\<close>, \<open>UserMemory\<close>, \<open>UserService\<close> and \<open>UserHandler\<close> follow the files of
  the package; \<open>UserPostgres\<close> is the repository over PostgreSQL and \<open>UserSessions\<close> the transactions of concurrent logins,
  statement by statement. \<open>UserGuarantees\<close> shows registration and login, indistinguishable failures, revocation in one
  process and, across processes, within two seconds once the validations under way are finished, and the race in which a revoked token is accepted again.

  \<^bold>\<open>Attachments\<close> (\<^verbatim>\<open>internal/attachment\<close>). \<open>AttachModel\<close>, \<open>AttachStore\<close> (the file system store, with the locale \<open>blob_contract\<close>),
  \<open>AttachService\<close>, \<open>AttachHandler\<close>; \<open>AttachSystem\<close> is a step relation of uploads, deletions, downloads and the orphan collector
  interleaved call by call, over which \<open>AttachGuarantees\<close> shows that no row is ever without its bytes. \<open>AttachPostgres\<close> refines the
  in-memory repository, up to the case of identifiers and the precision of times, and shows that a sweep over it removes exactly the
  orphaned storage keys (over the in-memory repository also foreign files, against the comment on \<^verbatim>\<open>CollectOrphans\<close>), and
  the one way a row can lose its bytes, a lost answer; \<open>AttachS3\<close> is the object store behind its two breakers, over the client library as a parameter.

  \<^bold>\<open>Links\<close> (\<^verbatim>\<open>internal/link\<close>): the service and handler over the library \<^verbatim>\<open>cairn\<close>, ownership, and the wrap-around of a long lifetime.

  \<^bold>\<open>Between the domains.\<close> \<open>Breakers\<close>: the shared breaker as the three domains use it. \<open>AccountDeletion\<close>: the cascade over tasks,
  attachments and blobs, which is complete when it is not cancelled (a file whose removal fails is left as an orphan) and confined to the user whatever
  fails. \<open>Middleware\<close> and
  \<open>MiddlewareChain\<close>: \<^verbatim>\<open>internal/middleware\<close> and the chain of the composition root, with what is answered and logged for every
  application behind it, the headers every response carries, and the gap between the CSRF gate and the authentication.

  \<^bold>\<open>The process\<close> (\<^verbatim>\<open>cmd/api\<close>, \<^verbatim>\<open>internal/config\<close>, \<^verbatim>\<open>internal/platform/migrate\<close>). \<open>Config\<close>: the \<^verbatim>\<open>.env\<close> file and \<^verbatim>\<open>Load\<close>; what it returns
  is well formed. \<open>Migrations\<close>: both directions, convergence after any failures, and one revert at a time,
  of the latest migration only. \<open>Crier\<close>: the
  mirror of the log, which never gates it. \<open>Server\<close>: \<^verbatim>\<open>run\<close>, \<^verbatim>\<open>newServer\<close> and \<^verbatim>\<open>closeAll\<close> as a sequence of events, with every failure of a
  constructor or a closing call; the order of shutdown, in which endings closing waits for the requests, and exactly what stays open after a failed start or a failed close.
  \<open>Operations\<close>: the probes, the outer muxes, \<^verbatim>\<open>/debug/vars\<close>, the breaker hooks, the periodic cleanup.

  \<^bold>\<open>Other commands.\<close> \<open>Web\<close>: \<^verbatim>\<open>cmd/web\<close>, its policy and its file handler, which never leaves the directory of the build.
  \<open>Seed\<close>: \<^verbatim>\<open>cmd/seed\<close>, with the floating-point draw of a status.

  \<^bold>\<open>Loops.\<close> Every function is total: the loops are structural recursions or have a measure (the runes and the scripts of a text, the
  steps of a migration). No fuel is used; a bound appears only where the code has one (a hundred calls of
  \<^verbatim>\<open>LogValue\<close>, the 64 KiB of a scanner line). The theorems on runs quantify over finite sequences of events of any length.

  \<^bold>\<open>Parameters.\<close> Libraries outside the repository are arguments, with what is relied on as named hypotheses that a concrete
  instance satisfies in the witnesses: the circuit breaker (\<^verbatim>\<open>bastion\<close>), the cache (\<^verbatim>\<open>cistern\<close>), the S3 client, the link shortener
  (\<^verbatim>\<open>cairn\<close>), the CSRF protector and the security headers (\<^verbatim>\<open>moat\<close>), the log engine (\<^verbatim>\<open>crier\<close>), bcrypt (of which only that a hash accepts
  its own password is assumed) and the e-mail parser. PostgreSQL is modelled by the effect of each statement on the tables, with its faults; its
  reading of identifiers and array literals is a parameter. The codec of the cache is the identity.

  \<^bold>\<open>Not modelled.\<close> The \<^verbatim>\<open>main\<close> functions (flags, signals, exit status); the registration of names with \<^verbatim>\<open>expvar\<close>; the optional
  interfaces of the response recorder (\<^verbatim>\<open>Flush\<close>, \<^verbatim>\<open>Hijack\<close>, \<^verbatim>\<open>Push\<close>); JSON decoding and multipart parsing, whose results are
  inputs of the handlers; conditional requests of \<^verbatim>\<open>http.ServeContent\<close>; query strings of redirects and escaped bytes of
  paths in the outer muxes. The browser application and the deployment files are not Go code of the service.
\<close>

end
